(* ===== verification/Prelude.thy ===== *)
theory Prelude
  imports Main "HOL-Library.Word" "HOL-Library.List_Lexorder" "HOL-Library.Char_ord"
begin

unbundle bit_operations_syntax

text \<open>
  What the components share: the result type of fallible Rust code and its sequencing, checked
  indexing and slicing (an out-of-range access is the value \<open>Panic\<close>, as the Rust runtime aborts
  the thread there), little-endian 32-bit integers, and the contracts that several components
  instantiate (a byte codec that can be embedded at any position of a buffer, and a transition
  system with an inductive invariant).
\<close>

named_theorems res_simps \<open>rewriting of results and their sequencing\<close>

section \<open>Results\<close>

text \<open>
  A Rust \<open>Result\<close> is a sum. \<open>Err e\<close> is an error value the function returns; \<open>Panic\<close> stands for
  an aborted thread (index or slice out of range, a string sliced inside a character).
\<close>

datatype 'e fault = Panic | Err 'e

type_synonym ('a, 'e) res = "'e fault + 'a"

type_synonym byte = "8 word"
type_synonym u16 = "16 word"
type_synonym u32 = "32 word"
type_synonym u64 = "64 word"

abbreviation Ok :: "'a \<Rightarrow> ('a, 'e) res" where
  "Ok \<equiv> Inr"

abbreviation fail :: "'e \<Rightarrow> ('a, 'e) res" where
  "fail e \<equiv> Inl (Err e)"

abbreviation panic :: "('a, 'e) res" where
  "panic \<equiv> Inl Panic"

text \<open>The \<open>?\<close> operator.\<close>

definition bind :: "('a, 'e) res \<Rightarrow> ('a \<Rightarrow> ('b, 'e) res) \<Rightarrow> ('b, 'e) res" where
  "bind m f = (case m of Inl e \<Rightarrow> Inl e | Inr x \<Rightarrow> f x)"

lemma bind_simps [simp, res_simps]:
  "bind (Inr x) f = f x"
  "bind (Inl e) f = Inl e"
  by (simp_all add: bind_def)

lemma bind_eq_Inr [simp]: "bind m f = Inr y \<longleftrightarrow> (\<exists>x. m = Inr x \<and> f x = Inr y)"
  by (cases m) auto

lemma bind_eq_Inl: "bind m f = Inl e \<longleftrightarrow> m = Inl e \<or> (\<exists>x. m = Inr x \<and> f x = Inl e)"
  by (cases m) auto

lemma bind_cong [fundef_cong]:
  "m = m' \<Longrightarrow> (\<And>x. m' = Inr x \<Longrightarrow> f x = f' x) \<Longrightarrow> bind m f = bind m' f'"
  by (cases m') auto

text \<open>\<open>safe m\<close>: the computation does not abort.\<close>

definition safe :: "('a, 'e) res \<Rightarrow> bool" where
  "safe m \<longleftrightarrow> m \<noteq> Inl Panic"

lemma safe_simps [simp, res_simps]:
  "safe (Inr x)"
  "safe (Inl (Err e))"
  "\<not> safe (Inl Panic)"
  by (simp_all add: safe_def)

lemma safe_bind: "safe m \<Longrightarrow> (\<And>x. m = Inr x \<Longrightarrow> safe (f x)) \<Longrightarrow> safe (bind m f)"
  by (cases m) (auto simp: safe_def)

text \<open>A loop that pushes one result per element and stops at the first error.\<close>

fun mapM :: "('a \<Rightarrow> ('b, 'e) res) \<Rightarrow> 'a list \<Rightarrow> ('b list, 'e) res" where
  "mapM f [] = Ok []"
| "mapM f (x # xs) = bind (f x) (\<lambda>y. bind (mapM f xs) (\<lambda>ys. Ok (y # ys)))"

lemma mapM_Ok: "(\<And>x. x \<in> set xs \<Longrightarrow> f x = Ok (g x)) \<Longrightarrow> mapM f xs = Ok (map g xs)"
  by (induction xs) auto

lemma mapM_length: "mapM f xs = Ok ys \<Longrightarrow> length ys = length xs"
  by (induction xs arbitrary: ys) auto

lemma mapM_nth: "mapM f xs = Ok ys \<Longrightarrow> i < length xs \<Longrightarrow> f (xs ! i) = Ok (ys ! i)"
proof (induction xs arbitrary: ys i)
  case (Cons x xs)
  then show ?case by (cases i) auto
qed simp

lemma mapM_safe: "(\<And>x. x \<in> set xs \<Longrightarrow> safe (f x)) \<Longrightarrow> safe (mapM f xs)"
  by (induction xs) (auto intro!: safe_bind)

section \<open>Checked indexing and slicing\<close>

definition index_at :: "'a list \<Rightarrow> nat \<Rightarrow> ('a, 'e) res" where
  "index_at xs i = (if i < length xs then Ok (xs ! i) else panic)"

definition slice :: "'a list \<Rightarrow> nat \<Rightarrow> nat \<Rightarrow> ('a list, 'e) res" where
  "slice xs i j = (if i \<le> j \<and> j \<le> length xs then Ok (take (j - i) (drop i xs)) else panic)"

lemma index_at_append [simp]: "index_at (xs @ y # ys) (length xs) = Ok y"
  by (simp add: index_at_def)

lemma safe_index_at [simp]: "safe (index_at xs i) \<longleftrightarrow> i < length xs"
  by (simp add: index_at_def)

lemma slice_append [simp]: "slice (xs @ ys @ zs) (length xs) (length xs + length ys) = Ok ys"
  by (simp add: slice_def)

lemma slice_eq: "data = xs @ ys @ zs \<Longrightarrow> i = length xs \<Longrightarrow> j = i + length ys \<Longrightarrow> slice data i j = Ok ys"
  by simp

lemma safe_slice [simp]: "safe (slice xs i j) \<longleftrightarrow> i \<le> j \<and> j \<le> length xs"
  by (simp add: slice_def)

section \<open>Little-endian integers\<close>

definition to_le_bytes :: "u32 \<Rightarrow> byte list" where
  "to_le_bytes w = [ucast w, ucast (drop_bit 8 w), ucast (drop_bit 16 w), ucast (drop_bit 24 w)]"

definition from_le_bytes :: "byte \<Rightarrow> byte \<Rightarrow> byte \<Rightarrow> byte \<Rightarrow> u32" where
  "from_le_bytes b0 b1 b2 b3 =
     ucast b0 OR push_bit 8 (ucast b1) OR push_bit 16 (ucast b2) OR push_bit 24 (ucast b3)"

text \<open>\<open>u32::from_le_bytes([data[i], data[i+1], data[i+2], data[i+3]])\<close>.\<close>

definition u32_at :: "byte list \<Rightarrow> nat \<Rightarrow> (u32, 'e) res" where
  "u32_at data i =
     bind (index_at data i) (\<lambda>b0. bind (index_at data (i + 1)) (\<lambda>b1.
     bind (index_at data (i + 2)) (\<lambda>b2. bind (index_at data (i + 3)) (\<lambda>b3.
     Ok (from_le_bytes b0 b1 b2 b3)))))"

lemma length_to_le_bytes [simp]: "length (to_le_bytes w) = 4"
  by (simp add: to_le_bytes_def)

lemma le_bytes_roundtrip:
  "from_le_bytes (ucast w) (ucast (drop_bit 8 w)) (ucast (drop_bit 16 w)) (ucast (drop_bit 24 w)) = w"
proof (rule bit_word_eqI)
  fix n assume "n < LENGTH(32)"
  then have n: "n < 32" by simp
  consider "n < 8" | "8 \<le> n" "n < 16" | "16 \<le> n" "n < 24" | "24 \<le> n" using n by linarith
  then show "bit (from_le_bytes (ucast w) (ucast (drop_bit 8 w)) (ucast (drop_bit 16 w))
      (ucast (drop_bit 24 w))) n = bit w n"
    by cases (use n in \<open>auto simp: from_le_bytes_def bit_simps\<close>)
qed

lemma safe_u32_at: "i + 4 \<le> length data \<Longrightarrow> safe (u32_at data i)"
  by (simp add: u32_at_def index_at_def)

lemma u32_at_Ok: "i + 4 \<le> length data \<Longrightarrow>
  u32_at data i = Ok (from_le_bytes (data ! i) (data ! (i + 1)) (data ! (i + 2)) (data ! (i + 3)))"
  by (simp add: u32_at_def index_at_def)

lemma u32_at_append [simp]: "u32_at (xs @ to_le_bytes w @ ys) (length xs) = Ok w"
proof -
  have "from_le_bytes ((xs @ to_le_bytes w @ ys) ! length xs) ((xs @ to_le_bytes w @ ys) ! (length xs + 1))
      ((xs @ to_le_bytes w @ ys) ! (length xs + 2)) ((xs @ to_le_bytes w @ ys) ! (length xs + 3)) = w"
    by (simp add: to_le_bytes_def nth_append numeral_2_eq_2 numeral_3_eq_3 le_bytes_roundtrip)
  then show ?thesis
    by (subst u32_at_Ok) simp_all
qed

lemma u32_at_eq: "data = xs @ to_le_bytes w @ ys \<Longrightarrow> i = length xs \<Longrightarrow> u32_at data i = Ok w"
  by simp

section \<open>Byte codecs\<close>

text \<open>
  The contract of an encoder and a decoder that reads at a position of a larger buffer: an encoding
  is recovered wherever it sits, and the decoder stops right behind it. What the callers need of
  it is proved once: encodings are injective and prefix-free, and a sequence of encodings is read
  back by reading again and again.
\<close>

fun read_many :: "(byte list \<Rightarrow> nat \<Rightarrow> ('a \<times> nat, 'e) res) \<Rightarrow> nat \<Rightarrow> byte list \<Rightarrow> nat \<Rightarrow> ('a list \<times> nat, 'e) res" where
  "read_many rd 0 data pos = Ok ([], pos)"
| "read_many rd (Suc n) data pos =
     bind (rd data pos) (\<lambda>(x, pos). bind (read_many rd n data pos) (\<lambda>(xs, pos). Ok (x # xs, pos)))"

locale byte_codec =
  fixes enc :: "'a \<Rightarrow> byte list" and dec :: "byte list \<Rightarrow> nat \<Rightarrow> ('a \<times> nat, 'e) res"
  assumes dec_at: "dec (pre @ enc x @ post) (length pre) = Ok (x, length pre + length (enc x))"
begin

lemma prefix_free: "enc x @ a = enc y @ b \<Longrightarrow> x = y \<and> a = b"
proof -
  assume eq: "enc x @ a = enc y @ b"
  have "dec (enc x @ a) 0 = Ok (x, length (enc x))" using dec_at [of "[]" x a] by simp
  moreover have "dec (enc y @ b) 0 = Ok (y, length (enc y))" using dec_at [of "[]" y b] by simp
  ultimately have "x = y" using eq by simp
  with eq show ?thesis by simp
qed

lemma dec_many:
  "read_many dec (length xs) (pre @ concat (map enc xs) @ post) (length pre)
     = Ok (xs, length pre + length (concat (map enc xs)))"
proof (induction xs arbitrary: pre)
  case (Cons x xs)
  have "read_many dec (length xs) ((pre @ enc x) @ concat (map enc xs) @ post) (length (pre @ enc x))
      = Ok (xs, length (pre @ enc x) + length (concat (map enc xs)))"
    by (rule Cons.IH)
  then show ?case using dec_at [of pre x "concat (map enc xs) @ post"] by simp
qed simp

end

definition read_u32 :: "byte list \<Rightarrow> nat \<Rightarrow> (u32 \<times> nat, 'e) res" where
  "read_u32 data pos = bind (u32_at data pos) (\<lambda>w. Ok (w, pos + 4))"

interpretation u32_le: byte_codec to_le_bytes read_u32
  by unfold_locales (simp add: read_u32_def)

lemma word_less_suc: "(x :: 'a :: len word) \<noteq> - 1 \<Longrightarrow> x < x + 1"
  using unatSuc [of x] by (simp add: word_less_nat_alt add.commute eq_neg_iff_add_eq_0)

section \<open>Transition systems\<close>

text \<open>The states a step relation reaches, and the contract of an inductive invariant.\<close>

inductive reachable :: "('s \<Rightarrow> bool) \<Rightarrow> ('s \<Rightarrow> 's \<Rightarrow> bool) \<Rightarrow> 's \<Rightarrow> bool"
  for init :: "'s \<Rightarrow> bool" and step :: "'s \<Rightarrow> 's \<Rightarrow> bool" where
  start: "init s \<Longrightarrow> reachable init step s"
| next_step: "reachable init step s \<Longrightarrow> step s t \<Longrightarrow> reachable init step t"

locale inductive_invariant =
  fixes init :: "'s \<Rightarrow> bool" and step :: "'s \<Rightarrow> 's \<Rightarrow> bool" and inv :: "'s \<Rightarrow> bool"
  assumes init_inv: "init s \<Longrightarrow> inv s"
    and step_inv: "inv s \<Longrightarrow> step s t \<Longrightarrow> inv t"
begin

lemma reachable_inv: "reachable init step s \<Longrightarrow> inv s"
  by (induction rule: reachable.induct) (auto intro: init_inv step_inv)

lemma steps_inv: "step\<^sup>*\<^sup>* s t \<Longrightarrow> inv s \<Longrightarrow> inv t"
  by (induction rule: rtranclp_induct) (auto intro: step_inv)

end

end
