(* ===== verification/Vint.thy ===== *)
theory Vint
  imports Prelude
begin

text \<open>
  Variable-length integers of the front-coded dictionary (\<open>write_vint\<close> and \<open>read_vint\<close> of
  ferrodruid-dict): little-endian groups of seven bits, the high bit of a byte set when more bytes
  follow. The round trip is stated for an encoding that sits anywhere inside a larger buffer.
\<close>

section \<open>Model\<close>

datatype dict_error =
    VIntEof
  | VIntRange
  | BucketSizeZero
  | BucketSizeNotPow2
  | HeaderTooShort
  | UnsupportedVersion
  | TooManyValues
  | OffsetTableTruncated
  | FirstOffsetNotZero
  | OffsetsNotIncreasing
  | OffsetOutside
  | BucketDataOverflow
  | EntryDataOverflow
  | InvalidUtf8
  | PrefixTooLong
  | PrefixNotBoundary
  | BucketEndMismatch
  | NotVersion2

function write_vint :: "byte list \<Rightarrow> u32 \<Rightarrow> byte list" where
  "write_vint buf val =
     (if 0x80 \<le> val then write_vint (buf @ [ucast val OR 0x80]) (drop_bit 7 val)
      else buf @ [ucast val])"
  by pat_completeness auto

lemma unat_drop_bit_7_less: "0x80 \<le> (v :: u32) \<Longrightarrow> unat (drop_bit 7 v) < unat v"
proof -
  assume "0x80 \<le> v"
  then have "128 \<le> unat v" by (simp add: word_le_nat_alt)
  moreover have "unat (drop_bit 7 v) = unat v div 128"
    by (simp only: unat_drop_bit_eq) (simp add: drop_bit_eq_div)
  ultimately show ?thesis by simp
qed

termination write_vint
  by (relation "measure (\<lambda>(buf, val). unat val)") (auto intro: unat_drop_bit_7_less)

declare write_vint.simps [simp del]

function read_vint_loop :: "byte list \<Rightarrow> nat \<Rightarrow> u32 \<Rightarrow> nat \<Rightarrow> (u32 \<times> nat, dict_error) res" where
  "read_vint_loop data pos result shift =
     (if length data \<le> pos then fail VIntEof
      else bind (index_at data pos) (\<lambda>b.
        let result' = result OR push_bit shift (ucast (b AND 0x7F)) in
        if b AND 0x80 = 0 then Ok (result', pos + 1)
        else if 35 \<le> shift + 7 then fail VIntRange
        else read_vint_loop data (pos + 1) result' (shift + 7)))"
  by pat_completeness auto
termination
  by (relation "measure (\<lambda>(data, pos, result, shift). 35 - shift)") auto

declare read_vint_loop.simps [simp del]

definition read_vint :: "byte list \<Rightarrow> nat \<Rightarrow> (u32 \<times> nat, dict_error) res" where
  "read_vint data pos = read_vint_loop data pos 0 0"

section \<open>The bytes of an encoding\<close>

definition vint_bytes :: "u32 \<Rightarrow> byte list" where
  "vint_bytes v = write_vint [] v"

lemma write_vint_append: "write_vint buf v = buf @ vint_bytes v"
proof -
  have "write_vint (xs @ buf) v = xs @ write_vint buf v" for xs buf
  proof (induction buf v arbitrary: xs rule: write_vint.induct)
    case (1 buf val)
    then show ?case
      by (cases "0x80 \<le> val") (simp_all add: write_vint.simps [of _ val])
  qed
  from this [of buf "[]"] show ?thesis by (simp add: vint_bytes_def)
qed

lemma vint_bytes_small: "v < 0x80 \<Longrightarrow> vint_bytes v = [ucast v]"
  by (simp add: vint_bytes_def write_vint.simps [of _ v] not_le [symmetric])

lemma vint_bytes_large: "0x80 \<le> v \<Longrightarrow> vint_bytes v = (ucast v OR 0x80) # vint_bytes (drop_bit 7 v)"
proof -
  assume "0x80 \<le> v"
  then have "vint_bytes v = write_vint [ucast v OR 0x80] (drop_bit 7 v)"
    by (simp only: vint_bytes_def write_vint.simps [of "[]" v]) simp
  then show ?thesis by (simp add: write_vint_append)
qed

lemma vint_bytes_nonempty [simp]: "vint_bytes v \<noteq> []"
  by (cases "v < 0x80") (simp_all add: vint_bytes_small vint_bytes_large not_less)

section \<open>Round trip\<close>

lemma bit_7F [simp]: "bit (0x7F :: int) n \<longleftrightarrow> n < 7"
proof -
  have "(0x7F :: int) = mask 7" by (simp add: mask_eq_exp_minus_1)
  then show ?thesis by (simp only: bit_mask_iff) simp
qed

lemma bit_80 [simp]: "bit (0x80 :: int) n \<longleftrightarrow> n = 7"
proof -
  have "(0x80 :: int) = 2 ^ 7" by simp
  then show ?thesis by (simp only: bit_exp_iff) auto
qed

lemma low7_continued: "ucast ((ucast (v :: u32) OR 0x80) AND 0x7F :: byte) = take_bit 7 v"
proof -
  have "(ucast v OR 0x80) AND 0x7F = take_bit 7 (ucast v :: byte)"
    by (rule bit_word_eqI) (auto simp: bit_and_iff bit_or_iff bit_take_bit_iff)
  moreover have "ucast (take_bit 7 (ucast v :: byte)) = take_bit 7 v"
    by (rule bit_word_eqI) (auto simp: bit_simps)
  ultimately show ?thesis by (simp only:)
qed

lemma high_bit_continued: "(ucast (v :: u32) OR 0x80) AND 0x80 \<noteq> (0 :: byte)"
proof
  assume "(ucast v OR 0x80) AND 0x80 = (0 :: byte)"
  then have "bit ((ucast v OR 0x80) AND 0x80 :: byte) 7 = False" by simp
  then show False by (simp add: bit_and_iff bit_or_iff)
qed

lemma ucast_low7_last:
  assumes "v < (0x80 :: u32)"
  shows "ucast ((ucast v :: byte) AND 0x7F) = v" "(ucast v :: byte) AND 0x80 = 0"
proof -
  have "drop_bit 7 v = 0"
  proof (rule word_unat_eq_iff [THEN iffD2])
    have "unat v < 128" using assms by (simp add: word_less_nat_alt)
    then show "unat (drop_bit 7 v) = unat (0 :: u32)"
      by (simp only: unat_drop_bit_eq) (simp add: drop_bit_eq_div)
  qed
  moreover have "bit v n = bit (drop_bit 7 v) (n - 7)" if "7 \<le> n" for n
    using that by (simp add: bit_simps)
  ultimately have hi: "n < 7" if "bit v n" for n
    using that by (cases "7 \<le> n") auto
  have "(ucast v :: byte) AND 0x7F = ucast v"
    by (rule bit_word_eqI) (auto simp: bit_and_iff bit_unsigned_iff dest: hi)
  moreover have "ucast (ucast v :: byte) = v"
    by (rule bit_word_eqI) (auto simp: bit_simps dest: hi)
  ultimately show "ucast ((ucast v :: byte) AND 0x7F) = v" by (simp only:)
  show "(ucast v :: byte) AND 0x80 = 0"
    by (rule bit_word_eqI) (auto simp: bit_simps dest: hi)
qed

lemma shift_group:
  "(result OR push_bit shift (take_bit 7 v)) OR push_bit (shift + 7) (drop_bit 7 v)
     = result OR push_bit shift (v :: u32)"
proof (rule bit_word_eqI)
  fix n assume "n < LENGTH(32)"
  then have n: "n < 32" by simp
  show "bit ((result OR push_bit shift (take_bit 7 v)) OR push_bit (shift + 7) (drop_bit 7 v)) n
      = bit (result OR push_bit shift v) n"
  proof (cases "n < shift + 7")
    case True
    then have "n - shift < 7" by arith
    with True n show ?thesis by (auto simp: bit_simps)
  next
    case False
    then have "7 + (n - (shift + 7)) = n - shift" by arith
    with False n show ?thesis by (auto simp: bit_simps)
  qed
qed

lemma unat_drop_bit_7_bound:
  assumes "unat (v :: u32) < 2 ^ (35 - shift)" and "0x80 \<le> v"
  shows "shift + 7 < 35" "unat (drop_bit 7 v) < 2 ^ (35 - (shift + 7))"
proof -
  from assms(2) have "2 ^ 7 \<le> unat v" by (simp add: word_le_nat_alt)
  with assms(1) have "(2 :: nat) ^ 7 < 2 ^ (35 - shift)" by linarith
  then have "7 < 35 - shift" by (rule power_less_imp_less_exp [rotated]) simp
  then show s: "shift + 7 < 35" by arith
  have d: "unat (drop_bit 7 v) = unat v div 128"
    by (simp only: unat_drop_bit_eq) (simp add: drop_bit_eq_div)
  have "(2 :: nat) ^ (35 - shift) = 2 ^ (35 - (shift + 7)) * 128"
    using s by (simp flip: power_add [of "2::nat" _ 7, simplified])
  with assms(1) show "unat (drop_bit 7 v) < 2 ^ (35 - (shift + 7))"
    unfolding d by (simp add: less_mult_imp_div_less)
qed

lemma read_vint_loop_bytes:
  assumes "unat v < 2 ^ (35 - shift)"
  shows "read_vint_loop (pre @ vint_bytes v @ post) (length pre) result shift
     = Ok (result OR push_bit shift v, length pre + length (vint_bytes v))"
  using assms
proof (induction "unat v" arbitrary: v shift pre result rule: less_induct)
  case less
  show ?case
  proof (cases "0x80 \<le> v")
    case True
    let ?b = "ucast v OR 0x80 :: byte"
    note step = unat_drop_bit_7_bound [OF less.prems True]
    have "read_vint_loop ((pre @ [?b]) @ vint_bytes (drop_bit 7 v) @ post) (length (pre @ [?b]))
        (result OR push_bit shift (take_bit 7 v)) (shift + 7)
      = Ok ((result OR push_bit shift (take_bit 7 v)) OR push_bit (shift + 7) (drop_bit 7 v),
          length (pre @ [?b]) + length (vint_bytes (drop_bit 7 v)))"
      by (rule less.hyps [OF unat_drop_bit_7_less [OF True] step(2)])
    with step(1) show ?thesis
      by (subst read_vint_loop.simps)
        (simp add: vint_bytes_large [OF True] low7_continued high_bit_continued shift_group)
  next
    case False
    then have v: "v < 0x80" by simp
    show ?thesis
      by (subst read_vint_loop.simps) (simp add: vint_bytes_small [OF v] ucast_low7_last [OF v])
  qed
qed

lemma read_vint_bytes [simp]:
  "read_vint (pre @ vint_bytes v @ post) (length pre) = Ok (v, length pre + length (vint_bytes v))"
proof -
  have "unat v < 2 ^ (35 - 0)" by (rule less_trans [OF unsigned_less]) simp
  then show ?thesis by (simp add: read_vint_def read_vint_loop_bytes)
qed

interpretation vint: byte_codec vint_bytes read_vint
  by unfold_locales simp

section \<open>Reading never aborts and stays inside the buffer\<close>

lemma read_vint_loop_safe: "safe (read_vint_loop data pos result shift)"
  by (induction data pos result shift rule: read_vint_loop.induct)
    (subst read_vint_loop.simps, auto simp: Let_def index_at_def intro!: safe_bind)

lemma read_vint_safe: "safe (read_vint data pos)"
  by (simp add: read_vint_def read_vint_loop_safe)

lemma read_vint_loop_step:
  assumes "read_vint_loop data pos result shift = Ok (v, pos')"
  obtains "pos < length data" "pos' = pos + 1"
  | result' where "pos < length data" "data ! pos AND 0x80 \<noteq> 0" "\<not> 35 \<le> shift + 7"
      "result' = result OR push_bit shift (ucast (data ! pos AND 0x7F))"
      "read_vint_loop data (pos + 1) result' (shift + 7) = Ok (v, pos')"
  using assms by (subst (asm) read_vint_loop.simps)
    (auto simp: Let_def index_at_def split: if_splits)

lemma read_vint_loop_pos:
  "read_vint_loop data pos result shift = Ok (v, pos') \<Longrightarrow> pos < pos' \<and> pos' \<le> length data"
proof (induction data pos result shift rule: read_vint_loop.induct)
  case (1 data pos result shift)
  show ?case
  proof (rule read_vint_loop_step [OF 1(2)])
    fix result'
    assume pos: "pos < length data" and cont: "data ! pos AND 0x80 \<noteq> 0" and sh: "\<not> 35 \<le> shift + 7"
      and result': "result' = result OR push_bit shift (ucast (data ! pos AND 0x7F))"
      and rec: "read_vint_loop data (pos + 1) result' (shift + 7) = Ok (v, pos')"
    have "index_at data pos = (Ok (data ! pos) :: (byte, dict_error) res)" and "\<not> length data \<le> pos"
      using pos by (simp_all add: index_at_def)
    from 1(1) [OF this(2,1) result' cont sh rec] show ?thesis by simp
  qed auto
qed

lemma read_vint_pos: "read_vint data pos = Ok (v, pos') \<Longrightarrow> pos < pos' \<and> pos' \<le> length data"
  by (simp add: read_vint_def read_vint_loop_pos)

end
