(* ===== verification/Utf8.thy ===== *)
theory Utf8
  imports Prelude
begin

text \<open>
  Rust strings are byte sequences that are well-formed UTF-8, and the dictionary code relies on two
  facts of the standard library: \<open>from_utf8\<close> accepts exactly the well-formed sequences, and
  \<open>is_char_boundary\<close> says where a string may be cut. Both are modelled here, with the laws the
  front-coding needs: cutting a well-formed string at a boundary leaves two well-formed strings.
\<close>

section \<open>Well-formed byte sequences\<close>

definition is_cont :: "byte \<Rightarrow> bool" where
  "is_cont b \<longleftrightarrow> 0x80 \<le> b \<and> b \<le> 0xBF"

definition second_ok :: "byte \<Rightarrow> byte \<Rightarrow> bool" where
  "second_ok a b \<longleftrightarrow>
     (if a = 0xE0 then 0xA0 \<le> b \<and> b \<le> 0xBF
      else if a = 0xED then 0x80 \<le> b \<and> b \<le> 0x9F
      else if a = 0xF0 then 0x90 \<le> b \<and> b \<le> 0xBF
      else if a = 0xF4 then 0x80 \<le> b \<and> b \<le> 0x8F
      else is_cont b)"

text \<open>Width of the first character, \<open>None\<close> when the sequence does not start with one.\<close>

fun utf8_width :: "byte list \<Rightarrow> nat option" where
  "utf8_width [] = None"
| "utf8_width (a # bs) =
     (if a \<le> 0x7F then Some 1
      else if 0xC2 \<le> a \<and> a \<le> 0xDF then
        (case bs of b # _ \<Rightarrow> if is_cont b then Some 2 else None | _ \<Rightarrow> None)
      else if 0xE0 \<le> a \<and> a \<le> 0xEF then
        (case bs of b # c # _ \<Rightarrow> if second_ok a b \<and> is_cont c then Some 3 else None | _ \<Rightarrow> None)
      else if 0xF0 \<le> a \<and> a \<le> 0xF4 then
        (case bs of b # c # d # _ \<Rightarrow>
           if second_ok a b \<and> is_cont c \<and> is_cont d then Some 4 else None | _ \<Rightarrow> None)
      else None)"

lemma utf8_width_pos: "utf8_width bs = Some n \<Longrightarrow> 0 < n \<and> n \<le> length bs"
  by (cases bs) (auto split: if_splits list.splits)

function utf8_valid :: "byte list \<Rightarrow> bool" where
  "utf8_valid bs =
     (bs = [] \<or> (case utf8_width bs of None \<Rightarrow> False | Some n \<Rightarrow> utf8_valid (drop n bs)))"
  by pat_completeness auto
termination
  by (relation "measure length") (auto dest: utf8_width_pos)

declare utf8_valid.simps [simp del]

text \<open>\<open>str::is_char_boundary\<close>: the ends, and every byte that is not a continuation byte.\<close>

definition is_char_boundary :: "byte list \<Rightarrow> nat \<Rightarrow> bool" where
  "is_char_boundary s k \<longleftrightarrow> k = 0 \<or> k = length s \<or> (k < length s \<and> \<not> is_cont (s ! k))"

text \<open>\<open>&s[..k]\<close> on a string aborts unless \<open>k\<close> is a boundary.\<close>

definition str_prefix :: "byte list \<Rightarrow> nat \<Rightarrow> (byte list, 'e) res" where
  "str_prefix s k = (if k \<le> length s \<and> is_char_boundary s k then Ok (take k s) else panic)"

section \<open>Laws\<close>

lemma utf8_valid_Nil [simp]: "utf8_valid []"
  by (simp add: utf8_valid.simps)

lemma utf8_valid_step: "utf8_width bs = Some n \<Longrightarrow> utf8_valid bs = utf8_valid (drop n bs)"
  by (subst utf8_valid.simps) auto

lemma second_ok_cont: "second_ok a b \<Longrightarrow> is_cont b"
  unfolding second_ok_def is_cont_def
  by (auto simp: word_le_nat_alt split: if_splits)

lemma utf8_width_inner_cont:
  "utf8_width bs = Some n \<Longrightarrow> 0 < i \<Longrightarrow> i < n \<Longrightarrow> is_cont (bs ! i)"
  by (cases bs)
    (auto split: if_splits list.splits simp: less_Suc_eq numeral_eq_Suc second_ok_cont)

lemma utf8_width_append: "utf8_width a = Some n \<Longrightarrow> utf8_width (a @ b) = Some n"
  by (cases a) (auto split: if_splits list.splits)

lemma utf8_width_take: "utf8_width a = Some n \<Longrightarrow> n \<le> k \<Longrightarrow> utf8_width (take k a) = Some n"
  by (cases a; cases k)
    (auto split: if_splits list.splits simp: take_Cons numeral_eq_Suc split: nat.splits)

lemma utf8_valid_append: "utf8_valid a \<Longrightarrow> utf8_valid (a @ b) = utf8_valid b"
proof (induction a rule: utf8_valid.induct)
  case (1 a)
  show ?case
  proof (cases "a = []")
    case False
    with 1(2) obtain n where n: "utf8_width a = Some n" and "utf8_valid (drop n a)"
      by (subst (asm) utf8_valid.simps) (auto split: option.splits)
    with 1(1) [OF n] have "utf8_valid (drop n a @ b) = utf8_valid b" by simp
    moreover have "drop n (a @ b) = drop n a @ b" using utf8_width_pos [OF n] by simp
    ultimately show ?thesis
      using utf8_valid_step [OF utf8_width_append [OF n]] by simp
  qed simp
qed

lemma utf8_valid_take:
  "utf8_valid s \<Longrightarrow> k \<le> length s \<Longrightarrow> is_char_boundary s k \<Longrightarrow> utf8_valid (take k s)"
proof (induction s arbitrary: k rule: utf8_valid.induct)
  case (1 s)
  show ?case
  proof (cases "s = [] \<or> k = 0")
    case False
    then have "s \<noteq> []" "0 < k" by auto
    with 1(2) obtain n where n: "utf8_width s = Some n" and rest: "utf8_valid (drop n s)"
      by (subst (asm) utf8_valid.simps) (auto split: option.splits)
    note npos = utf8_width_pos [OF n]
    have "n \<le> k"
    proof (rule ccontr)
      assume "\<not> n \<le> k"
      with \<open>0 < k\<close> npos have "is_cont (s ! k)" "k < length s"
        using utf8_width_inner_cont [OF n] by auto
      with 1(4) \<open>0 < k\<close> show False by (auto simp: is_char_boundary_def)
    qed
    moreover from this 1(3,4) npos have "is_char_boundary (drop n s) (k - n)"
      by (auto simp: is_char_boundary_def)
    ultimately have "utf8_valid (take (k - n) (drop n s))"
      using 1(1) [OF n rest, of "k - n"] 1(3) by simp
    moreover have "drop n (take k s) = take (k - n) (drop n s)" by (simp add: drop_take)
    ultimately show ?thesis
      using utf8_valid_step [OF utf8_width_take [OF n \<open>n \<le> k\<close>]] by simp
  qed auto
qed

lemma utf8_valid_suffix:
  assumes "utf8_valid p" and "utf8_valid c" and "k \<le> length p" and "is_char_boundary p k"
    and "take k c = take k p"
  shows "utf8_valid (drop k c)"
proof -
  have "utf8_valid (take k c)" using utf8_valid_take [OF assms(1,3,4)] assms(5) by simp
  from utf8_valid_append [OF this, of "drop k c"] show ?thesis using assms(2) by simp
qed

lemma utf8_valid_join:
  "utf8_valid p \<Longrightarrow> k \<le> length p \<Longrightarrow> is_char_boundary p k \<Longrightarrow> utf8_valid s \<Longrightarrow> utf8_valid (take k p @ s)"
  by (simp add: utf8_valid_append utf8_valid_take)

lemma str_prefix_Ok: "k \<le> length s \<Longrightarrow> is_char_boundary s k \<Longrightarrow> str_prefix s k = Ok (take k s)"
  by (simp add: str_prefix_def)

end
