(* ===== verification/Dictionary.thy ===== *)
theory Dictionary
  imports Vint Utf8
begin

text \<open>
  The front-coded dictionary of ferrodruid-dict: both serialized versions, the full decoder and the
  random-access decoder \<open>get_v2\<close>. The two versions differ only in the string an entry is coded
  against: the previous entry in version 1, the first entry of the bucket in version 2. The loops
  of the two versions are otherwise the same text in the source, so they are one definition here
  with the version as an argument.

  Values are byte sequences; that they are well-formed UTF-8 is the invariant \<open>dict_wf\<close>, which the
  Rust type \<open>String\<close> guarantees for a dictionary held in memory and which the decoder has to
  establish for the bytes it reads. Every slice of the source is the checked \<open>slice\<close> or
  \<open>str_prefix\<close>, so an out-of-range access would be the value \<open>Panic\<close>. Lengths are natural
  numbers (\<open>usize\<close> has 64 bits and no buffer is that long); the casts \<open>as u32\<close> of the source are
  kept as \<open>of_nat\<close> into 32-bit words, which truncates.
\<close>

section \<open>Data\<close>

record dictionary =
  dict_values :: "byte list list"

datatype fc_version = V1 | V2

fun version_word :: "fc_version \<Rightarrow> u32" where
  "version_word V1 = 1"
| "version_word V2 = 2"

text \<open>What the next entry of a bucket is coded against.\<close>

fun next_ref :: "fc_version \<Rightarrow> byte list \<Rightarrow> byte list \<Rightarrow> byte list" where
  "next_ref V1 prev cur = cur"
| "next_ref V2 base cur = base"

definition dict_new :: dictionary where
  "dict_new = \<lparr>dict_values = []\<rparr>"

definition from_sorted :: "byte list list \<Rightarrow> dictionary" where
  "from_sorted vs = \<lparr>dict_values = vs\<rparr>"

definition dict_get :: "dictionary \<Rightarrow> nat \<Rightarrow> byte list option" where
  "dict_get d i = (if i < length (dict_values d) then Some (dict_values d ! i) else None)"

definition dict_wf :: "dictionary \<Rightarrow> bool" where
  "dict_wf d \<longleftrightarrow> (\<forall>v \<in> set (dict_values d). utf8_valid v)"

section \<open>Helpers\<close>

fun common_prefix_len :: "byte list \<Rightarrow> byte list \<Rightarrow> nat" where
  "common_prefix_len (x # a) (y # b) = (if x = y then Suc (common_prefix_len a b) else 0)"
| "common_prefix_len _ _ = 0"

definition div_ceil :: "nat \<Rightarrow> nat \<Rightarrow> nat" where
  "div_ceil a b = (if a mod b = 0 then a div b else a div b + 1)"

fun is_power_of_two :: "nat \<Rightarrow> bool" where
  "is_power_of_two n = (if n \<le> 1 then n = 1 else even n \<and> is_power_of_two (n div 2))"

declare is_power_of_two.simps [simp del]

fun check_increasing :: "nat list \<Rightarrow> (unit, dict_error) res" where
  "check_increasing (a # b # rest) =
     (if b \<le> a then fail OffsetsNotIncreasing else check_increasing (b # rest))"
| "check_increasing _ = Ok ()"

definition validate_bucket_offsets :: "nat list \<Rightarrow> nat \<Rightarrow> (unit, dict_error) res" where
  "validate_bucket_offsets offsets bucket_data_len =
     (case offsets of
        [] \<Rightarrow> Ok ()
      | first # _ \<Rightarrow>
          if first \<noteq> 0 then fail FirstOffsetNotZero
          else bind (check_increasing offsets) (\<lambda>_.
            if bucket_data_len \<le> last offsets then fail OffsetOutside else Ok ()))"

section \<open>Serialization\<close>

fun serialize_entries ::
    "fc_version \<Rightarrow> byte list list \<Rightarrow> byte list \<Rightarrow> nat list \<Rightarrow> byte list \<Rightarrow> byte list" where
  "serialize_entries ver values ref [] buf = buf"
| "serialize_entries ver values ref (idx # idxs) buf =
     (let cur = values ! idx;
          prefix_len = common_prefix_len ref cur;
          suffix = drop prefix_len cur;
          buf = write_vint buf (of_nat prefix_len);
          buf = write_vint buf (of_nat (length suffix));
          buf = buf @ suffix
      in serialize_entries ver values (next_ref ver ref cur) idxs buf)"

definition serialize_bucket ::
    "fc_version \<Rightarrow> byte list list \<Rightarrow> nat \<Rightarrow> nat \<Rightarrow> byte list \<Rightarrow> byte list" where
  "serialize_bucket ver values bucket_size bucket_idx buf =
     (let bucket_start = bucket_idx * bucket_size;
          bucket_end = min (bucket_start + bucket_size) (length values);
          first = values ! bucket_start;
          buf = write_vint buf (of_nat (length first));
          buf = buf @ first
      in serialize_entries ver values first [bucket_start + 1..<bucket_end] buf)"

fun serialize_buckets ::
    "fc_version \<Rightarrow> byte list list \<Rightarrow> nat \<Rightarrow> nat \<Rightarrow> nat list \<Rightarrow> byte list \<Rightarrow> u32 list
       \<Rightarrow> byte list \<times> u32 list" where
  "serialize_buckets ver values bucket_size bucket_data_start [] buf offsets = (buf, offsets)"
| "serialize_buckets ver values bucket_size bucket_data_start (bucket_idx # idxs) buf offsets =
     (let offsets = offsets @ [of_nat (length buf - bucket_data_start)];
          buf = serialize_bucket ver values bucket_size bucket_idx buf
      in serialize_buckets ver values bucket_size bucket_data_start idxs buf offsets)"

definition serialize_body :: "fc_version \<Rightarrow> dictionary \<Rightarrow> nat \<Rightarrow> byte list" where
  "serialize_body ver d bucket_size =
     (let values = dict_values d;
          num_values = length values;
          num_buckets = (if num_values = 0 then 0 else div_ceil num_values bucket_size);
          buf = to_le_bytes (version_word ver) @ to_le_bytes (of_nat bucket_size)
                  @ to_le_bytes (of_nat num_values);
          (buf, offsets) =
            serialize_buckets ver values bucket_size (length buf) [0..<num_buckets] buf []
      in buf @ concat (map to_le_bytes offsets))"

definition serialize :: "dictionary \<Rightarrow> nat \<Rightarrow> (byte list, dict_error) res" where
  "serialize d bucket_size =
     (if bucket_size = 0 then fail BucketSizeZero else Ok (serialize_body V1 d bucket_size))"

definition serialize_v2 :: "dictionary \<Rightarrow> nat \<Rightarrow> (byte list, dict_error) res" where
  "serialize_v2 d bucket_size =
     (if bucket_size = 0 then fail BucketSizeZero
      else if \<not> is_power_of_two bucket_size then fail BucketSizeNotPow2
      else Ok (serialize_body V2 d bucket_size))"

section \<open>Deserialization\<close>

text \<open>The offset table at the end of the buffer.\<close>

definition read_offsets :: "byte list \<Rightarrow> nat \<Rightarrow> nat \<Rightarrow> (nat list, dict_error) res" where
  "read_offsets data offsets_start num_buckets =
     mapM (\<lambda>i. bind (u32_at data (offsets_start + i * 4)) (\<lambda>w. Ok (unat w))) [0..<num_buckets]"

text \<open>The first entry of a bucket, stored in full.\<close>

definition read_base :: "byte list \<Rightarrow> nat \<Rightarrow> nat \<Rightarrow> (byte list \<times> nat, dict_error) res" where
  "read_base data offsets_start pos =
     bind (read_vint data pos) (\<lambda>(len, pos).
       if offsets_start < pos + unat len then fail BucketDataOverflow
       else bind (slice data pos (pos + unat len)) (\<lambda>first.
         if utf8_valid first then Ok (first, pos + unat len) else fail InvalidUtf8))"

text \<open>A further entry: prefix length, suffix length, suffix bytes.\<close>

definition read_entry ::
    "byte list \<Rightarrow> nat \<Rightarrow> byte list \<Rightarrow> nat \<Rightarrow> (byte list \<times> nat, dict_error) res" where
  "read_entry data offsets_start ref pos =
     bind (read_vint data pos) (\<lambda>(prefix_len, pos).
     bind (read_vint data pos) (\<lambda>(suffix_len, pos).
       if offsets_start < pos + unat suffix_len then fail EntryDataOverflow
       else if length ref < unat prefix_len then fail PrefixTooLong
       else if \<not> is_char_boundary ref (unat prefix_len) then fail PrefixNotBoundary
       else bind (str_prefix ref (unat prefix_len)) (\<lambda>prefix.
            bind (slice data pos (pos + unat suffix_len)) (\<lambda>suffix.
              if utf8_valid suffix then Ok (prefix @ suffix, pos + unat suffix_len)
              else fail InvalidUtf8))))"

fun read_entries ::
    "fc_version \<Rightarrow> byte list \<Rightarrow> nat \<Rightarrow> byte list \<Rightarrow> nat \<Rightarrow> nat \<Rightarrow> (byte list list \<times> nat, dict_error) res" where
  "read_entries ver data offsets_start ref 0 pos = Ok ([], pos)"
| "read_entries ver data offsets_start ref (Suc n) pos =
     bind (read_entry data offsets_start ref pos) (\<lambda>(entry, pos).
     bind (read_entries ver data offsets_start (next_ref ver ref entry) n pos) (\<lambda>(entries, pos).
       Ok (entry # entries, pos)))"

definition read_bucket ::
    "fc_version \<Rightarrow> byte list \<Rightarrow> nat \<Rightarrow> nat \<Rightarrow> nat \<Rightarrow> (byte list list \<times> nat, dict_error) res" where
  "read_bucket ver data offsets_start count pos =
     bind (read_base data offsets_start pos) (\<lambda>(first, pos).
     bind (read_entries ver data offsets_start first (count - 1) pos) (\<lambda>(entries, pos).
       Ok (first # entries, pos)))"

text \<open>Entries of bucket \<open>b\<close>, and the position where it has to end.\<close>

definition bucket_count :: "nat \<Rightarrow> nat \<Rightarrow> nat \<Rightarrow> nat" where
  "bucket_count bucket_size num_values b =
     min (b * bucket_size + bucket_size) num_values - b * bucket_size"

definition bucket_limit :: "nat list \<Rightarrow> nat \<Rightarrow> nat \<Rightarrow> nat" where
  "bucket_limit offsets offsets_start b =
     (if b + 1 < length offsets then 12 + offsets ! (b + 1) else offsets_start)"

fun read_buckets ::
    "fc_version \<Rightarrow> byte list \<Rightarrow> nat \<Rightarrow> nat \<Rightarrow> nat list \<Rightarrow> nat \<Rightarrow> nat \<Rightarrow> nat list
       \<Rightarrow> (byte list list, dict_error) res" where
  "read_buckets ver data bucket_size num_values offsets offsets_start bucket_idx [] = Ok []"
| "read_buckets ver data bucket_size num_values offsets offsets_start bucket_idx (off # offs) =
     bind (read_bucket ver data offsets_start (bucket_count bucket_size num_values bucket_idx) (12 + off))
       (\<lambda>(vs, pos).
         if pos \<noteq> bucket_limit offsets offsets_start bucket_idx then fail BucketEndMismatch
         else bind (read_buckets ver data bucket_size num_values offsets offsets_start
                      (bucket_idx + 1) offs) (\<lambda>ws. Ok (vs @ ws)))"

definition deserialize_body :: "fc_version \<Rightarrow> byte list \<Rightarrow> (dictionary, dict_error) res" where
  "deserialize_body ver data =
     bind (u32_at data 4) (\<lambda>bs. bind (u32_at data 8) (\<lambda>nv.
       let bucket_size = unat bs; num_values = unat nv in
       if num_values = 0 then Ok dict_new
       else if bucket_size = 0 then fail BucketSizeZero
       else if ver = V2 \<and> \<not> is_power_of_two bucket_size then fail BucketSizeNotPow2
       else if length data - 12 < num_values then fail TooManyValues
       else
         let num_buckets = div_ceil num_values bucket_size; offsets_byte_len = num_buckets * 4 in
         if length data < 12 + offsets_byte_len then fail OffsetTableTruncated
         else
           let offsets_start = length data - offsets_byte_len in
           bind (read_offsets data offsets_start num_buckets) (\<lambda>offsets.
           bind (validate_bucket_offsets offsets (offsets_start - 12)) (\<lambda>_.
           bind (read_buckets ver data bucket_size num_values offsets offsets_start 0 offsets)
             (\<lambda>vs. Ok \<lparr>dict_values = vs\<rparr>)))))"

definition deserialize_v1 :: "byte list \<Rightarrow> (dictionary, dict_error) res" where
  "deserialize_v1 = deserialize_body V1"

definition deserialize_v2 :: "byte list \<Rightarrow> (dictionary, dict_error) res" where
  "deserialize_v2 = deserialize_body V2"

definition deserialize :: "byte list \<Rightarrow> (dictionary, dict_error) res" where
  "deserialize data =
     (if length data < 12 then fail HeaderTooShort
      else bind (u32_at data 0) (\<lambda>version.
        if version = 1 then deserialize_v1 data
        else if version = 2 then deserialize_v2 data
        else fail UnsupportedVersion))"

section \<open>Random access in version 2\<close>

fun skip_v2_entries :: "byte list \<Rightarrow> nat \<Rightarrow> nat \<Rightarrow> nat \<Rightarrow> (nat, dict_error) res" where
  "skip_v2_entries data offsets_start 0 pos = Ok pos"
| "skip_v2_entries data offsets_start (Suc n) pos =
     bind (read_vint data pos) (\<lambda>(prefix_len, pos).
     bind (read_vint data pos) (\<lambda>(suffix_len, pos).
       if offsets_start < pos + unat suffix_len then fail EntryDataOverflow
       else skip_v2_entries data offsets_start n (pos + unat suffix_len)))"

definition skip_v2_bucket :: "byte list \<Rightarrow> nat \<Rightarrow> nat \<Rightarrow> nat \<Rightarrow> (nat, dict_error) res" where
  "skip_v2_bucket data pos count offsets_start =
     bind (read_vint data pos) (\<lambda>(len, pos).
       if offsets_start < pos + unat len then fail BucketDataOverflow
       else skip_v2_entries data offsets_start (count - 1) (pos + unat len))"

fun check_v2_buckets ::
    "byte list \<Rightarrow> nat \<Rightarrow> nat \<Rightarrow> nat list \<Rightarrow> nat \<Rightarrow> nat list \<Rightarrow> (unit, dict_error) res" where
  "check_v2_buckets data bucket_size num_values offsets offsets_start [] = Ok ()"
| "check_v2_buckets data bucket_size num_values offsets offsets_start (b # bs) =
     bind (index_at offsets b) (\<lambda>off.
     bind (skip_v2_bucket data (12 + off) (bucket_count bucket_size num_values b) offsets_start) (\<lambda>end_pos.
       if end_pos \<noteq> bucket_limit offsets offsets_start b then fail BucketEndMismatch
       else check_v2_buckets data bucket_size num_values offsets offsets_start bs))"

text \<open>Skip to entry number \<open>n\<close> after the base and decode it.\<close>

fun scan_v2 ::
    "byte list \<Rightarrow> nat \<Rightarrow> byte list \<Rightarrow> nat \<Rightarrow> nat \<Rightarrow> (byte list option, dict_error) res" where
  "scan_v2 data offsets_start base 0 pos = Ok None"
| "scan_v2 data offsets_start base (Suc n) pos =
     bind (read_vint data pos) (\<lambda>(prefix_len, pos).
     bind (read_vint data pos) (\<lambda>(suffix_len, pos).
       if offsets_start < pos + unat suffix_len then fail EntryDataOverflow
       else if n = 0 then
         (if length base < unat prefix_len then fail PrefixTooLong
          else if \<not> is_char_boundary base (unat prefix_len) then fail PrefixNotBoundary
          else bind (slice data pos (pos + unat suffix_len)) (\<lambda>suffix.
            if utf8_valid suffix
            then bind (str_prefix base (unat prefix_len)) (\<lambda>prefix. Ok (Some (prefix @ suffix)))
            else fail InvalidUtf8))
       else scan_v2 data offsets_start base n (pos + unat suffix_len)))"

definition get_v2 :: "byte list \<Rightarrow> nat \<Rightarrow> (byte list option, dict_error) res" where
  "get_v2 data ordinal =
     (if length data < 12 then fail HeaderTooShort
      else bind (u32_at data 0) (\<lambda>version.
        if version \<noteq> 2 then fail NotVersion2
        else bind (u32_at data 4) (\<lambda>bs. bind (u32_at data 8) (\<lambda>nv.
          let bucket_size = unat bs; num_values = unat nv in
          if bucket_size = 0 \<or> \<not> is_power_of_two bucket_size then fail BucketSizeNotPow2
          else if num_values \<le> ordinal then Ok None
          else if length data - 12 < num_values then fail TooManyValues
          else
            let num_buckets = div_ceil num_values bucket_size; offsets_byte_len = num_buckets * 4 in
            if length data < 12 + offsets_byte_len then fail OffsetTableTruncated
            else
              let offsets_start = length data - offsets_byte_len;
                  bucket_idx = ordinal div bucket_size;
                  within = ordinal mod bucket_size in
              bind (read_offsets data offsets_start num_buckets) (\<lambda>offsets.
              bind (validate_bucket_offsets offsets (offsets_start - 12)) (\<lambda>_.
              bind (check_v2_buckets data bucket_size num_values offsets offsets_start
                      [0..<bucket_idx + 1]) (\<lambda>_.
              bind (index_at offsets bucket_idx) (\<lambda>bucket_offset.
              bind (read_base data offsets_start (12 + bucket_offset)) (\<lambda>(base, pos).
                if within = 0 then Ok (Some base)
                else scan_v2 data offsets_start base within pos)))))))))"

end
