(* ===== verification/Dictionary_Roundtrip.thy ===== *)
theory Dictionary_Roundtrip
  imports Dictionary
begin

text \<open>
  Reading back what was written. The bytes the serializer emits are described as a concatenation
  of bucket encodings; the decoder, started anywhere inside a larger buffer, recovers each bucket
  exactly when every shared prefix ends on a character boundary of the string it is shared with,
  and rejects the buffer otherwise.
\<close>

section \<open>The bytes of a bucket\<close>

definition entry_bytes :: "byte list \<Rightarrow> byte list \<Rightarrow> byte list" where
  "entry_bytes ref cur =
     (let k = common_prefix_len ref cur
      in vint_bytes (of_nat k) @ vint_bytes (of_nat (length cur - k)) @ drop k cur)"

fun entries_bytes :: "fc_version \<Rightarrow> byte list \<Rightarrow> byte list list \<Rightarrow> byte list" where
  "entries_bytes ver ref [] = []"
| "entries_bytes ver ref (e # es) = entry_bytes ref e @ entries_bytes ver (next_ref ver ref e) es"

fun bucket_bytes :: "fc_version \<Rightarrow> byte list list \<Rightarrow> byte list" where
  "bucket_bytes ver [] = []"
| "bucket_bytes ver (b # es) = vint_bytes (of_nat (length b)) @ b @ entries_bytes ver b es"

text \<open>Every prefix shared inside the bucket ends on a character boundary.\<close>

fun entries_aligned :: "fc_version \<Rightarrow> byte list \<Rightarrow> byte list list \<Rightarrow> bool" where
  "entries_aligned ver ref [] = True"
| "entries_aligned ver ref (e # es) =
     (is_char_boundary ref (common_prefix_len ref e) \<and> entries_aligned ver (next_ref ver ref e) es)"

fun bucket_aligned :: "fc_version \<Rightarrow> byte list list \<Rightarrow> bool" where
  "bucket_aligned ver [] = True"
| "bucket_aligned ver (b # es) = entries_aligned ver b es"

definition bucket_slice :: "byte list list \<Rightarrow> nat \<Rightarrow> nat \<Rightarrow> byte list list" where
  "bucket_slice vs bucket_size b = take bucket_size (drop (b * bucket_size) vs)"

definition dict_aligned :: "fc_version \<Rightarrow> dictionary \<Rightarrow> nat \<Rightarrow> bool" where
  "dict_aligned ver d bucket_size \<longleftrightarrow>
     (\<forall>b < div_ceil (length (dict_values d)) bucket_size.
        bucket_aligned ver (bucket_slice (dict_values d) bucket_size b))"

section \<open>Common prefixes\<close>

lemma common_prefix_len_le [simp]:
  "common_prefix_len a b \<le> length a" "common_prefix_len a b \<le> length b"
  by (induction a b rule: common_prefix_len.induct) auto

lemma take_common_prefix: "take (common_prefix_len a b) a = take (common_prefix_len a b) b"
  by (induction a b rule: common_prefix_len.induct) auto

section \<open>Small numbers survive the cast to 32 bits\<close>

lemma unat_of_nat_u32 [simp]: "n < 2 ^ 32 \<Longrightarrow> unat (of_nat n :: u32) = n"
  by (simp add: unsigned_of_nat take_bit_nat_eq_self)

section \<open>Reading one entry\<close>

lemma read_base_bytes:
  assumes "utf8_valid b" and "length b < 2 ^ 32"
    and "length pre + length (vint_bytes (of_nat (length b))) + length b \<le> os"
  shows "read_base (pre @ (vint_bytes (of_nat (length b)) @ b) @ post) os (length pre)
     = Ok (b, length pre + length (vint_bytes (of_nat (length b))) + length b)"
proof -
  let ?v = "vint_bytes (of_nat (length b))"
  have "slice (pre @ ?v @ b @ post) (length pre + length ?v) (length pre + length ?v + length b)
      = (Ok b :: (byte list, dict_error) res)"
    by (rule slice_eq [of _ "pre @ ?v" b post]) simp_all
  with assms show ?thesis by (simp add: read_base_def)
qed

lemma read_entry_bytes:
  assumes ref: "utf8_valid ref" and cur: "utf8_valid cur" "length cur < 2 ^ 32"
    and os: "length pre + length (entry_bytes ref cur) \<le> os"
  shows "read_entry (pre @ entry_bytes ref cur @ post) os ref (length pre)
     = (if is_char_boundary ref (common_prefix_len ref cur)
        then Ok (cur, length pre + length (entry_bytes ref cur)) else fail PrefixNotBoundary)"
proof -
  define k where "k = common_prefix_len ref cur"
  define m where "m = length cur - k"
  define p q where "p = vint_bytes (of_nat k :: u32)" and "q = vint_bytes (of_nat m :: u32)"
  define data where "data = pre @ p @ q @ drop k cur @ post"
  have k: "k \<le> length ref" "k \<le> length cur" and tk: "take k ref = take k cur"
    by (simp_all add: k_def take_common_prefix)
  have eb: "entry_bytes ref cur = p @ q @ drop k cur"
    by (simp add: entry_bytes_def k_def p_def q_def m_def Let_def)
  have d: "pre @ entry_bytes ref cur @ post = data" by (simp add: eb data_def)
  have r1: "read_vint data (length pre) = Ok (of_nat k, length pre + length p)"
    by (simp add: data_def p_def)
  have r2: "read_vint data (length pre + length p) = Ok (of_nat m, length pre + length p + length q)"
    using read_vint_bytes [of "pre @ p" "of_nat m" "drop k cur @ post"]
    by (simp add: data_def q_def)
  have "k < 2 ^ 32" "m < 2 ^ 32" using k cur(2) by (simp_all add: m_def)
  then have u: "unat (of_nat k :: u32) = k" "unat (of_nat m :: u32) = m"
    by simp_all
  have sl: "slice data (length pre + length p + length q) (length pre + length p + length q + m)
      = (Ok (drop k cur) :: (byte list, dict_error) res)"
    by (rule slice_eq [of _ "pre @ p @ q" "drop k cur" post]) (simp_all add: data_def m_def)
  have len: "length (entry_bytes ref cur) = length p + length q + m"
    by (simp add: eb m_def)
  have val: "utf8_valid (drop k cur)" if "is_char_boundary ref k"
    using utf8_valid_suffix [OF ref cur(1) k(1) that] tk by simp
  show ?thesis
    using os r1 r2 u sl val k tk unfolding d
    by (simp add: len k_def [symmetric] read_entry_def str_prefix_Ok add.assoc)
qed

section \<open>Reading a bucket\<close>

lemma next_ref_cases: "next_ref ver ref e = ref \<or> next_ref ver ref e = e"
  by (cases ver) auto

lemma read_entries_bytes:
  assumes "utf8_valid ref" and "\<forall>e \<in> set es. utf8_valid e \<and> length e < 2 ^ 32"
    and "length pre + length (entries_bytes ver ref es) \<le> os"
  shows "read_entries ver (pre @ entries_bytes ver ref es @ post) os ref (length es) (length pre)
     = (if entries_aligned ver ref es then Ok (es, length pre + length (entries_bytes ver ref es))
        else fail PrefixNotBoundary)"
  using assms
proof (induction es arbitrary: ref pre)
  case (Cons e es)
  let ?r = "next_ref ver ref e" and ?b = "entry_bytes ref e"
  have re: "read_entry (pre @ ?b @ entries_bytes ver ?r es @ post) os ref (length pre)
     = (if is_char_boundary ref (common_prefix_len ref e)
        then Ok (e, length pre + length ?b) else fail PrefixNotBoundary)"
    using Cons.prems by (intro read_entry_bytes) auto
  have "utf8_valid ?r" using next_ref_cases [of ver ref e] Cons.prems(1,2) by auto
  from Cons.IH [OF this, of "pre @ ?b"] Cons.prems(2,3)
  have "read_entries ver ((pre @ ?b) @ entries_bytes ver ?r es @ post) os ?r (length es) (length (pre @ ?b))
     = (if entries_aligned ver ?r es then Ok (es, length (pre @ ?b) + length (entries_bytes ver ?r es))
        else fail PrefixNotBoundary)"
    by simp
  with re show ?case by simp
qed simp

lemma read_bucket_bytes:
  assumes "\<forall>e \<in> set (b # es). utf8_valid e \<and> length e < 2 ^ 32"
    and "length pre + length (bucket_bytes ver (b # es)) \<le> os"
  shows "read_bucket ver (pre @ bucket_bytes ver (b # es) @ post) os (length (b # es)) (length pre)
     = (if entries_aligned ver b es
        then Ok (b # es, length pre + length (bucket_bytes ver (b # es))) else fail PrefixNotBoundary)"
proof -
  let ?h = "vint_bytes (of_nat (length b)) @ b"
  have "read_base (pre @ ?h @ (entries_bytes ver b es @ post)) os (length pre)
     = Ok (b, length pre + length (vint_bytes (of_nat (length b))) + length b)"
    using assms by (intro read_base_bytes) auto
  moreover have "read_entries ver ((pre @ ?h) @ entries_bytes ver b es @ post) os b (length es) (length (pre @ ?h))
     = (if entries_aligned ver b es then Ok (es, length (pre @ ?h) + length (entries_bytes ver b es))
        else fail PrefixNotBoundary)"
    using assms by (intro read_entries_bytes) auto
  ultimately show ?thesis by (simp add: read_bucket_def add.assoc)
qed

section \<open>Reading all buckets\<close>

definition bucket_starts :: "byte list list \<Rightarrow> nat list" where
  "bucket_starts bs = map (\<lambda>k. length (concat (take k bs))) [0..<length bs]"

lemma length_bucket_starts [simp]: "length (bucket_starts bs) = length bs"
  by (simp add: bucket_starts_def)

lemma nth_bucket_starts [simp]:
  "k < length bs \<Longrightarrow> bucket_starts bs ! k = length (concat (take k bs))"
  by (simp add: bucket_starts_def)

lemma bucket_limit_starts:
  assumes "k < length bs"
  shows "bucket_limit (bucket_starts bs) (12 + length (concat bs)) k = 12 + length (concat (take (Suc k) bs))"
proof (cases "Suc k < length bs")
  case False
  with assms have "take (Suc k) bs = bs" by simp
  with False show ?thesis by (simp add: bucket_limit_def)
qed (simp add: bucket_limit_def)

lemma read_buckets_bytes:
  assumes hdr: "length hdr = 12"
    and chunks: "\<forall>c \<in> set chunks. c \<noteq> [] \<and> (\<forall>e \<in> set c. utf8_valid e \<and> length e < 2 ^ 32)"
    and count: "\<forall>k < length chunks. bucket_count bs nv k = length (chunks ! k)"
    and data: "data = hdr @ concat (map (bucket_bytes ver) chunks) @ tail"
    and os: "os = 12 + length (concat (map (bucket_bytes ver) chunks))"
    and offs: "offs = bucket_starts (map (bucket_bytes ver) chunks)"
    and k: "k \<le> length chunks"
  shows "read_buckets ver data bs nv offs os k (drop k offs)
     = (if \<forall>c \<in> set (drop k chunks). bucket_aligned ver c then Ok (concat (drop k chunks))
        else fail PrefixNotBoundary)"
  using k
proof (induction "length chunks - k" arbitrary: k)
  case 0
  then show ?case by (simp add: offs)
next
  case (Suc n)
  let ?B = "map (bucket_bytes ver) chunks"
  from Suc have klt: "k < length chunks" by simp
  then obtain b es where c: "chunks ! k = b # es"
    using chunks by (cases "chunks ! k") (auto dest: nth_mem)
  have es: "\<forall>e \<in> set (b # es). utf8_valid e \<and> length e < 2 ^ 32"
    using chunks klt c by (metis nth_mem)
  let ?pre = "hdr @ concat (take k ?B)"
  have split: "?B = take k ?B @ bucket_bytes ver (b # es) # drop (Suc k) ?B"
    using klt c id_take_nth_drop [of k ?B] by simp
  have d: "data = ?pre @ bucket_bytes ver (b # es) @ (concat (drop (Suc k) ?B) @ tail)"
    unfolding data by (subst split) simp
  have tk: "concat (take (Suc k) ?B) = concat (take k ?B) @ bucket_bytes ver (b # es)"
    using klt c by (simp add: take_Suc_conv_app_nth)
  have le: "length ?pre + length (bucket_bytes ver (b # es)) \<le> os"
    unfolding os by (subst (2) split) (simp add: hdr)
  have drop_offs: "drop k offs = length (concat (take k ?B)) # drop (Suc k) offs"
    using klt by (simp add: offs Cons_nth_drop_Suc [symmetric])
  have rb: "read_bucket ver data os (bucket_count bs nv k) (12 + length (concat (take k ?B)))
     = (if entries_aligned ver b es
        then Ok (b # es, 12 + length (concat (take (Suc k) ?B))) else fail PrefixNotBoundary)"
    using read_bucket_bytes [OF es le, of "concat (drop (Suc k) ?B) @ tail"] count klt c
    by (simp only: d [symmetric] tk) (simp add: hdr)
  have lim: "bucket_limit offs os k = 12 + length (concat (take (Suc k) ?B))"
    using bucket_limit_starts [of k ?B] klt by (simp add: offs os)
  have dc: "drop k chunks = (b # es) # drop (Suc k) chunks"
    using klt c by (simp add: Cons_nth_drop_Suc [symmetric])
  have IH: "read_buckets ver data bs nv offs os (Suc k) (drop (Suc k) offs)
     = (if \<forall>c \<in> set (drop (Suc k) chunks). bucket_aligned ver c then Ok (concat (drop (Suc k) chunks))
        else fail PrefixNotBoundary)"
    using Suc klt by simp
  show ?case
    unfolding drop_offs dc using rb lim IH by simp
qed

section \<open>What the serializer writes\<close>

lemma serialize_entries_bytes:
  "serialize_entries ver vs ref idxs buf = buf @ entries_bytes ver ref (map ((!) vs) idxs)"
  by (induction idxs arbitrary: ref buf)
    (simp_all add: write_vint_append entry_bytes_def Let_def)

lemma bucket_slice_eq:
  assumes "b * bs < length vs" and "0 < bs"
  shows "bucket_slice vs bs b =
    vs ! (b * bs) # map ((!) vs) [b * bs + 1..<min (b * bs + bs) (length vs)]"
proof -
  let ?e = "min (b * bs + bs) (length vs)"
  have "bucket_slice vs bs b = map ((!) vs) [b * bs..<?e]"
    by (rule nth_equalityI) (auto simp: bucket_slice_def)
  also have "[b * bs..<?e] = b * bs # [b * bs + 1..<?e]"
    using assms by (simp add: upt_conv_Cons)
  finally show ?thesis by simp
qed

lemma serialize_bucket_bytes:
  assumes "b * bs < length vs" and "0 < bs"
  shows "serialize_bucket ver vs bs b buf = buf @ bucket_bytes ver (bucket_slice vs bs b)"
  by (simp add: bucket_slice_eq [OF assms] serialize_bucket_def serialize_entries_bytes
    write_vint_append Let_def)

lemma serialize_buckets_bytes:
  assumes "\<forall>b \<in> set idxs. b * bs < length vs" and "0 < bs" and "base \<le> length buf"
    and "B = map (\<lambda>b. bucket_bytes ver (bucket_slice vs bs b)) idxs"
  shows "serialize_buckets ver vs bs base idxs buf offs =
    (buf @ concat B, offs @ map (\<lambda>n. of_nat (length buf - base + n)) (bucket_starts B))"
  using assms(1,3) unfolding assms(4)
proof (induction idxs arbitrary: buf offs)
  case Nil
  then show ?case by (simp add: bucket_starts_def)
next
  case (Cons b idxs)
  let ?x = "bucket_bytes ver (bucket_slice vs bs b)"
  let ?B = "map (\<lambda>b. bucket_bytes ver (bucket_slice vs bs b)) idxs"
  have st: "bucket_starts (?x # ?B) = 0 # map (\<lambda>n. length ?x + n) (bucket_starts ?B)"
    by (rule nth_equalityI) (auto simp: nth_Cons split: nat.splits)
  have x: "serialize_bucket ver vs bs b buf = buf @ ?x"
    using Cons.prems assms(2) by (intro serialize_bucket_bytes) auto
  have "base \<le> length (buf @ ?x)" using Cons.prems by simp
  from Cons.IH [OF _ this, of "offs @ [of_nat (length buf - base)]"] Cons.prems
  show ?case
    by (simp add: x Let_def st o_def Nat.add_diff_assoc2 add.assoc del: of_nat_add of_nat_diff)
qed

section \<open>Cutting the values into buckets\<close>

lemma div_ceil_bounds:
  assumes "0 < bs" and "0 < n"
  shows "n \<le> div_ceil n bs * bs" "\<And>k. k < div_ceil n bs \<Longrightarrow> k * bs < n" "div_ceil n bs \<le> n"
proof -
  define q r where "q = n div bs" and "r = n mod bs"
  have n: "n = q * bs + r" by (simp add: q_def r_def)
  have r: "r < bs" using assms(1) by (simp add: r_def)
  have d: "div_ceil n bs = (if r = 0 then q else q + 1)" by (simp add: div_ceil_def q_def r_def)
  show "n \<le> div_ceil n bs * bs" unfolding d using n r by (simp add: add_mult_distrib)
  show less: "k * bs < n" if "k < div_ceil n bs" for k
  proof (cases "k < q")
    case True
    then have "Suc k * bs \<le> q * bs" by (intro mult_le_mono1) simp
    then show ?thesis using n assms(1) by simp
  next
    case False
    with that have "k = q" "0 < r" by (auto simp: d split: if_splits)
    then show ?thesis using n by simp
  qed
  have "q \<le> q * bs" using assms(1) by simp
  then have "q + r \<le> n" using n by linarith
  then show "div_ceil n bs \<le> n"
    unfolding d by (cases r) simp_all
qed

lemma bucket_count_slice:
  "bucket_count bs (length vs) b = length (bucket_slice vs bs b)"
  by (auto simp: bucket_count_def bucket_slice_def)

lemma concat_bucket_slices: "concat (map (bucket_slice vs bs) [0..<n]) = take (n * bs) vs"
proof (induction n)
  case (Suc n)
  have "Suc n * bs = n * bs + bs" by simp
  with Suc show ?case by (simp only: take_add) (simp add: bucket_slice_def)
qed simp

lemma set_bucket_slice: "e \<in> set (bucket_slice vs bs b) \<Longrightarrow> e \<in> set vs"
  by (auto simp: bucket_slice_def dest: in_set_takeD in_set_dropD)

lemma bucket_slice_nonempty: "b * bs < length vs \<Longrightarrow> 0 < bs \<Longrightarrow> bucket_slice vs bs b \<noteq> []"
  by (simp add: bucket_slice_eq)

section \<open>The round trip\<close>

text \<open>The parts of a serialized buffer.\<close>

definition bucket_list :: "fc_version \<Rightarrow> dictionary \<Rightarrow> nat \<Rightarrow> byte list list" where
  "bucket_list ver d bs =
     map (\<lambda>b. bucket_bytes ver (bucket_slice (dict_values d) bs b)) [0..<div_ceil (length (dict_values d)) bs]"

definition header_bytes :: "fc_version \<Rightarrow> dictionary \<Rightarrow> nat \<Rightarrow> byte list" where
  "header_bytes ver d bs =
     to_le_bytes (version_word ver) @ to_le_bytes (of_nat bs) @ to_le_bytes (of_nat (length (dict_values d)))"

definition offset_bytes :: "fc_version \<Rightarrow> dictionary \<Rightarrow> nat \<Rightarrow> byte list" where
  "offset_bytes ver d bs = concat (map (\<lambda>n. to_le_bytes (of_nat n)) (bucket_starts (bucket_list ver d bs)))"

lemma length_header_bytes [simp]: "length (header_bytes ver d bs) = 12"
  by (simp add: header_bytes_def)

lemma div_ceil_0 [simp]: "div_ceil 0 bs = 0"
  by (simp add: div_ceil_def)

lemma serialize_body_parts:
  assumes "0 < bs"
  shows "serialize_body ver d bs = header_bytes ver d bs @ concat (bucket_list ver d bs) @ offset_bytes ver d bs"
proof -
  let ?vs = "dict_values d"
  have idx: "\<forall>b \<in> set [0..<div_ceil (length ?vs) bs]. b * bs < length ?vs"
    using div_ceil_bounds(2) [OF assms] by (cases "?vs = []") auto
  have "serialize_buckets ver ?vs bs (length (header_bytes ver d bs)) [0..<div_ceil (length ?vs) bs]
      (header_bytes ver d bs) []
    = (header_bytes ver d bs @ concat (bucket_list ver d bs),
       [] @ map (\<lambda>n. of_nat (length (header_bytes ver d bs) - length (header_bytes ver d bs) + n))
         (bucket_starts (bucket_list ver d bs)))"
    by (rule serialize_buckets_bytes [OF idx assms]) (simp_all add: bucket_list_def)
  then show ?thesis
    by (cases "?vs = []")
      (simp_all add: serialize_body_def Let_def header_bytes_def offset_bytes_def o_def
        bucket_list_def bucket_starts_def)
qed

lemma length_offset_bytes:
  "length (offset_bytes ver d bs) = 4 * div_ceil (length (dict_values d)) bs"
proof -
  have "length (concat (map (\<lambda>n. to_le_bytes (of_nat n)) xs)) = 4 * length xs" for xs
    by (induction xs) auto
  then show ?thesis by (simp add: offset_bytes_def bucket_list_def)
qed

lemma read_offsets_bytes:
  assumes "\<forall>n \<in> set ns. n < 2 ^ 32"
  shows "read_offsets (pre @ concat (map (\<lambda>n. to_le_bytes (of_nat n)) ns)) (length pre) (length ns) = Ok ns"
proof -
  let ?f = "\<lambda>n. to_le_bytes (of_nat n)"
  have len: "length (concat (map ?f xs)) = 4 * length xs" for xs :: "nat list"
    by (induction xs) auto
  have "bind (u32_at (pre @ concat (map ?f ns)) (length pre + i * 4)) (\<lambda>w. Ok (unat w))
      = (Ok (ns ! i) :: (nat, dict_error) res)" if "i < length ns" for i
  proof -
    have "ns = take i ns @ ns ! i # drop (Suc i) ns" by (rule id_take_nth_drop [OF that])
    then have "concat (map ?f ns) = concat (map ?f (take i ns)) @ ?f (ns ! i) @ concat (map ?f (drop (Suc i) ns))"
      by (metis concat.simps(2) concat_append list.simps(9) map_append)
    then have "u32_at (pre @ concat (map ?f ns)) (length pre + i * 4) = (Ok (of_nat (ns ! i)) :: (u32, dict_error) res)"
      using that by (intro u32_at_eq [of _ "pre @ concat (map ?f (take i ns))"]) (simp_all add: len)
    moreover have "ns ! i < 2 ^ 32" using assms that by simp
    ultimately show ?thesis by simp
  qed
  then have "read_offsets (pre @ concat (map ?f ns)) (length pre) (length ns)
      = Ok (map ((!) ns) [0..<length ns])"
    unfolding read_offsets_def by (intro mapM_Ok) auto
  then show ?thesis by (simp add: map_nth)
qed

lemma bucket_starts_increasing:
  assumes "\<forall>b \<in> set bs. b \<noteq> []"
  shows "check_increasing (bucket_starts bs) = Ok ()"
proof -
  have "check_increasing xs = Ok ()" if "sorted_wrt (<) xs" for xs
    using that by (induction xs rule: check_increasing.induct) auto
  moreover have "sorted_wrt (<) (bucket_starts bs)"
  proof (rule sorted_wrt_iff_nth_less [THEN iffD2], intro allI impI)
    fix i j assume ij: "i < j" "j < length (bucket_starts bs)"
    then have i: "i < length bs" by simp
    obtain m where m: "j = i + Suc m" using ij(1) less_imp_Suc_add by auto
    have "take j bs = take i bs @ bs ! i # take m (drop (Suc i) bs)"
      unfolding m take_add by (simp add: Cons_nth_drop_Suc [OF i, symmetric])
    moreover have "bs ! i \<noteq> []" using assms i by simp
    ultimately show "bucket_starts bs ! i < bucket_starts bs ! j" using ij i by simp
  qed
  ultimately show ?thesis .
qed

lemma validate_bucket_starts:
  assumes "\<forall>b \<in> set bs. b \<noteq> []"
  shows "validate_bucket_offsets (bucket_starts bs) (length (concat bs)) = Ok ()"
proof (cases "bs = []")
  case False
  then have first: "bucket_starts bs = 0 # tl (bucket_starts bs)"
    by (simp add: bucket_starts_def upt_conv_Cons)
  have "bs = butlast bs @ [last bs]" using False by simp
  then have "length (concat bs) = length (concat (butlast bs)) + length (last bs)"
    by (metis concat.simps(1,2) concat_append length_append append_Nil2)
  moreover have "last (bucket_starts bs) = length (concat (butlast bs))"
    using False by (simp add: last_conv_nth bucket_starts_def butlast_conv_take)
  moreover have "last bs \<noteq> []" using assms False by simp
  ultimately have "last (bucket_starts bs) < length (concat bs)" by simp
  with bucket_starts_increasing [OF assms] first show ?thesis
    by (simp add: validate_bucket_offsets_def split: list.split) force
qed (simp add: validate_bucket_offsets_def bucket_starts_def)

definition fits_u32 :: "fc_version \<Rightarrow> dictionary \<Rightarrow> nat \<Rightarrow> bool" where
  "fits_u32 ver d bs \<longleftrightarrow> bs < 2 ^ 32 \<and> length (serialize_body ver d bs) < 2 ^ 32"

lemma length_bucket_bytes: "length es \<le> length (bucket_bytes ver es)"
proof -
  have "length es \<le> length (entries_bytes ver ref es)" for ref es
  proof (induction es arbitrary: ref)
    case (Cons e es)
    have "entry_bytes ref e \<noteq> []" by (simp add: entry_bytes_def Let_def)
    with Cons [of "next_ref ver ref e"] show ?case by (cases "entry_bytes ref e") simp_all
  qed simp
  then show ?thesis
    by (cases es; cases "vint_bytes (of_nat (length (hd es)) :: u32)") (auto intro: trans_le_add2)
qed

lemma length_entries_bytes:
  "e \<in> set es \<Longrightarrow> length e \<le> length ref + length (entries_bytes ver ref es)"
proof (induction es arbitrary: ref)
  case (Cons x es)
  have x: "length x \<le> length ref + length (entry_bytes ref x)"
  proof -
    have "length x - common_prefix_len ref x \<le> length (entry_bytes ref x)"
      by (simp add: entry_bytes_def Let_def del: of_nat_diff)
    with common_prefix_len_le [of ref x] show ?thesis by linarith
  qed
  with next_ref_cases [of ver ref x]
  have r: "length (next_ref ver ref x) \<le> length ref + length (entry_bytes ref x)" by auto
  from Cons.prems consider "e = x" | "e \<in> set es" by auto
  then show ?case
  proof cases
    case 2
    from Cons.IH [OF this, of "next_ref ver ref x"] r show ?thesis by simp
  qed (use x in simp)
qed simp

lemma length_bucket_member: "e \<in> set es \<Longrightarrow> length e \<le> length (bucket_bytes ver es)"
  by (cases es) (auto dest: length_entries_bytes [of _ _ _ ver] intro: trans_le_add2)

lemma length_concat_member: "x \<in> set xs \<Longrightarrow> length x \<le> length (concat xs)"
  by (induction xs) auto

lemma bucket_starts_le: "n \<in> set (bucket_starts xs) \<Longrightarrow> n \<le> length (concat xs)"
proof -
  assume "n \<in> set (bucket_starts xs)"
  then obtain k where "n = length (concat (take k xs))" by (auto simp: bucket_starts_def)
  moreover have "concat xs = concat (take k xs) @ concat (drop k xs)"
    by (simp flip: concat_append)
  ultimately show ?thesis by simp
qed

lemma length_concat_chunks:
  "\<forall>x \<in> set xs. length x \<le> length (f x) \<Longrightarrow> length (concat xs) \<le> length (concat (map f xs))"
  by (induction xs) (auto intro: add_le_mono)

lemma header_reads:
  "u32_at (header_bytes ver d bs @ rest) 0 = Ok (version_word ver)"
  "u32_at (header_bytes ver d bs @ rest) 4 = Ok (of_nat bs)"
  "u32_at (header_bytes ver d bs @ rest) 8 = Ok (of_nat (length (dict_values d)))"
  unfolding header_bytes_def
    apply (rule u32_at_eq [of _ "[]"]; simp)
   apply (rule u32_at_eq [of _ "to_le_bytes (version_word ver)"]; simp)
  apply (rule u32_at_eq [of _ "to_le_bytes (version_word ver) @ to_le_bytes (of_nat bs)"]; simp)
  done

lemma bucket_list_chunks:
  assumes bs: "0 < bs" and n: "dict_values d \<noteq> []"
    and chunks: "chunks = map (bucket_slice (dict_values d) bs) [0..<div_ceil (length (dict_values d)) bs]"
  shows "bucket_list ver d bs = map (bucket_bytes ver) chunks" "concat chunks = dict_values d"
    "\<forall>c \<in> set chunks. c \<noteq> [] \<and> set c \<subseteq> set (dict_values d)"
    "\<forall>k < length chunks. bucket_count bs (length (dict_values d)) k = length (chunks ! k)"
    "\<forall>b \<in> set (bucket_list ver d bs). b \<noteq> []"
    "dict_aligned ver d bs \<longleftrightarrow> (\<forall>c \<in> set chunks. bucket_aligned ver c)"
proof -
  let ?vs = "dict_values d"
  have pos: "0 < length ?vs" using n by simp
  note dc = div_ceil_bounds [OF bs pos]
  show B: "bucket_list ver d bs = map (bucket_bytes ver) chunks"
    by (simp add: bucket_list_def chunks)
  show "concat chunks = ?vs" using dc(1) by (simp add: chunks concat_bucket_slices)
  show ne: "\<forall>c \<in> set chunks. c \<noteq> [] \<and> set c \<subseteq> set ?vs"
    using dc(2) bs by (auto simp: chunks bucket_slice_nonempty dest: set_bucket_slice)
  show "\<forall>k < length chunks. bucket_count bs (length ?vs) k = length (chunks ! k)"
    by (simp add: chunks bucket_count_slice)
  have "bucket_bytes ver c \<noteq> []" if "c \<noteq> []" for c
    using that by (cases c) simp_all
  then show "\<forall>b \<in> set (bucket_list ver d bs). b \<noteq> []" using ne by (auto simp: B)
  show "dict_aligned ver d bs \<longleftrightarrow> (\<forall>c \<in> set chunks. bucket_aligned ver c)"
    by (auto simp: dict_aligned_def chunks)
qed

text \<open>The decoder on a serialized buffer, for either version.\<close>

lemma deserialize_body_serialized:
  assumes bs: "0 < bs" and pow: "ver = V2 \<longrightarrow> is_power_of_two bs"
    and wf: "dict_wf d" and fits: "fits_u32 ver d bs"
  shows "deserialize_body ver (serialize_body ver d bs)
     = (if dict_aligned ver d bs then Ok d else fail PrefixNotBoundary)"
proof (cases "dict_values d = []")
  case True
  then have d: "d = dict_new" by (simp add: dict_new_def)
  show ?thesis
    unfolding serialize_body_parts [OF bs]
    using True by (simp add: deserialize_body_def header_reads dict_aligned_def d)
next
  case False
  let ?vs = "dict_values d" and ?B = "bucket_list ver d bs" and ?hdr = "header_bytes ver d bs"
  define chunks where "chunks = map (bucket_slice ?vs bs) [0..<div_ceil (length ?vs) bs]"
  note ch = bucket_list_chunks [OF bs False chunks_def]
  define data where "data = ?hdr @ concat ?B @ offset_bytes ver d bs"
  have data: "serialize_body ver d bs = data" by (simp add: serialize_body_parts [OF bs] data_def)
  have lenB: "length ?B = div_ceil (length ?vs) bs" by (simp add: bucket_list_def)
  have len: "length data = 12 + length (concat ?B) + 4 * div_ceil (length ?vs) bs"
    by (simp add: data_def length_offset_bytes)
  have nL: "length ?vs \<le> length (concat ?B)"
    using length_concat_chunks [of chunks "bucket_bytes ver"] length_bucket_bytes [of _ ver]
    by (simp add: ch(1,2))
  have small: "bs < 2 ^ 32" "length (concat ?B) < 2 ^ 32" "length ?vs < 2 ^ 32"
    using fits nL by (simp_all add: fits_u32_def data len)
  have hd: "u32_at data 4 = (Ok (of_nat bs) :: (u32, dict_error) res)"
    "u32_at data 8 = (Ok (of_nat (length ?vs)) :: (u32, dict_error) res)"
    by (simp_all add: data_def header_reads)
  have elems: "\<forall>c \<in> set chunks. c \<noteq> [] \<and> (\<forall>e \<in> set c. utf8_valid e \<and> length e < 2 ^ 32)"
  proof (intro ballI conjI)
    fix c e assume c: "c \<in> set chunks" and e: "e \<in> set c"
    show "utf8_valid e" using wf ch(3) c e by (auto simp: dict_wf_def)
    have "length e \<le> length (bucket_bytes ver c)" using e by (rule length_bucket_member)
    also have "\<dots> \<le> length (concat ?B)" using c by (intro length_concat_member) (simp add: ch(1))
    finally show "length e < 2 ^ 32" using small(2) by simp
  qed (use ch(3) in blast)
  have offs: "read_offsets data (12 + length (concat ?B)) (div_ceil (length ?vs) bs) = Ok (bucket_starts ?B)"
  proof -
    have "\<forall>n \<in> set (bucket_starts ?B). n < 2 ^ 32" using bucket_starts_le small(2) by fastforce
    from read_offsets_bytes [OF this, of "?hdr @ concat ?B"] show ?thesis
      by (simp add: data_def offset_bytes_def lenB)
  qed
  have valid: "validate_bucket_offsets (bucket_starts ?B) (length (concat ?B)) = Ok ()"
    by (rule validate_bucket_starts [OF ch(5)])
  have rb: "read_buckets ver data bs (length ?vs) (bucket_starts ?B) (12 + length (concat ?B)) 0
      (drop 0 (bucket_starts ?B))
    = (if \<forall>c \<in> set (drop 0 chunks). bucket_aligned ver c then Ok (concat (drop 0 chunks))
       else fail PrefixNotBoundary)"
    by (rule read_buckets_bytes [OF length_header_bytes elems ch(4)])
      (simp_all add: data_def ch(1))
  show ?thesis
    unfolding data using hd small bs pow offs valid rb False nL
    by (auto simp: deserialize_body_def len Let_def ch(2,6))
qed

lemma version_word_at_0:
  "0 < bs \<Longrightarrow> u32_at (serialize_body ver d bs) 0 = Ok (version_word ver)"
  by (simp add: serialize_body_parts header_reads)

lemma deserialize_serialized:
  assumes "0 < bs" and "ver = V2 \<longrightarrow> is_power_of_two bs" and "dict_wf d" and "fits_u32 ver d bs"
  shows "deserialize (serialize_body ver d bs)
     = (if dict_aligned ver d bs then Ok d else fail PrefixNotBoundary)"
proof -
  have "12 \<le> length (serialize_body ver d bs)" using assms(1) by (simp add: serialize_body_parts)
  then show ?thesis
    using deserialize_body_serialized [OF assms]
    by (cases ver)
      (simp_all add: deserialize_def deserialize_v1_def deserialize_v2_def version_word_at_0 [OF assms(1)])
qed

section \<open>Strings of single-byte characters are always aligned\<close>

lemma ascii_not_cont: "b \<le> 0x7F \<Longrightarrow> \<not> is_cont b"
  by (simp add: is_cont_def word_le_nat_alt)

lemma ascii_boundary:
  "\<forall>b \<in> set s. b \<le> 0x7F \<Longrightarrow> k \<le> length s \<Longrightarrow> is_char_boundary s k"
  by (auto simp: is_char_boundary_def intro!: ascii_not_cont)

lemma ascii_valid: "\<forall>b \<in> set s. b \<le> 0x7F \<Longrightarrow> utf8_valid s"
  by (induction s) (simp_all add: utf8_valid_step [of _ 1])

end
