(* ===== verification/Dictionary_Access.thy ===== *)
theory Dictionary_Access
  imports Dictionary_Roundtrip
begin

text \<open>
  What the decoders guarantee on arbitrary bytes: no access out of range, values that are
  well-formed strings in the number the header announces, and random access that agrees with the
  full decoder.
\<close>

section \<open>No access out of range\<close>

lemma read_base_safe: "os \<le> length data \<Longrightarrow> safe (read_base data os pos)"
  unfolding read_base_def
  by (auto simp: read_vint_safe intro!: safe_bind split: prod.splits if_splits)

lemma read_entry_safe: "os \<le> length data \<Longrightarrow> safe (read_entry data os ref pos)"
  unfolding read_entry_def
  by (auto simp: read_vint_safe str_prefix_def intro!: safe_bind split: prod.splits if_splits)

lemma read_entries_safe: "os \<le> length data \<Longrightarrow> safe (read_entries ver data os ref n pos)"
  by (induction n arbitrary: ref pos)
    (auto simp: read_entry_safe intro!: safe_bind split: prod.splits)

lemma read_bucket_safe: "os \<le> length data \<Longrightarrow> safe (read_bucket ver data os count pos)"
  unfolding read_bucket_def
  by (auto simp: read_base_safe read_entries_safe intro!: safe_bind split: prod.splits)

lemma read_buckets_safe: "os \<le> length data \<Longrightarrow> safe (read_buckets ver data bs nv offs os k rest)"
  by (induction rest arbitrary: k) (auto simp: read_bucket_safe intro!: safe_bind split: prod.splits)

lemma read_offsets_safe: "os + 4 * nb \<le> length data \<Longrightarrow> safe (read_offsets data os nb)"
  unfolding read_offsets_def by (intro mapM_safe safe_bind safe_u32_at) auto

lemma check_increasing_safe: "safe (check_increasing xs)"
  by (induction xs rule: check_increasing.induct) auto

lemma validate_bucket_offsets_safe: "safe (validate_bucket_offsets offs len)"
  by (auto simp: validate_bucket_offsets_def check_increasing_safe split: list.splits intro!: safe_bind)

lemma deserialize_body_safe: "12 \<le> length data \<Longrightarrow> safe (deserialize_body ver data)"
  unfolding deserialize_body_def Let_def
  by (intro safe_bind safe_u32_at)
    (auto intro!: safe_bind read_offsets_safe validate_bucket_offsets_safe read_buckets_safe)

lemma deserialize_safe: "safe (deserialize data)"
  unfolding deserialize_def
  by (auto intro!: safe_bind safe_u32_at deserialize_body_safe
    simp: deserialize_v1_def deserialize_v2_def)

lemma skip_v2_entries_safe: "safe (skip_v2_entries data os n pos)"
  by (induction n arbitrary: pos) (auto simp: read_vint_safe intro!: safe_bind split: prod.splits)

lemma skip_v2_bucket_safe: "safe (skip_v2_bucket data pos count os)"
  unfolding skip_v2_bucket_def
  by (auto simp: read_vint_safe skip_v2_entries_safe intro!: safe_bind split: prod.splits)

lemma check_v2_buckets_safe:
  "\<forall>b \<in> set bl. b < length offs \<Longrightarrow> safe (check_v2_buckets data bs nv offs os bl)"
  by (induction bl) (auto simp: skip_v2_bucket_safe index_at_def intro!: safe_bind)

lemma scan_v2_safe: "os \<le> length data \<Longrightarrow> safe (scan_v2 data os base n pos)"
  by (induction n arbitrary: pos)
    (auto simp: read_vint_safe str_prefix_def intro!: safe_bind split: prod.splits if_splits)

lemma div_less_div_ceil: "0 < bs \<Longrightarrow> i < n \<Longrightarrow> i div bs < div_ceil n bs"
proof -
  assume bs: "0 < bs" and i: "i < n"
  then have "n \<le> div_ceil n bs * bs" by (intro div_ceil_bounds(1)) auto
  with i have "i < div_ceil n bs * bs" by linarith
  then show ?thesis by (rule less_mult_imp_div_less)
qed

lemma le_div_less_div_ceil: "b \<le> i div bs \<Longrightarrow> 0 < bs \<Longrightarrow> i < n \<Longrightarrow> b < div_ceil n bs"
  using div_less_div_ceil [of bs i n] by simp

lemma read_offsets_length: "read_offsets data os nb = Ok offs \<Longrightarrow> length offs = nb"
  unfolding read_offsets_def by (drule mapM_length) simp

lemma get_v2_safe: "safe (get_v2 data ordinal)"
  unfolding get_v2_def Let_def
  by (auto intro!: safe_bind safe_u32_at read_offsets_safe validate_bucket_offsets_safe
      check_v2_buckets_safe read_base_safe scan_v2_safe le_div_less_div_ceil [where i = ordinal]
      dest!: read_offsets_length split: prod.splits)

section \<open>Decoded values\<close>

lemma read_base_valid: "read_base data os pos = Ok (b, pos') \<Longrightarrow> utf8_valid b"
  by (auto simp: read_base_def split: if_splits)

lemma read_entry_valid: "read_entry data os ref pos = Ok (e, pos') \<Longrightarrow> utf8_valid ref \<Longrightarrow> utf8_valid e"
  by (auto simp: read_entry_def str_prefix_def split: if_splits intro!: utf8_valid_join)

lemma next_ref_valid: "utf8_valid ref \<Longrightarrow> utf8_valid e \<Longrightarrow> utf8_valid (next_ref ver ref e)"
  by (cases ver) auto

lemma read_entries_valid:
  "read_entries ver data os ref n pos = Ok (es, pos') \<Longrightarrow> utf8_valid ref \<Longrightarrow>
     length es = n \<and> (\<forall>e \<in> set es. utf8_valid e)"
proof (induction n arbitrary: ref pos es pos')
  case (Suc n)
  from Suc.prems(1) obtain e p es' where e: "read_entry data os ref pos = Ok (e, p)"
    and es': "read_entries ver data os (next_ref ver ref e) n p = Ok (es', pos')" and es: "es = e # es'"
    by auto
  have "utf8_valid e" using e Suc.prems(2) by (rule read_entry_valid)
  with Suc.IH [OF es' next_ref_valid] Suc.prems(2) show ?case by (simp add: es)
qed simp

lemma read_bucket_valid:
  "read_bucket ver data os count pos = Ok (vs, pos') \<Longrightarrow>
     length vs = Suc (count - 1) \<and> (\<forall>v \<in> set vs. utf8_valid v)"
  by (auto simp: read_bucket_def dest: read_base_valid dest!: read_entries_valid intro: read_base_valid)

text \<open>The buckets a successful decode went through.\<close>

lemma read_buckets_chunks:
  assumes "read_buckets ver data bs nv offs os k (drop k offs) = Ok ws" and "k \<le> length offs"
  shows "\<exists>chunks. length chunks = length offs - k \<and> ws = concat chunks \<and>
    (\<forall>j < length chunks. read_bucket ver data os (bucket_count bs nv (k + j)) (12 + offs ! (k + j))
        = Ok (chunks ! j, bucket_limit offs os (k + j)))"
  using assms
proof (induction "length offs - k" arbitrary: k ws)
  case 0
  then have "ws = []" by simp
  with 0 show ?case by (intro exI [of _ "[]"]) simp
next
  case (Suc n)
  then have k: "k < length offs" by simp
  then have dr: "drop k offs = offs ! k # drop (Suc k) offs" by (simp add: Cons_nth_drop_Suc)
  from Suc.prems(1) obtain vs ws' where
    b: "read_bucket ver data os (bucket_count bs nv k) (12 + offs ! k) = Ok (vs, bucket_limit offs os k)"
    and r: "read_buckets ver data bs nv offs os (Suc k) (drop (Suc k) offs) = Ok ws'" and ws: "ws = vs @ ws'"
    by (auto simp: dr split: if_splits)
  have "n = length offs - Suc k" using Suc.hyps(2) by simp
  from Suc.hyps(1) [OF this r] k obtain chunks where
    c: "length chunks = length offs - Suc k" "ws' = concat chunks"
       "\<forall>j < length chunks. read_bucket ver data os (bucket_count bs nv (Suc k + j)) (12 + offs ! (Suc k + j))
          = Ok (chunks ! j, bucket_limit offs os (Suc k + j))"
    by auto
  have "read_bucket ver data os (bucket_count bs nv (k + j)) (12 + offs ! (k + j))
      = Ok ((vs # chunks) ! j, bucket_limit offs os (k + j))" if "j < length (vs # chunks)" for j
    using that b c(3) by (cases j) auto
  with c k ws show ?case by (intro exI [of _ "vs # chunks"]) auto
qed

lemma bucket_count_pos: "0 < bs \<Longrightarrow> b * bs < nv \<Longrightarrow> 0 < bucket_count bs nv b"
  by (simp add: bucket_count_def)

lemma bucket_count_full: "Suc b * bs \<le> nv \<Longrightarrow> bucket_count bs nv b = bs"
  by (simp add: bucket_count_def)

lemma nth_concat_uniform:
  "\<forall>j < q. length (chunks ! j) = bs \<Longrightarrow> q < length chunks \<Longrightarrow> r < length (chunks ! q) \<Longrightarrow>
     concat chunks ! (q * bs + r) = chunks ! q ! r"
proof (induction q arbitrary: chunks)
  case 0
  then show ?case by (cases chunks) (auto simp: nth_append)
next
  case (Suc q)
  then obtain c cs where c: "chunks = c # cs" by (cases chunks) auto
  from Suc.prems(1) have "length c = bs" "\<forall>j < q. length (cs ! j) = bs" by (auto simp: c dest: spec [of _ "Suc _"])
  with Suc.IH [of cs] Suc.prems show ?case by (simp add: c nth_append)
qed

lemma length_concat_uniform:
  "\<forall>j < n. length (chunks ! j) = bucket_count bs nv j \<Longrightarrow> n \<le> length chunks \<Longrightarrow>
     length (concat (take n chunks)) = min (n * bs) nv"
proof (induction n)
  case (Suc n)
  then have "length (concat (take n chunks)) = min (n * bs) nv" "length (chunks ! n) = bucket_count bs nv n"
    by simp_all
  with Suc.prems(2) show ?case
    by (simp add: take_Suc_conv_app_nth bucket_count_def)
qed simp

text \<open>Everything a successful decode has checked.\<close>

record decode_trace =
  tr_size :: nat
  tr_count :: nat
  tr_offsets :: "nat list"
  tr_start :: nat
  tr_chunks :: "byte list list list"

definition decodes :: "fc_version \<Rightarrow> byte list \<Rightarrow> decode_trace \<Rightarrow> bool" where
  "decodes ver data t \<longleftrightarrow>
     u32_at data 4 = (Ok (of_nat (tr_size t)) :: (u32, dict_error) res) \<and> tr_size t < 2 ^ 32 \<and>
     u32_at data 8 = (Ok (of_nat (tr_count t)) :: (u32, dict_error) res) \<and> tr_count t < 2 ^ 32 \<and>
     0 < tr_size t \<and> 0 < tr_count t \<and> (ver = V2 \<longrightarrow> is_power_of_two (tr_size t)) \<and>
     tr_count t \<le> length data - 12 \<and>
     12 + div_ceil (tr_count t) (tr_size t) * 4 \<le> length data \<and>
     tr_start t = length data - div_ceil (tr_count t) (tr_size t) * 4 \<and>
     read_offsets data (tr_start t) (div_ceil (tr_count t) (tr_size t)) = Ok (tr_offsets t) \<and>
     validate_bucket_offsets (tr_offsets t) (tr_start t - 12) = Ok () \<and>
     length (tr_chunks t) = div_ceil (tr_count t) (tr_size t) \<and>
     (\<forall>j < length (tr_chunks t).
        read_bucket ver data (tr_start t) (bucket_count (tr_size t) (tr_count t) j) (12 + tr_offsets t ! j)
          = Ok (tr_chunks t ! j, bucket_limit (tr_offsets t) (tr_start t) j))"

lemma deserialize_body_decodes:
  assumes "deserialize_body ver data = Ok d" and "d \<noteq> dict_new"
  obtains t where "decodes ver data t" and "dict_values d = concat (tr_chunks t)"
proof -
  from assms obtain bs nv offs ws where
    h: "u32_at data 4 = (Ok bs :: (u32, dict_error) res)" "u32_at data 8 = (Ok nv :: (u32, dict_error) res)"
    and g: "0 < unat nv" "0 < unat bs" "ver = V2 \<longrightarrow> is_power_of_two (unat bs)" "unat nv \<le> length data - 12"
      "12 + div_ceil (unat nv) (unat bs) * 4 \<le> length data"
    and o: "read_offsets data (length data - div_ceil (unat nv) (unat bs) * 4) (div_ceil (unat nv) (unat bs)) = Ok offs"
    and v: "validate_bucket_offsets offs (length data - div_ceil (unat nv) (unat bs) * 4 - 12) = Ok ()"
    and r: "read_buckets ver data (unat bs) (unat nv) offs (length data - div_ceil (unat nv) (unat bs) * 4) 0 offs = Ok ws"
    and d: "d = \<lparr>dict_values = ws\<rparr>"
    by (auto simp: deserialize_body_def Let_def not_less split: if_splits)
  have r': "read_buckets ver data (unat bs) (unat nv) offs (length data - div_ceil (unat nv) (unat bs) * 4) 0
      (drop 0 offs) = Ok ws"
    using r by simp
  from read_buckets_chunks [OF r' le0] obtain chunks where
    c: "length chunks = length offs" "ws = concat chunks"
      "\<forall>j < length chunks. read_bucket ver data (length data - div_ceil (unat nv) (unat bs) * 4)
         (bucket_count (unat bs) (unat nv) j) (12 + offs ! j)
           = Ok (chunks ! j, bucket_limit offs (length data - div_ceil (unat nv) (unat bs) * 4) j)"
    by auto
  have lt: "unat w < 2 ^ 32" for w :: u32 by (rule less_le_trans [OF unsigned_less]) simp
  let ?t = "\<lparr>tr_size = unat bs, tr_count = unat nv, tr_offsets = offs,
    tr_start = length data - div_ceil (unat nv) (unat bs) * 4, tr_chunks = chunks\<rparr>"
  have "decodes ver data ?t"
    using h g o v c lt [of bs] lt [of nv] read_offsets_length [OF o] by (simp add: decodes_def)
  with that show thesis using c(2) d by simp
qed

lemma decodes_chunk_length:
  assumes "decodes ver data t" and "j < length (tr_chunks t)"
  shows "length (tr_chunks t ! j) = bucket_count (tr_size t) (tr_count t) j" "\<forall>v \<in> set (tr_chunks t ! j). utf8_valid v"
proof -
  from assms have b: "read_bucket ver data (tr_start t) (bucket_count (tr_size t) (tr_count t) j) (12 + tr_offsets t ! j)
      = Ok (tr_chunks t ! j, bucket_limit (tr_offsets t) (tr_start t) j)"
    and pos: "0 < tr_size t" "0 < tr_count t" "j < div_ceil (tr_count t) (tr_size t)"
    by (auto simp: decodes_def)
  from pos have "0 < bucket_count (tr_size t) (tr_count t) j"
    by (intro bucket_count_pos div_ceil_bounds(2))
  with read_bucket_valid [OF b]
  show "length (tr_chunks t ! j) = bucket_count (tr_size t) (tr_count t) j" "\<forall>v \<in> set (tr_chunks t ! j). utf8_valid v"
    by auto
qed

lemma decodes_values:
  assumes "decodes ver data t"
  shows "length (concat (tr_chunks t)) = tr_count t" "\<forall>v \<in> set (concat (tr_chunks t)). utf8_valid v"
proof -
  let ?n = "length (tr_chunks t)"
  have "length (concat (take ?n (tr_chunks t))) = min (?n * tr_size t) (tr_count t)"
    by (rule length_concat_uniform) (auto simp: decodes_chunk_length [OF assms])
  moreover have "tr_count t \<le> ?n * tr_size t"
    using assms div_ceil_bounds(1) by (simp add: decodes_def)
  ultimately show "length (concat (tr_chunks t)) = tr_count t" by simp
  show "\<forall>v \<in> set (concat (tr_chunks t)). utf8_valid v"
  proof
    fix v assume "v \<in> set (concat (tr_chunks t))"
    then obtain j where "j < length (tr_chunks t)" "v \<in> set (tr_chunks t ! j)"
      by (auto simp: in_set_conv_nth [of _ "tr_chunks t"])
    then show "utf8_valid v" using decodes_chunk_length(2) [OF assms] by blast
  qed
qed

section \<open>Random access agrees with the full decoder\<close>

lemma read_entry_Ok:
  assumes "read_entry data os ref pos = Ok (e, pos')"
  obtains pl p1 sl p2 suffix where "read_vint data pos = Ok (pl, p1)" "read_vint data p1 = Ok (sl, p2)"
    "pos' = p2 + unat sl" "pos' \<le> os" "unat pl \<le> length ref" "is_char_boundary ref (unat pl)"
    "slice data p2 pos' = (Ok suffix :: (byte list, dict_error) res)" "utf8_valid suffix"
    "e = take (unat pl) ref @ suffix"
  using assms by (auto simp: read_entry_def str_prefix_def split: if_splits)

lemma read_entries_skip:
  "read_entries V2 data os ref n pos = Ok (es, pos') \<Longrightarrow> skip_v2_entries data os n pos = Ok pos'"
proof (induction n arbitrary: pos es)
  case (Suc n)
  then obtain e p es' where e: "read_entry data os ref pos = Ok (e, p)"
    and r: "read_entries V2 data os ref n p = Ok (es', pos')"
    by auto
  from e Suc.IH [OF r] show ?case by (elim read_entry_Ok) simp
qed simp

lemma read_bucket_skip:
  "read_bucket V2 data os count pos = Ok (vs, pos') \<Longrightarrow> skip_v2_bucket data pos count os = Ok pos'"
  by (auto simp: read_bucket_def skip_v2_bucket_def read_base_def dest: read_entries_skip split: if_splits)

lemma read_entries_scan:
  "read_entries V2 data os base n pos = Ok (es, pos') \<Longrightarrow> m < n \<Longrightarrow>
     scan_v2 data os base (Suc m) pos = Ok (Some (es ! m))"
proof (induction n arbitrary: pos es m)
  case (Suc n)
  from Suc.prems(1) obtain e p es' where e: "read_entry data os base pos = Ok (e, p)"
    and r: "read_entries V2 data os base n p = Ok (es', pos')" and es: "es = e # es'"
    by auto
  show ?case
  proof (cases m)
    case 0
    from e show ?thesis by (elim read_entry_Ok) (simp add: 0 es str_prefix_Ok)
  next
    case (Suc m')
    with Suc.IH [OF r, of m'] Suc.prems(2) have "scan_v2 data os base (Suc m') p = Ok (Some (es' ! m'))"
      by simp
    with e show ?thesis by (elim read_entry_Ok) (simp add: Suc es)
  qed
qed simp

lemma read_bucket_entries:
  assumes "read_bucket V2 data os count pos = Ok (vs, pos')"
  obtains b p es where "read_base data os pos = Ok (b, p)" "vs = b # es"
    "read_entries V2 data os b (count - 1) p = Ok (es, pos')"
  using assms by (auto simp: read_bucket_def)

lemma check_v2_buckets_Ok:
  assumes "decodes V2 data t" and "\<forall>b \<in> set bl. b < length (tr_chunks t)"
  shows "check_v2_buckets data (tr_size t) (tr_count t) (tr_offsets t) (tr_start t) bl = Ok ()"
  using assms(2)
proof (induction bl)
  case (Cons b bl)
  then have "read_bucket V2 data (tr_start t) (bucket_count (tr_size t) (tr_count t) b) (12 + tr_offsets t ! b)
      = Ok (tr_chunks t ! b, bucket_limit (tr_offsets t) (tr_start t) b)"
    and "b < length (tr_offsets t)"
    using assms(1) read_offsets_length by (auto simp: decodes_def)
  with Cons show ?case by (simp add: read_bucket_skip index_at_def)
qed simp

lemma get_v2_decodes:
  assumes t: "decodes V2 data t" and ver: "u32_at data 0 = (Ok 2 :: (u32, dict_error) res)" "12 \<le> length data"
  shows "get_v2 data i = Ok (if i < tr_count t then Some (concat (tr_chunks t) ! i) else None)"
proof (cases "i < tr_count t")
  case False
  with t ver show ?thesis by (simp add: get_v2_def decodes_def)
next
  case True
  let ?q = "i div tr_size t" and ?r = "i mod tr_size t"
  note T = t [unfolded decodes_def]
  from T True have q: "?q < length (tr_chunks t)" and ql: "?q < length (tr_offsets t)"
    using div_less_div_ceil read_offsets_length by auto
  have i: "i = ?q * tr_size t + ?r" by simp
  from T q have rb: "read_bucket V2 data (tr_start t) (bucket_count (tr_size t) (tr_count t) ?q) (12 + tr_offsets t ! ?q)
      = Ok (tr_chunks t ! ?q, bucket_limit (tr_offsets t) (tr_start t) ?q)"
    by blast
  then obtain b p es where b: "read_base data (tr_start t) (12 + tr_offsets t ! ?q) = Ok (b, p)"
    and c: "tr_chunks t ! ?q = b # es"
    and es: "read_entries V2 data (tr_start t) b (bucket_count (tr_size t) (tr_count t) ?q - 1) p
      = Ok (es, bucket_limit (tr_offsets t) (tr_start t) ?q)"
    by (rule read_bucket_entries)
  have r: "?r < bucket_count (tr_size t) (tr_count t) ?q"
  proof -
    have "?r < tr_size t" using T by simp
    moreover have "?q * tr_size t + ?r < tr_count t" using True by simp
    ultimately show ?thesis unfolding bucket_count_def by linarith
  qed
  have full: "\<forall>j < ?q. length (tr_chunks t ! j) = tr_size t"
  proof (intro allI impI)
    fix j assume j: "j < ?q"
    have "Suc j * tr_size t \<le> ?q * tr_size t" using j by (intro mult_le_mono1) simp
    also have "\<dots> \<le> tr_count t" using True div_times_less_eq_dividend [of i "tr_size t"] by linarith
    finally show "length (tr_chunks t ! j) = tr_size t"
      using decodes_chunk_length(1) [OF t] j q by (simp add: bucket_count_full)
  qed
  have nth: "concat (tr_chunks t) ! i = tr_chunks t ! ?q ! ?r"
    using nth_concat_uniform [OF full q, of ?r] r decodes_chunk_length(1) [OF t q] by simp
  have scan: "scan_v2 data (tr_start t) b ?r p = Ok (Some (es ! (?r - 1)))" if "?r \<noteq> 0"
    using read_entries_scan [OF es, of "?r - 1"] r that by simp
  have chk: "check_v2_buckets data (tr_size t) (tr_count t) (tr_offsets t) (tr_start t) [0..<?q + 1] = Ok ()"
    by (rule check_v2_buckets_Ok [OF t]) (use q in auto)
  show ?thesis
    using T ver True b c scan nth chk ql
    by (auto simp: get_v2_def Let_def index_at_def nth_Cons')
qed

end
