(* ===== verification/Dictionary_Search.thy ===== *)
theory Dictionary_Search
  imports Dictionary "HOL-Library.Sublist"
begin

text \<open>
  Lookups in a sorted dictionary: \<open>find\<close> and \<open>find_prefix_range\<close> of ferrodruid-dict. Values are
  ordered bytewise, as Rust orders strings; the order on byte lists is the lexicographic one of the
  library. The slice methods \<open>binary_search_by\<close> and \<open>partition_point\<close> of the Rust standard library
  are modelled as the halving loops they are documented to be.
\<close>

section \<open>Model\<close>

function partition_loop :: "('a \<Rightarrow> bool) \<Rightarrow> 'a list \<Rightarrow> nat \<Rightarrow> nat \<Rightarrow> nat" where
  "partition_loop pred xs lo hi =
     (if lo < hi then
        let mid = lo + (hi - lo) div 2 in
        if pred (xs ! mid) then partition_loop pred xs (mid + 1) hi
        else partition_loop pred xs lo mid
      else lo)"
  by pat_completeness auto
termination
  by (relation "measure (\<lambda>(pred, xs, lo, hi). hi - lo)") auto

declare partition_loop.simps [simp del]

definition partition_point :: "('a \<Rightarrow> bool) \<Rightarrow> 'a list \<Rightarrow> nat" where
  "partition_point pred xs = partition_loop pred xs 0 (length xs)"

datatype ordering = Less | Equal | Greater

definition str_cmp :: "byte list \<Rightarrow> byte list \<Rightarrow> ordering" where
  "str_cmp a b = (if a < b then Less else if a = b then Equal else Greater)"

function search_loop :: "('a \<Rightarrow> ordering) \<Rightarrow> 'a list \<Rightarrow> nat \<Rightarrow> nat \<Rightarrow> nat option" where
  "search_loop f xs lo hi =
     (if lo < hi then
        let mid = lo + (hi - lo) div 2 in
        case f (xs ! mid) of
          Less \<Rightarrow> search_loop f xs (mid + 1) hi
        | Greater \<Rightarrow> search_loop f xs lo mid
        | Equal \<Rightarrow> Some mid
      else None)"
  by pat_completeness auto
termination
  by (relation "measure (\<lambda>(f, xs, lo, hi). hi - lo)") auto

declare search_loop.simps [simp del]

definition dict_find :: "dictionary \<Rightarrow> byte list \<Rightarrow> nat option" where
  "dict_find d value = search_loop (\<lambda>v. str_cmp v value) (dict_values d) 0 (length (dict_values d))"

function prefix_successor :: "byte list \<Rightarrow> byte list option" where
  "prefix_successor bytes =
     (if bytes = [] then None
      else if last bytes < 0xFF then Some (butlast bytes @ [last bytes + 1])
      else prefix_successor (butlast bytes))"
  by pat_completeness auto
termination
  by (relation "measure length") auto

declare prefix_successor.simps [simp del]

definition find_prefix_range :: "dictionary \<Rightarrow> byte list \<Rightarrow> nat \<times> nat" where
  "find_prefix_range d prefix_bytes =
     (let lo = partition_point (\<lambda>v. v < prefix_bytes) (dict_values d);
          hi = (case prefix_successor prefix_bytes of
                  Some succ \<Rightarrow> partition_point (\<lambda>v. v < succ) (dict_values d)
                | None \<Rightarrow> length (dict_values d))
      in (lo, hi))"

section \<open>Partition points\<close>

lemma partition_loop_eq:
  assumes "lo \<le> k" "k \<le> hi" "\<forall>i < k. pred (xs ! i)" "\<forall>i. k \<le> i \<and> i < hi \<longrightarrow> \<not> pred (xs ! i)"
  shows "partition_loop pred xs lo hi = k"
  using assms
proof (induction pred xs lo hi rule: partition_loop.induct)
  case (1 pred xs lo hi)
  show ?case
  proof (cases "lo < hi")
    case True
    let ?m = "lo + (hi - lo) div 2"
    have m: "lo \<le> ?m" "?m < hi" using True by auto
    show ?thesis
    proof (cases "pred (xs ! ?m)")
      case p: True
      then have "\<not> k \<le> ?m" using "1.prems"(4) m(2) by blast
      then have "partition_loop pred xs (?m + 1) hi = k"
        using "1.IH"(1) [OF True refl p] "1.prems" by simp
      then show ?thesis using True p by (subst partition_loop.simps) (simp add: Let_def)
    next
      case p: False
      then have "k \<le> ?m" using "1.prems"(3) by (meson not_le)
      then have "partition_loop pred xs lo ?m = k"
        using "1.IH"(2) [OF True refl p] "1.prems" m by auto
      then show ?thesis using True p by (subst partition_loop.simps) (simp add: Let_def)
    qed
  next
    case False
    then show ?thesis using "1.prems" by (subst partition_loop.simps) simp
  qed
qed

lemma partition_point_sorted:
  assumes "sorted (xs :: ('a :: linorder) list)"
  shows "i < length xs \<Longrightarrow> i < partition_point (\<lambda>v. v < p) xs \<longleftrightarrow> xs ! i < p"
proof -
  let ?k = "length (takeWhile (\<lambda>v. v < p) xs)"
  have below: "\<forall>i < ?k. xs ! i < p"
    by (metis nth_mem set_takeWhileD takeWhile_nth)
  have above: "\<not> xs ! i < p" if "?k \<le> i" "i < length xs" for i
  proof -
    have "\<not> xs ! ?k < p" using nth_length_takeWhile [of "\<lambda>v. v < p" xs] that by simp
    moreover have "xs ! ?k \<le> xs ! i" using assms that by (simp add: sorted_nth_mono)
    ultimately show ?thesis by auto
  qed
  have "partition_point (\<lambda>v. v < p) xs = ?k"
    unfolding partition_point_def
    by (rule partition_loop_eq) (use below above length_takeWhile_le in auto)
  then show "i < length xs \<Longrightarrow> i < partition_point (\<lambda>v. v < p) xs \<longleftrightarrow> xs ! i < p"
    using below above by (metis not_le)
qed

section \<open>The successor of a prefix\<close>

lemma prefix_successor_Nil [simp]: "prefix_successor [] = None"
  by (simp add: prefix_successor.simps)

lemma prefix_successor_Cons:
  "prefix_successor (x # p) =
     (case prefix_successor p of Some s \<Rightarrow> Some (x # s) | None \<Rightarrow> if x < 0xFF then Some [x + 1] else None)"
proof (induction p rule: prefix_successor.induct)
  case (1 p)
  show ?case
  proof (cases "p = []")
    case True
    then show ?thesis by (simp add: prefix_successor.simps [of "[x]"])
  next
    case False
    show ?thesis
    proof (cases "last p < 0xFF")
      case True
      then show ?thesis using False
        by (simp add: prefix_successor.simps [of p] prefix_successor.simps [of "x # p"])
    next
      case no: False
      then have "prefix_successor (x # p) = prefix_successor (x # butlast p)"
        using False by (subst prefix_successor.simps) simp
      moreover have "prefix_successor p = prefix_successor (butlast p)"
        using False no by (subst prefix_successor.simps) simp
      ultimately show ?thesis using "1.IH" [OF False no] by simp
    qed
  qed
qed

lemma byte_max: "(x :: byte) \<le> 0xFF"
proof -
  have "unat x < 2 ^ LENGTH(8)" by (rule unsigned_less)
  then show ?thesis by (simp add: word_le_nat_alt)
qed

lemma byte_less_Suc: "x < 0xFF \<Longrightarrow> (y :: byte) < x + 1 \<longleftrightarrow> y \<le> x"
proof -
  assume "x < 0xFF"
  then have "unat (x + 1) = unat x + 1" by (simp add: word_less_nat_alt unat_word_ariths)
  then show ?thesis by (simp add: word_less_nat_alt word_le_nat_alt less_Suc_eq_le)
qed

lemma prefix_successor_bound:
  "p \<le> v \<and> (case prefix_successor p of Some s \<Rightarrow> v < s | None \<Rightarrow> True) \<longleftrightarrow> prefix p v"
proof (induction p arbitrary: v)
  case (Cons x p)
  show ?case
  proof (cases v)
    case Nil
    then show ?thesis by simp
  next
    case (Cons y v')
    note IH = Cons.IH [of v']
    show ?thesis
    proof (cases "prefix_successor p")
      case None
      then show ?thesis using IH Cons byte_max [of y] byte_less_Suc [of x y]
        by (auto simp: prefix_successor_Cons not_less)
    next
      case (Some s)
      then show ?thesis using IH Cons by (auto simp: prefix_successor_Cons)
    qed
  qed
qed simp

section \<open>Exact search\<close>

lemma search_loop_Some:
  "search_loop f xs lo hi = Some i \<Longrightarrow> lo \<le> i \<and> i < hi \<and> f (xs ! i) = Equal"
proof (induction f xs lo hi rule: search_loop.induct)
  case (1 f xs lo hi)
  let ?m = "lo + (hi - lo) div 2"
  from "1.prems" have lt: "lo < hi" by (subst (asm) search_loop.simps) (auto split: if_splits)
  show ?case
  proof (cases "f (xs ! ?m)")
    case Less
    then have "search_loop f xs (?m + 1) hi = Some i"
      using "1.prems" lt by (subst (asm) search_loop.simps) (simp add: Let_def)
    with "1.IH"(1) [OF lt refl Less] show ?thesis by simp
  next
    case Equal
    then show ?thesis using "1.prems" lt by (subst (asm) search_loop.simps) (auto simp: Let_def)
  next
    case Greater
    then have "search_loop f xs lo ?m = Some i"
      using "1.prems" lt by (subst (asm) search_loop.simps) (simp add: Let_def)
    with "1.IH"(2) [OF lt refl Greater] lt show ?thesis by auto
  qed
qed

lemma search_loop_None:
  assumes "search_loop f xs lo hi = None"
    and "\<forall>i j. i \<le> j \<and> j < hi \<longrightarrow> (f (xs ! i) = Greater \<longrightarrow> f (xs ! j) = Greater) \<and> (f (xs ! j) = Less \<longrightarrow> f (xs ! i) = Less)"
  shows "\<forall>i. lo \<le> i \<and> i < hi \<longrightarrow> f (xs ! i) \<noteq> Equal"
  using assms
proof (induction f xs lo hi rule: search_loop.induct)
  case (1 f xs lo hi)
  let ?m = "lo + (hi - lo) div 2"
  show ?case
  proof (cases "lo < hi")
    case True
    then have m: "lo \<le> ?m" "?m < hi" by auto
    show ?thesis
    proof (cases "f (xs ! ?m)")
      case Less
      have "search_loop f xs (?m + 1) hi = None"
        using "1.prems"(1) True Less by (subst (asm) search_loop.simps) (simp add: Let_def)
      then have hi: "\<forall>i. ?m + 1 \<le> i \<and> i < hi \<longrightarrow> f (xs ! i) \<noteq> Equal"
        using "1.IH"(1) [OF True refl Less] "1.prems"(2) by blast
      have lo: "f (xs ! i) = Less" if "i \<le> ?m" for i using "1.prems"(2) m(2) Less that by blast
      show ?thesis
      proof (intro allI impI)
        fix i assume "lo \<le> i \<and> i < hi"
        then show "f (xs ! i) \<noteq> Equal" using hi lo [of i] by (cases "i \<le> ?m") auto
      qed
    next
      case Equal
      then show ?thesis using "1.prems"(1) True by (subst (asm) search_loop.simps) (simp add: Let_def)
    next
      case Greater
      have "search_loop f xs lo ?m = None"
        using "1.prems"(1) True Greater by (subst (asm) search_loop.simps) (simp add: Let_def)
      moreover have "\<forall>i j. i \<le> j \<and> j < ?m \<longrightarrow> (f (xs ! i) = Greater \<longrightarrow> f (xs ! j) = Greater) \<and> (f (xs ! j) = Less \<longrightarrow> f (xs ! i) = Less)"
        using "1.prems"(2) m(2) by (meson less_trans)
      ultimately have lo: "\<forall>i. lo \<le> i \<and> i < ?m \<longrightarrow> f (xs ! i) \<noteq> Equal"
        using "1.IH"(2) [OF True refl Greater] by blast
      have hi: "f (xs ! i) = Greater" if "?m \<le> i" "i < hi" for i using "1.prems"(2) Greater that by blast
      show ?thesis
      proof (intro allI impI)
        fix i assume "lo \<le> i \<and> i < hi"
        then show "f (xs ! i) \<noteq> Equal" using lo hi [of i] by (cases "?m \<le> i") auto
      qed
    qed
  qed auto
qed

lemma str_cmp_simps [simp]:
  "str_cmp a b = Less \<longleftrightarrow> a < b" "str_cmp a b = Equal \<longleftrightarrow> a = b" "str_cmp a b = Greater \<longleftrightarrow> b < a"
  by (auto simp: str_cmp_def)

lemma dict_find_Some: "dict_find d v = Some i \<Longrightarrow> i < length (dict_values d) \<and> dict_values d ! i = v"
  unfolding dict_find_def by (drule search_loop_Some) simp

lemma dict_find_None:
  assumes "sorted (dict_values d)" and "dict_find d v = None"
  shows "v \<notin> set (dict_values d)"
proof -
  let ?xs = "dict_values d"
  have "\<forall>i j. i \<le> j \<and> j < length ?xs \<longrightarrow>
      (str_cmp (?xs ! i) v = Greater \<longrightarrow> str_cmp (?xs ! j) v = Greater) \<and>
      (str_cmp (?xs ! j) v = Less \<longrightarrow> str_cmp (?xs ! i) v = Less)"
    using assms(1) by (auto dest: sorted_nth_mono)
  from search_loop_None [OF assms(2) [unfolded dict_find_def] this]
  have "\<forall>i < length ?xs. ?xs ! i \<noteq> v" by simp
  then show ?thesis by (auto simp: in_set_conv_nth)
qed

end
