(* ===== verification/Dictionary_Properties.thy ===== *)
theory Dictionary_Properties
  imports Dictionary_Roundtrip Dictionary_Access Dictionary_Search
begin

text \<open>
  The properties of the front-coded dictionary, stated over the public operations of
  ferrodruid-dict.
\<close>

section \<open>Helpers\<close>

definition ascii_dict :: "dictionary \<Rightarrow> bool" where
  "ascii_dict d \<longleftrightarrow> (\<forall>v \<in> set (dict_values d). \<forall>b \<in> set v. b \<le> 0x7F)"

lemma ascii_entries_aligned:
  "\<forall>b \<in> set ref. b \<le> 0x7F \<Longrightarrow> \<forall>v \<in> set es. \<forall>b \<in> set v. b \<le> 0x7F \<Longrightarrow> entries_aligned ver ref es"
proof (induction es arbitrary: ref)
  case (Cons e es)
  have "\<forall>b \<in> set (next_ref ver ref e). b \<le> 0x7F" using next_ref_cases [of ver ref e] Cons.prems by auto
  then show ?case using Cons by (simp add: ascii_boundary)
qed simp

lemma ascii_dict_aligned: "ascii_dict d \<Longrightarrow> dict_aligned ver d bs"
proof -
  assume a: "ascii_dict d"
  have "bucket_aligned ver (bucket_slice (dict_values d) bs b)" for b
  proof (cases "bucket_slice (dict_values d) bs b")
    case (Cons v vs)
    then have "\<forall>e \<in> set (v # vs). \<forall>b \<in> set e. b \<le> 0x7F"
      using a set_bucket_slice [of _ "dict_values d" bs b] by (auto simp: ascii_dict_def)
    then show ?thesis using Cons ascii_entries_aligned [of v vs ver] by simp
  qed simp
  then show ?thesis by (simp add: dict_aligned_def)
qed

lemma ascii_dict_wf: "ascii_dict d \<Longrightarrow> dict_wf d"
  by (auto simp: ascii_dict_def dict_wf_def intro: ascii_valid)

lemma fits_u32I: "length (serialize_body ver d bs) = n \<Longrightarrow> n < 2 ^ 32 \<Longrightarrow> bs < 2 ^ 32 \<Longrightarrow> fits_u32 ver d bs"
  by (simp add: fits_u32_def)

section \<open>Round trips\<close>

text \<open>C12: What \<open>serialize_v2\<close> writes, \<open>deserialize\<close> reads back: the dictionary itself when every shared
  prefix ends on a character boundary, and otherwise the error \<open>PrefixNotBoundary\<close>; the decoder
  never returns a different dictionary.\<close>

theorem serialize_v2_roundtrip:
  assumes "serialize_v2 d bucket_size = Ok data" and "dict_wf d" and "fits_u32 V2 d bucket_size"
  shows "deserialize data = (if dict_aligned V2 d bucket_size then Ok d else fail PrefixNotBoundary)"
proof -
  from assms(1) have "0 < bucket_size" "is_power_of_two bucket_size" "data = serialize_body V2 d bucket_size"
    by (auto simp: serialize_v2_def split: if_splits)
  then show ?thesis using deserialize_serialized [of bucket_size V2 d] assms by simp
qed

theorem serialize_v2_roundtrip_witness:
  "deserialize (serialize_body V2 (from_sorted [[0x61, 0x62], [0x61, 0x63], [0x62]]) 2)
     = Ok (from_sorted [[0x61, 0x62], [0x61, 0x63], [0x62]])"
proof -
  let ?d = "from_sorted [[0x61, 0x62], [0x61, 0x63], [0x62]]"
  have a: "ascii_dict ?d" by (simp add: ascii_dict_def from_sorted_def)
  have "length (serialize_body V2 ?d 2) = 28" by code_simp
  then have f: "fits_u32 V2 ?d 2" by (rule fits_u32I) simp_all
  have s: "serialize_v2 ?d 2 = Ok (serialize_body V2 ?d 2)"
    by (simp add: serialize_v2_def is_power_of_two.simps)
  show ?thesis using serialize_v2_roundtrip [OF s ascii_dict_wf [OF a] f] ascii_dict_aligned [OF a] by simp
qed

text \<open>The same for version 1 (\<open>serialize\<close>), where an entry is coded against its predecessor.\<close>

theorem serialize_roundtrip:
  assumes "serialize d bucket_size = Ok data" and "dict_wf d" and "fits_u32 V1 d bucket_size"
  shows "deserialize data = (if dict_aligned V1 d bucket_size then Ok d else fail PrefixNotBoundary)"
proof -
  from assms(1) have "0 < bucket_size" "data = serialize_body V1 d bucket_size"
    by (auto simp: serialize_def split: if_splits)
  then show ?thesis using deserialize_serialized [of bucket_size V1 d] assms by simp
qed

theorem serialize_roundtrip_witness:
  "deserialize (serialize_body V1 (from_sorted [[0x61, 0x62], [0x61, 0x63], [0x62]]) 3)
     = Ok (from_sorted [[0x61, 0x62], [0x61, 0x63], [0x62]])"
proof -
  let ?d = "from_sorted [[0x61, 0x62], [0x61, 0x63], [0x62]]"
  have a: "ascii_dict ?d" by (simp add: ascii_dict_def from_sorted_def)
  have "length (serialize_body V1 ?d 3) = 25" by code_simp
  then have f: "fits_u32 V1 ?d 3" by (rule fits_u32I) simp_all
  have s: "serialize ?d 3 = Ok (serialize_body V1 ?d 3)" by (simp add: serialize_def)
  show ?thesis using serialize_roundtrip [OF s ascii_dict_wf [OF a] f] ascii_dict_aligned [OF a] by simp
qed

text \<open>Dictionaries of single-byte characters survive both formats unconditionally (up to the
  32-bit sizes of the format).\<close>

theorem ascii_roundtrip:
  assumes "ascii_dict d" and "fits_u32 ver d bucket_size" and "0 < bucket_size"
    and "ver = V2 \<longrightarrow> is_power_of_two bucket_size"
  shows "deserialize (serialize_body ver d bucket_size) = Ok d"
  using deserialize_serialized [OF assms(3,4) ascii_dict_wf [OF assms(1)] assms(2)] ascii_dict_aligned [OF assms(1)]
  by simp

text \<open>The serializer shares prefixes bytewise, so two values that differ in the second byte of a
  two-byte character are written with a prefix that ends inside the character, and both decoders
  refuse the buffer the serializer just produced: the dictionary with the values E-grave and E-acute
  cannot be read back from either format.\<close>

theorem multibyte_prefix_rejected:
  "dict_wf (from_sorted [[0xC3, 0xA8], [0xC3, 0xA9]]) \<and> sorted (dict_values (from_sorted [[0xC3, 0xA8], [0xC3, 0xA9]])) \<and>
   (\<exists>data. serialize (from_sorted [[0xC3, 0xA8], [0xC3, 0xA9]]) 2 = Ok data \<and> deserialize data = fail PrefixNotBoundary) \<and>
   (\<exists>data. serialize_v2 (from_sorted [[0xC3, 0xA8], [0xC3, 0xA9]]) 2 = Ok data \<and> deserialize data = fail PrefixNotBoundary)"
proof -
  let ?d = "from_sorted [[0xC3, 0xA8], [0xC3, 0xA9]]"
  have "dict_wf ?d" by code_simp
  moreover have "sorted (dict_values ?d)" by (simp add: from_sorted_def)
  moreover have "deserialize (serialize_body V1 ?d 2) = fail PrefixNotBoundary" by code_simp
  moreover have "deserialize (serialize_body V2 ?d 2) = fail PrefixNotBoundary" by code_simp
  ultimately show ?thesis by (simp add: serialize_def serialize_v2_def is_power_of_two.simps)
qed

section \<open>Decoding arbitrary bytes\<close>

text \<open>C27: No input makes the decoders abort: every byte string gives a dictionary, a value or an error.\<close>

theorem decoders_never_abort: "safe (deserialize data) \<and> safe (get_v2 data ordinal)"
  by (simp add: deserialize_safe get_v2_safe)

text \<open>C37: A dictionary the decoder returns holds well-formed strings only, and as many of them as the
  header of the buffer announces.\<close>

theorem decoded_dictionary_wf:
  assumes "deserialize data = Ok d"
  shows "dict_wf d \<and> u32_at data 8 = (Ok (of_nat (length (dict_values d))) :: (u32, dict_error) res)"
proof -
  from assms obtain ver where b: "deserialize_body ver data = Ok d" and l: "12 \<le> length data"
    by (auto simp: deserialize_def deserialize_v1_def deserialize_v2_def split: if_splits)
  show ?thesis
  proof (cases "d = dict_new")
    case False
    from deserialize_body_decodes [OF b False] obtain t where
      t: "decodes ver data t" and v: "dict_values d = concat (tr_chunks t)" by blast
    show ?thesis using decodes_values [OF t] t v by (simp add: dict_wf_def decodes_def)
  next
    case True
    have "\<exists>nv. u32_at data 8 = (Ok nv :: (u32, dict_error) res) \<and> unat nv = 0"
    proof (rule ccontr)
      assume none: "\<not> ?thesis"
      obtain bs nv where h: "u32_at data 4 = (Ok bs :: (u32, dict_error) res)" "u32_at data 8 = (Ok nv :: (u32, dict_error) res)"
        using l by (simp add: u32_at_Ok)
      then have nz: "0 < unat nv" using none by auto
      from b h nz obtain offs ws where "read_offsets data (length data - div_ceil (unat nv) (unat bs) * 4) (div_ceil (unat nv) (unat bs)) = Ok offs"
        and g: "unat bs \<noteq> 0"
        and r: "read_buckets ver data (unat bs) (unat nv) offs (length data - div_ceil (unat nv) (unat bs) * 4) 0 offs = Ok ws"
        and ws: "d = \<lparr>dict_values = ws\<rparr>"
        by (auto simp: deserialize_body_def Let_def split: if_splits)
      have "length offs = div_ceil (unat nv) (unat bs)" using read_offsets_length \<open>read_offsets _ _ _ = _\<close> by blast
      then have "offs \<noteq> []" using g nz by (auto simp: div_ceil_def split: if_splits)
      then obtain o' os where "offs = o' # os" by (cases offs) auto
      with r obtain vs pos xs where "read_bucket ver data (length data - div_ceil (unat nv) (unat bs) * 4)
          (bucket_count (unat bs) (unat nv) 0) (12 + o') = Ok (vs, pos)" "ws = vs @ xs"
        by (auto split: if_splits)
      then have "ws \<noteq> []" by (auto simp: read_bucket_def)
      then show False using True ws by (simp add: dict_new_def)
    qed
    then show ?thesis using True by (auto simp: dict_wf_def dict_new_def unat_eq_zero)
  qed
qed

theorem decoded_dictionary_wf_witness:
  "dict_wf (from_sorted [[0x61]]) \<and>
   u32_at (serialize_body V1 (from_sorted [[0x61]]) 1) 8 = (Ok (of_nat (length (dict_values (from_sorted [[0x61]])))) :: (u32, dict_error) res)"
proof -
  have "deserialize (serialize_body V1 (from_sorted [[0x61]]) 1) = Ok (from_sorted [[0x61]])" by code_simp
  then show ?thesis by (rule decoded_dictionary_wf)
qed

text \<open>C18: Random access agrees with full decoding: when a version-2 buffer decodes to a non-empty
  dictionary, \<open>get_v2\<close> returns at every ordinal exactly what the dictionary holds there, and \<open>None\<close>
  past its end.\<close>

theorem get_v2_agrees:
  assumes "deserialize data = Ok d" and "u32_at data 0 = (Ok 2 :: (u32, dict_error) res)" and "dict_values d \<noteq> []"
  shows "get_v2 data ordinal = Ok (dict_get d ordinal)"
proof -
  from assms(1,2) have b: "deserialize_body V2 data = Ok d" and l: "12 \<le> length data"
    by (auto simp: deserialize_def deserialize_v2_def split: if_splits)
  have "d \<noteq> dict_new" using assms(3) by (auto simp: dict_new_def)
  from deserialize_body_decodes [OF b this] obtain t where
    t: "decodes V2 data t" and v: "dict_values d = concat (tr_chunks t)" by blast
  show ?thesis using get_v2_decodes [OF t assms(2) l, of ordinal] decodes_values(1) [OF t] v
    by (simp add: dict_get_def)
qed

theorem get_v2_agrees_witness:
  "get_v2 (serialize_body V2 (from_sorted [[0x61, 0x62], [0x61, 0x63]]) 2) 1 = Ok (Some [0x61, 0x63])"
proof -
  let ?d = "from_sorted [[0x61, 0x62], [0x61, 0x63]]"
  have 1: "deserialize (serialize_body V2 ?d 2) = Ok ?d" by code_simp
  have 2: "u32_at (serialize_body V2 ?d 2) 0 = (Ok 2 :: (u32, dict_error) res)" by code_simp
  have 3: "dict_values ?d \<noteq> []" by (simp add: from_sorted_def)
  from get_v2_agrees [OF 1 2 3, of 1] show ?thesis by (simp add: dict_get_def from_sorted_def)
qed

section \<open>Lookups\<close>

text \<open>On a sorted dictionary \<open>find_prefix_range\<close> returns exactly the ordinals of the values that
  start with the prefix.\<close>

theorem prefix_range_exact:
  assumes "sorted (dict_values d)" and "find_prefix_range d p = (lo, hi)" and "i < length (dict_values d)"
  shows "lo \<le> i \<and> i < hi \<longleftrightarrow> prefix p (dict_values d ! i)"
proof -
  note pp = partition_point_sorted [OF assms(1,3)]
  have "lo \<le> i \<longleftrightarrow> p \<le> dict_values d ! i"
    using assms(2) pp [of p] by (auto simp: find_prefix_range_def Let_def not_less [symmetric])
  moreover have "i < hi \<longleftrightarrow> (case prefix_successor p of Some s \<Rightarrow> dict_values d ! i < s | None \<Rightarrow> True)"
    using assms(2,3) pp by (auto simp: find_prefix_range_def Let_def split: option.splits)
  ultimately show ?thesis using prefix_successor_bound [of p "dict_values d ! i"] by blast
qed

theorem prefix_range_exact_witness:
  "find_prefix_range (from_sorted [[0x61], [0x61, 0x62], [0x62]]) [0x61] = (0, 2) \<and>
   (0 \<le> (1::nat) \<and> (1::nat) < 2 \<longleftrightarrow> prefix [0x61] (dict_values (from_sorted [[0x61], [0x61, 0x62], [0x62]]) ! 1))"
proof -
  let ?d = "from_sorted [[0x61], [0x61, 0x62], [0x62]]"
  have 1: "sorted (dict_values ?d)" by (simp add: from_sorted_def)
  have 2: "find_prefix_range ?d [0x61] = (0, 2)" by code_simp
  have 3: "1 < length (dict_values ?d)" by (simp add: from_sorted_def)
  show ?thesis using prefix_range_exact [OF 1 2 3] 2 by simp
qed

text \<open>\<open>find\<close> on a sorted dictionary returns an ordinal of the value, and \<open>None\<close> exactly when the
  dictionary does not contain it.\<close>

theorem find_correct:
  assumes "sorted (dict_values d)"
  shows "case dict_find d v of
     Some i \<Rightarrow> i < length (dict_values d) \<and> dict_values d ! i = v
   | None \<Rightarrow> v \<notin> set (dict_values d)"
  using dict_find_None [OF assms] dict_find_Some by (auto split: option.splits)

theorem find_correct_witness:
  "dict_find (from_sorted [[0x61], [0x62]]) [0x62] = Some 1 \<and>
   (1 < length (dict_values (from_sorted [[0x61], [0x62]])) \<and> dict_values (from_sorted [[0x61], [0x62]]) ! 1 = [0x62])"
proof -
  have 1: "sorted (dict_values (from_sorted [[0x61], [0x62]]))" by (simp add: from_sorted_def)
  have 2: "dict_find (from_sorted [[0x61], [0x62]]) [0x62] = Some 1" by code_simp
  show ?thesis using find_correct [OF 1, of "[0x62]"] 2 by simp
qed

section \<open>Variable-length integers\<close>

text \<open>A sequence of integers written one after the other with \<open>write_vint\<close>, behind any bytes and in
  front of any bytes, is read back by as many calls of \<open>read_vint\<close>, which stop right behind it.\<close>

theorem vint_stream_roundtrip:
  "read_many read_vint (length vs) (foldl write_vint pre vs @ post) (length pre)
     = Ok (vs, length (foldl write_vint pre vs))"
proof -
  have "foldl write_vint pre vs = pre @ concat (map vint_bytes vs)"
    by (induction vs arbitrary: pre) (simp_all add: write_vint_append)
  then show ?thesis using vint.dec_many [of vs pre post] by simp
qed

end
