(* ===== verification/Hash_Map.thy ===== *)
theory Hash_Map
  imports Prelude
begin

text \<open>
  The \<open>HashMap\<close> of the Rust standard library as the components use it: an association list with
  distinct keys whose order stands for the (unspecified) iteration order. The laws the clients rely
  on are the locale \<open>key_store\<close>; the association-list operations satisfy them.
\<close>

section \<open>Operations\<close>

type_synonym ('k, 'v) hash_map = "('k \<times> 'v) list"

definition hm_get :: "('k, 'v) hash_map \<Rightarrow> 'k \<Rightarrow> 'v option" where
  "hm_get m k = map_of m k"

fun hm_insert :: "'k \<Rightarrow> 'v \<Rightarrow> ('k, 'v) hash_map \<Rightarrow> ('k, 'v) hash_map" where
  "hm_insert k v [] = [(k, v)]"
| "hm_insert k v ((k', v') # m) = (if k = k' then (k, v) # m else (k', v') # hm_insert k v m)"

definition hm_remove :: "'k \<Rightarrow> ('k, 'v) hash_map \<Rightarrow> ('k, 'v) hash_map" where
  "hm_remove k m = filter (\<lambda>(k', v). k' \<noteq> k) m"

definition hm_keys :: "('k, 'v) hash_map \<Rightarrow> 'k list" where
  "hm_keys m = map fst m"

definition hm_values :: "('k, 'v) hash_map \<Rightarrow> 'v list" where
  "hm_values m = map snd m"

definition hm_map :: "('v \<Rightarrow> 'w) \<Rightarrow> ('k, 'v) hash_map \<Rightarrow> ('k, 'w) hash_map" where
  "hm_map f m = map (\<lambda>(k, v). (k, f v)) m"

text \<open>\<open>get(..).cloned().unwrap_or_default()\<close> for a map of lists.\<close>

definition hm_list :: "('k, 'v list) hash_map \<Rightarrow> 'k \<Rightarrow> 'v list" where
  "hm_list m k = (case hm_get m k of None \<Rightarrow> [] | Some vs \<Rightarrow> vs)"

definition hm_wf :: "('k, 'v) hash_map \<Rightarrow> bool" where
  "hm_wf m \<longleftrightarrow> distinct (hm_keys m)"

section \<open>Lookups after updates\<close>

locale key_store =
  fixes get :: "'m \<Rightarrow> 'k \<Rightarrow> 'v option"
    and insert :: "'k \<Rightarrow> 'v \<Rightarrow> 'm \<Rightarrow> 'm"
    and remove :: "'k \<Rightarrow> 'm \<Rightarrow> 'm"
  assumes get_insert: "get (insert k v m) k' = (if k' = k then Some v else get m k')"
    and get_remove: "get (remove k m) k' = (if k' = k then None else get m k')"
begin

lemma insert_twice: "get (insert k w (insert k v m)) = get (insert k w m)"
  by (rule ext) (simp add: get_insert)

lemma insert_commute: "k \<noteq> l \<Longrightarrow> get (insert k v (insert l w m)) = get (insert l w (insert k v m))"
  by (rule ext) (simp add: get_insert)

lemma remove_insert: "get m k = None \<Longrightarrow> get (remove k (insert k v m)) = get m"
  by (rule ext) (simp add: get_insert get_remove)

end

lemma hm_get_insert: "hm_get (hm_insert k v m) k' = (if k' = k then Some v else hm_get m k')"
  by (induction k v m rule: hm_insert.induct) (auto simp: hm_get_def)

lemma hm_get_remove: "hm_get (hm_remove k m) k' = (if k' = k then None else hm_get m k')"
  by (induction m) (auto simp: hm_get_def hm_remove_def)

interpretation hm: key_store hm_get hm_insert hm_remove
  by unfold_locales (rule hm_get_insert hm_get_remove)+

lemmas hm_get_simps [simp] = hm.get_insert hm.get_remove

lemma hm_get_Nil [simp]: "hm_get [] k = None"
  by (simp add: hm_get_def)

lemma hm_get_map [simp]: "hm_get (hm_map f m) k = map_option f (hm_get m k)"
  by (induction m) (auto simp: hm_get_def hm_map_def)

lemma hm_list_Nil [simp]: "hm_list [] k = []"
  by (simp add: hm_list_def)

lemma hm_list_insert [simp]: "hm_list (hm_insert k v m) k' = (if k' = k then v else hm_list m k')"
  by (simp add: hm_list_def)

lemma hm_list_remove [simp]: "hm_list (hm_remove k m) k' = (if k' = k then [] else hm_list m k')"
  by (simp add: hm_list_def)

lemma hm_list_map: "f [] = [] \<Longrightarrow> hm_list (hm_map f m) k = f (hm_list m k)"
  by (auto simp: hm_list_def split: option.splits)

section \<open>Keys and values\<close>

lemma hm_keys_insert: "set (hm_keys (hm_insert k v m)) = Set.insert k (set (hm_keys m))"
  by (induction k v m rule: hm_insert.induct) (auto simp: hm_keys_def)

lemma hm_wf_Nil [simp]: "hm_wf []"
  by (simp add: hm_wf_def hm_keys_def)

lemma hm_wf_insert [simp]: "hm_wf m \<Longrightarrow> hm_wf (hm_insert k v m)"
proof (induction k v m rule: hm_insert.induct)
  case (2 k v k' v' m)
  then show ?case using hm_keys_insert [of k v m] by (auto simp: hm_wf_def hm_keys_def)
qed (simp add: hm_wf_def hm_keys_def)

lemma hm_wf_remove [simp]: "hm_wf m \<Longrightarrow> hm_wf (hm_remove k m)"
  by (auto simp: hm_wf_def hm_keys_def hm_remove_def distinct_map_filter)

lemma hm_wf_map [simp]: "hm_wf (hm_map f m) \<longleftrightarrow> hm_wf m"
  by (simp add: hm_wf_def hm_keys_def hm_map_def case_prod_unfold comp_def)

lemma hm_get_in_set: "hm_wf m \<Longrightarrow> hm_get m k = Some v \<longleftrightarrow> (k, v) \<in> set m"
  by (simp add: hm_get_def hm_wf_def hm_keys_def)

lemma hm_values_get: "hm_wf m \<Longrightarrow> set (hm_values m) = {v. \<exists>k. hm_get m k = Some v}"
  by (auto simp: hm_get_in_set hm_values_def image_iff) force+

lemma hm_keys_get: "k \<in> set (hm_keys m) \<longleftrightarrow> hm_get m k \<noteq> None"
  by (auto simp: hm_keys_def hm_get_def map_of_eq_None_iff)

text \<open>Sizes of a map of lists, summed over all keys.\<close>

definition hm_total :: "('k, 'v list) hash_map \<Rightarrow> nat" where
  "hm_total m = sum_list (map length (hm_values m))"

lemma hm_total_Nil [simp]: "hm_total [] = 0"
  by (simp add: hm_total_def hm_values_def)

lemma hm_total_insert: "hm_total (hm_insert k v m) + length (hm_list m k) = hm_total m + length v"
  by (induction k v m rule: hm_insert.induct)
    (auto simp: hm_total_def hm_values_def hm_list_def hm_get_def)

lemma hm_total_remove: "hm_total (hm_remove k m) \<le> hm_total m"
  by (induction m) (auto simp: hm_total_def hm_values_def hm_remove_def)

lemma hm_list_le_total: "length (hm_list m k) \<le> hm_total m"
  by (induction m) (auto simp: hm_total_def hm_values_def hm_list_def hm_get_def)

end
