(* ===== verification/Text.thy ===== *)
theory Text
  imports Prelude
begin

text \<open>
  The string operations of the Rust standard library that the components use, on \<open>string\<close>: trimming,
  splitting at a character, printing and parsing decimal integers of a given width. Texts are ASCII
  where white space is trimmed by \<open>trim\<close> (addresses, intervals, periods, expressions); \<open>trim_unicode\<close> is the trimming of Rust on
  arbitrary texts in UTF-8, used where names come from the user (the index of a segment).
\<close>

section \<open>Trimming and splitting\<close>

definition is_ws :: "char \<Rightarrow> bool" where
  "is_ws c \<longleftrightarrow> c \<in> {CHR '' '', CHR 0x09, CHR 0x0A, CHR 0x0B, CHR 0x0C, CHR 0x0D}"

definition trim :: "string \<Rightarrow> string" where
  "trim s = rev (dropWhile is_ws (rev (dropWhile is_ws s)))"

text \<open>The white space of Unicode in UTF-8, for texts that need not be ASCII; a text is then the list of its bytes.\<close>

definition WHITE_SPACE :: "string list" where
  "WHITE_SPACE =
     [[CHR '' ''], [CHR 0x09], [CHR 0x0A], [CHR 0x0B], [CHR 0x0C], [CHR 0x0D], [CHR 0xC2, CHR 0x85], [CHR 0xC2, CHR 0xA0],
      [CHR 0xE1, CHR 0x9A, CHR 0x80], [CHR 0xE2, CHR 0x81, CHR 0x9F], [CHR 0xE3, CHR 0x80, CHR 0x80]] @
     map (\<lambda>c. [CHR 0xE2, CHR 0x80, c])
       [CHR 0x80, CHR 0x81, CHR 0x82, CHR 0x83, CHR 0x84, CHR 0x85, CHR 0x86, CHR 0x87, CHR 0x88, CHR 0x89, CHR 0x8A,
        CHR 0xA8, CHR 0xA9, CHR 0xAF]"

lemma prefix_shorter: "w \<noteq> [] \<Longrightarrow> take (length w) s = w \<Longrightarrow> length (drop (length w) s) < length s"
  by (cases w; cases s) auto

function drop_prefixes :: "string list \<Rightarrow> string \<Rightarrow> string" where
  "drop_prefixes ws s =
     (case find (\<lambda>w. w \<noteq> [] \<and> take (length w) s = w) ws of
        None \<Rightarrow> s
      | Some w \<Rightarrow> drop_prefixes ws (drop (length w) s))"
  by pat_completeness auto
termination
proof (relation "measure (\<lambda>(ws, s). length s)")
  fix ws :: "string list" and s w
  assume "find (\<lambda>w. w \<noteq> [] \<and> take (length w) s = w) ws = Some w"
  then have "w \<noteq> []" "take (length w) s = w" by (auto simp: find_Some_iff)
  then show "((ws, drop (length w) s), ws, s) \<in> measure (\<lambda>(ws, s). length s)" using prefix_shorter by simp
qed simp

declare drop_prefixes.simps [simp del]

definition trim_start_unicode :: "string \<Rightarrow> string" where
  "trim_start_unicode s = drop_prefixes WHITE_SPACE s"

definition trim_unicode :: "string \<Rightarrow> string" where
  "trim_unicode s = rev (drop_prefixes (map rev WHITE_SPACE) (rev (trim_start_unicode s)))"

lemma drop_prefixes_stop: "\<forall>w \<in> set ws. w = [] \<or> take (length w) s \<noteq> w \<Longrightarrow> drop_prefixes ws s = s"
  by (subst drop_prefixes.simps) (auto split: option.split simp: find_Some_iff dest: nth_mem)

text \<open>A character that no prefix contains stops the trimming.\<close>

lemma take_mark: "c \<notin> set w \<Longrightarrow> take (length w) (s @ c # t) = w \<longleftrightarrow> take (length w) s = w"
proof (cases "length w \<le> length s")
  case False
  assume "c \<notin> set w"
  moreover have "c \<in> set (take (length w) (s @ c # t))" using False by (cases "length w - length s") auto
  ultimately have "take (length w) (s @ c # t) \<noteq> w" by metis
  moreover have "take (length w) s \<noteq> w" using False by auto
  ultimately show ?thesis by blast
qed simp

lemma drop_prefixes_append:
  assumes "\<forall>w \<in> set ws. c \<notin> set w"
  shows "drop_prefixes ws (s @ c # t) = drop_prefixes ws s @ c # t"
  using assms
proof (induction ws s rule: drop_prefixes.induct)
  case (1 ws s)
  let ?P = "\<lambda>s w. w \<noteq> [] \<and> take (length w) s = w"
  have same: "find (?P (s @ c # t)) ws = find (?P s) ws"
    using "1.prems" take_mark [of c _ s t] by (intro find_cong) auto
  show ?case
  proof (cases "find (?P s) ws")
    case None
    then show ?thesis using same by (simp add: drop_prefixes.simps [of ws s] drop_prefixes.simps [of ws "s @ c # t"])
  next
    case (Some w)
    then have "take (length w) s = w" by (auto simp: find_Some_iff)
    then have "length w \<le> length s" by (metis length_take min.cobounded1)
    then show ?thesis using same Some "1.IH" [OF Some "1.prems"]
      by (simp add: drop_prefixes.simps [of ws s] drop_prefixes.simps [of ws "s @ c # t"])
  qed
qed

lemma white_space_no_mark: "list_all (\<lambda>w. w \<noteq> [] \<and> CHR '','' \<notin> set w \<and> \<not> (CHR ''0'' \<le> last w \<and> last w \<le> CHR ''9'')) WHITE_SPACE"
  by code_simp

definition split_first :: "char \<Rightarrow> string \<Rightarrow> (string \<times> string) option" where
  "split_first c s = (if c \<in> set s then Some (takeWhile (\<lambda>x. x \<noteq> c) s, tl (dropWhile (\<lambda>x. x \<noteq> c) s)) else None)"

definition split_last :: "char \<Rightarrow> string \<Rightarrow> (string \<times> string) option" where
  "split_last c s = map_option (\<lambda>(a, b). (rev b, rev a)) (split_first c (rev s))"

definition strip_prefix :: "char \<Rightarrow> string \<Rightarrow> string option" where
  "strip_prefix c s = (case s of x # xs \<Rightarrow> if x = c then Some xs else None | [] \<Rightarrow> None)"

definition strip_suffix :: "char \<Rightarrow> string \<Rightarrow> string option" where
  "strip_suffix c s = (if s \<noteq> [] \<and> last s = c then Some (butlast s) else None)"

lemma trim_id:
  assumes "s = [] \<or> \<not> is_ws (hd s) \<and> \<not> is_ws (last s)"
  shows "trim s = s"
proof (cases s)
  case (Cons x xs)
  then have "dropWhile is_ws s = s" using assms by simp
  moreover have "dropWhile is_ws (rev s) = rev s"
  proof -
    have "s \<noteq> []" "\<not> is_ws (last s)" using Cons assms by auto
    then show ?thesis by (cases s rule: rev_cases) auto
  qed
  ultimately show ?thesis by (simp add: trim_def)
qed (simp add: trim_def)

lemma split_first_append: "c \<notin> set a \<Longrightarrow> split_first c (a @ c # b) = Some (a, b)"
  by (induction a) (auto simp: split_first_def)

lemma split_first_None: "c \<notin> set a \<Longrightarrow> split_first c a = None"
  by (simp add: split_first_def)

lemma split_last_append: "c \<notin> set b \<Longrightarrow> split_last c (a @ c # b) = Some (a, b)"
  by (simp add: split_last_def split_first_append)

lemma split_last_None: "c \<notin> set a \<Longrightarrow> split_last c a = None"
  by (simp add: split_last_def split_first_None)

lemma strip_prefix_Cons [simp]: "strip_prefix c (x # xs) = (if x = c then Some xs else None)"
  "strip_prefix c [] = None"
  by (simp_all add: strip_prefix_def)

lemma strip_suffix_snoc [simp]: "strip_suffix c (xs @ [x]) = (if x = c then Some xs else None)"
  "strip_suffix c [] = None"
  by (simp_all add: strip_suffix_def)

section \<open>Decimal numbers\<close>

definition is_digit :: "char \<Rightarrow> bool" where
  "is_digit c \<longleftrightarrow> CHR ''0'' \<le> c \<and> c \<le> CHR ''9''"

definition digit_val :: "char \<Rightarrow> nat" where
  "digit_val c = of_char c - 48"

definition decimal :: "string \<Rightarrow> nat" where
  "decimal s = foldl (\<lambda>n c. 10 * n + digit_val c) 0 s"

text \<open>\<open>str::parse\<close> for an unsigned type of \<open>w\<close> bits: an optional plus sign, at least one digit, in range.\<close>

definition parse_unsigned :: "nat \<Rightarrow> string \<Rightarrow> nat option" where
  "parse_unsigned w s =
     (let ds = (case s of c # cs \<Rightarrow> if c = CHR ''+'' then cs else s | [] \<Rightarrow> s) in
      if ds \<noteq> [] \<and> list_all is_digit ds \<and> decimal ds < 2 ^ w then Some (decimal ds) else None)"

text \<open>\<open>str::parse::<i64>\<close>: an optional sign, at least one digit, in range.\<close>

definition parse_i64 :: "string \<Rightarrow> int option" where
  "parse_i64 s =
     (let (neg, ds) = (case s of
            c # cs \<Rightarrow> if c = CHR ''-'' then (True, cs) else if c = CHR ''+'' then (False, cs) else (False, s)
          | [] \<Rightarrow> (False, s));
          v = (if neg then - int (decimal ds) else int (decimal ds)) in
      if ds \<noteq> [] \<and> list_all is_digit ds \<and> - (2 ^ 63) \<le> v \<and> v < 2 ^ 63 then Some v else None)"

text \<open>Decimal representation of a natural number, as \<open>format!\<close> prints it.\<close>

fun show_nat :: "nat \<Rightarrow> string" where
  "show_nat n = (if n < 10 then [char_of (48 + n)] else show_nat (n div 10) @ [char_of (48 + n mod 10)])"

declare show_nat.simps [simp del]

lemma digit_char:
  assumes "d < 10"
  shows "is_digit (char_of (48 + d))" "digit_val (char_of (48 + d)) = d"
proof -
  have "of_char (char_of (48 + d) :: char) = 48 + d" using assms by (simp add: of_char_of)
  with assms show "is_digit (char_of (48 + d))" "digit_val (char_of (48 + d)) = d"
    by (simp_all add: is_digit_def digit_val_def less_eq_char_def)
qed

lemma show_nat_digits: "list_all is_digit (show_nat n)" "show_nat n \<noteq> []"
proof -
  have "list_all is_digit (show_nat n) \<and> show_nat n \<noteq> []"
  proof (induction n rule: show_nat.induct)
    case (1 n)
    then show ?case using digit_char(1) [of "n mod 10"] digit_char(1) [of n]
      by (cases "n < 10") (simp_all add: show_nat.simps [of n])
  qed
  then show "list_all is_digit (show_nat n)" "show_nat n \<noteq> []" by auto
qed

lemma decimal_show_nat [simp]: "decimal (show_nat n) = n"
proof (induction n rule: show_nat.induct)
  case (1 n)
  then show ?case using digit_char(2) [of "n mod 10"] digit_char(2) [of n]
    by (cases "n < 10") (simp_all add: show_nat.simps [of n] decimal_def)
qed

lemma is_digit_simps [simp]:
  "\<not> is_digit CHR ''+''" "\<not> is_digit CHR ''-''" "\<not> is_digit CHR '':''" "\<not> is_digit CHR '']''" "\<not> is_digit CHR ''T''"
  by (simp_all add: is_digit_def less_eq_char_def)

lemma show_nat_notin: "\<not> is_digit c \<Longrightarrow> c \<notin> set (show_nat n)"
  using show_nat_digits(1) [of n] by (auto simp: list_all_iff)

lemma digit_not_ws: "is_digit c \<Longrightarrow> \<not> is_ws c"
  by (auto simp: is_digit_def is_ws_def less_eq_char_def)

lemma show_nat_hd: "\<exists>c cs. show_nat n = c # cs \<and> is_digit c"
  using show_nat_digits [of n] by (cases "show_nat n") auto

lemma show_nat_last: "is_digit (last (show_nat n))"
  using show_nat_digits [of n] by (simp add: list_all_iff)

lemma parse_unsigned_show [simp]: "n < 2 ^ w \<Longrightarrow> parse_unsigned w (show_nat n) = Some n"
proof -
  assume n: "n < 2 ^ w"
  from show_nat_hd [of n] obtain c cs where c: "show_nat n = c # cs" "is_digit c" by blast
  then have "c \<noteq> CHR ''+''" by auto
  then have "(case show_nat n of c # cs \<Rightarrow> if c = CHR ''+'' then cs else show_nat n | [] \<Rightarrow> show_nat n) = show_nat n"
    using c(1) by simp
  with n show ?thesis by (simp add: parse_unsigned_def show_nat_digits)
qed

lemma parse_i64_show [simp]: "n < 2 ^ 63 \<Longrightarrow> parse_i64 (show_nat n) = Some (int n)"
proof -
  assume n: "n < 2 ^ 63"
  from show_nat_hd [of n] obtain c cs where c: "show_nat n = c # cs" "is_digit c" by blast
  then have "c \<noteq> CHR ''+''" "c \<noteq> CHR ''-''" by auto
  then have "(case show_nat n of c # cs \<Rightarrow> if c = CHR ''-'' then (True, cs) else if c = CHR ''+'' then (False, cs)
      else (False, show_nat n) | [] \<Rightarrow> (False, show_nat n)) = (False, show_nat n)"
    using c(1) by simp
  moreover have "int n < 2 ^ 63" using n by simp
  ultimately show ?thesis by (simp add: parse_i64_def show_nat_digits)
qed

end
