(* ===== verification/Cluster.thy ===== *)
theory Cluster
  imports Hash_Map Text
begin

text \<open>
  Cluster state of ferrodruid-cluster: the service and segment registry \<open>ClusterState\<close> and the
  command state machine \<open>ClusterManager\<close> on top of it. Every field behind an \<open>RwLock\<close> is an
  \<open>rw_lock\<close>, a value with the poison flag of the Rust lock; an operation that meets a poisoned lock
  returns \<open>LockPoisoned\<close> (or an empty answer) as in the source. Operations return their result with
  the new state. The clock and the generator of lock identifiers are arguments of the commands that
  use them; the two timestamp parsers of the chrono crate are arguments of \<open>parse_interval_bound\<close>
  and of what calls it. Instants are integers.
\<close>

section \<open>Data\<close>

datatype 'a rw_lock = RwLock (rw_value: 'a) (rw_poisoned: bool)

datatype cluster_error =
    LockPoisoned
  | CommandFailed string
  | QueueFull string nat nat

definition rw_write :: "'a rw_lock \<Rightarrow> ('a, cluster_error) res" where
  "rw_write l = (if rw_poisoned l then fail LockPoisoned else Ok (rw_value l))"

definition rw_set :: "'a rw_lock \<Rightarrow> 'a \<Rightarrow> 'a rw_lock" where
  "rw_set l v = RwLock v (rw_poisoned l)"

datatype node_role = Master | Query | Data | AllInOne

record node_info =
  ni_id :: string
  ni_host :: string
  ni_port :: u16
  ni_role :: node_role

record service_entry =
  se_service_type :: string
  se_host :: string
  se_port :: u16
  se_node_id :: string

record segment_announcement =
  sa_segment_id :: string
  sa_server_name :: string
  sa_data_source :: string
  sa_tier :: string

datatype segment_action = Load | Drop

text \<open>The commands, with their fields in the order of the source.\<close>

datatype cluster_command =
    ElectLeader string string
  | RegisterService service_entry
  | DeregisterService string string
  | AnnounceSegment segment_announcement
  | RemoveSegment string string
  | EnqueueSegmentAction string string segment_action
  | AcquireTaskLock string string string string
  | ReleaseTaskLock string

datatype command_result =
    CrOk
  | LeaderElected string
  | LockAcquired string
  | LockDenied string
  | NotFound

record task_lock =
  tl_task_id :: string
  tl_data_source :: string
  tl_interval_start :: string
  tl_interval_end :: string
  tl_acquired_at :: int
  tl_lock_id :: string

record queued_action =
  qa_segment_id :: string
  qa_action :: segment_action
  qa_queued_at :: int

datatype cluster_mode = SingleNode | MultiNode "string list"

record cluster_health =
  ch_is_healthy :: bool
  ch_leader :: "string option"
  ch_node_count :: nat
  ch_mode :: string

record cluster_snapshot =
  sn_services :: "(string, service_entry list) hash_map"
  sn_segments :: "(string, segment_announcement list) hash_map"
  sn_task_locks :: "(string, task_lock) hash_map"
  sn_leader :: "node_info option"
  sn_segment_queue :: "(string, queued_action list) hash_map"

record cluster_state =
  cs_leader :: "node_info option rw_lock"
  cs_services :: "(string, service_entry list) hash_map rw_lock"
  cs_segments :: "(string, segment_announcement list) hash_map rw_lock"

record cluster_manager =
  cm_mode :: cluster_mode
  cm_state :: cluster_state
  cm_node_info :: node_info
  cm_peers :: "node_info list rw_lock"
  cm_task_locks :: "(string, task_lock) hash_map rw_lock"
  cm_segment_queue :: "(string, queued_action list) hash_map rw_lock"

section \<open>The registry\<close>

definition state_new_single_node :: "node_info \<Rightarrow> cluster_state" where
  "state_new_single_node node =
     \<lparr>cs_leader = RwLock (Some node) False, cs_services = RwLock [] False, cs_segments = RwLock [] False\<rparr>"

definition get_leader :: "cluster_state \<Rightarrow> node_info option" where
  "get_leader s = (if rw_poisoned (cs_leader s) then None else rw_value (cs_leader s))"

definition register_service_checked ::
    "cluster_state \<Rightarrow> service_entry \<Rightarrow> (unit, cluster_error) res \<times> cluster_state" where
  "register_service_checked s entry =
     (case rw_write (cs_services s) of
        Inl e \<Rightarrow> (Inl e, s)
      | Inr services \<Rightarrow>
          let entries = hm_list services (se_service_type entry);
              entries = filter (\<lambda>e. se_node_id e \<noteq> se_node_id entry) entries @ [entry]
          in (Ok (), s\<lparr>cs_services := rw_set (cs_services s) (hm_insert (se_service_type entry) entries services)\<rparr>))"

definition register_service :: "cluster_state \<Rightarrow> service_entry \<Rightarrow> cluster_state" where
  "register_service s entry = snd (register_service_checked s entry)"

definition deregister_service_checked ::
    "cluster_state \<Rightarrow> string \<Rightarrow> string \<Rightarrow> (unit, cluster_error) res \<times> cluster_state" where
  "deregister_service_checked s node_id service_type =
     (case rw_write (cs_services s) of
        Inl e \<Rightarrow> (Inl e, s)
      | Inr services \<Rightarrow>
          (Ok (), case hm_get services service_type of
             None \<Rightarrow> s
           | Some entries \<Rightarrow>
               s\<lparr>cs_services := rw_set (cs_services s)
                   (hm_insert service_type (filter (\<lambda>e. se_node_id e \<noteq> node_id) entries) services)\<rparr>))"

definition deregister_service :: "cluster_state \<Rightarrow> string \<Rightarrow> string \<Rightarrow> cluster_state" where
  "deregister_service s node_id service_type = snd (deregister_service_checked s node_id service_type)"

definition get_services :: "cluster_state \<Rightarrow> string \<Rightarrow> service_entry list" where
  "get_services s service_type =
     (if rw_poisoned (cs_services s) then [] else hm_list (rw_value (cs_services s)) service_type)"

definition announce_segment_checked ::
    "cluster_state \<Rightarrow> segment_announcement \<Rightarrow> (unit, cluster_error) res \<times> cluster_state" where
  "announce_segment_checked s ann =
     (case rw_write (cs_segments s) of
        Inl e \<Rightarrow> (Inl e, s)
      | Inr announcements \<Rightarrow>
          let entries = hm_list announcements (sa_data_source ann);
              entries = filter (\<lambda>a. sa_segment_id a \<noteq> sa_segment_id ann \<or> sa_server_name a \<noteq> sa_server_name ann)
                          entries @ [ann]
          in (Ok (), s\<lparr>cs_segments := rw_set (cs_segments s) (hm_insert (sa_data_source ann) entries announcements)\<rparr>))"

definition announce_segment :: "cluster_state \<Rightarrow> segment_announcement \<Rightarrow> cluster_state" where
  "announce_segment s ann = snd (announce_segment_checked s ann)"

definition remove_segment_announcement_checked ::
    "cluster_state \<Rightarrow> string \<Rightarrow> string \<Rightarrow> (unit, cluster_error) res \<times> cluster_state" where
  "remove_segment_announcement_checked s segment_id server_name =
     (case rw_write (cs_segments s) of
        Inl e \<Rightarrow> (Inl e, s)
      | Inr announcements \<Rightarrow>
          (Ok (), s\<lparr>cs_segments := rw_set (cs_segments s)
             (hm_map (filter (\<lambda>a. sa_segment_id a \<noteq> segment_id \<or> sa_server_name a \<noteq> server_name)) announcements)\<rparr>))"

definition remove_segment_announcement :: "cluster_state \<Rightarrow> string \<Rightarrow> string \<Rightarrow> cluster_state" where
  "remove_segment_announcement s segment_id server_name =
     snd (remove_segment_announcement_checked s segment_id server_name)"

definition get_segment_announcements :: "cluster_state \<Rightarrow> string \<Rightarrow> segment_announcement list" where
  "get_segment_announcements s data_source =
     (if rw_poisoned (cs_segments s) then [] else hm_list (rw_value (cs_segments s)) data_source)"

section \<open>Interval bounds\<close>

type_synonym parser = "string \<Rightarrow> int option"

text \<open>\<open>rfc3339\<close> and \<open>date\<close> stand for the chrono parsers (\<open>date\<close> yields midnight UTC of the day).\<close>

definition parse_interval_bound :: "parser \<Rightarrow> parser \<Rightarrow> string \<Rightarrow> int option" where
  "parse_interval_bound rfc3339 date s =
     (case rfc3339 s of Some dt \<Rightarrow> Some dt | None \<Rightarrow> date s)"

definition intervals_overlap ::
    "(string \<Rightarrow> int option) \<Rightarrow> string \<Rightarrow> string \<Rightarrow> string \<Rightarrow> string \<Rightarrow> bool" where
  "intervals_overlap bound start_a end_a start_b end_b =
     (case (bound start_a, bound end_a, bound start_b, bound end_b) of
        (Some a_start, Some a_end, Some b_start, Some b_end) \<Rightarrow>
          if a_end \<le> a_start \<or> b_end \<le> b_start then True
          else a_start < b_end \<and> b_start < a_end
      | _ \<Rightarrow> True)"

section \<open>Addresses of peers\<close>

text \<open>Addresses are ASCII.\<close>

definition port_or_default :: "string \<Rightarrow> u16" where
  "port_or_default s = (case parse_unsigned 16 s of Some p \<Rightarrow> of_nat p | None \<Rightarrow> 8888)"

definition parse_unbracketed :: "string \<Rightarrow> string \<times> u16" where
  "parse_unbracketed trimmed =
     (if 2 \<le> length (filter (\<lambda>c. c = CHR '':'') trimmed) then (trimmed, 8888)
      else case split_last CHR '':'' trimmed of
        Some (host, port_str) \<Rightarrow> (host, port_or_default port_str)
      | None \<Rightarrow> (trimmed, 8888))"

definition parse_host_port :: "string \<Rightarrow> string \<times> u16" where
  "parse_host_port addr =
     (let trimmed = trim addr in
      case strip_prefix CHR ''['' trimmed of
        None \<Rightarrow> parse_unbracketed trimmed
      | Some rest \<Rightarrow>
          (case split_first CHR '']'' rest of
             None \<Rightarrow> parse_unbracketed trimmed
           | Some (host, after) \<Rightarrow>
               (host, case strip_prefix CHR '':'' after of
                        Some port_str \<Rightarrow> port_or_default port_str
                      | None \<Rightarrow> 8888)))"

section \<open>The command state machine\<close>

definition MAX_SEGMENT_QUEUE_PER_SERVER :: nat where
  "MAX_SEGMENT_QUEUE_PER_SERVER = 65536"

definition MAX_SEGMENT_QUEUE_TOTAL :: nat where
  "MAX_SEGMENT_QUEUE_TOTAL = 1048576"

definition new_single_node :: "node_info \<Rightarrow> cluster_manager" where
  "new_single_node node =
     \<lparr>cm_mode = SingleNode, cm_state = state_new_single_node node, cm_node_info = node,
      cm_peers = RwLock [] False, cm_task_locks = RwLock [] False, cm_segment_queue = RwLock [] False\<rparr>"

definition new_multi_node :: "node_info \<Rightarrow> string list \<Rightarrow> cluster_manager" where
  "new_multi_node node peers =
     \<lparr>cm_mode = MultiNode peers, cm_state = state_new_single_node node, cm_node_info = node,
      cm_peers = RwLock (map (\<lambda>(i, addr). let (host, port) = parse_host_port addr in
          \<lparr>ni_id = ''peer-'' @ show_nat i, ni_host = host, ni_port = port, ni_role = AllInOne\<rparr>)
        (List.enumerate 0 peers)) False,
      cm_task_locks = RwLock [] False, cm_segment_queue = RwLock [] False\<rparr>"

definition elect_leader ::
    "cluster_manager \<Rightarrow> string \<Rightarrow> (command_result, cluster_error) res \<times> cluster_manager" where
  "elect_leader m node_id =
     (let local = \<lparr>ni_id = node_id, ni_host = ni_host (cm_node_info m), ni_port = ni_port (cm_node_info m),
                   ni_role = ni_role (cm_node_info m)\<rparr>;
          elected = (if node_id = ni_id (cm_node_info m) then Ok local
                     else bind (rw_write (cm_peers m)) (\<lambda>peers.
                       case find (\<lambda>p. ni_id p = node_id) peers of Some peer \<Rightarrow> Ok peer | None \<Rightarrow> Ok local))
      in case elected of
           Inl e \<Rightarrow> (Inl e, m)
         | Inr node \<Rightarrow>
             (case rw_write (cs_leader (cm_state m)) of
                Inl e \<Rightarrow> (Inl e, m)
              | Inr _ \<Rightarrow> (Ok (LeaderElected node_id),
                  m\<lparr>cm_state := (cm_state m)\<lparr>cs_leader := rw_set (cs_leader (cm_state m)) (Some node)\<rparr>\<rparr>)))"

text \<open>
  Enqueueing: the pending actions of the server on the same segment are removed first (which also
  creates the entry of an unknown server), then the two caps are checked, then the action is pushed.
  On a refusal the map keeps what the first step made of it.
\<close>

definition enqueue_action ::
    "int \<Rightarrow> cluster_manager \<Rightarrow> string \<Rightarrow> string \<Rightarrow> segment_action
       \<Rightarrow> (command_result, cluster_error) res \<times> cluster_manager" where
  "enqueue_action now m server_name segment_id act =
     (case rw_write (cm_segment_queue m) of
        Inl e \<Rightarrow> (Inl e, m)
      | Inr queue \<Rightarrow>
          let actions = hm_list queue server_name;
              pre_len = length actions;
              actions = filter (\<lambda>a. qa_segment_id a \<noteq> segment_id) actions;
              queue = hm_insert server_name actions queue;
              coalesced = length actions < pre_len;
              store = (\<lambda>q. m\<lparr>cm_segment_queue := rw_set (cm_segment_queue m) q\<rparr>);
              new_per_server = length actions + 1;
              new_global = hm_total queue + (if coalesced then 0 else 1)
          in if MAX_SEGMENT_QUEUE_PER_SERVER < new_per_server then
               (fail (QueueFull (''per-server '' @ server_name) MAX_SEGMENT_QUEUE_PER_SERVER new_per_server),
                store queue)
             else if MAX_SEGMENT_QUEUE_TOTAL < new_global then
               (fail (QueueFull ''global'' MAX_SEGMENT_QUEUE_TOTAL new_global), store queue)
             else
               (Ok CrOk, store (hm_insert server_name
                  (actions @ [\<lparr>qa_segment_id = segment_id, qa_action = act, qa_queued_at = now\<rparr>]) queue)))"

definition conflicts_with :: "(string \<Rightarrow> int option) \<Rightarrow> string \<Rightarrow> string \<Rightarrow> string \<Rightarrow> task_lock \<Rightarrow> bool" where
  "conflicts_with bound data_source interval_start interval_end l \<longleftrightarrow>
     tl_data_source l = data_source \<and>
     intervals_overlap bound (tl_interval_start l) (tl_interval_end l) interval_start interval_end"

definition apply_acquire_lock ::
    "(string \<Rightarrow> int option) \<Rightarrow> int \<Rightarrow> string \<Rightarrow> cluster_manager \<Rightarrow> string \<Rightarrow> string \<Rightarrow> string \<Rightarrow> string
       \<Rightarrow> (command_result, cluster_error) res \<times> cluster_manager" where
  "apply_acquire_lock bound now lock_id m task_id data_source interval_start interval_end =
     (case rw_write (cm_task_locks m) of
        Inl e \<Rightarrow> (Inl e, m)
      | Inr locks \<Rightarrow>
          (case find (conflicts_with bound data_source interval_start interval_end) (hm_values locks) of
             Some existing \<Rightarrow>
               (Ok (LockDenied (''overlapping lock held by task '' @ [CHR 0x27] @ tl_task_id existing
                  @ [CHR 0x27] @ '' on data_source '' @ [CHR 0x27] @ data_source @ [CHR 0x27])), m)
           | None \<Rightarrow>
               let task_lock = \<lparr>tl_task_id = task_id, tl_data_source = data_source,
                     tl_interval_start = interval_start, tl_interval_end = interval_end,
                     tl_acquired_at = now, tl_lock_id = lock_id\<rparr>
               in (Ok (LockAcquired lock_id),
                   m\<lparr>cm_task_locks := rw_set (cm_task_locks m) (hm_insert task_id task_lock locks)\<rparr>)))"

definition release_lock ::
    "cluster_manager \<Rightarrow> string \<Rightarrow> (command_result, cluster_error) res \<times> cluster_manager" where
  "release_lock m task_id =
     (case rw_write (cm_task_locks m) of
        Inl e \<Rightarrow> (Inl e, m)
      | Inr locks \<Rightarrow>
          (Ok (if hm_get locks task_id \<noteq> None then CrOk else NotFound),
           m\<lparr>cm_task_locks := rw_set (cm_task_locks m) (hm_remove task_id locks)\<rparr>))"

definition on_state ::
    "cluster_manager \<Rightarrow> (unit, cluster_error) res \<times> cluster_state
       \<Rightarrow> (command_result, cluster_error) res \<times> cluster_manager" where
  "on_state m r = (bind (fst r) (\<lambda>_. Ok CrOk), m\<lparr>cm_state := snd r\<rparr>)"

fun apply_cmd ::
    "(string \<Rightarrow> int option) \<Rightarrow> int \<Rightarrow> string \<Rightarrow> cluster_manager \<Rightarrow> cluster_command
       \<Rightarrow> (command_result, cluster_error) res \<times> cluster_manager" where
  "apply_cmd bound now uuid m (ElectLeader role node_id) = elect_leader m node_id"
| "apply_cmd bound now uuid m (RegisterService entry) =
     on_state m (register_service_checked (cm_state m) entry)"
| "apply_cmd bound now uuid m (DeregisterService node_id service_type) =
     on_state m (deregister_service_checked (cm_state m) node_id service_type)"
| "apply_cmd bound now uuid m (AnnounceSegment ann) =
     on_state m (announce_segment_checked (cm_state m) ann)"
| "apply_cmd bound now uuid m (RemoveSegment segment_id server_name) =
     on_state m (remove_segment_announcement_checked (cm_state m) segment_id server_name)"
| "apply_cmd bound now uuid m (EnqueueSegmentAction server_name segment_id act) =
     enqueue_action now m server_name segment_id act"
| "apply_cmd bound now uuid m (AcquireTaskLock task_id data_source interval_start interval_end) =
     apply_acquire_lock bound now uuid m task_id data_source interval_start interval_end"
| "apply_cmd bound now uuid m (ReleaseTaskLock task_id) = release_lock m task_id"

section \<open>Queries, locks, snapshots\<close>

definition leader :: "cluster_manager \<Rightarrow> node_info option" where
  "leader m = get_leader (cm_state m)"

definition is_leader :: "cluster_manager \<Rightarrow> bool" where
  "is_leader m = (case get_leader (cm_state m) of None \<Rightarrow> False | Some l \<Rightarrow> ni_id l = ni_id (cm_node_info m))"

definition pending_actions :: "cluster_manager \<Rightarrow> string \<Rightarrow> queued_action list" where
  "pending_actions m server_name =
     (if rw_poisoned (cm_segment_queue m) then [] else hm_list (rw_value (cm_segment_queue m)) server_name)"

definition dequeue_actions :: "cluster_manager \<Rightarrow> string \<Rightarrow> queued_action list \<times> cluster_manager" where
  "dequeue_actions m server_name =
     (case rw_write (cm_segment_queue m) of
        Inl e \<Rightarrow> ([], m)
      | Inr queue \<Rightarrow>
          (hm_list queue server_name,
           m\<lparr>cm_segment_queue := rw_set (cm_segment_queue m) (hm_remove server_name queue)\<rparr>))"

definition segment_queue_total :: "cluster_manager \<Rightarrow> nat" where
  "segment_queue_total m =
     (if rw_poisoned (cm_segment_queue m) then 0 else hm_total (rw_value (cm_segment_queue m)))"

definition try_lock ::
    "(string \<Rightarrow> int option) \<Rightarrow> int \<Rightarrow> string \<Rightarrow> cluster_manager \<Rightarrow> string \<Rightarrow> string \<Rightarrow> string \<Rightarrow> string
       \<Rightarrow> (command_result, cluster_error) res \<times> cluster_manager" where
  "try_lock bound now uuid m task_id data_source interval_start interval_end =
     apply_cmd bound now uuid m (AcquireTaskLock task_id data_source interval_start interval_end)"

definition unlock ::
    "(string \<Rightarrow> int option) \<Rightarrow> int \<Rightarrow> string \<Rightarrow> cluster_manager \<Rightarrow> string
       \<Rightarrow> (unit, cluster_error) res \<times> cluster_manager" where
  "unlock bound now uuid m task_id =
     (let (result, m') = apply_cmd bound now uuid m (ReleaseTaskLock task_id) in
      (bind result (\<lambda>r. if r = CrOk \<or> r = NotFound then Ok ()
                         else fail (CommandFailed ''unexpected result from unlock'')), m'))"

definition active_locks :: "cluster_manager \<Rightarrow> task_lock list" where
  "active_locks m = (if rw_poisoned (cm_task_locks m) then [] else hm_values (rw_value (cm_task_locks m)))"

definition node_count :: "cluster_manager \<Rightarrow> nat" where
  "node_count m = (if rw_poisoned (cm_peers m) then 1 else 1 + length (rw_value (cm_peers m)))"

definition health :: "cluster_manager \<Rightarrow> cluster_health" where
  "health m =
     (let l = map_option ni_id (get_leader (cm_state m)) in
      \<lparr>ch_is_healthy = (l \<noteq> None), ch_leader = l, ch_node_count = node_count m,
       ch_mode = (case cm_mode m of SingleNode \<Rightarrow> ''single-node''
                  | MultiNode peers \<Rightarrow> ''multi-node ('' @ show_nat (length peers) @ '' peers)'')\<rparr>)"

definition rw_read_or :: "'a \<Rightarrow> 'a rw_lock \<Rightarrow> 'a" where
  "rw_read_or d l = (if rw_poisoned l then d else rw_value l)"

definition snapshot :: "cluster_manager \<Rightarrow> cluster_snapshot" where
  "snapshot m =
     \<lparr>sn_services = rw_read_or [] (cs_services (cm_state m)),
      sn_segments = rw_read_or [] (cs_segments (cm_state m)),
      sn_task_locks = rw_read_or [] (cm_task_locks m),
      sn_leader = get_leader (cm_state m),
      sn_segment_queue = rw_read_or [] (cm_segment_queue m)\<rparr>"

text \<open>\<open>restore\<close> writes field after field and stops at the first poisoned lock.\<close>

definition restore ::
    "cluster_manager \<Rightarrow> cluster_snapshot \<Rightarrow> (unit, cluster_error) res \<times> cluster_manager" where
  "restore m sn =
     (let s = cm_state m in
      if rw_poisoned (cs_leader s) then (fail LockPoisoned, m) else
      let s = s\<lparr>cs_leader := rw_set (cs_leader s) (sn_leader sn)\<rparr>; m = m\<lparr>cm_state := s\<rparr> in
      if rw_poisoned (cs_services s) then (fail LockPoisoned, m) else
      let s = s\<lparr>cs_services := rw_set (cs_services s) (sn_services sn)\<rparr>; m = m\<lparr>cm_state := s\<rparr> in
      if rw_poisoned (cs_segments s) then (fail LockPoisoned, m) else
      let s = s\<lparr>cs_segments := rw_set (cs_segments s) (sn_segments sn)\<rparr>; m = m\<lparr>cm_state := s\<rparr> in
      if rw_poisoned (cm_task_locks m) then (fail LockPoisoned, m) else
      let m = m\<lparr>cm_task_locks := rw_set (cm_task_locks m) (sn_task_locks sn)\<rparr> in
      if rw_poisoned (cm_segment_queue m) then (fail LockPoisoned, m) else
      (Ok (), m\<lparr>cm_segment_queue := rw_set (cm_segment_queue m) (sn_segment_queue sn)\<rparr>))"

end
