(* ===== verification/Cluster_Invariants.thy ===== *)
theory Cluster_Invariants
  imports Cluster
begin

text \<open>
  What holds of the cluster manager in every state it can reach: task locks of different tasks never
  cover a common instant of a data source, the segment-action queues respect their caps and hold at
  most one action per segment, and the registry has one entry per node and service type. The
  transition system covers the commands, dequeueing, taking a snapshot and restoring any snapshot
  taken earlier. The registry also refines a finite map from (service type, node) to entries.
\<close>

section \<open>Invariants of the parts\<close>

definition locks_ok :: "(string \<Rightarrow> int option) \<Rightarrow> (string, task_lock) hash_map \<Rightarrow> bool" where
  "locks_ok bound locks \<longleftrightarrow> hm_wf locks \<and>
     (\<forall>k l. hm_get locks k = Some l \<longrightarrow> tl_task_id l = k) \<and>
     (\<forall>k k' l l'. k \<noteq> k' \<and> hm_get locks k = Some l \<and> hm_get locks k' = Some l' \<and> tl_data_source l = tl_data_source l' \<longrightarrow>
        \<not> intervals_overlap bound (tl_interval_start l) (tl_interval_end l) (tl_interval_start l') (tl_interval_end l'))"

definition queue_ok :: "(string, queued_action list) hash_map \<Rightarrow> bool" where
  "queue_ok q \<longleftrightarrow> hm_wf q \<and> hm_total q \<le> MAX_SEGMENT_QUEUE_TOTAL \<and>
     (\<forall>k. length (hm_list q k) \<le> MAX_SEGMENT_QUEUE_PER_SERVER \<and> distinct (map qa_segment_id (hm_list q k)))"

definition services_ok :: "(string, service_entry list) hash_map \<Rightarrow> bool" where
  "services_ok m \<longleftrightarrow> hm_wf m \<and>
     (\<forall>k. distinct (map se_node_id (hm_list m k)) \<and> (\<forall>e \<in> set (hm_list m k). se_service_type e = k))"

definition segments_ok :: "(string, segment_announcement list) hash_map \<Rightarrow> bool" where
  "segments_ok m \<longleftrightarrow> hm_wf m \<and>
     (\<forall>k. distinct (map (\<lambda>a. (sa_segment_id a, sa_server_name a)) (hm_list m k)) \<and>
        (\<forall>a \<in> set (hm_list m k). sa_data_source a = k))"

definition snap_inv :: "(string \<Rightarrow> int option) \<Rightarrow> cluster_snapshot \<Rightarrow> bool" where
  "snap_inv bound sn \<longleftrightarrow> locks_ok bound (sn_task_locks sn) \<and> queue_ok (sn_segment_queue sn) \<and>
     services_ok (sn_services sn) \<and> segments_ok (sn_segments sn)"

definition mgr_inv :: "(string \<Rightarrow> int option) \<Rightarrow> cluster_manager \<Rightarrow> bool" where
  "mgr_inv bound m \<longleftrightarrow> locks_ok bound (rw_value (cm_task_locks m)) \<and> queue_ok (rw_value (cm_segment_queue m)) \<and>
     services_ok (rw_value (cs_services (cm_state m))) \<and> segments_ok (rw_value (cs_segments (cm_state m)))"

lemma rw_simps [simp]:
  "rw_value (rw_set l v) = v" "rw_poisoned (rw_set l v) = rw_poisoned l"
  "rw_write l = Inr v \<longleftrightarrow> \<not> rw_poisoned l \<and> v = rw_value l"
  "rw_write l = Inl e \<longleftrightarrow> rw_poisoned l \<and> e = Err LockPoisoned"
  by (auto simp: rw_set_def rw_write_def)

lemma parts_ok_Nil [simp]: "locks_ok bound []" "queue_ok []" "services_ok []" "segments_ok []"
  by (simp_all add: locks_ok_def queue_ok_def services_ok_def segments_ok_def)

section \<open>Task locks\<close>

lemma intervals_overlap_sym:
  "intervals_overlap bound a b c d \<longleftrightarrow> intervals_overlap bound c d a b"
  by (auto simp: intervals_overlap_def split: option.splits)

lemma not_overlap_bounds:
  assumes "\<not> intervals_overlap bound a b c d"
  shows "\<exists>sa ea sb eb. bound a = Some sa \<and> bound b = Some ea \<and> bound c = Some sb \<and> bound d = Some eb \<and>
     sa < ea \<and> sb < eb \<and> {sa..<ea} \<inter> {sb..<eb} = {}"
  using assms by (auto simp: intervals_overlap_def split: option.splits if_splits)

lemma locks_ok_remove: "locks_ok bound locks \<Longrightarrow> locks_ok bound (hm_remove k locks)"
  unfolding locks_ok_def by (simp split: if_splits) blast

lemma locks_ok_insert:
  assumes ok: "locks_ok bound locks"
    and free: "\<forall>l \<in> set (hm_values locks). \<not> conflicts_with bound (tl_data_source n) (tl_interval_start n) (tl_interval_end n) l"
    and key: "tl_task_id n = k"
  shows "locks_ok bound (hm_insert k n locks)"
proof -
  have wf: "hm_wf locks" using ok by (simp add: locks_ok_def)
  have new: "\<not> intervals_overlap bound (tl_interval_start l) (tl_interval_end l) (tl_interval_start n) (tl_interval_end n)"
    if "hm_get locks j = Some l" "tl_data_source l = tl_data_source n" for j l
    using free that wf by (auto simp: hm_values_get conflicts_with_def)
  then have new': "\<not> intervals_overlap bound (tl_interval_start n) (tl_interval_end n) (tl_interval_start l) (tl_interval_end l)"
    if "hm_get locks j = Some l" "tl_data_source n = tl_data_source l" for j l
    using that by (simp add: intervals_overlap_sym [of bound "tl_interval_start n"])
  show ?thesis
    using ok key unfolding locks_ok_def by (auto split: if_splits dest: new new')
qed

lemma apply_acquire_lock_ok:
  "mgr_inv bound m \<Longrightarrow> mgr_inv bound (snd (apply_acquire_lock bound now uuid m t ds a b))"
  unfolding apply_acquire_lock_def
  by (auto simp: mgr_inv_def Let_def find_None_iff intro!: locks_ok_insert split: sum.splits option.splits)

section \<open>Queues\<close>

lemma length_filter_distinct:
  assumes "distinct (map f xs)"
  shows "length xs \<le> Suc (length (filter (\<lambda>x. f x \<noteq> v) xs))"
proof -
  have "length (filter (\<lambda>x. f x = v) xs) \<le> 1"
  proof -
    have "distinct (filter (\<lambda>x. f x = v) xs)" using assms by (simp add: distinct_map)
    moreover have "a = b" if "a \<in> set (filter (\<lambda>x. f x = v) xs)" "b \<in> set (filter (\<lambda>x. f x = v) xs)" for a b
      using that assms by (auto simp: distinct_map inj_on_def)
    ultimately show ?thesis
      by (metis (no_types, lifting) One_nat_def card_le_Suc0_iff_eq distinct_card List.finite_set)
  qed
  then show ?thesis using sum_length_filter_compl [of "\<lambda>x. f x = v" xs] by simp
qed

text \<open>
  One step of the queue. Under the invariant the retained list differs from the old one only when
  an action on the same segment was pending, in which case no cap can be hit.
\<close>

lemma enqueue_action_cases:
  fixes m :: cluster_manager and srv sid :: string and act :: segment_action and now :: int
  assumes q: "queue_ok (rw_value (cm_segment_queue m))" and np: "\<not> rw_poisoned (cm_segment_queue m)"
  defines "old \<equiv> \<lambda>k. hm_list (rw_value (cm_segment_queue m)) k"
  defines "kept \<equiv> filter (\<lambda>a. qa_segment_id a \<noteq> sid) (old srv)"
  defines "fresh \<equiv> \<lparr>qa_segment_id = sid, qa_action = act, qa_queued_at = now\<rparr>"
  obtains
    q' where "enqueue_action now m srv sid act = (Ok CrOk, m\<lparr>cm_segment_queue := rw_set (cm_segment_queue m) q'\<rparr>)"
      "queue_ok q'" "\<forall>k. hm_list q' k = (if k = srv then kept @ [fresh] else old k)"
  | c n q' scope where "enqueue_action now m srv sid act
        = (fail (QueueFull scope c n), m\<lparr>cm_segment_queue := rw_set (cm_segment_queue m) q'\<rparr>)"
      "queue_ok q'" "\<forall>k. hm_list q' k = old k" "kept = old srv" "c < n"
proof -
  let ?q = "rw_value (cm_segment_queue m)"
  let ?q1 = "hm_insert srv kept ?q" and ?q2 = "hm_insert srv (kept @ [fresh]) (hm_insert srv kept ?q)"
  let ?coal = "length kept < length (old srv)"
  note Q = q [unfolded queue_ok_def]
  have len: "length kept \<le> length (old srv)" "length (old srv) \<le> Suc (length kept)"
    using Q length_filter_distinct [of qa_segment_id "old srv" sid] by (auto simp: kept_def old_def)
  have tot1: "hm_total ?q1 + length (old srv) = hm_total ?q + length kept"
    using hm_total_insert [of srv kept ?q] by (simp add: old_def)
  have tot2: "hm_total ?q2 = Suc (hm_total ?q1)"
    using hm_total_insert [of srv "kept @ [fresh]" ?q1] by simp
  have dk: "distinct (map qa_segment_id kept)"
    using Q by (simp add: kept_def old_def distinct_map_filter)
  have same: "kept = old srv" if "\<not> ?coal"
    using that len by (auto simp: kept_def) (metis (no_types, lifting) filter_True length_filter_less not_le)
  have caps: "length (old srv) \<le> MAX_SEGMENT_QUEUE_PER_SERVER" "hm_total ?q \<le> MAX_SEGMENT_QUEUE_TOTAL"
    using Q by (auto simp: old_def)
  have q1: "queue_ok ?q1"
    using Q len tot1 dk by (auto simp: queue_ok_def old_def intro: le_trans)
  have unfold: "enqueue_action now m srv sid act =
      (let n = length kept + 1; g = hm_total ?q1 + (if ?coal then 0 else 1);
           st = (\<lambda>q. m\<lparr>cm_segment_queue := rw_set (cm_segment_queue m) q\<rparr>) in
       if MAX_SEGMENT_QUEUE_PER_SERVER < n then
         (fail (QueueFull (''per-server '' @ srv) MAX_SEGMENT_QUEUE_PER_SERVER n), st ?q1)
       else if MAX_SEGMENT_QUEUE_TOTAL < g then (fail (QueueFull ''global'' MAX_SEGMENT_QUEUE_TOTAL g), st ?q1)
       else (Ok CrOk, st ?q2))"
    using np by (simp add: enqueue_action_def rw_write_def Let_def kept_def old_def fresh_def)
  consider (per) "MAX_SEGMENT_QUEUE_PER_SERVER < length kept + 1"
    | (glob) "\<not> MAX_SEGMENT_QUEUE_PER_SERVER < length kept + 1"
        "MAX_SEGMENT_QUEUE_TOTAL < hm_total ?q1 + (if ?coal then 0 else 1)"
    | (ok) "\<not> MAX_SEGMENT_QUEUE_PER_SERVER < length kept + 1"
        "\<not> MAX_SEGMENT_QUEUE_TOTAL < hm_total ?q1 + (if ?coal then 0 else 1)"
    by blast
  then show thesis
  proof cases
    case per
    then have "\<not> ?coal" using caps(1) len by linarith
    then show thesis using same per q1 unfold by (intro that(2)) (auto simp: Let_def old_def)
  next
    case glob
    then have "\<not> ?coal" using caps(2) len tot1 by (auto split: if_splits)
    then show thesis using same glob q1 unfold by (intro that(2)) (auto simp: Let_def old_def)
  next
    case ok
    have "hm_total ?q2 \<le> MAX_SEGMENT_QUEUE_TOTAL"
      using ok(2) tot1 tot2 caps(2) len by (auto split: if_splits)
    moreover have "qa_segment_id fresh \<notin> qa_segment_id ` set kept" by (auto simp: fresh_def kept_def)
    ultimately have "queue_ok ?q2" using Q ok(1) dk by (auto simp: queue_ok_def)
    then show thesis using ok unfold by (intro that(1)) (auto simp: Let_def old_def)
  qed
qed

lemma enqueue_action_ok:
  assumes "mgr_inv bound m"
  shows "mgr_inv bound (snd (enqueue_action now m srv sid act))"
proof (cases "rw_poisoned (cm_segment_queue m)")
  case True
  then show ?thesis using assms by (simp add: enqueue_action_def rw_write_def)
next
  case False
  have "queue_ok (rw_value (cm_segment_queue m))" using assms by (simp add: mgr_inv_def)
  from enqueue_action_cases [OF this False, of now srv sid act] show ?thesis
    using assms by cases (simp_all add: mgr_inv_def)
qed

lemma queue_ok_remove: "queue_ok q \<Longrightarrow> queue_ok (hm_remove k q)"
  using hm_total_remove [of k q] by (auto simp: queue_ok_def)

section \<open>Registry\<close>

lemma distinct_replace:
  "distinct (map f xs) \<Longrightarrow> distinct (map f (filter (\<lambda>x. f x \<noteq> f y) xs @ [y]))"
  by (auto simp: distinct_map_filter)

lemma services_ok_register:
  "services_ok m \<Longrightarrow> services_ok (hm_insert (se_service_type e)
     (filter (\<lambda>x. se_node_id x \<noteq> se_node_id e) (hm_list m (se_service_type e)) @ [e]) m)"
  using distinct_replace [of se_node_id "hm_list m (se_service_type e)" e] by (auto simp: services_ok_def)

lemma services_ok_deregister:
  "services_ok m \<Longrightarrow> hm_get m ty = Some es \<Longrightarrow> services_ok (hm_insert ty (filter P es) m)"
  by (auto simp: services_ok_def hm_list_def distinct_map_filter split: if_splits option.splits)

lemma segments_ok_announce:
  "segments_ok m \<Longrightarrow> segments_ok (hm_insert (sa_data_source e)
     (filter (\<lambda>a. sa_segment_id a = sa_segment_id e \<longrightarrow> sa_server_name a \<noteq> sa_server_name e)
        (hm_list m (sa_data_source e)) @ [e]) m)"
  using distinct_replace [of "\<lambda>a. (sa_segment_id a, sa_server_name a)" "hm_list m (sa_data_source e)" e]
  by (auto simp: segments_ok_def)

lemma segments_ok_filter: "segments_ok m \<Longrightarrow> segments_ok (hm_map (filter P) m)"
  by (auto simp: segments_ok_def hm_list_map distinct_map_filter)

lemmas registry_defs = register_service_checked_def deregister_service_checked_def
  announce_segment_checked_def remove_segment_announcement_checked_def on_state_def

section \<open>Every command keeps the invariant\<close>

lemma apply_cmd_inv: "mgr_inv bound m \<Longrightarrow> mgr_inv bound (snd (apply_cmd bound now uuid m c))"
proof (cases c)
  case (ElectLeader r n)
  moreover assume "mgr_inv bound m"
  ultimately show ?thesis
    by (auto simp: elect_leader_def Let_def mgr_inv_def split: sum.splits)
next
  case (EnqueueSegmentAction a b d)
  moreover assume "mgr_inv bound m"
  ultimately show ?thesis by (simp add: enqueue_action_ok)
next
  case (AcquireTaskLock a b d e)
  moreover assume "mgr_inv bound m"
  ultimately show ?thesis by (simp add: apply_acquire_lock_ok)
next
  case (ReleaseTaskLock t)
  moreover assume "mgr_inv bound m"
  ultimately show ?thesis
    by (auto simp: release_lock_def mgr_inv_def locks_ok_remove split: sum.splits)
qed (auto simp: registry_defs mgr_inv_def Let_def services_ok_register services_ok_deregister
  segments_ok_announce segments_ok_filter split: sum.splits option.splits)

lemma dequeue_actions_inv: "mgr_inv bound m \<Longrightarrow> mgr_inv bound (snd (dequeue_actions m srv))"
  by (auto simp: dequeue_actions_def mgr_inv_def queue_ok_remove split: sum.splits)

lemma snapshot_inv: "mgr_inv bound m \<Longrightarrow> snap_inv bound (snapshot m)"
  by (simp add: mgr_inv_def snap_inv_def snapshot_def rw_read_or_def)

lemma restore_inv: "mgr_inv bound m \<Longrightarrow> snap_inv bound sn \<Longrightarrow> mgr_inv bound (snd (restore m sn))"
  by (simp add: restore_def Let_def mgr_inv_def snap_inv_def)

section \<open>Runs\<close>

record cluster_sys =
  sy_mgr :: cluster_manager
  sy_snaps :: "cluster_snapshot list"

definition cluster_init :: "cluster_sys \<Rightarrow> bool" where
  "cluster_init s \<longleftrightarrow> sy_snaps s = [] \<and>
     ((\<exists>node. sy_mgr s = new_single_node node) \<or> (\<exists>node peers. sy_mgr s = new_multi_node node peers))"

inductive cluster_step :: "(string \<Rightarrow> int option) \<Rightarrow> cluster_sys \<Rightarrow> cluster_sys \<Rightarrow> bool"
  for bound :: "string \<Rightarrow> int option" where
  command: "cluster_step bound s (s\<lparr>sy_mgr := snd (apply_cmd bound now uuid (sy_mgr s) c)\<rparr>)"
| dequeue: "cluster_step bound s (s\<lparr>sy_mgr := snd (dequeue_actions (sy_mgr s) srv)\<rparr>)"
| take_snapshot: "cluster_step bound s (s\<lparr>sy_snaps := snapshot (sy_mgr s) # sy_snaps s\<rparr>)"
| restore_snapshot: "sn \<in> set (sy_snaps s) \<Longrightarrow> cluster_step bound s (s\<lparr>sy_mgr := snd (restore (sy_mgr s) sn)\<rparr>)"

inductive_cases cluster_stepE: "cluster_step bound s t"

definition cluster_inv :: "(string \<Rightarrow> int option) \<Rightarrow> cluster_sys \<Rightarrow> bool" where
  "cluster_inv bound s \<longleftrightarrow> mgr_inv bound (sy_mgr s) \<and> (\<forall>sn \<in> set (sy_snaps s). snap_inv bound sn)"

interpretation cluster: inductive_invariant cluster_init "cluster_step bound" "cluster_inv bound" for bound
proof
  fix s assume "cluster_init s"
  then show "cluster_inv bound s"
    by (auto simp: cluster_init_def cluster_inv_def mgr_inv_def new_single_node_def new_multi_node_def state_new_single_node_def)
next
  fix s t assume "cluster_inv bound s" and "cluster_step bound s t"
  from this(2,1) show "cluster_inv bound t"
    by cases (auto simp: cluster_inv_def apply_cmd_inv dequeue_actions_inv snapshot_inv restore_inv)
qed

lemma reachable_mgr_inv: "reachable cluster_init (cluster_step bound) s \<Longrightarrow> mgr_inv bound (sy_mgr s)"
  using cluster.reachable_inv by (auto simp: cluster_inv_def)

section \<open>The registry as a finite map\<close>

text \<open>What the registry promises: at most one entry per service type and node.\<close>

definition abs_services :: "cluster_state \<Rightarrow> string \<times> string \<Rightarrow> service_entry option" where
  "abs_services s = (\<lambda>(ty, node). find (\<lambda>e. se_node_id e = node) (get_services s ty))"

lemma find_filter_append:
  "find (\<lambda>x. f x = a) (filter (\<lambda>x. f x \<noteq> f y) xs @ [y]) = (if a = f y then Some y else find (\<lambda>x. f x = a) xs)"
  by (induction xs) auto

lemma find_filter_neq:
  "find (\<lambda>x. f x = a) (filter (\<lambda>x. f x \<noteq> b) xs) = (if a = b then None else find (\<lambda>x. f x = a) xs)"
  by (induction xs) auto

lemma abs_register:
  "\<not> rw_poisoned (cs_services s) \<Longrightarrow>
     abs_services (register_service s e) = (abs_services s)((se_service_type e, se_node_id e) \<mapsto> e)"
  by (rule ext)
    (auto simp: abs_services_def register_service_def register_service_checked_def get_services_def
      rw_write_def Let_def find_filter_append split: if_splits)

lemma abs_deregister:
  "\<not> rw_poisoned (cs_services s) \<Longrightarrow>
     abs_services (deregister_service s node ty) = (abs_services s)((ty, node) := None)"
  by (rule ext)
    (auto simp: abs_services_def deregister_service_def deregister_service_checked_def get_services_def
      rw_write_def find_filter_neq hm_list_def split: option.splits if_splits)

end
