(* ===== verification/Cluster_Properties.thy ===== *)
theory Cluster_Properties
  imports Cluster_Invariants
begin

text \<open>
  The properties of the cluster manager. Where a property holds in every reachable state it is
  stated over \<open>reachable cluster_init (cluster_step bound)\<close>, with \<open>bound\<close> the parser of interval
  bounds; the concrete runs of the witnesses use a parser of a few instants.
\<close>

section \<open>A concrete run\<close>

definition test_bound :: "string \<Rightarrow> int option" where
  "test_bound = parse_interval_bound
     (map_of [(''1'', 1), (''2'', 2), (''3'', 3), (''5'', 5), (''9'', 9)]) (\<lambda>s. None)"

definition test_node :: node_info where
  "test_node = \<lparr>ni_id = ''n'', ni_host = ''h'', ni_port = 1, ni_role = AllInOne\<rparr>"

text \<open>Commands applied one after the other from a fresh single-node manager.\<close>

definition run_cmds :: "(string \<Rightarrow> int option) \<Rightarrow> cluster_manager \<Rightarrow> cluster_command list \<Rightarrow> cluster_manager" where
  "run_cmds bound m cs = foldl (\<lambda>m c. snd (apply_cmd bound 0 ''id'' m c)) m cs"

lemma run_cmds_reachable:
  "reachable cluster_init (cluster_step bound) \<lparr>sy_mgr = run_cmds bound (new_single_node node) cs, sy_snaps = []\<rparr>"
proof (induction cs rule: rev_induct)
  case Nil
  show ?case by (rule reachable.start) (auto simp: cluster_init_def run_cmds_def)
next
  case (snoc c cs)
  show ?case using reachable.next_step [OF snoc.IH cluster_step.command, of 0 "''id''" c]
    by (simp add: run_cmds_def)
qed

definition test_mgr :: cluster_manager where
  "test_mgr = run_cmds test_bound (new_single_node test_node)
     [AcquireTaskLock ''a'' ''ds'' ''1'' ''5'', AcquireTaskLock ''b'' ''ds'' ''5'' ''9'',
      EnqueueSegmentAction ''srv'' ''seg'' Load]"

lemma test_mgr_reachable: "reachable cluster_init (cluster_step test_bound) \<lparr>sy_mgr = test_mgr, sy_snaps = []\<rparr>"
  unfolding test_mgr_def by (rule run_cmds_reachable)

lemma test_bound_simps [simp]:
  "test_bound ''1'' = Some 1" "test_bound ''2'' = Some 2" "test_bound ''3'' = Some 3"
  "test_bound ''5'' = Some 5" "test_bound ''9'' = Some 9" "test_bound ''not-a-date'' = None"
  by (simp_all add: test_bound_def parse_interval_bound_def)

lemma test_mgr_eq:
  "test_mgr = (new_single_node test_node)\<lparr>
     cm_task_locks := RwLock
       [(''a'', \<lparr>tl_task_id = ''a'', tl_data_source = ''ds'', tl_interval_start = ''1'', tl_interval_end = ''5'',
           tl_acquired_at = 0, tl_lock_id = ''id''\<rparr>),
        (''b'', \<lparr>tl_task_id = ''b'', tl_data_source = ''ds'', tl_interval_start = ''5'', tl_interval_end = ''9'',
           tl_acquired_at = 0, tl_lock_id = ''id''\<rparr>)] False,
     cm_segment_queue := RwLock [(''srv'', [\<lparr>qa_segment_id = ''seg'', qa_action = Load, qa_queued_at = 0\<rparr>])] False\<rparr>"
  by (simp add: test_mgr_def run_cmds_def new_single_node_def apply_acquire_lock_def enqueue_action_def rw_write_def
      rw_set_def Let_def hm_values_def conflicts_with_def intervals_overlap_def hm_total_def
      MAX_SEGMENT_QUEUE_PER_SERVER_def MAX_SEGMENT_QUEUE_TOTAL_def)

lemmas test_simps = test_mgr_eq new_single_node_def active_locks_def pending_actions_def hm_values_def hm_list_def hm_get_def

section \<open>Task locks\<close>

text \<open>C15: In every reachable state, two locks of different tasks on the same data source have
  well-formed, non-empty intervals that share no instant.\<close>

theorem task_locks_exclusive:
  assumes "reachable cluster_init (cluster_step bound) s"
    and "l \<in> set (active_locks (sy_mgr s))" and "l' \<in> set (active_locks (sy_mgr s))"
    and "tl_task_id l \<noteq> tl_task_id l'" and "tl_data_source l = tl_data_source l'"
  shows "\<exists>a b c d. bound (tl_interval_start l) = Some a \<and> bound (tl_interval_end l) = Some b \<and>
     bound (tl_interval_start l') = Some c \<and> bound (tl_interval_end l') = Some d \<and>
     a < b \<and> c < d \<and> {a..<b} \<inter> {c..<d} = {}"
proof (rule not_overlap_bounds)
  have ok: "locks_ok bound (rw_value (cm_task_locks (sy_mgr s)))"
    using reachable_mgr_inv [OF assms(1)] by (simp add: mgr_inv_def)
  then have wf: "hm_wf (rw_value (cm_task_locks (sy_mgr s)))" by (simp add: locks_ok_def)
  obtain k k' where "hm_get (rw_value (cm_task_locks (sy_mgr s))) k = Some l"
    "hm_get (rw_value (cm_task_locks (sy_mgr s))) k' = Some l'"
    using assms(2,3) hm_values_get [OF wf] by (auto simp: active_locks_def split: if_splits)
  moreover from this ok assms(4) have "k \<noteq> k'" by (auto simp: locks_ok_def)
  ultimately show "\<not> intervals_overlap bound (tl_interval_start l) (tl_interval_end l) (tl_interval_start l') (tl_interval_end l')"
    using ok assms(5) unfolding locks_ok_def by blast
qed

theorem task_locks_exclusive_witness:
  "\<exists>a b c d. test_bound ''1'' = Some a \<and> test_bound ''5'' = Some b \<and>
     test_bound ''5'' = Some c \<and> test_bound ''9'' = Some d \<and> a < b \<and> c < d \<and> {a..<b} \<inter> {c..<d} = {}"
proof -
  let ?l = "\<lparr>tl_task_id = ''a'', tl_data_source = ''ds'', tl_interval_start = ''1'', tl_interval_end = ''5'',
      tl_acquired_at = 0, tl_lock_id = ''id''\<rparr>"
  let ?l' = "\<lparr>tl_task_id = ''b'', tl_data_source = ''ds'', tl_interval_start = ''5'', tl_interval_end = ''9'',
      tl_acquired_at = 0, tl_lock_id = ''id''\<rparr>"
  have "active_locks test_mgr = [?l, ?l']" by (simp add: test_simps)
  then have 1: "?l \<in> set (active_locks (sy_mgr \<lparr>sy_mgr = test_mgr, sy_snaps = []\<rparr>))"
    "?l' \<in> set (active_locks (sy_mgr \<lparr>sy_mgr = test_mgr, sy_snaps = []\<rparr>))" by simp_all
  from task_locks_exclusive [OF test_mgr_reachable this] show ?thesis by simp
qed

text \<open>A request whose bounds cannot be parsed is granted when no lock is held on its data source,
  although the parser's contract asks callers to refuse it.\<close>

theorem malformed_lock_granted:
  assumes "\<not> rw_poisoned (cm_task_locks m)" and "bound interval_start = None"
    and "\<forall>l \<in> set (hm_values (rw_value (cm_task_locks m))). tl_data_source l \<noteq> data_source"
  shows "fst (try_lock bound now uuid m task_id data_source interval_start interval_end) = Ok (LockAcquired uuid)"
proof -
  have "find (conflicts_with bound data_source interval_start interval_end) (hm_values (rw_value (cm_task_locks m))) = None"
    using assms(3) by (auto simp: find_None_iff conflicts_with_def)
  then show ?thesis using assms(1) by (simp add: try_lock_def apply_acquire_lock_def rw_write_def Let_def)
qed

theorem malformed_lock_granted_witness:
  "fst (try_lock test_bound 0 ''id'' (new_single_node test_node) ''t'' ''ds'' ''not-a-date'' ''9'') = Ok (LockAcquired ''id'')"
  by (rule malformed_lock_granted) (simp_all add: new_single_node_def hm_values_def)

text \<open>The lock table is keyed by task, so a task that acquires a second lock silently loses its
  first: the interval is free for other tasks while the first task still believes to hold it.\<close>

theorem second_lock_replaces_first:
  assumes "reachable cluster_init (cluster_step bound) s"
    and "try_lock bound now uuid (sy_mgr s) task_id data_source interval_start interval_end = (Ok (LockAcquired uuid), m')"
    and "l \<in> set (active_locks m')" and "tl_task_id l = task_id"
  shows "tl_data_source l = data_source \<and> tl_interval_start l = interval_start \<and> tl_interval_end l = interval_end"
proof -
  let ?locks = "rw_value (cm_task_locks (sy_mgr s))"
  let ?n = "\<lparr>tl_task_id = task_id, tl_data_source = data_source, tl_interval_start = interval_start,
      tl_interval_end = interval_end, tl_acquired_at = now, tl_lock_id = uuid\<rparr>"
  have ok: "locks_ok bound ?locks" using reachable_mgr_inv [OF assms(1)] by (simp add: mgr_inv_def)
  then have wf: "hm_wf ?locks" and key: "\<forall>k x. hm_get ?locks k = Some x \<longrightarrow> tl_task_id x = k" by (auto simp: locks_ok_def)
  have "active_locks m' = hm_values (hm_insert task_id ?n ?locks)"
    using assms(2) by (auto simp: try_lock_def apply_acquire_lock_def rw_write_def active_locks_def Let_def
        split: option.splits if_splits)
  then obtain k where "hm_get (hm_insert task_id ?n ?locks) k = Some l"
    using assms(3) hm_values_get [OF hm_wf_insert [OF wf]] by auto
  then have "?n = l" using key assms(4) by (auto split: if_splits)
  then show ?thesis by (metis task_lock.select_convs(2,3,4))
qed

theorem second_lock_replaces_first_witness:
  "\<exists>m'. try_lock test_bound 0 ''id'' test_mgr ''a'' ''other'' ''2'' ''3'' = (Ok (LockAcquired ''id''), m') \<and>
     map tl_interval_start (active_locks test_mgr) = [''1'', ''5''] \<and> map tl_interval_start (active_locks m') = [''2'', ''5''] \<and>
     tl_data_source (hd (active_locks m')) = ''other''"
proof -
  let ?s = "\<lparr>sy_mgr = test_mgr, sy_snaps = []\<rparr>"
  obtain m' where m': "try_lock test_bound 0 ''id'' (sy_mgr ?s) ''a'' ''other'' ''2'' ''3'' = (Ok (LockAcquired ''id''), m')"
    and l: "map tl_interval_start (active_locks m') = [''2'', ''5'']" "map tl_task_id (active_locks m') = [''a'', ''b'']"
    by (simp add: test_simps try_lock_def apply_acquire_lock_def rw_write_def rw_set_def conflicts_with_def Let_def)
  then have "hd (active_locks m') \<in> set (active_locks m')" "tl_task_id (hd (active_locks m')) = ''a''"
    by (cases "active_locks m'"; simp)+
  from second_lock_replaces_first [OF test_mgr_reachable m' this] m' l show ?thesis by (simp add: test_simps)
qed

section \<open>Segment-action queues\<close>

text \<open>C31: In every reachable state no server has more than 65536 pending actions, there are at most
  1048576 in all, and a server has at most one pending action per segment.\<close>

theorem queue_within_caps:
  assumes "reachable cluster_init (cluster_step bound) s"
  shows "length (pending_actions (sy_mgr s) srv) \<le> 65536 \<and> segment_queue_total (sy_mgr s) \<le> 1048576 \<and>
     distinct (map qa_segment_id (pending_actions (sy_mgr s) srv))"
  using reachable_mgr_inv [OF assms]
  by (auto simp: mgr_inv_def queue_ok_def pending_actions_def segment_queue_total_def
      MAX_SEGMENT_QUEUE_PER_SERVER_def MAX_SEGMENT_QUEUE_TOTAL_def)

theorem queue_within_caps_witness:
  "length (pending_actions test_mgr ''srv'') = 1 \<and> length (pending_actions test_mgr ''srv'') \<le> 65536 \<and>
   segment_queue_total test_mgr \<le> 1048576 \<and> distinct (map qa_segment_id (pending_actions test_mgr ''srv''))"
proof -
  have "length (pending_actions test_mgr ''srv'') = 1" by (simp add: test_simps)
  then show ?thesis using queue_within_caps [OF test_mgr_reachable, of "''srv''"] by simp
qed

text \<open>Enqueueing in a reachable state with a healthy queue lock either succeeds, and then replaces
  the server's pending action on the segment and puts the new one last, or is refused with
  \<open>QueueFull\<close>, and then the pending actions of every server are what they were.\<close>

theorem enqueue_outcome:
  assumes "reachable cluster_init (cluster_step bound) s" and "\<not> rw_poisoned (cm_segment_queue (sy_mgr s))"
    and "apply_cmd bound now uuid (sy_mgr s) (EnqueueSegmentAction srv sid act) = (r, m')"
  shows "(r = Ok CrOk \<and>
       pending_actions m' srv = filter (\<lambda>a. qa_segment_id a \<noteq> sid) (pending_actions (sy_mgr s) srv) @
         [\<lparr>qa_segment_id = sid, qa_action = act, qa_queued_at = now\<rparr>] \<and>
       (\<forall>k. k \<noteq> srv \<longrightarrow> pending_actions m' k = pending_actions (sy_mgr s) k)) \<or>
     ((\<exists>scope c n. r = fail (QueueFull scope c n) \<and> c < n) \<and>
       (\<forall>k. pending_actions m' k = pending_actions (sy_mgr s) k))"
proof -
  have "queue_ok (rw_value (cm_segment_queue (sy_mgr s)))"
    using reachable_mgr_inv [OF assms(1)] by (simp add: mgr_inv_def)
  from enqueue_action_cases [OF this assms(2), of now srv sid act] show ?thesis
    using assms(2,3) by cases (auto simp: pending_actions_def)
qed

theorem enqueue_outcome_witness:
  "\<exists>r m'. apply_cmd test_bound 7 ''id'' test_mgr (EnqueueSegmentAction ''srv'' ''seg'' Drop) = (r, m') \<and> r = Ok CrOk \<and>
     pending_actions m' ''srv'' = [\<lparr>qa_segment_id = ''seg'', qa_action = Drop, qa_queued_at = 7\<rparr>]"
proof -
  obtain r m' where e: "apply_cmd test_bound 7 ''id'' test_mgr (EnqueueSegmentAction ''srv'' ''seg'' Drop) = (r, m')" by fastforce
  have np: "\<not> rw_poisoned (cm_segment_queue (sy_mgr \<lparr>sy_mgr = test_mgr, sy_snaps = []\<rparr>))" by (simp add: test_simps)
  have old: "filter (\<lambda>a. qa_segment_id a \<noteq> ''seg'') (pending_actions test_mgr ''srv'') = []" by (simp add: test_simps)
  have "fst (apply_cmd test_bound 7 ''id'' test_mgr (EnqueueSegmentAction ''srv'' ''seg'' Drop)) = Ok CrOk"
    by (simp add: test_simps enqueue_action_def rw_write_def Let_def hm_total_def
        MAX_SEGMENT_QUEUE_PER_SERVER_def MAX_SEGMENT_QUEUE_TOTAL_def)
  then have "r = Ok CrOk" using e by simp
  then show ?thesis using enqueue_outcome [OF test_mgr_reachable np, of 7 "''id''" "''srv''" "''seg''" Drop r m'] e old by auto
qed

section \<open>Snapshots\<close>

text \<open>Restoring a snapshot on a manager whose locks are healthy succeeds, reproduces the snapshot
  exactly, and changes neither the node, the mode nor the peers.\<close>

theorem snapshot_restores:
  assumes "\<not> rw_poisoned (cs_leader (cm_state m))" "\<not> rw_poisoned (cs_services (cm_state m))"
    "\<not> rw_poisoned (cs_segments (cm_state m))" "\<not> rw_poisoned (cm_task_locks m)" "\<not> rw_poisoned (cm_segment_queue m)"
  shows "fst (restore m sn) = Ok () \<and> snapshot (snd (restore m sn)) = sn \<and>
     cm_node_info (snd (restore m sn)) = cm_node_info m \<and> cm_mode (snd (restore m sn)) = cm_mode m \<and>
     cm_peers (snd (restore m sn)) = cm_peers m"
  using assms by (simp add: restore_def Let_def snapshot_def rw_read_or_def get_leader_def)

theorem snapshot_restores_witness:
  "snapshot (snd (restore (new_single_node test_node) (snapshot test_mgr))) = snapshot test_mgr"
  using snapshot_restores [of "new_single_node test_node" "snapshot test_mgr"]
  by (simp add: new_single_node_def state_new_single_node_def)

section \<open>Registry\<close>

text \<open>The service registry refines a finite map from (service type, node) to entries: registering
  an entry updates the map at its key, deregistering clears the key, and nothing else changes.\<close>

theorem registry_refines_map:
  assumes "\<not> rw_poisoned (cs_services s)"
  shows "abs_services (register_service s e) = (abs_services s)((se_service_type e, se_node_id e) \<mapsto> e) \<and>
     abs_services (deregister_service s node ty) = (abs_services s)((ty, node) := None)"
  by (simp add: abs_register abs_deregister assms)

theorem registry_refines_map_witness:
  "abs_services (register_service (state_new_single_node test_node)
     \<lparr>se_service_type = ''broker'', se_host = ''h'', se_port = 1, se_node_id = ''n''\<rparr>) (''broker'', ''n'')
   = Some \<lparr>se_service_type = ''broker'', se_host = ''h'', se_port = 1, se_node_id = ''n''\<rparr>"
  using registry_refines_map [of "state_new_single_node test_node"]
  by (simp add: state_new_single_node_def)

section \<open>Peer addresses\<close>

text \<open>A host name without colons, brackets and surrounding white space, written with a port, is
  parsed back; so is an IPv6 address in brackets; and an address with two or more colons and no
  bracket is taken whole with the default port.\<close>

theorem host_port_roundtrip:
  assumes "host \<noteq> []" "\<not> is_ws (hd host)" "hd host \<noteq> CHR ''[''" "port < 2 ^ 16"
  shows "(CHR '':'' \<notin> set host \<longrightarrow> parse_host_port (host @ '':'' @ show_nat port) = (host, of_nat port)) \<and>
     (CHR '']'' \<notin> set v6 \<longrightarrow> parse_host_port (''['' @ v6 @ '']:'' @ show_nat port) = (v6, of_nat port)) \<and>
     (2 \<le> count_list host CHR '':'' \<and> \<not> is_ws (last host) \<longrightarrow> parse_host_port host = (host, 8888))"
proof (intro conjI impI)
  have last_digit: "\<not> is_ws (last (xs @ show_nat port))" for xs
    using show_nat_last [of port] show_nat_digits(2) [of port] by (simp add: digit_not_ws)
  have nc: "CHR '':'' \<notin> set (show_nat port)" by (simp add: show_nat_notin)
  have port: "port_or_default (show_nat port) = of_nat port"
    using assms(4) by (simp add: port_or_default_def)
  have sp: "strip_prefix CHR ''['' (host @ xs) = None" for xs using assms(1,3) by (cases host) auto
  {
    assume h: "CHR '':'' \<notin> set host"
    let ?a = "host @ '':'' @ show_nat port"
    have "trim ?a = ?a" using assms(1,2) last_digit [of "host @ '':''"] by (intro trim_id) auto
    moreover have "length (filter (\<lambda>c. c = CHR '':'') ?a) = 1"
      using h nc by (simp add: filter_empty_conv) metis
    moreover have "split_last CHR '':'' ?a = Some (host, show_nat port)"
      using split_last_append [OF nc, of host] by simp
    ultimately show "parse_host_port ?a = (host, of_nat port)"
      unfolding parse_host_port_def Let_def using sp [of "'':'' @ show_nat port"] port
      by (simp add: parse_unbracketed_def)
  }
  {
    assume h: "CHR '']'' \<notin> set v6"
    let ?a = "''['' @ v6 @ '']:'' @ show_nat port"
    have "trim ?a = ?a" using last_digit [of "''['' @ v6 @ '']:''"] by (intro trim_id) (auto simp: is_ws_def)
    moreover have "split_first CHR '']'' (v6 @ '']:'' @ show_nat port) = Some (v6, '':'' @ show_nat port)"
      using split_first_append [OF h, of "'':'' @ show_nat port"] by simp
    ultimately show "parse_host_port ?a = (v6, of_nat port)"
      unfolding parse_host_port_def Let_def using port by simp
  }
  {
    assume h: "2 \<le> count_list host CHR '':'' \<and> \<not> is_ws (last host)"
    have "trim host = host" using assms(1,2) h by (intro trim_id) auto
    moreover have "count_list host CHR '':'' = length (filter (\<lambda>c. c = CHR '':'') host)"
      by (induction host) auto
    ultimately show "parse_host_port host = (host, 8888)"
      unfolding parse_host_port_def Let_def using sp [of "[]"] h by (simp add: parse_unbracketed_def)
  }
qed

theorem host_port_roundtrip_witness:
  "parse_host_port (''myhost'' @ '':'' @ show_nat 1234) = (''myhost'', of_nat 1234) \<and>
   parse_host_port (''['' @ ''2001:db8::1'' @ '']:'' @ show_nat 1234) = (''2001:db8::1'', of_nat 1234)"
  using host_port_roundtrip [of "''myhost''" 1234 "''2001:db8::1''"] by (simp add: is_ws_def)

end
