(* ===== verification/Load_Rules.thy ===== *)
theory Load_Rules
  imports Hash_Map Text
begin

text \<open>
  The rule chain of ferrodruid-loadrules: which tiers a segment is loaded on, or that it is dropped
  or broadcast. Instants and durations are integers (milliseconds). The chrono crate is the record
  \<open>chrono\<close> of its operations the code calls; what the crate documents of them is the predicate
  \<open>chrono_ok\<close>. The operator \<open>-\<close> of chrono aborts when the instant leaves the representable range,
  so \<open>now - dur\<close> can be the value \<open>Panic\<close>.
\<close>

section \<open>The clock library\<close>

record chrono =
  ch_datetime :: "string \<Rightarrow> int option"
  ch_date :: "string \<Rightarrow> int option"
  ch_try_days :: "int \<Rightarrow> int option"
  ch_try_hours :: "int \<Rightarrow> int option"
  ch_checked_sub :: "int \<Rightarrow> int \<Rightarrow> int option"

definition hour_ms :: int where "hour_ms = 3600000"

definition day_ms :: int where "day_ms = 86400000"

text \<open>Documented: the constructors and the subtraction are exact whenever they return a value.\<close>

definition chrono_ok :: "chrono \<Rightarrow> bool" where
  "chrono_ok c \<longleftrightarrow>
     (\<forall>n d. ch_try_days c n = Some d \<longrightarrow> d = n * day_ms) \<and>
     (\<forall>n d. ch_try_hours c n = Some d \<longrightarrow> d = n * hour_ms) \<and>
     (\<forall>t d r. ch_checked_sub c t d = Some r \<longrightarrow> r = t - d)"

definition instant_sub :: "chrono \<Rightarrow> int \<Rightarrow> int \<Rightarrow> (int, 'e) res" where
  "instant_sub c t d = (case ch_checked_sub c t d of Some r \<Rightarrow> Ok r | None \<Rightarrow> panic)"

section \<open>Data\<close>

record interval =
  iv_start :: int
  iv_end :: int

datatype load_rule_error =
    ExpectedInterval
  | InvalidStart
  | InvalidEnd
  | StartNotBeforeEnd
  | PeriodPrefix
  | InvalidPeriodNumber
  | PeriodOutOfRange
  | UnsupportedPeriod

datatype rule_action =
    RaLoad "(string \<times> nat) list"
  | RaDrop
  | RaBroadcast
  | RaNoMatch

datatype load_rule =
    LoadForever "(string, nat) hash_map"
  | LoadByInterval string "(string, nat) hash_map"
  | LoadByPeriod string "bool option" "(string, nat) hash_map"
  | DropForever
  | DropByInterval string
  | DropByPeriod string "bool option"
  | BroadcastForever
  | BroadcastByInterval string
  | BroadcastByPeriod string "bool option"

section \<open>Helpers\<close>

text \<open>A \<open>BTreeMap\<close> is the list of its entries in key order.\<close>

definition btree_of :: "('k :: linorder, 'v) hash_map \<Rightarrow> ('k \<times> 'v) list" where
  "btree_of m = sort_key fst m"

definition load_action :: "(string, nat) hash_map \<Rightarrow> rule_action" where
  "load_action tier_replicants =
     (if tier_replicants = [] then RaLoad [(''_default_tier'', 1)] else RaLoad (btree_of tier_replicants))"

definition rule_interval_bound :: "chrono \<Rightarrow> string \<Rightarrow> int option" where
  "rule_interval_bound c s =
     (let s = trim s in case ch_datetime c s of Some dt \<Rightarrow> Some dt | None \<Rightarrow> ch_date c s)"

definition parse_interval :: "chrono \<Rightarrow> string \<Rightarrow> (interval, load_rule_error) res" where
  "parse_interval c s =
     (case split_first CHR ''/'' s of
        None \<Rightarrow> fail ExpectedInterval
      | Some (a, b) \<Rightarrow>
          (case rule_interval_bound c a of
             None \<Rightarrow> fail InvalidStart
           | Some start \<Rightarrow>
               (case rule_interval_bound c b of
                  None \<Rightarrow> fail InvalidEnd
                | Some end' \<Rightarrow>
                    if end' \<le> start then fail StartNotBeforeEnd
                    else Ok \<lparr>iv_start = start, iv_end = end'\<rparr>)))"

definition i64_checked_mul :: "int \<Rightarrow> int \<Rightarrow> int option" where
  "i64_checked_mul a b = (if - (2 ^ 63) \<le> a * b \<and> a * b < 2 ^ 63 then Some (a * b) else None)"

definition or_overflow :: "int option \<Rightarrow> (int, load_rule_error) res" where
  "or_overflow r = (case r of Some d \<Rightarrow> Ok d | None \<Rightarrow> fail PeriodOutOfRange)"

definition period_number :: "string \<Rightarrow> (int, load_rule_error) res" where
  "period_number s = (case parse_i64 s of Some n \<Rightarrow> Ok n | None \<Rightarrow> fail InvalidPeriodNumber)"

definition parse_period :: "chrono \<Rightarrow> string \<Rightarrow> (int, load_rule_error) res" where
  "parse_period c s =
     (case strip_prefix CHR ''P'' (trim s) of
        None \<Rightarrow> fail PeriodPrefix
      | Some rest \<Rightarrow>
          (case Option.bind (strip_prefix CHR ''T'' rest) (strip_suffix CHR ''H'') of
             Some h \<Rightarrow> bind (period_number h) (\<lambda>hours. or_overflow (ch_try_hours c hours))
           | None \<Rightarrow>
          (case strip_suffix CHR ''D'' rest of
             Some d \<Rightarrow> bind (period_number d) (\<lambda>days. or_overflow (ch_try_days c days))
           | None \<Rightarrow>
          (case strip_suffix CHR ''M'' rest of
             Some m \<Rightarrow> bind (period_number m) (\<lambda>months.
               or_overflow (Option.bind (i64_checked_mul months 30) (ch_try_days c)))
           | None \<Rightarrow>
          (case strip_suffix CHR ''Y'' rest of
             Some y \<Rightarrow> bind (period_number y) (\<lambda>years.
               or_overflow (Option.bind (i64_checked_mul years 365) (ch_try_days c)))
           | None \<Rightarrow> fail UnsupportedPeriod)))))"

definition iv_overlap :: "interval \<Rightarrow> interval \<Rightarrow> bool" where
  "iv_overlap a b \<longleftrightarrow> iv_start a < iv_end b \<and> iv_start b < iv_end a"

definition segment_in_period :: "interval \<Rightarrow> int \<Rightarrow> int \<Rightarrow> bool \<Rightarrow> bool" where
  "segment_in_period segment cutoff now include_future =
     (if iv_end segment \<le> cutoff then False
      else if \<not> include_future \<and> now < iv_start segment then False
      else True)"

section \<open>Rules\<close>

definition on_interval ::
    "chrono \<Rightarrow> interval \<Rightarrow> string \<Rightarrow> rule_action \<Rightarrow> (rule_action, load_rule_error) res" where
  "on_interval c seg iv act =
     bind (parse_interval c iv) (\<lambda>rule_iv. Ok (if iv_overlap seg rule_iv then act else RaNoMatch))"

definition in_period ::
    "chrono \<Rightarrow> interval \<Rightarrow> int \<Rightarrow> string \<Rightarrow> bool \<Rightarrow> (bool, load_rule_error) res" where
  "in_period c seg now period include_fut =
     bind (parse_period c period) (\<lambda>dur. bind (instant_sub c now dur) (\<lambda>cutoff.
       Ok (segment_in_period seg cutoff now include_fut)))"

definition unwrap_or :: "'a \<Rightarrow> 'a option \<Rightarrow> 'a" where
  "unwrap_or d x = (case x of Some v \<Rightarrow> v | None \<Rightarrow> d)"

fun applies_to_segment ::
    "chrono \<Rightarrow> interval \<Rightarrow> int \<Rightarrow> load_rule \<Rightarrow> (rule_action, load_rule_error) res" where
  "applies_to_segment c seg now (LoadForever tr) = Ok (load_action tr)"
| "applies_to_segment c seg now (LoadByInterval iv tr) = on_interval c seg iv (load_action tr)"
| "applies_to_segment c seg now (LoadByPeriod p fut tr) =
     bind (in_period c seg now p (unwrap_or True fut)) (\<lambda>b. Ok (if b then load_action tr else RaNoMatch))"
| "applies_to_segment c seg now DropForever = Ok RaDrop"
| "applies_to_segment c seg now (DropByInterval iv) = on_interval c seg iv RaDrop"
| "applies_to_segment c seg now (DropByPeriod p fut) =
     bind (in_period c seg now p (unwrap_or False fut)) (\<lambda>b. Ok (if \<not> b then RaDrop else RaNoMatch))"
| "applies_to_segment c seg now BroadcastForever = Ok RaBroadcast"
| "applies_to_segment c seg now (BroadcastByInterval iv) = on_interval c seg iv RaBroadcast"
| "applies_to_segment c seg now (BroadcastByPeriod p fut) =
     bind (in_period c seg now p (unwrap_or True fut)) (\<lambda>b. Ok (if b then RaBroadcast else RaNoMatch))"

fun evaluate_rules ::
    "chrono \<Rightarrow> load_rule list \<Rightarrow> interval \<Rightarrow> int \<Rightarrow> (rule_action, load_rule_error) res" where
  "evaluate_rules c [] seg now = Ok RaDrop"
| "evaluate_rules c (rule # rules) seg now =
     bind (applies_to_segment c seg now rule) (\<lambda>act.
       if act \<noteq> RaNoMatch then Ok act else evaluate_rules c rules seg now)"

section \<open>First match wins\<close>

lemma load_action_matches [simp]: "load_action tr \<noteq> RaNoMatch"
  by (simp add: load_action_def)

text \<open>The result of a chain is the action of the first rule that matches; a chain that none matches drops.\<close>

lemma evaluate_rules_Ok:
  "evaluate_rules c rules seg now = Ok act \<longleftrightarrow>
     (\<exists>n < length rules. (\<forall>i < n. applies_to_segment c seg now (rules ! i) = Ok RaNoMatch) \<and>
        applies_to_segment c seg now (rules ! n) = Ok act \<and> act \<noteq> RaNoMatch) \<or>
     ((\<forall>rule \<in> set rules. applies_to_segment c seg now rule = Ok RaNoMatch) \<and> act = RaDrop)"
proof (induction rules)
  case (Cons r rs)
  show ?case
  proof (cases "applies_to_segment c seg now r = Ok RaNoMatch")
    case True
    then show ?thesis using Cons by (simp add: Ex_less_Suc2 All_less_Suc2) blast
  next
    case False
    then show ?thesis by (auto simp: Ex_less_Suc2 All_less_Suc2)
  qed
qed auto

lemma evaluate_rules_matched: "evaluate_rules c rules seg now = Ok act \<Longrightarrow> act \<noteq> RaNoMatch"
  by (auto simp: evaluate_rules_Ok)

section \<open>Tier maps\<close>

lemma map_of_sort_key: "distinct (map fst m) \<Longrightarrow> map_of (sort_key fst m) = map_of m"
  by (rule map_of_inject_set [THEN iffD2]) (simp_all add: distinct_map)

lemma btree_of_map: "hm_wf m \<Longrightarrow> map_of (btree_of m) = hm_get m"
  by (rule ext) (simp add: btree_of_def hm_get_def hm_wf_def hm_keys_def map_of_sort_key)

lemma btree_of_sorted: "hm_wf m \<Longrightarrow> sorted (map fst (btree_of m)) \<and> distinct (map fst (btree_of m))"
  by (simp add: btree_of_def hm_wf_def hm_keys_def distinct_map)

section \<open>Periods and intervals\<close>

lemma parse_interval_nonempty: "parse_interval c s = Ok iv \<Longrightarrow> iv_start iv < iv_end iv"
  by (auto simp: parse_interval_def split: option.splits if_splits)

lemma iv_overlap_common:
  "iv_start a < iv_end a \<Longrightarrow> iv_start b < iv_end b \<Longrightarrow>
     iv_overlap a b \<longleftrightarrow> {iv_start a..<iv_end a} \<inter> {iv_start b..<iv_end b} \<noteq> {}"
proof -
  assume a: "iv_start a < iv_end a" "iv_start b < iv_end b"
  have "iv_overlap a b \<longleftrightarrow> max (iv_start a) (iv_start b) \<in> {iv_start a..<iv_end a} \<inter> {iv_start b..<iv_end b}"
    using a by (auto simp: iv_overlap_def)
  also have "\<dots> \<longleftrightarrow> {iv_start a..<iv_end a} \<inter> {iv_start b..<iv_end b} \<noteq> {}"
    by auto
  finally show ?thesis .
qed

lemma instant_sub_exact: "chrono_ok c \<Longrightarrow> instant_sub c t d = Ok r \<Longrightarrow> r = t - d"
  by (auto simp: chrono_ok_def instant_sub_def split: option.splits)

text \<open>The period of a day, month or year count.\<close>

definition unit_days :: "char \<Rightarrow> int" where
  "unit_days u = (if u = CHR ''D'' then 1 else if u = CHR ''M'' then 30 else 365)"

lemma trim_period: "trim (CHR ''P'' # show_nat n @ [u]) = CHR ''P'' # show_nat n @ [u]" if "u \<in> {CHR ''D'', CHR ''M'', CHR ''Y''}"
  using that by (intro trim_id) (auto simp: is_ws_def)

lemma strip_prefix_show_nat: "strip_prefix CHR ''T'' (show_nat n @ xs) = None"
  using show_nat_hd [of n] by auto

lemma period_number_show: "n < 2 ^ 63 \<Longrightarrow> period_number (show_nat n) = Ok (int n)"
  by (simp add: period_number_def)

lemma strip_suffix_period:
  "strip_suffix d (show_nat n @ [u]) = (if u = d then Some (show_nat n) else None)"
  by simp

lemma parse_period_show:
  assumes u: "u \<in> {CHR ''D'', CHR ''M'', CHR ''Y''}" and n: "int n * unit_days u < 2 ^ 63"
  shows "parse_period c (CHR ''P'' # show_nat n @ [u]) = or_overflow (ch_try_days c (int n * unit_days u))"
proof -
  have "0 \<le> int n * unit_days u" "int n \<le> int n * unit_days u" using u by (auto simp: unit_days_def)
  moreover from this n have "int n < int (2 ^ 63)" by simp
  then have "n < 2 ^ 63" by (simp only: of_nat_less_iff)
  ultimately show ?thesis
    using u n unfolding parse_period_def trim_period [OF u]
    by (auto simp: strip_prefix_show_nat strip_suffix_period period_number_show unit_days_def i64_checked_mul_def)
qed

section \<open>Properties\<close>

text \<open>The operations of chrono with durations of at most \<open>2 ^ 63 - 1\<close> milliseconds and instants from the
  year -262143 on, as the crate documents them.\<close>

definition chrono_model :: "(string \<Rightarrow> int option) \<Rightarrow> chrono" where
  "chrono_model dt = \<lparr>ch_datetime = dt, ch_date = (\<lambda>s. None),
     ch_try_days = (\<lambda>n. if \<bar>n * day_ms\<bar> < 2 ^ 63 then Some (n * day_ms) else None),
     ch_try_hours = (\<lambda>n. if \<bar>n * hour_ms\<bar> < 2 ^ 63 then Some (n * hour_ms) else None),
     ch_checked_sub = (\<lambda>t d. if - 8334601228800000 \<le> t - d \<and> t - d \<le> 8210266876799999 then Some (t - d) else None)\<rparr>"

lemma chrono_model_ok: "chrono_ok (chrono_model dt)"
  by (auto simp: chrono_ok_def chrono_model_def split: if_splits)

text \<open>A rule chain gives the action of its first matching rule, where every rule before it evaluated
  without error and did not match; a chain no rule of which matches drops the segment; and a chain
  never answers that nothing matched.\<close>

theorem first_match_wins:
  "(evaluate_rules c rules seg now = Ok act \<longleftrightarrow>
     (\<exists>n < length rules. (\<forall>i < n. applies_to_segment c seg now (rules ! i) = Ok RaNoMatch) \<and>
        applies_to_segment c seg now (rules ! n) = Ok act \<and> act \<noteq> RaNoMatch) \<or>
     ((\<forall>rule \<in> set rules. applies_to_segment c seg now rule = Ok RaNoMatch) \<and> act = RaDrop)) \<and>
   evaluate_rules c rules seg now \<noteq> Ok RaNoMatch"
  using evaluate_rules_Ok [of c rules seg now act] evaluate_rules_matched [of c rules seg now RaNoMatch] by blast

theorem first_match_wins_witness:
  "evaluate_rules (chrono_model (\<lambda>s. None)) [DropForever, LoadForever []] \<lparr>iv_start = 0, iv_end = 1\<rparr> 5 = Ok RaDrop"
proof -
  let ?rs = "[DropForever, LoadForever []]"
  have "\<exists>n < length ?rs. (\<forall>i < n. applies_to_segment (chrono_model (\<lambda>s. None)) \<lparr>iv_start = 0, iv_end = 1\<rparr> 5 (?rs ! i) = Ok RaNoMatch) \<and>
      applies_to_segment (chrono_model (\<lambda>s. None)) \<lparr>iv_start = 0, iv_end = 1\<rparr> 5 (?rs ! n) = Ok RaDrop \<and> RaDrop \<noteq> RaNoMatch"
    by (rule exI [of _ 0]) simp
  then show ?thesis
    using first_match_wins [of "chrono_model (\<lambda>s. None)" ?rs "\<lparr>iv_start = 0, iv_end = 1\<rparr>" 5 RaDrop] by blast
qed

text \<open>A load rule and a drop rule with the same period and the same explicit choice for future
  segments are complementary: when the period can be evaluated, exactly one of them matches.\<close>

theorem load_drop_complement:
  assumes "applies_to_segment c seg now (LoadByPeriod p (Some fut) tr) = Ok act"
  shows "(act = load_action tr \<and> applies_to_segment c seg now (DropByPeriod p (Some fut)) = Ok RaNoMatch) \<or>
     (act = RaNoMatch \<and> applies_to_segment c seg now (DropByPeriod p (Some fut)) = Ok RaDrop)"
proof -
  from assms obtain b where b: "in_period c seg now p fut = Ok b" and act: "act = (if b then load_action tr else RaNoMatch)"
    by (auto simp: unwrap_or_def)
  then show ?thesis by (cases b) (simp_all add: unwrap_or_def)
qed

theorem load_drop_complement_witness:
  "applies_to_segment (chrono_model (\<lambda>s. None)) \<lparr>iv_start = 0, iv_end = 1\<rparr> 5 (DropByPeriod (''P'' @ show_nat 1 @ ''D'') (Some True)) = Ok RaNoMatch"
proof -
  have p: "parse_period (chrono_model (\<lambda>s. None)) (''P'' @ show_nat 1 @ ''D'') = Ok day_ms"
    using parse_period_show [of "CHR ''D''" 1 "chrono_model (\<lambda>s. None)"]
    by (simp add: unit_days_def or_overflow_def chrono_model_def day_ms_def)
  have "applies_to_segment (chrono_model (\<lambda>s. None)) \<lparr>iv_start = 0, iv_end = 1\<rparr> 5 (LoadByPeriod (''P'' @ show_nat 1 @ ''D'') (Some True) [])
      = Ok (load_action [])"
    using p by (simp add: in_period_def instant_sub_def chrono_model_def day_ms_def segment_in_period_def unwrap_or_def)
  from load_drop_complement [OF this] show ?thesis by simp
qed

text \<open>A load rule for the last \<open>n\<close> days, months of 30 days or years of 365 days that evaluates
  matches exactly the segments that end after the cutoff and, unless future segments are included,
  do not start after the present; it then loads the tiers of the rule.\<close>

theorem period_window:
  assumes "chrono_ok c" and "u \<in> {CHR ''D'', CHR ''M'', CHR ''Y''}" and "int n * unit_days u < 2 ^ 63"
    and "applies_to_segment c seg now (LoadByPeriod (''P'' @ show_nat n @ [u]) fut tr) = Ok act"
  shows "act = (if now - int n * unit_days u * day_ms < iv_end seg \<and> (fut \<noteq> Some False \<or> iv_start seg \<le> now)
     then load_action tr else RaNoMatch)"
proof -
  have pp: "parse_period c (''P'' @ show_nat n @ [u]) = or_overflow (ch_try_days c (int n * unit_days u))"
    using parse_period_show [OF assms(2,3)] by simp
  with assms(4) obtain d cut where "ch_try_days c (int n * unit_days u) = Some d" "instant_sub c now d = (Ok cut :: (int, load_rule_error) res)"
    and act: "act = (if segment_in_period seg cut now (unwrap_or True fut) then load_action tr else RaNoMatch)"
    by (auto simp: in_period_def or_overflow_def split: option.splits)
  then have "cut = now - int n * unit_days u * day_ms"
    using assms(1) instant_sub_exact [OF assms(1)] by (auto simp: chrono_ok_def)
  then show ?thesis using act by (cases fut) (auto simp: segment_in_period_def unwrap_or_def)
qed

theorem period_window_witness:
  "applies_to_segment (chrono_model (\<lambda>s. None)) \<lparr>iv_start = 0, iv_end = 1\<rparr> 5 (LoadByPeriod (''P'' @ show_nat 30 @ [CHR ''D'']) None [])
     = Ok (load_action [])"
proof -
  let ?c = "chrono_model (\<lambda>s. None)" and ?p = "''P'' @ show_nat 30 @ [CHR ''D'']"
  have p: "parse_period ?c ?p = Ok (30 * day_ms)"
    using parse_period_show [of "CHR ''D''" 30 ?c] by (simp add: unit_days_def or_overflow_def chrono_model_def day_ms_def)
  then obtain act where a: "applies_to_segment ?c \<lparr>iv_start = 0, iv_end = 1\<rparr> 5 (LoadByPeriod ?p None []) = Ok act"
    by (simp add: in_period_def instant_sub_def chrono_model_def day_ms_def)
  have "act = load_action []"
    using period_window [OF chrono_model_ok _ _ a] by (simp add: unit_days_def day_ms_def)
  with a show ?thesis by simp
qed

text \<open>Parsing a period refuses what does not fit a duration, but the cutoff is computed with an
  operator that aborts outside the range of instants: a rule with the period of 300000 years
  parses and then aborts the evaluation of the whole chain.\<close>

theorem large_period_aborts:
  "parse_period (chrono_model dt) (''P'' @ show_nat 300000 @ ''Y'') = Ok (300000 * 365 * day_ms) \<and>
   evaluate_rules (chrono_model dt) [LoadByPeriod (''P'' @ show_nat 300000 @ ''Y'') None tr, DropForever] seg 0 = panic"
proof -
  have p: "parse_period (chrono_model dt) (''P'' @ show_nat 300000 @ ''Y'') = Ok (300000 * 365 * day_ms)"
    using parse_period_show [of "CHR ''Y''" 300000 "chrono_model dt"]
    by (simp add: unit_days_def or_overflow_def chrono_model_def day_ms_def)
  then show ?thesis by (simp add: in_period_def instant_sub_def chrono_model_def day_ms_def)
qed

end
