(* ===== verification/Float64.thy ===== *)
theory Float64
  imports Text "HOL-Library.Log_Nat"
begin

text \<open>
  Floating-point numbers of the source (\<open>f64\<close> and \<open>f32\<close>): a finite value is the rational number it
  stands for, with the negative zero apart; arithmetic is exact arithmetic followed by rounding to the
  nearest representable value, ties to even. Comparisons with a NaN are false. Parsing follows the
  grammar of \<open>str::parse\<close>; printing is left to the components, as an argument.
\<close>

section \<open>Values and rounding\<close>

datatype f64 = NaN | NegInf | PosInf | NegZero | Fin rat

fun ilog2 :: "rat \<Rightarrow> int" where
  "ilog2 q =
     (let (n, d) = quotient_of q; k = bitlen n - bitlen d
      in if 2 powi k \<le> q then k else k - 1)"

text \<open>To an integer, ties to even.\<close>

definition round_even :: "rat \<Rightarrow> int" where
  "round_even q =
     (let f = floor q; r = q - of_int f
      in if r < 1 / 2 then f else if 1 / 2 < r then f + 1 else if even f then f else f + 1)"

text \<open>To a value with \<open>p\<close> bits of precision, smallest exponent \<open>emin\<close> and magnitude below \<open>2 ^ emax\<close>.\<close>

definition round_to :: "int \<Rightarrow> int \<Rightarrow> int \<Rightarrow> rat \<Rightarrow> f64" where
  "round_to p emin emax q =
     (if q = 0 then Fin 0
      else
        let e = max (ilog2 \<bar>q\<bar> - p + 1) emin;
            m = round_even (q / 2 powi e);
            v = of_int m * 2 powi e
        in if m = 0 then (if q < 0 then NegZero else Fin 0)
           else if 2 powi emax \<le> v then PosInf
           else if v \<le> - (2 powi emax) then NegInf
           else Fin v)"

definition round64 :: "rat \<Rightarrow> f64" where
  "round64 = round_to 53 (- 1074) 1024"

definition round32 :: "rat \<Rightarrow> f64" where
  "round32 = round_to 24 (- 149) 128"

section \<open>Comparison\<close>

definition is_nan :: "f64 \<Rightarrow> bool" where
  "is_nan x \<longleftrightarrow> x = NaN"

definition is_finite :: "f64 \<Rightarrow> bool" where
  "is_finite x \<longleftrightarrow> x \<noteq> NaN \<and> x \<noteq> NegInf \<and> x \<noteq> PosInf"

fun f64_val :: "f64 \<Rightarrow> rat" where
  "f64_val (Fin q) = q"
| "f64_val _ = 0"

definition f64_le :: "f64 \<Rightarrow> f64 \<Rightarrow> bool" where
  "f64_le x y \<longleftrightarrow> x \<noteq> NaN \<and> y \<noteq> NaN \<and>
     (x = NegInf \<or> y = PosInf \<or> is_finite x \<and> is_finite y \<and> f64_val x \<le> f64_val y)"

definition f64_lt :: "f64 \<Rightarrow> f64 \<Rightarrow> bool" where
  "f64_lt x y \<longleftrightarrow> x \<noteq> NaN \<and> y \<noteq> NaN \<and> \<not> f64_le y x"

definition f64_eq :: "f64 \<Rightarrow> f64 \<Rightarrow> bool" where
  "f64_eq x y \<longleftrightarrow> f64_le x y \<and> f64_le y x"

section \<open>Arithmetic\<close>

text \<open>A zero sum is negative only for two negative zeros; \<open>rnd\<close> rounds the exact sum.\<close>

definition float_add :: "(rat \<Rightarrow> f64) \<Rightarrow> f64 \<Rightarrow> f64 \<Rightarrow> f64" where
  "float_add rnd x y =
     (if x = NaN \<or> y = NaN then NaN
      else if x = PosInf then (if y = NegInf then NaN else PosInf)
      else if x = NegInf then (if y = PosInf then NaN else NegInf)
      else if y = PosInf \<or> y = NegInf then y
      else if x = NegZero \<and> y = NegZero then NegZero
      else rnd (f64_val x + f64_val y))"

definition f64_add :: "f64 \<Rightarrow> f64 \<Rightarrow> f64" where
  "f64_add = float_add round64"

definition f32_add :: "f64 \<Rightarrow> f64 \<Rightarrow> f64" where
  "f32_add = float_add round32"

fun f64_neg :: "f64 \<Rightarrow> f64" where
  "f64_neg NaN = NaN"
| "f64_neg NegInf = PosInf"
| "f64_neg PosInf = NegInf"
| "f64_neg NegZero = Fin 0"
| "f64_neg (Fin q) = (if q = 0 then NegZero else Fin (- q))"

definition f64_sub :: "f64 \<Rightarrow> f64 \<Rightarrow> f64" where
  "f64_sub x y = f64_add x (f64_neg y)"

fun f64_abs :: "f64 \<Rightarrow> f64" where
  "f64_abs NegInf = PosInf"
| "f64_abs NegZero = Fin 0"
| "f64_abs (Fin q) = Fin \<bar>q\<bar>"
| "f64_abs x = x"

definition EPSILON :: f64 where
  "EPSILON = Fin (1 / 2 ^ 52)"

definition f64_negative :: "f64 \<Rightarrow> bool" where
  "f64_negative x = (case x of NegInf \<Rightarrow> True | NegZero \<Rightarrow> True | Fin q \<Rightarrow> q < 0 | _ \<Rightarrow> False)"

definition f64_is_zero :: "f64 \<Rightarrow> bool" where
  "f64_is_zero x \<longleftrightarrow> x = NegZero \<or> x = Fin 0"

definition signed_inf :: "bool \<Rightarrow> f64" where
  "signed_inf neg = (if neg then NegInf else PosInf)"

definition signed_zero :: "bool \<Rightarrow> f64" where
  "signed_zero neg = (if neg then NegZero else Fin 0)"

definition f64_mul :: "f64 \<Rightarrow> f64 \<Rightarrow> f64" where
  "f64_mul x y =
     (let neg = (f64_negative x \<noteq> f64_negative y)
      in if x = NaN \<or> y = NaN then NaN
         else if \<not> is_finite x \<or> \<not> is_finite y then (if f64_is_zero x \<or> f64_is_zero y then NaN else signed_inf neg)
         else if f64_is_zero x \<or> f64_is_zero y then signed_zero neg
         else round64 (f64_val x * f64_val y))"

definition f64_div :: "f64 \<Rightarrow> f64 \<Rightarrow> f64" where
  "f64_div x y =
     (let neg = (f64_negative x \<noteq> f64_negative y)
      in if x = NaN \<or> y = NaN then NaN
         else if \<not> is_finite x then (if is_finite y then signed_inf neg else NaN)
         else if \<not> is_finite y then signed_zero neg
         else if f64_is_zero y then (if f64_is_zero x then NaN else signed_inf neg)
         else if f64_is_zero x then signed_zero neg
         else round64 (f64_val x / f64_val y))"

text \<open>The remainder has the sign of the dividend and is exact.\<close>

definition f64_rem :: "f64 \<Rightarrow> f64 \<Rightarrow> f64" where
  "f64_rem x y =
     (if x = NaN \<or> y = NaN \<or> \<not> is_finite x \<or> f64_is_zero y then NaN
      else if \<not> is_finite y \<or> f64_is_zero x then x
      else
        let q = f64_val x / f64_val y;
            r = f64_val x - f64_val y * of_int (if q < 0 then - floor (- q) else floor q)
        in if r = 0 then signed_zero (f64_negative x) else Fin r)"

section \<open>Conversions\<close>

definition f64_of_int :: "int \<Rightarrow> f64" where
  "f64_of_int n = round64 (of_int n)"

text \<open>\<open>as f32\<close> of a double.\<close>

fun to_f32 :: "f64 \<Rightarrow> f64" where
  "to_f32 (Fin q) = round32 q"
| "to_f32 x = x"

text \<open>\<open>trunc() as i64\<close>, which saturates.\<close>

definition trunc_i64 :: "f64 \<Rightarrow> int" where
  "trunc_i64 x =
     (case x of
        NaN \<Rightarrow> 0
      | PosInf \<Rightarrow> 2 ^ 63 - 1
      | NegInf \<Rightarrow> - (2 ^ 63)
      | NegZero \<Rightarrow> 0
      | Fin q \<Rightarrow> max (- (2 ^ 63)) (min (2 ^ 63 - 1) (if q < 0 then - floor (- q) else floor q)))"

section \<open>Parsing\<close>

definition to_lowercase :: "string \<Rightarrow> string" where
  "to_lowercase s = map (\<lambda>c. if CHR ''A'' \<le> c \<and> c \<le> CHR ''Z'' then char_of (of_char c + 32 :: nat) else c) s"

text \<open>An exponent: empty, or the letter, an optional sign and at least one digit.\<close>

definition parse_exponent :: "string \<Rightarrow> int option" where
  "parse_exponent s =
     (case s of
        [] \<Rightarrow> Some 0
      | c # cs \<Rightarrow>
          if c \<noteq> CHR ''e'' \<and> c \<noteq> CHR ''E'' then None
          else
            let (neg, ds) = (case cs of
                 x # xs \<Rightarrow> if x = CHR ''-'' then (True, xs) else if x = CHR ''+'' then (False, xs) else (False, cs)
               | [] \<Rightarrow> (False, cs))
            in if ds \<noteq> [] \<and> list_all is_digit ds then Some (if neg then - int (decimal ds) else int (decimal ds)) else None)"

text \<open>Digits with at most one point, at least one digit, and an exponent: the rational value.\<close>

definition parse_number :: "string \<Rightarrow> rat option" where
  "parse_number s =
     (let a = takeWhile is_digit s;
          r = dropWhile is_digit s;
          (b, r') = (case r of c # cs \<Rightarrow> if c = CHR ''.'' then (takeWhile is_digit cs, dropWhile is_digit cs) else ([], r) | [] \<Rightarrow> ([], r))
      in if a = [] \<and> b = [] then None
         else map_option (\<lambda>e. of_nat (decimal (a @ b)) * 10 powi (e - int (length b))) (parse_exponent r'))"

definition parse_f64 :: "string \<Rightarrow> f64 option" where
  "parse_f64 s =
     (let (neg, r) = (case s of
            c # cs \<Rightarrow> if c = CHR ''-'' then (True, cs) else if c = CHR ''+'' then (False, cs) else (False, s)
          | [] \<Rightarrow> (False, s))
      in if to_lowercase r \<in> {''inf'', ''infinity''} then Some (if neg then NegInf else PosInf)
         else if to_lowercase r = ''nan'' then Some NaN
         else map_option (\<lambda>q. if neg then f64_neg (round64 q) else round64 q) (parse_number r))"

section \<open>Facts\<close>

lemma f64_lt_iff: "x \<noteq> NaN \<Longrightarrow> y \<noteq> NaN \<Longrightarrow> f64_lt x y \<longleftrightarrow> \<not> f64_le y x"
  by (simp add: f64_lt_def)

lemma round64_zero [simp]: "round64 0 = Fin 0"
  by (simp add: round64_def round_to_def)

lemma round_even_int: "q = of_int n \<Longrightarrow> round_even q = n"
  by (simp add: round_even_def)

text \<open>Integers of at most 53 significant bits are represented exactly.\<close>

lemma ilog2_int:
  assumes "0 < n" and "n < 2 ^ (53 + k)"
  shows "ilog2 (of_int n) \<le> 52 + int k"
proof -
  have "quotient_of (of_int n :: rat) = (n, 1)"
    using quotient_of_int [of n] by (simp add: Rat.of_int_def)
  moreover have "bitlen n \<le> 53 + int k" using bitlen_le_iff_power [of n "53 + int k"] assms by (simp add: nat_add_distrib)
  moreover have "bitlen 1 = 1" by (simp add: bitlen_def floorlog_def)
  ultimately show ?thesis by (simp add: Let_def)
qed

lemma round64_exact:
  assumes "\<bar>a\<bar> < 2 ^ 53" and "\<bar>a * 2 ^ k\<bar> < 2 ^ 1024"
  shows "round64 (of_int (a * 2 ^ k)) = Fin (of_int (a * 2 ^ k))"
proof (cases "a = 0")
  case False
  define n where "n = a * 2 ^ k"
  define e where "e = max (ilog2 \<bar>of_int n :: rat\<bar> - 53 + 1) (- 1074)"
  have n0: "n \<noteq> 0" using False by (simp add: n_def)
  have "\<bar>n\<bar> < 2 ^ (53 + k)" using assms(1) by (simp add: n_def abs_mult power_add)
  then have "ilog2 (of_int \<bar>n\<bar>) \<le> 52 + int k" using ilog2_int [of "\<bar>n\<bar>" k] n0 by simp
  then have "e \<le> int k" by (simp add: e_def)
  then obtain d where d: "e = int k - int d" using that [of "nat (int k - e)"] by simp
  have scaled: "(of_int n :: rat) / 2 powi e = of_int (a * 2 ^ d)"
    unfolding d n_def by (simp add: power_int_diff field_simps)
  have m: "round_even (of_int n / 2 powi e) = a * 2 ^ d" using scaled by (rule round_even_int)
  have v: "(of_int (a * 2 ^ d) :: rat) * 2 powi e = of_int n"
    unfolding d n_def by (simp add: power_int_diff field_simps)
  have "\<bar>of_int n :: rat\<bar> < of_int (2 ^ 1024)" using assms(2) by (metis n_def of_int_abs of_int_less_iff)
  then have "\<bar>of_int n :: rat\<bar> < 2 powi 1024" by simp
  then have "\<not> (2 powi 1024 \<le> (of_int n :: rat))" "\<not> (of_int n \<le> - (2 powi 1024 :: rat))" by linarith+
  moreover have "round64 (of_int n) = Fin (of_int n)" if "\<not> (2 powi 1024 \<le> (of_int n :: rat))" "\<not> (of_int n \<le> - (2 powi 1024 :: rat))"
    unfolding round64_def round_to_def Let_def e_def [symmetric] m v using that n0 False by simp
  ultimately show ?thesis unfolding n_def by blast
qed simp

lemma f64_of_int_exact:
  assumes "\<bar>n\<bar> < 2 ^ 53"
  shows "f64_of_int n = Fin (of_int n)"
proof -
  have "\<bar>n\<bar> < 2 ^ 1024" by (rule less_trans [OF assms]) simp
  then show ?thesis using round64_exact [OF assms, of 0] by (simp add: f64_of_int_def)
qed

text \<open>Rounding is symmetric.\<close>

lemma round_even_neg: "round_even (- q) = - round_even q"
proof -
  define f where "f = floor q"
  define r where "r = q - of_int f"
  have q: "q = of_int f + r" and r: "0 \<le> r" "r < 1"
    using of_int_floor_le [of q] floor_correct [of q] by (auto simp: r_def f_def)
  show ?thesis
  proof (cases "r = 0")
    case True
    then show ?thesis using q by (simp add: round_even_def)
  next
    case False
    then have "floor (- q) = - f - 1" using q r by (intro floor_unique) auto
    moreover have "floor q = f" by (simp add: f_def)
    ultimately show ?thesis using q r False by (auto simp: round_even_def Let_def)
  qed
qed

lemma round64_neg:
  assumes "q \<noteq> 0"
  shows "round64 (- q) = f64_neg (round64 q)"
proof -
  define e where "e = max (ilog2 \<bar>q\<bar> - 53 + 1) (- 1074)"
  define m where "m = round_even (q / 2 powi e)"
  have m: "round_even (- q / 2 powi e) = - m" using round_even_neg [of "q / 2 powi e"] by (simp add: m_def)
  have big: "(0::rat) < 2 powi 1024" by simp
  have zero: "of_int m * (2 powi e :: rat) = 0 \<longleftrightarrow> m = 0" by simp
  have l: "round64 (- q) = (let v = of_int (- m) * 2 powi e in
      if - m = 0 then (if - q < 0 then NegZero else Fin 0)
      else if 2 powi 1024 \<le> v then PosInf else if v \<le> - (2 powi 1024) then NegInf else Fin v)"
    using assms m unfolding round64_def round_to_def Let_def abs_minus_cancel e_def [symmetric] by simp
  have r: "round64 q = (let v = of_int m * 2 powi e in
      if m = 0 then (if q < 0 then NegZero else Fin 0)
      else if 2 powi 1024 \<le> v then PosInf else if v \<le> - (2 powi 1024) then NegInf else Fin v)"
    using assms unfolding round64_def round_to_def Let_def e_def [symmetric] m_def [symmetric] by simp
  show ?thesis unfolding l r Let_def using assms big zero by (auto simp: not_le)
qed

text \<open>Decimal integers are read as the nearest value.\<close>

lemma parse_number_show_nat: "parse_number (show_nat n) = Some (of_nat n)"
proof -
  have digits: "takeWhile is_digit (show_nat n) = show_nat n" "dropWhile is_digit (show_nat n) = []"
    using show_nat_digits(1) [of n] by (auto simp: list_all_iff)
  show ?thesis unfolding parse_number_def digits Let_def by (simp add: parse_exponent_def show_nat_digits)
qed

lemma parse_f64_show_nat: "parse_f64 (show_nat n) = Some (f64_of_int (int n))"
proof -
  obtain c cs where w: "show_nat n = c # cs" and c: "is_digit c" using show_nat_hd by blast
  have sign: "c \<noteq> CHR ''-''" "c \<noteq> CHR ''+''" using c by auto
  have "hd (to_lowercase (c # cs)) = c" using c by (auto simp: to_lowercase_def is_digit_def less_eq_char_def)
  then have "hd (to_lowercase (show_nat n)) = c" by (simp add: w)
  then have name: "to_lowercase (show_nat n) \<notin> {''inf'', ''infinity''}" "to_lowercase (show_nat n) \<noteq> ''nan''"
    using c by (auto simp: is_digit_def less_eq_char_def)
  show ?thesis using sign name w parse_number_show_nat [of n] by (simp add: parse_f64_def f64_of_int_def)
qed

lemma parse_f64_negative:
  assumes "0 < n"
  shows "parse_f64 (CHR ''-'' # show_nat n) = Some (f64_of_int (- int n))"
proof -
  obtain c cs where w: "show_nat n = c # cs" and c: "is_digit c" using show_nat_hd by blast
  have "hd (to_lowercase (c # cs)) = c" using c by (auto simp: to_lowercase_def is_digit_def less_eq_char_def)
  then have "hd (to_lowercase (show_nat n)) = c" by (simp add: w)
  then have name: "to_lowercase (show_nat n) \<notin> {''inf'', ''infinity''}" "to_lowercase (show_nat n) \<noteq> ''nan''"
    using c by (auto simp: is_digit_def less_eq_char_def)
  have "round64 (- (of_nat n)) = f64_neg (round64 (of_nat n))" using assms by (intro round64_neg) simp
  then show ?thesis using name by (simp add: parse_f64_def parse_number_show_nat f64_of_int_def)
qed

text \<open>Integers beyond the largest value round to infinity.\<close>

lemma round_even_ge: "of_int n \<le> q \<Longrightarrow> n \<le> round_even q"
  unfolding round_even_def Let_def using le_floor_iff [of n q] by auto

lemma ilog2_int_le:
  assumes "0 < n"
  shows "2 powi ilog2 (of_int n) \<le> (of_int n :: rat)"
proof -
  have "quotient_of (of_int n :: rat) = (n, 1)" using quotient_of_int [of n] by (simp add: Rat.of_int_def)
  moreover have "bitlen 1 = 1" by (simp add: bitlen_def floorlog_def)
  moreover have le: "2 powi (bitlen n - 1) \<le> (of_int n :: rat)"
  proof -
    have "0 < bitlen n" using assms bitlen_bounds [OF assms] bitlen_nonneg [of n] by (cases "bitlen n = 0") auto
    then have "2 powi (bitlen n - 1) = (of_int (2 ^ nat (bitlen n - 1)) :: rat)"
      by (simp add: power_int_def)
    also have "\<dots> \<le> of_int n" using bitlen_bounds [OF assms] by (simp only: of_int_le_iff)
    finally show ?thesis .
  qed
  ultimately show ?thesis by (simp add: Let_def)
qed

lemma round64_overflow:
  assumes "2 ^ 1024 \<le> n"
  shows "round64 (of_int n) = PosInf"
proof -
  have pos: "0 < n" using assms by (smt (verit) zero_less_power)
  define e where "e = max (ilog2 \<bar>of_int n :: rat\<bar> - 53 + 1) (- 1074)"
  define m where "m = round_even ((of_int n :: rat) / 2 powi e)"
  have big: "2 powi 1024 \<le> (of_int n :: rat)"
  proof -
    have "(2 powi 1024 :: rat) = of_int (2 ^ 1024)" by simp
    also have "\<dots> \<le> of_int n" using assms by (simp only: of_int_le_iff)
    finally show ?thesis .
  qed
  have "2 powi 1024 \<le> of_int m * (2 powi e :: rat)"
  proof (cases "e \<le> 1024")
    case True
    then have p: "2 powi (1024 - e) = (of_int (2 ^ nat (1024 - e)) :: rat)" by (simp add: power_int_def)
    have split: "2 powi 1024 = (2 powi (1024 - e) * 2 powi e :: rat)" by (simp flip: power_int_add)
    then have "of_int (2 ^ nat (1024 - e)) \<le> (of_int n :: rat) / 2 powi e"
      using big p by (simp add: pos_le_divide_eq)
    then have "2 ^ nat (1024 - e) \<le> m" unfolding m_def by (rule round_even_ge)
    then have "(2 powi (1024 - e) :: rat) \<le> of_int m" unfolding p by (simp only: of_int_le_iff)
    then show ?thesis unfolding split by (simp add: mult_right_mono)
  next
    case False
    then have e: "e \<le> ilog2 (of_int n :: rat)" using pos by (auto simp: e_def max_def split: if_splits)
    have "2 powi e \<le> (2 powi ilog2 (of_int n :: rat) :: rat)" using e by (simp add: power_int_increasing del: ilog2.simps)
    also have "\<dots> \<le> of_int n" using pos by (rule ilog2_int_le)
    finally have "of_int 1 \<le> (of_int n :: rat) / 2 powi e" by (simp add: pos_le_divide_eq)
    then have "1 \<le> m" unfolding m_def by (rule round_even_ge)
    then have "2 powi e \<le> of_int m * (2 powi e :: rat)"
      using mult_right_mono [of 1 "of_int m :: rat" "2 powi e"] by simp
    moreover have "2 powi 1024 \<le> (2 powi e :: rat)" using False by (intro power_int_increasing) auto
    ultimately show ?thesis by linarith
  qed
  moreover have "m \<noteq> 0" using calculation by (auto simp: not_le)
  ultimately show ?thesis
    using pos unfolding round64_def round_to_def Let_def e_def [symmetric] m_def [symmetric] by simp
qed

text \<open>Integers of 64 bits are far from overflowing.\<close>

lemma round_even_near: "\<bar>of_int (round_even q) - q\<bar> \<le> 1"
  unfolding round_even_def Let_def using floor_correct [of q] by auto

lemma f64_of_int_finite:
  assumes "\<bar>n\<bar> \<le> 2 ^ 64"
  shows "is_finite (f64_of_int n)"
proof (cases "n = 0")
  case False
  define e where "e = max (ilog2 \<bar>of_int n :: rat\<bar> - 53 + 1) (- 1074)"
  define m where "m = round_even ((of_int n :: rat) / 2 powi e)"
  have n: "1 \<le> \<bar>of_int n :: rat\<bar>" "\<bar>of_int n :: rat\<bar> \<le> 2 ^ 64"
    using False assms by (simp, metis of_int_abs of_int_le_iff of_int_numeral of_int_power)
  have "2 powi e \<le> \<bar>of_int n :: rat\<bar>"
  proof (cases "e = - 1074")
    case True
    have "2 powi e \<le> (2 powi 0 :: rat)" using True by (intro power_int_increasing) auto
    then show ?thesis using n(1) by (simp del: of_int_abs)
  next
    case False
    then have "e \<le> ilog2 (of_int \<bar>n\<bar> :: rat)" by (auto simp: e_def max_def split: if_splits)
    then have "2 powi e \<le> (2 powi ilog2 (of_int \<bar>n\<bar> :: rat) :: rat)" by (intro power_int_increasing) auto
    also have "\<dots> \<le> of_int \<bar>n\<bar>" using \<open>n \<noteq> 0\<close> by (intro ilog2_int_le) simp
    finally show ?thesis by simp
  qed
  moreover have "\<bar>of_int m * 2 powi e - (of_int n :: rat)\<bar> \<le> 2 powi e"
  proof -
    have "of_int m * 2 powi e - (of_int n :: rat) = (of_int m - of_int n / 2 powi e) * 2 powi e"
      by (simp add: left_diff_distrib)
    then show ?thesis using round_even_near [of "of_int n / 2 powi e :: rat"]
      by (simp add: m_def abs_mult mult_left_le_one_le)
  qed
  ultimately have "\<bar>of_int m * 2 powi e :: rat\<bar> \<le> 2 ^ 65" using n by (simp add: abs_le_iff) linarith
  moreover have "(2 ^ 65 :: rat) < 2 powi 1024" by simp
  ultimately have "\<not> 2 powi 1024 \<le> of_int m * (2 powi e :: rat)" "\<not> of_int m * (2 powi e :: rat) \<le> - (2 powi 1024)"
    by linarith+
  then show ?thesis
    using False unfolding f64_of_int_def round64_def round_to_def Let_def e_def [symmetric] m_def [symmetric]
    by (simp add: is_finite_def)
qed (simp add: f64_of_int_def is_finite_def)

end
