(* ===== verification/Json.thy ===== *)
theory Json
  imports Float64
begin

text \<open>
  JSON values as the serde_json crate hands them to the code: a number is a non-negative or a
  negative integer of 64 bits or a finite float; an object is its list of members. Only the accessors
  the components call are here, with the constructors of numbers and the equality of values (which
  compares floats as floats).
\<close>

datatype json_number =
    PosInt u64
  | NegInt int
  | Float f64

datatype json =
    JNull
  | JBool bool
  | JNumber json_number
  | JString string
  | JArray "json list"
  | JObject "(string \<times> json) list"

fun json_get :: "json \<Rightarrow> string \<Rightarrow> json option" where
  "json_get (JObject o') key = map_of o' key"
| "json_get _ key = None"

fun json_as_str :: "json \<Rightarrow> string option" where
  "json_as_str (JString s) = Some s"
| "json_as_str _ = None"

definition json_is_string :: "json \<Rightarrow> bool" where
  "json_is_string v \<longleftrightarrow> json_as_str v \<noteq> None"

fun number_as_u64 :: "json_number \<Rightarrow> u64 option" where
  "number_as_u64 (PosInt n) = Some n"
| "number_as_u64 _ = None"

fun number_as_i64 :: "json_number \<Rightarrow> int option" where
  "number_as_i64 (PosInt n) = (if uint n < 2 ^ 63 then Some (uint n) else None)"
| "number_as_i64 (NegInt n) = Some n"
| "number_as_i64 (Float _) = None"

fun json_as_i64 :: "json \<Rightarrow> int option" where
  "json_as_i64 (JNumber n) = number_as_i64 n"
| "json_as_i64 _ = None"

definition number_from_i64 :: "int \<Rightarrow> json_number" where
  "number_from_i64 n = (if 0 \<le> n then PosInt (of_int n) else NegInt n)"

definition number_from_f64 :: "f64 \<Rightarrow> json_number option" where
  "number_from_f64 x = (if is_finite x then Some (Float x) else None)"

fun number_as_f64 :: "json_number \<Rightarrow> f64" where
  "number_as_f64 (PosInt n) = f64_of_int (uint n)"
| "number_as_f64 (NegInt n) = f64_of_int n"
| "number_as_f64 (Float x) = x"

fun json_as_f64 :: "json \<Rightarrow> f64 option" where
  "json_as_f64 (JNumber n) = Some (number_as_f64 n)"
| "json_as_f64 _ = None"

fun json_as_u64 :: "json \<Rightarrow> u64 option" where
  "json_as_u64 (JNumber n) = number_as_u64 n"
| "json_as_u64 _ = None"

definition json_is_null :: "json \<Rightarrow> bool" where
  "json_is_null v \<longleftrightarrow> v = JNull"

definition json_from_f64 :: "f64 \<Rightarrow> json" where
  "json_from_f64 x = (case number_from_f64 x of None \<Rightarrow> JNull | Some n \<Rightarrow> JNumber n)"

fun number_eq :: "json_number \<Rightarrow> json_number \<Rightarrow> bool" where
  "number_eq (Float x) (Float y) = f64_eq x y"
| "number_eq a b = (a = b)"

fun json_eq :: "json \<Rightarrow> json \<Rightarrow> bool"
  and json_eqs :: "json list \<Rightarrow> json list \<Rightarrow> bool"
  and member_eqs :: "(string \<times> json) list \<Rightarrow> (string \<times> json) list \<Rightarrow> bool" where
  "json_eq (JNumber a) (JNumber b) = number_eq a b"
| "json_eq (JArray as) (JArray bs) = json_eqs as bs"
| "json_eq (JObject as) (JObject bs) = member_eqs as bs"
| "json_eq a b = (a = b)"
| "json_eqs [] [] = True"
| "json_eqs (a # as) (b # bs) = (json_eq a b \<and> json_eqs as bs)"
| "json_eqs _ _ = False"
| "member_eqs [] [] = True"
| "member_eqs ((k, a) # as) ((l, b) # bs) = (k = l \<and> json_eq a b \<and> member_eqs as bs)"
| "member_eqs _ _ = False"

end
