(* ===== verification/Coordinator.thy ===== *)
theory Coordinator
  imports Complex_Main Load_Rules Json
begin

text \<open>
  The segment balancer of ferrodruid-coordinator: the server registry with its byte accounting
  (\<open>server.rs\<close>), the desired placement of a segment (\<open>rules.rs\<close>), and the balancing and
  rebalancing cycles (\<open>lib.rs\<close>). Byte counts are 64-bit words with the saturating operations of
  the source. A cycle changes the placement under both write locks of the coordinator, so it is one
  function on the state; that no other operation comes between the registration of new servers, the
  look at the registry and the start of the cycle proper is an assumption of the model. The action
  vector the source threads through the helpers is a field of the state \<open>bal\<close>.

  The metadata store and the JSON reader of rules are records of what they return. The placement
  score is floating-point arithmetic; it enters as \<open>float_env\<close> (division of two sizes, the score of
  a placement, the comparison that asks for a minimal improvement), finite floats being rationals.
\<close>

section \<open>Saturating arithmetic\<close>

definition sat_add :: "u64 \<Rightarrow> u64 \<Rightarrow> u64" where
  "sat_add a b = (if a + b < a then - 1 else a + b)"

definition sat_sub :: "u64 \<Rightarrow> u64 \<Rightarrow> u64" where
  "sat_sub a b = (if b \<le> a then a - b else 0)"

section \<open>Servers\<close>

record server_info =
  si_name :: string
  si_host :: string
  si_port :: u16
  si_tier :: string
  si_max_size :: u64
  si_current_size :: u64

type_synonym registry = "(string, server_info) hash_map"

definition DEFAULT_SEGMENT_SIZE_BYTES :: u64 where
  "DEFAULT_SEGMENT_SIZE_BYTES = 1"

record segment_row =
  sr_id :: string
  sr_data_source :: string
  sr_start :: string
  sr_end :: string
  sr_payload :: json

definition segment_size_bytes :: "segment_row \<Rightarrow> u64" where
  "segment_size_bytes segment =
     (case json_get (sr_payload segment) ''size'' of
        Some (JNumber n) \<Rightarrow>
          (case number_as_u64 n of
             Some v \<Rightarrow> v
           | None \<Rightarrow> (case number_as_i64 n of
               Some v \<Rightarrow> if 0 \<le> v then of_int v else DEFAULT_SEGMENT_SIZE_BYTES
             | None \<Rightarrow> DEFAULT_SEGMENT_SIZE_BYTES))
      | Some (JString s) \<Rightarrow>
          (case parse_unsigned 64 (trim s) of Some v \<Rightarrow> of_nat v | None \<Rightarrow> DEFAULT_SEGMENT_SIZE_BYTES)
      | _ \<Rightarrow> DEFAULT_SEGMENT_SIZE_BYTES)"

definition remaining :: "server_info \<Rightarrow> u64" where
  "remaining s = sat_sub (si_max_size s) (si_current_size s)"

definition can_hold :: "server_info \<Rightarrow> u64 \<Rightarrow> bool" where
  "can_hold s sz \<longleftrightarrow> sz \<le> remaining s"

definition reg_register :: "registry \<Rightarrow> server_info \<Rightarrow> registry" where
  "reg_register reg server = hm_insert (si_name server) server reg"

definition reg_update :: "registry \<Rightarrow> string \<Rightarrow> string option \<Rightarrow> u64 option \<Rightarrow> bool \<times> registry" where
  "reg_update reg name tier max_size =
     (case hm_get reg name of
        None \<Rightarrow> (False, reg)
      | Some srv \<Rightarrow>
          let srv = (case tier of Some t \<Rightarrow> srv\<lparr>si_tier := t\<rparr> | None \<Rightarrow> srv);
              srv = (case max_size of Some m \<Rightarrow> srv\<lparr>si_max_size := m\<rparr> | None \<Rightarrow> srv)
          in (True, hm_insert name srv reg))"

definition reg_list :: "registry \<Rightarrow> server_info list" where
  "reg_list reg = sort_key si_name (hm_values reg)"

definition reg_add_size :: "registry \<Rightarrow> string \<Rightarrow> u64 \<Rightarrow> registry" where
  "reg_add_size reg name sz =
     (case hm_get reg name of
        None \<Rightarrow> reg
      | Some srv \<Rightarrow> hm_insert name (srv\<lparr>si_current_size := sat_add (si_current_size srv) sz\<rparr>) reg)"

definition reg_sub_size :: "registry \<Rightarrow> string \<Rightarrow> u64 \<Rightarrow> registry" where
  "reg_sub_size reg name sz =
     (case hm_get reg name of
        None \<Rightarrow> reg
      | Some srv \<Rightarrow> hm_insert name (srv\<lparr>si_current_size := sat_sub (si_current_size srv) sz\<rparr>) reg)"

section \<open>Desired placement\<close>

datatype desired_placement =
    PlLoad "(string \<times> nat) list"
  | PlBroadcast
  | PlDrop

datatype coord_error =
    MetadataError
  | InvalidRule nat
  | RuleEvaluation load_rule_error

fun parse_rules_from :: "(json \<Rightarrow> load_rule option) \<Rightarrow> nat \<Rightarrow> json list \<Rightarrow> (load_rule list, coord_error) res" where
  "parse_rules_from rd i [] = Ok []"
| "parse_rules_from rd i (v # vs) =
     (case rd v of
        None \<Rightarrow> fail (InvalidRule i)
      | Some rule \<Rightarrow> bind (parse_rules_from rd (Suc i) vs) (\<lambda>rules. Ok (rule # rules)))"

definition parse_rules :: "(json \<Rightarrow> load_rule option) \<Rightarrow> json list \<Rightarrow> (load_rule list, coord_error) res" where
  "parse_rules rd raw = parse_rules_from rd 0 raw"

definition desired_placement ::
    "chrono \<Rightarrow> load_rule list \<Rightarrow> interval \<Rightarrow> int \<Rightarrow> (desired_placement, coord_error) res" where
  "desired_placement c rules seg now =
     (case evaluate_rules c rules seg now of
        Inl Panic \<Rightarrow> panic
      | Inl (Err e) \<Rightarrow> fail (RuleEvaluation e)
      | Inr act \<Rightarrow> Ok (case act of
            RaLoad tr \<Rightarrow> PlLoad tr
          | RaBroadcast \<Rightarrow> PlBroadcast
          | RaDrop \<Rightarrow> PlDrop
          | RaNoMatch \<Rightarrow> PlDrop))"

section \<open>Assignments\<close>

record segment_assignment =
  as_segment_id :: string
  as_data_source :: string
  as_interval :: interval
  as_tier :: string
  as_size_bytes :: u64

datatype segment_load_action =
    ActLoad string string
  | ActDrop string string

type_synonym assignments = "(string, segment_assignment list) hash_map"

record bal =
  b_asg :: assignments
  b_reg :: registry
  b_actions :: "segment_load_action list"

record float_env =
  fe_div :: "u64 \<Rightarrow> u64 \<Rightarrow> rat"
  fe_cost :: "interval \<Rightarrow> interval list \<Rightarrow> rat \<Rightarrow> rat"
  fe_improves :: "rat \<Rightarrow> rat \<Rightarrow> bool"

definition fill_ratio :: "float_env \<Rightarrow> server_info \<Rightarrow> rat" where
  "fill_ratio fe s = (if si_max_size s = 0 then 1 else min (fe_div fe (si_current_size s) (si_max_size s)) 1)"

definition clamp01 :: "rat \<Rightarrow> rat" where
  "clamp01 x = max 0 (min 1 x)"

definition fill_ratio_without :: "float_env \<Rightarrow> server_info \<Rightarrow> u64 \<Rightarrow> rat" where
  "fill_ratio_without fe s sz =
     (if si_max_size s = 0 then 1 else clamp01 (fe_div fe (sat_sub (si_current_size s) sz) (si_max_size s)))"

definition fill_ratio_with :: "float_env \<Rightarrow> server_info \<Rightarrow> u64 \<Rightarrow> rat" where
  "fill_ratio_with fe s sz =
     (if si_max_size s = 0 then 1 else clamp01 (fe_div fe (sat_add (si_current_size s) sz) (si_max_size s)))"

definition intervals_on :: "assignments \<Rightarrow> string \<Rightarrow> interval list" where
  "intervals_on asg server = map as_interval (hm_list asg server)"

definition intervals_on_excluding :: "assignments \<Rightarrow> string \<Rightarrow> string \<Rightarrow> interval list" where
  "intervals_on_excluding asg server exclude_id =
     map as_interval (filter (\<lambda>a. as_segment_id a \<noteq> exclude_id) (hm_list asg server))"

text \<open>\<open>assignments.get(name).is_some_and(|v| v.iter().any(|a| a.segment_id == id))\<close>.\<close>

definition holds :: "assignments \<Rightarrow> string \<Rightarrow> string \<Rightarrow> bool" where
  "holds asg server sid = list_ex (\<lambda>a. as_segment_id a = sid) (hm_list asg server)"

definition remove_assignment :: "string \<Rightarrow> bal \<Rightarrow> string \<Rightarrow> bal" where
  "remove_assignment sid b server =
     (case hm_get (b_asg b) server of
        None \<Rightarrow> b
      | Some l \<Rightarrow>
          (case List.extract (\<lambda>a. as_segment_id a = sid) l of
             None \<Rightarrow> b
           | Some (xs, a, ys) \<Rightarrow>
               b\<lparr>b_asg := hm_insert server (xs @ ys) (b_asg b),
                 b_reg := reg_sub_size (b_reg b) server (as_size_bytes a),
                 b_actions := b_actions b @ [ActDrop server sid]\<rparr>))"

definition drop_segment_everywhere :: "bal \<Rightarrow> string \<Rightarrow> bal" where
  "drop_segment_everywhere b sid =
     foldl (remove_assignment sid) b
       (map fst (filter (\<lambda>(k, v). list_ex (\<lambda>a. as_segment_id a = sid) v) (b_asg b)))"

definition server_tier :: "registry \<Rightarrow> string \<Rightarrow> string option" where
  "server_tier reg name = map_option si_tier (hm_get reg name)"

definition count_tier_replicas :: "bal \<Rightarrow> string \<Rightarrow> string \<Rightarrow> nat" where
  "count_tier_replicas b sid tier =
     length (filter (\<lambda>(name, v). list_ex (\<lambda>a. as_segment_id a = sid) v \<and> server_tier (b_reg b) name = Some tier)
       (b_asg b))"

definition prune_other_tiers :: "bal \<Rightarrow> string \<Rightarrow> string list \<Rightarrow> bal" where
  "prune_other_tiers b sid wanted =
     foldl (remove_assignment sid) b
       (map fst (filter (\<lambda>(name, v). list_ex (\<lambda>a. as_segment_id a = sid) v \<and>
          \<not> (case hm_get (b_reg b) name of Some s \<Rightarrow> si_tier s \<in> set wanted | None \<Rightarrow> False)) (b_asg b)))"

section \<open>Placement\<close>

definition better :: "string \<Rightarrow> rat \<Rightarrow> (string \<times> rat) option \<Rightarrow> (string \<times> rat) option" where
  "better name cost best =
     (case best of
        None \<Rightarrow> Some (name, cost)
      | Some (bn, bc) \<Rightarrow> if cost < bc \<or> cost = bc \<and> name < bn then Some (name, cost) else best)"

fun pick_loop ::
    "float_env \<Rightarrow> interval \<Rightarrow> u64 \<Rightarrow> string list \<Rightarrow> registry \<Rightarrow> assignments \<Rightarrow> server_info list
       \<Rightarrow> (string \<times> rat) option \<Rightarrow> (string \<times> rat) option" where
  "pick_loop fe iv sz exclude reg asg [] best = best"
| "pick_loop fe iv sz exclude reg asg (cand # cands) best =
     pick_loop fe iv sz exclude reg asg cands
       (if si_name cand \<in> set exclude then best
        else case hm_get reg (si_name cand) of
          None \<Rightarrow> best
        | Some live \<Rightarrow>
            if can_hold live sz then
              better (si_name cand)
                (fe_cost fe iv (intervals_on asg (si_name cand)) (fill_ratio fe live)) best
            else best)"

definition pick_best_server ::
    "float_env \<Rightarrow> interval \<Rightarrow> u64 \<Rightarrow> server_info list \<Rightarrow> string list \<Rightarrow> registry \<Rightarrow> assignments \<Rightarrow> string option" where
  "pick_best_server fe iv sz cands exclude reg asg =
     map_option fst (pick_loop fe iv sz exclude reg asg cands None)"

definition holder_names :: "assignments \<Rightarrow> string \<Rightarrow> server_info list \<Rightarrow> string list" where
  "holder_names asg sid cands = map si_name (filter (\<lambda>s. holds asg (si_name s) sid) cands)"

text \<open>Put a copy on server \<open>name\<close>: assignment, size and action.\<close>

definition place ::
    "segment_row \<Rightarrow> interval \<Rightarrow> u64 \<Rightarrow> string \<Rightarrow> bal \<Rightarrow> bal" where
  "place seg iv sz name b =
     (let tier = (case hm_get (b_reg b) name of Some s \<Rightarrow> si_tier s | None \<Rightarrow> ''_default_tier'')
      in b\<lparr>b_asg := hm_insert name (hm_list (b_asg b) name @
             [\<lparr>as_segment_id = sr_id seg, as_data_source = sr_data_source seg, as_interval = iv,
               as_tier = tier, as_size_bytes = sz\<rparr>]) (b_asg b),
           b_reg := reg_add_size (b_reg b) name sz,
           b_actions := b_actions b @ [ActLoad name (sr_id seg)]\<rparr>)"

text \<open>The \<open>while current < target\<close> loop; the first argument is \<open>target - current\<close>.\<close>

fun place_loop ::
    "nat \<Rightarrow> float_env \<Rightarrow> segment_row \<Rightarrow> interval \<Rightarrow> u64 \<Rightarrow> server_info list \<Rightarrow> bal \<Rightarrow> bal" where
  "place_loop 0 fe seg iv sz cands b = b"
| "place_loop (Suc n) fe seg iv sz cands b =
     (case pick_best_server fe iv sz cands (holder_names (b_asg b) (sr_id seg) cands) (b_reg b) (b_asg b) of
        None \<Rightarrow> b
      | Some name \<Rightarrow> place_loop n fe seg iv sz cands (place seg iv sz name b))"

definition current_size_of :: "registry \<Rightarrow> string \<Rightarrow> nat" where
  "current_size_of reg name = (case hm_get reg name of Some s \<Rightarrow> unat (si_current_size s) | None \<Rightarrow> 0)"

definition ensure_replicas ::
    "float_env \<Rightarrow> segment_row \<Rightarrow> interval \<Rightarrow> u64 \<Rightarrow> server_info list \<Rightarrow> nat \<Rightarrow> bool \<Rightarrow> bal \<Rightarrow> bal" where
  "ensure_replicas fe seg iv sz cands target allow_surplus_drop b =
     (let holders = holder_names (b_asg b) (sr_id seg) cands;
          current = length holders
      in if target < current then
           if \<not> allow_surplus_drop then b
           else foldl (remove_assignment (sr_id seg)) b
                  (take (current - target) (sort_key (\<lambda>n. - int (current_size_of (b_reg b) n)) holders))
         else place_loop (target - current) fe seg iv sz cands b)"

section \<open>A balancing cycle\<close>

definition drop_stale :: "string list \<Rightarrow> bal \<Rightarrow> string \<Rightarrow> bal" where
  "drop_stale used b srv_name =
     (case hm_get (b_asg b) srv_name of
        None \<Rightarrow> b
      | Some l \<Rightarrow>
          let (kept, stale) = partition (\<lambda>a. as_segment_id a \<in> set used) l
          in b\<lparr>b_asg := hm_insert srv_name kept (b_asg b),
               b_reg := foldl (\<lambda>r a. reg_sub_size r srv_name (as_size_bytes a)) (b_reg b) stale,
               b_actions := b_actions b @ map (\<lambda>a. ActDrop srv_name (as_segment_id a)) stale\<rparr>)"

definition tier_servers :: "registry \<Rightarrow> string \<Rightarrow> server_info list" where
  "tier_servers reg tier = filter (\<lambda>s. si_tier s = tier) (reg_list reg)"

definition ensure_tier ::
    "float_env \<Rightarrow> segment_row \<Rightarrow> interval \<Rightarrow> u64 \<Rightarrow> bool \<Rightarrow> bal \<Rightarrow> string \<times> nat \<Rightarrow> bal" where
  "ensure_tier fe seg iv sz allow b =
     (\<lambda>(tier, replicas). ensure_replicas fe seg iv sz (tier_servers (b_reg b) tier) replicas allow b)"

definition balance_load ::
    "float_env \<Rightarrow> segment_row \<Rightarrow> interval \<Rightarrow> u64 \<Rightarrow> (string \<times> nat) list \<Rightarrow> bal \<Rightarrow> bal" where
  "balance_load fe seg iv sz tier_replicants b =
     (let desired = filter (\<lambda>(t, r). 0 < r) tier_replicants
      in if desired = [] then drop_segment_everywhere b (sr_id seg)
         else
           let b = foldl (ensure_tier fe seg iv sz False) b desired
           in if list_all (\<lambda>(t, r). r \<le> count_tier_replicas b (sr_id seg) t) desired then
                prune_other_tiers (foldl (ensure_tier fe seg iv sz True) b desired) (sr_id seg) (map fst desired)
              else b)"

definition balance_segment ::
    "float_env \<Rightarrow> segment_row \<Rightarrow> interval \<Rightarrow> desired_placement \<Rightarrow> bal \<Rightarrow> bal" where
  "balance_segment fe seg iv placement b =
     (case placement of
        PlDrop \<Rightarrow> drop_segment_everywhere b (sr_id seg)
      | PlBroadcast \<Rightarrow>
          let all = reg_list (b_reg b)
          in ensure_replicas fe seg iv (segment_size_bytes seg) all (length all) True b
      | PlLoad tier_replicants \<Rightarrow> balance_load fe seg iv (segment_size_bytes seg) tier_replicants b)"

text \<open>\<open>start.parse().unwrap_or(epoch)\<close>, \<open>end.parse().unwrap_or(start)\<close>.\<close>

definition segment_interval :: "chrono \<Rightarrow> segment_row \<Rightarrow> interval" where
  "segment_interval c seg =
     (let start = (case ch_datetime c (sr_start seg) of Some t \<Rightarrow> t | None \<Rightarrow> 0);
          end' = (case ch_datetime c (sr_end seg) of Some t \<Rightarrow> t | None \<Rightarrow> start)
      in \<lparr>iv_start = start, iv_end = end'\<rparr>)"

fun balance_segments ::
    "float_env \<Rightarrow> chrono \<Rightarrow> int \<Rightarrow> (string, load_rule list) hash_map \<Rightarrow> segment_row list \<Rightarrow> bal
       \<Rightarrow> (unit, coord_error) res \<times> bal" where
  "balance_segments fe c now rules_by_ds [] b = (Ok (), b)"
| "balance_segments fe c now rules_by_ds (seg # segs) b =
     (let iv = segment_interval c seg
      in case desired_placement c (hm_list rules_by_ds (sr_data_source seg)) iv now of
           Inl e \<Rightarrow> (Inl e, b)
         | Inr placement \<Rightarrow>
             balance_segments fe c now rules_by_ds segs (balance_segment fe seg iv placement b))"

section \<open>The coordinator\<close>

record metadata_store =
  md_data_sources :: "(string list, coord_error) res"
  md_used_segments :: "string \<Rightarrow> (segment_row list, coord_error) res"
  md_rules :: "string \<Rightarrow> (json list, coord_error) res"
  md_read_rule :: "json \<Rightarrow> load_rule option"

record coordinator =
  co_asg :: assignments
  co_reg :: registry
  co_max_segments_to_move :: nat

definition coordinator_new :: coordinator where
  "coordinator_new = \<lparr>co_asg = [], co_reg = [], co_max_segments_to_move = 5\<rparr>"

definition register_server :: "coordinator \<Rightarrow> server_info \<Rightarrow> coordinator" where
  "register_server co server = co\<lparr>co_reg := reg_register (co_reg co) server\<rparr>"

definition update_server ::
    "coordinator \<Rightarrow> string \<Rightarrow> string option \<Rightarrow> u64 option \<Rightarrow> bool \<times> coordinator" where
  "update_server co name tier max_size =
     (let (found, reg) = reg_update (co_reg co) name tier max_size in (found, co\<lparr>co_reg := reg\<rparr>))"

definition remove_server :: "coordinator \<Rightarrow> string \<Rightarrow> server_info option \<times> coordinator" where
  "remove_server co name =
     (case hm_get (co_reg co) name of
        None \<Rightarrow> (None, co)
      | Some s \<Rightarrow> (Some s, co\<lparr>co_reg := hm_remove name (co_reg co), co_asg := hm_remove name (co_asg co)\<rparr>))"

fun load_segments_of ::
    "metadata_store \<Rightarrow> string list \<Rightarrow> (segment_row list, coord_error) res" where
  "load_segments_of md [] = Ok []"
| "load_segments_of md (ds # dss) =
     bind (md_used_segments md ds) (\<lambda>segs. bind (load_segments_of md dss) (\<lambda>rest. Ok (segs @ rest)))"

definition load_used_segments :: "metadata_store \<Rightarrow> (segment_row list, coord_error) res" where
  "load_used_segments md = bind (md_data_sources md) (load_segments_of md)"

fun load_rules_loop ::
    "metadata_store \<Rightarrow> string list \<Rightarrow> ((string, load_rule list) hash_map, coord_error) res" where
  "load_rules_loop md [] = Ok []"
| "load_rules_loop md (ds # dss) =
     bind (md_rules md ds) (\<lambda>raw. bind (parse_rules (md_read_rule md) raw) (\<lambda>parsed.
       bind (load_rules_loop md dss) (\<lambda>out. Ok (hm_insert ds parsed out))))"

definition load_rules_for ::
    "metadata_store \<Rightarrow> segment_row list \<Rightarrow> ((string, load_rule list) hash_map, coord_error) res" where
  "load_rules_for md segments = load_rules_loop md (remdups (map sr_data_source segments))"

definition with_bal :: "coordinator \<Rightarrow> bal \<Rightarrow> coordinator" where
  "with_bal co b = co\<lparr>co_asg := b_asg b, co_reg := b_reg b\<rparr>"

text \<open>
  A cycle over the registered servers. When the rules of a segment cannot be evaluated the source
  returns the error and with it loses the actions collected so far, while the assignments and sizes
  changed up to that point stay changed.
\<close>

definition run_balance_registered ::
    "float_env \<Rightarrow> chrono \<Rightarrow> int \<Rightarrow> metadata_store \<Rightarrow> coordinator
       \<Rightarrow> (segment_load_action list, coord_error) res \<times> coordinator" where
  "run_balance_registered fe c now md co =
     (if reg_list (co_reg co) = [] then (Ok [], co)
      else case bind (load_used_segments md) (\<lambda>segments.
                  bind (load_rules_for md segments) (\<lambda>rules. Ok (segments, rules))) of
        Inl e \<Rightarrow> (Inl e, co)
      | Inr (segments, rules_by_ds) \<Rightarrow>
          let b = \<lparr>b_asg = co_asg co, b_reg = co_reg co, b_actions = []\<rparr>;
              b = foldl (drop_stale (map sr_id segments)) b (map si_name (reg_list (co_reg co)));
              (r, b) = balance_segments fe c now rules_by_ds segments b
          in (bind r (\<lambda>_. Ok (b_actions b)), with_bal co b))"

definition fold_new_server :: "registry \<Rightarrow> server_info \<Rightarrow> registry" where
  "fold_new_server reg s = (if hm_get reg (si_name s) = None then reg_register reg s else reg)"

definition run_balance ::
    "float_env \<Rightarrow> chrono \<Rightarrow> int \<Rightarrow> metadata_store \<Rightarrow> coordinator \<Rightarrow> server_info list
       \<Rightarrow> (segment_load_action list, coord_error) res \<times> coordinator" where
  "run_balance fe c now md co available_servers =
     run_balance_registered fe c now md (co\<lparr>co_reg := foldl fold_new_server (co_reg co) available_servers\<rparr>)"

section \<open>Rebalancing\<close>

definition dest_servers :: "registry \<Rightarrow> segment_assignment \<Rightarrow> string \<Rightarrow> server_info list" where
  "dest_servers reg a src = filter (\<lambda>s. si_tier s = as_tier a \<and> si_name s \<noteq> src) (reg_list reg)"

fun dest_loop ::
    "float_env \<Rightarrow> segment_assignment \<Rightarrow> registry \<Rightarrow> assignments \<Rightarrow> server_info list
       \<Rightarrow> (string \<times> rat) option \<Rightarrow> (string \<times> rat) option" where
  "dest_loop fe a reg asg [] best = best"
| "dest_loop fe a reg asg (cand # cands) best =
     dest_loop fe a reg asg cands
       (if holds asg (si_name cand) (as_segment_id a) then best
        else case hm_get reg (si_name cand) of
          None \<Rightarrow> best
        | Some live \<Rightarrow>
            if can_hold live (as_size_bytes a) then
              better (si_name cand) (fe_cost fe (as_interval a) (intervals_on asg (si_name cand))
                (fill_ratio_with fe live (as_size_bytes a))) best
            else best)"

definition src_cost :: "float_env \<Rightarrow> bal \<Rightarrow> segment_assignment \<Rightarrow> string \<Rightarrow> rat" where
  "src_cost fe b a src =
     fe_cost fe (as_interval a) (intervals_on_excluding (b_asg b) src (as_segment_id a))
       (case hm_get (b_reg b) src of Some s \<Rightarrow> fill_ratio_without fe s (as_size_bytes a) | None \<Rightarrow> 1)"

text \<open>Load on the destination first, then drop at the source.\<close>

definition move_segment :: "segment_assignment \<Rightarrow> string \<Rightarrow> string \<Rightarrow> bal \<Rightarrow> bal" where
  "move_segment a src dest b =
     (let tier = (case hm_get (b_reg b) dest of Some s \<Rightarrow> si_tier s | None \<Rightarrow> as_tier a);
          b = b\<lparr>b_actions := b_actions b @ [ActLoad dest (as_segment_id a)],
                b_asg := hm_insert dest (hm_list (b_asg b) dest @ [a\<lparr>as_tier := tier\<rparr>]) (b_asg b),
                b_reg := reg_add_size (b_reg b) dest (as_size_bytes a)\<rparr>
      in remove_assignment (as_segment_id a) b src)"

definition rebalance_one ::
    "float_env \<Rightarrow> string \<Rightarrow> nat \<times> bal \<Rightarrow> segment_assignment \<Rightarrow> nat \<times> bal" where
  "rebalance_one fe src = (\<lambda>(moves_left, b) a.
     if moves_left = 0 then (moves_left, b)
     else case dest_loop fe a (b_reg b) (b_asg b) (dest_servers (b_reg b) a src) None of
       None \<Rightarrow> (moves_left, b)
     | Some (dest, dest_cost) \<Rightarrow>
         if fe_improves fe dest_cost (src_cost fe b a src)
         then (moves_left - 1, move_segment a src dest b)
         else (moves_left, b))"

definition rebalance_server :: "float_env \<Rightarrow> nat \<times> bal \<Rightarrow> string \<Rightarrow> nat \<times> bal" where
  "rebalance_server fe = (\<lambda>(moves_left, b) src.
     if moves_left = 0 then (moves_left, b)
     else foldl (rebalance_one fe src) (moves_left, b) (hm_list (b_asg b) src))"

definition rebalance ::
    "float_env \<Rightarrow> coordinator \<Rightarrow> (segment_load_action list, coord_error) res \<times> coordinator" where
  "rebalance fe co =
     (if co_max_segments_to_move co = 0 then (Ok [], co)
      else
        let servers = sort_key (\<lambda>s. - fill_ratio fe s) (reg_list (co_reg co));
            b = \<lparr>b_asg = co_asg co, b_reg = co_reg co, b_actions = []\<rparr>;
            (m, b) = foldl (rebalance_server fe) (co_max_segments_to_move co, b) (map si_name servers)
        in (Ok (b_actions b), with_bal co b))"

end
