(* ===== verification/Coordinator_Steps.thy ===== *)
theory Coordinator_Steps
  imports Coordinator
begin

text \<open>
  Every helper of the balancer is a sequence of two elementary steps: put a copy of a segment on a
  registered server that has room and does not hold it, or take one copy off a server. The
  invariants of the balancer are proved once for these steps: at most one copy of a segment per
  server, copies only on registered servers, exact byte accounting, capacity limits, and agreement
  of the assignments with the emitted actions.
\<close>

section \<open>Saturating arithmetic without saturation\<close>

lemma unat_sat_sub: "unat (sat_sub a b) = unat a - unat b"
  by (simp add: sat_sub_def unat_sub word_le_nat_alt split: if_splits)

lemma unat_sat_add: "unat a + unat b < 2 ^ 64 \<Longrightarrow> unat (sat_add a b) = unat a + unat b"
proof -
  assume a: "unat a + unat b < 2 ^ 64"
  have "unat (a + b) = unat a + unat b" using a by (simp add: unat_word_ariths)
  then show ?thesis by (simp add: sat_add_def word_less_nat_alt)
qed

lemma can_hold_fits:
  assumes "can_hold s n" and "unat (si_current_size s) \<le> unat (si_max_size s) \<or> n \<noteq> 0"
  shows "unat (si_current_size s) + unat n \<le> unat (si_max_size s)"
proof -
  have "unat n \<le> unat (si_max_size s) - unat (si_current_size s)"
    using assms(1) by (simp add: can_hold_def remaining_def word_le_nat_alt unat_sat_sub)
  moreover have "0 < unat n" if "n \<noteq> 0" using that by (simp add: unat_gt_0)
  ultimately show ?thesis using assms(2) by auto
qed

lemma can_hold_add:
  assumes "can_hold s n"
  shows "unat (sat_add (si_current_size s) n) = unat (si_current_size s) + unat n"
    "unat (sat_add (si_current_size s) n) \<le> max (unat (si_current_size s)) (unat (si_max_size s))"
proof -
  have lt: "unat (si_max_size s) < 2 ^ 64" "unat (si_current_size s) < 2 ^ 64"
    using unsigned_less [of "si_max_size s"] unsigned_less [of "si_current_size s"] by simp_all
  have "unat (si_current_size s) + unat n \<le> max (unat (si_current_size s)) (unat (si_max_size s))"
    using can_hold_fits [OF assms] by (cases "n = 0") auto
  with lt show "unat (sat_add (si_current_size s) n) = unat (si_current_size s) + unat n"
    "unat (sat_add (si_current_size s) n) \<le> max (unat (si_current_size s)) (unat (si_max_size s))"
    by (simp_all add: unat_sat_add max_def split: if_splits)
qed

section \<open>Elementary steps\<close>

definition put_copy :: "segment_assignment \<Rightarrow> string \<Rightarrow> bal \<Rightarrow> bal" where
  "put_copy a k b = b\<lparr>b_asg := hm_insert k (hm_list (b_asg b) k @ [a]) (b_asg b),
     b_reg := reg_add_size (b_reg b) k (as_size_bytes a),
     b_actions := b_actions b @ [ActLoad k (as_segment_id a)]\<rparr>"

definition take_copy :: "segment_assignment \<Rightarrow> segment_assignment list \<Rightarrow> string \<Rightarrow> bal \<Rightarrow> bal" where
  "take_copy a rest k b = b\<lparr>b_asg := hm_insert k rest (b_asg b),
     b_reg := reg_sub_size (b_reg b) k (as_size_bytes a),
     b_actions := b_actions b @ [ActDrop k (as_segment_id a)]\<rparr>"

inductive load_step :: "bal \<Rightarrow> bal \<Rightarrow> bool" where
  "\<not> holds (b_asg b) k (as_segment_id a) \<Longrightarrow> hm_get (b_reg b) k = Some s \<Longrightarrow> can_hold s (as_size_bytes a) \<Longrightarrow>
     load_step b (put_copy a k b)"

inductive drop_step :: "bal \<Rightarrow> bal \<Rightarrow> bool" where
  "hm_list (b_asg b) k = xs @ a # ys \<Longrightarrow> drop_step b (take_copy a (xs @ ys) k b)"

definition bal_step :: "bal \<Rightarrow> bal \<Rightarrow> bool" where
  "bal_step b b' \<longleftrightarrow> load_step b b' \<or> drop_step b b'"

inductive_cases load_stepE: "load_step b b'"
inductive_cases drop_stepE: "drop_step b b'"

lemma load_steps: "load_step\<^sup>*\<^sup>* b b' \<Longrightarrow> bal_step\<^sup>*\<^sup>* b b'"
  by (induction rule: rtranclp_induct) (auto simp: bal_step_def intro: rtranclp.rtrancl_into_rtrancl)

lemma drop_steps: "drop_step\<^sup>*\<^sup>* b b' \<Longrightarrow> bal_step\<^sup>*\<^sup>* b b'"
  by (induction rule: rtranclp_induct) (auto simp: bal_step_def intro: rtranclp.rtrancl_into_rtrancl)

section \<open>What the steps keep\<close>

definition bal_ok :: "bal \<Rightarrow> bool" where
  "bal_ok b \<longleftrightarrow> hm_wf (b_asg b) \<and> hm_wf (b_reg b) \<and>
     (\<forall>k s. hm_get (b_reg b) k = Some s \<longrightarrow> si_name s = k) \<and>
     (\<forall>k. distinct (map as_segment_id (hm_list (b_asg b) k))) \<and>
     (\<forall>k. hm_list (b_asg b) k \<noteq> [] \<longrightarrow> hm_get (b_reg b) k \<noteq> None)"

definition held :: "bal \<Rightarrow> (string \<times> string) set" where
  "held b = {(k, i). holds (b_asg b) k i}"

text \<open>The effect of dispatched actions on the set of (server, segment) pairs.\<close>

fun act_on :: "(string \<times> string) set \<Rightarrow> segment_load_action \<Rightarrow> (string \<times> string) set" where
  "act_on H (ActLoad k i) = insert (k, i) H"
| "act_on H (ActDrop k i) = H - {(k, i)}"

definition replay :: "(string \<times> string) set \<Rightarrow> segment_load_action list \<Rightarrow> (string \<times> string) set" where
  "replay H acts = foldl act_on H acts"

definition assigned_bytes :: "bal \<Rightarrow> string \<Rightarrow> nat" where
  "assigned_bytes b k = sum_list (map (\<lambda>a. unat (as_size_bytes a)) (hm_list (b_asg b) k))"

text \<open>\<open>base k\<close> bytes of server \<open>k\<close> are not accounted for by assignments; the rest is exact.\<close>

definition ledger :: "(string \<Rightarrow> nat) \<Rightarrow> bal \<Rightarrow> bool" where
  "ledger base b \<longleftrightarrow>
     (\<forall>k s. hm_get (b_reg b) k = Some s \<longrightarrow> unat (si_current_size s) = base k + assigned_bytes b k)"

definition within_cap :: "(string \<Rightarrow> nat) \<Rightarrow> bal \<Rightarrow> bool" where
  "within_cap start b \<longleftrightarrow>
     (\<forall>k s. hm_get (b_reg b) k = Some s \<longrightarrow> unat (si_current_size s) \<le> max (start k) (unat (si_max_size s)))"

definition server_shape :: "bal \<Rightarrow> string \<Rightarrow> server_info option" where
  "server_shape b k = map_option (\<lambda>s. s\<lparr>si_current_size := 0\<rparr>) (hm_get (b_reg b) k)"

definition step_inv ::
    "(string \<Rightarrow> server_info option) \<Rightarrow> (string \<times> string) set \<Rightarrow> segment_load_action list \<Rightarrow> bal \<Rightarrow> bool" where
  "step_inv shape H acts b \<longleftrightarrow> bal_ok b \<and> server_shape b = shape \<and>
     (\<exists>new. b_actions b = acts @ new \<and> held b = replay H new)"

lemma holds_iff: "holds asg k i \<longleftrightarrow> (\<exists>a \<in> set (hm_list asg k). as_segment_id a = i)"
  by (simp add: holds_def list_ex_iff)

lemma hm_get_add_size:
  "hm_get (reg_add_size reg k n) j =
     (if j = k then map_option (\<lambda>s. s\<lparr>si_current_size := sat_add (si_current_size s) n\<rparr>) (hm_get reg k) else hm_get reg j)"
  by (auto simp: reg_add_size_def split: option.splits)

lemma hm_get_sub_size:
  "hm_get (reg_sub_size reg k n) j =
     (if j = k then map_option (\<lambda>s. s\<lparr>si_current_size := sat_sub (si_current_size s) n\<rparr>) (hm_get reg k) else hm_get reg j)"
  by (auto simp: reg_sub_size_def split: option.splits)

lemma hm_wf_sizes: "hm_wf reg \<Longrightarrow> hm_wf (reg_add_size reg k n)" "hm_wf reg \<Longrightarrow> hm_wf (reg_sub_size reg k n)"
  by (auto simp: reg_add_size_def reg_sub_size_def split: option.splits)

lemmas size_simps = hm_get_add_size hm_get_sub_size hm_wf_sizes

lemma put_copy_ok:
  assumes "bal_ok b" and "\<not> holds (b_asg b) k (as_segment_id a)" and "hm_get (b_reg b) k = Some s"
  shows "bal_ok (put_copy a k b)" "held (put_copy a k b) = insert (k, as_segment_id a) (held b)"
    "server_shape (put_copy a k b) = server_shape b"
  using assms by (auto simp: bal_ok_def put_copy_def size_simps holds_iff held_def server_shape_def
      split: if_splits)

lemma take_copy_ok:
  assumes "bal_ok b" and "hm_list (b_asg b) k = xs @ a # ys"
  shows "bal_ok (take_copy a (xs @ ys) k b)" "held (take_copy a (xs @ ys) k b) = held b - {(k, as_segment_id a)}"
    "server_shape (take_copy a (xs @ ys) k b) = server_shape b"
proof -
  have "hm_list (b_asg b) k \<noteq> []" using assms(2) by simp
  then have r: "hm_get (b_reg b) k \<noteq> None" using assms(1) unfolding bal_ok_def by blast
  have d: "distinct (map as_segment_id (xs @ a # ys))"
    using assms(1) unfolding bal_ok_def by (simp flip: assms(2))
  show "bal_ok (take_copy a (xs @ ys) k b)"
    using assms(1) d r by (auto simp: bal_ok_def take_copy_def size_simps)
  show "held (take_copy a (xs @ ys) k b) = held b - {(k, as_segment_id a)}"
    using d assms(2) by (auto simp: held_def take_copy_def holds_iff split: if_splits) (metis imageI)+
  show "server_shape (take_copy a (xs @ ys) k b) = server_shape b"
    by (auto simp: server_shape_def take_copy_def size_simps option.map_comp comp_def)
qed

lemma step_inv_step: "step_inv shape H acts b \<Longrightarrow> bal_step b b' \<Longrightarrow> step_inv shape H acts b'"
proof -
  assume inv: "step_inv shape H acts b" and "bal_step b b'"
  then consider "load_step b b'" | "drop_step b b'" by (auto simp: bal_step_def)
  then show ?thesis
  proof cases
    case 1
    then obtain k a s where "\<not> holds (b_asg b) k (as_segment_id a)" "hm_get (b_reg b) k = Some s"
      and b': "b' = put_copy a k b" by (auto elim: load_stepE)
    from put_copy_ok [OF _ this(1,2)] inv show ?thesis
      by (auto simp: step_inv_def b' put_copy_def replay_def)
  next
    case 2
    then obtain k xs a ys where "hm_list (b_asg b) k = xs @ a # ys" and b': "b' = take_copy a (xs @ ys) k b"
      by (auto elim: drop_stepE)
    from take_copy_ok [OF _ this(1)] inv show ?thesis
      by (auto simp: step_inv_def b' take_copy_def replay_def)
  qed
qed

interpretation bal_sys: inductive_invariant "step_inv shape H acts" bal_step "step_inv shape H acts"
  for shape H acts
  by unfold_locales (auto intro: step_inv_step)

text \<open>Byte accounting.\<close>

definition byte_inv :: "(string \<Rightarrow> nat) \<Rightarrow> (string \<Rightarrow> nat) \<Rightarrow> bal \<Rightarrow> bool" where
  "byte_inv base start b \<longleftrightarrow> ledger base b \<and> within_cap start b"

lemma byte_inv_step: "byte_inv base start b \<Longrightarrow> bal_step b b' \<Longrightarrow> byte_inv base start b'"
proof -
  assume inv: "byte_inv base start b" and "bal_step b b'"
  then consider "load_step b b'" | "drop_step b b'" by (auto simp: bal_step_def)
  then show ?thesis
  proof cases
    case 1
    then obtain k a s where s: "hm_get (b_reg b) k = Some s" "can_hold s (as_size_bytes a)"
      and b': "b' = put_copy a k b" by (auto elim: load_stepE)
    have "unat (si_current_size s) \<le> max (start k) (unat (si_max_size s))"
      using inv s(1) by (auto simp: byte_inv_def within_cap_def)
    then show ?thesis using inv s can_hold_add [OF s(2)]
      by (auto simp: byte_inv_def ledger_def within_cap_def b' put_copy_def size_simps assigned_bytes_def)
  next
    case 2
    then obtain k xs a ys where l: "hm_list (b_asg b) k = xs @ a # ys" and b': "b' = take_copy a (xs @ ys) k b"
      by (auto elim: drop_stepE)
    have "ledger base b'" using inv l
      by (auto simp: byte_inv_def ledger_def b' take_copy_def size_simps assigned_bytes_def unat_sat_sub)
    moreover have "within_cap start b'"
      using inv le_trans [OF diff_le_self]
      by (auto simp: byte_inv_def within_cap_def b' take_copy_def size_simps unat_sat_sub)
    ultimately show ?thesis by (simp add: byte_inv_def)
  qed
qed

interpretation bytes_sys: inductive_invariant "byte_inv base start" bal_step "byte_inv base start"
  for base start
  by unfold_locales (auto intro: byte_inv_step)

section \<open>Only loads\<close>

lemma load_steps_monotone:
  "load_step\<^sup>*\<^sup>* b b' \<Longrightarrow> held b \<subseteq> held b' \<and>
     (\<exists>new. b_actions b' = b_actions b @ new \<and> (\<forall>x \<in> set new. \<exists>k i. x = ActLoad k i))"
proof (induction rule: rtranclp_induct)
  case (step b' b'')
  then obtain k a where b'': "b'' = put_copy a k b'" by (auto elim: load_stepE)
  have "held b' \<subseteq> held b''" by (auto simp: b'' put_copy_def held_def holds_iff)
  with step.IH show ?case by (auto simp: b'' put_copy_def)
qed simp

section \<open>The helpers are sequences of steps\<close>

lemma extract_split: "List.extract P l = Some (xs, a, ys) \<Longrightarrow> l = xs @ a # ys \<and> P a"
  by (auto simp: extract_Some_iff)

lemma remove_assignment_step: "drop_step\<^sup>*\<^sup>* b (remove_assignment i b k)"
proof (cases "\<exists>l xs a ys. hm_get (b_asg b) k = Some l \<and> List.extract (\<lambda>a. as_segment_id a = i) l = Some (xs, a, ys)")
  case True
  then obtain l xs a ys where l: "hm_get (b_asg b) k = Some l"
    and e: "List.extract (\<lambda>a. as_segment_id a = i) l = Some (xs, a, ys)" by blast
  note s = extract_split [OF e]
  have "remove_assignment i b k = take_copy a (xs @ ys) k b"
    using l e s by (simp add: remove_assignment_def take_copy_def)
  moreover have "drop_step b (take_copy a (xs @ ys) k b)"
    using l s by (intro drop_step.intros) (simp add: hm_list_def)
  ultimately show ?thesis by simp
next
  case False
  then have "remove_assignment i b k = b"
    by (auto simp: remove_assignment_def split: option.splits)
  then show ?thesis by simp
qed

lemma remove_assignments_steps: "drop_step\<^sup>*\<^sup>* b (foldl (remove_assignment i) b ks)"
proof (induction ks arbitrary: b)
  case (Cons k ks)
  then show ?case using remove_assignment_step [of b i k] by (auto intro: rtranclp_trans)
qed simp

text \<open>Removing a segment from a list of servers removes exactly those pairs.\<close>

lemma remove_assignment_held: "bal_ok b \<Longrightarrow> held (remove_assignment i b k) = held b - {(k, i)}"
proof -
  assume ok: "bal_ok b"
  show ?thesis
  proof (cases "holds (b_asg b) k i")
    case True
    then obtain l where l: "hm_get (b_asg b) k = Some l"
      by (cases "hm_get (b_asg b) k") (auto simp: holds_iff hm_list_def)
    with True have "\<exists>a \<in> set l. as_segment_id a = i" by (simp add: holds_iff hm_list_def)
    then obtain xs a ys where e: "List.extract (\<lambda>a. as_segment_id a = i) l = Some (xs, a, ys)"
      by (cases "List.extract (\<lambda>a. as_segment_id a = i) l") (auto simp: extract_None_iff)
    note s = extract_split [OF e]
    have "remove_assignment i b k = take_copy a (xs @ ys) k b"
      using l e s by (simp add: remove_assignment_def take_copy_def)
    then show ?thesis using take_copy_ok(2) [OF ok, of k xs a ys] l s by (simp add: hm_list_def)
  next
    case False
    then have "remove_assignment i b k = b"
      by (auto simp: remove_assignment_def holds_iff hm_list_def extract_Some_iff split: option.splits)
    then show ?thesis using False by (auto simp: held_def)
  qed
qed

lemma drop_steps_ok: "drop_step\<^sup>*\<^sup>* b b' \<Longrightarrow> bal_ok b \<Longrightarrow> bal_ok b' \<and> server_shape b' = server_shape b"
  by (induction rule: rtranclp_induct) (auto elim!: drop_stepE simp: take_copy_ok)

lemma remove_assignments_held:
  "bal_ok b \<Longrightarrow> held (foldl (remove_assignment i) b ks) = held b - (\<lambda>k. (k, i)) ` set ks"
proof (induction ks arbitrary: b)
  case (Cons k ks)
  have "bal_ok (remove_assignment i b k)" using drop_steps_ok [OF remove_assignment_step Cons.prems] by blast
  from Cons.IH [OF this] show ?case using remove_assignment_held [OF Cons.prems] by auto
qed simp

lemma pick_loop_Some:
  assumes "pick_loop fe iv n ex reg asg cands best = Some (k, c)"
  shows "best = Some (k, c) \<or>
     (k \<in> si_name ` set cands \<and> k \<notin> set ex \<and> (\<exists>s. hm_get reg k = Some s \<and> can_hold s n))"
  using assms
proof (induction cands arbitrary: best)
  case (Cons cand cands)
  from Cons.IH [OF Cons.prems [simplified pick_loop.simps]] show ?case
    by (auto simp: better_def split: if_splits option.splits)
qed simp

lemma pick_best_server_Some:
  "pick_best_server fe iv n cands ex reg asg = Some k \<Longrightarrow>
     k \<in> si_name ` set cands \<and> k \<notin> set ex \<and> (\<exists>s. hm_get reg k = Some s \<and> can_hold s n)"
  by (auto simp: pick_best_server_def dest!: pick_loop_Some)

lemma place_put: "hm_get (b_reg b) k = Some s \<Longrightarrow>
  place seg iv n k b = put_copy \<lparr>as_segment_id = sr_id seg, as_data_source = sr_data_source seg,
     as_interval = iv, as_tier = si_tier s, as_size_bytes = n\<rparr> k b"
  by (simp add: place_def put_copy_def)

lemma pick_place_step:
  assumes "pick_best_server fe iv n cands (holder_names (b_asg b) (sr_id seg) cands) (b_reg b) (b_asg b) = Some k"
  shows "load_step b (place seg iv n k b)"
proof -
  from pick_best_server_Some [OF assms] obtain s where k: "k \<in> si_name ` set cands"
    "k \<notin> set (holder_names (b_asg b) (sr_id seg) cands)" and s: "hm_get (b_reg b) k = Some s" "can_hold s n"
    by blast
  from k have "\<not> holds (b_asg b) k (sr_id seg)" by (auto simp: holder_names_def)
  then show ?thesis using s by (simp add: place_put load_step.intros)
qed

lemma place_loop_steps: "load_step\<^sup>*\<^sup>* b (place_loop m fe seg iv n cands b)"
proof (induction m arbitrary: b)
  case (Suc m)
  show ?case
  proof (cases "pick_best_server fe iv n cands (holder_names (b_asg b) (sr_id seg) cands) (b_reg b) (b_asg b)")
    case (Some k)
    then show ?thesis using pick_place_step [OF Some] Suc [of "place seg iv n k b"]
      by (simp add: converse_rtranclp_into_rtranclp)
  qed simp
qed simp

lemma ensure_replicas_steps: "bal_step\<^sup>*\<^sup>* b (ensure_replicas fe seg iv n cands t allow b)"
  by (auto simp: ensure_replicas_def Let_def intro: load_steps place_loop_steps drop_steps remove_assignments_steps)

lemma ensure_replicas_load_steps: "load_step\<^sup>*\<^sup>* b (ensure_replicas fe seg iv n cands t False b)"
  by (auto simp: ensure_replicas_def Let_def intro: place_loop_steps)

lemma foldl_steps: "(\<And>b x. R\<^sup>*\<^sup>* b (f b x)) \<Longrightarrow> R\<^sup>*\<^sup>* b (foldl f b xs)"
proof (induction xs arbitrary: b)
  case (Cons x xs)
  then show ?case by (auto intro: rtranclp_trans)
qed simp

lemma ensure_tiers_steps: "bal_step\<^sup>*\<^sup>* b (foldl (ensure_tier fe seg iv n allow) b ds)"
  by (rule foldl_steps) (auto simp: ensure_tier_def ensure_replicas_steps split: prod.splits)

lemma ensure_tiers_load_steps: "load_step\<^sup>*\<^sup>* b (foldl (ensure_tier fe seg iv n False) b ds)"
  by (rule foldl_steps) (auto simp: ensure_tier_def ensure_replicas_load_steps split: prod.splits)

lemma balance_segment_steps: "bal_step\<^sup>*\<^sup>* b (balance_segment fe seg iv pl b)"
proof -
  have drop: "bal_step\<^sup>*\<^sup>* b (drop_segment_everywhere b i)" for b i
    by (simp add: drop_segment_everywhere_def drop_steps remove_assignments_steps)
  have prune: "bal_step\<^sup>*\<^sup>* b (prune_other_tiers b i w)" for b i w
    by (simp add: prune_other_tiers_def drop_steps remove_assignments_steps)
  have "bal_step\<^sup>*\<^sup>* b (balance_load fe seg iv n tr b)" for n tr
    unfolding balance_load_def Let_def
    by (auto intro: drop ensure_tiers_steps rtranclp_trans [OF ensure_tiers_steps] prune)
  then show ?thesis
    by (auto simp: balance_segment_def Let_def drop ensure_replicas_steps split: desired_placement.splits)
qed

lemma balance_segments_steps: "bal_step\<^sup>*\<^sup>* b (snd (balance_segments fe c now rules segs b))"
proof (induction segs arbitrary: b)
  case (Cons seg segs)
  show ?case
    by (auto simp: Let_def split: sum.splits
        intro: rtranclp_trans [OF balance_segment_steps Cons.IH])
qed simp

lemma hm_insert_same: "hm_get m k = Some v \<Longrightarrow> hm_insert k v m = m"
  by (induction k v m rule: hm_insert.induct) (auto simp: hm_get_def split: if_splits)

lemma hm_insert_insert: "hm_insert k v (hm_insert k w m) = hm_insert k v m"
  by (induction k w m rule: hm_insert.induct) auto

lemma drop_stale_steps_from:
  "hm_get (b_asg b) k = Some (pre @ l) \<Longrightarrow>
     drop_step\<^sup>*\<^sup>* b (b\<lparr>b_asg := hm_insert k (pre @ filter P l) (b_asg b),
        b_reg := foldl (\<lambda>r a. reg_sub_size r k (as_size_bytes a)) (b_reg b) (filter (Not \<circ> P) l),
        b_actions := b_actions b @ map (\<lambda>a. ActDrop k (as_segment_id a)) (filter (Not \<circ> P) l)\<rparr>)"
proof (induction l arbitrary: b pre)
  case Nil
  then show ?case by (simp add: hm_insert_same)
next
  case (Cons a l)
  show ?case
  proof (cases "P a")
    case True
    then show ?thesis using Cons.IH [of b "pre @ [a]"] Cons.prems by simp
  next
    case False
    let ?b = "take_copy a (pre @ l) k b"
    have "drop_step b ?b" using Cons.prems by (intro drop_step.intros) (simp add: hm_list_def)
    moreover have "hm_get (b_asg ?b) k = Some (pre @ l)" by (simp add: take_copy_def)
    note Cons.IH [OF this]
    ultimately show ?thesis
      using False by (simp add: take_copy_def hm_insert_insert converse_rtranclp_into_rtranclp)
  qed
qed

lemma drop_stale_steps: "drop_step\<^sup>*\<^sup>* b (drop_stale used b k)"
  using drop_stale_steps_from [of b k "[]" _ "\<lambda>a. as_segment_id a \<in> set used"]
  by (auto simp: drop_stale_def comp_def split: option.splits)

end
