(* ===== verification/Coordinator_Placement.thy ===== *)
theory Coordinator_Placement
  imports Coordinator_Steps
begin

text \<open>
  What a balancing cycle achieves for a segment: how many servers of a tier hold it, that surplus
  copies go only when every requested tier has its copies, that a cycle that succeeds reports
  exactly the changes it made, and that a rebalancing pass keeps the number of copies.
\<close>

section \<open>Servers of a tier\<close>

definition holders_in :: "bal \<Rightarrow> string \<Rightarrow> string \<Rightarrow> string set" where
  "holders_in b i t = {k. holds (b_asg b) k i \<and> server_tier (b_reg b) k = Some t}"

definition copies :: "bal \<Rightarrow> string \<Rightarrow> string set" where
  "copies b i = {k. holds (b_asg b) k i}"

lemma copies_held: "k \<in> copies b i \<longleftrightarrow> (k, i) \<in> held b"
  by (simp add: copies_def held_def)

lemma holders_in_held: "holders_in b i t = {k. (k, i) \<in> held b \<and> server_tier (b_reg b) k = Some t}"
  by (simp add: holders_in_def held_def)

lemma holds_key: "holds asg k i \<Longrightarrow> k \<in> set (hm_keys asg)"
  by (cases "hm_get asg k") (auto simp: holds_iff hm_list_def hm_keys_get)

lemma finite_copies [simp]: "finite (copies b i)"
  by (rule finite_subset [of _ "set (hm_keys (b_asg b))"]) (auto simp: copies_def holds_key)

lemma finite_holders_in [simp]: "finite (holders_in b i t)"
  by (rule finite_subset [OF _ finite_copies [of b i]]) (auto simp: holders_in_def copies_def)

lemma server_tier_shape: "server_tier (b_reg b) k = map_option si_tier (server_shape b k)"
  by (simp add: server_tier_def server_shape_def option.map_comp comp_def)

lemma filter_keys:
  assumes "hm_wf m"
  shows "set (map fst (filter (\<lambda>(k, v). P k v) m)) = {k. \<exists>v. hm_get m k = Some v \<and> P k v}"
    "distinct (map fst (filter (\<lambda>(k, v). P k v) m))"
  using assms by (auto simp: hm_get_in_set image_iff hm_wf_def hm_keys_def distinct_map_filter)

lemma holds_get: "holds asg k i \<longleftrightarrow> (\<exists>v. hm_get asg k = Some v \<and> list_ex (\<lambda>a. as_segment_id a = i) v)"
  by (auto simp: holds_def hm_list_def split: option.splits)

lemma count_tier_replicas_card: "bal_ok b \<Longrightarrow> count_tier_replicas b i t = card (holders_in b i t)"
proof -
  assume "bal_ok b"
  then have wf: "hm_wf (b_asg b)" by (simp add: bal_ok_def)
  let ?f = "filter (\<lambda>(k, v). list_ex (\<lambda>a. as_segment_id a = i) v \<and> server_tier (b_reg b) k = Some t) (b_asg b)"
  have "set (map fst ?f) = holders_in b i t"
    using filter_keys(1) [OF wf] by (auto simp: holders_in_def holds_get)
  moreover have "distinct (map fst ?f)" using filter_keys(2) [OF wf] .
  ultimately show ?thesis
    using distinct_card [of "map fst ?f"] by (simp add: count_tier_replicas_def)
qed

lemma reg_list_names:
  assumes "bal_ok b"
  shows "distinct (map si_name (reg_list (b_reg b)))"
    "s \<in> set (reg_list (b_reg b)) \<longleftrightarrow> hm_get (b_reg b) (si_name s) = Some s"
proof -
  have wf: "hm_wf (b_reg b)" and nm: "\<forall>k s. hm_get (b_reg b) k = Some s \<longrightarrow> si_name s = k"
    using assms by (auto simp: bal_ok_def)
  have eq: "map si_name (hm_values (b_reg b)) = hm_keys (b_reg b)"
    using nm wf by (auto simp: hm_values_def hm_keys_def hm_get_in_set)
  have "distinct (map si_name (hm_values (b_reg b)))"
    using wf eq by (simp add: hm_wf_def)
  then show "distinct (map si_name (reg_list (b_reg b)))"
    by (simp add: reg_list_def distinct_map)
  show "s \<in> set (reg_list (b_reg b)) \<longleftrightarrow> hm_get (b_reg b) (si_name s) = Some s"
    using nm wf by (auto simp: reg_list_def hm_values_get)
qed

lemma tier_servers_names:
  assumes "bal_ok b"
  shows "distinct (map si_name (tier_servers (b_reg b) t))"
    "si_name ` set (tier_servers (b_reg b) t) = {k. server_tier (b_reg b) k = Some t}"
proof -
  show "distinct (map si_name (tier_servers (b_reg b) t))"
    using reg_list_names(1) [OF assms] by (simp add: tier_servers_def distinct_map_filter)
  have "si_name s = k" if "hm_get (b_reg b) k = Some s" for k s using that assms by (auto simp: bal_ok_def)
  then show "si_name ` set (tier_servers (b_reg b) t) = {k. server_tier (b_reg b) k = Some t}"
    by (auto simp: tier_servers_def reg_list_names(2) [OF assms] server_tier_def image_iff)
qed

lemma holder_names_tier:
  assumes "bal_ok b"
  shows "distinct (holder_names (b_asg b) i (tier_servers (b_reg b) t))"
    "set (holder_names (b_asg b) i (tier_servers (b_reg b) t)) = holders_in b i t"
    "length (holder_names (b_asg b) i (tier_servers (b_reg b) t)) = card (holders_in b i t)"
proof -
  show d: "distinct (holder_names (b_asg b) i (tier_servers (b_reg b) t))"
    using tier_servers_names(1) [OF assms] by (simp add: holder_names_def distinct_map_filter)
  show s: "set (holder_names (b_asg b) i (tier_servers (b_reg b) t)) = holders_in b i t"
    using tier_servers_names(2) [OF assms, of t] by (auto simp: holder_names_def holders_in_def)
  show "length (holder_names (b_asg b) i (tier_servers (b_reg b) t)) = card (holders_in b i t)"
    using distinct_card [OF d] s by simp
qed

section \<open>Trimming a tier\<close>

lemma steps_ok: "bal_step\<^sup>*\<^sup>* b b' \<Longrightarrow> bal_ok b \<Longrightarrow> bal_ok b' \<and> server_shape b' = server_shape b"
proof -
  assume "bal_step\<^sup>*\<^sup>* b b'" and "bal_ok b"
  from bal_sys.steps_inv [OF this(1), of "server_shape b" "held b" "b_actions b"] this(2)
  show ?thesis by (auto simp: step_inv_def replay_def)
qed

lemma ensure_tier_trim:
  assumes ok: "bal_ok b" and r: "r \<le> card (holders_in b (sr_id seg) t)"
  shows "\<exists>K \<subseteq> holders_in b (sr_id seg) t.
     held (ensure_tier fe seg iv n True b (t, r)) = held b - (\<lambda>k. (k, sr_id seg)) ` K \<and>
     card (holders_in b (sr_id seg) t - K) = r"
proof -
  let ?hs = "holder_names (b_asg b) (sr_id seg) (tier_servers (b_reg b) t)"
  let ?H = "holders_in b (sr_id seg) t"
  note hn = holder_names_tier [OF ok, of "sr_id seg" t]
  show ?thesis
  proof (cases "r < card ?H")
    case True
    let ?ks = "take (card ?H - r) (sort_key (\<lambda>n. - int (current_size_of (b_reg b) n)) ?hs)"
    have "held (ensure_tier fe seg iv n True b (t, r)) = held b - (\<lambda>k. (k, sr_id seg)) ` set ?ks"
      using True hn(3) remove_assignments_held [OF ok]
      by (simp add: ensure_tier_def ensure_replicas_def Let_def)
    moreover have sub: "set ?ks \<subseteq> ?H" using hn(2) by (metis set_sort set_take_subset)
    moreover have "distinct ?ks" using hn(1) by (simp add: distinct_take)
    then have "card (set ?ks) = card ?H - r" using hn(3) by (simp add: distinct_card)
    then have "card (?H - set ?ks) = r" using sub True by (simp add: card_Diff_subset)
    ultimately show ?thesis by blast
  next
    case False
    then show ?thesis using r hn(3)
      by (intro exI [of _ "{}"]) (simp add: ensure_tier_def ensure_replicas_def Let_def)
  qed
qed

lemma ensure_tiers_trim:
  assumes "bal_ok b" and "distinct (map fst ds)"
    and "\<forall>(t, r) \<in> set ds. r \<le> card (holders_in b (sr_id seg) t)"
  shows "let b' = foldl (ensure_tier fe seg iv n True) b ds in
     (\<forall>(t, r) \<in> set ds. card (holders_in b' (sr_id seg) t) = r) \<and>
     (\<forall>t. t \<notin> fst ` set ds \<longrightarrow> holders_in b' (sr_id seg) t = holders_in b (sr_id seg) t) \<and>
     held b' \<subseteq> held b"
  using assms
proof (induction ds arbitrary: b)
  case (Cons d ds)
  obtain t r where d: "d = (t, r)" by fastforce
  let ?i = "sr_id seg" and ?b = "ensure_tier fe seg iv n True b (t, r)"
  have ok': "bal_ok ?b" "server_shape ?b = server_shape b"
    using steps_ok [OF ensure_tiers_steps [of b fe seg iv n True "[(t, r)]"] Cons.prems(1)] by simp_all
  then have tier: "server_tier (b_reg ?b) k = server_tier (b_reg b) k" for k by (simp add: server_tier_shape)
  obtain K where K: "K \<subseteq> holders_in b ?i t" "held ?b = held b - (\<lambda>k. (k, ?i)) ` K" "card (holders_in b ?i t - K) = r"
    using ensure_tier_trim [OF Cons.prems(1), of r seg t fe iv n] Cons.prems(3) d by auto
  have here: "holders_in ?b ?i t = holders_in b ?i t - K"
    using K(2) tier by (auto simp: holders_in_held)
  have there: "holders_in ?b ?i t' = holders_in b ?i t'" if "t' \<noteq> t" for t'
    using K(1,2) tier that by (auto simp: holders_in_held)
  have nt: "t \<notin> fst ` set ds" "distinct (map fst ds)" using Cons.prems(2) d by auto
  have "r' \<le> card (holders_in ?b ?i t')" if x: "(t', r') \<in> set ds" for t' r'
  proof -
    have "t' \<noteq> t" using nt(1) x by force
    moreover have "r' \<le> card (holders_in b ?i t')" using Cons.prems(3) x by auto
    ultimately show ?thesis by (simp add: there)
  qed
  then have "\<forall>(t', r') \<in> set ds. r' \<le> card (holders_in ?b ?i t')" by blast
  moreover note nt
  ultimately have IH: "let b' = foldl (ensure_tier fe seg iv n True) ?b ds in
     (\<forall>(t, r) \<in> set ds. card (holders_in b' ?i t) = r) \<and>
     (\<forall>t. t \<notin> fst ` set ds \<longrightarrow> holders_in b' ?i t = holders_in ?b ?i t) \<and> held b' \<subseteq> held ?b"
    using Cons.IH [OF ok'(1)] by blast
  define b' where "b' = foldl (ensure_tier fe seg iv n True) ?b ds"
  have "foldl (ensure_tier fe seg iv n True) b (d # ds) = b'" by (simp add: b'_def d)
  moreover have "card (holders_in b' ?i t) = r"
    using IH nt(1) here K(3) by (simp add: Let_def flip: b'_def)
  moreover have "held b' \<subseteq> held b" using IH K(2) by (auto simp: Let_def simp flip: b'_def)
  moreover have "holders_in b' ?i t' = holders_in b ?i t'" if "t' \<notin> fst ` set (d # ds)" for t'
    using IH there that d by (simp add: Let_def flip: b'_def)
  moreover have "\<forall>(t, r) \<in> set ds. card (holders_in b' ?i t) = r"
    using IH by (simp add: Let_def flip: b'_def)
  ultimately show ?case unfolding Let_def d by simp
qed simp

section \<open>Outcome for a segment with requested tiers\<close>

lemma prune_held:
  assumes "bal_ok b"
  shows "held (prune_other_tiers b i ts) = {(k, j) \<in> held b. j = i \<longrightarrow> server_tier (b_reg b) k \<in> Some ` set ts}"
proof -
  have wf: "hm_wf (b_asg b)" using assms by (simp add: bal_ok_def)
  have off: "(case hm_get (b_reg b) k of Some s \<Rightarrow> si_tier s \<in> set ts | None \<Rightarrow> False)
      \<longleftrightarrow> server_tier (b_reg b) k \<in> Some ` set ts" for k
    by (auto simp: server_tier_def split: option.splits)
  show ?thesis
    unfolding prune_other_tiers_def remove_assignments_held [OF assms] filter_keys(1) [OF wf] off
    by (auto simp: held_def holds_get)
qed

lemma drop_everywhere_held:
  assumes "bal_ok b"
  shows "held (drop_segment_everywhere b i) = {(k, j) \<in> held b. j \<noteq> i}"
proof -
  have wf: "hm_wf (b_asg b)" using assms by (simp add: bal_ok_def)
  show ?thesis
    unfolding drop_segment_everywhere_def remove_assignments_held [OF assms] filter_keys(1) [OF wf]
    by (auto simp: held_def holds_get)
qed

lemma balance_load_outcome:
  fixes fe :: float_env and seg :: segment_row and iv :: interval and n :: u64
  assumes ok: "bal_ok b" and dist: "distinct (map fst tr)" and ne: "\<exists>(t, r) \<in> set tr. 0 < r"
  defines "b' \<equiv> balance_load fe seg iv n tr b"
  shows "(\<exists>new. b_actions b' = b_actions b @ new \<and> (\<forall>x \<in> set new. \<exists>k i. x = ActLoad k i) \<and> held b \<subseteq> held b' \<and>
       (\<exists>(t, r) \<in> set tr. card (holders_in b' (sr_id seg) t) < r)) \<or>
     (\<forall>(t, r) \<in> set tr. 0 < r \<longrightarrow> card (holders_in b' (sr_id seg) t) = r) \<and>
     (\<forall>k \<in> copies b' (sr_id seg). \<exists>(t, r) \<in> set tr. 0 < r \<and> server_tier (b_reg b') k = Some t)"
proof -
  define ds where "ds = filter (\<lambda>(t, r). 0 < r) tr"
  define b1 where "b1 = foldl (ensure_tier fe seg iv n False) b ds"
  let ?i = "sr_id seg"
  have ds: "ds \<noteq> []" "distinct (map fst ds)" "set ds = {(t, r) \<in> set tr. 0 < r}"
    using ne dist by (auto simp: ds_def filter_empty_conv distinct_map_filter)
  have l: "load_step\<^sup>*\<^sup>* b b1" unfolding b1_def by (rule ensure_tiers_load_steps)
  have ok1: "bal_ok b1" using steps_ok [OF load_steps [OF l] ok] by blast
  show ?thesis
  proof (cases "list_all (\<lambda>(t, r). r \<le> count_tier_replicas b1 ?i t) ds")
    case False
    then have "b' = b1" by (simp only: b'_def balance_load_def Let_def flip: ds_def b1_def) (simp add: ds(1))
    moreover have "\<exists>(t, r) \<in> set tr. card (holders_in b1 ?i t) < r"
      using False ds(3) by (fastforce simp: list_all_iff count_tier_replicas_card [OF ok1] not_le)
    ultimately show ?thesis using load_steps_monotone [OF l] by auto
  next
    case True
    define b2 where "b2 = foldl (ensure_tier fe seg iv n True) b1 ds"
    have b': "b' = prune_other_tiers b2 ?i (map fst ds)"
      using True by (simp only: b'_def b2_def balance_load_def Let_def flip: ds_def b1_def) (simp add: ds(1))
    have ok2: "bal_ok b2" using steps_ok [OF ensure_tiers_steps ok1] unfolding b2_def by blast
    have "server_shape b' = server_shape b2"
      using steps_ok [OF drop_steps [OF remove_assignments_steps] ok2] by (simp add: b' prune_other_tiers_def)
    then have tier: "server_tier (b_reg b') k = server_tier (b_reg b2) k" for k by (simp add: server_tier_shape)
    have "\<forall>(t, r) \<in> set ds. r \<le> card (holders_in b1 ?i t)"
      using True by (auto simp: list_all_iff count_tier_replicas_card [OF ok1])
    from ensure_tiers_trim [OF ok1 ds(2) this, of fe iv n]
    have exact: "\<forall>(t, r) \<in> set ds. card (holders_in b2 ?i t) = r" by (simp add: Let_def flip: b2_def)
    have "holders_in b' ?i t = holders_in b2 ?i t" if "t \<in> fst ` set ds" for t
      using that unfolding holders_in_held tier unfolding b' prune_held [OF ok2] by auto
    with exact have "\<forall>(t, r) \<in> set tr. 0 < r \<longrightarrow> card (holders_in b' ?i t) = r" using ds(3) by force
    moreover have "\<exists>(t, r) \<in> set tr. 0 < r \<and> server_tier (b_reg b') k = Some t" if "k \<in> copies b' ?i" for k
    proof -
      have "server_tier (b_reg b2) k \<in> Some ` set (map fst ds)"
        using that unfolding copies_held b' prune_held [OF ok2] by simp
      then obtain t r where "(t, r) \<in> set ds" "server_tier (b_reg b') k = Some t" by (auto simp: tier)
      then show ?thesis using ds(3) by auto
    qed
    ultimately show ?thesis by blast
  qed
qed

section \<open>Short tiers have no room left\<close>

lemma pick_loop_None:
  "pick_loop fe iv n ex reg asg cands best = None \<longleftrightarrow>
     best = None \<and> (\<forall>c \<in> set cands. si_name c \<in> set ex \<or> (\<forall>s. hm_get reg (si_name c) = Some s \<longrightarrow> \<not> can_hold s n))"
  by (induction cands arbitrary: best) (auto simp: better_def split: option.splits)

lemma load_step_ok: "load_step b b' \<Longrightarrow> bal_ok b \<Longrightarrow> bal_ok b' \<and> server_shape b' = server_shape b"
  using steps_ok [OF r_into_rtranclp, of b b'] by (auto simp: bal_step_def)

lemma tier_servers_shape:
  assumes "bal_ok b" "bal_ok b'" "server_shape b' = server_shape b"
  shows "si_name ` set (tier_servers (b_reg b') t) = si_name ` set (tier_servers (b_reg b) t)"
  using assms by (simp add: tier_servers_names server_tier_shape)

lemma place_loop_outcome:
  assumes "bal_ok b" and cands: "si_name ` set cands = {k. server_tier (b_reg b) k = Some t}"
    and "b' = place_loop m fe seg iv n cands b"
  shows "card (holders_in b' (sr_id seg) t) = card (holders_in b (sr_id seg) t) + m \<or>
     card (holders_in b' (sr_id seg) t) < card (holders_in b (sr_id seg) t) + m \<and>
     (\<forall>k s. hm_get (b_reg b') k = Some s \<and> si_tier s = t \<and> \<not> holds (b_asg b') k (sr_id seg) \<longrightarrow> \<not> can_hold s n)"
  using assms
proof (induction m arbitrary: b)
  case (Suc m)
  let ?i = "sr_id seg" and ?hs = "holder_names (b_asg b) (sr_id seg) cands"
  show ?case
  proof (cases "pick_best_server fe iv n cands ?hs (b_reg b) (b_asg b)")
    case None
    then have "\<forall>c \<in> set cands. si_name c \<in> set ?hs \<or> (\<forall>s. hm_get (b_reg b) (si_name c) = Some s \<longrightarrow> \<not> can_hold s n)"
      by (simp add: pick_best_server_def pick_loop_None)
    then have full: "\<not> can_hold s n"
      if "hm_get (b_reg b) k = Some s" "si_tier s = t" "\<not> holds (b_asg b) k ?i" for k s
    proof -
      have "k \<in> si_name ` set cands" using that Suc.prems(2) by (simp add: server_tier_def)
      then obtain c where "c \<in> set cands" "si_name c = k" by blast
      then show ?thesis
        using that \<open>\<forall>c \<in> set cands. _ c\<close> by (auto simp: holder_names_def)
    qed
    have "b' = b" using None Suc.prems(3) by simp
    then show ?thesis using full by auto
  next
    case (Some k)
    let ?b = "place seg iv n k b"
    from pick_best_server_Some [OF Some] obtain s where k: "k \<in> si_name ` set cands" "k \<notin> set ?hs"
      and s: "hm_get (b_reg b) k = Some s" by blast
    then have nk: "\<not> holds (b_asg b) k ?i" by (auto simp: holder_names_def)
    from load_step_ok [OF pick_place_step [OF Some] Suc.prems(1)]
    have ok: "bal_ok ?b" "server_shape ?b = server_shape b" by auto
    then have tier: "server_tier (b_reg ?b) j = server_tier (b_reg b) j" for j by (simp add: server_tier_shape)
    have "held ?b = insert (k, ?i) (held b)"
      using put_copy_ok(2) [OF Suc.prems(1) _ s] nk by (simp add: place_put [OF s])
    moreover have "server_tier (b_reg b) k = Some t" using k(1) Suc.prems(2) by simp
    ultimately have "holders_in ?b ?i t = insert k (holders_in b ?i t)"
      using tier by (auto simp: holders_in_held)
    moreover have "k \<notin> holders_in b ?i t" using nk by (simp add: holders_in_def)
    ultimately have c: "card (holders_in ?b ?i t) = Suc (card (holders_in b ?i t))" by simp
    have "si_name ` set cands = {k. server_tier (b_reg ?b) k = Some t}" using Suc.prems(2) tier by simp
    from Suc.IH [OF ok(1) this] Suc.prems(3) Some c show ?thesis by simp
  qed
qed simp

lemma ensure_tier_outcome:
  assumes "bal_ok b" and "b' = ensure_tier fe seg iv n True b (t, r)"
  shows "card (holders_in b' (sr_id seg) t) = r \<or>
     card (holders_in b' (sr_id seg) t) < r \<and>
     (\<forall>k s. hm_get (b_reg b') k = Some s \<and> si_tier s = t \<and> \<not> holds (b_asg b') k (sr_id seg) \<longrightarrow> \<not> can_hold s n)"
proof (cases "r \<le> card (holders_in b (sr_id seg) t)")
  case True
  have "server_shape b' = server_shape b"
    using steps_ok [OF ensure_tiers_steps [of b fe seg iv n True "[(t, r)]"] assms(1)] assms(2) by simp
  then have tier: "server_tier (b_reg b') k = server_tier (b_reg b) k" for k by (simp add: server_tier_shape)
  from ensure_tier_trim [OF assms(1) True, of fe iv n] assms(2) obtain K where
    "K \<subseteq> holders_in b (sr_id seg) t" "held b' = held b - (\<lambda>k. (k, sr_id seg)) ` K" "card (holders_in b (sr_id seg) t - K) = r"
    by blast
  moreover have "holders_in b' (sr_id seg) t = holders_in b (sr_id seg) t - K"
    unfolding holders_in_held tier calculation(2) by auto
  ultimately show ?thesis by simp
next
  case False
  let ?m = "r - card (holders_in b (sr_id seg) t)"
  have "b' = place_loop ?m fe seg iv n (tier_servers (b_reg b) t) b"
    using False holder_names_tier(3) [OF assms(1)] assms(2)
    by (simp add: ensure_tier_def ensure_replicas_def Let_def)
  from place_loop_outcome [OF assms(1) tier_servers_names(2) [OF assms(1)] this] False show ?thesis by auto
qed

end
