(* ===== verification/Coordinator_Cycle.thy ===== *)
theory Coordinator_Cycle
  imports Coordinator_Placement
begin

text \<open>
  Whole cycles of the coordinator: a balancing cycle and a rebalancing pass as sequences of the
  elementary steps, and the states the coordinator reaches when servers come, change and go between
  cycles.
\<close>

section \<open>A balancing cycle\<close>

definition to_bal :: "coordinator \<Rightarrow> bal" where
  "to_bal co = \<lparr>b_asg = co_asg co, b_reg = co_reg co, b_actions = []\<rparr>"

lemma to_bal_with_bal [simp]: "to_bal (with_bal co b) = b\<lparr>b_actions := []\<rparr>"
  by (simp add: to_bal_def with_bal_def)

lemma bal_ok_actions [simp]: "bal_ok (b\<lparr>b_actions := xs\<rparr>) = bal_ok b" "held (b\<lparr>b_actions := xs\<rparr>) = held b"
  "server_shape (b\<lparr>b_actions := xs\<rparr>) = server_shape b" "byte_inv base start (b\<lparr>b_actions := xs\<rparr>) = byte_inv base start b"
  by (auto simp: bal_ok_def held_def server_shape_def fun_eq_iff byte_inv_def ledger_def within_cap_def assigned_bytes_def)

lemma run_balance_registered_cases:
  obtains (idle) r where "run_balance_registered fe c now md co = (r, co)" "\<And>acts. r = Ok acts \<Longrightarrow> acts = [] \<and> co_reg co = []"
  | (cycle) segs rules r b where "load_used_segments md = Ok segs"
      "balance_segments fe c now rules segs
         (foldl (drop_stale (map sr_id segs)) (to_bal co) (map si_name (reg_list (co_reg co)))) = (r, b)"
      "run_balance_registered fe c now md co = (bind r (\<lambda>_. Ok (b_actions b)), with_bal co b)"
proof (cases "reg_list (co_reg co) = []")
  case True
  have "co_reg co = []"
  proof (rule ccontr)
    assume "co_reg co \<noteq> []"
    then have "hm_values (co_reg co) \<noteq> []" by (simp add: hm_values_def)
    then show False using True by (simp add: reg_list_def) (metis length_0_conv length_sort)
  qed
  then show thesis using True by (intro idle [of "Ok []"]) (auto simp: run_balance_registered_def)
next
  case False
  show thesis
  proof (cases "bind (load_used_segments md) (\<lambda>segments. bind (load_rules_for md segments) (\<lambda>rules. Ok (segments, rules)))")
    case (Inl e)
    then show thesis using False by (intro idle [of "Inl e"]) (auto simp: run_balance_registered_def)
  next
    case (Inr p)
    obtain segs rules where p: "p = (segs, rules)" by fastforce
    obtain r b where rb: "balance_segments fe c now rules segs
         (foldl (drop_stale (map sr_id segs)) (to_bal co) (map si_name (reg_list (co_reg co)))) = (r, b)" by fastforce
    then show thesis using False Inr p
      by (intro cycle [of segs rules r b]) (auto simp: run_balance_registered_def to_bal_def Let_def)
  qed
qed

lemma run_balance_registered_steps:
  assumes "run_balance_registered fe c now md co = (r, co')"
  shows "\<exists>b. bal_step\<^sup>*\<^sup>* (to_bal co) b \<and> co' = with_bal co b \<and> (\<forall>acts. r = Ok acts \<longrightarrow> acts = b_actions b)"
proof (cases rule: run_balance_registered_cases [of fe c now md co])
  case (idle r')
  then show ?thesis using assms
    by (intro exI [of _ "to_bal co"]) (auto simp: to_bal_def with_bal_def)
next
  case (cycle segs rules r' b)
  have "bal_step\<^sup>*\<^sup>* (to_bal co) (foldl (drop_stale (map sr_id segs)) (to_bal co) (map si_name (reg_list (co_reg co))))"
    by (rule foldl_steps) (rule drop_steps [OF drop_stale_steps])
  also have "bal_step\<^sup>*\<^sup>* \<dots> b" using balance_segments_steps cycle(2) by (metis snd_conv)
  finally show ?thesis using assms cycle(3) by (intro exI [of _ b]) auto
qed

section \<open>No stale copies after a cycle\<close>

lemma drop_stale_list:
  "hm_list (b_asg (drop_stale used b k)) j =
     (if j = k then filter (\<lambda>a. as_segment_id a \<in> set used) (hm_list (b_asg b) k) else hm_list (b_asg b) j)"
  by (cases "hm_get (b_asg b) k") (simp_all add: drop_stale_def hm_list_def)

lemma drop_stale_held: "held (drop_stale used b k) = {(j, i) \<in> held b. j = k \<longrightarrow> i \<in> set used}"
  by (auto simp: held_def holds_iff drop_stale_list split: if_splits)

lemma drop_stales_held:
  "bal_ok b \<Longrightarrow> held (foldl (drop_stale used) b ks) = {(j, i) \<in> held b. j \<in> set ks \<longrightarrow> i \<in> set used}"
proof (induction ks arbitrary: b)
  case (Cons k ks)
  have "bal_ok (drop_stale used b k)" using drop_steps_ok [OF drop_stale_steps Cons.prems] by blast
  from Cons.IH [OF this] show ?case using drop_stale_held [of used b k] by auto
qed simp

text \<open>Balancing a segment adds copies of that segment only.\<close>

definition adds_only :: "string \<Rightarrow> bal \<Rightarrow> bal \<Rightarrow> bool" where
  "adds_only i b b' \<longleftrightarrow> held b' \<subseteq> held b \<union> {(k, j). j = i}"

lemma adds_only_refl [simp]: "adds_only i b b" and adds_only_trans: "adds_only i b b' \<Longrightarrow> adds_only i b' b'' \<Longrightarrow> adds_only i b b''"
  by (auto simp: adds_only_def)

lemma drop_steps_shrink: "drop_step\<^sup>*\<^sup>* b b' \<Longrightarrow> bal_ok b \<Longrightarrow> held b' \<subseteq> held b"
proof (induction rule: rtranclp_induct)
  case (step b' b'')
  then have "bal_ok b'" using drop_steps_ok by blast
  with step show ?case by (auto elim!: drop_stepE simp: take_copy_ok(2))
qed simp

lemma place_adds_only: "adds_only (sr_id seg) b (place seg iv n k b)"
  by (auto simp: adds_only_def place_def Let_def held_def holds_iff split: if_splits)

lemma place_loop_adds_only: "adds_only (sr_id seg) b (place_loop m fe seg iv n cands b)"
  by (induction m arbitrary: b) (auto split: option.splits intro: adds_only_trans [OF place_adds_only])

lemma removes_adds_only: "bal_ok b \<Longrightarrow> adds_only i b (foldl (remove_assignment j) b ks)"
  using drop_steps_shrink [OF remove_assignments_steps] by (auto simp: adds_only_def)

lemma ensure_replicas_adds_only:
  "bal_ok b \<Longrightarrow> adds_only (sr_id seg) b (ensure_replicas fe seg iv n cands t allow b)"
  by (simp add: ensure_replicas_def Let_def place_loop_adds_only removes_adds_only)

lemma ensure_tiers_adds_only:
  "bal_ok b \<Longrightarrow> adds_only (sr_id seg) b (foldl (ensure_tier fe seg iv n allow) b ds)"
proof (induction ds arbitrary: b)
  case (Cons d ds)
  have "bal_ok (ensure_tier fe seg iv n allow b d)"
    using steps_ok [OF ensure_tiers_steps [of b fe seg iv n allow "[d]"] Cons.prems] by simp
  from Cons.IH [OF this] show ?case
    by (simp add: adds_only_trans [OF ensure_replicas_adds_only [OF Cons.prems]] ensure_tier_def split: prod.splits)
qed simp

lemma balance_segment_adds_only: "bal_ok b \<Longrightarrow> adds_only (sr_id seg) b (balance_segment fe seg iv pl b)"
proof -
  assume ok: "bal_ok b"
  have "adds_only (sr_id seg) b (balance_load fe seg iv n tr b)" for n tr
  proof -
    let ?ds = "filter (\<lambda>(t, r). 0 < r) tr"
    let ?b1 = "foldl (ensure_tier fe seg iv n False) b ?ds"
    let ?b2 = "foldl (ensure_tier fe seg iv n True) ?b1 ?ds"
    have ok1: "bal_ok ?b1" using steps_ok [OF ensure_tiers_steps ok] by blast
    have ok2: "bal_ok ?b2" using steps_ok [OF ensure_tiers_steps ok1] by blast
    have 1: "adds_only (sr_id seg) b ?b1" by (rule ensure_tiers_adds_only [OF ok])
    have 2: "adds_only (sr_id seg) b ?b2" by (rule adds_only_trans [OF 1 ensure_tiers_adds_only [OF ok1]])
    have 3: "adds_only (sr_id seg) b (prune_other_tiers ?b2 (sr_id seg) ts)" for ts
      unfolding prune_other_tiers_def by (rule adds_only_trans [OF 2 removes_adds_only [OF ok2]])
    have 4: "adds_only (sr_id seg) b (drop_segment_everywhere b (sr_id seg))"
      unfolding drop_segment_everywhere_def by (rule removes_adds_only [OF ok])
    show ?thesis unfolding balance_load_def Let_def using 1 3 4 by presburger
  qed
  then show ?thesis using ok
    by (auto simp: balance_segment_def Let_def drop_segment_everywhere_def removes_adds_only
        ensure_replicas_adds_only split: desired_placement.splits)
qed

lemma balance_segments_ids:
  "bal_ok b \<Longrightarrow> held (snd (balance_segments fe c now rules segs b)) \<subseteq> held b \<union> {(k, i). i \<in> set (map sr_id segs)}"
proof (induction segs arbitrary: b)
  case (Cons seg segs)
  show ?case
  proof (cases "desired_placement c (hm_list rules (sr_data_source seg)) (segment_interval c seg) now")
    case (Inr pl)
    let ?b = "balance_segment fe seg (segment_interval c seg) pl b"
    have ok: "bal_ok ?b" using steps_ok [OF balance_segment_steps Cons.prems] by blast
    have "held ?b \<subseteq> held b \<union> {(k, j). j = sr_id seg}"
      using balance_segment_adds_only [OF Cons.prems] by (simp add: adds_only_def)
    then show ?thesis using Cons.IH [OF ok] Inr by (fastforce simp: Let_def)
  qed (simp add: Let_def)
qed simp

lemma cycle_ids:
  assumes "bal_ok (to_bal co)" and "load_used_segments md = Ok segs"
    and "run_balance_registered fe c now md co = (Ok acts, co')" and "(k, i) \<in> held (to_bal co')"
  shows "i \<in> set (map sr_id segs)"
proof (cases rule: run_balance_registered_cases [of fe c now md co])
  case (idle r)
  then have "co' = co" "co_reg co = []" using assms(3) by auto
  then have "hm_list (co_asg co) k = []" using assms(1) by (simp add: bal_ok_def to_bal_def)
  then show ?thesis using assms(4) \<open>co' = co\<close> by (simp add: held_def holds_iff to_bal_def)
next
  case (cycle segs' rules r b)
  let ?b = "foldl (drop_stale (map sr_id segs)) (to_bal co) (map si_name (reg_list (co_reg co)))"
  have segs: "segs' = segs" using cycle(1) assms(2) by simp
  have co': "co' = with_bal co b" using cycle(3) assms(3) by simp
  have ok: "bal_ok ?b"
    using steps_ok [OF foldl_steps [where f = "drop_stale (map sr_id segs)", OF drop_steps [OF drop_stale_steps]] assms(1)]
    by blast
  have stale: "held ?b = {(j, i) \<in> held (to_bal co). j \<in> set (map si_name (reg_list (co_reg co))) \<longrightarrow> i \<in> set (map sr_id segs)}"
    by (rule drop_stales_held [OF assms(1)])
  have reg: "j \<in> set (map si_name (reg_list (co_reg co)))" if "(j, i) \<in> held (to_bal co)" for j i
  proof -
    have "hm_list (co_asg co) j \<noteq> []" using that by (auto simp: held_def holds_iff to_bal_def)
    then obtain s where "hm_get (co_reg co) j = Some s" "si_name s = j"
      using assms(1) by (fastforce simp: bal_ok_def to_bal_def)
    then show ?thesis using reg_list_names(2) [OF assms(1), of s] by (force simp: to_bal_def)
  qed
  have "held b \<subseteq> held ?b \<union> {(k, i). i \<in> set (map sr_id segs)}"
    using balance_segments_ids [OF ok, of fe c now rules segs] cycle(2) segs by simp
  then have "(k, i) \<in> held ?b \<or> i \<in> set (map sr_id segs)" using assms(4) co' by auto
  then show ?thesis using stale reg [of k i] by auto
qed

section \<open>Rebalancing\<close>

inductive move_step :: "nat \<times> bal \<Rightarrow> nat \<times> bal \<Rightarrow> bool" where
  "hm_list (b_asg b) src = xs @ a # ys \<Longrightarrow> dest \<noteq> src \<Longrightarrow> \<not> holds (b_asg b) dest (as_segment_id a) \<Longrightarrow>
   hm_get (b_reg b) dest = Some s \<Longrightarrow> can_hold s (as_size_bytes a) \<Longrightarrow>
   move_step (Suc m, b) (m, take_copy a (xs @ ys) src (put_copy (a\<lparr>as_tier := si_tier s\<rparr>) dest b))"

inductive_cases move_stepE: "move_step p q"

lemma move_step_effect:
  assumes "move_step (m, b) (m', b')" and "bal_ok b"
  shows "bal_step\<^sup>*\<^sup>* b b'" "bal_ok b'"
    "\<exists>src dest i. b_actions b' = b_actions b @ [ActLoad dest i, ActDrop src i] \<and> m = Suc m' \<and>
       (src, i) \<in> held b \<and> (dest, i) \<notin> held b \<and> dest \<noteq> src \<and> held b' = insert (dest, i) (held b) - {(src, i)}"
proof -
  from assms(1) obtain src xs a ys dest s where l: "hm_list (b_asg b) src = xs @ a # ys" and ne: "dest \<noteq> src"
    and h: "\<not> holds (b_asg b) dest (as_segment_id a)" and s: "hm_get (b_reg b) dest = Some s" "can_hold s (as_size_bytes a)"
    and m: "m = Suc m'" and b': "b' = take_copy a (xs @ ys) src (put_copy (a\<lparr>as_tier := si_tier s\<rparr>) dest b)"
    by (auto elim: move_stepE)
  let ?b = "put_copy (a\<lparr>as_tier := si_tier s\<rparr>) dest b"
  have h': "\<not> holds (b_asg b) dest (as_segment_id (a\<lparr>as_tier := si_tier s\<rparr>))" using h by simp
  note put = put_copy_ok [OF assms(2) h' s(1)]
  have l': "hm_list (b_asg ?b) src = xs @ a # ys" using l ne by (simp add: put_copy_def)
  note tk = take_copy_ok [OF put(1) l']
  have "load_step b ?b" using h' s by (intro load_step.intros) auto
  moreover have "drop_step ?b b'" unfolding b' using l' by (rule drop_step.intros)
  ultimately show "bal_step\<^sup>*\<^sup>* b b'"
    by (meson bal_step_def converse_rtranclp_into_rtranclp r_into_rtranclp)
  show "bal_ok b'" using tk(1) by (simp add: b')
  have "(src, as_segment_id a) \<in> held b" using l by (auto simp: held_def holds_iff)
  moreover have "(dest, as_segment_id a) \<notin> held b" using h by (simp add: held_def)
  moreover have "b_actions b' = b_actions b @ [ActLoad dest (as_segment_id a), ActDrop src (as_segment_id a)]"
    by (simp add: b' take_copy_def put_copy_def)
  ultimately show "\<exists>src dest i. b_actions b' = b_actions b @ [ActLoad dest i, ActDrop src i] \<and> m = Suc m' \<and>
       (src, i) \<in> held b \<and> (dest, i) \<notin> held b \<and> dest \<noteq> src \<and> held b' = insert (dest, i) (held b) - {(src, i)}"
    using m ne put(2) tk(2) by (intro exI [of _ src] exI [of _ dest] exI [of _ "as_segment_id a"]) (simp add: b')
qed

definition move_actions :: "(string \<times> string \<times> string) list \<Rightarrow> segment_load_action list" where
  "move_actions ms = concat (map (\<lambda>(i, src, dest). [ActLoad dest i, ActDrop src i]) ms)"

lemma move_card:
  assumes "(src, i) \<in> held b" "(dest, i) \<notin> held b" "dest \<noteq> src" "held b' = insert (dest, i) (held b) - {(src, i)}"
  shows "card (copies b' j) = card (copies b j)"
proof (cases "j = i")
  case True
  have "copies b' j = insert dest (copies b j) - {src}" 
    by (rule set_eqI) (simp add: copies_held assms(4) True)
  moreover have "src \<in> copies b j" "dest \<notin> copies b j" using assms(1,2) True by (auto simp: copies_held)
  ultimately show ?thesis using assms(3) by (simp add: card_Diff_singleton)
next
  case False
  have "copies b' j = copies b j" by (rule set_eqI) (simp add: copies_held assms(4) False)
  then show ?thesis by simp
qed

lemma move_steps_effect:
  assumes "move_step\<^sup>*\<^sup>* (m, b) (m', b')" and "bal_ok b"
  shows "bal_step\<^sup>*\<^sup>* b b' \<and> bal_ok b' \<and> (\<forall>j. card (copies b' j) = card (copies b j)) \<and>
     (\<exists>ms. b_actions b' = b_actions b @ move_actions ms \<and> m = length ms + m')"
  using assms(1)
proof (induction "(m', b')" arbitrary: m' b' rule: rtranclp_induct)
  case base
  then show ?case using assms(2) by (auto intro!: exI [of _ "[]"] simp: move_actions_def)
next
  case (step p)
  obtain m1 b1 where p: "p = (m1, b1)" by fastforce
  note H = step.hyps(3) [OF p]
  from H have ok: "bal_ok b1" by (elim conjE)
  from H have IH: "bal_step\<^sup>*\<^sup>* b b1" "\<forall>j. card (copies b1 j) = card (copies b j)" by blast+
  from H have "\<exists>ms. b_actions b1 = b_actions b @ move_actions ms \<and> m = length ms + m1" by (elim conjE)
  then obtain ms where ms: "b_actions b1 = b_actions b @ move_actions ms" "m = length ms + m1" by blast
  note eff = move_step_effect [OF step.hyps(2) [unfolded p] ok]
  from eff(3) obtain src dest i where e: "b_actions b' = b_actions b1 @ [ActLoad dest i, ActDrop src i]" "m1 = Suc m'"
    and c: "(src, i) \<in> held b1" "(dest, i) \<notin> held b1" "dest \<noteq> src" "held b' = insert (dest, i) (held b1) - {(src, i)}"
    by blast
  have "b_actions b' = b_actions b @ move_actions (ms @ [(i, src, dest)]) \<and> m = length (ms @ [(i, src, dest)]) + m'"
    using ms e by (simp add: move_actions_def)
  moreover have "bal_step\<^sup>*\<^sup>* b b'" using IH(1) eff(1) by (rule rtranclp_trans)
  moreover have "\<forall>j. card (copies b' j) = card (copies b j)" using IH(2) move_card [OF c] by simp
  ultimately show ?case using eff(2) by blast
qed

lemma dest_loop_Some:
  assumes "dest_loop fe a reg asg cands best = Some (k, c)"
  shows "best = Some (k, c) \<or>
     (k \<in> si_name ` set cands \<and> \<not> holds asg k (as_segment_id a) \<and> (\<exists>s. hm_get reg k = Some s \<and> can_hold s (as_size_bytes a)))"
  using assms
proof (induction cands arbitrary: best)
  case (Cons cand cands)
  from Cons.IH [OF Cons.prems [simplified dest_loop.simps]] show ?case
    by (auto simp: better_def split: if_splits option.splits)
qed simp

lemma remove_assignment_at:
  assumes "bal_ok b" and "hm_list (b_asg b) k = xs @ a # ys"
  shows "remove_assignment (as_segment_id a) b k = take_copy a (xs @ ys) k b"
proof -
  have "distinct (map as_segment_id (xs @ a # ys))"
    using assms(1) unfolding bal_ok_def by (simp flip: assms(2))
  then have "List.extract (\<lambda>x. as_segment_id x = as_segment_id a) (xs @ a # ys) = Some (xs, a, ys)"
    by (auto simp: extract_Some_iff) (metis imageI)
  moreover have "hm_get (b_asg b) k = Some (xs @ a # ys)"
    using assms(2) by (auto simp: hm_list_def split: option.splits)
  ultimately show ?thesis by (simp add: remove_assignment_def take_copy_def)
qed

lemma rebalance_one_step:
  assumes ok: "bal_ok b" and a: "a \<in> set (hm_list (b_asg b) src)"
    and res: "rebalance_one fe src (m, b) a = (m', b')"
  shows "move_step\<^sup>*\<^sup>* (m, b) (m', b')"
    "\<forall>x \<in> set (hm_list (b_asg b) src). as_segment_id x \<noteq> as_segment_id a \<longrightarrow> x \<in> set (hm_list (b_asg b') src)"
proof -
  have "move_step\<^sup>*\<^sup>* (m, b) (m', b') \<and>
    (\<forall>x \<in> set (hm_list (b_asg b) src). as_segment_id x \<noteq> as_segment_id a \<longrightarrow> x \<in> set (hm_list (b_asg b') src))"
  proof (cases "(m', b') = (m, b)")
    case False
    with res obtain dest dc where m: "m \<noteq> 0" "m' = m - 1" and b': "b' = move_segment a src dest b"
      and d: "dest_loop fe a (b_reg b) (b_asg b) (dest_servers (b_reg b) a src) None = Some (dest, dc)"
      by (auto simp: rebalance_one_def split: if_splits option.splits prod.splits)
    from dest_loop_Some [OF d] obtain s where dest: "dest \<noteq> src" "\<not> holds (b_asg b) dest (as_segment_id a)"
      and s: "hm_get (b_reg b) dest = Some s" "can_hold s (as_size_bytes a)"
      by (auto simp: dest_servers_def)
    from a obtain xs ys where l: "hm_list (b_asg b) src = xs @ a # ys" by (meson split_list)
    let ?b = "put_copy (a\<lparr>as_tier := si_tier s\<rparr>) dest b"
    have "bal_ok ?b" using put_copy_ok(1) [OF ok _ s(1)] dest(2) by simp
    moreover have "hm_list (b_asg ?b) src = xs @ a # ys" using l dest(1) by (simp add: put_copy_def)
    ultimately have "remove_assignment (as_segment_id a) ?b src = take_copy a (xs @ ys) src ?b"
      by (rule remove_assignment_at)
    moreover have "b' = remove_assignment (as_segment_id a) ?b src"
    proof -
      have "?b = b\<lparr>b_actions := b_actions b @ [ActLoad dest (as_segment_id a)],
          b_asg := hm_insert dest (hm_list (b_asg b) dest @ [a\<lparr>as_tier := si_tier s\<rparr>]) (b_asg b),
          b_reg := reg_add_size (b_reg b) dest (as_size_bytes a)\<rparr>"
        by (simp add: put_copy_def)
      then show ?thesis using s(1) by (simp only: b' move_segment_def Let_def option.case)
    qed
    ultimately have "b' = take_copy a (xs @ ys) src ?b" by simp
    moreover obtain m1 where "m = Suc m1" using m(1) by (cases m) auto
    ultimately show ?thesis
      using move_step.intros [OF l dest s] m(2) l by (auto simp: take_copy_def put_copy_def)
  qed simp
  then show "move_step\<^sup>*\<^sup>* (m, b) (m', b')"
    "\<forall>x \<in> set (hm_list (b_asg b) src). as_segment_id x \<noteq> as_segment_id a \<longrightarrow> x \<in> set (hm_list (b_asg b') src)"
    by auto
qed

lemma rebalance_list_steps:
  "bal_ok b \<Longrightarrow> distinct (map as_segment_id l) \<Longrightarrow> set l \<subseteq> set (hm_list (b_asg b) src) \<Longrightarrow>
     move_step\<^sup>*\<^sup>* (m, b) (foldl (rebalance_one fe src) (m, b) l)"
proof (induction l arbitrary: m b)
  case (Cons a l)
  obtain m1 b1 where r: "rebalance_one fe src (m, b) a = (m1, b1)" by fastforce
  have a: "a \<in> set (hm_list (b_asg b) src)" using Cons.prems(3) by simp
  note one = rebalance_one_step [OF Cons.prems(1) a r]
  have "set l \<subseteq> set (hm_list (b_asg b1) src)" 
  proof
    fix x assume x: "x \<in> set l"
    then have "as_segment_id x \<noteq> as_segment_id a" using Cons.prems(2) by (metis distinct.simps(2) image_eqI list.set_map list.simps(9))
    then show "x \<in> set (hm_list (b_asg b1) src)" using one(2) x Cons.prems(3) by auto
  qed
  moreover have "bal_ok b1" using move_steps_effect [OF one(1) Cons.prems(1)] by blast
  ultimately have "move_step\<^sup>*\<^sup>* (m1, b1) (foldl (rebalance_one fe src) (m1, b1) l)"
    using Cons.IH Cons.prems(2) by simp
  then show ?case using one(1) r by simp
qed simp

lemma rebalance_servers_steps:
  "bal_ok b \<Longrightarrow> move_step\<^sup>*\<^sup>* (m, b) (foldl (rebalance_server fe) (m, b) srcs)"
proof (induction srcs arbitrary: m b)
  case (Cons src srcs)
  obtain m1 b1 where r: "rebalance_server fe (m, b) src = (m1, b1)" by fastforce
  have "distinct (map as_segment_id (hm_list (b_asg b) src))" using Cons.prems by (simp add: bal_ok_def)
  from rebalance_list_steps [OF Cons.prems this subset_refl, of m fe]
  have one: "move_step\<^sup>*\<^sup>* (m, b) (m1, b1)" using r by (auto simp: rebalance_server_def split: if_splits)
  moreover have "bal_ok b1" using move_steps_effect [OF one Cons.prems] by blast
  ultimately show ?case using Cons.IH [of b1 m1] r by simp
qed simp

lemma rebalance_steps:
  assumes "bal_ok (to_bal co)" and "rebalance fe co = (r, co')"
  shows "\<exists>b m. move_step\<^sup>*\<^sup>* (co_max_segments_to_move co, to_bal co) (m, b) \<and> co' = with_bal co b \<and> r = Ok (b_actions b)"
proof (cases "co_max_segments_to_move co = 0")
  case True
  then show ?thesis using assms
    by (intro exI [of _ "to_bal co"] exI [of _ 0]) (auto simp: rebalance_def to_bal_def with_bal_def)
next
  case False
  obtain m b where mb: "foldl (rebalance_server fe) (co_max_segments_to_move co, to_bal co)
      (map si_name (sort_key (\<lambda>s. - fill_ratio fe s) (reg_list (co_reg co)))) = (m, b)" by fastforce
  then show ?thesis
    using False assms(2) rebalance_servers_steps [OF assms(1), of "co_max_segments_to_move co" fe
        "map si_name (sort_key (\<lambda>s. - fill_ratio fe s) (reg_list (co_reg co)))"]
    by (intro exI [of _ b] exI [of _ m]) (auto simp: rebalance_def to_bal_def Let_def)
qed

section \<open>Reachable states\<close>

text \<open>What the environment does between cycles, and the cycles.\<close>

inductive coord_step :: "coordinator \<Rightarrow> coordinator \<Rightarrow> bool" where
  "coord_step co (register_server co server)"
| "coord_step co (snd (update_server co name tier max_size))"
| "coord_step co (snd (remove_server co name))"
| "coord_step co (snd (run_balance fe c now md co servers))"
| "coord_step co (snd (rebalance fe co))"

definition coord_init :: "coordinator \<Rightarrow> bool" where
  "coord_init co \<longleftrightarrow> co_asg co = [] \<and> co_reg co = []"

lemma register_ok: "bal_ok b \<Longrightarrow> bal_ok (b\<lparr>b_reg := reg_register (b_reg b) s\<rparr>)"
  by (auto simp: bal_ok_def reg_register_def)

lemma fold_new_servers_ok: "bal_ok b \<Longrightarrow> bal_ok (b\<lparr>b_reg := foldl fold_new_server (b_reg b) ss\<rparr>)"
proof (induction ss arbitrary: b)
  case (Cons s ss)
  have "bal_ok (b\<lparr>b_reg := fold_new_server (b_reg b) s\<rparr>)"
    using Cons.prems register_ok by (simp add: fold_new_server_def)
  from Cons.IH [OF this] show ?case by simp
qed simp

lemma coord_step_ok:
  assumes "coord_step co co'" and "bal_ok (to_bal co)"
  shows "bal_ok (to_bal co')"
  using assms
proof cases
  case (1 server)
  then show ?thesis using register_ok [OF assms(2), of server] by (simp add: to_bal_def register_server_def)
next
  case (2 name tier max_size)
  then show ?thesis using assms(2)
    by (auto simp: to_bal_def update_server_def reg_update_def bal_ok_def Let_def split: option.splits)
next
  case (3 name)
  then show ?thesis using assms(2)
    by (auto simp: to_bal_def remove_server_def bal_ok_def split: option.splits)
next
  case (4 fe c now md servers)
  let ?co = "co\<lparr>co_reg := foldl fold_new_server (co_reg co) servers\<rparr>"
  have ok: "bal_ok (to_bal ?co)" using fold_new_servers_ok [OF assms(2), of servers] by (simp add: to_bal_def)
  obtain r where "run_balance_registered fe c now md ?co = (r, co')"
    using 4 by (metis run_balance_def prod.collapse)
  from run_balance_registered_steps [OF this] obtain b where "bal_step\<^sup>*\<^sup>* (to_bal ?co) b" "co' = with_bal ?co b" by blast
  then show ?thesis using steps_ok [OF _ ok] by auto
next
  case (5 fe)
  obtain r where "rebalance fe co = (r, co')" using 5 by (metis prod.collapse)
  from rebalance_steps [OF assms(2) this] obtain b m where
    "move_step\<^sup>*\<^sup>* (co_max_segments_to_move co, to_bal co) (m, b)" "co' = with_bal co b" by blast
  then show ?thesis using move_steps_effect [OF _ assms(2)] by auto
qed

interpretation coord: inductive_invariant coord_init coord_step "\<lambda>co. bal_ok (to_bal co)"
proof
  fix co assume "coord_init co"
  then show "bal_ok (to_bal co)" by (simp add: coord_init_def to_bal_def bal_ok_def)
qed (rule coord_step_ok)

end
