(* ===== verification/Coordinator_Properties.thy ===== *)
theory Coordinator_Properties
  imports Coordinator_Cycle
begin

text \<open>
  The properties of the coordinator. They hold for every metadata store, clock and placement score;
  the witnesses use a small cluster of two servers.
\<close>

section \<open>A small cluster\<close>

definition test_fe :: float_env where
  "test_fe = \<lparr>fe_div = (\<lambda>a b. 0), fe_cost = (\<lambda>iv ivs f. of_nat (length ivs) + f), fe_improves = (\<lambda>d s. d < s)\<rparr>"

definition test_chrono :: chrono where
  "test_chrono = \<lparr>ch_datetime = (\<lambda>s. None), ch_date = (\<lambda>s. None), ch_try_days = (\<lambda>n. Some (n * day_ms)),
     ch_try_hours = (\<lambda>n. Some (n * hour_ms)), ch_checked_sub = (\<lambda>t d. Some (t - d))\<rparr>"

definition test_server :: "string \<Rightarrow> string \<Rightarrow> server_info" where
  "test_server name tier =
     \<lparr>si_name = name, si_host = ''h'', si_port = 1, si_tier = tier, si_max_size = 10, si_current_size = 0\<rparr>"

definition test_row :: "string \<Rightarrow> string \<Rightarrow> segment_row" where
  "test_row sid ds = \<lparr>sr_id = sid, sr_data_source = ds, sr_start = '''', sr_end = '''', sr_payload = JNull\<rparr>"

definition test_iv :: interval where
  "test_iv = \<lparr>iv_start = 0, iv_end = 0\<rparr>"

definition test_co :: coordinator where
  "test_co = register_server (register_server coordinator_new (test_server ''a'' ''hot'')) (test_server ''b'' ''cold'')"

text \<open>Data source \<open>x\<close> has one segment and a rule; so has \<open>y\<close>, with the rule given.\<close>

definition test_md :: "load_rule \<Rightarrow> metadata_store" where
  "test_md rule_y = \<lparr>md_data_sources = Ok [''x'', ''y''],
     md_used_segments = (\<lambda>ds. Ok [test_row (''seg-'' @ ds) ds]),
     md_rules = (\<lambda>ds. Ok [if ds = ''x'' then JNull else JBool True]),
     md_read_rule = (\<lambda>v. if v = JNull then Some (LoadForever [(''hot'', 1)]) else Some rule_y)\<rparr>"

lemma test_co_reachable: "reachable coord_init coord_step test_co"
proof -
  have reg: "reachable coord_init coord_step (register_server co s)" if "reachable coord_init coord_step co" for co s
    using that coord_step.intros(1) by (rule reachable.next_step)
  have "reachable coord_init coord_step coordinator_new"
    by (rule reachable.start) (simp add: coord_init_def coordinator_new_def)
  then show ?thesis unfolding test_co_def by (intro reg)
qed

lemma test_co_ok: "bal_ok (to_bal test_co)"
  by (rule coord.reachable_inv [OF test_co_reachable])

lemma test_co_ledger: "ledger (\<lambda>k. 0) (to_bal test_co)"
  by (auto simp: ledger_def assigned_bytes_def test_co_def to_bal_def register_server_def coordinator_new_def
      reg_register_def test_server_def hm_get_def hm_list_def split: if_splits)

section \<open>Placement of a segment\<close>

text \<open>C5: When the rules ask for copies in some tiers, balancing the segment ends in one of two ways.
  Either some requested tier is still short, and then nothing was dropped: only loads were emitted
  and every copy that existed still exists. Or every requested tier holds exactly the requested
  number of copies and no server outside these tiers holds one.\<close>

theorem balance_load_spec:
  assumes "bal_ok b" and "distinct (map fst tr)" and "\<exists>(t, r) \<in> set tr. 0 < r"
    and "b' = balance_segment fe seg iv (PlLoad tr) b"
  shows "(\<exists>new. b_actions b' = b_actions b @ new \<and> (\<forall>x \<in> set new. \<exists>k i. x = ActLoad k i) \<and> held b \<subseteq> held b' \<and>
       (\<exists>(t, r) \<in> set tr. card (holders_in b' (sr_id seg) t) < r)) \<or>
     (\<forall>(t, r) \<in> set tr. 0 < r \<longrightarrow> card (holders_in b' (sr_id seg) t) = r) \<and>
     (\<forall>k \<in> copies b' (sr_id seg). \<exists>(t, r) \<in> set tr. 0 < r \<and> server_tier (b_reg b') k = Some t)"
  using balance_load_outcome [OF assms(1-3), of fe seg iv "segment_size_bytes seg"] assms(4)
  by (simp add: balance_segment_def)

theorem balance_load_spec_witness:
  "\<exists>b'. b' = balance_segment test_fe (test_row ''s'' ''x'') test_iv (PlLoad [(''hot'', 1)]) (to_bal test_co) \<and>
     b_actions b' = [ActLoad ''a'' ''s''] \<and> card (holders_in b' ''s'' ''hot'') = 1"
proof -
  define b' where "b' = balance_segment test_fe (test_row ''s'' ''x'') test_iv (PlLoad [(''hot'', 1)]) (to_bal test_co)"
  have acts: "b_actions b' = [ActLoad ''a'' ''s'']" unfolding b'_def by code_simp
  have "count_tier_replicas b' ''s'' ''hot'' = 1" unfolding b'_def by code_simp
  moreover have ok: "bal_ok b'" unfolding b'_def using steps_ok [OF balance_segment_steps test_co_ok] by blast
  ultimately have "\<not> card (holders_in b' ''s'' ''hot'') < 1" by (simp add: count_tier_replicas_card)
  then have "card (holders_in b' ''s'' ''hot'') = 1"
    using balance_load_spec [OF test_co_ok _ _ b'_def] by (auto simp: test_row_def)
  then show ?thesis using acts b'_def by blast
qed

text \<open>A segment that the rules keep loaded somewhere and that has a copy before it is balanced has
  a copy afterwards.\<close>

theorem last_copy_survives:
  assumes "bal_ok b" and "distinct (map fst tr)" and "\<exists>(t, r) \<in> set tr. 0 < r"
    and "copies b (sr_id seg) \<noteq> {}"
  shows "copies (balance_segment fe seg iv (PlLoad tr) b) (sr_id seg) \<noteq> {}"
proof -
  let ?b = "balance_segment fe seg iv (PlLoad tr) b"
  have b: "?b = balance_load fe seg iv (segment_size_bytes seg) tr b" by (simp add: balance_segment_def)
  note outcome = balance_load_outcome [OF assms(1-3), of fe seg iv "segment_size_bytes seg", folded b]
  consider "held b \<subseteq> held ?b" | "\<forall>(t, r) \<in> set tr. 0 < r \<longrightarrow> card (holders_in ?b (sr_id seg) t) = r"
    by (rule disjE [OF outcome]) (elim exE conjE; assumption)+
  then show ?thesis
  proof cases
    case 1
    from assms(4) obtain k where "(k, sr_id seg) \<in> held b" by (auto simp: copies_held [symmetric])
    with 1 have "k \<in> copies ?b (sr_id seg)" by (auto simp: copies_held)
    then show ?thesis by blast
  next
    case 2
    with assms(3) obtain t r where "card (holders_in ?b (sr_id seg) t) = r" "0 < r" by fastforce
    then have "holders_in ?b (sr_id seg) t \<noteq> {}" by auto
    then show ?thesis by (auto simp: holders_in_def copies_def)
  qed
qed

theorem last_copy_survives_witness:
  "\<exists>b. ''a'' \<in> copies b ''s'' \<and>
     copies (balance_segment test_fe (test_row ''s'' ''x'') test_iv (PlLoad [(''cold'', 1)]) b) ''s'' \<noteq> {}"
proof -
  let ?b = "balance_segment test_fe (test_row ''s'' ''x'') test_iv (PlLoad [(''hot'', 1)]) (to_bal test_co)"
  have ok: "bal_ok ?b" using steps_ok [OF balance_segment_steps test_co_ok] by blast
  have "holds (b_asg ?b) ''a'' ''s''" by code_simp
  then have a: "''a'' \<in> copies ?b ''s''" by (simp add: copies_def)
  then have "copies ?b (sr_id (test_row ''s'' ''x'')) \<noteq> {}" by (auto simp: test_row_def)
  from last_copy_survives [OF ok _ _ this, of "[(''cold'', 1)]" test_fe test_iv] a
  have "''a'' \<in> copies ?b ''s'' \<and>
      copies (balance_segment test_fe (test_row ''s'' ''x'') test_iv (PlLoad [(''cold'', 1)]) ?b) ''s'' \<noteq> {}"
    by (simp add: test_row_def)
  then show ?thesis by blast
qed

text \<open>Asking a tier for \<open>r\<close> copies ends with exactly \<open>r\<close> copies in the tier, or with fewer when no
  server of the tier without a copy has room for one.\<close>

theorem tier_short_only_when_full:
  assumes "bal_ok b" and "b' = ensure_tier fe seg iv n True b (t, r)"
  shows "card (holders_in b' (sr_id seg) t) = r \<or>
     card (holders_in b' (sr_id seg) t) < r \<and>
     (\<forall>k s. hm_get (b_reg b') k = Some s \<and> si_tier s = t \<and> \<not> holds (b_asg b') k (sr_id seg) \<longrightarrow> \<not> can_hold s n)"
  by (rule ensure_tier_outcome [OF assms])

theorem tier_short_only_when_full_witness:
  "\<exists>b'. b' = ensure_tier test_fe (test_row ''s'' ''x'') test_iv 1 True (to_bal test_co) (''hot'', 1) \<and>
     (card (holders_in b' ''s'' ''hot'') = 1 \<or> card (holders_in b' ''s'' ''hot'') < 1 \<and>
      (\<forall>k s. hm_get (b_reg b') k = Some s \<and> si_tier s = ''hot'' \<and> \<not> holds (b_asg b') k ''s'' \<longrightarrow> \<not> can_hold s 1))"
  using tier_short_only_when_full [OF test_co_ok refl, of test_fe "test_row ''s'' ''x''" test_iv 1 "''hot''" 1]
  by (simp add: test_row_def)

section \<open>Cycles\<close>

text \<open>C22: The actions a successful balancing cycle returns are exactly the changes it made: dispatching
  them to the servers turns the previous set of (server, segment) pairs into the new one.\<close>

theorem cycle_reports_changes:
  assumes "reachable coord_init coord_step co" and "run_balance fe c now md co servers = (Ok acts, co')"
  shows "held (to_bal co') = replay (held (to_bal co)) acts"
proof -
  let ?co = "co\<lparr>co_reg := foldl fold_new_server (co_reg co) servers\<rparr>"
  have ok: "bal_ok (to_bal ?co)"
    using fold_new_servers_ok [OF coord.reachable_inv [OF assms(1)], of servers] by (simp add: to_bal_def)
  from run_balance_registered_steps [OF assms(2) [unfolded run_balance_def]] obtain b where
    b: "bal_step\<^sup>*\<^sup>* (to_bal ?co) b" "co' = with_bal ?co b" "acts = b_actions b" by auto
  have "step_inv (server_shape (to_bal ?co)) (held (to_bal ?co)) [] (to_bal ?co)"
    using ok by (auto simp: step_inv_def to_bal_def replay_def)
  from bal_sys.steps_inv [OF b(1) this] have "held b = replay (held (to_bal ?co)) (b_actions b)"
    by (auto simp: step_inv_def)
  moreover have "held (to_bal ?co) = held (to_bal co)" by (simp add: held_def to_bal_def)
  ultimately show ?thesis using b by simp
qed

theorem cycle_reports_changes_witness:
  "\<exists>co'. run_balance test_fe test_chrono 0 (test_md DropForever) test_co [] = (Ok [ActLoad ''a'' ''seg-x''], co') \<and>
     held (to_bal co') = replay (held (to_bal test_co)) [ActLoad ''a'' ''seg-x'']"
proof -
  have "fst (run_balance test_fe test_chrono 0 (test_md DropForever) test_co []) = Ok [ActLoad ''a'' ''seg-x'']"
    by code_simp
  then obtain co' where "run_balance test_fe test_chrono 0 (test_md DropForever) test_co [] = (Ok [ActLoad ''a'' ''seg-x''], co')"
    by (metis prod.collapse)
  with cycle_reports_changes [OF test_co_reachable this] show ?thesis by blast
qed

text \<open>When the rules of one segment cannot be evaluated, the cycle returns the error and the loads
  it decided on before are lost: in the small cluster the segment of \<open>x\<close> is recorded on server \<open>a\<close>
  although no action was returned, and once the rule of \<open>y\<close> is repaired the next cycle does not
  emit the load either.\<close>

theorem failed_cycle_loses_actions:
  "\<exists>co'. run_balance test_fe test_chrono 0 (test_md (LoadByPeriod ''30D'' None [])) test_co []
         = (fail (RuleEvaluation PeriodPrefix), co') \<and>
     (''a'', ''seg-x'') \<notin> held (to_bal test_co) \<and> (''a'', ''seg-x'') \<in> held (to_bal co') \<and>
     fst (run_balance test_fe test_chrono 0 (test_md DropForever) co' []) = Ok []"
proof -
  let ?r = "run_balance test_fe test_chrono 0 (test_md (LoadByPeriod ''30D'' None [])) test_co []"
  have "fst ?r = fail (RuleEvaluation PeriodPrefix)" by code_simp
  moreover have "\<not> holds (co_asg test_co) ''a'' ''seg-x''" by code_simp
  moreover have "holds (co_asg (snd ?r)) ''a'' ''seg-x''" by code_simp
  moreover have "fst (run_balance test_fe test_chrono 0 (test_md DropForever) (snd ?r) []) = Ok []" by code_simp
  ultimately show ?thesis by (intro exI [of _ "snd ?r"]) (auto simp: prod_eq_iff held_def to_bal_def)
qed

text \<open>C34: A balancing cycle keeps the byte accounting exact and never loads a server beyond its
  capacity: if the tracked size of every server is a base plus the bytes assigned to it, so it is
  afterwards with the same bases, and no tracked size grows beyond the maximum of the server.\<close>

theorem cycle_keeps_ledger:
  assumes "reachable coord_init coord_step co" and "ledger base (to_bal co)"
    and "run_balance_registered fe c now md co = (r, co')"
  shows "ledger base (to_bal co') \<and>
     (\<forall>k s'. hm_get (co_reg co') k = Some s' \<longrightarrow>
        (\<exists>s. hm_get (co_reg co) k = Some s \<and> si_max_size s' = si_max_size s \<and>
           unat (si_current_size s') \<le> max (unat (si_current_size s)) (unat (si_max_size s))))"
proof -
  let ?start = "\<lambda>k. current_size_of (co_reg co) k"
  from run_balance_registered_steps [OF assms(3)] obtain b where
    b: "bal_step\<^sup>*\<^sup>* (to_bal co) b" "co' = with_bal co b" by blast
  have "byte_inv base ?start (to_bal co)"
    using assms(2) by (auto simp: byte_inv_def within_cap_def current_size_of_def to_bal_def)
  from bytes_sys.steps_inv [OF b(1) this] have inv: "ledger base b" "within_cap ?start b" by (auto simp: byte_inv_def)
  have shape: "server_shape b = server_shape (to_bal co)"
    using steps_ok [OF b(1) coord.reachable_inv [OF assms(1)]] by blast
  have "\<exists>s. hm_get (co_reg co) k = Some s \<and> si_max_size s' = si_max_size s \<and>
      unat (si_current_size s') \<le> max (unat (si_current_size s)) (unat (si_max_size s))"
    if s': "hm_get (b_reg b) k = Some s'" for k s'
  proof -
    from s' have "server_shape (to_bal co) k = Some (s'\<lparr>si_current_size := 0\<rparr>)"
      by (simp add: server_shape_def flip: shape)
    then obtain s where s: "hm_get (co_reg co) k = Some s" "s\<lparr>si_current_size := 0\<rparr> = s'\<lparr>si_current_size := 0\<rparr>"
      by (auto simp: server_shape_def to_bal_def)
    then have "si_max_size s' = si_max_size s" by (metis server_info.select_convs(5) server_info.surjective server_info.update_convs(6))
    moreover have "unat (si_current_size s') \<le> max (current_size_of (co_reg co) k) (unat (si_max_size s'))"
      using inv(2) s' by (auto simp: within_cap_def)
    ultimately show ?thesis using s(1) by (auto simp: current_size_of_def)
  qed
  moreover have "ledger base (to_bal co')" using inv(1) b(2) by (simp add: ledger_def assigned_bytes_def)
  ultimately show ?thesis using b(2) by (simp add: with_bal_def)
qed

theorem cycle_keeps_ledger_witness:
  "\<exists>co' s'. co' = snd (run_balance_registered test_fe test_chrono 0 (test_md DropForever) test_co) \<and>
     holds (co_asg co') ''a'' ''seg-x'' \<and> ledger (\<lambda>k. 0) (to_bal co') \<and> hm_get (co_reg co') ''a'' = Some s' \<and>
     (\<exists>s. hm_get (co_reg test_co) ''a'' = Some s \<and> si_max_size s' = si_max_size s \<and>
        unat (si_current_size s') \<le> max (unat (si_current_size s)) (unat (si_max_size s)))"
proof -
  let ?r = "run_balance_registered test_fe test_chrono 0 (test_md DropForever) test_co"
  obtain r co' where e: "?r = (r, co')" by fastforce
  have "holds (co_asg (snd ?r)) ''a'' ''seg-x''" by code_simp
  moreover have "\<not> Option.is_none (hm_get (co_reg (snd ?r)) ''a'')" by code_simp
  ultimately obtain s' where "holds (co_asg co') ''a'' ''seg-x''" "hm_get (co_reg co') ''a'' = Some s'"
    using e by (auto simp: Option.is_none_def)
  with cycle_keeps_ledger [OF test_co_reachable test_co_ledger e] e show ?thesis by auto
qed

text \<open>After a successful cycle no server holds a segment that is no longer used.\<close>

theorem no_stale_copies:
  assumes "reachable coord_init coord_step co" and "load_used_segments md = Ok segs"
    and "run_balance_registered fe c now md co = (Ok acts, co')" and "(k, i) \<in> held (to_bal co')"
  shows "i \<in> set (map sr_id segs)"
  by (rule cycle_ids [OF coord.reachable_inv [OF assms(1)] assms(2-4)])

theorem no_stale_copies_witness:
  "\<exists>co'. run_balance_registered test_fe test_chrono 0 (test_md DropForever) test_co = (Ok [ActLoad ''a'' ''seg-x''], co') \<and>
     (''a'', ''seg-x'') \<in> held (to_bal co') \<and> ''seg-x'' \<in> set (map sr_id [test_row ''seg-x'' ''x'', test_row ''seg-y'' ''y''])"
proof -
  let ?r = "run_balance_registered test_fe test_chrono 0 (test_md DropForever) test_co"
  have "fst ?r = Ok [ActLoad ''a'' ''seg-x'']" by code_simp
  then obtain co' where e: "?r = (Ok [ActLoad ''a'' ''seg-x''], co')" by (metis prod.collapse)
  have "holds (co_asg (snd ?r)) ''a'' ''seg-x''" by code_simp
  then have h: "(''a'', ''seg-x'') \<in> held (to_bal co')" using e by (simp add: held_def to_bal_def)
  have s: "load_used_segments (test_md DropForever) = Ok [test_row ''seg-x'' ''x'', test_row ''seg-y'' ''y'']"
    by (simp add: load_used_segments_def test_md_def)
  from no_stale_copies [OF test_co_reachable s e h] e h show ?thesis by blast
qed

section \<open>Rebalancing\<close>

text \<open>A rebalancing pass moves at most the configured number of segments, emits for every move the
  load on the destination immediately before the drop at the source, keeps the number of copies of
  every segment, and keeps the byte accounting exact.\<close>

theorem rebalance_keeps_copies:
  assumes "reachable coord_init coord_step co" and "ledger base (to_bal co)" and "rebalance fe co = (r, co')"
  shows "(\<exists>ms. r = Ok (move_actions ms) \<and> length ms \<le> co_max_segments_to_move co) \<and>
     (\<forall>i. card (copies (to_bal co') i) = card (copies (to_bal co) i)) \<and> ledger base (to_bal co')"
proof -
  have ok: "bal_ok (to_bal co)" by (rule coord.reachable_inv [OF assms(1)])
  from rebalance_steps [OF ok assms(3)] obtain b m where
    b: "move_step\<^sup>*\<^sup>* (co_max_segments_to_move co, to_bal co) (m, b)" "co' = with_bal co b" "r = Ok (b_actions b)" by blast
  from move_steps_effect [OF b(1) ok] obtain ms where
    s: "bal_step\<^sup>*\<^sup>* (to_bal co) b" and c: "\<forall>j. card (copies b j) = card (copies (to_bal co) j)"
    and ms: "b_actions b = b_actions (to_bal co) @ move_actions ms" "co_max_segments_to_move co = length ms + m" by blast
  have "byte_inv base (\<lambda>k. current_size_of (co_reg co) k) (to_bal co)"
    using assms(2) by (auto simp: byte_inv_def within_cap_def current_size_of_def to_bal_def)
  from bytes_sys.steps_inv [OF s this] have "ledger base b" by (simp add: byte_inv_def)
  then have "ledger base (to_bal co')" using b(2) by (simp add: ledger_def assigned_bytes_def)
  moreover have "copies (to_bal co') i = copies b i" for i using b(2) by (simp add: copies_def)
  moreover have "b_actions (to_bal co) = []" by (simp add: to_bal_def)
  ultimately show ?thesis using b(3) c ms by auto
qed

theorem rebalance_keeps_copies_witness:
  "(\<exists>ms. fst (rebalance test_fe test_co) = Ok (move_actions ms) \<and> length ms \<le> co_max_segments_to_move test_co) \<and>
   (\<forall>i. card (copies (to_bal (snd (rebalance test_fe test_co))) i) = card (copies (to_bal test_co) i)) \<and>
   ledger (\<lambda>k. 0) (to_bal (snd (rebalance test_fe test_co)))"
proof -
  obtain r co' where e: "rebalance test_fe test_co = (r, co')" by fastforce
  from rebalance_keeps_copies [OF test_co_reachable test_co_ledger e] e show ?thesis by simp
qed

section \<open>Reachable states\<close>

text \<open>In every state the coordinator reaches, whatever servers come, change and go, a server holds
  at most one copy of a segment, and only registered servers hold copies.\<close>

theorem one_copy_per_server:
  assumes "reachable coord_init coord_step co"
  shows "distinct (map as_segment_id (hm_list (co_asg co) k)) \<and>
     (hm_list (co_asg co) k \<noteq> [] \<longrightarrow> hm_get (co_reg co) k \<noteq> None)"
  using coord.reachable_inv [OF assms] unfolding bal_ok_def to_bal_def by auto

theorem one_copy_per_server_witness:
  "\<exists>co'. co' = snd (run_balance test_fe test_chrono 0 (test_md DropForever) test_co []) \<and>
     map as_segment_id (hm_list (co_asg co') ''a'') = [''seg-x''] \<and>
     distinct (map as_segment_id (hm_list (co_asg co') ''a'')) \<and> hm_get (co_reg co') ''a'' \<noteq> None"
proof -
  let ?co = "snd (run_balance test_fe test_chrono 0 (test_md DropForever) test_co [])"
  have r: "reachable coord_init coord_step ?co"
    by (rule reachable.next_step [OF test_co_reachable coord_step.intros(4)])
  have "map as_segment_id (hm_list (co_asg ?co) ''a'') = [''seg-x'']" by code_simp
  moreover from this have "hm_list (co_asg ?co) ''a'' \<noteq> []" by auto
  ultimately show ?thesis using one_copy_per_server [OF r, of "''a''"] by (intro exI [of _ ?co]) (simp only: simp_thms)
qed

end
