(* ===== verification/Kinesis_Frontier.thy ===== *)
theory Kinesis_Frontier
  imports Hash_Map Text Json
begin

text \<open>
  The durable resume frontier of ferrodruid-ingest-kinesis (\<open>frontier.rs\<close>): sequence numbers as
  canonical decimal strings, the spans of durable segments with their chain links, folding of spans,
  the resume position of a shard, and the fold over the metadata payloads of durable segments. The
  counters the source only logs are left out.
\<close>

section \<open>Sequence numbers\<close>

datatype seq_num = SeqNum (seq_str: string)

datatype frontier_error = InvalidSequenceNumber string

definition seq_parse :: "string \<Rightarrow> (seq_num, frontier_error) res" where
  "seq_parse s =
     (if s = [] \<or> \<not> list_all is_digit s then fail (InvalidSequenceNumber s)
      else let canonical = dropWhile (\<lambda>c. c = CHR ''0'') s
           in Ok (SeqNum (if canonical = [] then ''0'' else canonical)))"

text \<open>\<open>Ord for SeqNum\<close>: the length first, then the digits.\<close>

definition seq_le :: "seq_num \<Rightarrow> seq_num \<Rightarrow> bool" where
  "seq_le a b \<longleftrightarrow>
     length (seq_str a) < length (seq_str b) \<or>
     length (seq_str a) = length (seq_str b) \<and> seq_str a \<le> seq_str b"

instantiation seq_num :: linorder
begin

definition less_eq_seq_num :: "seq_num \<Rightarrow> seq_num \<Rightarrow> bool" where
  "less_eq_seq_num a b = seq_le a b"

definition less_seq_num :: "seq_num \<Rightarrow> seq_num \<Rightarrow> bool" where
  "less_seq_num a b \<longleftrightarrow> a \<le> b \<and> \<not> b \<le> a"

instance
  by standard (auto simp: less_eq_seq_num_def seq_le_def less_seq_num_def intro: seq_num.expand)

end

section \<open>Spans\<close>

record seq_span =
  sp_start :: seq_num
  sp_last :: seq_num
  sp_prev_last :: "seq_num option"

datatype start_position = TrimHorizon | Latest | AtSequenceNumber seq_num | AfterSequenceNumber seq_num

text \<open>The merging loop; the second argument is the merged list, last interval first.\<close>

fun merge_spans :: "seq_span list \<Rightarrow> seq_span list \<Rightarrow> seq_span list" where
  "merge_spans [] merged = rev merged"
| "merge_spans (spn # spans) [] = merge_spans spans [spn]"
| "merge_spans (spn # spans) (prev # merged) =
     (if sp_start spn \<le> sp_last prev \<or> sp_prev_last spn = Some (sp_last prev) then
        merge_spans spans ((if sp_last prev < sp_last spn then prev\<lparr>sp_last := sp_last spn\<rparr> else prev) # merged)
      else merge_spans spans (spn # prev # merged))"

text \<open>A stable sort by start, then last: sort by the minor key first.\<close>

definition sort_spans :: "seq_span list \<Rightarrow> seq_span list" where
  "sort_spans spans = sort_key sp_start (sort_key sp_last spans)"

definition fold_spans :: "seq_span list \<Rightarrow> seq_span list" where
  "fold_spans spans = merge_spans (sort_spans (filter (\<lambda>s. sp_start s \<le> sp_last s) spans)) []"

record shard_resume =
  sh_shard_id :: string
  sh_loaded :: "seq_span list"

definition shard_resume_new :: "string \<Rightarrow> seq_span list \<Rightarrow> shard_resume" where
  "shard_resume_new shard_id loaded = \<lparr>sh_shard_id = shard_id, sh_loaded = fold_spans loaded\<rparr>"

fun resume_walk :: "seq_num option \<Rightarrow> seq_span list \<Rightarrow> seq_num option" where
  "resume_walk point [] = point"
| "resume_walk point (spn # spans) =
     (let chains = (case point of
            None \<Rightarrow> sp_prev_last spn = None
          | Some p \<Rightarrow> sp_prev_last spn = Some p \<or> sp_start spn \<le> p)
      in if \<not> chains then point
         else resume_walk (case point of
                None \<Rightarrow> Some (sp_last spn)
              | Some p \<Rightarrow> if p < sp_last spn then Some (sp_last spn) else point) spans)"

definition resume_start_position :: "shard_resume \<Rightarrow> start_position" where
  "resume_start_position r =
     (case resume_walk None (sh_loaded r) of None \<Rightarrow> TrimHorizon | Some p \<Rightarrow> AfterSequenceNumber p)"

section \<open>Payloads\<close>

definition span_to_json :: "seq_span \<Rightarrow> json" where
  "span_to_json s = JObject ([(''start'', JString (seq_str (sp_start s))), (''last'', JString (seq_str (sp_last s)))] @
     (case sp_prev_last s of None \<Rightarrow> [] | Some p \<Rightarrow> [(''prevLast'', JString (seq_str p))]))"

definition sequences_to_payload :: "(string \<times> seq_span) list \<Rightarrow> json" where
  "sequences_to_payload seqs = JObject (map (\<lambda>(shard, spn). (shard, span_to_json spn)) seqs)"

record row_evidence =
  re_payload :: json
  re_loaded :: bool

record resume_frontier =
  rf_shards :: "(string, shard_resume) hash_map"
  rf_stream_recreated :: bool
  rf_checkpoint_corrupt :: bool

definition start_position_for :: "resume_frontier \<Rightarrow> string \<Rightarrow> start_position \<Rightarrow> start_position" where
  "start_position_for f shard_id dflt =
     (if rf_stream_recreated f \<or> rf_checkpoint_corrupt f then TrimHorizon
      else case hm_get (rf_shards f) shard_id of
        None \<Rightarrow> dflt
      | Some r \<Rightarrow> resume_start_position r)"

section \<open>Folding the rows\<close>

text \<open>The accumulators of the loop over rows.\<close>

record fold_state =
  fs_evidenced :: "string list"
  fs_loaded :: "(string, seq_span list) hash_map"
  fs_recreated :: bool
  fs_corrupt :: bool

definition seq_field :: "json \<Rightarrow> string \<Rightarrow> seq_num option" where
  "seq_field v key =
     (case Option.bind (json_get v key) json_as_str of
        None \<Rightarrow> None
      | Some s \<Rightarrow> (case seq_parse s of Inr n \<Rightarrow> Some n | Inl _ \<Rightarrow> None))"

text \<open>\<open>prevLast\<close>: \<open>None\<close> is a malformed link, \<open>Some None\<close> an anchor.\<close>

definition prev_field :: "json \<Rightarrow> seq_num option option" where
  "prev_field v =
     (case json_get v ''prevLast'' of
        None \<Rightarrow> Some None
      | Some JNull \<Rightarrow> Some None
      | Some x \<Rightarrow>
          (case json_as_str x of
             None \<Rightarrow> None
           | Some s \<Rightarrow> (case seq_parse s of Inr p \<Rightarrow> Some (Some p) | Inl _ \<Rightarrow> None)))"

definition fold_span :: "bool \<Rightarrow> fold_state \<Rightarrow> string \<times> json \<Rightarrow> fold_state" where
  "fold_span may_advance st = (\<lambda>(shard, v).
     let st = st\<lparr>fs_evidenced := List.insert shard (fs_evidenced st)\<rparr> in
     case (seq_field v ''start'', seq_field v ''last'') of
       (Some start, Some last') \<Rightarrow>
         if may_advance then
           (case prev_field v of
              None \<Rightarrow> st
            | Some prev_last \<Rightarrow>
                st\<lparr>fs_loaded := hm_insert shard (hm_list (fs_loaded st) shard @
                     [\<lparr>sp_start = start, sp_last = last', sp_prev_last = prev_last\<rparr>]) (fs_loaded st)\<rparr>)
         else st
     | _ \<Rightarrow> st)"

definition attribution_corrupt :: "string \<Rightarrow> json \<Rightarrow> bool" where
  "attribution_corrupt stream p =
     (let kind_field = json_get p ''kind'';
          stream_field = json_get p ''stream'';
          kind_str = Option.bind kind_field json_as_str;
          stream_str = Option.bind stream_field json_as_str;
          kind_matches = (kind_str = Some ''kinesis-streaming'');
          stream_matches = (stream_str = Some stream);
          kind_is_other = (kind_str \<noteq> None \<and> \<not> kind_matches);
          stream_is_other = (stream_str \<noteq> None \<and> \<not> stream_matches);
          kind_corrupt = (kind_field \<noteq> None \<and> kind_str = None);
          stream_corrupt = (stream_field \<noteq> None \<and> stream_str = None)
      in json_get p ''kinesisSequences'' \<noteq> None \<and> \<not> kind_is_other \<and> \<not> stream_is_other \<and>
         (kind_corrupt \<or> stream_corrupt \<or> kind_matches \<and> stream_field = None \<or> stream_matches \<and> kind_field = None))"

definition row_matches :: "string \<Rightarrow> json \<Rightarrow> bool" where
  "row_matches stream p \<longleftrightarrow>
     Option.bind (json_get p ''kind'') json_as_str = Some ''kinesis-streaming'' \<and>
     Option.bind (json_get p ''stream'') json_as_str = Some stream"

text \<open>The identity gate: \<open>None\<close> is a row of a dead stream generation.\<close>

definition identity_gate :: "json \<Rightarrow> int option \<Rightarrow> bool option" where
  "identity_gate p current_creation_millis =
     (case (json_get p ''streamCreationTimestampMillis'', current_creation_millis) of
        (Some stamp, Some current) \<Rightarrow>
          (case json_as_i64 stamp of
             Some ts \<Rightarrow> if ts = current then Some True else None
           | None \<Rightarrow> Some False)
      | _ \<Rightarrow> Some False)"

definition fold_row :: "string \<Rightarrow> int option \<Rightarrow> fold_state \<Rightarrow> row_evidence \<Rightarrow> fold_state" where
  "fold_row stream current st row =
     (let p = re_payload row in
      if \<not> row_matches stream p then
        (if attribution_corrupt stream p then st\<lparr>fs_corrupt := True\<rparr> else st)
      else case json_get p ''kinesisSequences'' of
        None \<Rightarrow> st
      | Some (JObject (m # ms)) \<Rightarrow>
          (case identity_gate p current of
             None \<Rightarrow> st\<lparr>fs_recreated := True\<rparr>
           | Some ok \<Rightarrow> foldl (fold_span (ok \<and> re_loaded row)) st (m # ms))
      | Some _ \<Rightarrow> st\<lparr>fs_corrupt := True\<rparr>)"

definition fold_resume_frontier ::
    "row_evidence list \<Rightarrow> string \<Rightarrow> int option \<Rightarrow> resume_frontier" where
  "fold_resume_frontier rows stream current_creation_millis =
     (let st = foldl (fold_row stream current_creation_millis)
                 \<lparr>fs_evidenced = [], fs_loaded = [], fs_recreated = False, fs_corrupt = False\<rparr> rows
      in \<lparr>rf_shards = map (\<lambda>shard. (shard, shard_resume_new shard (hm_list (fs_loaded st) shard))) (sort (fs_evidenced st)),
          rf_stream_recreated = fs_recreated st, rf_checkpoint_corrupt = fs_corrupt st\<rparr>)"

end
