(* ===== verification/Kinesis_Safety.thy ===== *)
theory Kinesis_Safety
  imports Kinesis_Frontier "HOL-Library.Multiset"
begin

text \<open>
  What the resume frontier guarantees: the order of sequence numbers is the numeric one, a shard is
  resumed after a position only if every record up to it is durable, an unbroken chain of spans is
  resumed past its end, and the fold over the rows collects exactly the admitted spans.
\<close>

section \<open>Sequence numbers are ordered numerically\<close>

definition seq_val :: "seq_num \<Rightarrow> nat" where
  "seq_val n = decimal (seq_str n)"

definition canonical :: "seq_num \<Rightarrow> bool" where
  "canonical n \<longleftrightarrow> seq_str n \<noteq> [] \<and> list_all is_digit (seq_str n) \<and>
     (hd (seq_str n) = CHR ''0'' \<longrightarrow> seq_str n = ''0'')"

lemma decimal_acc: "foldl (\<lambda>n c. 10 * n + digit_val c) k s = k * 10 ^ length s + decimal s"
proof (induction s arbitrary: k)
  case (Cons c s)
  show ?case using Cons [of "10 * k + digit_val c"] Cons [of "digit_val c"]
    by (simp add: decimal_def algebra_simps)
qed (simp add: decimal_def)

lemma decimal_Cons: "decimal (c # s) = digit_val c * 10 ^ length s + decimal s"
  using decimal_acc [of "digit_val c" s] by (simp add: decimal_def)

lemma digit_val_less: "is_digit c \<Longrightarrow> digit_val c < 10"
  by (auto simp: is_digit_def digit_val_def less_eq_char_def)

lemma decimal_less: "list_all is_digit s \<Longrightarrow> decimal s < 10 ^ length s"
proof (induction s)
  case (Cons c s)
  then have "digit_val c \<le> 9" using digit_val_less [of c] by simp
  then have "digit_val c * 10 ^ length s \<le> 9 * 10 ^ length s" by (rule mult_right_mono) simp
  moreover have "decimal s < 10 ^ length s" using Cons by simp
  ultimately have "digit_val c * 10 ^ length s + decimal s < 10 * 10 ^ length s" by linarith
  then show ?case by (simp add: decimal_Cons)
qed (simp add: decimal_def)

lemma digit_val_mono: "is_digit a \<Longrightarrow> is_digit b \<Longrightarrow> a < b \<longleftrightarrow> digit_val a < digit_val b"
  by (auto simp: is_digit_def digit_val_def less_eq_char_def less_char_def)

lemma digit_val_inj: "is_digit a \<Longrightarrow> is_digit b \<Longrightarrow> digit_val a = digit_val b \<Longrightarrow> a = b"
  using digit_val_mono [of a b] digit_val_mono [of b a] by (metis less_irrefl linorder_neqE)

lemma decimal_lex:
  "list_all is_digit s \<Longrightarrow> list_all is_digit t \<Longrightarrow> length s = length t \<Longrightarrow> s < t \<longleftrightarrow> decimal s < decimal t"
proof (induction s t rule: list_induct2')
  case (4 a s b t)
  then have ds: "decimal s < 10 ^ length t" "decimal t < 10 ^ length t"
    using decimal_less [of s] decimal_less [of t] by auto
  have ab: "is_digit a" "is_digit b" using 4(2,3) by auto
  show ?case
  proof (cases "a = b")
    case True
    then show ?thesis using 4 by (simp add: decimal_Cons)
  next
    case False
    then consider "digit_val a < digit_val b" "a < b" | "digit_val b < digit_val a" "b < a"
      using digit_val_mono [OF ab] digit_val_mono [OF ab(2,1)] by (metis linorder_neqE)
    then show ?thesis
    proof cases
      case 1
      then have "Suc (digit_val a) * 10 ^ length t \<le> digit_val b * 10 ^ length t" by (intro mult_right_mono) auto
      then show ?thesis using 1 ds 4(4) by (simp add: decimal_Cons)
    next
      case 2
      then have "Suc (digit_val b) * 10 ^ length t \<le> digit_val a * 10 ^ length t" by (intro mult_right_mono) auto
      then show ?thesis using 2 ds 4(4) by (auto simp: decimal_Cons)
    qed
  qed
qed auto

lemma canonical_lower: "canonical n \<Longrightarrow> 1 < length (seq_str n) \<Longrightarrow> 10 ^ (length (seq_str n) - 1) \<le> seq_val n"
proof -
  assume c: "canonical n" and l: "1 < length (seq_str n)"
  obtain x xs where x: "seq_str n = x # xs" using l by (cases "seq_str n") auto
  then have "x \<noteq> CHR ''0''" "is_digit x" using c l by (auto simp: canonical_def)
  then have "digit_val x \<noteq> digit_val CHR ''0''" using digit_val_inj [of x "CHR ''0''"] by (auto simp: is_digit_def)
  then have "1 \<le> digit_val x" by (simp add: digit_val_def)
  then have "1 * 10 ^ length xs \<le> digit_val x * 10 ^ length xs" by (rule mult_right_mono) simp
  then have "10 ^ length xs \<le> digit_val x * 10 ^ length xs + decimal xs" by linarith
  then show ?thesis by (simp add: x seq_val_def decimal_Cons)
qed

lemma canonical_shorter:
  assumes "canonical a" "canonical b" "length (seq_str a) < length (seq_str b)"
  shows "seq_val a < seq_val b"
proof -
  have ne: "0 < length (seq_str a)" using assms(1) by (simp add: canonical_def)
  have "seq_val a < 10 ^ length (seq_str a)"
    using assms(1) decimal_less by (simp add: canonical_def seq_val_def)
  also have "\<dots> \<le> 10 ^ (length (seq_str b) - 1)" using assms(3) by (intro power_increasing) auto
  also have "\<dots> \<le> seq_val b" using canonical_lower [OF assms(2)] assms(3) ne by linarith
  finally show ?thesis .
qed

lemma seq_less_val:
  assumes "canonical a" "canonical b"
  shows "a < b \<longleftrightarrow> seq_val a < seq_val b"
proof (cases rule: linorder_cases [of "length (seq_str a)" "length (seq_str b)"])
  case equal
  then have "seq_str a < seq_str b \<longleftrightarrow> seq_val a < seq_val b"
    using decimal_lex assms by (auto simp: canonical_def seq_val_def)
  then show ?thesis using equal by (auto simp: less_seq_num_def less_eq_seq_num_def seq_le_def)
next
  case less
  then show ?thesis using canonical_shorter [OF assms] by (auto simp: less_seq_num_def less_eq_seq_num_def seq_le_def)
next
  case greater
  then show ?thesis using canonical_shorter [OF assms(2,1)] by (auto simp: less_seq_num_def less_eq_seq_num_def seq_le_def)
qed

lemma seq_eq_val:
  assumes "canonical a" "canonical b"
  shows "a = b \<longleftrightarrow> seq_val a = seq_val b"
  using seq_less_val [OF assms] seq_less_val [OF assms(2,1)] by (metis less_irrefl linorder_neqE)

lemma decimal_dropWhile_0: "decimal (dropWhile (\<lambda>c. c = CHR ''0'') s) = decimal s"
  by (induction s) (auto simp: decimal_Cons digit_val_def)

lemma seq_parse_Ok:
  assumes "seq_parse s = Ok n"
  shows "canonical n" "seq_val n = decimal s"
proof -
  let ?c = "dropWhile (\<lambda>c. c = CHR ''0'') s"
  from assms have s: "s \<noteq> []" "list_all is_digit s" and n: "n = SeqNum (if ?c = [] then ''0'' else ?c)"
    by (auto simp: seq_parse_def Let_def split: if_splits)
  have "list_all is_digit ?c" using s(2) by (auto simp: list_all_iff dest: set_dropWhileD)
  moreover have "hd ?c \<noteq> CHR ''0''" if "?c \<noteq> []" using that hd_dropWhile by blast
  ultimately show "canonical n" by (auto simp: canonical_def n is_digit_def)
  have "decimal ''0'' = decimal ([] :: string)" by (simp add: decimal_def digit_val_def)
  then have "seq_val n = decimal ?c" by (cases "?c = []") (simp_all only: seq_val_def n seq_num.sel if_True if_False simp_thms)
  then show "seq_val n = decimal s" by (simp only: decimal_dropWhile_0)
qed

lemma seq_parse_canonical: "canonical n \<Longrightarrow> seq_parse (seq_str n) = Ok n"
proof -
  assume c: "canonical n"
  obtain x xs where x: "seq_str n = x # xs" using c by (cases "seq_str n") (auto simp: canonical_def)
  have "n = SeqNum (seq_str n)" by simp
  then show ?thesis using c x
    by (cases "x = CHR ''0''") (auto simp: seq_parse_def canonical_def Let_def)
qed

section \<open>Resuming skips durable records only\<close>

text \<open>
  A span tells the truth about a shard when every record of the log between its ends is durable,
  no record of the log lies between its chain link and its start, and, when it has no link, none
  lies below it.
\<close>

definition truthful :: "seq_num set \<Rightarrow> seq_num set \<Rightarrow> seq_span \<Rightarrow> bool" where
  "truthful recs durable s \<longleftrightarrow>
     (\<forall>x \<in> recs. sp_start s \<le> x \<and> x \<le> sp_last s \<longrightarrow> x \<in> durable) \<and>
     (\<forall>x \<in> recs. case sp_prev_last s of None \<Rightarrow> sp_start s \<le> x | Some p \<Rightarrow> x \<le> p \<or> sp_start s \<le> x)"

lemma truthful_extend:
  assumes "truthful recs durable prev" and "truthful recs durable spn"
    and "sp_start spn \<le> sp_last prev \<or> sp_prev_last spn = Some (sp_last prev)"
  shows "truthful recs durable (prev\<lparr>sp_last := sp_last spn\<rparr>)"
proof -
  have "x \<in> durable" if "x \<in> recs" "sp_start prev \<le> x" "x \<le> sp_last spn" for x
  proof (cases "x \<le> sp_last prev")
    case True
    then show ?thesis using assms(1) that by (auto simp: truthful_def)
  next
    case False
    then have "sp_start spn \<le> x"
      using assms(2,3) that(1) by (auto simp: truthful_def split: option.splits)
    then show ?thesis using assms(2) that by (auto simp: truthful_def)
  qed
  moreover have "sp_start (prev\<lparr>sp_last := sp_last spn\<rparr>) = sp_start prev" "sp_last (prev\<lparr>sp_last := sp_last spn\<rparr>) = sp_last spn"
    "sp_prev_last (prev\<lparr>sp_last := sp_last spn\<rparr>) = sp_prev_last prev" by simp_all
  ultimately show ?thesis using assms(1) unfolding truthful_def by (simp only:) blast
qed

lemma merge_spans_truthful:
  "\<forall>s \<in> set spans \<union> set merged. truthful recs durable s \<Longrightarrow> \<forall>s \<in> set (merge_spans spans merged). truthful recs durable s"
proof (induction spans merged rule: merge_spans.induct)
  case (3 spn spans prev merged)
  let ?m = "if sp_last prev < sp_last spn then prev\<lparr>sp_last := sp_last spn\<rparr> else prev"
  show ?case
  proof (cases "sp_start spn \<le> sp_last prev \<or> sp_prev_last spn = Some (sp_last prev)")
    case True
    have "truthful recs durable prev" "truthful recs durable spn" using 3(3) by simp_all
    then have "truthful recs durable ?m" using truthful_extend True by simp
    then have "\<forall>s \<in> set spans \<union> set (?m # merged). truthful recs durable s" using 3(3) by simp
    from 3(1) [OF True this] True show ?thesis by simp
  next
    case False
    then show ?thesis using 3(2) 3(3) by simp
  qed
qed simp_all

lemma set_sort_spans [simp]: "set (sort_spans spans) = set spans"
  by (simp add: sort_spans_def)

lemma fold_spans_truthful:
  "\<forall>s \<in> set spans. truthful recs durable s \<Longrightarrow> \<forall>s \<in> set (fold_spans spans). truthful recs durable s"
  unfolding fold_spans_def by (rule merge_spans_truthful) auto

lemma resume_walk_durable:
  assumes "\<forall>s \<in> set spans. truthful recs durable s" and "\<forall>p. point = Some p \<longrightarrow> (\<forall>x \<in> recs. x \<le> p \<longrightarrow> x \<in> durable)"
    and "resume_walk point spans = Some q"
  shows "\<forall>x \<in> recs. x \<le> q \<longrightarrow> x \<in> durable"
  using assms
proof (induction spans arbitrary: point)
  case (Cons s spans)
  have s: "truthful recs durable s" using Cons.prems(1) by simp
  show ?case
  proof (cases point)
    case None
    show ?thesis
    proof (cases "sp_prev_last s")
      case anchor: None
      have "\<forall>x \<in> recs. x \<le> sp_last s \<longrightarrow> x \<in> durable" using s anchor by (auto simp: truthful_def)
      then show ?thesis using Cons.IH [of "Some (sp_last s)"] Cons.prems None anchor by (simp add: Let_def)
    next
      case (Some p)
      then show ?thesis using Cons.prems None by simp
    qed
  next
    case (Some p)
    have p: "\<forall>x \<in> recs. x \<le> p \<longrightarrow> x \<in> durable" using Cons.prems(2) Some by blast
    show ?thesis
    proof (cases "sp_prev_last s = Some p \<or> sp_start s \<le> p")
      case True
      have "x \<in> durable" if "x \<in> recs" "x \<le> sp_last s" for x
      proof (cases "x \<le> p")
        case False
        then have "sp_start s \<le> x" using True s that(1) by (auto simp: truthful_def split: option.splits)
        then show ?thesis using s that by (auto simp: truthful_def)
      qed (use p that in blast)
      then show ?thesis using Cons.IH [of "Some (if p < sp_last s then sp_last s else p)"] Cons.prems(1,3) Some True p
        by (auto simp: Let_def split: if_splits)
    next
      case False
      then show ?thesis using Cons.prems(3) Some p by (simp add: Let_def)
    qed
  qed
qed simp

lemma resume_durable:
  assumes "\<forall>s \<in> set spans. truthful recs durable s"
    and "resume_start_position (shard_resume_new shard spans) = AfterSequenceNumber q"
  shows "\<forall>x \<in> recs. x \<le> q \<longrightarrow> x \<in> durable"
proof -
  have "resume_walk None (fold_spans spans) = Some q"
    using assms(2) by (auto simp: resume_start_position_def shard_resume_new_def split: option.splits)
  then show ?thesis using resume_walk_durable [OF fold_spans_truthful [OF assms(1)]] by blast
qed

section \<open>Unbroken chains are resumed past their end\<close>

fun chained :: "seq_num option \<Rightarrow> seq_span list \<Rightarrow> bool" where
  "chained link [] = True"
| "chained link (s # ss) = (sp_prev_last s = link \<and> sp_start s \<le> sp_last s \<and>
     (case link of Some p \<Rightarrow> p < sp_start s | None \<Rightarrow> True) \<and> chained (Some (sp_last s)) ss)"

lemma chained_starts: "chained (Some p) ss \<Longrightarrow> \<forall>s \<in> set ss. p < sp_start s"
proof (induction ss arbitrary: p)
  case (Cons s ss)
  then have "\<forall>x \<in> set ss. sp_last s < sp_start x" "p < sp_start s" "sp_start s \<le> sp_last s" by auto
  then show ?case by fastforce
qed simp

lemma chained_sorted: "chained link ss \<Longrightarrow> sorted (map sp_start ss) \<and> distinct (map sp_start ss) \<and> (\<forall>s \<in> set ss. sp_start s \<le> sp_last s)"
proof (induction ss arbitrary: link)
  case (Cons s ss)
  have "\<forall>x \<in> set ss. sp_last s < sp_start x" using chained_starts [of "sp_last s" ss] Cons.prems by simp
  moreover have "sp_start s \<le> sp_last s" using Cons.prems by simp
  ultimately have "\<forall>x \<in> set ss. sp_start s < sp_start x" by (meson le_less_trans)
  then show ?case using Cons.IH [of "Some (sp_last s)"] Cons.prems by fastforce
qed simp

lemma merge_chain:
  "chained (Some (sp_last m)) ss \<Longrightarrow>
     merge_spans ss [m] = [m\<lparr>sp_last := (if ss = [] then sp_last m else sp_last (last ss))\<rparr>]"
proof (induction ss arbitrary: m)
  case (Cons s ss)
  then have "sp_last m < sp_last s" by auto
  then show ?case using Cons.IH [of "m\<lparr>sp_last := sp_last s\<rparr>"] Cons.prems by auto
qed simp

lemma sort_spans_chain:
  assumes "mset spans = mset chain" and "chained None chain"
  shows "sort_spans spans = chain"
proof -
  have st: "set spans = set chain" using assms(1) mset_eq_setD by blast
  have c: "sorted (map sp_start chain)" "distinct (map sp_start chain)" using chained_sorted [OF assms(2)] by auto
  have "mset (map sp_start (sort_spans spans)) = mset (map sp_start chain)"
    using assms(1) by (simp add: sort_spans_def)
  then have "distinct (map sp_start (sort_spans spans))" using c(2) mset_eq_imp_distinct_iff by blast
  moreover have "sorted (map sp_start (sort_spans spans))" by (simp add: sort_spans_def)
  moreover have "inj_on sp_start (set (sort_spans spans) \<union> set chain)" using c(2) st by (simp add: distinct_map)
  ultimately show ?thesis using c st by (intro map_sorted_distinct_set_unique) auto
qed

lemma resume_chain:
  assumes "mset spans = mset chain" and "chained None chain" and "chain \<noteq> []"
  shows "resume_start_position (shard_resume_new shard spans) = AfterSequenceNumber (sp_last (last chain))"
proof -
  have "set spans = set chain" using assms(1) mset_eq_setD by blast
  then have "filter (\<lambda>s. sp_start s \<le> sp_last s) spans = spans"
    using chained_sorted [OF assms(2)] by (auto simp: filter_id_conv)
  then have "fold_spans spans = merge_spans chain []" using sort_spans_chain [OF assms(1,2)] by (simp add: fold_spans_def)
  moreover obtain s ss where c: "chain = s # ss" using assms(3) by (cases chain) auto
  ultimately have f: "fold_spans spans = [s\<lparr>sp_last := sp_last (last chain)\<rparr>]"
    using merge_chain [of s ss] assms(2) by auto
  show ?thesis using c assms(2) by (simp add: resume_start_position_def shard_resume_new_def f)
qed

section \<open>What the fold over the rows collects\<close>

definition span_of :: "json \<Rightarrow> seq_span option" where
  "span_of v = (case (seq_field v ''start'', seq_field v ''last'', prev_field v) of
     (Some a, Some b, Some p) \<Rightarrow> Some \<lparr>sp_start = a, sp_last = b, sp_prev_last = p\<rparr> | _ \<Rightarrow> None)"

definition members :: "string \<Rightarrow> row_evidence \<Rightarrow> (string \<times> json) list" where
  "members stream row =
     (if row_matches stream (re_payload row) then
        case json_get (re_payload row) ''kinesisSequences'' of Some (JObject ms) \<Rightarrow> ms | _ \<Rightarrow> []
      else [])"

definition admits :: "int option \<Rightarrow> row_evidence \<Rightarrow> bool" where
  "admits current row \<longleftrightarrow> identity_gate (re_payload row) current = Some True \<and> re_loaded row"

definition admitted_spans :: "string \<Rightarrow> int option \<Rightarrow> string \<Rightarrow> row_evidence \<Rightarrow> seq_span list" where
  "admitted_spans stream current shard row =
     (if admits current row then
        List.map_filter (\<lambda>(k, v). if k = shard then span_of v else None) (members stream row) else [])"

lemma fold_span_loaded:
  "hm_list (fs_loaded (fold_span adv st kv)) shard = hm_list (fs_loaded st) shard @
     (if adv then List.map_filter (\<lambda>(k, v). if k = shard then span_of v else None) [kv] else [])"
  by (auto simp: fold_span_def span_of_def Let_def List.map_filter_simps split: prod.splits option.splits)

lemma fold_spans_loaded:
  "hm_list (fs_loaded (foldl (fold_span adv) st kvs)) shard = hm_list (fs_loaded st) shard @
     (if adv then List.map_filter (\<lambda>(k, v). if k = shard then span_of v else None) kvs else [])"
proof (induction kvs arbitrary: st)
  case (Cons kv kvs)
  then show ?case using fold_span_loaded [of adv st kv shard]
    by (auto simp: List.map_filter_simps split: option.splits)
qed (simp add: List.map_filter_simps)

lemma fold_span_other:
  "fs_recreated (fold_span adv st kv) = fs_recreated st" "fs_corrupt (fold_span adv st kv) = fs_corrupt st"
  "set (fs_evidenced (fold_span adv st kv)) = insert (fst kv) (set (fs_evidenced st))"
  "distinct (fs_evidenced st) \<Longrightarrow> distinct (fs_evidenced (fold_span adv st kv))"
  by (auto simp: fold_span_def Let_def split: prod.splits option.splits)

lemma fold_spans_other:
  "fs_recreated (foldl (fold_span adv) st kvs) = fs_recreated st \<and> fs_corrupt (foldl (fold_span adv) st kvs) = fs_corrupt st \<and>
   set (fs_evidenced (foldl (fold_span adv) st kvs)) = fst ` set kvs \<union> set (fs_evidenced st) \<and>
   (distinct (fs_evidenced st) \<longrightarrow> distinct (fs_evidenced (foldl (fold_span adv) st kvs)))"
  by (induction kvs arbitrary: st) (auto simp: fold_span_other)

text \<open>A row that condemns the whole frontier, and a row that names a shard.\<close>

definition condemns :: "string \<Rightarrow> int option \<Rightarrow> row_evidence \<Rightarrow> bool" where
  "condemns stream current row \<longleftrightarrow>
     (if row_matches stream (re_payload row) then
        json_get (re_payload row) ''kinesisSequences'' \<noteq> None \<and>
        (members stream row = [] \<or> identity_gate (re_payload row) current = None)
      else attribution_corrupt stream (re_payload row))"

lemma fold_row_effect:
  "hm_list (fs_loaded (fold_row stream cur st row)) shard = hm_list (fs_loaded st) shard @ admitted_spans stream cur shard row"
  "fs_recreated (fold_row stream cur st row) \<or> fs_corrupt (fold_row stream cur st row) \<longleftrightarrow>
     fs_recreated st \<or> fs_corrupt st \<or> condemns stream cur row"
  "set (fs_evidenced (fold_row stream cur st row)) = set (fs_evidenced st) \<union>
     (if condemns stream cur row then {} else fst ` set (members stream row))"
  "distinct (fs_evidenced st) \<Longrightarrow> distinct (fs_evidenced (fold_row stream cur st row))"
proof -
  let ?p = "re_payload row"
  let ?st = "fold_row stream cur st row"
  note defs = fold_row_def Let_def admitted_spans_def admits_def members_def condemns_def
  have "hm_list (fs_loaded ?st) shard = hm_list (fs_loaded st) shard @ admitted_spans stream cur shard row \<and>
    (fs_recreated ?st \<or> fs_corrupt ?st \<longleftrightarrow> fs_recreated st \<or> fs_corrupt st \<or> condemns stream cur row) \<and>
    set (fs_evidenced ?st) = set (fs_evidenced st) \<union> (if condemns stream cur row then {} else fst ` set (members stream row)) \<and>
    (distinct (fs_evidenced st) \<longrightarrow> distinct (fs_evidenced ?st))"
  proof (cases "row_matches stream ?p")
    case False
    then show ?thesis by (simp add: defs List.map_filter_simps)
  next
    case m: True
    show ?thesis
    proof (cases "\<exists>x xs. json_get ?p ''kinesisSequences'' = Some (JObject (x # xs))")
      case True
      then obtain x xs where x: "json_get ?p ''kinesisSequences'' = Some (JObject (x # xs))" by blast
      define ms where "ms = x # xs"
      have mem: "members stream row = ms" using m x by (simp add: members_def ms_def)
      have "?st = (case identity_gate ?p cur of None \<Rightarrow> st\<lparr>fs_recreated := True\<rparr>
          | Some ok \<Rightarrow> foldl (fold_span (ok \<and> re_loaded row)) st ms)"
        unfolding ms_def using m x by (simp add: fold_row_def Let_def)
      moreover have "condemns stream cur row \<longleftrightarrow> identity_gate ?p cur = None"
        using m x mem by (simp add: condemns_def ms_def)
      ultimately show ?thesis
        by (cases "identity_gate ?p cur")
          (auto simp: admitted_spans_def admits_def mem fold_spans_loaded fold_spans_other)
    next
      case False
      with m show ?thesis
        by (auto simp: defs List.map_filter_simps split: option.splits json.splits list.splits)
    qed
  qed
  then show "hm_list (fs_loaded ?st) shard = hm_list (fs_loaded st) shard @ admitted_spans stream cur shard row"
    "fs_recreated ?st \<or> fs_corrupt ?st \<longleftrightarrow> fs_recreated st \<or> fs_corrupt st \<or> condemns stream cur row"
    "set (fs_evidenced ?st) = set (fs_evidenced st) \<union> (if condemns stream cur row then {} else fst ` set (members stream row))"
    "distinct (fs_evidenced st) \<Longrightarrow> distinct (fs_evidenced ?st)"
    by blast+
qed

lemma fold_rows_effect:
  defines "final \<equiv> \<lambda>stream cur rows. foldl (fold_row stream cur)
     \<lparr>fs_evidenced = [], fs_loaded = [], fs_recreated = False, fs_corrupt = False\<rparr> rows"
  shows "hm_list (fs_loaded (final stream cur rows)) shard = concat (map (admitted_spans stream cur shard) rows)"
    "fs_recreated (final stream cur rows) \<or> fs_corrupt (final stream cur rows) \<longleftrightarrow> (\<exists>row \<in> set rows. condemns stream cur row)"
    "set (fs_evidenced (final stream cur rows)) =
       (\<Union>row \<in> set rows. if condemns stream cur row then {} else fst ` set (members stream row))"
    "distinct (fs_evidenced (final stream cur rows))"
  unfolding final_def by (induction rows rule: rev_induct) (auto simp: fold_row_effect)

lemma fold_resume_frontier_shard:
  "hm_get (rf_shards (fold_resume_frontier rows stream cur)) shard =
     (if \<exists>row \<in> set rows. \<not> condemns stream cur row \<and> shard \<in> fst ` set (members stream row)
      then Some (shard_resume_new shard (concat (map (admitted_spans stream cur shard) rows))) else None)"
proof -
  let ?st = "foldl (fold_row stream cur) \<lparr>fs_evidenced = [], fs_loaded = [], fs_recreated = False, fs_corrupt = False\<rparr> rows"
  have "map_of (map (\<lambda>k. (k, f k)) ks) shard = (if shard \<in> set ks then Some (f shard) else None)" for f :: "string \<Rightarrow> shard_resume" and ks
    by (induction ks) auto
  then have "hm_get (rf_shards (fold_resume_frontier rows stream cur)) shard =
      (if shard \<in> set (fs_evidenced ?st) then Some (shard_resume_new shard (hm_list (fs_loaded ?st) shard)) else None)"
    by (simp add: fold_resume_frontier_def Let_def hm_get_def)
  then show ?thesis unfolding fold_rows_effect(1,3) by auto
qed

lemma fold_resume_frontier_condemned:
  "rf_stream_recreated (fold_resume_frontier rows stream cur) \<or> rf_checkpoint_corrupt (fold_resume_frontier rows stream cur)
     \<longleftrightarrow> (\<exists>row \<in> set rows. condemns stream cur row)"
  using fold_rows_effect(2) by (simp add: fold_resume_frontier_def Let_def)

lemma start_position_for_fold:
  "start_position_for (fold_resume_frontier rows stream cur) shard dflt =
     (if \<exists>row \<in> set rows. condemns stream cur row then TrimHorizon
      else if \<exists>row \<in> set rows. shard \<in> fst ` set (members stream row)
      then resume_start_position (shard_resume_new shard (concat (map (admitted_spans stream cur shard) rows)))
      else dflt)"
  unfolding start_position_for_def fold_resume_frontier_condemned fold_resume_frontier_shard by auto

lemma resume_cases: "resume_start_position r = TrimHorizon \<or> (\<exists>p. resume_start_position r = AfterSequenceNumber p)"
  by (auto simp: resume_start_position_def split: option.splits)

section \<open>Payloads are read back\<close>

lemma span_of_payload:
  assumes "canonical (sp_start s)" "canonical (sp_last s)" "\<forall>p. sp_prev_last s = Some p \<longrightarrow> canonical p"
  shows "span_of (span_to_json s) = Some s"
proof -
  have "seq_field (span_to_json s) ''start'' = Some (sp_start s)" "seq_field (span_to_json s) ''last'' = Some (sp_last s)"
    using assms by (simp_all add: seq_field_def span_to_json_def seq_parse_canonical)
  moreover have "prev_field (span_to_json s) = Some (sp_prev_last s)"
    using assms by (cases "sp_prev_last s") (simp_all add: prev_field_def span_to_json_def seq_parse_canonical)
  ultimately show ?thesis by (simp add: span_of_def)
qed

lemma map_filter_payload:
  fixes seqs :: "(string \<times> seq_span) list"
  assumes "distinct (map fst seqs)" and "(shard, s) \<in> set seqs" and "span_of (span_to_json s) = Some s"
  shows "List.map_filter (\<lambda>(k, v). if k = shard then span_of v else None)
     (map (\<lambda>(shard, spn). (shard, span_to_json spn)) seqs) = [s]"
  using assms
proof (induction seqs)
  case (Cons q seqs)
  have "List.map_filter (\<lambda>(k, v). if k = shard then span_of v else None) (map (\<lambda>(shard, spn). (shard, span_to_json spn)) qs) = []"
    if "shard \<notin> fst ` set qs" for qs :: "(string \<times> seq_span) list"
    using that by (induction qs) (auto simp: List.map_filter_simps)
  then show ?case using Cons by (cases q) (force simp: List.map_filter_simps)
qed simp

end
