(* ===== verification/Kinesis_Properties.thy ===== *)
theory Kinesis_Properties
  imports Kinesis_Safety
begin

text \<open>
  The properties of the Kinesis resume frontier, over the rows of durable segments and the position
  from which a shard is consumed again.
\<close>

section \<open>A durable row\<close>

text \<open>The payload of a segment that covers spans of some shards of the stream \<open>s\<close>, generation 7.\<close>

definition test_payload :: "(string \<times> seq_span) list \<Rightarrow> row_evidence" where
  "test_payload seqs = \<lparr>re_payload = JObject [(''kind'', JString ''kinesis-streaming''), (''stream'', JString ''s''),
     (''streamCreationTimestampMillis'', JNumber (PosInt 7)), (''kinesisSequences'', sequences_to_payload seqs)],
     re_loaded = True\<rparr>"

definition test_span :: "string \<Rightarrow> string \<Rightarrow> string option \<Rightarrow> seq_span" where
  "test_span a b p = \<lparr>sp_start = SeqNum a, sp_last = SeqNum b, sp_prev_last = map_option SeqNum p\<rparr>"

definition test_rows :: "row_evidence list" where
  "test_rows = [test_payload [(''sh'', test_span ''10'' ''20'' None)],
     test_payload [(''sh'', test_span ''25'' ''30'' (Some ''20''))]]"

lemma test_rows_admitted:
  "admitted_spans ''s'' (Some 7) ''sh'' (test_payload [(''sh'', test_span ''10'' ''20'' None)]) = [test_span ''10'' ''20'' None]"
  "admitted_spans ''s'' (Some 7) ''sh'' (test_payload [(''sh'', test_span ''25'' ''30'' (Some ''20''))]) = [test_span ''25'' ''30'' (Some ''20'')]"
  by code_simp+

section \<open>No loss\<close>

text \<open>C1: When the frontier resumes a shard after the sequence number \<open>P\<close>, every record of the shard up to
  \<open>P\<close> is durable. The hypothesis is what the writer of the payloads guarantees: each span of a
  reloaded row of the current stream generation covers durable records only, no record lies between
  its link and its start, and none lies below an unlinked span.\<close>

theorem resume_no_loss:
  assumes "\<forall>row \<in> set rows. \<forall>s \<in> set (admitted_spans stream cur shard row). truthful recs durable s"
    and "start_position_for (fold_resume_frontier rows stream cur) shard dflt = AfterSequenceNumber p"
    and "\<forall>q. dflt \<noteq> AfterSequenceNumber q" and "x \<in> recs" and "x \<le> p"
  shows "x \<in> durable"
proof -
  let ?spans = "concat (map (admitted_spans stream cur shard) rows)"
  have "resume_start_position (shard_resume_new shard ?spans) = AfterSequenceNumber p"
    using assms(2,3) by (auto simp: start_position_for_fold split: if_splits)
  moreover have "\<forall>s \<in> set ?spans. truthful recs durable s" using assms(1) by auto
  ultimately show ?thesis using resume_durable assms(4,5) by blast
qed

theorem resume_no_loss_witness:
  "start_position_for (fold_resume_frontier test_rows ''s'' (Some 7)) ''sh'' Latest = AfterSequenceNumber (SeqNum ''30'') \<and>
   SeqNum ''25'' \<in> {SeqNum ''10'', SeqNum ''25'', SeqNum ''30''}"
proof -
  let ?D = "{SeqNum ''10'', SeqNum ''25'', SeqNum ''30''}" and ?recs = "{SeqNum ''10'', SeqNum ''25'', SeqNum ''30'', SeqNum ''44''}"
  have p: "start_position_for (fold_resume_frontier test_rows ''s'' (Some 7)) ''sh'' Latest = AfterSequenceNumber (SeqNum ''30'')"
    by code_simp
  have "truthful ?recs ?D (test_span ''10'' ''20'' None)" "truthful ?recs ?D (test_span ''25'' ''30'' (Some ''20''))"
    by (simp_all add: truthful_def test_span_def less_eq_seq_num_def seq_le_def less_eq_char_def less_char_def)
  then have t: "\<forall>row \<in> set test_rows. \<forall>s \<in> set (admitted_spans ''s'' (Some 7) ''sh'' row). truthful ?recs ?D s"
    by (simp add: test_rows_def test_rows_admitted)
  have "SeqNum ''25'' \<in> ?recs" "SeqNum ''25'' \<le> SeqNum ''30''"
    by (simp_all add: less_eq_seq_num_def seq_le_def less_eq_char_def less_char_def)
  from resume_no_loss [OF t p _ this] p show ?thesis by simp
qed

text \<open>A shard that any checkpoint of the stream names is never started at the default position: it
  resumes from the oldest retained record or after a proven position. The same holds for every shard
  when a checkpoint of the stream is unreadable or belongs to another generation of the stream.\<close>

theorem named_shard_never_default:
  assumes "row \<in> set rows" and "condemns stream cur row \<or> shard \<in> fst ` set (members stream row)"
  shows "start_position_for (fold_resume_frontier rows stream cur) shard dflt = TrimHorizon \<or>
     (\<exists>p. start_position_for (fold_resume_frontier rows stream cur) shard dflt = AfterSequenceNumber p)"
  using assms resume_cases by (auto simp: start_position_for_fold)

theorem named_shard_never_default_witness:
  "start_position_for (fold_resume_frontier [test_payload []] ''s'' (Some 7)) ''sh'' Latest = TrimHorizon \<or>
   (\<exists>p. start_position_for (fold_resume_frontier [test_payload []] ''s'' (Some 7)) ''sh'' Latest = AfterSequenceNumber p)"
proof -
  have "condemns ''s'' (Some 7) (test_payload [])" by code_simp
  then show ?thesis by (intro named_shard_never_default [of "test_payload []"]) simp_all
qed

text \<open>C35: Progress: when the reloaded spans of a shard, in whatever order, form one unbroken chain from
  an unlinked span, the shard resumes right after the end of the chain.\<close>

theorem chain_resumes_at_end:
  assumes "\<not> (\<exists>row \<in> set rows. condemns stream cur row)" and "chained None chain" and "chain \<noteq> []"
    and "mset (concat (map (admitted_spans stream cur shard) rows)) = mset chain"
  shows "start_position_for (fold_resume_frontier rows stream cur) shard dflt = AfterSequenceNumber (sp_last (last chain))"
proof -
  have "\<exists>row \<in> set rows. admitted_spans stream cur shard row \<noteq> []"
  proof (rule ccontr)
    assume "\<not> ?thesis"
    then have "mset chain = {#}" unfolding assms(4) [symmetric] by simp
    then show False using assms(3) by simp
  qed
  then obtain row where r: "row \<in> set rows" "admitted_spans stream cur shard row \<noteq> []" by blast
  have "shard \<in> fst ` set (members stream row)"
  proof (rule ccontr)
    assume "shard \<notin> fst ` set (members stream row)"
    then have "\<forall>(k, v) \<in> set (members stream row). k \<noteq> shard" by force
    then have "List.map_filter (\<lambda>(k, v). if k = shard then span_of v else None) kvs = []" if "set kvs \<subseteq> set (members stream row)" for kvs
      using that by (induction kvs) (auto simp: List.map_filter_simps)
    then show False using r(2) by (simp add: admitted_spans_def split: if_splits)
  qed
  then show ?thesis using assms(1) r(1) resume_chain [OF assms(4,2,3)] by (auto simp: start_position_for_fold)
qed

theorem chain_resumes_at_end_witness:
  "start_position_for (fold_resume_frontier (rev test_rows) ''s'' (Some 7)) ''sh'' Latest = AfterSequenceNumber (SeqNum ''30'')"
proof -
  let ?chain = "[test_span ''10'' ''20'' None, test_span ''25'' ''30'' (Some ''20'')]"
  have 1: "\<not> (\<exists>row \<in> set (rev test_rows). condemns ''s'' (Some 7) row)" by code_simp
  have 2: "chained None ?chain" by code_simp
  have 3: "mset (concat (map (admitted_spans ''s'' (Some 7) ''sh'') (rev test_rows))) = mset ?chain"
    by (simp add: test_rows_def test_rows_admitted)
  from chain_resumes_at_end [OF 1 2 _ 3] show ?thesis by (simp add: test_span_def)
qed

section \<open>Sequence numbers and payloads\<close>

text \<open>Comparing parsed sequence numbers compares the numbers the digit strings denote, however long
  the strings are and whatever zeros they start with; equal numbers give equal sequence numbers.\<close>

theorem seq_order_numeric:
  assumes "seq_parse s = Ok a" and "seq_parse t = Ok b"
  shows "(a < b \<longleftrightarrow> decimal s < decimal t) \<and> (a = b \<longleftrightarrow> decimal s = decimal t)"
  using seq_parse_Ok [OF assms(1)] seq_parse_Ok [OF assms(2)] seq_less_val seq_eq_val by metis

theorem seq_order_numeric_witness:
  "SeqNum ''99'' < SeqNum ''100'' \<longleftrightarrow> decimal ''0099'' < decimal ''100''"
proof -
  have "seq_parse ''0099'' = Ok (SeqNum ''99'')" "seq_parse ''100'' = Ok (SeqNum ''100'')" by code_simp+
  from seq_order_numeric [OF this] show ?thesis by blast
qed

text \<open>The payload written for a segment is read back: a reloaded row of the current generation with
  the payload of \<open>sequences_to_payload\<close> contributes to each of its shards exactly the span that was
  stamped.\<close>

theorem payload_roundtrip:
  assumes "row_matches stream (re_payload row)" and "admits cur row"
    and "json_get (re_payload row) ''kinesisSequences'' = Some (sequences_to_payload seqs)"
    and "distinct (map fst seqs)" and "(shard, s) \<in> set seqs"
    and "canonical (sp_start s)" and "canonical (sp_last s)" and "\<forall>p. sp_prev_last s = Some p \<longrightarrow> canonical p"
  shows "hm_get (rf_shards (fold_resume_frontier [row] stream cur)) shard = Some (shard_resume_new shard [s])"
proof -
  let ?ms = "map (\<lambda>(shard, spn). (shard, span_to_json spn)) seqs"
  have mem: "members stream row = ?ms" using assms(1,3) by (simp add: members_def sequences_to_payload_def)
  have "admitted_spans stream cur shard row = [s]"
    using map_filter_payload [OF assms(4,5) span_of_payload [OF assms(6-8)]] assms(2) mem
    by (simp add: admitted_spans_def)
  moreover have "shard \<in> fst ` set ?ms" using assms(5) by force
  moreover have "\<not> condemns stream cur row"
    using assms(1-3,5) mem by (auto simp: condemns_def admits_def sequences_to_payload_def)
  ultimately show ?thesis using mem by (simp add: fold_resume_frontier_shard)
qed

theorem payload_roundtrip_witness:
  "hm_get (rf_shards (fold_resume_frontier [test_payload [(''sh'', test_span ''10'' ''20'' None)]] ''s'' (Some 7))) ''sh''
     = Some (shard_resume_new ''sh'' [test_span ''10'' ''20'' None])"
proof (rule payload_roundtrip [where seqs = "[(''sh'', test_span ''10'' ''20'' None)]"])
  show "row_matches ''s'' (re_payload (test_payload [(''sh'', test_span ''10'' ''20'' None)]))" by code_simp
  show "admits (Some 7) (test_payload [(''sh'', test_span ''10'' ''20'' None)])" by code_simp
  show "canonical (sp_start (test_span ''10'' ''20'' None))" "canonical (sp_last (test_span ''10'' ''20'' None))" by code_simp+
qed (simp_all add: test_payload_def test_span_def)

end
