(* ===== verification/Memory.thy ===== *)
theory Memory
  imports Prelude "HOL-Library.Multiset"
begin

text \<open>
  The memory budget of query execution (ferrodruid-common, \<open>memory.rs\<close>). The counter is a 64-bit
  atomic; \<open>fetch_add\<close> and \<open>fetch_sub\<close> wrap. The sum \<open>prev + bytes\<close> in the check wraps too, since the
  release profile leaves overflow checks off. Threads interleave at the atomic operations: a failed
  allocation has already added its bytes when it finds the budget exceeded and takes them back in a
  second atomic step, between which other threads see the inflated counter.
\<close>

section \<open>Model\<close>

record memory_tracker =
  mt_used_bytes :: u64
  mt_max_bytes :: u64

datatype memory_error = LimitExceeded u64 u64 u64

definition tracker_new :: "u64 \<Rightarrow> memory_tracker" where
  "tracker_new max_bytes = \<lparr>mt_used_bytes = 0, mt_max_bytes = max_bytes\<rparr>"

definition fetch_add :: "memory_tracker \<Rightarrow> u64 \<Rightarrow> u64 \<times> memory_tracker" where
  "fetch_add t n = (mt_used_bytes t, t\<lparr>mt_used_bytes := mt_used_bytes t + n\<rparr>)"

definition fetch_sub :: "memory_tracker \<Rightarrow> u64 \<Rightarrow> memory_tracker" where
  "fetch_sub t n = t\<lparr>mt_used_bytes := mt_used_bytes t - n\<rparr>"

definition exceeds :: "memory_tracker \<Rightarrow> u64 \<Rightarrow> u64 \<Rightarrow> bool" where
  "exceeds t prev bytes \<longleftrightarrow> mt_max_bytes t < prev + bytes"

text \<open>An allocation that is not interrupted. The guard of a successful one is its byte count.\<close>

definition allocate :: "memory_tracker \<Rightarrow> u64 \<Rightarrow> (u64, memory_error) res \<times> memory_tracker" where
  "allocate t bytes =
     (let (prev, t') = fetch_add t bytes
      in if exceeds t prev bytes then (fail (LimitExceeded bytes prev (mt_max_bytes t)), fetch_sub t' bytes)
         else (Ok bytes, t'))"

definition mt_used :: "memory_tracker \<Rightarrow> u64" where
  "mt_used t = mt_used_bytes t"

definition available :: "memory_tracker \<Rightarrow> u64" where
  "available t = (if mt_used t \<le> mt_max_bytes t then mt_max_bytes t - mt_used t else 0)"

definition drop_guard :: "memory_tracker \<Rightarrow> u64 \<Rightarrow> memory_tracker" where
  "drop_guard t guard = fetch_sub t guard"

section \<open>Threads\<close>

text \<open>
  \<open>guards\<close> are the live guards of all threads, \<open>undoing\<close> the requests that failed and have not
  taken their bytes back yet. A request fits when the counter does not wrap.
\<close>

record mem_sys =
  ms_tracker :: memory_tracker
  ms_guards :: "u64 multiset"
  ms_undoing :: "u64 multiset"

definition total_bytes :: "u64 multiset \<Rightarrow> nat" where
  "total_bytes M = sum_mset (image_mset unat M)"

definition alloc_begin :: "mem_sys \<Rightarrow> u64 \<Rightarrow> mem_sys" where
  "alloc_begin s bytes =
     (let (prev, t) = fetch_add (ms_tracker s) bytes
      in if exceeds (ms_tracker s) prev bytes
         then s\<lparr>ms_tracker := t, ms_undoing := add_mset bytes (ms_undoing s)\<rparr>
         else s\<lparr>ms_tracker := t, ms_guards := add_mset bytes (ms_guards s)\<rparr>)"

inductive mem_step :: "mem_sys \<Rightarrow> mem_sys \<Rightarrow> bool" where
  request: "unat (mt_used (ms_tracker s)) + unat bytes < 2 ^ 64 \<Longrightarrow> mem_step s (alloc_begin s bytes)"
| undo: "bytes \<in># ms_undoing s \<Longrightarrow>
    mem_step s (s\<lparr>ms_tracker := fetch_sub (ms_tracker s) bytes, ms_undoing := ms_undoing s - {#bytes#}\<rparr>)"
| release: "guard \<in># ms_guards s \<Longrightarrow>
    mem_step s (s\<lparr>ms_tracker := drop_guard (ms_tracker s) guard, ms_guards := ms_guards s - {#guard#}\<rparr>)"

definition mem_init :: "u64 \<Rightarrow> mem_sys \<Rightarrow> bool" where
  "mem_init max_bytes s \<longleftrightarrow> s = \<lparr>ms_tracker = tracker_new max_bytes, ms_guards = {#}, ms_undoing = {#}\<rparr>"

section \<open>The budget is kept\<close>

definition mem_inv :: "u64 \<Rightarrow> mem_sys \<Rightarrow> bool" where
  "mem_inv max_bytes s \<longleftrightarrow> mt_max_bytes (ms_tracker s) = max_bytes \<and>
     unat (mt_used (ms_tracker s)) = total_bytes (ms_guards s) + total_bytes (ms_undoing s) \<and>
     total_bytes (ms_guards s) \<le> unat max_bytes"

lemma total_bytes_simps [simp]:
  "total_bytes {#} = 0" "total_bytes (add_mset n M) = unat n + total_bytes M"
  by (simp_all add: total_bytes_def)

lemma total_bytes_remove: "n \<in># M \<Longrightarrow> total_bytes M = unat n + total_bytes (M - {#n#})"
  by (metis insert_DiffM total_bytes_simps(2))

lemma unat_add_no_wrap: "unat (a :: u64) + unat b < 2 ^ 64 \<Longrightarrow> unat (a + b) = unat a + unat b"
  by (simp add: unat_word_ariths)

lemma unat_sub_le: "unat (b :: u64) \<le> unat a \<Longrightarrow> unat (a - b) = unat a - unat b"
  by (simp add: unat_sub word_le_nat_alt)

lemma mem_inv_step: "mem_inv mx s \<Longrightarrow> mem_step s t \<Longrightarrow> mem_inv mx t"
proof -
  assume inv: "mem_inv mx s" and "mem_step s t"
  from this(2) show ?thesis
  proof cases
    case (request bytes)
    then show ?thesis using inv
      by (auto simp: mem_inv_def alloc_begin_def fetch_add_def exceeds_def mt_used_def unat_add_no_wrap
          word_less_nat_alt Let_def not_less)
  next
    case (undo bytes)
    then show ?thesis using inv total_bytes_remove [of bytes "ms_undoing s"]
      by (auto simp: mem_inv_def fetch_sub_def mt_used_def unat_sub_le)
  next
    case (release guard)
    then show ?thesis using inv total_bytes_remove [of guard "ms_guards s"]
      by (auto simp: mem_inv_def drop_guard_def fetch_sub_def mt_used_def unat_sub_le)
  qed
qed

interpretation mem: inductive_invariant "mem_init mx" mem_step "mem_inv mx" for mx
proof
  fix s assume "mem_init mx s"
  then show "mem_inv mx s" by (simp add: mem_init_def mem_inv_def tracker_new_def mt_used_def)
qed (rule mem_inv_step)

section \<open>Properties\<close>

text \<open>C36: However the threads interleave, as long as no request makes the 64-bit counter wrap, the live
  guards never hold more than the budget, and once no failed request is still being undone the
  counter is exactly what they hold.\<close>

theorem budget_respected:
  assumes "reachable (mem_init max_bytes) mem_step s"
  shows "total_bytes (ms_guards s) \<le> unat max_bytes \<and>
     (ms_undoing s = {#} \<longrightarrow> unat (mt_used (ms_tracker s)) = total_bytes (ms_guards s) \<and>
        unat (available (ms_tracker s)) = unat max_bytes - total_bytes (ms_guards s))"
proof -
  have inv: "mem_inv max_bytes s" by (rule mem.reachable_inv [OF assms])
  have "unat (available (ms_tracker s)) = unat max_bytes - total_bytes (ms_guards s)" if "ms_undoing s = {#}"
    using inv that by (auto simp: mem_inv_def available_def unat_sub_le word_le_nat_alt)
  with inv show ?thesis by (auto simp: mem_inv_def)
qed

theorem budget_respected_witness:
  "\<exists>s. ms_guards s = {#400#} \<and> reachable (mem_init 1000) mem_step s \<and> total_bytes (ms_guards s) \<le> unat (1000 :: u64)"
proof -
  let ?s = "\<lparr>ms_tracker = tracker_new 1000, ms_guards = {#}, ms_undoing = {#}\<rparr>"
  have "reachable (mem_init 1000) mem_step ?s" by (rule reachable.start) (simp add: mem_init_def)
  moreover have "mem_step ?s (alloc_begin ?s 400)" by (rule mem_step.request) (simp add: mt_used_def tracker_new_def)
  ultimately have r: "reachable (mem_init 1000) mem_step (alloc_begin ?s 400)" by (rule reachable.next_step)
  moreover have "ms_guards (alloc_begin ?s 400) = {#400#}"
    by (simp add: alloc_begin_def fetch_add_def exceeds_def tracker_new_def)
  ultimately show ?thesis using budget_respected [OF r] by blast
qed

text \<open>The sum in the budget check wraps: on a tracker of 1000 bytes with 400 in use, a request of
  \<open>2 ^ 64 - 400\<close> bytes is granted, and the counter then reads 0 while the guards hold almost the
  whole address space.\<close>

theorem wrapping_request_granted:
  "allocate \<lparr>mt_used_bytes = 400, mt_max_bytes = 1000\<rparr> (- 400)
     = (Ok (- 400), \<lparr>mt_used_bytes = 0, mt_max_bytes = 1000\<rparr>) \<and>
   unat (- 400 :: u64) = 2 ^ 64 - 400"
  by (simp add: allocate_def fetch_add_def exceeds_def)

end
