(* ===== verification/Smoosh.thy ===== *)
theory Smoosh
  imports Hash_Map Text
begin

text \<open>
  The smoosh container of ferrodruid-segment: the reader (\<open>smoosh.rs\<close>) with its index parser and the
  sweep for sidecar files, the check of entry names, and the writer that packs logical files into
  one chunk (\<open>writer.rs\<close>, \<open>SmooshWriter\<close>). \<open>usize\<close> has 64 bits. What the file system answers when a
  directory is opened is the record \<open>smoosh_dir\<close>. Warnings that are only logged are left out; error
  values carry the name or the count of the message. A text is the list of the bytes of its UTF-8 form.
\<close>

section \<open>Lines and fields\<close>

abbreviation NL :: char where "NL \<equiv> CHR 0x0A"
abbreviation CR :: char where "CR \<equiv> CHR 0x0D"

definition strip_cr :: "string \<Rightarrow> string" where
  "strip_cr s = (case strip_suffix CR s of Some t \<Rightarrow> t | None \<Rightarrow> s)"

text \<open>\<open>str::lines\<close>: a carriage return is dropped only in front of a line feed, and there is no empty
  line behind the last line feed. The first argument is the line read so far.\<close>

fun lines_from :: "string \<Rightarrow> string \<Rightarrow> string list" where
  "lines_from acc [] = (if acc = [] then [] else [acc])"
| "lines_from acc (c # cs) =
     (if c = NL then strip_cr acc # lines_from [] cs else lines_from (acc @ [c]) cs)"

definition str_lines :: "string \<Rightarrow> string list" where
  "str_lines s = lines_from [] s"

text \<open>\<open>str::split\<close> at a character.\<close>

fun split_on :: "char \<Rightarrow> string \<Rightarrow> string list" where
  "split_on c [] = [[]]"
| "split_on c (x # xs) =
     (if x = c then [] # split_on c xs
      else case split_on c xs of p # ps \<Rightarrow> (x # p) # ps | [] \<Rightarrow> [[x]])"

fun join_lines :: "string list \<Rightarrow> string" where
  "join_lines [] = []"
| "join_lines [l] = l"
| "join_lines (l # ls) = l @ NL # join_lines ls"

definition contains_str :: "string \<Rightarrow> string \<Rightarrow> bool" where
  "contains_str p s \<longleftrightarrow> list_ex (\<lambda>i. take (length p) (drop i s) = p) [0..<Suc (length s)]"

section \<open>Entry names\<close>

definition MAX_SMOOSH_ENTRIES :: nat where "MAX_SMOOSH_ENTRIES = 16384"
definition MAX_SMOOSH_CHUNKS :: nat where "MAX_SMOOSH_CHUNKS = 65536"
definition MAX_SIDECAR_BYTES :: nat where "MAX_SIDECAR_BYTES = 1048576"
definition MAX_SIDECAR_FILES :: nat where "MAX_SIDECAR_FILES = 256"
definition SMOOSH_MAX_CHUNK_SIZE :: nat where "SMOOSH_MAX_CHUNK_SIZE = 2147483647"

definition RESERVED_SEGMENT_ENTRY_NAMES :: "string list" where
  "RESERVED_SEGMENT_ENTRY_NAMES =
     [''version.bin'', ''factory.json'', ''meta.smoosh'', ''metadata.drd'', ''index.drd'']"

datatype smoosh_error =
    EmptyName
  | ReservedName string
  | UnrepresentableName string
  | MetaUnreadable
  | MetaEmpty
  | UnsupportedHeader
  | BadMaxChunkSize
  | BadNumFiles
  | NumFilesCap nat
  | MalformedEntryLine
  | BadFileNumber
  | FileNumberCap nat
  | BadStartOffset
  | BadEndOffset
  | EntryCountCap
  | NumChunksCap nat
  | ChunkUnreadable nat
  | SidecarUnreadable string
  | FileNotFound string
  | ChunkOutOfRange nat
  | ReversedOffsets string
  | PastEndOfChunk string
  | TooManyFiles nat
  | TotalOverflows
  | ChunkTooLarge nat

definition validate_smoosh_entry_name :: "string \<Rightarrow> (unit, smoosh_error) res" where
  "validate_smoosh_entry_name name =
     (if name = [] then fail EmptyName
      else if name \<in> set RESERVED_SEGMENT_ENTRY_NAMES then fail (ReservedName name)
      else if CHR '','' \<in> set name \<or> NL \<in> set name \<or> CR \<in> set name \<or> CHR ''/'' \<in> set name
        then fail (UnrepresentableName name)
      else Ok ())"

section \<open>Reader\<close>

record smoosh_entry =
  se_file_number :: nat
  se_start_offset :: nat
  se_end_offset :: nat

record smoosh_reader =
  sr_entries :: "(string, smoosh_entry) hash_map"
  sr_chunks :: "byte list list"
  sr_sidecars :: "(string, byte list) hash_map"

definition parse_usize :: "smoosh_error \<Rightarrow> string \<Rightarrow> (nat, smoosh_error) res" where
  "parse_usize e s = (case parse_unsigned 64 s of Some n \<Rightarrow> Ok n | None \<Rightarrow> fail e)"

definition parse_entry :: "string \<Rightarrow> (string \<times> smoosh_entry, smoosh_error) res" where
  "parse_entry line =
     (let parts = split_on CHR '','' line in
      if length parts < 4 then fail MalformedEntryLine
      else bind (parse_usize BadFileNumber (parts ! 1)) (\<lambda>file_number.
        if MAX_SMOOSH_CHUNKS \<le> file_number then fail (FileNumberCap file_number)
        else bind (parse_usize BadStartOffset (parts ! 2)) (\<lambda>start_offset.
             bind (parse_usize BadEndOffset (parts ! 3)) (\<lambda>end_offset.
             Ok (parts ! 0, \<lparr>se_file_number = file_number, se_start_offset = start_offset,
                  se_end_offset = end_offset\<rparr>)))))"

fun parse_entries ::
    "string list \<Rightarrow> (string, smoosh_entry) hash_map \<Rightarrow> nat
       \<Rightarrow> ((string, smoosh_entry) hash_map \<times> nat, smoosh_error) res" where
  "parse_entries [] entries max_chunk_index = Ok (entries, max_chunk_index)"
| "parse_entries (line # ls) entries max_chunk_index =
     (let line = trim_unicode line in
      if line = [] then parse_entries ls entries max_chunk_index
      else bind (parse_entry line) (\<lambda>(filename, entry).
        let max_chunk_index =
              (if max_chunk_index \<le> se_file_number entry then se_file_number entry + 1 else max_chunk_index);
            entries = hm_insert filename entry entries
        in if MAX_SMOOSH_ENTRIES < length entries then fail EntryCountCap
           else parse_entries ls entries max_chunk_index))"

definition parse_meta ::
    "string \<Rightarrow> (nat \<times> nat \<times> (string, smoosh_entry) hash_map, smoosh_error) res" where
  "parse_meta meta =
     (case str_lines meta of
        [] \<Rightarrow> fail MetaEmpty
      | header # ls \<Rightarrow>
          let header_parts = split_on CHR '','' header in
          if length header_parts < 3 \<or> header_parts ! 0 \<noteq> ''v1'' then fail UnsupportedHeader
          else bind (parse_usize BadMaxChunkSize (header_parts ! 1)) (\<lambda>max_chunk_size.
               bind (parse_usize BadNumFiles (header_parts ! 2)) (\<lambda>num_files.
               if MAX_SMOOSH_ENTRIES < num_files then fail (NumFilesCap num_files)
               else bind (parse_entries ls [] 0) (\<lambda>(entries, max_chunk_index).
                 Ok (max_chunk_size, if entries = [] then 0 else max_chunk_index, entries)))))"

definition from_parts :: "string \<Rightarrow> byte list list \<Rightarrow> (smoosh_reader, smoosh_error) res" where
  "from_parts meta chunks =
     bind (parse_meta meta) (\<lambda>(_, _, entries).
       Ok \<lparr>sr_entries = entries, sr_chunks = chunks, sr_sidecars = []\<rparr>)"

definition file_names :: "smoosh_reader \<Rightarrow> string list" where
  "file_names r =
     hm_keys (sr_entries r) @ filter (\<lambda>k. hm_get (sr_entries r) k = None) (hm_keys (sr_sidecars r))"

definition has_file :: "smoosh_reader \<Rightarrow> string \<Rightarrow> bool" where
  "has_file r name \<longleftrightarrow> hm_get (sr_entries r) name \<noteq> None \<or> hm_get (sr_sidecars r) name \<noteq> None"

definition read_file :: "smoosh_reader \<Rightarrow> string \<Rightarrow> (byte list, smoosh_error) res" where
  "read_file r name =
     (case hm_get (sr_entries r) name of
        None \<Rightarrow> (case hm_get (sr_sidecars r) name of Some bytes \<Rightarrow> Ok bytes | None \<Rightarrow> fail (FileNotFound name))
      | Some entry \<Rightarrow>
          if length (sr_chunks r) \<le> se_file_number entry then fail (ChunkOutOfRange (se_file_number entry))
          else
            let chunk = sr_chunks r ! se_file_number entry in
            if se_end_offset entry < se_start_offset entry then fail (ReversedOffsets name)
            else if length chunk < se_end_offset entry then fail (PastEndOfChunk name)
            else slice chunk (se_start_offset entry) (se_end_offset entry))"

section \<open>Opening a directory\<close>

text \<open>An entry of the directory: whether it is a regular file, its name if it is valid UTF-8, its size
  if the metadata can be read, and its bytes if the file can be read.\<close>

record dir_entry =
  de_is_file :: bool
  de_name :: "string option"
  de_size :: "nat option"
  de_data :: "byte list option"

record smoosh_dir =
  sd_meta :: "string option"
  sd_chunk :: "nat \<Rightarrow> byte list option"
  sd_listing :: "dir_entry list option"

text \<open>Five digits and \<open>.smoosh\<close>. A name of twelve characters can end in \<open>.smoosh\<close> only once, so
  \<open>trim_end_matches\<close> leaves its first five characters.\<close>

definition is_chunk_name :: "string \<Rightarrow> bool" where
  "is_chunk_name name \<longleftrightarrow>
     length name = 12 \<and> drop 5 name = ''.smoosh'' \<and> list_all is_digit (take 5 name)"

definition skipped_name :: "string \<Rightarrow> bool" where
  "skipped_name name \<longleftrightarrow> name = ''meta.smoosh'' \<or> is_chunk_name name \<or> contains_str ''.tmp.'' name"

fun sweep_sidecars ::
    "dir_entry list \<Rightarrow> (string, byte list) hash_map \<Rightarrow> ((string, byte list) hash_map, smoosh_error) res" where
  "sweep_sidecars [] sidecars = Ok sidecars"
| "sweep_sidecars (e # es) sidecars =
     (case de_name e of
        None \<Rightarrow> sweep_sidecars es sidecars
      | Some name \<Rightarrow>
          if \<not> de_is_file e \<or> skipped_name name \<or> MAX_SIDECAR_FILES \<le> length sidecars
             \<or> MAX_SIDECAR_BYTES < (case de_size e of Some n \<Rightarrow> n | None \<Rightarrow> 0)
          then sweep_sidecars es sidecars
          else case de_data e of
            None \<Rightarrow> fail (SidecarUnreadable name)
          | Some bytes \<Rightarrow> sweep_sidecars es (hm_insert name bytes sidecars))"

definition open_dir :: "smoosh_dir \<Rightarrow> (smoosh_reader, smoosh_error) res" where
  "open_dir d =
     (case sd_meta d of
        None \<Rightarrow> fail MetaUnreadable
      | Some meta \<Rightarrow>
          bind (parse_meta meta) (\<lambda>(_, num_chunks, entries).
            if MAX_SMOOSH_CHUNKS < num_chunks then fail (NumChunksCap num_chunks)
            else bind (mapM (\<lambda>i. case sd_chunk d i of Some c \<Rightarrow> Ok c | None \<Rightarrow> fail (ChunkUnreadable i)) [0..<num_chunks])
              (\<lambda>chunks.
                 bind (case sd_listing d of None \<Rightarrow> Ok [] | Some es \<Rightarrow> sweep_sidecars es [])
                   (\<lambda>sidecars. Ok \<lparr>sr_entries = entries, sr_chunks = chunks, sr_sidecars = sidecars\<rparr>))))"

section \<open>Writer\<close>

record smoosh_writer =
  sw_files :: "(string \<times> byte list) list"
  sw_sidecars :: "(string \<times> byte list) list"

definition writer_new :: smoosh_writer where
  "writer_new = \<lparr>sw_files = [], sw_sidecars = []\<rparr>"

definition add_file :: "smoosh_writer \<Rightarrow> string \<Rightarrow> byte list \<Rightarrow> smoosh_writer" where
  "add_file w name data = w\<lparr>sw_files := sw_files w @ [(name, data)]\<rparr>"

definition add_sidecar_file :: "smoosh_writer \<Rightarrow> string \<Rightarrow> byte list \<Rightarrow> smoosh_writer" where
  "add_sidecar_file w name data = w\<lparr>sw_sidecars := sw_sidecars w @ [(name, data)]\<rparr>"

definition ensure_smoosh_chunk_fits :: "nat \<Rightarrow> (unit, smoosh_error) res" where
  "ensure_smoosh_chunk_fits n = (if SMOOSH_MAX_CHUNK_SIZE < n then fail (ChunkTooLarge n) else Ok ())"

fun checked_chunk_size :: "nat list \<Rightarrow> nat \<Rightarrow> (nat, smoosh_error) res" where
  "checked_chunk_size [] running = Ok running"
| "checked_chunk_size (len # lens) running =
     (if 2 ^ 64 \<le> running + len then fail TotalOverflows
      else bind (ensure_smoosh_chunk_fits (running + len)) (\<lambda>_. checked_chunk_size lens (running + len)))"

definition entry_line :: "string \<Rightarrow> nat \<Rightarrow> nat \<Rightarrow> string" where
  "entry_line name start end_pos = name @ '',0,'' @ show_nat start @ '','' @ show_nat end_pos"

fun finish_loop :: "(string \<times> byte list) list \<Rightarrow> byte list \<Rightarrow> string list \<Rightarrow> string list \<times> byte list" where
  "finish_loop [] chunk meta_lines = (meta_lines, chunk)"
| "finish_loop ((name, data) # files) chunk meta_lines =
     finish_loop files (chunk @ data)
       (meta_lines @ [entry_line name (length chunk) (length (chunk @ data))])"

definition finish :: "smoosh_writer \<Rightarrow> (string \<times> byte list list, smoosh_error) res" where
  "finish w =
     (if MAX_SMOOSH_ENTRIES < length (sw_files w) then fail (TooManyFiles (length (sw_files w)))
      else bind (checked_chunk_size (map (\<lambda>(_, data). length data) (sw_files w)) 0) (\<lambda>total.
        let header = ''v1,'' @ show_nat SMOOSH_MAX_CHUNK_SIZE @ '','' @ show_nat (length (sw_files w));
            (meta_lines, chunk) = finish_loop (sw_files w) [] [header]
        in Ok (join_lines meta_lines, [chunk])))"

end
