(* ===== verification/Smoosh_Properties.thy ===== *)
theory Smoosh_Properties
  imports Smoosh
begin

text \<open>
  The properties of the smoosh container: what the writer packs the reader finds, up to white space in front of a name,
  and whatever the index says, reading never leaves the chunks and the tables stay within the caps.
\<close>

section \<open>Lines and fields\<close>

lemma split_on_append: "c \<notin> set a \<Longrightarrow> split_on c (a @ c # b) = a # split_on c b"
  by (induction a) auto

lemma split_on_none: "c \<notin> set a \<Longrightarrow> split_on c a = [a]"
  by (induction a) auto

lemma lines_from_append: "NL \<notin> set l \<Longrightarrow> lines_from acc (l @ NL # s) = strip_cr (acc @ l) # lines_from [] s"
  by (induction l arbitrary: acc) auto

lemma lines_from_last: "NL \<notin> set l \<Longrightarrow> acc @ l \<noteq> [] \<Longrightarrow> lines_from acc l = [acc @ l]"
  by (induction l arbitrary: acc) auto

definition plain_line :: "string \<Rightarrow> bool" where
  "plain_line l \<longleftrightarrow> l \<noteq> [] \<and> NL \<notin> set l \<and> last l \<noteq> CR"

lemma strip_cr_plain: "plain_line l \<Longrightarrow> strip_cr l = l"
  by (auto simp: plain_line_def strip_cr_def strip_suffix_def)

lemma lines_join: "\<forall>l \<in> set ls. plain_line l \<Longrightarrow> lines_from [] (join_lines ls) = ls"
proof (induction ls rule: join_lines.induct)
  case (2 l)
  then show ?case using lines_from_last [of l "[]"] by (simp add: plain_line_def)
next
  case (3 l l' ls)
  then have "NL \<notin> set l" "strip_cr l = l" by (auto simp: plain_line_def strip_cr_plain)
  then show ?case using 3 lines_from_append [of l "[]"] by simp
qed simp

section \<open>Entry lines\<close>

text \<open>Names without the separators of the index.\<close>

definition representable :: "string \<Rightarrow> bool" where
  "representable name \<longleftrightarrow> CHR '','' \<notin> set name \<and> NL \<notin> set name"

lemma validated_representable: "validate_smoosh_entry_name name = Ok () \<Longrightarrow> representable name"
  by (auto simp: validate_smoosh_entry_name_def representable_def split: if_splits)

lemma sep_not_digit [simp]: "\<not> is_digit CHR '',''" "\<not> is_digit NL" "\<not> is_digit CR"
  by (simp_all add: is_digit_def less_eq_char_def)

lemma show_nat_no_sep [simp]: "CHR '','' \<notin> set (show_nat n)" "NL \<notin> set (show_nat n)"
  by (simp_all add: show_nat_notin)

lemma show_nat_not_Nil [simp]: "show_nat n \<noteq> []"
  by (rule show_nat_digits)

lemma show_nat_last_neq: "\<not> is_digit c \<Longrightarrow> last (show_nat n) \<noteq> c"
  using show_nat_last [of n] by auto

lemma entry_line_last: "last (entry_line name a b) = last (show_nat b)"
  by (simp add: entry_line_def)

lemma entry_line_plain: "representable name \<Longrightarrow> plain_line (entry_line name a b)"
  unfolding plain_line_def entry_line_last
  by (auto simp: entry_line_def representable_def show_nat_last_neq)

text \<open>The reader trims every line, so the white space in front of a name is lost.\<close>

lemma trim_entry_line: "trim_unicode (entry_line name a b) = entry_line (trim_start_unicode name) a b"
proof -
  let ?rest = "''0,'' @ show_nat a @ '','' @ show_nat b"
  have "trim_start_unicode (name @ CHR '','' # ?rest) = trim_start_unicode name @ CHR '','' # ?rest"
    unfolding trim_start_unicode_def
    by (rule drop_prefixes_append) (use white_space_no_mark in \<open>auto simp: list_all_iff\<close>)
  then have start: "trim_start_unicode (entry_line name a b) = entry_line (trim_start_unicode name) a b"
    by (simp add: entry_line_def)
  obtain d ds where d: "rev (show_nat b) = d # ds" by (cases "rev (show_nat b)") auto
  then have digit: "is_digit d" using show_nat_last [of b] by (metis hd_rev list.sel(1))
  obtain x where x: "rev (entry_line (trim_start_unicode name) a b) = d # x" using d by (simp add: entry_line_def)
  have "drop_prefixes (map rev WHITE_SPACE) (d # x) = d # x"
  proof (rule drop_prefixes_stop, rule ballI)
    fix w assume "w \<in> set (map rev WHITE_SPACE)"
    then obtain v where v: "v \<in> set WHITE_SPACE" "w = rev v" by auto
    then have "v \<noteq> []" "\<not> is_digit (last v)" using white_space_no_mark by (auto simp: list_all_iff is_digit_def)
    then have "hd w \<noteq> d" "w \<noteq> []" using v(2) digit by (auto simp: hd_rev)
    then show "w = [] \<or> take (length w) (d # x) \<noteq> w" by (cases w) auto
  qed
  then show ?thesis unfolding trim_unicode_def start x by (metis rev_rev_ident x)
qed

lemma drop_prefixes_subset: "set (drop_prefixes ws s) \<subseteq> set s"
proof (induction ws s rule: drop_prefixes.induct)
  case (1 ws s)
  then show ?case by (subst drop_prefixes.simps) (auto split: option.split dest: in_set_dropD)
qed

lemma representable_trim: "representable name \<Longrightarrow> representable (trim_start_unicode name)"
  using drop_prefixes_subset [of WHITE_SPACE name] by (auto simp: representable_def trim_start_unicode_def)

lemma parse_usize_show [simp]: "n < 2 ^ 64 \<Longrightarrow> parse_usize e (show_nat n) = Ok n"
  by (simp add: parse_usize_def)

lemma parse_usize_0 [simp]: "parse_usize e ''0'' = Ok 0"
proof -
  have "show_nat 0 = ''0''" by code_simp
  then show ?thesis using parse_usize_show [of 0 e] by simp
qed

lemma split_entry_line:
  "representable name \<Longrightarrow> split_on CHR '','' (entry_line name a b) = [name, ''0'', show_nat a, show_nat b]"
  using split_on_append [of "CHR '',''" name] split_on_append [of "CHR '',''" "''0''"]
    split_on_append [of "CHR '',''" "show_nat a"] split_on_none [of "CHR '',''" "show_nat b"]
  by (simp add: entry_line_def representable_def)

lemma parse_entry_line:
  "representable name \<Longrightarrow> a < 2 ^ 64 \<Longrightarrow> b < 2 ^ 64 \<Longrightarrow>
   parse_entry (entry_line name a b) = Ok (name, \<lparr>se_file_number = 0, se_start_offset = a, se_end_offset = b\<rparr>)"
  by (simp add: parse_entry_def split_entry_line MAX_SMOOSH_CHUNKS_def)

section \<open>Packing and reading back\<close>

text \<open>The index \<open>entries\<close> locates in \<open>chunk\<close> the last version of every file of \<open>files\<close> and no other.\<close>

definition located :: "(string, smoosh_entry) hash_map \<Rightarrow> byte list \<Rightarrow> (string \<times> byte list) list \<Rightarrow> bool" where
  "located entries chunk files \<longleftrightarrow> length entries \<le> length files \<and>
     (\<forall>n. case hm_get entries n of
        None \<Rightarrow> map_of (rev files) n = None
      | Some e \<Rightarrow> se_file_number e = 0 \<and> se_start_offset e \<le> se_end_offset e \<and> se_end_offset e \<le> length chunk \<and>
          map_of (rev files) n = Some (take (se_end_offset e - se_start_offset e) (drop (se_start_offset e) chunk)))"

lemma length_hm_insert: "length (hm_insert k v m) \<le> Suc (length m)"
  by (induction k v m rule: hm_insert.induct) auto

lemma located_insert:
  assumes "located entries chunk files"
  shows "located (hm_insert name \<lparr>se_file_number = 0, se_start_offset = length chunk,
      se_end_offset = length (chunk @ data)\<rparr> entries) (chunk @ data) (files @ [(name, data)])"
  using assms length_hm_insert [of name _ entries] unfolding located_def
  by (fastforce split: option.splits intro: order_trans [OF length_hm_insert])

fun entry_lines :: "(string \<times> byte list) list \<Rightarrow> nat \<Rightarrow> string list" where
  "entry_lines [] start = []"
| "entry_lines ((name, data) # files) start =
     entry_line name start (start + length data) # entry_lines files (start + length data)"

lemma finish_loop_eq:
  "finish_loop files chunk ls = (ls @ entry_lines files (length chunk), chunk @ concat (map snd files))"
  by (induction files chunk ls rule: finish_loop.induct) auto

text \<open>The files under the names the reader knows them by.\<close>

definition known_files :: "(string \<times> byte list) list \<Rightarrow> (string \<times> byte list) list" where
  "known_files files = map (\<lambda>(name, data). (trim_start_unicode name, data)) files"

lemma known_files_simps [simp]:
  "known_files [] = []" "known_files ((name, data) # files) = (trim_start_unicode name, data) # known_files files"
  "length (known_files files) = length files"
  by (simp_all add: known_files_def)

lemma parse_entry_lines:
  assumes "located entries chunk done" and "\<forall>(n, d) \<in> set files. representable n"
    and "length (chunk @ concat (map snd files)) < 2 ^ 64" and "length done + length files \<le> MAX_SMOOSH_ENTRIES"
  shows "\<exists>entries' m. parse_entries (entry_lines files (length chunk)) entries mx = Ok (entries', m) \<and>
     located entries' (chunk @ concat (map snd files)) (done @ known_files files)"
  using assms
proof (induction files arbitrary: entries chunk "done" mx)
  case (Cons f files)
  obtain name data where f: "f = (name, data)" by fastforce
  let ?e = "\<lparr>se_file_number = 0, se_start_offset = length chunk, se_end_offset = length (chunk @ data)\<rparr>"
  let ?l = "entry_line name (length chunk) (length (chunk @ data))"
  let ?n = "trim_start_unicode name"
  let ?l' = "entry_line ?n (length chunk) (length (chunk @ data))"
  have r: "representable ?n" using Cons.prems(2) f representable_trim by simp
  have p: "parse_entry ?l' = Ok (?n, ?e)"
    using parse_entry_line [OF r, of "length chunk" "length (chunk @ data)"] Cons.prems(3) f by simp
  have ne: "?l' \<noteq> []" by (simp add: entry_line_def)
  have loc: "located (hm_insert ?n ?e entries) (chunk @ data) (done @ [(?n, data)])"
    by (rule located_insert [OF Cons.prems(1)])
  then have "length (hm_insert ?n ?e entries) \<le> MAX_SMOOSH_ENTRIES"
    using Cons.prems(4) f by (auto simp: located_def)
  then have step: "parse_entries (entry_lines (f # files) (length chunk)) entries mx =
      parse_entries (entry_lines files (length (chunk @ data))) (hm_insert ?n ?e entries) (if mx = 0 then 1 else mx)"
    using p ne by (auto simp: f trim_entry_line Let_def)
  have "\<exists>entries' m. parse_entries (entry_lines files (length (chunk @ data))) (hm_insert ?n ?e entries) (if mx = 0 then 1 else mx)
      = Ok (entries', m) \<and> located entries' ((chunk @ data) @ concat (map snd files)) ((done @ [(?n, data)]) @ known_files files)"
    using Cons.IH [OF loc] Cons.prems(2-4) f by simp
  then show ?case unfolding step by (simp add: f)
qed simp


lemma checked_chunk_size_Ok:
  "running + sum_list lens \<le> SMOOSH_MAX_CHUNK_SIZE \<Longrightarrow> checked_chunk_size lens running = Ok (running + sum_list lens)"
  by (induction lens running rule: checked_chunk_size.induct)
    (auto simp: ensure_smoosh_chunk_fits_def SMOOSH_MAX_CHUNK_SIZE_def)

lemma length_concat_files: "length (concat (map snd files)) = sum_list (map (\<lambda>(_, data). length data) files)"
  by (induction files) auto

lemma entry_lines_plain: "\<forall>(n, d) \<in> set files. representable n \<Longrightarrow> \<forall>l \<in> set (entry_lines files start). plain_line l"
  by (induction files start rule: entry_lines.induct) (auto simp: entry_line_plain)

definition header_line :: "nat \<Rightarrow> string" where
  "header_line n = ''v1,'' @ show_nat SMOOSH_MAX_CHUNK_SIZE @ '','' @ show_nat n"

lemma header_plain: "plain_line (header_line n)"
  by (auto simp: plain_line_def header_line_def show_nat_last_neq)

lemma split_header: "split_on CHR '','' (header_line n) = [''v1'', show_nat SMOOSH_MAX_CHUNK_SIZE, show_nat n]"
  using split_on_append [of "CHR '',''" "''v1''"] split_on_append [of "CHR '',''" "show_nat SMOOSH_MAX_CHUNK_SIZE"]
    split_on_none [of "CHR '',''" "show_nat n"]
  by (simp add: header_line_def)

lemma finish_fits:
  assumes "length (sw_files w) \<le> MAX_SMOOSH_ENTRIES"
    and "sum_list (map (\<lambda>(_, data). length data) (sw_files w)) \<le> SMOOSH_MAX_CHUNK_SIZE"
  shows "finish w = Ok (join_lines (header_line (length (sw_files w)) # entry_lines (sw_files w) 0), [concat (map snd (sw_files w))])"
  using assms checked_chunk_size_Ok [of 0] by (simp add: finish_def finish_loop_eq header_line_def)

lemma parse_finished:
  assumes "\<forall>(n, d) \<in> set files. representable n" and "length files \<le> MAX_SMOOSH_ENTRIES"
    and "length (concat (map snd files)) < 2 ^ 64"
  shows "\<exists>k entries. parse_meta (join_lines (header_line (length files) # entry_lines files 0))
       = Ok (SMOOSH_MAX_CHUNK_SIZE, k, entries) \<and> located entries (concat (map snd files)) (known_files files)"
proof -
  have l: "str_lines (join_lines (header_line (length files) # entry_lines files 0)) = header_line (length files) # entry_lines files 0"
    unfolding str_lines_def using entry_lines_plain [OF assms(1), of 0] header_plain by (intro lines_join) auto
  have "located [] [] []" by (simp add: located_def)
  from parse_entry_lines [OF this assms(1), of 0] assms(2,3) obtain entries m where
    e: "parse_entries (entry_lines files 0) [] 0 = Ok (entries, m)" "located entries (concat (map snd files)) (known_files files)" by auto
  have "SMOOSH_MAX_CHUNK_SIZE < 2 ^ 64" "length files < 2 ^ 64" "\<not> MAX_SMOOSH_ENTRIES < length files"
    using assms(2) by (simp_all add: SMOOSH_MAX_CHUNK_SIZE_def MAX_SMOOSH_ENTRIES_def)
  then have "parse_meta (join_lines (header_line (length files) # entry_lines files 0)) =
      Ok (SMOOSH_MAX_CHUNK_SIZE, if entries = [] then 0 else m, entries)"
    using e(1) by (simp add: parse_meta_def l split_header)
  then show ?thesis using e(2) by blast
qed

lemma located_read:
  assumes "located entries chunk files"
  shows "read_file \<lparr>sr_entries = entries, sr_chunks = [chunk], sr_sidecars = []\<rparr> name =
     (case map_of (rev files) name of Some data \<Rightarrow> Ok data | None \<Rightarrow> fail (FileNotFound name))"
proof -
  have "case hm_get entries name of
      None \<Rightarrow> map_of (rev files) name = None
    | Some e \<Rightarrow> se_file_number e = 0 \<and> se_start_offset e \<le> se_end_offset e \<and> se_end_offset e \<le> length chunk \<and>
        map_of (rev files) name = Some (take (se_end_offset e - se_start_offset e) (drop (se_start_offset e) chunk))"
    using assms by (simp add: located_def)
  then show ?thesis by (cases "hm_get entries name") (auto simp: read_file_def slice_def Let_def)
qed

lemma known_files_rev: "rev (known_files files) = known_files (rev files)"
  by (simp add: known_files_def rev_map)

lemma known_find: "map_of (known_files files) name = map_option snd (find (\<lambda>(n, _). trim_start_unicode n = name) files)"
  by (induction files) (auto simp: known_files_def)

text \<open>C26: What the writer packs is read back. A writer within the caps whose file names contain neither a comma nor a line feed (as
  \<open>validate_smoosh_entry_name\<close> demands of columns) finishes, and a reader of the result returns, under every name, the data of
  the last file added under that name or under one that differs by white space in front only, which is lost because the
  reader trims the lines of the index; it refuses every other name.\<close>

theorem smoosh_roundtrip:
  assumes "\<forall>(n, d) \<in> set (sw_files w). CHR '','' \<notin> set n \<and> NL \<notin> set n" and "length (sw_files w) \<le> 16384"
    and "sum_list (map (\<lambda>(_, data). length data) (sw_files w)) \<le> 2147483647"
  shows "\<exists>meta chunks r. finish w = Ok (meta, chunks) \<and> from_parts meta chunks = Ok r \<and>
     (\<forall>name. read_file r name =
        (case find (\<lambda>(n, _). trim_start_unicode n = name) (rev (sw_files w)) of
           Some (_, data) \<Rightarrow> Ok data
         | None \<Rightarrow> fail (FileNotFound name)))"
proof -
  let ?files = "sw_files w" and ?chunk = "concat (map snd (sw_files w))"
  have n: "length ?files \<le> MAX_SMOOSH_ENTRIES" using assms(2) by (simp add: MAX_SMOOSH_ENTRIES_def)
  have "length ?chunk < 2 ^ 64" using assms(3) by (simp add: length_concat_files)
  moreover have "\<forall>(n, d) \<in> set ?files. representable n" using assms(1) by (auto simp: representable_def)
  ultimately obtain k entries where
    p: "parse_meta (join_lines (header_line (length ?files) # entry_lines ?files 0)) = Ok (SMOOSH_MAX_CHUNK_SIZE, k, entries)"
    and loc: "located entries ?chunk (known_files ?files)" using parse_finished [of ?files] n by blast
  let ?r = "\<lparr>sr_entries = entries, sr_chunks = [?chunk], sr_sidecars = []\<rparr>"
  have "from_parts (join_lines (header_line (length ?files) # entry_lines ?files 0)) [?chunk] = Ok ?r"
    using p by (simp add: from_parts_def)
  moreover have "finish w = Ok (join_lines (header_line (length ?files) # entry_lines ?files 0), [?chunk])"
    using finish_fits [OF n] assms(3) by (simp add: SMOOSH_MAX_CHUNK_SIZE_def)
  moreover have "read_file ?r name =
      (case find (\<lambda>(n, _). trim_start_unicode n = name) (rev ?files) of Some (_, data) \<Rightarrow> Ok data | None \<Rightarrow> fail (FileNotFound name))" for name
    using located_read [OF loc, of name] known_find [of "rev ?files" name] by (simp add: known_files_rev split: option.splits prod.splits)
  ultimately show ?thesis by blast
qed

theorem smoosh_roundtrip_witness:
  "\<exists>meta chunks r. finish (add_file (add_file writer_new ''a'' [1, 2]) '' b'' [3]) = Ok (meta, chunks) \<and>
     from_parts meta chunks = Ok r \<and> read_file r ''a'' = Ok [1, 2] \<and> read_file r ''b'' = Ok [3] \<and>
     read_file r '' b'' = fail (FileNotFound '' b'')"
proof -
  let ?w = "add_file (add_file writer_new ''a'' [1, 2]) '' b'' [3]"
  have f: "sw_files ?w = [(''a'', [1, 2]), ('' b'', [3])]" by (simp add: add_file_def writer_new_def)
  have t: "trim_start_unicode ''a'' = ''a''" "trim_start_unicode '' b'' = ''b''" by code_simp+
  have "\<forall>(n, d) \<in> set (sw_files ?w). CHR '','' \<notin> set n \<and> NL \<notin> set n" by (simp add: f)
  moreover have "length (sw_files ?w) \<le> 16384" "sum_list (map (\<lambda>(_, data). length data) (sw_files ?w)) \<le> 2147483647"
    by (simp_all add: f)
  ultimately obtain meta chunks r where "finish ?w = Ok (meta, chunks)" "from_parts meta chunks = Ok r"
    and r: "\<forall>name. read_file r name =
      (case find (\<lambda>(n, _). trim_start_unicode n = name) (rev (sw_files ?w)) of Some (_, data) \<Rightarrow> Ok data | None \<Rightarrow> fail (FileNotFound name))"
    using smoosh_roundtrip [of ?w] by blast
  moreover have "read_file r ''a'' = Ok [1, 2]" "read_file r ''b'' = Ok [3]" "read_file r '' b'' = fail (FileNotFound '' b'')"
    using r by (simp_all add: f t)
  ultimately show ?thesis by blast
qed

section \<open>Hostile directories\<close>

lemma parse_usize_safe: "safe (parse_usize e s)"
  by (auto simp: parse_usize_def split: option.splits)

lemma parse_entry_safe: "safe (parse_entry line)"
  by (auto simp: parse_entry_def Let_def parse_usize_safe intro!: safe_bind)

lemma parse_entries_safe: "safe (parse_entries ls entries mx)"
  by (induction ls entries mx rule: parse_entries.induct)
    (auto simp: Let_def parse_entry_safe intro!: safe_bind)

lemma parse_meta_safe: "safe (parse_meta meta)"
  by (auto simp: parse_meta_def Let_def parse_usize_safe parse_entries_safe intro!: safe_bind split: list.splits)

lemma parse_entry_cap: "parse_entry line = Ok (name, e) \<Longrightarrow> se_file_number e < MAX_SMOOSH_CHUNKS"
  by (auto simp: parse_entry_def Let_def split: if_splits)

definition index_ok :: "(string, smoosh_entry) hash_map \<Rightarrow> nat \<Rightarrow> bool" where
  "index_ok entries mx \<longleftrightarrow> length entries \<le> MAX_SMOOSH_ENTRIES \<and> mx \<le> MAX_SMOOSH_CHUNKS \<and>
     (\<forall>n e. hm_get entries n = Some e \<longrightarrow> se_file_number e < mx)"

lemma index_ok_insert:
  assumes "index_ok entries mx" and "se_file_number e < MAX_SMOOSH_CHUNKS" and "\<not> MAX_SMOOSH_ENTRIES < length (hm_insert name e entries)"
  shows "index_ok (hm_insert name e entries) (if mx \<le> se_file_number e then se_file_number e + 1 else mx)"
  using assms by (fastforce simp: index_ok_def)

lemma parse_entries_ok: "parse_entries ls entries mx = Ok (entries', mx') \<Longrightarrow> index_ok entries mx \<Longrightarrow> index_ok entries' mx'"
proof (induction ls entries mx rule: parse_entries.induct)
  case (2 line ls entries mx)
  show ?case
  proof (cases "trim_unicode line = []")
    case True
    then show ?thesis using 2 by simp
  next
    case False
    then obtain name e where e: "parse_entry (trim_unicode line) = Ok (name, e)" using 2(3) by (auto simp: Let_def)
    let ?mx = "if mx \<le> se_file_number e then se_file_number e + 1 else mx" and ?es = "hm_insert name e entries"
    have le: "\<not> MAX_SMOOSH_ENTRIES < length ?es" and rest: "parse_entries ls ?es ?mx = Ok (entries', mx')"
      using 2(3) False e by (auto simp: Let_def split: if_splits)
    have "index_ok ?es ?mx" by (rule index_ok_insert [OF 2(4) parse_entry_cap [OF e] le])
    then show ?thesis using 2(2) [OF refl False e refl refl refl le rest] by simp
  qed
qed simp


lemma parse_meta_ok: "parse_meta meta = Ok (sz, k, entries) \<Longrightarrow> index_ok entries k"
proof -
  assume "parse_meta meta = Ok (sz, k, entries)"
  then obtain ls mx where e: "parse_entries ls [] 0 = Ok (entries, mx)" "k = (if entries = [] then 0 else mx)"
    by (auto simp: parse_meta_def Let_def split: list.splits if_splits)
  have "index_ok [] 0" by (simp add: index_ok_def)
  from parse_entries_ok [OF e(1) this] e(2) show ?thesis by (simp add: index_ok_def)
qed

lemma sweep_safe: "safe (sweep_sidecars es m)"
  by (induction es m rule: sweep_sidecars.induct) (auto split: option.splits)

lemma sweep_count: "sweep_sidecars es m = Ok m' \<Longrightarrow> length m \<le> MAX_SIDECAR_FILES \<Longrightarrow> length m' \<le> MAX_SIDECAR_FILES"
proof (induction es m rule: sweep_sidecars.induct)
  case (2 e es m)
  have "length (hm_insert k v m) \<le> MAX_SIDECAR_FILES" if "\<not> MAX_SIDECAR_FILES \<le> length m" for k v
    using that length_hm_insert [of k v m] by linarith
  then show ?case using "2.prems" "2.IH" by (auto split: option.splits if_splits)
qed simp

lemma sweep_sizes:
  "sweep_sidecars es m = Ok m' \<Longrightarrow> \<forall>e \<in> set es. \<forall>b. de_data e = Some b \<longrightarrow> de_size e = Some (length b) \<Longrightarrow>
   \<forall>name b. hm_get m name = Some b \<longrightarrow> length b \<le> MAX_SIDECAR_BYTES \<Longrightarrow>
   hm_get m' name = Some b \<Longrightarrow> length b \<le> MAX_SIDECAR_BYTES"
proof (induction es m rule: sweep_sidecars.induct)
  case (2 e es m)
  show ?case using "2.prems" "2.IH" by (auto split: option.splits if_splits)
qed simp

lemma read_file_safe: "safe (read_file r name)"
  by (auto simp: read_file_def Let_def split: option.splits)

lemma open_dir_safe: "safe (open_dir d)"
  by (auto simp: open_dir_def parse_meta_safe sweep_safe intro!: safe_bind mapM_safe split: option.splits)

lemma open_dir_parts:
  assumes "open_dir d = Ok r"
  obtains k where "index_ok (sr_entries r) k" "length (sr_chunks r) = k"
    "(case sd_listing d of None \<Rightarrow> Ok [] | Some es \<Rightarrow> sweep_sidecars es []) = Ok (sr_sidecars r)"
  using assms by (auto simp: open_dir_def dest!: parse_meta_ok mapM_length split: option.splits if_splits)

text \<open>C30: Opening a directory, whatever it holds, and reading any name from the result never abort. The
  index has at most 16384 entries, each in a chunk that was loaded, at most 65536 chunks and 256
  sidecars are loaded, and no sidecar has more than a mebibyte if the sizes the file system reports
  are those of the files.\<close>

theorem hostile_directory_bounded:
  "safe (open_dir d) \<and> (\<forall>r. open_dir d = Ok r \<longrightarrow>
     (\<forall>name. safe (read_file r name)) \<and>
     length (sr_entries r) \<le> 16384 \<and> length (sr_chunks r) \<le> 65536 \<and> length (sr_sidecars r) \<le> 256 \<and>
     (\<forall>name e. hm_get (sr_entries r) name = Some e \<longrightarrow> se_file_number e < length (sr_chunks r)) \<and>
     ((\<forall>es. sd_listing d = Some es \<longrightarrow> (\<forall>e \<in> set es. \<forall>b. de_data e = Some b \<longrightarrow> de_size e = Some (length b))) \<longrightarrow>
      (\<forall>name b. hm_get (sr_sidecars r) name = Some b \<longrightarrow> length b \<le> 1048576)))"
proof -
  have "length (sr_entries r) \<le> 16384 \<and> length (sr_chunks r) \<le> 65536 \<and> length (sr_sidecars r) \<le> 256 \<and>
     (\<forall>name e. hm_get (sr_entries r) name = Some e \<longrightarrow> se_file_number e < length (sr_chunks r)) \<and>
     ((\<forall>es. sd_listing d = Some es \<longrightarrow> (\<forall>e \<in> set es. \<forall>b. de_data e = Some b \<longrightarrow> de_size e = Some (length b))) \<longrightarrow>
      (\<forall>name b. hm_get (sr_sidecars r) name = Some b \<longrightarrow> length b \<le> 1048576))" if "open_dir d = Ok r" for r
  proof -
    from that obtain k where k: "index_ok (sr_entries r) k" "length (sr_chunks r) = k"
      and sw: "(case sd_listing d of None \<Rightarrow> Ok [] | Some es \<Rightarrow> sweep_sidecars es []) = Ok (sr_sidecars r)"
      by (rule open_dir_parts)
    have "length (sr_sidecars r) \<le> 256"
      using sw sweep_count [of _ "[]"] by (auto simp: MAX_SIDECAR_FILES_def split: option.splits)
    moreover have "length b \<le> 1048576"
      if "\<forall>es. sd_listing d = Some es \<longrightarrow> (\<forall>e \<in> set es. \<forall>b. de_data e = Some b \<longrightarrow> de_size e = Some (length b))"
        and "hm_get (sr_sidecars r) name = Some b" for name b
      using sw that sweep_sizes [of _ "[]" "sr_sidecars r" name b] by (auto simp: MAX_SIDECAR_BYTES_def split: option.splits)
    ultimately show ?thesis
      using k by (auto simp: index_ok_def MAX_SMOOSH_ENTRIES_def MAX_SMOOSH_CHUNKS_def)
  qed
  then show ?thesis using open_dir_safe read_file_safe by blast
qed


text \<open>A directory with one chunk and one sidecar.\<close>

definition test_dir :: smoosh_dir where
  "test_dir = \<lparr>sd_meta = Some (''v1,9,1'' @ [NL] @ ''a,0,0,2''), sd_chunk = (\<lambda>i. Some [1, 2, 3]),
     sd_listing = Some [\<lparr>de_is_file = True, de_name = Some ''version.bin'', de_size = Some 1, de_data = Some [9]\<rparr>]\<rparr>"

theorem hostile_directory_bounded_witness:
  "\<exists>r. open_dir test_dir = Ok r \<and> read_file r ''a'' = Ok [1, 2] \<and> read_file r ''version.bin'' = Ok [9] \<and>
     length (sr_sidecars r) \<le> 256 \<and> length (sr_chunks r) \<le> 65536"
proof -
  let ?e = "\<lparr>se_file_number = 0, se_start_offset = 0, se_end_offset = 2\<rparr>"
  let ?r = "\<lparr>sr_entries = [(''a'', ?e)], sr_chunks = [[1, 2, 3]], sr_sidecars = [(''version.bin'', [9])]\<rparr>"
  have l: "str_lines (''v1,9,1'' @ [NL] @ ''a,0,0,2'') = [''v1,9,1'', ''a,0,0,2'']" by code_simp
  have t: "trim_unicode ''a,0,0,2'' = ''a,0,0,2''" "split_on CHR '','' ''v1,9,1'' = [''v1'', ''9'', ''1'']" by code_simp+
  have n: "parse_usize e ''9'' = Ok 9" "parse_usize e ''1'' = Ok 1" for e
    by (simp_all add: parse_usize_def parse_unsigned_def is_digit_def less_eq_char_def decimal_def digit_val_def)
  have "entry_line ''a'' 0 2 = ''a,0,0,2''" by code_simp
  then have "parse_entry ''a,0,0,2'' = Ok (''a'', ?e)"
    using parse_entry_line [of "''a''" 0 2] by (simp add: representable_def)
  then have "parse_meta (''v1,9,1'' @ [NL] @ ''a,0,0,2'') = Ok (9, 1, [(''a'', ?e)])"
    unfolding parse_meta_def l by (simp add: t n MAX_SMOOSH_ENTRIES_def)
  moreover have "\<not> skipped_name ''version.bin''" by code_simp
  ultimately have o: "open_dir test_dir = Ok ?r"
    by (simp add: open_dir_def test_dir_def MAX_SMOOSH_CHUNKS_def MAX_SIDECAR_FILES_def MAX_SIDECAR_BYTES_def)
  moreover have "read_file ?r ''a'' = Ok [1, 2]" "read_file ?r ''version.bin'' = Ok [9]"
    by (simp_all add: read_file_def hm_get_def slice_def)
  ultimately show ?thesis using hostile_directory_bounded [of test_dir] by blast
qed

text \<open>The check of entry names lets a name with a blank in front pass, and the writer packs a file
  under it; the reader trims the line and knows the file only under the name without the blank.\<close>

theorem leading_blank_lost:
  "validate_smoosh_entry_name '' a'' = Ok () \<and>
   (\<exists>meta chunks r. finish (add_file writer_new '' a'' [7]) = Ok (meta, chunks) \<and> from_parts meta chunks = Ok r \<and>
      read_file r '' a'' = fail (FileNotFound '' a'') \<and> read_file r ''a'' = Ok [7])"
proof -
  let ?w = "add_file writer_new '' a'' [7]" and ?e = "\<lparr>se_file_number = 0, se_start_offset = 0, se_end_offset = 1\<rparr>"
  have w: "sw_files ?w = [('' a'', [7])]" by (simp add: add_file_def writer_new_def)
  have f: "finish ?w = Ok (join_lines [header_line 1, entry_line '' a'' 0 1], [[7]])"
    using finish_fits [of ?w] by (simp add: w MAX_SMOOSH_ENTRIES_def SMOOSH_MAX_CHUNK_SIZE_def)
  have "plain_line (entry_line '' a'' 0 1)" by code_simp
  then have l: "str_lines (join_lines [header_line 1, entry_line '' a'' 0 1]) = [header_line 1, entry_line '' a'' 0 1]"
    unfolding str_lines_def using header_plain by (intro lines_join) simp
  have t: "trim_unicode (entry_line '' a'' 0 1) = entry_line ''a'' 0 1" "entry_line ''a'' 0 1 \<noteq> []" by code_simp+
  have "parse_entry (entry_line ''a'' 0 1) = Ok (''a'', ?e)"
    by (rule parse_entry_line) (simp_all add: representable_def)
  then have "parse_meta (join_lines [header_line 1, entry_line '' a'' 0 1]) = Ok (SMOOSH_MAX_CHUNK_SIZE, 1, [(''a'', ?e)])"
    unfolding parse_meta_def l using t by (simp add: split_header MAX_SMOOSH_ENTRIES_def SMOOSH_MAX_CHUNK_SIZE_def)
  then have p: "from_parts (join_lines [header_line 1, entry_line '' a'' 0 1]) [[7]] =
      Ok \<lparr>sr_entries = [(''a'', ?e)], sr_chunks = [[7]], sr_sidecars = []\<rparr>"
    by (simp add: from_parts_def)
  have "validate_smoosh_entry_name '' a'' = Ok ()" by code_simp
  with f p show ?thesis by (simp add: read_file_def hm_get_def slice_def)
qed

end
