(* ===== verification/Bitmap.thy ===== *)
theory Bitmap
  imports Prelude
begin

text \<open>
  The bitmap of ferrodruid-bitmap: the type tag of the segment format, the checks in front of an
  untrusted payload, and the set operations. The roaring crate is the record \<open>roaring\<close> of its
  operations the code calls; what the crate and the public format specification document of them is
  the predicate \<open>roaring_ok\<close>. Heap estimates are left out.
\<close>

section \<open>The roaring crate\<close>

record 'r roaring =
  ro_new :: 'r
  ro_collect :: "u32 list \<Rightarrow> 'r"
  ro_iter :: "'r \<Rightarrow> u32 list"
  ro_insert :: "'r \<Rightarrow> u32 \<Rightarrow> bool \<times> 'r"
  ro_insert_range :: "'r \<Rightarrow> u32 \<Rightarrow> u32 \<Rightarrow> 'r"
  ro_contains :: "'r \<Rightarrow> u32 \<Rightarrow> bool"
  ro_len :: "'r \<Rightarrow> u64"
  ro_and :: "'r \<Rightarrow> 'r \<Rightarrow> 'r"
  ro_or :: "'r \<Rightarrow> 'r \<Rightarrow> 'r"
  ro_sub :: "'r \<Rightarrow> 'r \<Rightarrow> 'r"
  ro_serialize :: "'r \<Rightarrow> byte list option"
  ro_deserialize :: "byte list \<Rightarrow> ('r \<times> byte list) option"

section \<open>Model\<close>

datatype bitmap_error =
    BitmapEmpty
  | ConciseUnsupported
  | UnknownTag byte
  | SerializationFailed
  | DeserializationFailed
  | CookieTruncated nat
  | CountTruncated
  | UnrecognizedCookie u32
  | BitmapTooLong nat
  | TooManyContainers u64 u64
  | TrailingBytes nat

definition MAX_SERIALIZED_BITMAP_BYTES :: nat where "MAX_SERIALIZED_BITMAP_BYTES = 67108864"
definition SERIAL_COOKIE :: u32 where "SERIAL_COOKIE = 12347"
definition SERIAL_COOKIE_NO_RUNCONTAINER :: u32 where "SERIAL_COOKIE_NO_RUNCONTAINER = 12346"
definition CONTAINER_SPAN :: u64 where "CONTAINER_SPAN = 65536"

definition declared_portable_containers :: "byte list \<Rightarrow> (u64, bitmap_error) res" where
  "declared_portable_containers data =
     (if length data < 4 then fail (CookieTruncated (length data))
      else bind (u32_at data 0) (\<lambda>cookie.
        if cookie AND 0xFFFF = SERIAL_COOKIE then Ok (ucast (drop_bit 16 cookie) + 1)
        else if cookie = SERIAL_COOKIE_NO_RUNCONTAINER then
          (if length data < 8 then fail CountTruncated
           else bind (u32_at data 4) (\<lambda>count. Ok (ucast count)))
        else fail (UnrecognizedCookie cookie)))"

definition u64_div_ceil :: "u64 \<Rightarrow> u64 \<Rightarrow> u64" where
  "u64_div_ceil a b = (if 0 < a mod b then a div b + 1 else a div b)"

definition hard_max_containers :: u64 where
  "hard_max_containers = 67108864 div 8192"

definition check_portable_bounds :: "byte list \<Rightarrow> u64 \<Rightarrow> (unit, bitmap_error) res" where
  "check_portable_bounds data max_rows =
     (if MAX_SERIALIZED_BITMAP_BYTES < length data then fail (BitmapTooLong (length data))
      else bind (declared_portable_containers data) (\<lambda>containers.
        let max_containers = min (u64_div_ceil max_rows CONTAINER_SPAN) hard_max_containers in
        if max_containers < containers then fail (TooManyContainers containers max_containers) else Ok ()))"

definition from_roaring :: "'r roaring \<Rightarrow> 'r \<Rightarrow> 'r" where
  "from_roaring ro b = ro_collect ro (ro_iter ro b)"

definition serialize_portable :: "'r roaring \<Rightarrow> 'r \<Rightarrow> (byte list, bitmap_error) res" where
  "serialize_portable ro b = (case ro_serialize ro b of Some bytes \<Rightarrow> Ok bytes | None \<Rightarrow> fail SerializationFailed)"

definition serialize_druid :: "'r roaring \<Rightarrow> 'r \<Rightarrow> (byte list, bitmap_error) res" where
  "serialize_druid ro b =
     (case ro_serialize ro b of Some bytes \<Rightarrow> Ok (0x01 # bytes) | None \<Rightarrow> fail SerializationFailed)"

definition deserialize_druid :: "'r roaring \<Rightarrow> byte list \<Rightarrow> ('r, bitmap_error) res" where
  "deserialize_druid ro data =
     (case data of
        [] \<Rightarrow> fail BitmapEmpty
      | tag # payload \<Rightarrow>
          if tag = 0x01 then
            (case ro_deserialize ro payload of Some (b, rest) \<Rightarrow> Ok b | None \<Rightarrow> fail DeserializationFailed)
          else if tag = 0x00 then fail ConciseUnsupported
          else fail (UnknownTag tag))"

definition deserialize_portable :: "'r roaring \<Rightarrow> byte list \<Rightarrow> u64 \<Rightarrow> ('r, bitmap_error) res" where
  "deserialize_portable ro data max_rows =
     bind (check_portable_bounds data max_rows) (\<lambda>_.
       case ro_deserialize ro data of
         None \<Rightarrow> fail DeserializationFailed
       | Some (b, cursor) \<Rightarrow> if cursor \<noteq> [] then fail (TrailingBytes (length cursor)) else Ok b)"

definition deserialize_druid_bounded :: "'r roaring \<Rightarrow> byte list \<Rightarrow> u64 \<Rightarrow> ('r, bitmap_error) res" where
  "deserialize_druid_bounded ro data max_rows =
     (case data of
        [] \<Rightarrow> fail BitmapEmpty
      | tag # payload \<Rightarrow>
          if tag = 0x01 then deserialize_portable ro payload max_rows
          else if tag = 0x00 then fail ConciseUnsupported
          else fail (UnknownTag tag))"

definition bm_not :: "'r roaring \<Rightarrow> 'r \<Rightarrow> u32 \<Rightarrow> 'r" where
  "bm_not ro b universe_size =
     from_roaring ro (ro_sub ro (ro_insert_range ro (ro_new ro) 0 universe_size) b)"

definition from_sorted_iter :: "'r roaring \<Rightarrow> u32 list \<Rightarrow> 'r" where
  "from_sorted_iter ro vs = foldl (\<lambda>bm v. snd (ro_insert ro bm v)) (ro_new ro) vs"

definition intersect_many :: "'r roaring \<Rightarrow> 'r list \<Rightarrow> 'r" where
  "intersect_many ro bitmaps =
     (case bitmaps of
        [] \<Rightarrow> ro_new ro
      | [b] \<Rightarrow> b
      | b # bs \<Rightarrow> from_roaring ro (foldl (ro_and ro) b bs))"

section \<open>What the crate documents\<close>

definition bm_values :: "'r roaring \<Rightarrow> 'r \<Rightarrow> u32 set" where
  "bm_values ro b = set (ro_iter ro b)"

definition bm_containers :: "'r roaring \<Rightarrow> 'r \<Rightarrow> nat" where
  "bm_containers ro b = card ((\<lambda>v. unat v div 65536) ` bm_values ro b)"

text \<open>The portable format starts with one of two cookies and the number of containers.\<close>

definition portable_header :: "nat \<Rightarrow> byte list \<Rightarrow> bool" where
  "portable_header n bytes \<longleftrightarrow>
     (\<exists>rest. bytes = to_le_bytes SERIAL_COOKIE_NO_RUNCONTAINER @ to_le_bytes (of_nat n) @ rest) \<or>
     (\<exists>rest. 0 < n \<and> bytes = to_le_bytes (SERIAL_COOKIE OR push_bit 16 (of_nat (n - 1))) @ rest)"

definition roaring_ok :: "'r roaring \<Rightarrow> bool" where
  "roaring_ok ro \<longleftrightarrow>
     bm_values ro (ro_new ro) = {} \<and>
     (\<forall>vs. bm_values ro (ro_collect ro vs) = set vs) \<and>
     (\<forall>b v. bm_values ro (snd (ro_insert ro b v)) = insert v (bm_values ro b)) \<and>
     (\<forall>b lo hi. bm_values ro (ro_insert_range ro b lo hi) = bm_values ro b \<union> {lo..<hi}) \<and>
     (\<forall>a b. bm_values ro (ro_and ro a b) = bm_values ro a \<inter> bm_values ro b) \<and>
     (\<forall>a b. bm_values ro (ro_sub ro a b) = bm_values ro a - bm_values ro b) \<and>
     (\<forall>b bytes. ro_serialize ro b = Some bytes \<longrightarrow> portable_header (bm_containers ro b) bytes \<and>
        (\<forall>rest. \<exists>b'. ro_deserialize ro (bytes @ rest) = Some (b', rest) \<and> ro_iter ro b' = ro_iter ro b))"

lemma roaring_okD:
  assumes "roaring_ok ro"
  shows "bm_values ro (ro_new ro) = {}" "bm_values ro (ro_collect ro vs) = set vs"
    "bm_values ro (snd (ro_insert ro b v)) = insert v (bm_values ro b)"
    "bm_values ro (ro_insert_range ro b lo hi) = bm_values ro b \<union> {lo..<hi}"
    "bm_values ro (ro_and ro a b) = bm_values ro a \<inter> bm_values ro b"
    "bm_values ro (ro_sub ro a b) = bm_values ro a - bm_values ro b"
    "ro_serialize ro b = Some bytes \<Longrightarrow> portable_header (bm_containers ro b) bytes"
    "ro_serialize ro b = Some bytes \<Longrightarrow> \<exists>b'. ro_deserialize ro bytes = Some (b', []) \<and> ro_iter ro b' = ro_iter ro b"
proof -
  note ok = assms [unfolded roaring_ok_def]
  show "bm_values ro (ro_new ro) = {}" "bm_values ro (ro_collect ro vs) = set vs"
    "bm_values ro (snd (ro_insert ro b v)) = insert v (bm_values ro b)"
    "bm_values ro (ro_insert_range ro b lo hi) = bm_values ro b \<union> {lo..<hi}"
    "bm_values ro (ro_and ro a b) = bm_values ro a \<inter> bm_values ro b"
    "bm_values ro (ro_sub ro a b) = bm_values ro a - bm_values ro b" using ok by simp_all
  assume s: "ro_serialize ro b = Some bytes"
  then show "portable_header (bm_containers ro b) bytes" using ok by blast
  from s have "\<forall>rest. \<exists>b'. ro_deserialize ro (bytes @ rest) = Some (b', rest) \<and> ro_iter ro b' = ro_iter ro b"
    using ok by blast
  from this [rule_format, of "[]"] show "\<exists>b'. ro_deserialize ro bytes = Some (b', []) \<and> ro_iter ro b' = ro_iter ro b" by simp
qed

section \<open>Declared containers\<close>

lemma run_cookie_low:
  fixes w :: u32
  shows "(SERIAL_COOKIE OR push_bit 16 w) AND 0xFFFF = SERIAL_COOKIE"
proof -
  have "push_bit 16 w AND mask 16 = 0" by (rule bit_word_eqI) (simp add: bit_simps)
  then have "push_bit 16 w AND 0xFFFF = 0" by (simp add: mask_eq_exp_minus_1)
  moreover have "SERIAL_COOKIE AND 0xFFFF = SERIAL_COOKIE" by (simp add: SERIAL_COOKIE_def)
  ultimately show ?thesis by (simp add: bit.conj_disj_distrib2)
qed

lemma run_cookie_high:
  fixes w :: u32
  assumes "unat w < 65536"
  shows "drop_bit 16 (SERIAL_COOKIE OR push_bit 16 w) = w"
proof -
  have "drop_bit 16 (push_bit 16 w) = w"
  proof -
    have "unat (push_bit 16 w) = unat w * 65536"
      using assms by (simp add: push_bit_eq_mult unat_word_ariths take_bit_nat_eq_self)
    then have "unat (drop_bit 16 (push_bit 16 w)) = unat w" by (simp add: drop_bit_eq_div unat_div)
    then show ?thesis by (simp add: word_unat_eq_iff)
  qed
  moreover have "drop_bit 16 SERIAL_COOKIE = 0" by (simp add: SERIAL_COOKIE_def)
  ultimately show ?thesis by simp
qed


lemma declared_header:
  assumes "portable_header n bytes" and "n \<le> 65536"
  shows "declared_portable_containers bytes = Ok (of_nat n)"
proof -
  have c: "ucast (of_nat k :: u32) = (of_nat k :: u64)" if "k \<le> 65536" for k
    using that by (simp add: word_unat_eq_iff unsigned_ucast_eq unat_of_nat take_bit_nat_eq_self)
  from assms(1) consider (plain) rest where "bytes = to_le_bytes SERIAL_COOKIE_NO_RUNCONTAINER @ to_le_bytes (of_nat n) @ rest"
    | (runs) rest where "0 < n" "bytes = to_le_bytes (SERIAL_COOKIE OR push_bit 16 (of_nat (n - 1))) @ rest"
    unfolding portable_header_def by blast
  then show ?thesis
  proof cases
    case plain
    have "u32_at bytes 0 = (Ok SERIAL_COOKIE_NO_RUNCONTAINER :: (u32, bitmap_error) res)" using u32_at_append [of "[]"] plain by simp
    moreover have "u32_at bytes 4 = (Ok (of_nat n) :: (u32, bitmap_error) res)"
      using u32_at_append [of "to_le_bytes SERIAL_COOKIE_NO_RUNCONTAINER"] plain by simp
    ultimately show ?thesis using plain assms(2)
      by (simp add: declared_portable_containers_def SERIAL_COOKIE_NO_RUNCONTAINER_def SERIAL_COOKIE_def c)
  next
    case runs
    have "u32_at bytes 0 = (Ok (SERIAL_COOKIE OR push_bit 16 (of_nat (n - 1))) :: (u32, bitmap_error) res)"
      using u32_at_append [of "[]"] runs by simp
    moreover have "unat (of_nat (n - 1) :: u32) < 65536"
    proof -
      define k where "k = n - 1"
      then have "k < 65536" using assms(2) runs(1) by simp
      then have "unat (of_nat k :: u32) < 65536" by (simp add: unat_of_nat take_bit_nat_eq_self)
      then show ?thesis by (simp only: k_def)
    qed
    moreover have "ucast (of_nat (n - 1) :: u32) + 1 = (of_nat n :: u64)"
      using runs(1) assms(2) c [of "n - 1"] by simp
    ultimately show ?thesis using runs
      by (simp add: declared_portable_containers_def run_cookie_low run_cookie_high del: drop_bit_or)
  qed
qed

lemma container_in_range: "k < unat r \<Longrightarrow> k div 65536 < unat (u64_div_ceil r CONTAINER_SPAN)"
proof -
  assume k: "k < unat r"
  have m: "unat (r mod 65536) = unat r mod 65536" "unat (r div 65536) = unat r div 65536"
    by (simp_all add: unat_mod unat_div)
  have "unat r < 2 ^ 64" using unsigned_less [of r] by simp
  then have s: "unat (r div 65536 + 1) = unat r div 65536 + 1"
    by (subst unat_add_lem [THEN iffD1]) (simp_all add: m less_mult_imp_div_less)
  show ?thesis
  proof (cases "0 < r mod 65536")
    case True
    have "k div 65536 \<le> unat r div 65536" using k by (intro div_le_mono) simp
    then show ?thesis using True s by (simp add: u64_div_ceil_def CONTAINER_SPAN_def)
  next
    case False
    then have "r mod 65536 = 0" by (metis word_gt_0)
    then have "unat r mod 65536 = 0" using m(1) by (metis unsigned_0)
    then have "k div 65536 < unat r div 65536"
      using k by (metis div_less_iff_less_mult mod_div_trivial div_mult_mod_eq add_0_right zero_less_numeral)
    then show ?thesis using False m by (simp add: u64_div_ceil_def CONTAINER_SPAN_def)
  qed
qed


lemma containers_bounded:
  assumes "\<forall>v \<in> bm_values ro b. unat v < unat max_rows"
  shows "bm_containers ro b \<le> unat (u64_div_ceil max_rows CONTAINER_SPAN)"
proof -
  have "(\<lambda>v. unat v div 65536) ` bm_values ro b \<subseteq> {..<unat (u64_div_ceil max_rows CONTAINER_SPAN)}"
    using assms container_in_range by fastforce
  from card_mono [OF _ this] show ?thesis by (simp add: bm_containers_def)
qed

lemma hard_max: "unat hard_max_containers = 8192"
  by (simp add: hard_max_containers_def)

lemma bounds_accept:
  assumes "portable_header (bm_containers ro b) bytes" and "\<forall>v \<in> bm_values ro b. unat v < unat max_rows"
    and "bm_containers ro b \<le> 8192" and "length bytes \<le> MAX_SERIALIZED_BITMAP_BYTES"
  shows "check_portable_bounds bytes max_rows = Ok ()"
proof -
  have "unat (of_nat (bm_containers ro b) :: u64) = bm_containers ro b"
    using assms(3) by (simp add: unat_of_nat take_bit_nat_eq_self)
  then have "of_nat (bm_containers ro b) \<le> u64_div_ceil max_rows CONTAINER_SPAN"
    "of_nat (bm_containers ro b) \<le> hard_max_containers"
    using containers_bounded [OF assms(2)] assms(3) by (simp_all add: word_le_nat_alt hard_max)
  then have "\<not> min (u64_div_ceil max_rows CONTAINER_SPAN) hard_max_containers < of_nat (bm_containers ro b)"
    by (simp add: not_less)
  moreover have "declared_portable_containers bytes = Ok (of_nat (bm_containers ro b))"
    using declared_header [OF assms(1)] assms(3) by simp
  ultimately show ?thesis using assms(4) by (simp add: check_portable_bounds_def Let_def)
qed

lemma bulk_values:
  assumes "roaring_ok ro"
  shows "bm_values ro (from_roaring ro b) = bm_values ro b"
    "bm_values ro (foldl (ro_and ro) b bs) = bm_values ro b \<inter> (\<Inter>a \<in> set bs. bm_values ro a)"
    "bm_values ro (foldl (\<lambda>bm v. snd (ro_insert ro bm v)) b vs) = bm_values ro b \<union> set vs"
proof -
  show "bm_values ro (from_roaring ro b) = bm_values ro b"
    using roaring_okD(2) [OF assms, of "ro_iter ro b"] by (simp add: from_roaring_def bm_values_def)
  show "bm_values ro (foldl (ro_and ro) b bs) = bm_values ro b \<inter> (\<Inter>a \<in> set bs. bm_values ro a)"
    by (induction bs arbitrary: b) (auto simp: roaring_okD(5) [OF assms])
  show "bm_values ro (foldl (\<lambda>bm v. snd (ro_insert ro bm v)) b vs) = bm_values ro b \<union> set vs"
    by (induction vs arbitrary: b) (auto simp: roaring_okD(3) [OF assms])
qed

section \<open>Properties\<close>

text \<open>A bitmap as the list of its values, serialized with the header of the format.\<close>

definition list_roaring :: "u32 list roaring" where
  "list_roaring = \<lparr>ro_new = [], ro_collect = (\<lambda>vs. vs), ro_iter = (\<lambda>b. b), ro_insert = (\<lambda>b v. (v \<notin> set b, v # b)),
     ro_insert_range = (\<lambda>b lo hi. b @ map of_nat [unat lo..<unat hi]), ro_contains = (\<lambda>b v. v \<in> set b),
     ro_len = (\<lambda>b. of_nat (card (set b))), ro_and = (\<lambda>a b. filter (\<lambda>v. v \<in> set b) a), ro_or = (@),
     ro_sub = (\<lambda>a b. filter (\<lambda>v. v \<notin> set b) a),
     ro_serialize = (\<lambda>b. if length b < 2 ^ 32 then Some (to_le_bytes SERIAL_COOKIE_NO_RUNCONTAINER
        @ to_le_bytes (of_nat (card ((\<lambda>v. unat v div 65536) ` set b))) @ to_le_bytes (of_nat (length b))
        @ concat (map to_le_bytes b)) else None),
     ro_deserialize = (\<lambda>data. case u32_at data 8 of
          Inr n \<Rightarrow> (case read_many read_u32 (unat n) data 12 of
             Inr (b, pos) \<Rightarrow> Some (b, drop pos data) | Inl (e :: unit fault) \<Rightarrow> None)
        | Inl (e :: unit fault) \<Rightarrow> None)\<rparr>"


lemma list_roaring_serde:
  assumes "ro_serialize list_roaring b = Some bytes"
  shows "ro_deserialize list_roaring (bytes @ rest) = Some (b, rest)"
proof -
  let ?pre = "to_le_bytes SERIAL_COOKIE_NO_RUNCONTAINER @ to_le_bytes (of_nat (card ((\<lambda>v. unat v div 65536) ` set b)))"
  have len: "length b < 2 ^ 32" and bytes: "bytes = ?pre @ to_le_bytes (of_nat (length b)) @ concat (map to_le_bytes b)"
    using assms by (simp_all add: list_roaring_def split: if_splits)
  have n: "unat (of_nat (length b) :: u32) = length b" using len by (simp add: unat_of_nat take_bit_nat_eq_self)
  have "u32_at (bytes @ rest) 8 = (Ok (of_nat (length b)) :: (u32, unit) res)"
    using u32_at_append [of ?pre "of_nat (length b)" "concat (map to_le_bytes b) @ rest"] by (simp add: bytes)
  moreover have "read_many read_u32 (length b) (bytes @ rest) 12 =
      (Ok (b, 12 + length (concat (map to_le_bytes b))) :: (u32 list \<times> nat, unit) res)"
    using u32_le.dec_many [of b "?pre @ to_le_bytes (of_nat (length b))" rest] by (simp add: bytes)
  moreover have "drop (12 + length (concat (map to_le_bytes b))) (bytes @ rest) = rest" by (simp add: bytes)
  ultimately show ?thesis by (simp add: list_roaring_def n)
qed

lemma list_roaring_ok: "roaring_ok list_roaring"
proof -
  have "portable_header (bm_containers list_roaring b) bytes" if "ro_serialize list_roaring b = Some bytes" for b bytes
    using that by (auto simp: list_roaring_def portable_header_def bm_containers_def bm_values_def split: if_splits)
  moreover have "set (map of_nat [unat lo..<unat hi]) = {lo..<hi}" for lo hi :: u32
  proof -
    have "v \<in> of_nat ` {unat lo..<unat hi}" if "lo \<le> v" "v < hi" for v
      using that by (intro image_eqI [of _ _ "unat v"]) (simp_all add: word_le_nat_alt word_less_nat_alt)
    moreover have "lo \<le> of_nat k \<and> (of_nat k :: u32) < hi" if "unat lo \<le> k" "k < unat hi" for k
      proof -
      have "k < 4294967296" using that(2) unsigned_less [where ?'a = nat, of hi] by simp
      then show ?thesis using that by (simp add: word_le_nat_alt word_less_nat_alt unat_of_nat take_bit_nat_eq_self)
    qed
    ultimately show ?thesis by auto
  qed
  ultimately show ?thesis unfolding roaring_ok_def
    by (auto simp: bm_values_def list_roaring_serde) (auto simp: list_roaring_def)
qed

text \<open>A bitmap whose values are row numbers below \<open>max_rows\<close> and that fits the caps survives the
  segment format with the bounded decoder: the checks in front of the decoder never refuse it, and
  the values come back.\<close>

theorem bounded_bitmap_roundtrip:
  assumes "roaring_ok ro" and "serialize_druid ro b = Ok bytes" and "length bytes \<le> 67108864"
    and "\<forall>v \<in> bm_values ro b. unat v < unat max_rows" and "bm_containers ro b \<le> 8192"
  shows "\<exists>b'. deserialize_druid_bounded ro bytes max_rows = Ok b' \<and> ro_iter ro b' = ro_iter ro b"
proof -
  from assms(2) obtain payload where p: "ro_serialize ro b = Some payload" "bytes = 0x01 # payload"
    by (auto simp: serialize_druid_def split: option.splits)
  have "check_portable_bounds payload max_rows = Ok ()"
    using assms(3-5) p(2)
    by (intro bounds_accept [OF roaring_okD(7) [OF assms(1) p(1)]]) (simp_all add: MAX_SERIALIZED_BITMAP_BYTES_def)
  with roaring_okD(8) [OF assms(1) p(1)] show ?thesis
    by (auto simp: deserialize_druid_bounded_def deserialize_portable_def p(2))
qed

theorem bounded_bitmap_roundtrip_witness:
  "\<exists>bytes b'. serialize_druid list_roaring [5, 70000] = Ok bytes \<and>
     deserialize_druid_bounded list_roaring bytes 70001 = Ok b' \<and> ro_iter list_roaring b' = [5, 70000]"
proof -
  obtain bytes where s: "serialize_druid list_roaring [5, 70000] = Ok bytes" and "length bytes \<le> 67108864"
    by (simp add: serialize_druid_def list_roaring_def)
  moreover have "\<forall>v \<in> bm_values list_roaring [5, 70000]. unat v < unat (70001 :: u64)"
    by (simp add: bm_values_def list_roaring_def)
  moreover have "bm_containers list_roaring [5, 70000] \<le> 8192"
    by (simp add: bm_containers_def bm_values_def list_roaring_def card_insert_if)
  ultimately obtain b' where "deserialize_druid_bounded list_roaring bytes 70001 = Ok b'"
    "ro_iter list_roaring b' = ro_iter list_roaring [5, 70000]"
    using bounded_bitmap_roundtrip [OF list_roaring_ok] by blast
  then show ?thesis using s by (auto simp: list_roaring_def)
qed

text \<open>Complement, bulk intersection and building from values denote the set operations; the
  intersection of no bitmaps is the empty bitmap.\<close>

lemma bitmap_set_algebra:
  assumes "roaring_ok ro"
  shows "bm_values ro (bm_not ro b n) = {v. v < n} - bm_values ro b \<and>
     bm_values ro (from_sorted_iter ro vs) = set vs \<and>
     bm_values ro (intersect_many ro []) = {} \<and>
     bm_values ro (intersect_many ro (b # bs)) = (\<Inter>a \<in> set (b # bs). bm_values ro a)"
  using bulk_values [OF assms] roaring_okD(1,4,5,6) [OF assms]
  by (cases bs) (auto simp: bm_not_def from_sorted_iter_def intersect_many_def)

end
