(* ===== verification/Replication.thy ===== *)
theory Replication
  imports Cluster
begin

text \<open>
  The replication engine of ferrodruid-cluster (\<open>replication.rs\<close>) and the dispatch of its messages
  (\<open>transport.rs\<close>): pre-votes, elections, heartbeats, replication of commands to followers, and
  snapshots. Terms and indices are 64-bit words. Every method runs to its end before the next one
  starts; the locks inside a method are therefore plain fields of the record \<open>engine\<close>.

  What the clock decides enters as an argument: whether the election timer has expired, whether the
  heartbeat is due, whether the start-up grace still lasts, and whether a submit has reached its
  deadline. The engine runs without the in-memory transport of the tests, as in production. The
  optional journal on disk is left out. \<open>serde_json\<close>, which turns a snapshot into bytes and back for
  the chunked transfer, is an argument.
\<close>

section \<open>Data\<close>

datatype replication_role = Leader | Follower | Candidate

datatype replication_message =
    Heartbeat string u64
  | VoteRequest string u64
  | VoteResponse string u64 bool
  | ReplicateCommand u64 u64 cluster_command
  | ReplicateAck string u64 bool "u64 option"
  | SnapshotRequest string
  | SnapshotResponse cluster_snapshot u64 u64
  | Join string string
  | RequestPreVote string u64 u64
  | RequestPreVoteResponse string u64 bool u64
  | SnapshotChunk u64 u32 u32 bool u64 u64 u64 "byte list"
  | SnapshotChunkAck string u64 u32 bool

fun declared_sender_id :: "replication_message \<Rightarrow> string option" where
  "declared_sender_id (Heartbeat leader_id _) = Some leader_id"
| "declared_sender_id (VoteRequest candidate_id _) = Some candidate_id"
| "declared_sender_id (VoteResponse voter_id _ _) = Some voter_id"
| "declared_sender_id (ReplicateCommand _ _ _) = None"
| "declared_sender_id (ReplicateAck follower_id _ _ _) = Some follower_id"
| "declared_sender_id (SnapshotRequest follower_id) = Some follower_id"
| "declared_sender_id (SnapshotResponse _ _ _) = None"
| "declared_sender_id (Join node_id _) = Some node_id"
| "declared_sender_id (RequestPreVote candidate_id _ _) = Some candidate_id"
| "declared_sender_id (RequestPreVoteResponse voter_id _ _ _) = Some voter_id"
| "declared_sender_id (SnapshotChunkAck follower_id _ _ _) = Some follower_id"
| "declared_sender_id (SnapshotChunk _ _ _ _ _ _ _ _) = None"

datatype tick_action =
    Idle
  | BroadcastPreVoteRequest string u64 u64
  | BroadcastVoteRequest string u64
  | BroadcastHeartbeat string u64

record pre_vote_round =
  pv_proposed_term :: u64
  pv_round_id :: u64

record majority_ack =
  ma_ack_count :: nat
  ma_total :: nat
  ma_index :: u64
  ma_term :: u64

datatype submit_error =
    NotLeader
  | SubmitTimeout nat nat
  | ApplyFailed "cluster_error fault"

record chunk_buffer =
  cb_expected :: u32
  cb_highest_contiguous :: "u32 option"
  cb_last_index :: u64
  cb_term :: u64
  cb_total_bytes :: u64
  cb_chunks :: "(u32, byte list) hash_map"

record chunk_cursor =
  cc_transfer_id :: "u64 option"
  cc_last_acked :: "u32 option"
  cc_applied :: bool

text \<open>A set of node names is a list without repetition.\<close>

record engine =
  en_node_id :: string
  en_peers :: "string list"
  en_role :: replication_role
  en_term :: u64
  en_last_index :: u64
  en_voted_for :: "string option"
  en_votes :: "(u64, string list) hash_map"
  en_election_term :: "u64 option"
  en_manager :: cluster_manager
  en_log :: "(u64 \<times> cluster_command) list"
  en_log_terms :: "u64 list"
  en_next_index :: "(string, u64) hash_map"
  en_match_index :: "(string, u64) hash_map"
  en_pending_acks :: "(u64, string list) hash_map"
  en_pre_votes :: "(u64, string list) hash_map"
  en_in_flight :: "pre_vote_round option"
  en_round_id :: u64
  en_rx_buffers :: "(u64, chunk_buffer) hash_map"
  en_tx_cursors :: "(string, chunk_cursor) hash_map"
  en_tx_next_id :: u64

text \<open>What a step needs from outside: the parser of interval bounds, the clock and a fresh lock
  identifier for a command, and the decoder of a snapshot.\<close>

record apply_env =
  ae_bound :: "string \<Rightarrow> int option"
  ae_now :: int
  ae_uuid :: string
  ae_decode :: "byte list \<Rightarrow> cluster_snapshot option"

definition apply_to :: "apply_env \<Rightarrow> cluster_manager \<Rightarrow> cluster_command \<Rightarrow> (command_result, cluster_error) res \<times> cluster_manager" where
  "apply_to env m cmd = apply_cmd (ae_bound env) (ae_now env) (ae_uuid env) m cmd"

definition MAX_REPLAY_BATCH :: nat where "MAX_REPLAY_BATCH = 1000"
definition MAX_SNAPSHOT_LOG_INDEX :: u64 where "MAX_SNAPSHOT_LOG_INDEX = 16777216"

definition engine_new :: "string \<Rightarrow> string list \<Rightarrow> cluster_manager \<Rightarrow> engine" where
  "engine_new node_id peers m =
     \<lparr>en_node_id = node_id, en_peers = peers, en_role = Follower, en_term = 0, en_last_index = 0,
      en_voted_for = None, en_votes = [], en_election_term = None, en_manager = m, en_log = [],
      en_log_terms = [], en_next_index = [], en_match_index = [], en_pending_acks = [],
      en_pre_votes = [], en_in_flight = None, en_round_id = 0, en_rx_buffers = [], en_tx_cursors = [],
      en_tx_next_id = 0\<rparr>"

definition total_voters :: "engine \<Rightarrow> nat" where
  "total_voters e = length (en_peers e) + 1"

definition majority :: "engine \<Rightarrow> nat" where
  "majority e = total_voters e div 2 + 1"

definition known :: "engine \<Rightarrow> string \<Rightarrow> bool" where
  "known e voter_id \<longleftrightarrow> voter_id = en_node_id e \<or> voter_id \<in> set (en_peers e)"

section \<open>Log and acknowledgements\<close>

definition reset_replication_state :: "engine \<Rightarrow> engine" where
  "reset_replication_state e =
     e\<lparr>en_next_index := foldl (\<lambda>m p. hm_insert p (en_last_index e + 1) m) [] (en_peers e),
       en_match_index := foldl (\<lambda>m p. hm_insert p 0 m) [] (en_peers e)\<rparr>"

text \<open>\<open>submit_with_majority_ack\<close> up to the point where it waits: append, apply, and register the index.
  A single node is its own majority. Then each look at the tally.\<close>

definition submit_start ::
    "apply_env \<Rightarrow> engine \<Rightarrow> cluster_command \<Rightarrow> (majority_ack option, submit_error) res \<times> engine" where
  "submit_start env e cmd =
     (if en_role e \<noteq> Leader then (fail NotLeader, e)
      else
        let index = en_last_index e + 1;
            e = e\<lparr>en_last_index := index, en_log := en_log e @ [(index, cmd)], en_log_terms := en_log_terms e @ [en_term e]\<rparr>;
            (r, m) = apply_to env (en_manager e) cmd;
            e = e\<lparr>en_manager := m\<rparr>
        in case r of
             Inl err \<Rightarrow> (fail (ApplyFailed err), e)
           | Inr _ \<Rightarrow>
               if majority e = 1 then
                 (Ok (Some \<lparr>ma_ack_count = 1, ma_total = total_voters e, ma_index = index, ma_term = en_term e\<rparr>),
                  e\<lparr>en_pending_acks := hm_remove index (en_pending_acks e)\<rparr>)
               else
                 (Ok None, e\<lparr>en_pending_acks := hm_insert index (hm_list (en_pending_acks e) index) (en_pending_acks e)\<rparr>))"

definition submit_poll ::
    "engine \<Rightarrow> u64 \<Rightarrow> u64 \<Rightarrow> bool \<Rightarrow> (majority_ack option, submit_error) res \<times> engine" where
  "submit_poll e index term deadline_passed =
     (let ack_count = length (hm_list (en_pending_acks e) index) + 1;
          e' = e\<lparr>en_pending_acks := hm_remove index (en_pending_acks e)\<rparr>
      in if majority e \<le> ack_count then
           (Ok (Some \<lparr>ma_ack_count = ack_count, ma_total = total_voters e, ma_index = index, ma_term = term\<rparr>), e')
         else if deadline_passed then (fail (SubmitTimeout ack_count (total_voters e)), e')
         else (Ok None, e))"

definition u64_pred_min1 :: "u64 \<Rightarrow> u64" where
  "u64_pred_min1 i = max (if i = 0 then 0 else i - 1) 1"

definition receive_replicate_ack :: "engine \<Rightarrow> string \<Rightarrow> u64 \<Rightarrow> bool \<Rightarrow> u64 option \<Rightarrow> engine" where
  "receive_replicate_ack e follower_id index success hint =
     (if follower_id \<notin> set (en_peers e) then e
      else if success then
        let acks = (case hm_get (en_pending_acks e) index of
               None \<Rightarrow> en_pending_acks e
             | Some s \<Rightarrow> hm_insert index (List.insert follower_id s) (en_pending_acks e));
            mi = (case hm_get (en_match_index e) follower_id of Some i \<Rightarrow> i | None \<Rightarrow> 0);
            ni = (case hm_get (en_next_index e) follower_id of Some i \<Rightarrow> i | None \<Rightarrow> 1)
        in e\<lparr>en_pending_acks := acks,
             en_match_index := hm_insert follower_id (if mi < index then index else mi) (en_match_index e),
             en_next_index := hm_insert follower_id (if ni < index + 1 then index + 1 else ni) (en_next_index e)\<rparr>
      else
        let entry = (case hm_get (en_next_index e) follower_id of Some i \<Rightarrow> i | None \<Rightarrow> index);
            walked = (case hint of
                Some h \<Rightarrow> max (if h = - 1 then h else h + 1) 1
              | None \<Rightarrow> u64_pred_min1 entry)
        in e\<lparr>en_next_index := hm_insert follower_id
               (if walked < entry then walked else u64_pred_min1 entry) (en_next_index e)\<rparr>)"

definition build_replay_batch :: "engine \<Rightarrow> string \<Rightarrow> (u64 \<times> u64 \<times> cluster_command) list" where
  "build_replay_batch e follower_id =
     (let start = (case hm_get (en_next_index e) follower_id of Some i \<Rightarrow> i | None \<Rightarrow> en_last_index e + 1)
      in if en_last_index e < start then []
         else take MAX_REPLAY_BATCH (List.map_filter (\<lambda>(idx, cmd).
           if idx < start then None
           else if unat (idx - 1) < length (en_log_terms e) then Some (en_log_terms e ! unat (idx - 1), idx, cmd)
           else None) (en_log e)))"

definition build_replay_actions :: "engine \<Rightarrow> (string \<times> replication_message) list" where
  "build_replay_actions e =
     (if en_role e \<noteq> Leader \<or> en_last_index e = 0 then []
      else concat (map (\<lambda>follower. map (\<lambda>(term, index, command). (follower, ReplicateCommand term index command))
        (build_replay_batch e follower)) (hm_keys (en_next_index e))))"

definition mismatch :: "engine \<Rightarrow> u64 \<Rightarrow> u64 \<Rightarrow> bool" where
  "mismatch e index term \<longleftrightarrow>
     index \<noteq> 0 \<and> unat (index - 1) < length (en_log_terms e) \<and>
     en_log_terms e ! unat (index - 1) \<noteq> term \<and> en_log_terms e ! unat (index - 1) \<noteq> 0"

definition receive_command ::
    "apply_env \<Rightarrow> engine \<Rightarrow> u64 \<Rightarrow> u64 \<Rightarrow> cluster_command \<Rightarrow> (unit, cluster_error) res \<times> engine" where
  "receive_command env e term index cmd =
     (if term < en_term e then (fail (CommandFailed ''stale term''), e)
      else
        let e = (if en_term e < term then e\<lparr>en_term := term\<rparr> else e) in
        if index \<le> en_last_index e then
          (if mismatch e index term then fail (CommandFailed ''log term mismatch'') else Ok (), e)
        else if en_last_index e + 1 < index then (fail (CommandFailed ''log gap detected''), e)
        else
          let e = e\<lparr>en_last_index := index, en_log := en_log e @ [(index, cmd)], en_log_terms := en_log_terms e @ [term]\<rparr>;
              (r, m) = apply_to env (en_manager e) cmd;
              e = e\<lparr>en_manager := m\<rparr>
          in (case r of Inl err \<Rightarrow> Inl err | Inr _ \<Rightarrow> Ok (), e))"

definition process_replicate_command ::
    "apply_env \<Rightarrow> engine \<Rightarrow> u64 \<Rightarrow> u64 \<Rightarrow> cluster_command \<Rightarrow> replication_message \<times> engine" where
  "process_replicate_command env e term index cmd =
     (let (result, e) = receive_command env e term index cmd
      in (ReplicateAck (en_node_id e) index (case result of Inr _ \<Rightarrow> True | Inl _ \<Rightarrow> False) (Some (en_last_index e)), e))"

section \<open>Elections\<close>

text \<open>\<open>HashSet::insert\<close> on the set of a term: whether the name is new, and the set with it.\<close>

definition tally :: "(u64, string list) hash_map \<Rightarrow> u64 \<Rightarrow> string \<Rightarrow> bool \<times> (u64, string list) hash_map" where
  "tally votes k name =
     (name \<notin> set (hm_list votes k), hm_insert k (List.insert name (hm_list votes k)) votes)"

definition record_vote :: "engine \<Rightarrow> string \<Rightarrow> u64 \<Rightarrow> bool \<times> engine" where
  "record_vote e voter_id term =
     (if Some term \<noteq> en_election_term e \<or> term \<noteq> en_term e then (False, e)
      else if \<not> known e voter_id then (False, e)
      else let (new, votes) = tally (en_votes e) term voter_id in (new, e\<lparr>en_votes := votes\<rparr>))"

definition votes_count :: "engine \<Rightarrow> u64 \<Rightarrow> nat" where
  "votes_count e term = length (hm_list (en_votes e) term)"

definition arm_election :: "engine \<Rightarrow> u64 \<times> engine" where
  "arm_election e =
     (let new_term = en_term e + 1;
          e = e\<lparr>en_term := new_term, en_role := Candidate, en_voted_for := Some (en_node_id e),
                en_votes := [(new_term, [en_node_id e])], en_election_term := Some new_term\<rparr>;
          e = (if en_peers e = [] then reset_replication_state (e\<lparr>en_role := Leader\<rparr>) else e)
      in (new_term, e))"

definition try_promote_to_leader :: "engine \<Rightarrow> bool \<times> engine" where
  "try_promote_to_leader e =
     (case en_election_term e of
        None \<Rightarrow> (False, e)
      | Some term \<Rightarrow>
          if en_term e \<noteq> term \<or> en_role e \<noteq> Candidate \<or> votes_count e term < majority e then (False, e)
          else (True, reset_replication_state (e\<lparr>en_role := Leader\<rparr>)))"

definition receive_vote_response :: "engine \<Rightarrow> string \<Rightarrow> u64 \<Rightarrow> bool \<Rightarrow> bool \<times> engine" where
  "receive_vote_response e voter_id term granted =
     (if \<not> granted then (False, e) else record_vote e voter_id term)"

definition receive_vote_request :: "engine \<Rightarrow> string \<Rightarrow> u64 \<Rightarrow> replication_message \<times> engine" where
  "receive_vote_request e candidate_id term =
     (if term < en_term e then (VoteResponse (en_node_id e) (en_term e) False, e)
      else
        let e = (if en_term e < term then e\<lparr>en_term := term, en_voted_for := None, en_role := Follower\<rparr> else e)
        in case en_voted_for e of
             None \<Rightarrow> (VoteResponse (en_node_id e) term True, e\<lparr>en_voted_for := Some candidate_id\<rparr>)
           | Some v \<Rightarrow> (VoteResponse (en_node_id e) term (v = candidate_id), e))"

text \<open>The handler does not hold a lock from its start to its end. It reads the term and releases the lock; it raises the term,
  clears the vote and steps down under the write lock on the term; it takes the lock on the vote and decides. Other calls of
  the same node may run in between, each inbound connection being served by a task of its own. \<open>receive_vote_request\<close> above,
  like the other handlers of this theory, is the call that runs from its start to its end without another in between.\<close>

datatype vote_call =
    VoteReceived string u64
  | VoteRaising string u64
  | VoteDeciding string u64
  | VoteAnswered replication_message

fun vote_call_step :: "vote_call \<Rightarrow> engine \<Rightarrow> vote_call \<times> engine" where
  "vote_call_step (VoteReceived candidate_id term) e =
     (if term < en_term e then (VoteAnswered (VoteResponse (en_node_id e) (en_term e) False), e)
      else if en_term e < term then (VoteRaising candidate_id term, e)
      else (VoteDeciding candidate_id term, e))"
| "vote_call_step (VoteRaising candidate_id term) e =
     (VoteDeciding candidate_id term, e\<lparr>en_term := term, en_voted_for := None, en_role := Follower\<rparr>)"
| "vote_call_step (VoteDeciding candidate_id term) e =
     (case en_voted_for e of
        None \<Rightarrow> (VoteAnswered (VoteResponse (en_node_id e) term True), e\<lparr>en_voted_for := Some candidate_id\<rparr>)
      | Some v \<Rightarrow> (VoteAnswered (VoteResponse (en_node_id e) term (v = candidate_id)), e))"
| "vote_call_step (VoteAnswered r) e = (VoteAnswered r, e)"

definition receive_heartbeat :: "engine \<Rightarrow> string \<Rightarrow> u64 \<Rightarrow> engine" where
  "receive_heartbeat e leader_id term =
     (if en_term e \<le> term then
        e\<lparr>en_term := term, en_role := Follower, en_voted_for := (if en_term e < term then None else en_voted_for e)\<rparr>
      else e)"

definition step_down :: "engine \<Rightarrow> engine" where
  "step_down e = e\<lparr>en_role := Follower\<rparr>"

section \<open>Pre-votes\<close>

definition start_pre_vote :: "engine \<Rightarrow> pre_vote_round \<times> engine" where
  "start_pre_vote e =
     (let round_id = (if en_round_id e = - 1 then en_round_id e else en_round_id e + 1)
      in (\<lparr>pv_proposed_term = en_term e + 1, pv_round_id = round_id\<rparr>,
          e\<lparr>en_round_id := round_id, en_pre_votes := [(round_id, [en_node_id e])]\<rparr>))"

definition record_pre_vote :: "engine \<Rightarrow> string \<Rightarrow> u64 \<Rightarrow> u64 \<Rightarrow> bool \<times> engine" where
  "record_pre_vote e voter_id proposed_term round_id =
     (if \<not> known e voter_id then (False, e)
      else
        let accept_round =
              (if round_id = en_round_id e then True
               else if round_id = 0 then
                 (case en_in_flight e of Some r \<Rightarrow> pv_proposed_term r = proposed_term | None \<Rightarrow> False)
               else False)
        in if \<not> accept_round then (False, e)
           else let (new, pv) = tally (en_pre_votes e) (en_round_id e) voter_id in (new, e\<lparr>en_pre_votes := pv\<rparr>))"

definition pre_vote_majority_reached :: "engine \<Rightarrow> u64 \<Rightarrow> bool" where
  "pre_vote_majority_reached e round_id \<longleftrightarrow> majority e \<le> length (hm_list (en_pre_votes e) round_id)"

definition receive_pre_vote_request :: "bool \<Rightarrow> engine \<Rightarrow> string \<Rightarrow> u64 \<Rightarrow> u64 \<Rightarrow> replication_message" where
  "receive_pre_vote_request timer_expired e candidate_id proposed_term round_id =
     RequestPreVoteResponse (en_node_id e) proposed_term
       (en_term e < proposed_term \<and>
        (timer_expired \<or> (case en_in_flight e of Some r \<Rightarrow> pv_proposed_term r \<le> proposed_term | None \<Rightarrow> False)))
       round_id"

definition receive_pre_vote_response :: "engine \<Rightarrow> string \<Rightarrow> u64 \<Rightarrow> bool \<Rightarrow> u64 \<Rightarrow> bool \<times> engine" where
  "receive_pre_vote_response e voter_id proposed_term granted round_id =
     (if \<not> granted then (False, e) else record_pre_vote e voter_id proposed_term round_id)"

definition tick :: "bool \<Rightarrow> bool \<Rightarrow> bool \<Rightarrow> engine \<Rightarrow> tick_action \<times> engine" where
  "tick timer_expired in_grace heartbeat_due e =
     (case en_role e of
        Leader \<Rightarrow>
          (if heartbeat_due then BroadcastHeartbeat (en_node_id e) (en_term e) else Idle, e\<lparr>en_in_flight := None\<rparr>)
      | _ \<Rightarrow>
          if (case en_in_flight e of Some r \<Rightarrow> pre_vote_majority_reached e (pv_round_id r) | None \<Rightarrow> False) then
            let (new_term, e) = arm_election e
            in (if en_peers e = [] then Idle else BroadcastVoteRequest (en_node_id e) new_term, e\<lparr>en_in_flight := None\<rparr>)
          else if timer_expired \<and> in_grace then (Idle, e)
          else if timer_expired then
            if en_peers e = [] then (Idle, (snd (arm_election e))\<lparr>en_in_flight := None\<rparr>)
            else
              let (r, e) = start_pre_vote e
              in (BroadcastPreVoteRequest (en_node_id e) (pv_proposed_term r) (pv_round_id r), e\<lparr>en_in_flight := Some r\<rparr>)
          else (Idle, e))"

section \<open>Snapshots and joining\<close>

definition handle_snapshot_request :: "engine \<Rightarrow> string \<Rightarrow> replication_message option" where
  "handle_snapshot_request e follower_id =
     (if en_role e \<noteq> Leader then None
      else Some (SnapshotResponse (snapshot (en_manager e)) (en_last_index e) (en_term e)))"

definition restore_snapshot ::
    "engine \<Rightarrow> cluster_snapshot \<Rightarrow> u64 \<Rightarrow> u64 \<Rightarrow> (unit, cluster_error) res \<times> engine" where
  "restore_snapshot e sn last_index term =
     (if MAX_SNAPSHOT_LOG_INDEX < last_index then (fail (CommandFailed ''snapshot last_index exceeds the maximum''), e)
      else case restore (en_manager e) sn of
        (Inl err, m) \<Rightarrow> (Inl err, e\<lparr>en_manager := m\<rparr>)
      | (Inr _, m) \<Rightarrow>
          (Ok (), e\<lparr>en_manager := m, en_last_index := last_index, en_term := term,
                    en_log_terms := replicate (unat last_index) term\<rparr>))"

definition handle_join :: "engine \<Rightarrow> string \<Rightarrow> replication_message option \<times> engine" where
  "handle_join e node_id =
     (if en_role e \<noteq> Leader then (None, e)
      else
        let or_insert = (\<lambda>v m. if hm_get m node_id = None then hm_insert node_id v m else m);
            e = e\<lparr>en_next_index := or_insert (en_last_index e + 1) (en_next_index e),
                  en_match_index := or_insert 0 (en_match_index e)\<rparr>
        in (Some (SnapshotResponse (snapshot (en_manager e)) (en_last_index e) (en_term e)), e))"

section \<open>Chunked snapshots\<close>

definition buffer_default :: chunk_buffer where
  "buffer_default = \<lparr>cb_expected = 0, cb_highest_contiguous = None, cb_last_index = 0, cb_term = 0, cb_total_bytes = 0, cb_chunks = []\<rparr>"

definition cursor_default :: chunk_cursor where
  "cursor_default = \<lparr>cc_transfer_id = None, cc_last_acked = None, cc_applied = False\<rparr>"

text \<open>The loop of \<open>record_chunk\<close>. The index after the largest one would run over; a chunk index is below
  the number of chunks, so the largest index is never stored.\<close>

function advance :: "(u32, byte list) hash_map \<Rightarrow> u32 \<Rightarrow> u32 option \<Rightarrow> u32 option" where
  "advance chunks nxt highest =
     (if hm_get chunks nxt = None then highest
      else if nxt = - 1 then Some nxt
      else advance chunks (nxt + 1) (Some nxt))"
  by pat_completeness auto
termination
proof (relation "measure (\<lambda>(_, nxt, _). 2 ^ 32 - unat nxt)")
  fix chunks :: "(u32, byte list) hash_map" and nxt :: u32 and highest :: "u32 option"
  assume "nxt \<noteq> - 1"
  then have "unat nxt < unat (nxt + 1)" using word_less_suc word_less_nat_alt by blast
  moreover have "unat (nxt + 1) < 2 ^ 32" using unsigned_less [of "nxt + 1"] by simp
  ultimately show "((chunks, nxt + 1, Some nxt), chunks, nxt, highest) \<in> measure (\<lambda>(_, nxt, _). 2 ^ 32 - unat nxt)"
    by simp
qed simp

declare advance.simps [simp del]

definition record_chunk :: "chunk_buffer \<Rightarrow> u32 \<Rightarrow> byte list \<Rightarrow> chunk_buffer" where
  "record_chunk b idx payload =
     (let chunks = hm_insert idx payload (cb_chunks b);
          nxt = (case cb_highest_contiguous b of None \<Rightarrow> 0 | Some c \<Rightarrow> c + 1)
      in b\<lparr>cb_chunks := chunks, cb_highest_contiguous := advance chunks nxt (cb_highest_contiguous b)\<rparr>)"

definition is_complete :: "chunk_buffer \<Rightarrow> bool" where
  "is_complete b \<longleftrightarrow> 0 < cb_expected b \<and> length (cb_chunks b) = unat (cb_expected b)"

fun collect_chunks :: "(u32, byte list) hash_map \<Rightarrow> nat list \<Rightarrow> byte list option" where
  "collect_chunks chunks [] = Some []"
| "collect_chunks chunks (i # is) =
     (case hm_get chunks (of_nat i) of
        None \<Rightarrow> None
      | Some chunk \<Rightarrow> (case collect_chunks chunks is of None \<Rightarrow> None | Some out \<Rightarrow> Some (chunk @ out)))"

definition assemble :: "chunk_buffer \<Rightarrow> (byte list, cluster_error) res" where
  "assemble b =
     (if \<not> is_complete b then fail (CommandFailed ''chunked snapshot incomplete'')
      else case collect_chunks (cb_chunks b) [0..<unat (cb_expected b)] of
             None \<Rightarrow> fail (CommandFailed ''chunked snapshot missing chunk index'')
           | Some out \<Rightarrow>
               if (of_nat (length out) :: u64) \<noteq> cb_total_bytes b then fail (CommandFailed ''chunked snapshot byte mismatch'')
               else Ok out)"

definition next_snapshot_transfer_id :: "engine \<Rightarrow> u64 \<times> engine" where
  "next_snapshot_transfer_id e =
     (let n = (if en_tx_next_id e = - 1 then - 1 else en_tx_next_id e + 1) in (n, e\<lparr>en_tx_next_id := n\<rparr>))"

definition resume_chunk_idx :: "engine \<Rightarrow> string \<Rightarrow> u64 \<Rightarrow> u32" where
  "resume_chunk_idx e follower_id transfer_id =
     (case hm_get (en_tx_cursors e) follower_id of
        None \<Rightarrow> 0
      | Some c \<Rightarrow>
          if cc_transfer_id c = Some transfer_id then (case cc_last_acked c of None \<Rightarrow> 0 | Some a \<Rightarrow> a + 1) else 0)"

definition chunk_count :: "nat \<Rightarrow> nat \<Rightarrow> nat" where
  "chunk_count len chunk_size = max ((len + chunk_size - 1) div chunk_size) 1"

definition build_snapshot_chunks ::
    "(cluster_snapshot \<Rightarrow> byte list option) \<Rightarrow> engine \<Rightarrow> u64 \<Rightarrow> u32 \<Rightarrow> nat \<Rightarrow> (replication_message list, cluster_error) res" where
  "build_snapshot_chunks encode e transfer_id start_chunk chunk_size =
     (if en_role e \<noteq> Leader then fail (CommandFailed ''build_snapshot_chunks called on non-leader'')
      else case encode (snapshot (en_manager e)) of
        None \<Rightarrow> fail (CommandFailed ''snapshot encode'')
      | Some payload \<Rightarrow>
          let chunk_size = max chunk_size 1;
              total_chunks = (of_nat (chunk_count (length payload) chunk_size) :: u32)
          in Ok (map (\<lambda>idx. SnapshotChunk transfer_id (of_nat idx) total_chunks (Suc idx = unat total_chunks)
               (en_last_index e) (en_term e) (of_nat (length payload)) (take chunk_size (drop (idx * chunk_size) payload)))
             [unat start_chunk..<unat total_chunks]))"

definition receive_snapshot_chunk_ack :: "engine \<Rightarrow> string \<Rightarrow> u64 \<Rightarrow> u32 \<Rightarrow> bool \<Rightarrow> engine" where
  "receive_snapshot_chunk_ack e follower_id transfer_id last_received_chunk applied =
     (let cur = (case hm_get (en_tx_cursors e) follower_id of None \<Rightarrow> cursor_default | Some c \<Rightarrow> c);
          store = (\<lambda>c. e\<lparr>en_tx_cursors := hm_insert follower_id c (en_tx_cursors e)\<rparr>)
      in if cc_transfer_id cur \<noteq> None \<and> cc_transfer_id cur \<noteq> Some transfer_id then store cur
         else store \<lparr>cc_transfer_id = Some transfer_id,
                cc_last_acked = Some (case cc_last_acked cur of None \<Rightarrow> last_received_chunk | Some p \<Rightarrow> max p last_received_chunk),
                cc_applied = (applied \<or> cc_applied cur)\<rparr>)"

definition MAX_SNAPSHOT_TOTAL_BYTES :: u64 where "MAX_SNAPSHOT_TOTAL_BYTES = 134217728"

text \<open>The critical section on the buffers: the assembled bytes once all chunks are there, and the new
  buffers.\<close>

definition buffer_chunk ::
    "(u64, chunk_buffer) hash_map \<Rightarrow> u64 \<Rightarrow> u32 \<Rightarrow> u32 \<Rightarrow> bool \<Rightarrow> u64 \<Rightarrow> u64 \<Rightarrow> u64 \<Rightarrow> byte list \<Rightarrow>
     ((byte list \<times> u64 \<times> u64) option, cluster_error) res \<times> (u64, chunk_buffer) hash_map" where
  "buffer_chunk buffers transfer_id chunk_index total_chunks is_final last_index term total_bytes payload =
     (let buffers = filter (\<lambda>(tid, _). tid = transfer_id) buffers;
          buf = (case hm_get buffers transfer_id of None \<Rightarrow> buffer_default | Some b \<Rightarrow> b)
      in if cb_expected buf \<noteq> 0 \<and> cb_expected buf \<noteq> total_chunks then
           (fail (CommandFailed ''SnapshotChunk: total_chunks differs from buffered''), hm_insert transfer_id buf buffers)
         else
           let buf = (if cb_expected buf = 0
                 then buf\<lparr>cb_expected := total_chunks, cb_last_index := last_index, cb_term := term, cb_total_bytes := total_bytes\<rparr>
                 else buf);
               buf = record_chunk buf chunk_index payload
           in if (is_final \<or> is_complete buf) \<and> is_complete buf then
                (case assemble buf of Inl err \<Rightarrow> Inl err | Inr bytes \<Rightarrow> Ok (Some (bytes, cb_last_index buf, cb_term buf)),
                 hm_remove transfer_id buffers)
              else (Ok None, hm_insert transfer_id buf buffers))"

definition handle_snapshot_chunk ::
    "apply_env \<Rightarrow> engine \<Rightarrow> u64 \<Rightarrow> u32 \<Rightarrow> u32 \<Rightarrow> bool \<Rightarrow> u64 \<Rightarrow> u64 \<Rightarrow> u64 \<Rightarrow> byte list \<Rightarrow>
     (replication_message, cluster_error) res \<times> engine" where
  "handle_snapshot_chunk env e transfer_id chunk_index total_chunks is_final last_index term total_bytes payload =
     (if total_chunks = 0 then (fail (CommandFailed ''SnapshotChunk: total_chunks=0''), e)
      else if total_chunks \<le> chunk_index then (fail (CommandFailed ''SnapshotChunk: chunk_index >= total_chunks''), e)
      else if MAX_SNAPSHOT_TOTAL_BYTES < total_bytes then (fail (CommandFailed ''SnapshotChunk: total_bytes > cap''), e)
      else
        let (r, buffers) = buffer_chunk (en_rx_buffers e) transfer_id chunk_index total_chunks is_final last_index term
               total_bytes payload;
            e = e\<lparr>en_rx_buffers := buffers\<rparr>
        in case r of
             Inl err \<Rightarrow> (Inl err, e)
           | Inr None \<Rightarrow>
               (Ok (SnapshotChunkAck (en_node_id e) transfer_id
                  (case hm_get buffers transfer_id of
                     None \<Rightarrow> chunk_index
                   | Some b \<Rightarrow> (case cb_highest_contiguous b of None \<Rightarrow> chunk_index | Some c \<Rightarrow> c)) False), e)
           | Inr (Some (bytes, li, tm)) \<Rightarrow>
               case ae_decode env bytes of
                 None \<Rightarrow> (fail (CommandFailed ''snapshot decode''), e)
               | Some sn \<Rightarrow>
                   case restore_snapshot e sn li tm of
                     (Inl err, e) \<Rightarrow> (Inl err, e)
                   | (Inr _, e) \<Rightarrow> (Ok (SnapshotChunkAck (en_node_id e) transfer_id (total_chunks - 1) True), e))"

section \<open>Dispatch\<close>

text \<open>A message on a connection a peer opened: the new engine and the reply on the same connection.\<close>

fun handle_inbound ::
    "apply_env \<Rightarrow> bool \<Rightarrow> engine \<Rightarrow> replication_message \<Rightarrow> replication_message option \<times> engine" where
  "handle_inbound env timer_expired e (Heartbeat leader_id term) = (None, receive_heartbeat e leader_id term)"
| "handle_inbound env timer_expired e (ReplicateCommand term index command) =
     (let (resp, e) = process_replicate_command env e term index command in (Some resp, e))"
| "handle_inbound env timer_expired e (VoteRequest candidate_id term) =
     (let (resp, e) = receive_vote_request e candidate_id term in (Some resp, e))"
| "handle_inbound env timer_expired e (VoteResponse voter_id term granted) =
     (let (new, e) = receive_vote_response e voter_id term granted
      in (None, if new then snd (try_promote_to_leader e) else e))"
| "handle_inbound env timer_expired e (ReplicateAck follower_id index success hint) =
     (None, receive_replicate_ack e follower_id index success hint)"
| "handle_inbound env timer_expired e (SnapshotRequest follower_id) = (handle_snapshot_request e follower_id, e)"
| "handle_inbound env timer_expired e (SnapshotResponse sn last_index term) =
     (None, snd (restore_snapshot e sn last_index term))"
| "handle_inbound env timer_expired e (Join node_id addr) = handle_join e node_id"
| "handle_inbound env timer_expired e (RequestPreVote candidate_id proposed_term round_id) =
     (Some (receive_pre_vote_request timer_expired e candidate_id proposed_term round_id), e)"
| "handle_inbound env timer_expired e (RequestPreVoteResponse voter_id proposed_term granted round_id) =
     (None, snd (receive_pre_vote_response e voter_id proposed_term granted round_id))"
| "handle_inbound env timer_expired e
     (SnapshotChunk transfer_id chunk_index total_chunks is_final last_index term total_bytes payload) =
     (case handle_snapshot_chunk env e transfer_id chunk_index total_chunks is_final last_index term total_bytes payload of
        (Inl _, e) \<Rightarrow> (None, e)
      | (Inr ack, e) \<Rightarrow> (Some ack, e))"
| "handle_inbound env timer_expired e (SnapshotChunkAck follower_id transfer_id last_received_chunk applied) =
     (None, receive_snapshot_chunk_ack e follower_id transfer_id last_received_chunk applied)"

text \<open>A message on a connection this node opened: requests are ignored, and a command is not acknowledged.\<close>

definition handle_outbound :: "apply_env \<Rightarrow> engine \<Rightarrow> replication_message \<Rightarrow> engine" where
  "handle_outbound env e msg =
     (case msg of
        VoteRequest _ _ \<Rightarrow> e
      | SnapshotRequest _ \<Rightarrow> e
      | Join _ _ \<Rightarrow> e
      | RequestPreVote _ _ _ \<Rightarrow> e
      | _ \<Rightarrow> snd (handle_inbound env False e msg))"

text \<open>The broadcast a tick asks for.\<close>

fun tick_message :: "tick_action \<Rightarrow> replication_message option" where
  "tick_message Idle = None"
| "tick_message (BroadcastPreVoteRequest candidate_id proposed_term round_id) =
     Some (RequestPreVote candidate_id proposed_term round_id)"
| "tick_message (BroadcastVoteRequest candidate_id term) = Some (VoteRequest candidate_id term)"
| "tick_message (BroadcastHeartbeat leader_id term) = Some (Heartbeat leader_id term)"

end
