(* ===== verification/Replication_Net.thy ===== *)
theory Replication_Net
  imports Replication
begin

text \<open>
  A cluster of replication engines over a network that may lose, delay, repeat and reorder messages:
  a message once sent stays available for delivery. A node acts on its ticks, on the messages it
  receives and on commands submitted to it. Terms do not run over (a tick needs a term below the
  largest one). The deliveries a run may contain are those a predicate allows, so that a property can
  be stated with and without a restriction on them.
\<close>

section \<open>The transition system\<close>

record net =
  nt_node :: "string \<Rightarrow> engine"
  nt_msgs :: "(string \<times> string \<times> replication_message) set"

definition net_init :: "string list \<Rightarrow> net \<Rightarrow> bool" where
  "net_init ms s \<longleftrightarrow> distinct ms \<and> nt_msgs s = {} \<and>
     (\<forall>i \<in> set ms. \<exists>m. nt_node s i = engine_new i (filter (\<lambda>j. j \<noteq> i) ms) m)"

definition sender_ok :: "string \<Rightarrow> replication_message \<Rightarrow> bool" where
  "sender_ok j m \<longleftrightarrow> (case declared_sender_id m of None \<Rightarrow> True | Some k \<Rightarrow> k = j)"

definition update :: "net \<Rightarrow> string \<Rightarrow> engine \<Rightarrow> (string \<times> string \<times> replication_message) set \<Rightarrow> net" where
  "update s i e out = s\<lparr>nt_node := (nt_node s)(i := e), nt_msgs := nt_msgs s \<union> out\<rparr>"

inductive net_step :: "(engine \<Rightarrow> replication_message \<Rightarrow> bool) \<Rightarrow> string list \<Rightarrow> net \<Rightarrow> net \<Rightarrow> bool"
  for allowed ms where
  ticked: "i \<in> set ms \<Longrightarrow> en_term (nt_node s i) \<noteq> - 1 \<Longrightarrow> tick te gr hb (nt_node s i) = (a, e) \<Longrightarrow>
     net_step allowed ms s (update s i e {(i, j, m) | j m. j \<in> set (en_peers e) \<and> tick_message a = Some m})"
| inbound: "i \<in> set ms \<Longrightarrow> (j, i, m) \<in> nt_msgs s \<Longrightarrow> sender_ok j m \<Longrightarrow> allowed (nt_node s i) m \<Longrightarrow>
     handle_inbound env te (nt_node s i) m = (reply, e) \<Longrightarrow>
     net_step allowed ms s (update s i e {(i, j, r) | r. reply = Some r})"
| outbound: "i \<in> set ms \<Longrightarrow> (j, i, m) \<in> nt_msgs s \<Longrightarrow> sender_ok j m \<Longrightarrow> allowed (nt_node s i) m \<Longrightarrow>
     net_step allowed ms s (update s i (handle_outbound env (nt_node s i) m) {})"
| submitted: "i \<in> set ms \<Longrightarrow> net_step allowed ms s (update s i (snd (submit_start env (nt_node s i) cmd)) {})"
| polled: "i \<in> set ms \<Longrightarrow> net_step allowed ms s (update s i (snd (submit_poll (nt_node s i) index term late)) {})"
| replayed: "i \<in> set ms \<Longrightarrow>
     net_step allowed ms s (update s i (nt_node s i) {(i, j, m) | j m. (j, m) \<in> set (build_replay_actions (nt_node s i))})"
| asked: "i \<in> set ms \<Longrightarrow> m = SnapshotRequest i \<or> m = Join i addr \<Longrightarrow>
     net_step allowed ms s (update s i (nt_node s i) {(i, j, m)})"
| chunked: "i \<in> set ms \<Longrightarrow> build_snapshot_chunks encode (nt_node s i) tid start csize = Ok chunks \<Longrightarrow>
     net_step allowed ms s (update s i (nt_node s i) {(i, j, m) | m. m \<in> set chunks})"
| transfer: "i \<in> set ms \<Longrightarrow> net_step allowed ms s (update s i (snd (next_snapshot_transfer_id (nt_node s i))) {})"
| stepped_down: "i \<in> set ms \<Longrightarrow> net_step allowed ms s (update s i (step_down (nt_node s i)) {})"

text \<open>Deliveries that do not change the term of a leader and do not take a node back to an older term.\<close>

definition transfer_term :: "engine \<Rightarrow> u64 \<Rightarrow> u64 \<Rightarrow> u64" where
  "transfer_term e tid term =
     (case hm_get (en_rx_buffers e) tid of None \<Rightarrow> term | Some b \<Rightarrow> if cb_expected b = 0 then term else cb_term b)"

fun calm :: "engine \<Rightarrow> replication_message \<Rightarrow> bool" where
  "calm e (ReplicateCommand term _ _) \<longleftrightarrow> term \<le> en_term e \<or> en_role e \<noteq> Leader"
| "calm e (SnapshotResponse _ _ term) \<longleftrightarrow> en_term e \<le> term \<and> (en_term e = term \<or> en_role e \<noteq> Leader)"
| "calm e (SnapshotChunk tid _ _ _ _ term _ _) \<longleftrightarrow>
     en_term e \<le> transfer_term e tid term \<and> (en_term e = transfer_term e tid term \<or> en_role e \<noteq> Leader)"
| "calm e _ \<longleftrightarrow> True"

section \<open>Votes\<close>

text \<open>Node \<open>i\<close> has voted for \<open>c\<close> in term \<open>t\<close>: it granted a request, or it ran itself.\<close>

definition voted :: "(string \<times> string \<times> replication_message) set \<Rightarrow> string \<Rightarrow> u64 \<Rightarrow> string \<Rightarrow> bool" where
  "voted M i t c \<longleftrightarrow> (i, c, VoteResponse i t True) \<in> M \<or> i = c \<and> (\<exists>j. (c, j, VoteRequest c t) \<in> M)"

definition node_ok :: "string list \<Rightarrow> (string \<times> string \<times> replication_message) set \<Rightarrow> string \<Rightarrow> engine \<Rightarrow> bool" where
  "node_ok ms M i e \<longleftrightarrow> en_node_id e = i \<and> en_peers e = filter (\<lambda>j. j \<noteq> i) ms \<and>
     (\<forall>t c. voted M i t c \<longrightarrow> t \<le> en_term e \<and> (t = en_term e \<longrightarrow> en_voted_for e = Some c)) \<and>
     (\<forall>t v. v \<in> set (hm_list (en_votes e) t) \<longrightarrow> voted M v t i) \<and>
     (\<forall>t. distinct (hm_list (en_votes e) t)) \<and>
     (en_role e = Leader \<longrightarrow> (\<exists>vs. distinct vs \<and> length ms div 2 < length vs \<and> (\<forall>v \<in> set vs. voted M v (en_term e) i)))"

definition net_inv :: "string list \<Rightarrow> net \<Rightarrow> bool" where
  "net_inv ms s \<longleftrightarrow> distinct ms \<and> (\<forall>i \<in> set ms. node_ok ms (nt_msgs s) i (nt_node s i)) \<and>
     (\<forall>i t c. voted (nt_msgs s) i t c \<longrightarrow> i \<in> set ms) \<and>
     (\<forall>i t c c'. voted (nt_msgs s) i t c \<longrightarrow> voted (nt_msgs s) i t c' \<longrightarrow> c = c')"

lemma voted_mono: "voted M i t c \<Longrightarrow> M \<subseteq> M' \<Longrightarrow> voted M' i t c"
  by (auto simp: voted_def)

text \<open>A change of an engine that casts and counts no vote.\<close>

definition neutral :: "engine \<Rightarrow> engine \<Rightarrow> bool" where
  "neutral e e' \<longleftrightarrow> en_node_id e' = en_node_id e \<and> en_peers e' = en_peers e \<and> en_votes e' = en_votes e \<and>
     en_term e \<le> en_term e' \<and> (en_term e' = en_term e \<longrightarrow> en_voted_for e' = en_voted_for e) \<and>
     (en_role e' = Leader \<longrightarrow> en_role e = Leader \<and> en_term e' = en_term e)"

lemma neutral_refl [simp]: "neutral e e"
  by (simp add: neutral_def)

lemma node_ok_neutral:
  assumes "node_ok ms M i e" and "neutral e e'" and "M \<subseteq> M'" and "\<And>t c. voted M' i t c \<Longrightarrow> voted M i t c"
  shows "node_ok ms M' i e'"
proof -
  have "t \<le> en_term e' \<and> (t = en_term e' \<longrightarrow> en_voted_for e' = Some c)" if "voted M' i t c" for t c
  proof -
    have "t \<le> en_term e" "t = en_term e \<longrightarrow> en_voted_for e = Some c"
      using assms(1,4) that by (auto simp: node_ok_def)
    moreover have "en_term e \<le> en_term e'" "en_term e' = en_term e \<longrightarrow> en_voted_for e' = en_voted_for e"
      using assms(2) by (auto simp: neutral_def)
    ultimately show ?thesis by (metis order_antisym order_trans)
  qed
  moreover have "\<exists>vs. distinct vs \<and> length ms div 2 < length vs \<and> (\<forall>v \<in> set vs. voted M' v (en_term e') i)"
    if "en_role e' = Leader"
    using that assms(1,2) voted_mono [OF _ assms(3)] unfolding node_ok_def neutral_def by metis
  ultimately show ?thesis
    using assms(1,2) voted_mono [OF _ assms(3)] by (simp add: node_ok_def neutral_def)
qed

lemma node_ok_mono:
  assumes "node_ok ms M i e" and "M \<subseteq> M'" and "\<And>t c. voted M' i t c \<Longrightarrow> voted M i t c"
  shows "node_ok ms M' i e"
  using node_ok_neutral [OF assms(1) neutral_refl assms(2,3)] .

text \<open>A step of node \<open>i\<close> that adds messages: the votes of the other nodes stay what they were.\<close>

lemma net_invI:
  assumes "net_inv ms s" and "i \<in> set ms" and "node_ok ms (nt_msgs s \<union> out) i e"
    and others: "\<And>v t c. voted (nt_msgs s \<union> out) v t c \<Longrightarrow> v \<noteq> i \<Longrightarrow> voted (nt_msgs s) v t c"
    and once: "\<And>t c c'. voted (nt_msgs s \<union> out) i t c \<Longrightarrow> voted (nt_msgs s \<union> out) i t c' \<Longrightarrow> c = c'"
  shows "net_inv ms (update s i e out)"
proof -
  have "node_ok ms (nt_msgs s \<union> out) k (nt_node s k)" if "k \<in> set ms" "k \<noteq> i" for k
    by (rule node_ok_mono [of ms "nt_msgs s"]) (use assms(1) that others in \<open>auto simp: net_inv_def\<close>)
  moreover have "k \<in> set ms" if "voted (nt_msgs s \<union> out) k t c" for k t c
    using that assms(1,2) others unfolding net_inv_def by metis
  moreover have "c = c'" if "voted (nt_msgs s \<union> out) k t c" "voted (nt_msgs s \<union> out) k t c'" for k t c c'
    using that assms(1) others once unfolding net_inv_def by metis
  moreover have "distinct ms" using assms(1) by (simp add: net_inv_def)
  ultimately show ?thesis
    using assms(3) unfolding net_inv_def update_def by auto
qed

lemma net_inv_neutral:
  assumes "net_inv ms s" and "i \<in> set ms" and "neutral (nt_node s i) e"
    and same: "\<And>v t c. voted (nt_msgs s \<union> out) v t c \<Longrightarrow> voted (nt_msgs s) v t c"
  shows "net_inv ms (update s i e out)"
proof (rule net_invI [OF assms(1,2)])
  show "node_ok ms (nt_msgs s \<union> out) i e"
    by (rule node_ok_neutral [OF _ assms(3), of ms "nt_msgs s"]) (use assms(1,2) same in \<open>auto simp: net_inv_def\<close>)
next
  fix t c c'
  assume "voted (nt_msgs s \<union> out) i t c" "voted (nt_msgs s \<union> out) i t c'"
  with same assms(1) show "c = c'" unfolding net_inv_def by metis
qed (use same in blast)

section \<open>Steps that cast no vote\<close>

text \<open>Messages that are neither a request for a vote nor a granted vote.\<close>

definition quiet :: "(string \<times> string \<times> replication_message) set \<Rightarrow> bool" where
  "quiet out \<longleftrightarrow> (\<forall>i j t. (i, j, VoteRequest i t) \<notin> out) \<and> (\<forall>i j t. (i, j, VoteResponse i t True) \<notin> out)"

lemma voted_quiet: "quiet out \<Longrightarrow> voted (M \<union> out) i t c \<Longrightarrow> voted M i t c"
  by (auto simp: voted_def quiet_def)

lemma quiet_empty [simp]: "quiet {}"
  by (simp add: quiet_def)

lemma net_inv_quiet:
  assumes "net_inv ms s" and "i \<in> set ms" and "neutral (nt_node s i) e" and "quiet out"
  shows "net_inv ms (update s i e out)"
  by (rule net_inv_neutral [OF assms(1-3)]) (rule voted_quiet [OF assms(4)])

lemma neutral_heartbeat: "neutral e (receive_heartbeat e l t)"
  by (auto simp: neutral_def receive_heartbeat_def)

lemma neutral_command:
  assumes "calm e (ReplicateCommand t i cmd)"
  shows "neutral e (snd (process_replicate_command env e t i cmd))"
  using assms by (auto simp: neutral_def process_replicate_command_def receive_command_def Let_def split: prod.splits if_splits)

lemma command_reply:
  "\<exists>e' n b h. process_replicate_command env e t i cmd = (ReplicateAck n i b h, e')"
  by (auto simp: process_replicate_command_def Let_def split: prod.splits)

lemma neutral_ack: "neutral e (receive_replicate_ack e f i b h)"
  by (auto simp: neutral_def receive_replicate_ack_def Let_def)

lemma neutral_restore:
  assumes "calm e (SnapshotResponse sn i t)"
  shows "neutral e (snd (restore_snapshot e sn i t))"
  using assms by (auto simp: neutral_def restore_snapshot_def split: prod.splits sum.splits)

lemma hm_get_filter_key [simp]: "hm_get (filter (\<lambda>(k', _). k' = k) m) k = hm_get m k"
  by (induction m) (auto simp: hm_get_def)

lemma buffer_chunk_term:
  assumes "buffer_chunk (en_rx_buffers e) tid i n fin li t tb p = (Ok (Some (bytes, li', t')), bufs)"
  shows "t' = transfer_term e tid t"
  using assms by (auto simp: buffer_chunk_def transfer_term_def record_chunk_def buffer_default_def Let_def
      split: option.splits if_splits sum.splits)

lemma neutral_chunk:
  assumes "calm e (SnapshotChunk tid i n fin li t tb p)"
  shows "neutral e (snd (handle_snapshot_chunk env e tid i n fin li t tb p))"
proof -
  obtain r bufs where b: "buffer_chunk (en_rx_buffers e) tid i n fin li t tb p = (r, bufs)" by fastforce
  let ?e = "e\<lparr>en_rx_buffers := bufs\<rparr>"
  have e: "neutral e ?e" by (simp add: neutral_def)
  have "neutral e (snd (restore_snapshot ?e sn li' t'))" if "r = Ok (Some (bytes, li', t'))" for bytes li' t' sn
  proof -
    have "t' = transfer_term e tid t" using buffer_chunk_term b that by blast
    with assms have "calm ?e (SnapshotResponse sn li' t')" by simp
    from neutral_restore [OF this] show ?thesis by (auto simp: neutral_def)
  qed
  then show ?thesis
    using b e by (auto simp: handle_snapshot_chunk_def Let_def split: sum.splits option.splits prod.splits) (metis snd_conv)+
qed

lemma chunk_reply:
  "fst (handle_snapshot_chunk env e tid i n fin li t tb p) = Ok r \<Longrightarrow> \<exists>f a b c. r = SnapshotChunkAck f a b c"
  by (auto simp: handle_snapshot_chunk_def Let_def split: if_splits sum.splits option.splits prod.splits)

lemma neutral_chunk_ack: "neutral e (receive_snapshot_chunk_ack e f tid i a)"
  by (auto simp: neutral_def receive_snapshot_chunk_ack_def Let_def)

lemma neutral_transfer: "neutral e (snd (next_snapshot_transfer_id e))"
  by (auto simp: neutral_def next_snapshot_transfer_id_def Let_def)

lemma neutral_join: "neutral e (snd (handle_join e n))"
  by (auto simp: neutral_def handle_join_def Let_def)

lemma join_reply: "fst (handle_join e n) = Some r \<Longrightarrow> \<exists>sn i t. r = SnapshotResponse sn i t"
  by (auto simp: handle_join_def Let_def split: if_splits)

lemma neutral_pre_vote: "neutral e (snd (receive_pre_vote_response e v t g r))"
  by (auto simp: neutral_def receive_pre_vote_response_def record_pre_vote_def tally_def Let_def)

lemma neutral_submit: "neutral e (snd (submit_start env e cmd))"
  by (auto simp: neutral_def submit_start_def Let_def split: prod.splits sum.splits)

lemma neutral_poll: "neutral e (snd (submit_poll e i t l))"
  by (auto simp: neutral_def submit_poll_def Let_def)

lemma neutral_step_down: "neutral e (step_down e)"
  by (auto simp: neutral_def step_down_def)

lemmas neutral_steps = neutral_heartbeat neutral_command neutral_ack neutral_restore neutral_join
  neutral_pre_vote neutral_submit neutral_poll neutral_step_down neutral_chunk_ack neutral_transfer

text \<open>A tick either casts no vote or starts an election.\<close>

lemma tick_cases:
  assumes "tick te gr hb e = (a, e')" and "en_peers e \<noteq> []"
  obtains (calm) "neutral e e'" "\<And>c t. a \<noteq> BroadcastVoteRequest c t"
    | (armed) "e' = (snd (arm_election e))\<lparr>en_in_flight := None\<rparr>" "a = BroadcastVoteRequest (en_node_id e) (en_term e + 1)"
      "\<exists>r. en_in_flight e = Some r \<and> pre_vote_majority_reached e (pv_round_id r)" "en_role e \<noteq> Leader"
proof (cases "en_role e \<noteq> Leader \<and> (\<exists>r. en_in_flight e = Some r \<and> pre_vote_majority_reached e (pv_round_id r))")
  case True
  then have "e' = (snd (arm_election e))\<lparr>en_in_flight := None\<rparr>" "a = BroadcastVoteRequest (en_node_id e) (en_term e + 1)"
    using assms by (auto simp: tick_def arm_election_def Let_def split: replication_role.splits)
  with True show ?thesis using armed by blast
next
  case False
  then have "neutral e e' \<and> (\<forall>c t. a \<noteq> BroadcastVoteRequest c t)"
    using assms by (auto simp: tick_def neutral_def start_pre_vote_def Let_def split: replication_role.splits if_splits option.splits)
  then show ?thesis using calm by blast
qed

section \<open>Casting and counting votes\<close>

text \<open>A vote for \<open>c\<close> in term \<open>t\<close> agrees with the votes the node cast before.\<close>

lemma cast_ok:
  assumes "node_ok ms M i e" and "en_term e \<le> t" and "en_term e = t \<longrightarrow> en_voted_for e \<in> {None, Some c}"
    and "voted M i t' c' \<or> t' = t \<and> c' = c"
  shows "t' \<le> t \<and> (t' = t \<longrightarrow> c' = c)"
  using assms(4)
proof
  assume "voted M i t' c'"
  then have v: "t' \<le> en_term e" "t' = en_term e \<longrightarrow> en_voted_for e = Some c'"
    using assms(1) by (auto simp: node_ok_def)
  moreover have "c' = c" if "t' = t"
  proof -
    have "en_term e = t" using v(1) assms(2) that by (simp add: order_antisym)
    with v(2) assms(3) that show ?thesis by simp
  qed
  ultimately show ?thesis using assms(2) order_trans by blast
qed simp

lemma net_inv_cast:
  assumes inv: "net_inv ms s" and i: "i \<in> set ms"
    and e: "en_term (nt_node s i) \<le> t" "en_term (nt_node s i) = t \<longrightarrow> en_voted_for (nt_node s i) \<in> {None, Some c}"
    and e': "en_node_id e = i" "en_peers e = en_peers (nt_node s i)" "en_term e = t" "en_voted_for e = Some c"
    and votes: "\<And>t' v. v \<in> set (hm_list (en_votes e) t') \<Longrightarrow> voted (nt_msgs s \<union> out) v t' i"
      "\<And>t'. distinct (hm_list (en_votes e) t')"
    and lead: "en_role e = Leader \<Longrightarrow> en_role (nt_node s i) = Leader \<and> en_term (nt_node s i) = t"
    and out: "\<And>v t' c'. voted (nt_msgs s \<union> out) v t' c' \<Longrightarrow> voted (nt_msgs s) v t' c' \<or> v = i \<and> t' = t \<and> c' = c"
  shows "net_inv ms (update s i e out)"
proof (rule net_invI [OF inv i])
  let ?e = "nt_node s i"
  have ok: "node_ok ms (nt_msgs s) i ?e" using inv i by (simp add: net_inv_def)
  have mono: "voted (nt_msgs s) v t' c' \<Longrightarrow> voted (nt_msgs s \<union> out) v t' c'" for v t' c'
    by (erule voted_mono) simp
  have "t' \<le> t \<and> (t' = t \<longrightarrow> c' = c)" if "voted (nt_msgs s \<union> out) i t' c'" for t' c'
    by (rule cast_ok [OF ok e]) (use out [OF that] in blast)
  moreover have "\<exists>vs. distinct vs \<and> length ms div 2 < length vs \<and> (\<forall>v \<in> set vs. voted (nt_msgs s \<union> out) v t i)"
    if "en_role e = Leader"
    using ok lead [OF that] mono unfolding node_ok_def by metis
  ultimately show "node_ok ms (nt_msgs s \<union> out) i e"
    using ok e' votes unfolding node_ok_def by auto
next
  fix t' c1 c2
  assume v: "voted (nt_msgs s \<union> out) i t' c1" "voted (nt_msgs s \<union> out) i t' c2"
  have "node_ok ms (nt_msgs s) i (nt_node s i)" using inv i by (simp add: net_inv_def)
  then have cast: "t1 = t \<longrightarrow> c' = c" if "voted (nt_msgs s) i t1 c' \<or> t1 = t \<and> c' = c" for t1 c'
    using cast_ok [OF _ e that] by blast
  show "c1 = c2"
  proof (cases "t' = t")
    case True
    then show ?thesis using cast [of t' c1] cast [of t' c2] out [OF v(1)] out [OF v(2)] by blast
  next
    case False
    then have "voted (nt_msgs s) i t' c1" "voted (nt_msgs s) i t' c2" using out [OF v(1)] out [OF v(2)] by auto
    then show ?thesis using inv unfolding net_inv_def by blast
  qed
qed (use out in blast)

lemma vote_request_cases:
  assumes "receive_vote_request e c t = (r, e')"
  obtains (refused) t' where "neutral e e'" "r = VoteResponse (en_node_id e) t' False"
    | (granted) "r = VoteResponse (en_node_id e) t True" "en_term e \<le> t"
      "en_term e = t \<longrightarrow> en_voted_for e \<in> {None, Some c}"
      "en_node_id e' = en_node_id e" "en_peers e' = en_peers e" "en_term e' = t" "en_voted_for e' = Some c"
      "en_votes e' = en_votes e" "en_role e' = Leader \<Longrightarrow> en_role e = Leader \<and> en_term e = t"
proof -
  consider "t < en_term e" | "en_term e < t" | "t = en_term e" by (rule linorder_cases)
  then show thesis
  proof cases
    case 1
    then show thesis using assms by (intro refused) (auto simp: receive_vote_request_def)
  next
    case 2
    then have "\<not> t < en_term e" by simp
    with 2 show thesis using assms by (intro granted) (auto simp: receive_vote_request_def Let_def)
  next
    case 3
    show thesis
    proof (cases "en_voted_for e \<in> {None, Some c}")
      case True
      then show thesis using 3 assms by (intro granted) (auto simp: receive_vote_request_def)
    next
      case False
      then show thesis using 3 assms by (intro refused) (auto simp: receive_vote_request_def)
    qed
  qed
qed

lemma net_inv_vote_request:
  assumes inv: "net_inv ms s" and i: "i \<in> set ms" and r: "receive_vote_request (nt_node s i) c t = (r, e)"
  shows "net_inv ms (update s i e {(i, c, r)})"
  using r
proof (cases rule: vote_request_cases)
  case (refused t')
  then show ?thesis
    by (intro net_inv_quiet [OF inv i]) (auto simp: quiet_def)
next
  case granted
  have ok: "node_ok ms (nt_msgs s) i (nt_node s i)" using inv i by (simp add: net_inv_def)
  then have id: "en_node_id (nt_node s i) = i" by (simp add: node_ok_def)
  show ?thesis
  proof (rule net_inv_cast [OF inv i granted(2,3), of e])
    show "voted (nt_msgs s \<union> {(i, c, r)}) v t' i" if "v \<in> set (hm_list (en_votes e) t')" for t' v
      by (rule voted_mono [of "nt_msgs s"]) (use that ok granted(8) in \<open>auto simp: node_ok_def\<close>)
    show "distinct (hm_list (en_votes e) t')" for t'
      using ok granted(8) by (simp add: node_ok_def)
    show "voted (nt_msgs s) v t' c' \<or> v = i \<and> t' = t \<and> c' = c"
      if "voted (nt_msgs s \<union> {(i, c, r)}) v t' c'" for v t' c'
      using that granted(1) id by (auto simp: voted_def)
  qed (use granted id in auto)
qed

lemma length_others: "distinct ms \<Longrightarrow> i \<in> set ms \<Longrightarrow> Suc (length (filter (\<lambda>j. j \<noteq> i) ms)) = length ms"
proof (induction ms)
  case (Cons a ms)
  show ?case
  proof (cases "a = i")
    case True
    with Cons.prems have "filter (\<lambda>j. j \<noteq> i) ms = ms" by (auto simp: filter_id_conv)
    with True show ?thesis by simp
  qed (use Cons in auto)
qed simp

lemma net_inv_armed:
  assumes inv: "net_inv ms s" and i: "i \<in> set ms" and max: "en_term (nt_node s i) \<noteq> - 1"
    and peers: "en_peers (nt_node s i) \<noteq> []"
  shows "net_inv ms (update s i ((snd (arm_election (nt_node s i)))\<lparr>en_in_flight := None\<rparr>)
    {(i, j, VoteRequest i (en_term (nt_node s i) + 1)) | j. j \<in> set (en_peers (nt_node s i))})"
    (is "net_inv ms (update s i ?e ?out)")
proof -
  let ?t = "en_term (nt_node s i) + 1"
  have lt: "en_term (nt_node s i) < ?t" using max by (rule word_less_suc)
  have ok: "node_ok ms (nt_msgs s) i (nt_node s i)" using inv i by (simp add: net_inv_def)
  then have id: "en_node_id (nt_node s i) = i" by (simp add: node_ok_def)
  have e: "en_role ?e = Candidate" "en_votes ?e = [(?t, [i])]" "en_node_id ?e = i"
    "en_peers ?e = en_peers (nt_node s i)" "en_term ?e = ?t" "en_voted_for ?e = Some i"
    using peers id by (simp_all add: arm_election_def Let_def)
  have self: "voted (nt_msgs s \<union> ?out) i ?t i"
    using peers by (fastforce simp: voted_def neq_Nil_conv)
  show ?thesis
  proof (rule net_inv_cast [OF inv i _ _ e(3-6)])
    show "voted (nt_msgs s) v t' c' \<or> v = i \<and> t' = ?t \<and> c' = i"
      if "voted (nt_msgs s \<union> ?out) v t' c'" for v t' c'
      using that by (auto simp: voted_def)
    show "voted (nt_msgs s \<union> ?out) v t' i" if "v \<in> set (hm_list (en_votes ?e) t')" for t' v
      using that self unfolding e(2) by (auto simp: hm_list_def hm_get_def split: if_splits)
    show "distinct (hm_list (en_votes ?e) t')" for t'
      unfolding e(2) by (simp add: hm_list_def hm_get_def)
  qed (use lt e(1) in auto)
qed

text \<open>Counting a granted vote, and becoming leader once a majority is counted.\<close>

lemma vote_response_ok:
  assumes ok: "node_ok ms M i e" and "distinct ms" and "i \<in> set ms" and v: "granted \<Longrightarrow> voted M v t i"
    and r: "receive_vote_response e v t granted = (new, e1)" and e': "e' = (if new then snd (try_promote_to_leader e1) else e1)"
  shows "node_ok ms M i e'"
proof -
  have ok1: "node_ok ms M i e1"
    using ok r v by (auto simp: receive_vote_response_def record_vote_def tally_def node_ok_def Let_def split: if_splits)
  have total: "total_voters e1 = length ms"
    using ok1 assms(2,3) length_others by (simp add: total_voters_def node_ok_def)
  show ?thesis
  proof (cases "e' = e1")
    case False
    then obtain t' where t': "en_election_term e1 = Some t'" "en_term e1 = t'" "majority e1 \<le> votes_count e1 t'"
        and e'': "e' = reset_replication_state (e1\<lparr>en_role := Leader\<rparr>)"
      using e' by (auto simp: try_promote_to_leader_def split: option.splits if_splits)
    let ?vs = "hm_list (en_votes e1) t'"
    have "distinct ?vs" "length ms div 2 < length ?vs" "\<forall>v \<in> set ?vs. voted M v t' i"
      using ok1 t'(3) total by (auto simp: node_ok_def majority_def votes_count_def)
    then have "\<exists>vs. distinct vs \<and> length ms div 2 < length vs \<and> (\<forall>v \<in> set vs. voted M v (en_term e') i)"
      using t'(2) unfolding e'' reset_replication_state_def by auto
    then show ?thesis using ok1 unfolding e'' node_ok_def reset_replication_state_def by simp
  qed (use ok1 in simp)
qed

lemma net_inv_vote_response:
  assumes inv: "net_inv ms s" and i: "i \<in> set ms" and m: "(j, i, VoteResponse v t granted) \<in> nt_msgs s"
    and "sender_ok j (VoteResponse v t granted)"
  shows "net_inv ms (update s i (snd (handle_inbound env te (nt_node s i) (VoteResponse v t granted))) {})"
proof (rule net_invI [OF inv i])
  have "granted \<Longrightarrow> voted (nt_msgs s) v t i" using m assms(4) by (simp add: voted_def sender_ok_def)
  moreover have "node_ok ms (nt_msgs s) i (nt_node s i)" "distinct ms" using inv i by (auto simp: net_inv_def)
  moreover obtain new e1 where "receive_vote_response (nt_node s i) v t granted = (new, e1)" by fastforce
  ultimately have "node_ok ms (nt_msgs s) i (snd (handle_inbound env te (nt_node s i) (VoteResponse v t granted)))"
    using vote_response_ok [OF _ _ i, of "nt_msgs s" "nt_node s i" granted v t new e1] by simp
  then show "node_ok ms (nt_msgs s \<union> {}) i (snd (handle_inbound env te (nt_node s i) (VoteResponse v t granted)))" by simp
qed (use inv in \<open>auto simp: net_inv_def\<close>)

section \<open>Every step\<close>

lemma inbound_quiet:
  assumes "handle_inbound env te e m = (reply, e')" and "calm e m"
    and "\<And>c t. m \<noteq> VoteRequest c t" and "\<And>v t g. m \<noteq> VoteResponse v t g"
  shows "neutral e e'" and "quiet {(i, j, r) | r. reply = Some r}"
proof -
  have "neutral e e' \<and> quiet {(i, j, r) | r. reply = Some r}"
  proof (cases m)
    case (ReplicateCommand t ix cmd)
    then show ?thesis
      using assms(1,2) command_reply [of env e t ix cmd] neutral_command [of e t ix cmd env]
      by (auto simp: quiet_def)
  next
    case (SnapshotChunk tid i n fin li t tb p)
    then show ?thesis
      using assms(1,2) neutral_chunk [of e tid i n fin li t tb p env] chunk_reply [of env e tid i n fin li t tb p]
      by (fastforce simp: quiet_def split: prod.splits sum.splits)
  next
    case (Join n a)
    then show ?thesis
      using assms(1) neutral_join [of e n] join_reply [of e n] by (fastforce simp: quiet_def)
  qed (use assms neutral_steps in \<open>auto simp: quiet_def handle_snapshot_request_def receive_pre_vote_request_def split: if_splits\<close>)
  then show "neutral e e'" and "quiet {(i, j, r) | r. reply = Some r}" by auto
qed

lemma net_inv_inbound:
  assumes inv: "net_inv ms s" and i: "i \<in> set ms" and m: "(j, i, m) \<in> nt_msgs s" "sender_ok j m" "calm (nt_node s i) m"
    and h: "handle_inbound env te (nt_node s i) m = (reply, e)"
  shows "net_inv ms (update s i e {(i, j, r) | r. reply = Some r})"
proof -
  consider (req) t where "m = VoteRequest j t" | (resp) v t g where "m = VoteResponse v t g"
    | (other) "\<And>c t. m \<noteq> VoteRequest c t" "\<And>v t g. m \<noteq> VoteResponse v t g"
    using m(2) by (cases m) (auto simp: sender_ok_def)
  then show ?thesis
  proof cases
    case req
    obtain r e' where "receive_vote_request (nt_node s i) j t = (r, e')" by fastforce
    with net_inv_vote_request [OF inv i this] h req show ?thesis by auto
  next
    case resp
    have "reply = None" using h resp by (auto split: prod.splits)
    with net_inv_vote_response [OF inv i, of j v t g env te] m h resp show ?thesis by simp
  next
    case other
    from inbound_quiet [OF h m(3) other] show ?thesis by (rule net_inv_quiet [OF inv i])
  qed
qed

lemma net_inv_outbound:
  assumes inv: "net_inv ms s" and i: "i \<in> set ms" and m: "(j, i, m) \<in> nt_msgs s" "sender_ok j m" "calm (nt_node s i) m"
  shows "net_inv ms (update s i (handle_outbound env (nt_node s i) m) {})"
proof -
  obtain reply e where h: "handle_inbound env False (nt_node s i) m = (reply, e)" by fastforce
  consider (resp) v t g where "m = VoteResponse v t g"
    | (ignored) "handle_outbound env (nt_node s i) m = nt_node s i"
    | (other) "\<And>c t. m \<noteq> VoteRequest c t" "\<And>v t g. m \<noteq> VoteResponse v t g" "handle_outbound env (nt_node s i) m = e"
    using h by (cases m) (auto simp: handle_outbound_def)
  then show ?thesis
  proof cases
    case resp
    with net_inv_vote_response [OF inv i, of j v t g env False] m show ?thesis by (simp add: handle_outbound_def)
  next
    case ignored
    then show ?thesis using net_inv_quiet [OF inv i neutral_refl quiet_empty] by simp
  next
    case other
    with inbound_quiet(1) [OF h m(3)] show ?thesis by (intro net_inv_quiet [OF inv i]) auto
  qed
qed

lemma net_inv_tick:
  assumes inv: "net_inv ms s" and i: "i \<in> set ms" and max: "en_term (nt_node s i) \<noteq> - 1" and many: "1 < length ms"
    and t: "tick te gr hb (nt_node s i) = (a, e)"
  shows "net_inv ms (update s i e {(i, j, m) | j m. j \<in> set (en_peers e) \<and> tick_message a = Some m})"
proof -
  have ok: "en_node_id (nt_node s i) = i" "en_peers (nt_node s i) = filter (\<lambda>j. j \<noteq> i) ms" "distinct ms"
    using inv i by (auto simp: net_inv_def node_ok_def)
  then have peers: "en_peers (nt_node s i) \<noteq> []"
    using length_others [OF ok(3) i] many by auto
  from t peers show ?thesis
  proof (cases rule: tick_cases)
    case calm
    then have "tick_message a \<noteq> Some (VoteRequest c t)" "tick_message a \<noteq> Some (VoteResponse c t True)" for c t
      by (cases a; simp)+
    then show ?thesis using calm by (intro net_inv_quiet [OF inv i]) (auto simp: quiet_def)
  next
    case armed
    then have "en_peers e = en_peers (nt_node s i)" using peers by (simp add: arm_election_def Let_def)
    with net_inv_armed [OF inv i max peers] armed ok(1) show ?thesis by (simp add: conj_commute)
  qed
qed

lemma net_inv_step:
  assumes "net_step calm ms s s'" and inv: "net_inv ms s" and many: "1 < length ms"
  shows "net_inv ms s'"
  using assms(1)
proof (cases rule: net_step.cases)
  case (replayed i)
  then show ?thesis
    by (auto intro!: net_inv_quiet [OF inv] simp: quiet_def build_replay_actions_def split: if_splits)
next
  case (chunked i encode tid start csize chunks j)
  then show ?thesis
    by (auto intro!: net_inv_quiet [OF inv] simp: quiet_def build_snapshot_chunks_def Let_def split: if_splits option.splits)
next
  case (asked i m addr j)
  then show ?thesis by (auto intro!: net_inv_quiet [OF inv] simp: quiet_def)
next
  case (ticked i te gr hb a e)
  then show ?thesis using net_inv_tick [OF inv _ _ many] by blast
next
  case (inbound i j m env te reply e)
  then show ?thesis using net_inv_inbound [OF inv] by blast
next
  case (outbound i j m env)
  then show ?thesis using net_inv_outbound [OF inv] by blast
qed (auto intro!: net_inv_quiet [OF inv] intro: neutral_steps)

lemma net_inv_start: "net_init ms s \<Longrightarrow> net_inv ms s"
  by (auto simp: net_init_def net_inv_def node_ok_def voted_def engine_new_def hm_list_def)

interpretation elections: inductive_invariant "net_init ms" "net_step calm ms" "\<lambda>s. 1 < length ms \<longrightarrow> net_inv ms s"
  by unfold_locales (auto intro: net_inv_start net_inv_step)

end
