(* ===== verification/Replication_Log.thy ===== *)
theory Replication_Log
  imports Replication_Net
begin

text \<open>
  The log of the replication engine: the length of the recorded terms, what a delivered command does
  to a follower, and the replay of a leader's log. An entry is a term, an index and a command, as in
  a \<open>ReplicateCommand\<close> message.
\<close>

type_synonym log_entry = "u64 \<times> u64 \<times> cluster_command"

definition receive_entry :: "apply_env \<Rightarrow> engine \<Rightarrow> log_entry \<Rightarrow> engine" where
  "receive_entry env e d = (case d of (t, i, c) \<Rightarrow> snd (process_replicate_command env e t i c))"

definition receive_entries :: "apply_env \<Rightarrow> engine \<Rightarrow> log_entry list \<Rightarrow> engine" where
  "receive_entries env e ds = foldl (receive_entry env) e ds"

definition apply_entry :: "apply_env \<Rightarrow> cluster_manager \<Rightarrow> log_entry \<Rightarrow> cluster_manager" where
  "apply_entry env m d = snd (apply_to env m (snd (snd d)))"

text \<open>A log numbered from 1 without a gap.\<close>

definition numbered :: "log_entry list \<Rightarrow> bool" where
  "numbered L \<longleftrightarrow> Suc (length L) < 2 ^ 64 \<and> map (\<lambda>d. fst (snd d)) L = map (\<lambda>k. of_nat (Suc k)) [0..<length L]"

text \<open>The engine holds the first \<open>k\<close> entries of a log, and its manager is what they make of \<open>m\<close>.\<close>

definition holds_prefix :: "apply_env \<Rightarrow> cluster_manager \<Rightarrow> log_entry list \<Rightarrow> nat \<Rightarrow> engine \<Rightarrow> bool" where
  "holds_prefix env m L k e \<longleftrightarrow> k \<le> length L \<and> en_log e = map snd (take k L) \<and> en_log_terms e = map fst (take k L) \<and>
     en_last_index e = of_nat k \<and> en_manager e = foldl (apply_entry env) m (take k L)"

section \<open>One delivery\<close>

lemma receive_entry_append:
  assumes "en_term e \<le> t" and "i = en_last_index e + 1" and "en_last_index e \<noteq> - 1"
  shows "receive_entry env e (t, i, c) =
    e\<lparr>en_term := t, en_last_index := i, en_log := en_log e @ [(i, c)], en_log_terms := en_log_terms e @ [t],
      en_manager := apply_entry env (en_manager e) (t, i, c)\<rparr>"
proof -
  have "\<not> t < en_term e" "\<not> i \<le> en_last_index e" using assms word_less_suc [of "en_last_index e"] by auto
  moreover have "(if en_term e < t then e\<lparr>en_term := t\<rparr> else e) = e\<lparr>en_term := t\<rparr>" using assms(1) by auto
  ultimately show ?thesis
    using assms(2) by (auto simp: receive_entry_def process_replicate_command_def receive_command_def
        apply_entry_def Let_def split: prod.splits)
qed

lemma receive_entry_reject:
  assumes "t < en_term e \<or> i \<noteq> en_last_index e + 1 \<or> en_last_index e = - 1"
  shows "receive_entry env e (t, i, c) = e\<lparr>en_term := max t (en_term e)\<rparr>"
proof (cases "t < en_term e")
  case True
  then show ?thesis by (simp add: receive_entry_def process_replicate_command_def receive_command_def max_def)
next
  case False
  then have up: "(if en_term e < t then e\<lparr>en_term := t\<rparr> else e) = e\<lparr>en_term := max t (en_term e)\<rparr>"
    by (auto simp: max_def)
  have "i \<le> en_last_index e \<or> en_last_index e + 1 < i"
  proof (rule ccontr)
    assume n: "\<not> ?thesis"
    then have "en_last_index e < i" "i \<le> en_last_index e + 1" by auto
    then have "i = en_last_index e + 1" "en_last_index e \<noteq> - 1"
      using inc_le [of "en_last_index e" i] by (auto dest: order_antisym)
    with assms False show False by simp
  qed
  with False up show ?thesis
    by (auto simp: receive_entry_def process_replicate_command_def receive_command_def Let_def)
qed

lemma receive_entry_cases:
  obtains (append) "en_term e \<le> t" "i = en_last_index e + 1" "en_last_index e \<noteq> - 1"
    | (reject) "receive_entry env e (t, i, c) = e\<lparr>en_term := max t (en_term e)\<rparr>"
  using receive_entry_reject not_le by metis

section \<open>The recorded terms\<close>

definition terms_ok :: "engine \<Rightarrow> bool" where
  "terms_ok e \<longleftrightarrow> of_nat (length (en_log_terms e)) = en_last_index e"

lemma terms_ok_entry: "terms_ok e \<Longrightarrow> terms_ok (receive_entry env e d)"
proof (cases d)
  case (fields t i c)
  assume ok: "terms_ok e"
  show ?thesis
    unfolding fields
    by (cases rule: receive_entry_cases [where e = e and t = t and i = i and env = env and c = c])
      (use ok in \<open>simp_all add: receive_entry_append terms_ok_def\<close>)
qed

lemma terms_ok_restore: "terms_ok e \<Longrightarrow> terms_ok (snd (restore_snapshot e sn i t))"
  by (auto simp: terms_ok_def restore_snapshot_def split: prod.splits sum.splits)

lemma terms_ok_submit: "terms_ok e \<Longrightarrow> terms_ok (snd (submit_start env e cmd))"
  by (auto simp: terms_ok_def submit_start_def Let_def split: prod.splits sum.splits)

definition same_log :: "engine \<Rightarrow> engine \<Rightarrow> bool" where
  "same_log e e' \<longleftrightarrow> en_log e' = en_log e \<and> en_log_terms e' = en_log_terms e \<and> en_last_index e' = en_last_index e \<and>
     en_manager e' = en_manager e"

lemma same_log_ops:
  "same_log e (receive_heartbeat e l t)" "same_log e (receive_replicate_ack e f i b h)"
  "same_log e (snd (receive_vote_request e c t))" "same_log e (snd (receive_pre_vote_response e v t g r))"
  "same_log e (snd (handle_join e n))" "same_log e (snd (submit_poll e i t late))" "same_log e (step_down e)"
  "same_log e (receive_snapshot_chunk_ack e n tid k a)" "same_log e (snd (next_snapshot_transfer_id e))"
  by (auto simp: same_log_def receive_heartbeat_def receive_replicate_ack_def receive_vote_request_def
      receive_pre_vote_response_def record_pre_vote_def tally_def handle_join_def submit_poll_def step_down_def
      receive_snapshot_chunk_ack_def next_snapshot_transfer_id_def Let_def
      split: option.splits)

lemma same_log_vote:
  "same_log e (snd (handle_inbound env te e (VoteResponse v t g)))"
  by (auto simp: same_log_def receive_vote_response_def record_vote_def tally_def try_promote_to_leader_def
      reset_replication_state_def Let_def split: prod.splits option.splits)

lemma same_log_tick: "same_log e (snd (tick te gr hb e))"
  by (auto simp: same_log_def tick_def arm_election_def start_pre_vote_def reset_replication_state_def Let_def
      split: replication_role.splits option.splits)

lemma terms_ok_same: "same_log e e' \<Longrightarrow> terms_ok e \<Longrightarrow> terms_ok e'"
  by (simp add: same_log_def terms_ok_def)

lemma terms_ok_chunk:
  assumes "terms_ok e"
  shows "terms_ok (snd (handle_snapshot_chunk env e tid i n fin li t tb p))"
proof -
  have "terms_ok (e\<lparr>en_rx_buffers := bufs\<rparr>)" for bufs using assms by (simp add: terms_ok_def)
  then show ?thesis
    using assms terms_ok_restore
    by (auto simp: handle_snapshot_chunk_def Let_def split: sum.splits option.splits prod.splits) (metis snd_conv)+
qed

lemma terms_ok_inbound:
  assumes "terms_ok e"
  shows "terms_ok (snd (handle_inbound env te e m))"
proof (cases m)
  case (VoteResponse v t g)
  show ?thesis using terms_ok_same [OF same_log_vote assms] unfolding VoteResponse .
next
  case (ReplicateCommand t i c)
  then show ?thesis using terms_ok_entry [OF assms, of env "(t, i, c)"]
    by (simp add: receive_entry_def split_beta Let_def)
next
  case (SnapshotChunk tid i n fin li t tb p)
  then show ?thesis using terms_ok_chunk [OF assms, of env tid i n fin li t tb p]
    by (auto split: prod.splits sum.splits)
next
  case (SnapshotResponse sn i t)
  then show ?thesis using terms_ok_restore [OF assms] by simp
qed (use assms terms_ok_same [OF same_log_ops(1)] terms_ok_same [OF same_log_ops(2)] terms_ok_same [OF same_log_ops(3)]
      terms_ok_same [OF same_log_ops(4)] terms_ok_same [OF same_log_ops(5)] terms_ok_same [OF same_log_ops(8)] in \<open>auto simp: split_beta Let_def\<close>)

definition net_terms_ok :: "string list \<Rightarrow> net \<Rightarrow> bool" where
  "net_terms_ok ms s \<longleftrightarrow> (\<forall>i \<in> set ms. terms_ok (nt_node s i))"

lemma net_terms_ok_update: "net_terms_ok ms s \<Longrightarrow> terms_ok e \<Longrightarrow> net_terms_ok ms (update s i e out)"
  by (simp add: net_terms_ok_def update_def)

lemma terms_ok_outbound: "terms_ok e \<Longrightarrow> terms_ok (handle_outbound env e m)"
  using terms_ok_inbound [of e env False m] by (auto simp: handle_outbound_def split: replication_message.splits)

lemma net_terms_ok_step:
  assumes "net_step allowed ms s s'" and ok: "net_terms_ok ms s"
  shows "net_terms_ok ms s'"
proof -
  have node: "i \<in> set ms \<Longrightarrow> terms_ok (nt_node s i)" for i using ok by (simp add: net_terms_ok_def)
  from assms(1) show ?thesis
  proof (cases rule: net_step.cases)
    case (ticked i te gr hb a e)
    then show ?thesis using terms_ok_same [OF same_log_tick node, of i te gr hb] net_terms_ok_update [OF ok] by simp
  next
    case (inbound i j m env te reply e)
    then show ?thesis using terms_ok_inbound [OF node, of i env te m] net_terms_ok_update [OF ok] by simp
  qed (auto intro!: net_terms_ok_update [OF ok] terms_ok_submit terms_ok_outbound
      terms_ok_same [OF same_log_ops(6)] terms_ok_same [OF same_log_ops(7)] terms_ok_same [OF same_log_ops(9)] node)
qed

interpretation log_terms: inductive_invariant "net_init ms" "net_step allowed ms" "net_terms_ok ms"
  by unfold_locales
    (auto simp: net_init_def net_terms_ok_def terms_ok_def engine_new_def intro: net_terms_ok_step [unfolded net_terms_ok_def terms_ok_def, rule_format])

section \<open>Sequences of deliveries\<close>

lemma numbered_nth: "numbered L \<Longrightarrow> k < length L \<Longrightarrow> fst (snd (L ! k)) = of_nat (Suc k)"
  unfolding numbered_def by (metis (no_types, lifting) add_0 length_map nth_map nth_upt length_upt diff_zero)

lemma u64_of_nat_inj: "m < 2 ^ 64 \<Longrightarrow> n < 2 ^ 64 \<Longrightarrow> (of_nat m :: u64) = of_nat n \<Longrightarrow> m = n"
  by (drule arg_cong [where f = unat]) (simp add: unat_of_nat)

lemma holds_entry:
  assumes h: "holds_prefix env m L k e" and num: "numbered L" and d: "d \<in> set L"
  shows "holds_prefix env m L k (receive_entry env e d) \<or> holds_prefix env m L (Suc k) (receive_entry env e d)"
proof -
  obtain t i c where fields: "d = (t, i, c)" by (cases d)
  show ?thesis
  proof (cases rule: receive_entry_cases [where e = e and t = t and i = i and env = env and c = c])
    case append
    obtain n where n: "n < length L" "L ! n = d" using d by (auto simp: in_set_conv_nth)
    have "(of_nat n :: u64) = of_nat k"
      using numbered_nth [OF num n(1)] n(2) fields append(2) h by (simp add: holds_prefix_def)
    then have "n = k"
      using h num n(1) by (intro u64_of_nat_inj) (auto simp: holds_prefix_def numbered_def)
    then have "take (Suc k) L = take k L @ [d]" using n by (simp add: take_Suc_conv_app_nth)
    then have "holds_prefix env m L (Suc k) (receive_entry env e d)"
      using h n \<open>n = k\<close> fields append by (simp add: holds_prefix_def receive_entry_append)
    then show ?thesis ..
  next
    case reject
    then show ?thesis using h by (simp add: fields holds_prefix_def)
  qed
qed

lemma receive_entries_simps [simp]:
  "receive_entries env e [] = e"
  "receive_entries env e (d # ds) = receive_entries env (receive_entry env e d) ds"
  by (simp_all add: receive_entries_def)

text \<open>Deliveries in any order, with repetitions, keep a prefix of the log.\<close>

lemma holds_entries:
  assumes "numbered L" and "holds_prefix env m L k e" and "set ds \<subseteq> set L"
  shows "\<exists>k' \<ge> k. holds_prefix env m L k' (receive_entries env e ds)"
  using assms(2,3)
proof (induction ds arbitrary: k e)
  case (Cons d ds)
  then have "holds_prefix env m L k (receive_entry env e d) \<or> holds_prefix env m L (Suc k) (receive_entry env e d)"
    using holds_entry [OF _ assms(1)] by simp
  then obtain k1 where "k \<le> k1" "holds_prefix env m L k1 (receive_entry env e d)" by (metis le_refl le_SucI)
  moreover from this obtain k2 where "k1 \<le> k2" "holds_prefix env m L k2 (receive_entries env (receive_entry env e d) ds)"
    using Cons.IH [of k1] Cons.prems(2) by auto
  ultimately show ?case by (intro exI [of _ k2]) simp
qed auto

text \<open>Deliveries in the order of the log, with terms that do not decrease, extend it.\<close>

lemma holds_in_order:
  assumes "numbered L" and "holds_prefix env m L k e" and "k + n \<le> length L"
    and "sorted (map fst (take n (drop k L)))" and "\<And>d. d \<in> set (take n (drop k L)) \<Longrightarrow> en_term e \<le> fst d"
  shows "holds_prefix env m L (k + n) (receive_entries env e (take n (drop k L)))"
  using assms(2-)
proof (induction n arbitrary: k e)
  case (Suc n)
  obtain t i c where d: "L ! k = (t, i, c)" by (cases "L ! k")
  have split: "take (Suc n) (drop k L) = L ! k # take n (drop (Suc k) L)"
    using Suc.prems(2) by (simp add: Cons_nth_drop_Suc [symmetric])
  have "i = en_last_index e + 1" "k < 2 ^ 64 - 1" "en_last_index e = of_nat k"
    using numbered_nth [OF assms(1), of k] Suc.prems(1,2) assms(1) d by (auto simp: holds_prefix_def numbered_def)
  moreover from this have "en_last_index e \<noteq> - 1" using u64_of_nat_inj [of k "2 ^ 64 - 1"] by auto
  moreover have "en_term e \<le> t" using Suc.prems(4) [of "L ! k"] d split by simp
  ultimately have r: "receive_entry env e (L ! k) =
      e\<lparr>en_term := t, en_last_index := i, en_log := en_log e @ [(i, c)], en_log_terms := en_log_terms e @ [t],
        en_manager := apply_entry env (en_manager e) (t, i, c)\<rparr>"
    unfolding d by (intro receive_entry_append)
  have "holds_prefix env m L (Suc k) (receive_entry env e (L ! k))"
    using Suc.prems(1,2) d \<open>i = _\<close> unfolding r by (simp add: holds_prefix_def take_Suc_conv_app_nth)
  moreover have "en_term (receive_entry env e (L ! k)) \<le> fst d'" if "d' \<in> set (take n (drop (Suc k) L))" for d'
    using Suc.prems(3) that d unfolding split r by simp
  ultimately have "holds_prefix env m L (Suc k + n) (receive_entries env (receive_entry env e (L ! k)) (take n (drop (Suc k) L)))"
    using Suc.IH [of "Suc k"] Suc.prems(2,3) split by simp
  then show ?case unfolding split by simp
qed simp

section \<open>Replay\<close>

text \<open>A leader with a given log.\<close>

definition leads :: "log_entry list \<Rightarrow> engine \<Rightarrow> bool" where
  "leads L e \<longleftrightarrow> en_role e = Leader \<and> numbered L \<and> en_log e = map snd L \<and> en_log_terms e = map fst L \<and>
     en_last_index e = of_nat (length L)"

lemma map_filter_drop:
  assumes "length xs = length ys" and "\<And>n. n < length xs \<Longrightarrow> f (xs ! n) = (if n < k then None else Some (ys ! n))"
  shows "List.map_filter f xs = drop k ys"
  using assms
proof (induction xs ys arbitrary: k rule: list_induct2)
  case (Cons x xs y ys)
  have tail: "f (xs ! n) = (if n < k - 1 then None else Some (ys ! n))" if "n < length xs" for n
    using Cons.prems [of "Suc n"] that by (cases k) auto
  have "List.map_filter f xs = drop (k - 1) ys" by (rule Cons.IH) (rule tail)
  then show ?case using Cons.prems [of 0] by (cases k) (auto simp: List.map_filter_simps)
qed (simp add: List.map_filter_simps)

lemma u64_of_nat_less: "m < 2 ^ 64 \<Longrightarrow> n < 2 ^ 64 \<Longrightarrow> (of_nat m :: u64) < of_nat n \<longleftrightarrow> m < n"
  by (simp add: word_less_nat_alt unat_of_nat)

lemma replay_batch:
  assumes l: "leads L e" and next_ix: "hm_get (en_next_index e) f = Some (of_nat (Suc k))" and "k \<le> length L"
  shows "build_replay_batch e f = take MAX_REPLAY_BATCH (drop k L)"
proof -
  have num: "numbered L" "Suc (length L) < 2 ^ 64" using l by (auto simp: leads_def numbered_def)
  have last: "en_last_index e < of_nat (Suc k) \<longleftrightarrow> length L \<le> k"
    using l num(2) assms(3) u64_of_nat_less [of "length L" "Suc k"] by (simp add: leads_def less_Suc_eq_le del: of_nat_Suc)
  let ?f = "\<lambda>(idx, cmd). if idx < of_nat (Suc k) then None
      else if unat (idx - 1) < length (en_log_terms e) then Some (en_log_terms e ! unat (idx - 1), idx, cmd) else None"
  have "List.map_filter ?f (en_log e) = drop k L"
  proof (rule map_filter_drop)
    show "length (en_log e) = length L" using l by (simp add: leads_def)
    fix n
    assume n: "n < length (en_log e)"
    then have "n < length L" using l by (simp add: leads_def)
    moreover from this have ix: "fst (snd (L ! n)) = of_nat (Suc n)" by (rule numbered_nth [OF num(1)])
    moreover have "(of_nat (Suc n) :: u64) < of_nat (Suc k) \<longleftrightarrow> n < k"
      using u64_of_nat_less [of "Suc n" "Suc k"] \<open>n < length L\<close> num(2) assms(3) by (simp del: of_nat_Suc)
    moreover have "unat (of_nat (Suc n) - 1 :: u64) = n"
      using \<open>n < length L\<close> num(2) by (simp add: unat_of_nat)
    ultimately show "?f (en_log e ! n) = (if n < k then None else Some (L ! n))"
      using l by (cases "L ! n") (simp add: leads_def del: of_nat_Suc)
  qed
  then show ?thesis using last next_ix by (simp add: build_replay_batch_def del: of_nat_Suc)
qed

text \<open>An entry that a follower refuses as stale blocks all that follow it.\<close>

lemma blocked_entries:
  assumes "\<And>t i c. (t, i, c) \<in> set ds \<Longrightarrow> t < en_term e \<or> i \<noteq> en_last_index e + 1"
  shows "same_log e (receive_entries env e ds) \<and> en_term e \<le> en_term (receive_entries env e ds)"
  using assms
proof (induction ds arbitrary: e)
  case (Cons d ds)
  obtain t i c where d: "d = (t, i, c)" by (cases d)
  have r: "receive_entry env e d = e\<lparr>en_term := max t (en_term e)\<rparr>"
    unfolding d by (rule receive_entry_reject) (use Cons.prems d in auto)
  have "same_log (receive_entry env e d) (receive_entries env (receive_entry env e d) ds) \<and>
      en_term (receive_entry env e d) \<le> en_term (receive_entries env (receive_entry env e d) ds)"
    by (rule Cons.IH) (use Cons.prems r in \<open>auto simp: less_max_iff_disj\<close>)
  then show ?case unfolding r by (simp add: same_log_def r)
qed (simp add: same_log_def)

end
