(* ===== verification/Replication_Chunks.thy ===== *)
theory Replication_Chunks
  imports Replication_Log
begin

text \<open>
  Chunked snapshots: what a follower has gathered of a transfer, the watermark it acknowledges, and
  the reassembly of a snapshot whose chunks arrive in any order.
\<close>

section \<open>The watermark\<close>

lemma advance_none: "hm_get chunks nxt = None \<Longrightarrow> advance chunks nxt h = h"
  by (subst advance.simps) simp

lemma advance_some:
  assumes "hm_get chunks nxt \<noteq> None" and "hm_get chunks (- 1) = None"
  shows "\<exists>c. advance chunks nxt h = Some c \<and> nxt \<le> c \<and> (\<forall>k. nxt \<le> k \<and> k \<le> c \<longrightarrow> hm_get chunks k \<noteq> None) \<and>
    hm_get chunks (c + 1) = None"
  using assms
proof (induction chunks nxt h rule: advance.induct)
  case (1 chunks nxt h)
  have nxt: "nxt \<noteq> - 1" using 1(2,3) by auto
  then have rec: "advance chunks nxt h = advance chunks (nxt + 1) (Some nxt)" using 1(2) by (subst advance.simps) auto
  have split: "nxt \<le> k \<Longrightarrow> k = nxt \<or> nxt + 1 \<le> k" for k
    using inc_le [of nxt k] by (auto simp: order_le_less)
  show ?case
  proof (cases "hm_get chunks (nxt + 1) = None")
    case True
    then show ?thesis using 1(2) unfolding rec by (auto simp: advance_none dest: order_antisym)
  next
    case False
    then obtain c where c: "advance chunks (nxt + 1) (Some nxt) = Some c" "nxt + 1 \<le> c"
        "\<forall>k. nxt + 1 \<le> k \<and> k \<le> c \<longrightarrow> hm_get chunks k \<noteq> None" "hm_get chunks (c + 1) = None"
      using 1(1) [OF 1(2) nxt] 1(3) by blast
    have "nxt \<le> c" using c(2) word_less_suc [OF nxt] by simp
    then show ?thesis using c 1(2) split unfolding rec by blast
  qed
qed

definition watermark :: "chunk_buffer \<Rightarrow> bool" where
  "watermark b \<longleftrightarrow> (case cb_highest_contiguous b of
       None \<Rightarrow> hm_get (cb_chunks b) 0 = None
     | Some c \<Rightarrow> (\<forall>k \<le> c. hm_get (cb_chunks b) k \<noteq> None) \<and> hm_get (cb_chunks b) (c + 1) = None)"

lemma watermark_record:
  assumes "watermark b" and "hm_get (cb_chunks b) (- 1) = None" and "i \<noteq> - 1"
  shows "watermark (record_chunk b i p)"
proof -
  let ?cs = "hm_insert i p (cb_chunks b)"
  let ?n = "case cb_highest_contiguous b of None \<Rightarrow> 0 | Some c \<Rightarrow> c + 1"
  have max: "hm_get ?cs (- 1) = None" using assms(2,3) by simp
  have below: "hm_get ?cs k \<noteq> None" if "k < ?n" for k
  proof (cases "cb_highest_contiguous b")
    case (Some c)
    then have "hm_get (cb_chunks b) c \<noteq> None" using assms(1) by (simp add: watermark_def)
    then have "c \<noteq> - 1" using assms(2) by auto
    then have "k \<le> c" using that Some inc_le [of c k] by (auto simp: not_less [symmetric] simp del: not_less)
    then show ?thesis using assms(1) Some by (auto simp: watermark_def)
  qed (use that in simp)
  show ?thesis
  proof (cases "hm_get ?cs ?n = None")
    case True
    then show ?thesis
      using assms(1) below by (auto simp: watermark_def record_chunk_def advance_none Let_def split: option.splits)
  next
    case False
    from advance_some [OF this max, of "cb_highest_contiguous b"] obtain c
      where c: "advance ?cs ?n (cb_highest_contiguous b) = Some c" "\<forall>k. ?n \<le> k \<and> k \<le> c \<longrightarrow> hm_get ?cs k \<noteq> None"
        "hm_get ?cs (c + 1) = None" by blast
    have "hm_get ?cs k \<noteq> None" if "k \<le> c" for k
      using c(2) below [of k] that by (cases "k < ?n") auto
    then show ?thesis using c by (simp add: watermark_def record_chunk_def Let_def)
  qed
qed

section \<open>Splitting and joining\<close>

lemma concat_slices: "concat (map (\<lambda>k. take c (drop (k * c) xs)) [0..<n]) = take (n * c) xs"
proof (induction n)
  case (Suc n)
  then show ?case by (simp add: take_add [symmetric] add.commute)
qed simp

lemma chunk_count_covers:
  assumes "0 < c"
  shows "n \<le> chunk_count n c * c"
proof (cases "n = 0")
  case False
  have "n + c - 1 = (n + c - 1) div c * c + (n + c - 1) mod c" by simp
  moreover have "(n + c - 1) mod c < c" using assms by simp
  ultimately have "n \<le> (n + c - 1) div c * c" using assms by linarith
  also have "\<dots> \<le> chunk_count n c * c" by (simp add: chunk_count_def)
  finally show ?thesis .
qed simp

lemma chunk_count_le: "0 < c \<Longrightarrow> chunk_count n c \<le> max n 1"
proof (cases "n = 0")
  case False
  assume "0 < c"
  have "n + c - 1 \<le> n * c"
    using \<open>0 < c\<close> False by (cases n; cases c) auto
  then have "(n + c - 1) div c \<le> n" using \<open>0 < c\<close> by (metis div_le_mono nonzero_mult_div_cancel_right not_gr_zero)
  then show ?thesis by (simp add: chunk_count_def)
qed (simp add: chunk_count_def)

lemma collect_all:
  "(\<And>i. i \<in> set is \<Longrightarrow> hm_get chunks (of_nat i) = Some (f i)) \<Longrightarrow> collect_chunks chunks is = Some (concat (map f is))"
  by (induction "is") auto

section \<open>Gathering\<close>

text \<open>The buffer holds exactly the chunks of the indices in \<open>D\<close>.\<close>

definition gathered :: "(nat \<Rightarrow> byte list) \<Rightarrow> nat set \<Rightarrow> (u32, byte list) hash_map \<Rightarrow> bool" where
  "gathered f D chunks \<longleftrightarrow> hm_wf chunks \<and> set (hm_keys chunks) = of_nat ` D \<and> (\<forall>k \<in> D. hm_get chunks (of_nat k) = Some (f k))"

lemma u32_of_nat_inj: "m < 2 ^ 32 \<Longrightarrow> n < 2 ^ 32 \<Longrightarrow> (of_nat m :: u32) = of_nat n \<Longrightarrow> m = n"
  by (drule arg_cong [where f = unat]) (simp add: unat_of_nat)

lemma inj_of_nat_u32: "D \<subseteq> {..<2 ^ 32} \<Longrightarrow> inj_on (of_nat :: nat \<Rightarrow> u32) D"
  by (rule inj_onI) (metis lessThan_iff subsetD u32_of_nat_inj)

lemma gathered_insert:
  assumes "gathered f D chunks" and "D \<subseteq> {..<2 ^ 32}" and "k < 2 ^ 32"
  shows "gathered f (insert k D) (hm_insert (of_nat k) (f k) chunks)"
proof -
  have "(of_nat k :: u32) \<noteq> of_nat j" if "j \<in> D" "j \<noteq> k" for j using u32_of_nat_inj [of k j] that assms(2,3) by auto
  then have "f k = f j" if "j \<in> D" "(of_nat j :: u32) = of_nat k" for j using that by metis
  then show ?thesis using assms(1) by (auto simp: gathered_def hm_keys_insert)
qed

lemma gathered_length:
  assumes "gathered f D chunks" and "D \<subseteq> {..<2 ^ 32}"
  shows "length chunks = card D"
proof -
  have "length chunks = length (hm_keys chunks)" by (simp add: hm_keys_def)
  also have "\<dots> = card ((of_nat :: nat \<Rightarrow> u32) ` D)"
    using assms(1) by (simp add: gathered_def hm_wf_def distinct_card [symmetric])
  also have "\<dots> = card D" by (rule card_image [OF inj_of_nat_u32 [OF assms(2)]])
  finally show ?thesis .
qed

section \<open>A transfer\<close>

text \<open>The chunks of a transfer of the bytes \<open>tr_payload\<close>, in pieces of \<open>tr_size\<close> bytes.\<close>

record transfer_data =
  tr_id :: u64
  tr_last_index :: u64
  tr_term :: u64
  tr_size :: nat
  tr_payload :: "byte list"

definition tr_chunks :: "transfer_data \<Rightarrow> nat" where
  "tr_chunks x = chunk_count (length (tr_payload x)) (tr_size x)"

definition tr_slice :: "transfer_data \<Rightarrow> nat \<Rightarrow> byte list" where
  "tr_slice x k = take (tr_size x) (drop (k * tr_size x) (tr_payload x))"

definition tr_message :: "transfer_data \<Rightarrow> nat \<Rightarrow> replication_message" where
  "tr_message x k = SnapshotChunk (tr_id x) (of_nat k) (of_nat (tr_chunks x)) (Suc k = tr_chunks x) (tr_last_index x) (tr_term x)
     (of_nat (length (tr_payload x))) (tr_slice x k)"

definition tr_ok :: "transfer_data \<Rightarrow> bool" where
  "tr_ok x \<longleftrightarrow> 0 < tr_size x \<and> length (tr_payload x) \<le> 134217728"

lemma tr_chunks_bounds: "tr_ok x \<Longrightarrow> 0 < tr_chunks x \<and> tr_chunks x < 2 ^ 32"
proof -
  assume x: "tr_ok x"
  have "tr_chunks x \<le> max (length (tr_payload x)) 1"
    using x chunk_count_le [of "tr_size x" "length (tr_payload x)"] by (simp add: tr_ok_def tr_chunks_def)
  also have "\<dots> \<le> 134217728" using x by (simp add: tr_ok_def)
  finally have "tr_chunks x < 2 ^ 32" by simp
  moreover have "0 < tr_chunks x" by (simp add: tr_chunks_def chunk_count_def less_max_iff_disj)
  ultimately show ?thesis by simp
qed

lemma tr_join: "tr_ok x \<Longrightarrow> concat (map (tr_slice x) [0..<tr_chunks x]) = tr_payload x"
  using chunk_count_covers [of "tr_size x" "length (tr_payload x)"]
    concat_slices [of "tr_size x" "tr_payload x" "tr_chunks x"]
  by (simp add: tr_ok_def tr_chunks_def tr_slice_def [abs_def])

text \<open>The buffers of a follower that has gathered the chunks in \<open>D\<close>.\<close>

definition partial_transfer :: "transfer_data \<Rightarrow> nat set \<Rightarrow> (u64, chunk_buffer) hash_map \<Rightarrow> bool" where
  "partial_transfer x D bufs \<longleftrightarrow>
     (if D = {} then hm_get bufs (tr_id x) = None
      else \<exists>b. hm_get bufs (tr_id x) = Some b \<and> gathered (tr_slice x) D (cb_chunks b) \<and> cb_expected b = of_nat (tr_chunks x) \<and>
        cb_last_index b = tr_last_index x \<and> cb_term b = tr_term x \<and> cb_total_bytes b = of_nat (length (tr_payload x)))"

lemma u32_of_nat_nonzero: "0 < n \<Longrightarrow> n < 2 ^ 32 \<Longrightarrow> (of_nat n :: u32) \<noteq> 0"
  using u32_of_nat_inj [of n 0] by auto

text \<open>The buffer a chunk is recorded in.\<close>

lemma recorded:
  assumes x: "tr_ok x" and D: "D \<subset> {..<tr_chunks x}" and part: "partial_transfer x D bufs" and k: "k < tr_chunks x"
  obtains b where "gathered (tr_slice x) (insert k D) (cb_chunks b)" "cb_expected b = of_nat (tr_chunks x)"
    "cb_last_index b = tr_last_index x" "cb_term b = tr_term x" "cb_total_bytes b = of_nat (length (tr_payload x))"
    "\<And>fin. buffer_chunk bufs (tr_id x) (of_nat k) (of_nat (tr_chunks x)) fin (tr_last_index x) (tr_term x)
       (of_nat (length (tr_payload x))) (tr_slice x k) =
     (if is_complete b then
        (case assemble b of Inl err \<Rightarrow> Inl err | Inr bytes \<Rightarrow> Ok (Some (bytes, tr_last_index x, tr_term x)),
         hm_remove (tr_id x) (filter (\<lambda>(tid, _). tid = tr_id x) bufs))
      else (Ok None, hm_insert (tr_id x) b (filter (\<lambda>(tid, _). tid = tr_id x) bufs)))"
proof -
  have n: "0 < tr_chunks x" "tr_chunks x < 2 ^ 32" using tr_chunks_bounds [OF x] by auto
  then have nz: "(of_nat (tr_chunks x) :: u32) \<noteq> 0" by (rule u32_of_nat_nonzero)
  have sub: "D \<subseteq> {..<2 ^ 32}" "k < 2 ^ 32" using D n k by auto
  define b0 where "b0 = (case hm_get bufs (tr_id x) of None \<Rightarrow> buffer_default | Some b \<Rightarrow> b)"
  define b where "b = (if cb_expected b0 = 0 then b0\<lparr>cb_expected := of_nat (tr_chunks x), cb_last_index := tr_last_index x,
      cb_term := tr_term x, cb_total_bytes := of_nat (length (tr_payload x))\<rparr> else b0)"
  have old: "gathered (tr_slice x) D (cb_chunks b0)" "cb_expected b0 = of_nat (tr_chunks x)" "cb_last_index b0 = tr_last_index x"
    "cb_term b0 = tr_term x" "cb_total_bytes b0 = of_nat (length (tr_payload x))" if "D \<noteq> {}"
    using part that by (auto simp: partial_transfer_def b0_def)
  have new: "b0 = buffer_default" if "D = {}"
    using part that by (simp add: partial_transfer_def b0_def)
  have g: "gathered (tr_slice x) D (cb_chunks b)"
    using old(1) new by (cases "D = {}") (auto simp: b_def gathered_def buffer_default_def hm_wf_def hm_keys_def)
  have meta: "cb_expected b = of_nat (tr_chunks x)" "cb_last_index b = tr_last_index x" "cb_term b = tr_term x"
    "cb_total_bytes b = of_nat (length (tr_payload x))" "cb_expected b0 \<in> {0, of_nat (tr_chunks x)}"
    using old(2-) new nz by (cases "D = {}"; simp add: b_def buffer_default_def)+
  show thesis
  proof (rule that [of "record_chunk b (of_nat k) (tr_slice x k)"])
    show "gathered (tr_slice x) (insert k D) (cb_chunks (record_chunk b (of_nat k) (tr_slice x k)))"
      using gathered_insert [OF g sub] by (simp add: record_chunk_def Let_def)
    have rec: "cb_last_index (record_chunk b (of_nat k) (tr_slice x k)) = tr_last_index x"
      "cb_term (record_chunk b (of_nat k) (tr_slice x k)) = tr_term x"
      using meta by (simp_all add: record_chunk_def Let_def)
    show "buffer_chunk bufs (tr_id x) (of_nat k) (of_nat (tr_chunks x)) fin (tr_last_index x) (tr_term x)
       (of_nat (length (tr_payload x))) (tr_slice x k) =
     (if is_complete (record_chunk b (of_nat k) (tr_slice x k)) then
        (case assemble (record_chunk b (of_nat k) (tr_slice x k)) of Inl err \<Rightarrow> Inl err
           | Inr bytes \<Rightarrow> Ok (Some (bytes, tr_last_index x, tr_term x)),
         hm_remove (tr_id x) (filter (\<lambda>(tid, _). tid = tr_id x) bufs))
      else (Ok None, hm_insert (tr_id x) (record_chunk b (of_nat k) (tr_slice x k)) (filter (\<lambda>(tid, _). tid = tr_id x) bufs)))" for fin
      unfolding buffer_chunk_def Let_def hm_get_filter_key b0_def [symmetric] b_def [symmetric]
      using meta(5) rec by (auto split: sum.splits)
  qed (use meta in \<open>simp_all add: record_chunk_def Let_def\<close>)
qed

lemma buffer_step:
  assumes x: "tr_ok x" and D: "D \<subset> {..<tr_chunks x}" and part: "partial_transfer x D bufs" and k: "k < tr_chunks x" "k \<notin> D"
    and r: "buffer_chunk bufs (tr_id x) (of_nat k) (of_nat (tr_chunks x)) fin (tr_last_index x) (tr_term x)
       (of_nat (length (tr_payload x))) (tr_slice x k) = (r, bufs')"
  shows "insert k D \<subset> {..<tr_chunks x} \<Longrightarrow> r = Ok None \<and> partial_transfer x (insert k D) bufs'"
    and "insert k D = {..<tr_chunks x} \<Longrightarrow> r = Ok (Some (tr_payload x, tr_last_index x, tr_term x)) \<and> bufs' = []"
proof -
  have n: "0 < tr_chunks x" "tr_chunks x < 2 ^ 32" using tr_chunks_bounds [OF x] by auto
  obtain b where b: "gathered (tr_slice x) (insert k D) (cb_chunks b)" "cb_expected b = of_nat (tr_chunks x)"
    "cb_last_index b = tr_last_index x" "cb_term b = tr_term x" "cb_total_bytes b = of_nat (length (tr_payload x))"
    "(r, bufs') = (if is_complete b then
        (case assemble b of Inl err \<Rightarrow> Inl err | Inr bytes \<Rightarrow> Ok (Some (bytes, tr_last_index x, tr_term x)),
         hm_remove (tr_id x) (filter (\<lambda>(tid, _). tid = tr_id x) bufs))
      else (Ok None, hm_insert (tr_id x) b (filter (\<lambda>(tid, _). tid = tr_id x) bufs)))"
    using recorded [OF x D part k(1)] r by (metis (no_types, lifting))
  have sub: "insert k D \<subseteq> {..<tr_chunks x}" using D k(1) by auto
  then have "insert k D \<subseteq> {..<2 ^ 32}" using n(2) by (auto dest: subsetD)
  from gathered_length [OF b(1) this] have "is_complete b \<longleftrightarrow> card (insert k D) = tr_chunks x"
    using b(2) n u32_of_nat_nonzero [OF n] by (simp add: is_complete_def unat_of_nat word_neq_0_conv)
  also have "\<dots> \<longleftrightarrow> insert k D = {..<tr_chunks x}"
    using sub card_subset_eq [of "{..<tr_chunks x}" "insert k D"] by auto
  finally have complete: "is_complete b \<longleftrightarrow> insert k D = {..<tr_chunks x}" .
  { assume "insert k D \<subset> {..<tr_chunks x}"
    then have "\<not> is_complete b" using complete by blast
    then show "r = Ok None \<and> partial_transfer x (insert k D) bufs'"
      using b by (simp add: partial_transfer_def) }
  { assume all: "insert k D = {..<tr_chunks x}"
    have "collect_chunks (cb_chunks b) [0..<tr_chunks x] = Some (concat (map (tr_slice x) [0..<tr_chunks x]))"
      by (rule collect_all) (use b(1) all in \<open>auto simp: gathered_def\<close>)
    then have "assemble b = Ok (tr_payload x)"
      using complete all b(2,5) n tr_join [OF x] by (simp add: assemble_def unat_of_nat)
    moreover have "hm_remove (tr_id x) (filter (\<lambda>(tid, _). tid = tr_id x) bufs) = []"
      by (auto simp: hm_remove_def filter_empty_conv)
    ultimately show "r = Ok (Some (tr_payload x, tr_last_index x, tr_term x)) \<and> bufs' = []"
      using complete all b(6) by simp }
qed

section \<open>Reassembly\<close>

definition receive_all :: "apply_env \<Rightarrow> engine \<Rightarrow> replication_message list \<Rightarrow> engine" where
  "receive_all env e ms = foldl (\<lambda>e m. snd (handle_inbound env True e m)) e ms"

lemma receive_all_simps [simp]:
  "receive_all env e [] = e"
  "receive_all env e (m # ms) = receive_all env (snd (handle_inbound env True e m)) ms"
  by (simp_all add: receive_all_def)

text \<open>What a message of the transfer does to a follower.\<close>

lemma chunk_step:
  assumes x: "tr_ok x" and k: "k < tr_chunks x"
    and r: "buffer_chunk (en_rx_buffers e) (tr_id x) (of_nat k) (of_nat (tr_chunks x)) (Suc k = tr_chunks x) (tr_last_index x) (tr_term x)
       (of_nat (length (tr_payload x))) (tr_slice x k) = (r, bufs)"
  shows "r = Ok None \<Longrightarrow> snd (handle_inbound env te e (tr_message x k)) = e\<lparr>en_rx_buffers := bufs\<rparr>"
    and "r = Ok (Some (bytes, li, t)) \<Longrightarrow> ae_decode env bytes = Some sn \<Longrightarrow>
      snd (handle_inbound env te e (tr_message x k)) = snd (restore_snapshot (e\<lparr>en_rx_buffers := bufs\<rparr>) sn li t)"
proof -
  have n: "tr_chunks x < 2 ^ 32" "(of_nat (tr_chunks x) :: u32) \<noteq> 0"
    using tr_chunks_bounds [OF x] u32_of_nat_nonzero by auto
  have "\<not> (of_nat (tr_chunks x) :: u32) \<le> of_nat k"
    using n(1) k by (simp add: word_le_nat_alt unat_of_nat)
  moreover have "\<not> MAX_SNAPSHOT_TOTAL_BYTES < of_nat (length (tr_payload x))"
    using x by (simp add: tr_ok_def MAX_SNAPSHOT_TOTAL_BYTES_def word_less_nat_alt unat_of_nat)
  ultimately show "r = Ok None \<Longrightarrow> snd (handle_inbound env te e (tr_message x k)) = e\<lparr>en_rx_buffers := bufs\<rparr>"
    and "r = Ok (Some (bytes, li, t)) \<Longrightarrow> ae_decode env bytes = Some sn \<Longrightarrow>
      snd (handle_inbound env te e (tr_message x k)) = snd (restore_snapshot (e\<lparr>en_rx_buffers := bufs\<rparr>) sn li t)"
    using n(2) r by (auto simp: tr_message_def handle_snapshot_chunk_def split: prod.splits sum.splits)
qed

lemma reassemble:
  assumes x: "tr_ok x" and dec: "ae_decode env (tr_payload x) = Some sn"
    and "partial_transfer x D (en_rx_buffers e)" and "distinct ks" and "D \<inter> set ks = {}" and "D \<union> set ks = {..<tr_chunks x}" and "ks \<noteq> []"
  shows "receive_all env e (map (tr_message x) ks) = snd (restore_snapshot (e\<lparr>en_rx_buffers := []\<rparr>) sn (tr_last_index x) (tr_term x))"
  using assms(3-)
proof (induction ks arbitrary: D e)
  case (Cons k ks)
  have k: "k < tr_chunks x" "k \<notin> D" "D \<subset> {..<tr_chunks x}" using Cons.prems by auto
  obtain r bufs where r: "buffer_chunk (en_rx_buffers e) (tr_id x) (of_nat k) (of_nat (tr_chunks x)) (Suc k = tr_chunks x)
       (tr_last_index x) (tr_term x) (of_nat (length (tr_payload x))) (tr_slice x k) = (r, bufs)" by fastforce
  note step = buffer_step [OF x k(3) Cons.prems(1) k(1,2) r]
  show ?case
  proof (cases "ks = []")
    case True
    then have "insert k D = {..<tr_chunks x}" using Cons.prems(4) by auto
    from step(2) [OF this] chunk_step(2) [OF x k(1) r _ dec] True show ?thesis by simp
  next
    case False
    then have "hd ks \<in> set ks" by simp
    then have "hd ks \<in> D \<union> set (k # ks)" "hd ks \<notin> insert k D" using Cons.prems(2,3) by auto
    then have "insert k D \<subset> {..<tr_chunks x}" using Cons.prems(4) by (metis insertCI psubsetI subsetI Un_iff list.set_intros(1) insertE)
    from step(1) [OF this] have s: "r = Ok None" "partial_transfer x (insert k D) bufs" by auto
    have "receive_all env (e\<lparr>en_rx_buffers := bufs\<rparr>) (map (tr_message x) ks) =
        snd (restore_snapshot (e\<lparr>en_rx_buffers := bufs\<rparr>\<lparr>en_rx_buffers := []\<rparr>) sn (tr_last_index x) (tr_term x))"
      by (rule Cons.IH) (use s(2) Cons.prems False in auto)
    then show ?thesis using chunk_step(1) [OF x k(1) r s(1)] by simp
  qed
qed simp

text \<open>The leader's messages are those of a transfer.\<close>

lemma build_chunks:
  assumes "build_snapshot_chunks encode l tid 0 csize = Ok ms" and "encode (snapshot (en_manager l)) = Some P" and "length P \<le> 134217728"
  defines "x \<equiv> \<lparr>tr_id = tid, tr_last_index = en_last_index l, tr_term = en_term l, tr_size = max csize 1, tr_payload = P\<rparr>"
  shows "tr_ok x \<and> ms = map (tr_message x) [0..<tr_chunks x]"
proof -
  have x: "tr_ok x" using assms(3) by (simp add: x_def tr_ok_def)
  define c where "c = max csize 1"
  define n where "n = chunk_count (length P) c"
  have n: "tr_chunks x = n" by (simp add: n_def c_def x_def tr_chunks_def)
  have u: "unat (of_nat n :: u32) = n" using tr_chunks_bounds [OF x] n by (simp add: unat_of_nat)
  have "ms = map (\<lambda>idx. SnapshotChunk tid (of_nat idx) (of_nat n) (Suc idx = n) (en_last_index l) (en_term l)
      (of_nat (length P)) (take c (drop (idx * c) P))) [0..<n]"
    using assms(1) [unfolded build_snapshot_chunks_def assms(2) Let_def option.case c_def [symmetric] n_def [symmetric] u]
    by (simp split: if_splits)
  moreover have "\<dots> = map (tr_message x) [0..<n]"
    by (rule map_cong) (auto simp: tr_message_def tr_slice_def n, auto simp: x_def c_def)
  ultimately show ?thesis using x n by simp
qed

end
