(* ===== verification/Replication_Calls.thy ===== *)
theory Replication_Calls
  imports Replication_Net
begin

text \<open>
  The vote requests of a cluster, lock by lock. In \<open>Replication_Net\<close> a delivered message is handled in one step; here a node may
  also serve vote requests as calls in flight, whose steps are those of \<open>vote_call_step\<close> and may be interleaved with everything
  else. A gate says which calls may be in flight at a node when it does something else: with the empty list a node finishes what it
  has begun first, with no restriction everything may interleave.
\<close>

section \<open>The calls of one node\<close>

text \<open>A schedule names the call that takes the next step.\<close>

fun calls_run :: "nat list \<Rightarrow> vote_call list \<times> engine \<Rightarrow> vote_call list \<times> engine" where
  "calls_run [] s = s"
| "calls_run (k # ks) (cs, e) = calls_run ks (let (c, e') = vote_call_step (cs ! k) e in (cs[k := c], e'))"

lemma call_alone:
  "calls_run [0, 0, 0] ([VoteReceived c t], e) = (let (r, e') = receive_vote_request e c t in ([VoteAnswered r], e'))"
  by (cases "en_voted_for e") (simp_all add: receive_vote_request_def Let_def)

text \<open>Deciding in the term of the node is the whole handler.\<close>

lemma decide_is_request:
  "en_term e = t \<Longrightarrow> vote_call_step (VoteDeciding c t) e = (case receive_vote_request e c t of (r, e') \<Rightarrow> (VoteAnswered r, e'))"
  by (simp add: receive_vote_request_def split: option.splits)

lemma refuse_is_request:
  "t < en_term e \<Longrightarrow> vote_call_step (VoteReceived c t) e = (case receive_vote_request e c t of (r, e') \<Rightarrow> (VoteAnswered r, e'))"
  by (simp add: receive_vote_request_def)

text \<open>Two calls of one new term, both of which have read the old term, are both granted: the second clears the vote the first
  has cast.\<close>

lemma interleaved_calls_both_granted:
  assumes "en_term e < t"
  shows "calls_run [0, 1, 0, 0, 1, 1] ([VoteReceived c t, VoteReceived d t], e) =
    (replicate 2 (VoteAnswered (VoteResponse (en_node_id e) t True)), e\<lparr>en_term := t, en_voted_for := Some d, en_role := Follower\<rparr>)"
  using assms by (simp add: numeral_2_eq_2)

section \<open>The cluster with calls in flight\<close>

record call_net =
  cn_net :: net
  cn_calls :: "string \<Rightarrow> (string \<times> vote_call) list"

definition call_init :: "string list \<Rightarrow> call_net \<Rightarrow> bool" where
  "call_init ms s \<longleftrightarrow> net_init ms (cn_net s) \<and> (\<forall>i. cn_calls s i = [])"

fun answered :: "vote_call \<Rightarrow> bool" where
  "answered (VoteAnswered r) = True"
| "answered _ = False"

fun answer :: "string \<Rightarrow> string \<times> vote_call \<Rightarrow> (string \<times> string \<times> replication_message) set" where
  "answer i (j, VoteAnswered r) = {(i, j, r)}"
| "answer i _ = {}"

inductive call_step ::
  "((string \<times> vote_call) list \<Rightarrow> bool) \<Rightarrow> (engine \<Rightarrow> replication_message \<Rightarrow> bool) \<Rightarrow> string list \<Rightarrow> call_net \<Rightarrow> call_net \<Rightarrow> bool"
  for gate allowed ms where
  whole: "net_step allowed ms (cn_net s) n \<Longrightarrow>
     (\<And>i. i \<in> set ms \<Longrightarrow> nt_node n i \<noteq> nt_node (cn_net s) i \<Longrightarrow> gate (cn_calls s i)) \<Longrightarrow>
     call_step gate allowed ms s (s\<lparr>cn_net := n\<rparr>)"
| called: "i \<in> set ms \<Longrightarrow> (j, i, VoteRequest j t) \<in> nt_msgs (cn_net s) \<Longrightarrow> gate (cn_calls s i) \<Longrightarrow>
     call_step gate allowed ms s (s\<lparr>cn_calls := (cn_calls s)(i := cn_calls s i @ [(j, VoteReceived j t)])\<rparr>)"
| moved: "i \<in> set ms \<Longrightarrow> k < length (cn_calls s i) \<Longrightarrow> cn_calls s i ! k = (j, c) \<Longrightarrow> \<not> answered c \<Longrightarrow>
     vote_call_step c (nt_node (cn_net s) i) = (c', e) \<Longrightarrow>
     call_step gate allowed ms s
       (s\<lparr>cn_net := update (cn_net s) i e (answer i (j, c')), cn_calls := (cn_calls s)(i := (cn_calls s i)[k := (j, c')])\<rparr>)"
| returned: "i \<in> set ms \<Longrightarrow> k < length (cn_calls s i) \<Longrightarrow> cn_calls s i ! k = (j, VoteAnswered r) \<Longrightarrow>
     call_step gate allowed ms s (s\<lparr>cn_calls := (cn_calls s)(i := take k (cn_calls s i) @ drop (Suc k) (cn_calls s i))\<rparr>)"

text \<open>A node finishes the call it serves before it does anything else; or it does not.\<close>

definition one_at_a_time :: "(string \<times> vote_call) list \<Rightarrow> bool" where
  "one_at_a_time cs \<longleftrightarrow> cs = []"

definition interleaved :: "(string \<times> vote_call) list \<Rightarrow> bool" where
  "interleaved cs \<longleftrightarrow> True"

section \<open>One call at a time\<close>

text \<open>What a call in flight has read is still so.\<close>

fun call_ok :: "engine \<Rightarrow> string \<times> vote_call \<Rightarrow> bool" where
  "call_ok e (j, VoteReceived c t) \<longleftrightarrow> j = c"
| "call_ok e (j, VoteRaising c t) \<longleftrightarrow> j = c \<and> en_term e < t"
| "call_ok e (j, VoteDeciding c t) \<longleftrightarrow> j = c \<and> en_term e = t"
| "call_ok e (j, VoteAnswered r) \<longleftrightarrow> True"

definition calls_ok :: "engine \<Rightarrow> (string \<times> vote_call) list \<Rightarrow> bool" where
  "calls_ok e cs \<longleftrightarrow> cs = [] \<or> (\<exists>c. cs = [c] \<and> call_ok e c)"

definition call_inv :: "string list \<Rightarrow> call_net \<Rightarrow> bool" where
  "call_inv ms s \<longleftrightarrow> net_inv ms (cn_net s) \<and> (\<forall>i \<in> set ms. calls_ok (nt_node (cn_net s) i) (cn_calls s i))"

text \<open>A step of a call keeps the invariant of the cluster: raising the term is neutral, the rest is the handler.\<close>

lemma net_inv_call:
  assumes inv: "net_inv ms s" and i: "i \<in> set ms" and ok: "call_ok (nt_node s i) (j, c)"
    and step: "vote_call_step c (nt_node s i) = (c', e)" and "\<not> answered c"
  shows "net_inv ms (update s i e (answer i (j, c')))"
proof -
  have same: "update s i (nt_node s i) {} = s" by (simp add: update_def)
  have request: "net_inv ms (update s i e (answer i (j, c')))"
    if "(c', e) = (case receive_vote_request (nt_node s i) j t of (r, e') \<Rightarrow> (VoteAnswered r, e'))" for t
    using net_inv_vote_request [OF inv i, of j t] that by (auto split: prod.splits)
  show ?thesis
  proof (cases c)
    case (VoteReceived d t)
    then show ?thesis
      using ok step inv same request [of t] refuse_is_request [of t "nt_node s i" j] by (cases "t < en_term (nt_node s i)") (auto split: if_splits)
  next
    case (VoteRaising d t)
    then have "neutral (nt_node s i) e" "answer i (j, c') = {}" using ok step by (auto simp: neutral_def)
    then show ?thesis using net_inv_quiet [OF inv i, of e "{}"] by simp
  next
    case (VoteDeciding d t)
    then show ?thesis using ok step request [of t] decide_is_request [of "nt_node s i" t j] by simp
  qed (use assms(5) in simp)
qed

lemma call_ok_step: "call_ok e (j, c) \<Longrightarrow> vote_call_step c e = (c', e') \<Longrightarrow> call_ok e' (j, c')"
  by (cases c) (auto split: if_splits option.splits)

text \<open>A step that leaves an engine with a call in flight alone keeps its calls.\<close>

lemma call_inv_whole:
  assumes inv: "call_inv ms s" and many: "1 < length ms" and step: "net_step calm ms (cn_net s) n"
    and gate: "\<And>i. i \<in> set ms \<Longrightarrow> nt_node n i \<noteq> nt_node (cn_net s) i \<Longrightarrow> one_at_a_time (cn_calls s i)"
  shows "call_inv ms (s\<lparr>cn_net := n\<rparr>)"
proof -
  have "net_inv ms n" using net_inv_step [OF step _ many] inv by (simp add: call_inv_def)
  moreover have "calls_ok (nt_node n i) (cn_calls s i)" if "i \<in> set ms" for i
    using gate [OF that] inv that by (cases "nt_node n i = nt_node (cn_net s) i") (auto simp: call_inv_def calls_ok_def one_at_a_time_def)
  ultimately show ?thesis by (simp add: call_inv_def)
qed

lemma call_inv_moved:
  assumes inv: "call_inv ms s" and i: "i \<in> set ms" and k: "k < length (cn_calls s i)" "cn_calls s i ! k = (j, c)" "\<not> answered c"
    and step: "vote_call_step c (nt_node (cn_net s) i) = (c', e)"
  shows "call_inv ms (s\<lparr>cn_net := update (cn_net s) i e (answer i (j, c')), cn_calls := (cn_calls s)(i := (cn_calls s i)[k := (j, c')])\<rparr>)"
proof -
  have one: "cn_calls s i = [(j, c)]" "k = 0" "call_ok (nt_node (cn_net s) i) (j, c)"
    using inv i k by (auto simp: call_inv_def calls_ok_def)
  have "net_inv ms (update (cn_net s) i e (answer i (j, c')))"
    using net_inv_call [OF _ i one(3) step k(3)] inv by (simp add: call_inv_def)
  moreover have "call_ok e (j, c')" using call_ok_step [OF one(3) step] .
  ultimately show ?thesis using inv one(1,2) by (auto simp: call_inv_def calls_ok_def update_def)
qed

lemma call_inv_step:
  assumes "call_step one_at_a_time calm ms s s'" and inv: "call_inv ms s" and many: "1 < length ms"
  shows "call_inv ms s'"
  using assms(1)
proof cases
  case (whole n)
  then show ?thesis using call_inv_whole [OF inv many] by simp
next
  case (called i j t)
  then show ?thesis using inv by (auto simp: call_inv_def calls_ok_def one_at_a_time_def)
next
  case (moved i k j c c' e)
  then show ?thesis using call_inv_moved [OF inv] by simp
next
  case (returned i k j r)
  then have "k = 0" "length (cn_calls s i) = 1" using inv by (auto simp: call_inv_def calls_ok_def)
  then show ?thesis using returned inv by (simp add: call_inv_def calls_ok_def)
qed

lemma call_inv_start: "call_init ms s \<Longrightarrow> call_inv ms s"
  by (simp add: call_init_def call_inv_def calls_ok_def net_inv_start)

interpretation serial_calls: inductive_invariant "call_init ms" "call_step one_at_a_time calm ms" "\<lambda>s. 1 < length ms \<longrightarrow> call_inv ms s"
  by unfold_locales (auto intro: call_inv_start call_inv_step)

text \<open>Without calls in flight nothing is lost: what is reached message by message is reached here.\<close>

lemma reachable_whole:
  assumes "reachable (net_init ms) (net_step allowed ms) n" and "gate []"
  shows "reachable (call_init ms) (call_step gate allowed ms) \<lparr>cn_net = n, cn_calls = \<lambda>_. []\<rparr>"
  using assms(1)
proof induction
  case (start n)
  then show ?case by (intro reachable.start) (simp add: call_init_def)
next
  case (next_step n n')
  let ?s = "\<lparr>cn_net = n, cn_calls = \<lambda>_. []\<rparr>"
  have "call_step gate allowed ms ?s (?s\<lparr>cn_net := n'\<rparr>)" by (rule whole) (use next_step assms(2) in auto)
  then show ?case using next_step by (auto intro: reachable.next_step)
qed

end
