(* ===== verification/Replication_Properties.thy ===== *)
theory Replication_Properties
  imports Replication_Chunks Replication_Calls
begin

text \<open>
  The properties of the replication engine: there is at most one leader per term as long as every node finishes
  what it does before it does something else and the deliveries are calm; and what happens with the deliveries and
  the interleavings the code also allows.
\<close>

section \<open>Concrete runs\<close>

text \<open>A schedule names the node that acts; a delivery names the message by its position among those
  sent so far.\<close>

datatype net_event =
    TickE string bool
  | DeliverE nat
  | SubmitE string cluster_command
  | ReplayE string
  | AskE string string

type_synonym net_run = "(string \<Rightarrow> engine) \<times> (string \<times> string \<times> replication_message) list"

definition run_env :: apply_env where
  "run_env = \<lparr>ae_bound = (\<lambda>_. None), ae_now = 0, ae_uuid = ''id'', ae_decode = (\<lambda>_. None)\<rparr>"

definition run_start :: "string list \<Rightarrow> net_run" where
  "run_start ms = (\<lambda>i. engine_new i (filter (\<lambda>j. j \<noteq> i) ms) (new_single_node \<lparr>ni_id = i, ni_host = ''h'', ni_port = 1, ni_role = AllInOne\<rparr>), [])"

fun run_event :: "(engine \<Rightarrow> replication_message \<Rightarrow> bool) \<Rightarrow> string list \<Rightarrow> net_event \<Rightarrow> net_run \<Rightarrow> net_run option" where
  "run_event allowed ms (TickE i te) (f, out) =
     (if i \<in> set ms \<and> en_term (f i) \<noteq> - 1 then
        let (a, e) = tick te False True (f i)
        in Some (f(i := e), out @ (case tick_message a of None \<Rightarrow> [] | Some m \<Rightarrow> map (\<lambda>j. (i, j, m)) (en_peers e)))
      else None)"
| "run_event allowed ms (DeliverE k) (f, out) =
     (if k < length out then
        let (j, i, m) = out ! k in
        if i \<in> set ms \<and> sender_ok j m \<and> allowed (f i) m then
          let (reply, e) = handle_inbound run_env True (f i) m
          in Some (f(i := e), out @ (case reply of None \<Rightarrow> [] | Some r \<Rightarrow> [(i, j, r)]))
        else None
      else None)"
| "run_event allowed ms (SubmitE i cmd) (f, out) =
     (if i \<in> set ms then Some (f(i := snd (submit_start run_env (f i) cmd)), out) else None)"
| "run_event allowed ms (ReplayE i) (f, out) =
     (if i \<in> set ms then Some (f, out @ map (\<lambda>(j, m). (i, j, m)) (build_replay_actions (f i))) else None)"
| "run_event allowed ms (AskE i j) (f, out) =
     (if i \<in> set ms then Some (f, out @ [(i, j, SnapshotRequest i)]) else None)"

fun run_events :: "(engine \<Rightarrow> replication_message \<Rightarrow> bool) \<Rightarrow> string list \<Rightarrow> net_event list \<Rightarrow> net_run \<Rightarrow> net_run option" where
  "run_events allowed ms [] s = Some s"
| "run_events allowed ms (e # es) s = (case run_event allowed ms e s of None \<Rightarrow> None | Some s' \<Rightarrow> run_events allowed ms es s')"

definition net_of :: "net_run \<Rightarrow> net" where
  "net_of s = \<lparr>nt_node = fst s, nt_msgs = set (snd s)\<rparr>"

text \<open>No restriction on the deliveries.\<close>

definition any :: "engine \<Rightarrow> replication_message \<Rightarrow> bool" where
  "any e m \<longleftrightarrow> True"

lemma net_of_update: "net_of (f(i := e), out @ out') = update (net_of (f, out)) i e (set out')"
  by (simp add: net_of_def update_def)

lemma run_event_step:
  assumes "run_event allowed ms ev s = Some s'"
  shows "net_step allowed ms (net_of s) (net_of s')"
proof -
  obtain f out where s: "s = (f, out)" by fastforce
  have node: "nt_node (net_of (f, out)) = f" by (simp add: net_of_def)
  show ?thesis
  proof (cases ev)
    case (TickE i te)
    then obtain a e where t: "tick te False True (f i) = (a, e)" "i \<in> set ms" "en_term (f i) \<noteq> - 1"
        "s' = (f(i := e), out @ (case tick_message a of None \<Rightarrow> [] | Some m \<Rightarrow> map (\<lambda>j. (i, j, m)) (en_peers e)))"
      using assms s by (auto simp: Let_def split: if_splits prod.splits)
    have "set (case tick_message a of None \<Rightarrow> [] | Some m \<Rightarrow> map (\<lambda>j. (i, j, m)) (en_peers e)) =
      {(i, j, m) | j m. j \<in> set (en_peers e) \<and> tick_message a = Some m}"
      by (auto split: option.splits)
    with net_step.ticked [of i ms "net_of s" te False True a e allowed] t s node show ?thesis
      by (simp add: net_of_update)
  next
    case (DeliverE k)
    then obtain j i m reply e where d: "out ! k = (j, i, m)" "k < length out" "i \<in> set ms" "sender_ok j m" "allowed (f i) m"
        "handle_inbound run_env True (f i) m = (reply, e)"
        "s' = (f(i := e), out @ (case reply of None \<Rightarrow> [] | Some r \<Rightarrow> [(i, j, r)]))"
      using assms s by (auto simp: Let_def split: if_splits prod.splits)
    have "(j, i, m) \<in> nt_msgs (net_of s)" using d(1,2) s nth_mem [of k out] by (simp add: net_of_def)
    moreover have "set (case reply of None \<Rightarrow> [] | Some r \<Rightarrow> [(i, j, r)]) = {(i, j, r) | r. reply = Some r}"
      by (auto split: option.splits)
    ultimately show ?thesis using net_step.inbound [of i ms j m "net_of s" allowed run_env True reply e] d s node
      by (simp add: net_of_update)
  next
    case (SubmitE i cmd)
    then have "i \<in> set ms" "s' = (f(i := snd (submit_start run_env (f i) cmd)), out @ [])"
      using assms s by (auto split: if_splits)
    with net_step.submitted [of i ms allowed "net_of s" run_env cmd] s node show ?thesis
      by (simp add: net_of_update del: append_Nil2)
  next
    case (ReplayE i)
    then have "i \<in> set ms" "s' = (f(i := f i), out @ map (\<lambda>(j, m). (i, j, m)) (build_replay_actions (f i)))"
      using assms s by (auto split: if_splits)
    moreover have "set (map (\<lambda>(j, m). (i, j, m)) (build_replay_actions (f i))) =
      {(i, j, m) | j m. (j, m) \<in> set (build_replay_actions (f i))}" by auto
    ultimately show ?thesis using net_step.replayed [of i ms allowed "net_of s"] s node
      by (simp add: net_of_update del: fun_upd_triv)
  next
    case (AskE i j)
    then have "i \<in> set ms" "s' = (f(i := f i), out @ [(i, j, SnapshotRequest i)])"
      using assms s by (auto split: if_splits)
    with net_step.asked [of i ms "SnapshotRequest i" "''''" allowed "net_of s" j] s node show ?thesis
      by (simp add: net_of_update del: fun_upd_triv)
  qed
qed

lemma run_events_steps: "run_events allowed ms es s = Some s' \<Longrightarrow> (net_step allowed ms)\<^sup>*\<^sup>* (net_of s) (net_of s')"
  by (induction es arbitrary: s) (auto split: option.splits dest: run_event_step intro: converse_rtranclp_into_rtranclp)

lemma reachable_steps: "step\<^sup>*\<^sup>* s t \<Longrightarrow> reachable init step s \<Longrightarrow> reachable init step t"
  by (induction rule: rtranclp_induct) (auto intro: reachable.next_step)

lemma run_reachable:
  assumes "distinct ms" and "run_events allowed ms es (run_start ms) = Some s"
  shows "reachable (net_init ms) (net_step allowed ms) (net_of s)"
proof (rule reachable_steps [OF run_events_steps [OF assms(2)]])
  show "reachable (net_init ms) (net_step allowed ms) (net_of (run_start ms))"
    by (rule reachable.start) (use assms(1) in \<open>auto simp: net_init_def net_of_def run_start_def\<close>)
qed

definition abc :: "string list" where
  "abc = [''a'', ''b'', ''c'']"

definition cmd1 :: cluster_command where
  "cmd1 = ReleaseTaskLock ''t''"

text \<open>Node \<open>a\<close> is elected in term 1 and all nodes learn it.\<close>

definition elect_a :: "net_event list" where
  "elect_a = [TickE ''a'' True, DeliverE 0, DeliverE 2, TickE ''a'' True, DeliverE 3, DeliverE 5, DeliverE 4]"

text \<open>In a run of the three nodes the final state has a property.\<close>

definition run_gives :: "(engine \<Rightarrow> replication_message \<Rightarrow> bool) \<Rightarrow> net_event list \<Rightarrow> ((string \<Rightarrow> engine) \<Rightarrow> bool) \<Rightarrow> bool" where
  "run_gives allowed es P \<longleftrightarrow> (case run_events allowed abc es (run_start abc) of None \<Rightarrow> False | Some (f, _) \<Rightarrow> P f)"

lemma run_gives_reachable:
  assumes "run_gives allowed es P"
  obtains s where "reachable (net_init abc) (net_step allowed abc) s" "P (nt_node s)"
proof -
  obtain s where s: "run_events allowed abc es (run_start abc) = Some s" "P (fst s)"
    using assms by (auto simp: run_gives_def split: option.splits)
  have "distinct abc" by (simp add: abc_def)
  from run_reachable [OF this s(1)] s(2) that [of "net_of s"] show ?thesis by (simp add: net_of_def)
qed

text \<open>A schedule with calls in flight: a step of the network, a vote request taken up (named by its position among the messages
  sent so far), a step of the \<open>k\<close>-th call of a node.\<close>

datatype call_action =
    NetE net_event
  | CallE nat
  | MoveE string nat

type_synonym call_run = "net_run \<times> (string \<Rightarrow> (string \<times> vote_call) list)"

fun call_event :: "(engine \<Rightarrow> replication_message \<Rightarrow> bool) \<Rightarrow> string list \<Rightarrow> call_action \<Rightarrow> call_run \<Rightarrow> call_run option" where
  "call_event allowed ms (NetE ev) (s, calls) = (case run_event allowed ms ev s of None \<Rightarrow> None | Some s' \<Rightarrow> Some (s', calls))"
| "call_event allowed ms (CallE k) ((f, out), calls) =
     (if k < length out then
        case out ! k of
          (j, i, VoteRequest c t) \<Rightarrow>
            if c = j \<and> i \<in> set ms then Some ((f, out), calls(i := calls i @ [(j, VoteReceived j t)])) else None
        | _ \<Rightarrow> None
      else None)"
| "call_event allowed ms (MoveE i k) ((f, out), calls) =
     (if i \<in> set ms \<and> k < length (calls i) \<and> \<not> answered (snd (calls i ! k)) then
        let (j, c) = calls i ! k;
            (c', e) = vote_call_step c (f i)
        in Some ((f(i := e), out @ (case c' of VoteAnswered r \<Rightarrow> [(i, j, r)] | _ \<Rightarrow> [])), calls(i := (calls i)[k := (j, c')]))
      else None)"

fun call_events :: "(engine \<Rightarrow> replication_message \<Rightarrow> bool) \<Rightarrow> string list \<Rightarrow> call_action list \<Rightarrow> call_run \<Rightarrow> call_run option" where
  "call_events allowed ms [] s = Some s"
| "call_events allowed ms (e # es) s = (case call_event allowed ms e s of None \<Rightarrow> None | Some s' \<Rightarrow> call_events allowed ms es s')"

definition call_net_of :: "call_run \<Rightarrow> call_net" where
  "call_net_of s = \<lparr>cn_net = net_of (fst s), cn_calls = snd s\<rparr>"

lemma call_event_step:
  assumes "call_event allowed ms ev s = Some s'"
  shows "call_step interleaved allowed ms (call_net_of s) (call_net_of s')"
proof -
  obtain f out calls where s: "s = ((f, out), calls)" by (cases s) auto
  show ?thesis
  proof (cases ev)
    case (NetE e)
    then obtain r where r: "run_event allowed ms e (f, out) = Some r" "s' = (r, calls)" using assms s by (auto split: option.splits)
    show ?thesis using whole [of allowed ms "call_net_of s" "net_of r" interleaved] run_event_step [OF r(1)] r(2) s
      by (simp add: call_net_of_def interleaved_def)
  next
    case (CallE k)
    then obtain j i t where c: "k < length out" "out ! k = (j, i, VoteRequest j t)" "i \<in> set ms"
        "s' = ((f, out), calls(i := calls i @ [(j, VoteReceived j t)]))"
      using assms s by (auto split: if_splits prod.splits replication_message.splits)
    then have "(j, i, VoteRequest j t) \<in> nt_msgs (net_of (f, out))" using nth_mem [of k out] by (simp add: net_of_def)
    then show ?thesis using called [of i ms j t "call_net_of s" interleaved allowed] c(3,4) s
      by (simp add: call_net_of_def interleaved_def)
  next
    case (MoveE i k)
    then obtain j c c' e where m: "i \<in> set ms" "k < length (calls i)" "calls i ! k = (j, c)" "\<not> answered c" "vote_call_step c (f i) = (c', e)"
        "s' = ((f(i := e), out @ (case c' of VoteAnswered r \<Rightarrow> [(i, j, r)] | _ \<Rightarrow> [])), calls(i := (calls i)[k := (j, c')]))"
      using assms s by (auto simp: Let_def split: if_splits prod.splits)
    have "set (case c' of VoteAnswered r \<Rightarrow> [(i, j, r)] | _ \<Rightarrow> []) = answer i (j, c')" by (cases c') simp_all
    then have "net_of (fst s') = update (net_of (f, out)) i e (answer i (j, c'))" using m(6) by (simp add: net_of_update)
    moreover have "nt_node (net_of (f, out)) = f" by (simp add: net_of_def)
    ultimately show ?thesis using moved [of i ms k "call_net_of s" j c c' e interleaved allowed] m s
      by (simp add: call_net_of_def)
  qed
qed

lemma call_events_steps: "call_events allowed ms es s = Some s' \<Longrightarrow> (call_step interleaved allowed ms)\<^sup>*\<^sup>* (call_net_of s) (call_net_of s')"
  by (induction es arbitrary: s) (auto split: option.splits dest: call_event_step intro: converse_rtranclp_into_rtranclp)

definition call_run_gives :: "(engine \<Rightarrow> replication_message \<Rightarrow> bool) \<Rightarrow> call_action list \<Rightarrow> ((string \<Rightarrow> engine) \<Rightarrow> bool) \<Rightarrow> bool" where
  "call_run_gives allowed es P \<longleftrightarrow>
     (case call_events allowed abc es (run_start abc, \<lambda>_. []) of None \<Rightarrow> False | Some ((f, _), _) \<Rightarrow> P f)"

lemma call_run_gives_reachable:
  assumes "call_run_gives allowed es P"
  obtains s where "reachable (call_init abc) (call_step interleaved allowed abc) s" "P (nt_node (cn_net s))"
proof -
  obtain s where s: "call_events allowed abc es (run_start abc, \<lambda>_. []) = Some s" "P (fst (fst s))"
    using assms by (auto simp: call_run_gives_def split: option.splits)
  have "reachable (call_init abc) (call_step interleaved allowed abc) (call_net_of (run_start abc, \<lambda>_. []))"
    by (rule reachable.start) (auto simp: call_init_def call_net_of_def net_init_def net_of_def run_start_def abc_def)
  from reachable_steps [OF call_events_steps [OF s(1)] this] s(2) that [of "call_net_of s"]
  show ?thesis by (simp add: call_net_of_def net_of_def)
qed

section \<open>Elections\<close>

lemma majorities_meet:
  assumes "distinct vs" "distinct ws" "set vs \<subseteq> set ms" "set ws \<subseteq> set ms"
    and "length ms div 2 < length vs" "length ms div 2 < length ws"
  shows "\<exists>v. v \<in> set vs \<and> v \<in> set ws"
proof (rule ccontr)
  assume "\<not> ?thesis"
  then have "set vs \<inter> set ws = {}" by blast
  then have "length vs + length ws = card (set vs \<union> set ws)"
    using assms(1,2) by (simp add: card_Un_disjoint distinct_card)
  also have "\<dots> \<le> card (set ms)" using assms(3,4) by (intro card_mono) auto
  also have "\<dots> \<le> length ms" by (rule card_length)
  finally show False using assms(5,6) by linarith
qed

lemma one_leader_per_term:
  assumes inv: "net_inv ms s" and "i \<in> set ms" and "j \<in> set ms"
    and "en_role (nt_node s i) = Leader" and "en_role (nt_node s j) = Leader"
    and "en_term (nt_node s i) = en_term (nt_node s j)"
  shows "i = j"
proof -
  have maj: "\<exists>vs. distinct vs \<and> length ms div 2 < length vs \<and> (\<forall>v \<in> set vs. voted (nt_msgs s) v (en_term (nt_node s i)) k)"
    if "k = i \<or> k = j" for k
    using assms that unfolding net_inv_def node_ok_def by metis
  have members: "v \<in> set ms" if "voted (nt_msgs s) v t c" for v t c
    using inv that unfolding net_inv_def by blast
  obtain vs ws where "distinct vs" "length ms div 2 < length vs" "\<forall>v \<in> set vs. voted (nt_msgs s) v (en_term (nt_node s i)) i"
      "distinct ws" "length ms div 2 < length ws" "\<forall>v \<in> set ws. voted (nt_msgs s) v (en_term (nt_node s i)) j"
    using maj [of i] maj [of j] by auto
  moreover from this have "set vs \<subseteq> set ms" "set ws \<subseteq> set ms" using members by blast+
  ultimately obtain v where "voted (nt_msgs s) v (en_term (nt_node s i)) i" "voted (nt_msgs s) v (en_term (nt_node s i)) j"
    using majorities_meet [of vs ws ms] by blast
  then show ?thesis using inv unfolding net_inv_def by blast
qed

text \<open>C2: Election safety under two conditions. The cluster's nodes agree on the members; messages are lost, delayed, repeated and
  reordered; vote requests are served lock by lock. If every node finishes the handler, tick or submit it is in before it begins
  another (the code releases its locks within a handler and does not enforce this: see \<open>interleaved_requests_two_leaders\<close>), and
  if no delivered command or snapshot changes the term of a leader and no snapshot takes a node back to an older term (see
  \<open>command_keeps_stale_leader\<close>, \<open>late_snapshot_votes_twice\<close>), then in every reached state, in the middle of a handler too, two
  leaders of the same term are the same node.\<close>

theorem election_safety:
  assumes "reachable (call_init ms) (call_step one_at_a_time calm ms) s" and "i \<in> set ms" and "j \<in> set ms"
    and "en_role (nt_node (cn_net s) i) = Leader" and "en_role (nt_node (cn_net s) j) = Leader"
    and "en_term (nt_node (cn_net s) i) = en_term (nt_node (cn_net s) j)"
  shows "i = j"
proof (cases "1 < length ms")
  case True
  with serial_calls.reachable_inv [OF assms(1)] have "net_inv ms (cn_net s)" by (simp add: call_inv_def)
  from one_leader_per_term [OF this assms(2-6)] show ?thesis .
next
  case False
  then show ?thesis using assms(2,3) by (cases ms) auto
qed

lemma elect_a_calm: "run_gives calm elect_a (\<lambda>f. en_role (f ''a'') = Leader \<and> en_term (f ''a'') = 1)"
  by code_simp

theorem election_safety_witness:
  "\<exists>s. reachable (call_init abc) (call_step one_at_a_time calm abc) s \<and> en_role (nt_node (cn_net s) ''a'') = Leader \<and>
     (\<forall>j \<in> set abc. en_role (nt_node (cn_net s) j) = Leader \<and> en_term (nt_node (cn_net s) j) = 1 \<longrightarrow> j = ''a'')"
proof -
  obtain n where n: "reachable (net_init abc) (net_step calm abc) n" "en_role (nt_node n ''a'') = Leader" "en_term (nt_node n ''a'') = 1"
    using run_gives_reachable [OF elect_a_calm] by blast
  obtain s where s: "reachable (call_init abc) (call_step one_at_a_time calm abc) s" "cn_net s = n"
    using reachable_whole [OF n(1), of one_at_a_time] by (auto simp: one_at_a_time_def)
  have "''a'' \<in> set abc" by (simp add: abc_def)
  with election_safety [OF s(1) _ this] s n show ?thesis by metis
qed

text \<open>When calls of one node interleave, two nodes are elected in one term although every delivery is calm: \<open>b\<close> serves the requests
  of \<open>a\<close> and \<open>c\<close> at the same time, and the second clears the vote the first has cast.\<close>

theorem interleaved_requests_two_leaders:
  "\<exists>s. reachable (call_init abc) (call_step interleaved calm abc) s \<and>
     en_role (nt_node (cn_net s) ''a'') = Leader \<and> en_role (nt_node (cn_net s) ''c'') = Leader \<and>
     en_term (nt_node (cn_net s) ''a'') = en_term (nt_node (cn_net s) ''c'')"
proof -
  let ?ask = "map NetE [TickE ''a'' True, DeliverE 0, TickE ''c'' True, DeliverE 4, DeliverE 2, DeliverE 5, TickE ''a'' True, TickE ''c'' True]"
  let ?vote = "[CallE 6, CallE 9] @ map (MoveE ''b'') [0, 1, 0, 0, 1, 1]"
  have "call_run_gives calm (?ask @ ?vote @ map NetE [DeliverE 10, DeliverE 11])
      (\<lambda>f. en_role (f ''a'') = Leader \<and> en_role (f ''c'') = Leader \<and> en_term (f ''a'') = en_term (f ''c''))"
    by code_simp
  then show ?thesis using call_run_gives_reachable by blast
qed

text \<open>C39: A leader that receives a command of a newer term takes over the term and stays in office (\<open>receive_command\<close> raises the
  term and does not step down, where a heartbeat of that term makes it a follower): whatever the states of the nodes, when a leader
  of a newer term has sent a command to a leader of an older one, its delivery makes two leaders of one term, whether the
  command fits the log or not.\<close>

theorem command_keeps_stale_leader:
  assumes "i \<in> set ms" and "i \<noteq> j" and "(j, i, ReplicateCommand t ix cmd) \<in> nt_msgs s"
    and "en_role (nt_node s i) = Leader" and "en_term (nt_node s i) < t"
    and "en_role (nt_node s j) = Leader" and "en_term (nt_node s j) = t"
    and "handle_inbound env te (nt_node s i) (ReplicateCommand t ix cmd) = (reply, e)"
    and "s' = update s i e {(i, j, r) | r. reply = Some r}"
  shows "net_step any ms s s' \<and>
    en_role (nt_node s' i) = Leader \<and> en_term (nt_node s' i) = t \<and> en_role (nt_node s' j) = Leader \<and> en_term (nt_node s' j) = t \<and>
    en_role (receive_heartbeat (nt_node s i) j t) = Follower"
proof -
  have "net_step any ms s s'" using inbound [OF assms(1,3) _ _ assms(8)] assms(9) by (simp add: sender_ok_def any_def)
  moreover have "en_role e = Leader \<and> en_term e = t"
    using assms(4,5,8) by (auto simp: process_replicate_command_def receive_command_def Let_def split: prod.splits if_splits)
  ultimately show ?thesis using assms(2,5-7,9) order_less_imp_le [OF assms(5)] by (simp add: update_def receive_heartbeat_def)
qed

text \<open>\<open>a\<close> leads term 1, \<open>b\<close> is elected in term 2 and replays an entry to \<open>a\<close>.\<close>

definition stale_a :: "net_event list" where
  "stale_a = elect_a @ [TickE ''b'' True, DeliverE 8, DeliverE 9, TickE ''b'' True, DeliverE 11, DeliverE 12, SubmitE ''b'' cmd1, ReplayE ''b'']"

theorem command_keeps_stale_leader_witness:
  "\<exists>s s'. reachable (net_init abc) (net_step any abc) s \<and> net_step any abc s s' \<and>
     en_role (nt_node s' ''a'') = Leader \<and> en_role (nt_node s' ''b'') = Leader \<and> en_term (nt_node s' ''a'') = 2 \<and> en_term (nt_node s' ''b'') = 2"
proof -
  have "case run_events any abc stale_a (run_start abc) of None \<Rightarrow> False | Some (f, out) \<Rightarrow>
      13 < length out \<and> out ! 13 = (''b'', ''a'', ReplicateCommand 2 1 cmd1) \<and>
      en_role (f ''a'') = Leader \<and> en_term (f ''a'') = 1 \<and> en_role (f ''b'') = Leader \<and> en_term (f ''b'') = 2"
    by code_simp
  then obtain f out where r: "run_events any abc stale_a (run_start abc) = Some (f, out)"
      "13 < length out \<and> out ! 13 = (''b'', ''a'', ReplicateCommand 2 1 cmd1)" "en_role (f ''a'') = Leader" "en_term (f ''a'') = 1" "en_role (f ''b'') = Leader" "en_term (f ''b'') = 2"
    by (auto split: option.splits)
  then have m: "(''b'', ''a'', ReplicateCommand 2 1 cmd1) \<in> set out" using nth_mem [of 13 out] by simp
  let ?s = "net_of (f, out)"
  obtain reply e where h: "handle_inbound run_env True (f ''a'') (ReplicateCommand 2 1 cmd1) = (reply, e)" by fastforce
  have node: "nt_node ?s = f" "nt_msgs ?s = set out" by (simp_all add: net_of_def)
  have "reachable (net_init abc) (net_step any abc) ?s" using run_reachable [OF _ r(1)] by (simp add: abc_def)
  then show ?thesis
    using command_keeps_stale_leader [of "''a''" abc "''b''" 2 1 cmd1 ?s run_env True reply e, OF _ _ _ _ _ _ _ _ refl] r m h node
    by (auto simp: abc_def)
qed

text \<open>A snapshot that arrives late takes a node back to the term of the snapshot; it can then vote
  again in a term in which it has voted, and two candidates win the same term.\<close>

theorem late_snapshot_votes_twice:
  "\<exists>s. reachable (net_init abc) (net_step any abc) s \<and>
     en_role (nt_node s ''b'') = Leader \<and> en_role (nt_node s ''c'') = Leader \<and>
     en_term (nt_node s ''b'') = en_term (nt_node s ''c'')"
proof -
  have "run_gives any (elect_a @ [AskE ''b'' ''a'', DeliverE 7, TickE ''c'' True, DeliverE 10, DeliverE 11, TickE ''c'' True,
      DeliverE 13, DeliverE 14, DeliverE 8, TickE ''b'' True, DeliverE 15, DeliverE 17, TickE ''b'' True, DeliverE 18, DeliverE 20])
      (\<lambda>f. en_role (f ''b'') = Leader \<and> en_role (f ''c'') = Leader \<and> en_term (f ''b'') = en_term (f ''c''))"
    by code_simp
  then show ?thesis using run_gives_reachable by blast
qed

text \<open>A submit that reported a majority can be unknown to the next leader: a vote request carries no
  log position, so a node without the entry wins the next term.\<close>

theorem acknowledged_command_lost:
  "\<exists>s t. reachable (net_init abc) (net_step any abc) s \<and>
     fst (submit_poll (nt_node s ''a'') 1 1 False) = Ok (Some \<lparr>ma_ack_count = 2, ma_total = 3, ma_index = 1, ma_term = 1\<rparr>) \<and>
     (net_step any abc)\<^sup>*\<^sup>* s t \<and> en_role (nt_node t ''c'') = Leader \<and> en_term (nt_node t ''c'') = 2 \<and> en_log (nt_node t ''c'') = []"
proof -
  let ?es = "elect_a @ [SubmitE ''a'' cmd1, ReplayE ''a'', DeliverE 7, DeliverE 9]"
  let ?fs = "[TickE ''c'' True, DeliverE 11, DeliverE 12, TickE ''c'' True, DeliverE 14, DeliverE 15]"
  have "case run_events any abc ?es (run_start abc) of None \<Rightarrow> False | Some s \<Rightarrow>
      fst (submit_poll (fst s ''a'') 1 1 False) = Ok (Some \<lparr>ma_ack_count = 2, ma_total = 3, ma_index = 1, ma_term = 1\<rparr>) \<and>
      (case run_events any abc ?fs s of None \<Rightarrow> False | Some t \<Rightarrow>
         en_role (fst t ''c'') = Leader \<and> en_term (fst t ''c'') = 2 \<and> en_log (fst t ''c'') = [])"
    by code_simp
  then obtain s t where r: "run_events any abc ?es (run_start abc) = Some s" "run_events any abc ?fs s = Some t"
      "fst (submit_poll (fst s ''a'') 1 1 False) = Ok (Some \<lparr>ma_ack_count = 2, ma_total = 3, ma_index = 1, ma_term = 1\<rparr>)"
      "en_role (fst t ''c'') = Leader" "en_term (fst t ''c'') = 2" "en_log (fst t ''c'') = []"
    by (auto split: option.splits)
  have "distinct abc" by (simp add: abc_def)
  from run_reachable [OF this r(1)] run_events_steps [OF r(2)] r(3-6) show ?thesis
    by (intro exI [of _ "net_of s"] exI [of _ "net_of t"]) (simp add: net_of_def)
qed

text \<open>A tick raises the term of a node with peers only by one, only when the node is no leader and a
  majority has granted the pre-vote round in flight, and it then asks for votes in the new term.\<close>

theorem term_needs_pre_votes:
  assumes "tick te gr hb e = (a, e')" and "en_peers e \<noteq> []" and "en_term e' \<noteq> en_term e"
  shows "en_term e' = en_term e + 1 \<and> en_role e \<noteq> Leader \<and> a = BroadcastVoteRequest (en_node_id e) (en_term e') \<and>
    (\<exists>r. en_in_flight e = Some r \<and> pre_vote_majority_reached e (pv_round_id r))"
  using assms(1,2)
proof (cases rule: tick_cases)
  case calm
  have "en_term e' = en_term e"
  proof (rule ccontr)
    assume "en_term e' \<noteq> en_term e"
    with assms(1,2) calm show False
      by (auto simp: tick_def arm_election_def start_pre_vote_def Let_def split: replication_role.splits if_splits option.splits)
  qed
  with assms(3) show ?thesis ..
next
  case armed
  then show ?thesis using assms(2) by (auto simp: arm_election_def Let_def)
qed

definition pre_voted :: engine where
  "pre_voted = (engine_new ''a'' [''b'', ''c''] (new_single_node \<lparr>ni_id = ''a'', ni_host = ''h'', ni_port = 1, ni_role = AllInOne\<rparr>))
     \<lparr>en_pre_votes := [(1, [''a'', ''b''])], en_in_flight := Some \<lparr>pv_proposed_term = 1, pv_round_id = 1\<rparr>, en_round_id := 1\<rparr>"

theorem term_needs_pre_votes_witness: "pre_vote_majority_reached pre_voted 1"
proof -
  obtain a e' where t: "tick False False False pre_voted = (a, e')" by fastforce
  have "en_term (snd (tick False False False pre_voted)) \<noteq> en_term pre_voted" "en_peers pre_voted \<noteq> []"
    "en_in_flight pre_voted = Some \<lparr>pv_proposed_term = 1, pv_round_id = 1\<rparr>"
    by code_simp+
  with term_needs_pre_votes [OF t] t show ?thesis by auto
qed

section \<open>The log\<close>

text \<open>In every reachable state, whatever is delivered, a node has recorded one term per index of its
  log (as 64-bit words), snapshots included.\<close>

theorem log_terms_counted:
  assumes "reachable (net_init ms) (net_step any ms) s" and "i \<in> set ms"
  shows "of_nat (length (en_log_terms (nt_node s i))) = en_last_index (nt_node s i)"
  using log_terms.reachable_inv [OF assms(1)] assms(2) by (simp add: net_terms_ok_def terms_ok_def)

theorem log_terms_counted_witness:
  "\<exists>s. reachable (net_init abc) (net_step any abc) s \<and> en_last_index (nt_node s ''a'') = 1 \<and>
     of_nat (length (en_log_terms (nt_node s ''a''))) = (1 :: u64)"
proof -
  have "run_gives any (elect_a @ [SubmitE ''a'' cmd1]) (\<lambda>f. en_last_index (f ''a'') = 1)" by code_simp
  then obtain s where "reachable (net_init abc) (net_step any abc) s" "en_last_index (nt_node s ''a'') = 1"
    using run_gives_reachable by blast
  with log_terms_counted [OF this(1), of "''a''"] show ?thesis by (auto simp: abc_def)
qed

text \<open>C29: A follower that holds a prefix of a log still holds a prefix, no shorter than before, after
  commands of that log are delivered to it in any order, repeated or with gaps, and its manager has
  applied each command of the prefix exactly once and in order.\<close>

theorem deliveries_keep_prefix:
  assumes "numbered L" and "holds_prefix env m L k e" and "set ds \<subseteq> set L"
  shows "\<exists>k' \<ge> k. holds_prefix env m L k' (receive_entries env e ds)"
  using assms by (rule holds_entries)

definition log3 :: "log_entry list" where
  "log3 = [(1, 1, cmd1), (1, 2, ReleaseTaskLock ''u''), (1, 3, cmd1)]"

definition fresh_c :: engine where
  "fresh_c = engine_new ''c'' [''a'', ''b''] (new_single_node \<lparr>ni_id = ''c'', ni_host = ''h'', ni_port = 1, ni_role = AllInOne\<rparr>)"

lemma log3_numbered: "numbered log3"
  by (simp add: numbered_def log3_def upt_rec)

lemma fresh_c_holds: "holds_prefix run_env (en_manager fresh_c) log3 0 fresh_c"
  by (simp add: holds_prefix_def fresh_c_def engine_new_def)

theorem deliveries_keep_prefix_witness:
  "\<exists>k'. holds_prefix run_env (en_manager fresh_c) log3 k' (receive_entries run_env fresh_c [log3 ! 1, log3 ! 0, log3 ! 0, log3 ! 1]) \<and> k' = 2"
proof -
  let ?e = "receive_entries run_env fresh_c [log3 ! 1, log3 ! 0, log3 ! 0, log3 ! 1]"
  obtain k' where k': "holds_prefix run_env (en_manager fresh_c) log3 k' ?e"
    using deliveries_keep_prefix [OF log3_numbered fresh_c_holds, of "[log3 ! 1, log3 ! 0, log3 ! 0, log3 ! 1]"]
    by (auto simp: log3_def)
  have "length (en_log ?e) = 2" by code_simp
  with k' show ?thesis by (auto simp: holds_prefix_def)
qed

text \<open>One round of replay: a follower that holds the first \<open>k\<close> entries of the leader's log and whose
  next index the leader knows holds up to 1000 more after the batch is delivered, as long as the terms
  of the missing entries are not below its own and do not decrease.\<close>

theorem replay_catches_up:
  assumes "leads L l" and "holds_prefix env m L k f"
    and "hm_get (en_next_index l) (en_node_id f) = Some (en_last_index f + 1)"
    and "sorted (map fst (drop k L))" and "\<forall>d \<in> set (drop k L). en_term f \<le> fst d"
  shows "holds_prefix env m L (min (k + MAX_REPLAY_BATCH) (length L)) (receive_entries env f (build_replay_batch l (en_node_id f)))"
proof -
  let ?n = "min MAX_REPLAY_BATCH (length L - k)"
  have k: "k \<le> length L" "en_last_index f + 1 = of_nat (Suc k)" using assms(2) by (auto simp: holds_prefix_def)
  have "build_replay_batch l (en_node_id f) = take ?n (drop k L)"
    using replay_batch [OF assms(1) _ k(1), of "en_node_id f"] assms(3) k(2)
    by (cases "MAX_REPLAY_BATCH \<le> length L - k") (simp_all add: min_def)
  moreover have "holds_prefix env m L (k + ?n) (receive_entries env f (take ?n (drop k L)))"
    using assms k(1) by (intro holds_in_order) (auto simp: leads_def sorted_wrt_take take_map [symmetric] dest: in_set_takeD)
  moreover have "k + ?n = min (k + MAX_REPLAY_BATCH) (length L)" using k(1) by auto
  ultimately show ?thesis by simp
qed

definition leader3 :: engine where
  "leader3 = (engine_new ''a'' [''b'', ''c''] (en_manager fresh_c))
     \<lparr>en_role := Leader, en_term := 1, en_last_index := 3, en_log := map snd log3, en_log_terms := map fst log3,
      en_next_index := [(''c'', 1)]\<rparr>"

theorem replay_catches_up_witness:
  "holds_prefix run_env (en_manager fresh_c) log3 3 (receive_entries run_env fresh_c (build_replay_batch leader3 ''c''))"
proof -
  have "leads log3 leader3"
    using log3_numbered by (simp add: leads_def leader3_def) (simp add: log3_def)
  moreover have c: "en_node_id fresh_c = ''c''" "en_last_index fresh_c = 0" "en_term fresh_c = 0"
    by (simp_all add: fresh_c_def engine_new_def)
  moreover have "hm_get (en_next_index leader3) ''c'' = Some 1" by (simp add: leader3_def hm_get_def)
  moreover have "sorted (map fst (drop 0 log3))" "min (0 + MAX_REPLAY_BATCH) (length log3) = 3"
    by (simp_all add: log3_def MAX_REPLAY_BATCH_def)
  ultimately show ?thesis using replay_catches_up [of log3 leader3, OF _ fresh_c_holds] by simp
qed

text \<open>An entry of an older term than the follower's is refused as stale, and all that follow it as
  gaps: replay after a change of leader does not bring a lagging follower up to date, its log stays as
  it was.\<close>

theorem old_term_blocks_replay:
  assumes "leads L l" and "holds_prefix env m L k f" and "k < length L" and "fst (L ! k) < en_term f"
    and "hm_get (en_next_index l) (en_node_id f) = Some (en_last_index f + 1)"
  shows "same_log f (receive_entries env f (build_replay_batch l (en_node_id f)))"
proof -
  have num: "numbered L" using assms(1) by (simp add: leads_def)
  have k: "k \<le> length L" "en_last_index f = of_nat k" using assms(2) by (auto simp: holds_prefix_def)
  have batch: "build_replay_batch l (en_node_id f) = take MAX_REPLAY_BATCH (drop k L)"
    using replay_batch [OF assms(1) _ k(1)] assms(5) k(2) by simp
  have "t < en_term f \<or> i \<noteq> en_last_index f + 1" if "(t, i, c) \<in> set (take MAX_REPLAY_BATCH (drop k L))" for t i c
  proof -
    have "(t, i, c) \<in> set (drop k L)" using that by (rule in_set_takeD)
    then obtain n where n: "n < length L - k" "L ! (k + n) = (t, i, c)" by (auto simp: in_set_conv_nth)
    then have i: "i = of_nat (Suc (k + n))" using numbered_nth [OF num, of "k + n"] by simp
    show ?thesis
    proof (cases n)
      case 0
      with n assms(4) show ?thesis by simp
    next
      case (Suc n')
      moreover have "k + n < 2 ^ 64" "k < 2 ^ 64" using n(1) num by (auto simp: numbered_def)
      ultimately have "(of_nat (k + n) :: u64) \<noteq> of_nat k" using u64_of_nat_inj [of "k + n" k] by fastforce
      with i k(2) show ?thesis by simp
    qed
  qed
  then show ?thesis unfolding batch using blocked_entries by blast
qed

text \<open>Node \<open>b\<close> wins term 2 with the vote of \<open>c\<close>, which lacks the entry of term 1.\<close>

definition lagging :: "net_event list" where
  "lagging = elect_a @ [SubmitE ''a'' cmd1, ReplayE ''a'', DeliverE 7, TickE ''b'' True, DeliverE 11, DeliverE 12,
     TickE ''b'' True, DeliverE 14, DeliverE 15, SubmitE ''b'' cmd1, ReplayE ''b'', DeliverE 17, DeliverE 18]"

theorem old_term_blocks_replay_witness:
  "\<exists>s. reachable (net_init abc) (net_step any abc) s \<and> en_role (nt_node s ''b'') = Leader \<and>
     en_last_index (nt_node s ''b'') = 2 \<and> build_replay_batch (nt_node s ''b'') ''c'' \<noteq> [] \<and>
     en_log (receive_entries run_env (nt_node s ''c'') (build_replay_batch (nt_node s ''b'') ''c'')) = []"
proof -
  let ?L = "[(1, 1, cmd1), (2, 2, cmd1)]"
  have "run_gives any lagging (\<lambda>f. en_role (f ''b'') = Leader \<and> en_log (f ''b'') = map snd ?L \<and>
      en_log_terms (f ''b'') = map fst ?L \<and> en_last_index (f ''b'') = 2 \<and> hm_get (en_next_index (f ''b'')) ''c'' = Some 1 \<and>
      en_node_id (f ''c'') = ''c'' \<and> en_log (f ''c'') = [] \<and> en_log_terms (f ''c'') = [] \<and> en_last_index (f ''c'') = 0 \<and>
      en_term (f ''c'') = 2 \<and> build_replay_batch (f ''b'') ''c'' \<noteq> [])"
    by code_simp
  then obtain s where s: "reachable (net_init abc) (net_step any abc) s" "en_role (nt_node s ''b'') = Leader"
      "en_log (nt_node s ''b'') = map snd ?L" "en_log_terms (nt_node s ''b'') = map fst ?L"
      "en_last_index (nt_node s ''b'') = 2" "hm_get (en_next_index (nt_node s ''b'')) ''c'' = Some 1"
      "en_node_id (nt_node s ''c'') = ''c''" "en_log (nt_node s ''c'') = []" "en_log_terms (nt_node s ''c'') = []"
      "en_last_index (nt_node s ''c'') = 0" "en_term (nt_node s ''c'') = 2" "build_replay_batch (nt_node s ''b'') ''c'' \<noteq> []"
    using run_gives_reachable by blast
  have "leads ?L (nt_node s ''b'')" using s(2-5) by (simp add: leads_def numbered_def upt_rec)
  moreover have "holds_prefix run_env (en_manager (nt_node s ''c'')) ?L 0 (nt_node s ''c'')" using s(8-10) by (simp add: holds_prefix_def)
  ultimately have "same_log (nt_node s ''c'') (receive_entries run_env (nt_node s ''c'') (build_replay_batch (nt_node s ''b'') ''c''))"
    using old_term_blocks_replay [of ?L "nt_node s ''b''" run_env _ 0 "nt_node s ''c''"] s(6,7,10,11) by simp
  with s show ?thesis by (auto simp: same_log_def)
qed

section \<open>Chunked snapshots\<close>

text \<open>C25: The chunks of a snapshot, delivered in any order to a follower that has not seen the transfer,
  restore the leader's snapshot, last index and term, and leave no buffer behind, provided the
  decoder undoes the encoder and the sizes are within the caps.\<close>

theorem chunks_reassemble:
  assumes "build_snapshot_chunks encode l tid 0 csize = Ok ms" and "encode (snapshot (en_manager l)) = Some P"
    and "ae_decode env P = Some (snapshot (en_manager l))" and "length P \<le> 134217728" and "en_last_index l \<le> MAX_SNAPSHOT_LOG_INDEX"
    and "distinct ks" and "set ks = {..<length ms}" and "hm_get (en_rx_buffers f) tid = None"
    and "restore (en_manager f) (snapshot (en_manager l)) = (Ok u, m)"
  shows "receive_all env f (map ((!) ms) ks) =
    f\<lparr>en_manager := m, en_last_index := en_last_index l, en_term := en_term l,
      en_log_terms := replicate (unat (en_last_index l)) (en_term l), en_rx_buffers := []\<rparr>"
proof -
  let ?x = "\<lparr>tr_id = tid, tr_last_index = en_last_index l, tr_term = en_term l, tr_size = max csize 1, tr_payload = P\<rparr>"
  have x: "tr_ok ?x" "ms = map (tr_message ?x) [0..<tr_chunks ?x]" using build_chunks [OF assms(1,2,4)] by auto
  have len: "length ms = tr_chunks ?x" using arg_cong [OF x(2), of length] by simp
  have ks: "set ks = {..<tr_chunks ?x}" using assms(7) len by simp
  have ms: "map ((!) ms) ks = map (tr_message ?x) ks"
  proof (rule map_cong [OF refl])
    fix k
    assume "k \<in> set ks"
    then have "k < tr_chunks ?x" using ks by simp
    then show "ms ! k = tr_message ?x k" by (subst x(2)) simp
  qed
  have "ks \<noteq> []"
  proof
    assume "ks = []"
    then have "tr_chunks ?x = 0" using ks lessThan_empty_iff [of "tr_chunks ?x"] by simp
    with tr_chunks_bounds [OF x(1)] show False by simp
  qed
  moreover have "ae_decode env (tr_payload ?x) = Some (snapshot (en_manager l))" using assms(3) by simp
  moreover have "partial_transfer ?x {} (en_rx_buffers f)" using assms(8) by (simp add: partial_transfer_def)
  ultimately have "receive_all env f (map (tr_message ?x) ks) =
      snd (restore_snapshot (f\<lparr>en_rx_buffers := []\<rparr>) (snapshot (en_manager l)) (tr_last_index ?x) (tr_term ?x))"
    using assms(6) ks by (intro reassemble [OF x(1), of _ _ "{}"]) auto
  then show ?thesis unfolding ms using assms(5,9) by (simp add: restore_snapshot_def)
qed

text \<open>An encoder that can be undone on the snapshots of the example.\<close>

definition toy_encode :: "cluster_snapshot \<Rightarrow> byte list option" where
  "toy_encode sn = Some [1, 2, 3, 4, 5]"

definition toy_env :: apply_env where
  "toy_env = run_env\<lparr>ae_decode := (\<lambda>b. if b = [1, 2, 3, 4, 5] then Some (snapshot (en_manager fresh_c)) else None)\<rparr>"

theorem chunks_reassemble_witness:
  "\<exists>ms. build_snapshot_chunks toy_encode leader3 7 0 2 = Ok ms \<and> length ms = 3 \<and>
     en_last_index (receive_all toy_env fresh_c (map ((!) ms) [2, 0, 1])) = 3"
proof -
  obtain ms where ms: "build_snapshot_chunks toy_encode leader3 7 0 2 = Ok ms" "length ms = 3"
  proof -
    have "case build_snapshot_chunks toy_encode leader3 7 0 2 of Inl _ \<Rightarrow> False | Inr ms \<Rightarrow> length ms = 3" by code_simp
    then show thesis using that by (auto split: sum.splits)
  qed
  have m: "en_manager leader3 = en_manager fresh_c" "en_last_index leader3 = 3" by (simp_all add: leader3_def engine_new_def)
  have "fst (restore (en_manager fresh_c) (snapshot (en_manager fresh_c))) = Ok ()" by code_simp
  then have r: "restore (en_manager fresh_c) (snapshot (en_manager leader3)) =
      (Ok (), snd (restore (en_manager fresh_c) (snapshot (en_manager fresh_c))))" unfolding m(1) by (metis prod.collapse)
  have "set [2, 0, 1] = {..<length ms}" using ms(2) by auto
  moreover have "hm_get (en_rx_buffers fresh_c) 7 = None" by (simp add: fresh_c_def engine_new_def)
  ultimately have "receive_all toy_env fresh_c (map ((!) ms) [2, 0, 1]) =
      fresh_c\<lparr>en_manager := snd (restore (en_manager fresh_c) (snapshot (en_manager fresh_c))), en_last_index := en_last_index leader3,
        en_term := en_term leader3, en_log_terms := replicate (unat (en_last_index leader3)) (en_term leader3), en_rx_buffers := []\<rparr>"
    using m by (intro chunks_reassemble [OF ms(1), of "[1, 2, 3, 4, 5]", OF _ _ _ _ _ _ _ r])
      (simp_all add: toy_encode_def toy_env_def MAX_SNAPSHOT_LOG_INDEX_def)
  with ms m show ?thesis by (intro exI [of _ ms]) simp
qed

text \<open>A chunk that is the first to arrive and not the first of its transfer is acknowledged with its
  own index, though the follower lacks the chunks before it; the leader then resumes after it, so that
  a resumed transfer never sends the missing chunks.\<close>

theorem gap_ack_misleads:
  assumes "hm_get (en_rx_buffers f) tid = None" and "0 < i" and "i < n" and "tb \<le> MAX_SNAPSHOT_TOTAL_BYTES"
    and "hm_get (en_tx_cursors l) (en_node_id f) = None"
  shows "\<exists>f' b. handle_snapshot_chunk env f tid i n fin li t tb p = (Ok (SnapshotChunkAck (en_node_id f) tid i False), f') \<and>
    hm_get (en_rx_buffers f') tid = Some b \<and> hm_get (cb_chunks b) 0 = None \<and>
    resume_chunk_idx (receive_snapshot_chunk_ack l (en_node_id f) tid i False) (en_node_id f) tid = i + 1"
proof -
  define b where "b = record_chunk (buffer_default\<lparr>cb_expected := n, cb_last_index := li, cb_term := t, cb_total_bytes := tb\<rparr>) i p"
  have b: "cb_highest_contiguous b = None" "cb_chunks b = [(i, p)]" "cb_expected b = n"
    using assms(2) by (simp_all add: b_def record_chunk_def buffer_default_def Let_def advance_none hm_get_def)
  have "1 < unat n" using assms(2,3) by (simp add: word_less_nat_alt)
  then have "\<not> is_complete b" using b by (simp add: is_complete_def)
  then have "buffer_chunk (en_rx_buffers f) tid i n fin li t tb p = (Ok None, hm_insert tid b (filter (\<lambda>(t', _). t' = tid) (en_rx_buffers f)))"
    using assms(1) by (simp add: buffer_chunk_def b_def buffer_default_def Let_def)
  moreover have "n \<noteq> 0" "\<not> n \<le> i" "\<not> MAX_SNAPSHOT_TOTAL_BYTES < tb" using assms(2-4) by auto
  ultimately have "handle_snapshot_chunk env f tid i n fin li t tb p =
      (Ok (SnapshotChunkAck (en_node_id f) tid i False), f\<lparr>en_rx_buffers := hm_insert tid b (filter (\<lambda>(t', _). t' = tid) (en_rx_buffers f))\<rparr>)"
    using b(1) by (simp add: handle_snapshot_chunk_def)
  moreover have "hm_get (cb_chunks b) 0 = None" using b(2) assms(2) by (simp add: hm_get_def)
  moreover have "resume_chunk_idx (receive_snapshot_chunk_ack l (en_node_id f) tid i False) (en_node_id f) tid = i + 1"
    using assms(5) by (simp add: resume_chunk_idx_def receive_snapshot_chunk_ack_def cursor_default_def Let_def)
  ultimately show ?thesis by simp
qed

theorem gap_ack_misleads_witness:
  "resume_chunk_idx (receive_snapshot_chunk_ack leader3 ''c'' 7 2 False) ''c'' 7 = 3"
proof -
  have "hm_get (en_rx_buffers fresh_c) 7 = None" "en_node_id fresh_c = ''c''" "hm_get (en_tx_cursors leader3) ''c'' = None"
    by (simp_all add: fresh_c_def leader3_def engine_new_def)
  with gap_ack_misleads [of fresh_c 7 2 4 100 leader3 run_env False 3 1 "[]"] show ?thesis
    by (auto simp: MAX_SNAPSHOT_TOTAL_BYTES_def)
qed

text \<open>An acknowledgement that the snapshot was applied leaves the cursor on its transfer, so that the
  acknowledgements of every later transfer to that follower are ignored and it always resumes at 0.\<close>

theorem applied_cursor_sticks:
  assumes "hm_get (en_tx_cursors l) f = None" and "tid' \<noteq> tid"
  shows "resume_chunk_idx (foldl (\<lambda>l c. receive_snapshot_chunk_ack l f tid' c False) (receive_snapshot_chunk_ack l f tid i True) cs) f tid' = 0"
proof -
  have ack: "\<exists>c. hm_get (en_tx_cursors (receive_snapshot_chunk_ack e f tid' c' False)) f = Some c \<and> cc_transfer_id c = Some tid"
    if "\<exists>c. hm_get (en_tx_cursors e) f = Some c \<and> cc_transfer_id c = Some tid" for e c'
    using that assms(2) by (auto simp: receive_snapshot_chunk_ack_def Let_def)
  have "\<exists>c. hm_get (en_tx_cursors (foldl (\<lambda>l c. receive_snapshot_chunk_ack l f tid' c False) e cs)) f = Some c \<and> cc_transfer_id c = Some tid"
    if "\<exists>c. hm_get (en_tx_cursors e) f = Some c \<and> cc_transfer_id c = Some tid" for e
    using that
  proof (induction cs arbitrary: e)
    case (Cons c cs)
    show ?case using Cons.IH [OF ack [OF Cons.prems]] by simp
  qed simp
  moreover have "\<exists>c. hm_get (en_tx_cursors (receive_snapshot_chunk_ack l f tid i True)) f = Some c \<and> cc_transfer_id c = Some tid"
    using assms(1) by (simp add: receive_snapshot_chunk_ack_def cursor_default_def Let_def)
  ultimately show ?thesis using assms(2) by (fastforce simp: resume_chunk_idx_def)
qed

end
