(* ===== verification/Columns.thy ===== *)
theory Columns
  imports Dictionary_Search Hash_Map Json
begin

text \<open>
  Columns of a segment in memory (ferrodruid-segment/src/column.rs and segment.rs) and how the query
  engine reads a cell as a JSON value (ferrodruid-query/src/helpers.rs). Texts of dictionaries are
  their UTF-8 bytes, a bitmap is the set of its row numbers, a float of 32 bits is the double of the same
  value, and a sketch stands as the JSON envelope that it renders to.
\<close>

datatype druid_error = Query string | Segment string

section \<open>Data\<close>

record string_column =
  sc_dictionary :: dictionary
  sc_encoded :: "u32 list"
  sc_bitmaps :: "u32 set list"

record multi_column =
  mc_dictionary :: dictionary
  mc_offsets :: "u32 list"
  mc_ordinals :: "u32 list"
  mc_bitmaps :: "u32 set list"

datatype column_data =
    Long "int list"
  | LongNullable "int list" "u32 set"
  | FloatCol "f64 list"
  | Double "f64 list"
  | StringCol string_column
  | StringMulti multi_column
  | Complex "byte list"
  | ComplexTheta "json list"
  | ComplexHyperUnique "json list"

record segment_data =
  sd_num_rows :: nat
  sd_dimensions :: "string list"
  sd_metrics :: "string list"
  sd_columns :: "(string, column_data) hash_map"
  sd_time_sorted :: bool

definition timestamp_column :: "segment_data \<Rightarrow> (int list, druid_error) res" where
  "timestamp_column seg =
     (case hm_get (sd_columns seg) ''__time'' of
        Some (Long v) \<Rightarrow> Ok v
      | Some _ \<Rightarrow> fail (Segment ''__time column is not of type LONG'')
      | None \<Rightarrow> fail (Segment ''__time column not found in segment''))"

text \<open>\<open>slice::get\<close>, and \<open>u32::try_from\<close> of a row number.\<close>

definition get_at :: "'a list \<Rightarrow> nat \<Rightarrow> 'a option" where
  "get_at xs i = (if i < length xs then Some (xs ! i) else None)"

definition contains_row :: "u32 set \<Rightarrow> nat \<Rightarrow> bool" where
  "contains_row bm i \<longleftrightarrow> i < 2 ^ 32 \<and> of_nat i \<in> bm"

section \<open>Nullable integers\<close>

fun long_nullable_loop :: "nat \<Rightarrow> int option list \<Rightarrow> int list \<times> u32 set \<Rightarrow> int list \<times> u32 set" where
  "long_nullable_loop i [] st = st"
| "long_nullable_loop i (Some v # vs) (out, nulls) = long_nullable_loop (Suc i) vs (out @ [v], nulls)"
| "long_nullable_loop i (None # vs) (out, nulls) =
     long_nullable_loop (Suc i) vs (out @ [0], insert (if i < 2 ^ 32 then of_nat i else - 1) nulls)"

definition long_nullable_parts :: "int option list \<Rightarrow> int list \<times> u32 set" where
  "long_nullable_parts values = long_nullable_loop 0 values ([], {})"

definition is_null_long_row :: "u32 set \<Rightarrow> nat \<Rightarrow> bool" where
  "is_null_long_row nulls i \<longleftrightarrow> contains_row nulls i"

section \<open>Nullable strings\<close>

text \<open>The position of a value in the sorted values, as the code's hash map returns it.\<close>

definition ordinal_of :: "byte list list \<Rightarrow> byte list \<Rightarrow> u32" where
  "ordinal_of vals v = of_nat (length (takeWhile (\<lambda>x. x \<noteq> v) vals))"

fun encode_rows ::
  "byte list list \<Rightarrow> u32 \<Rightarrow> nat \<Rightarrow> byte list option list \<Rightarrow> u32 list \<times> u32 set list \<times> u32 set \<Rightarrow> u32 list \<times> u32 set list \<times> u32 set" where
  "encode_rows vals null_ord i [] st = st"
| "encode_rows vals null_ord i (Some s # vs) (enc, bitmaps, nulls) =
     (let ord = ordinal_of vals s in
      encode_rows vals null_ord (Suc i) vs
        (enc @ [ord], bitmaps[unat ord := insert (of_nat i) (bitmaps ! unat ord)], nulls))"
| "encode_rows vals null_ord i (None # vs) (enc, bitmaps, nulls) =
     encode_rows vals null_ord (Suc i) vs (enc @ [null_ord], bitmaps, insert (of_nat i) nulls)"

definition unique_sorted :: "byte list list \<Rightarrow> byte list list" where
  "unique_sorted xs = sort (remdups xs)"

text \<open>The dictionary: the distinct values in order, with the empty text as a placeholder for nulls.\<close>

definition distinct_values :: "byte list option list \<Rightarrow> byte list list" where
  "distinct_values values =
     (let unique = List.map_filter (\<lambda>v. v) values
      in unique_sorted (if None \<in> set values then [] # unique else unique))"

definition from_nullable_values :: "byte list option list \<Rightarrow> string_column" where
  "from_nullable_values values =
     (let has_null = None \<in> set values;
          vals = distinct_values values;
          null_ord = (if has_null then ordinal_of vals [] else 0);
          (enc, bitmaps, nulls) = encode_rows vals null_ord 0 values ([], replicate (length vals) {}, {})
      in \<lparr>sc_dictionary = from_sorted vals, sc_encoded = enc,
          sc_bitmaps = (if has_null then bitmaps @ [nulls] else bitmaps)\<rparr>)"

definition null_rows :: "string_column \<Rightarrow> u32 set option" where
  "null_rows sc =
     (if length (sc_bitmaps sc) = length (dict_values (sc_dictionary sc)) + 1 then Some (last (sc_bitmaps sc)) else None)"

definition is_null_row :: "string_column \<Rightarrow> nat \<Rightarrow> bool" where
  "is_null_row sc i = (case null_rows sc of Some bm \<Rightarrow> contains_row bm i | None \<Rightarrow> False)"

section \<open>Strings with several values in a row\<close>

fun encode_elems :: "byte list list \<Rightarrow> nat \<Rightarrow> byte list list \<Rightarrow> u32 list \<times> u32 set list \<Rightarrow> u32 list \<times> u32 set list" where
  "encode_elems vals i [] st = st"
| "encode_elems vals i (v # vs) (ordinals, bitmaps) =
     (let ord = ordinal_of vals v in
      encode_elems vals i vs (ordinals @ [ord], bitmaps[unat ord := insert (of_nat i) (bitmaps ! unat ord)]))"

fun encode_multi ::
  "byte list list \<Rightarrow> nat \<Rightarrow> byte list list list \<Rightarrow> u32 list \<times> u32 set list \<times> u32 set \<times> u32 list
     \<Rightarrow> u32 list \<times> u32 set list \<times> u32 set \<times> u32 list" where
  "encode_multi vals i [] st = st"
| "encode_multi vals i (r # rs) (ordinals, bitmaps, nulls, offsets) =
     (let nulls' = (if r = [] then insert (of_nat i) nulls else nulls);
          (ordinals', bitmaps') = encode_elems vals i r (ordinals, bitmaps)
      in encode_multi vals (Suc i) rs (ordinals', bitmaps', nulls', offsets @ [of_nat (length ordinals')]))"

definition from_rows :: "byte list list list \<Rightarrow> multi_column" where
  "from_rows rows =
     (let has_empty = [] \<in> set rows;
          vals = unique_sorted (concat rows);
          (ordinals, bitmaps, nulls, offsets) =
            encode_multi vals 0 rows ([], replicate (length vals) {}, {}, [0])
      in \<lparr>mc_dictionary = from_sorted vals, mc_offsets = offsets, mc_ordinals = ordinals,
          mc_bitmaps = (if has_empty then bitmaps @ [nulls] else bitmaps)\<rparr>)"

definition mc_num_rows :: "multi_column \<Rightarrow> nat" where
  "mc_num_rows mc = length (mc_offsets mc) - 1"

definition row_ordinals :: "multi_column \<Rightarrow> nat \<Rightarrow> u32 list option" where
  "row_ordinals mc i =
     (case (get_at (mc_offsets mc) i, get_at (mc_offsets mc) (i + 1)) of
        (Some a, Some b) \<Rightarrow>
          if unat a \<le> unat b \<and> unat b \<le> length (mc_ordinals mc) then Some (take (unat b - unat a) (drop (unat a) (mc_ordinals mc)))
          else None
      | _ \<Rightarrow> None)"

definition column_num_rows :: "column_data \<Rightarrow> nat option" where
  "column_num_rows col =
     (case col of
        Long v \<Rightarrow> Some (length v)
      | LongNullable v _ \<Rightarrow> Some (length v)
      | FloatCol v \<Rightarrow> Some (length v)
      | Double v \<Rightarrow> Some (length v)
      | StringCol s \<Rightarrow> Some (length (sc_encoded s))
      | StringMulti s \<Rightarrow> Some (mc_num_rows s)
      | Complex _ \<Rightarrow> None
      | ComplexTheta v \<Rightarrow> Some (length v)
      | ComplexHyperUnique v \<Rightarrow> Some (length v))"

section \<open>Reading a cell\<close>

definition text_of :: "byte list \<Rightarrow> string" where
  "text_of bs = map (\<lambda>b. char_of (unat b)) bs"

definition option_null :: "json option \<Rightarrow> json" where
  "option_null v = (case v of None \<Rightarrow> JNull | Some j \<Rightarrow> j)"

definition float_cell :: "bool \<Rightarrow> f64 list \<Rightarrow> nat \<Rightarrow> json" where
  "float_cell legacy v i =
     (case get_at v i of
        None \<Rightarrow> JNull
      | Some x \<Rightarrow> json_from_f64 (if legacy \<and> is_nan x then Fin 0 else x))"

definition dict_cell :: "bool \<Rightarrow> dictionary \<Rightarrow> u32 \<Rightarrow> json" where
  "dict_cell legacy d ord =
     (case dict_get d (unat ord) of
        None \<Rightarrow> JNull
      | Some s \<Rightarrow> if legacy \<and> s = [] then JNull else JString (text_of s))"

definition column_value_at :: "bool \<Rightarrow> column_data \<Rightarrow> nat \<Rightarrow> json" where
  "column_value_at legacy col i =
     (case col of
        Long v \<Rightarrow> option_null (map_option (\<lambda>x. JNumber (number_from_i64 x)) (get_at v i))
      | LongNullable v nulls \<Rightarrow>
          if \<not> legacy \<and> is_null_long_row nulls i then JNull
          else option_null (map_option (\<lambda>x. JNumber (number_from_i64 x)) (get_at v i))
      | FloatCol v \<Rightarrow> float_cell legacy v i
      | Double v \<Rightarrow> float_cell legacy v i
      | StringCol sc \<Rightarrow>
          if is_null_row sc i then JNull
          else dict_cell legacy (sc_dictionary sc) (case get_at (sc_encoded sc) i of Some ord \<Rightarrow> ord | None \<Rightarrow> 0)
      | StringMulti mc \<Rightarrow>
          (case row_ordinals mc i of
             None \<Rightarrow> JNull
           | Some [] \<Rightarrow> JNull
           | Some [ord] \<Rightarrow> dict_cell legacy (mc_dictionary mc) ord
           | Some ords \<Rightarrow> JArray (map (dict_cell legacy (mc_dictionary mc)) ords))
      | Complex _ \<Rightarrow> JNull
      | ComplexTheta rows \<Rightarrow> option_null (get_at rows i)
      | ComplexHyperUnique rows \<Rightarrow> option_null (get_at rows i))"

type_synonym row = "(string, json) hash_map"

definition build_row_into :: "bool \<Rightarrow> segment_data \<Rightarrow> nat \<Rightarrow> row" where
  "build_row_into legacy seg i =
     fold (\<lambda>(name, col) row. hm_insert name (column_value_at legacy col i) row) (sd_columns seg) []"

definition build_row :: "bool \<Rightarrow> segment_data \<Rightarrow> nat \<Rightarrow> row" where
  "build_row legacy seg i = build_row_into legacy seg i"

definition build_row_prealloc :: "segment_data \<Rightarrow> row" where
  "build_row_prealloc seg = map (\<lambda>(name, _). (name, JNull)) (sd_columns seg)"

definition build_row_update_only :: "bool \<Rightarrow> segment_data \<Rightarrow> nat \<Rightarrow> row \<Rightarrow> row" where
  "build_row_update_only legacy seg i row =
     fold (\<lambda>(name, col) row. hm_insert name (column_value_at legacy col i) row) (sd_columns seg) row"

section \<open>Ordinals\<close>

lemma unique_sorted: "distinct (unique_sorted xs)" "set (unique_sorted xs) = set xs" "sorted (unique_sorted xs)"
  by (simp_all add: unique_sorted_def)

lemma length_unique_sorted: "length (unique_sorted xs) \<le> length xs"
  by (simp add: unique_sorted_def)

lemma ordinal_of_in:
  assumes "v \<in> set vals" and "length vals \<le> 2 ^ 32"
  shows "unat (ordinal_of vals v) < length vals" "vals ! unat (ordinal_of vals v) = v"
proof -
  let ?n = "length (takeWhile (\<lambda>x. x \<noteq> v) vals)"
  have less: "?n < length vals" using assms(1) by (metis (full_types) length_takeWhile_le nat_less_le takeWhile_eq_all_conv takeWhile_eq_take take_all order.refl)
  then have "?n < 2 ^ 32" using assms(2) by linarith
  then have "unat (of_nat ?n :: u32) = ?n" by (simp add: unat_of_nat take_bit_nat_eq_self)
  moreover have "vals ! ?n = v" using nth_length_takeWhile [of "\<lambda>x. x \<noteq> v" vals] less by simp
  ultimately show "unat (ordinal_of vals v) < length vals" "vals ! unat (ordinal_of vals v) = v"
    using less by (simp_all add: ordinal_of_def)
qed

lemma dict_cell_ordinal:
  assumes "v \<in> set vals" and "length vals \<le> 2 ^ 32"
  shows "dict_cell False (from_sorted vals) (ordinal_of vals v) = JString (text_of v)"
  using ordinal_of_in [OF assms] by (simp add: dict_cell_def dict_get_def from_sorted_def)

lemma ordinal_of_eq_iff:
  assumes "v \<in> set vals" and "length vals \<le> 2 ^ 32" and "distinct vals" and "ord < length vals"
  shows "unat (ordinal_of vals v) = ord \<longleftrightarrow> v = vals ! ord"
  using ordinal_of_in [OF assms(1,2)] assms(3,4) by (auto simp: nth_eq_iff_index_eq)

lemma of_nat_row_inject:
  assumes "i < 2 ^ 32" and "j < 2 ^ 32"
  shows "(of_nat i :: u32) = of_nat j \<longleftrightarrow> i = j"
proof -
  have "unat (of_nat i :: u32) = i" "unat (of_nat j :: u32) = j" using assms by (simp_all add: unat_of_nat take_bit_nat_eq_self)
  then show ?thesis by metis
qed

section \<open>Encoding of nullable columns\<close>

text \<open>The numbers of the rows, counted from \<open>i\<close>, whose value satisfies \<open>P\<close>.\<close>

fun rows_where :: "('a \<Rightarrow> bool) \<Rightarrow> nat \<Rightarrow> 'a list \<Rightarrow> u32 set" where
  "rows_where P i [] = {}"
| "rows_where P i (v # vs) = (if P v then insert (of_nat i) (rows_where P (Suc i) vs) else rows_where P (Suc i) vs)"

lemma rows_where_iff: "r \<in> rows_where P i vs \<longleftrightarrow> (\<exists>j < length vs. P (vs ! j) \<and> r = of_nat (i + j))"
proof (induction vs arbitrary: i)
  case (Cons v vs)
  have "(\<exists>j < length (v # vs). P ((v # vs) ! j) \<and> r = of_nat (i + j)) \<longleftrightarrow>
      P v \<and> r = of_nat i \<or> (\<exists>j < length vs. P (vs ! j) \<and> r = of_nat (Suc i + j))"
    by (subst length_Cons, subst Ex_less_Suc2) simp
  with Cons.IH [of "Suc i"] show ?case by simp
qed simp

lemma contains_rows_where:
  assumes "i < length vs" and "length vs \<le> 2 ^ 32"
  shows "contains_row (rows_where P 0 vs) i \<longleftrightarrow> P (vs ! i)"
proof -
  have "j < 2 ^ 32" if "j < length vs" for j using that assms(2) by linarith
  then show ?thesis using assms(1) of_nat_row_inject by (auto simp: contains_row_def rows_where_iff)
qed

lemma rows_where_cong: "(\<And>v. v \<in> set vs \<Longrightarrow> P v = Q v) \<Longrightarrow> rows_where P i vs = rows_where Q i vs"
  by (induction vs arbitrary: i) auto

lemma encode_rows_nulls:
  "snd (snd (encode_rows vals null_ord i vs (enc, bitmaps, nulls))) = nulls \<union> rows_where (\<lambda>v. v = None) i vs"
  by (induction vals null_ord i vs "(enc, bitmaps, nulls)" arbitrary: enc bitmaps nulls rule: encode_rows.induct)
    (auto simp: Let_def)

lemma encode_rows_enc:
  "fst (encode_rows vals null_ord i vs (enc, bitmaps, nulls)) =
     enc @ map (\<lambda>v. case v of None \<Rightarrow> null_ord | Some s \<Rightarrow> ordinal_of vals s) vs"
  by (induction vals null_ord i vs "(enc, bitmaps, nulls)" arbitrary: enc bitmaps nulls rule: encode_rows.induct)
    (simp_all add: Let_def)

lemma encode_rows_length:
  "length (fst (snd (encode_rows vals null_ord i vs (enc, bitmaps, nulls)))) = length bitmaps"
  by (induction vals null_ord i vs "(enc, bitmaps, nulls)" arbitrary: enc bitmaps nulls rule: encode_rows.induct)
    (simp_all add: Let_def)

lemma encode_rows_bitmap:
  "ord < length bitmaps \<Longrightarrow> fst (snd (encode_rows vals null_ord i vs (enc, bitmaps, nulls))) ! ord =
     bitmaps ! ord \<union> rows_where (\<lambda>v. \<exists>s. v = Some s \<and> unat (ordinal_of vals s) = ord) i vs"
  by (induction vals null_ord i vs "(enc, bitmaps, nulls)" arbitrary: enc bitmaps nulls rule: encode_rows.induct)
    (auto simp: Let_def nth_list_update)

lemma long_nullable_loop:
  assumes "i + length vs \<le> 2 ^ 32"
  shows "long_nullable_loop i vs (out, nulls) =
     (out @ map (\<lambda>v. case v of None \<Rightarrow> 0 | Some x \<Rightarrow> x) vs, nulls \<union> rows_where (\<lambda>v. v = None) i vs)"
  using assms
  by (induction i vs "(out, nulls)" arbitrary: out nulls rule: long_nullable_loop.induct) auto

section \<open>Encoding of rows with several values\<close>

lemma encode_elems:
  "encode_elems vals i vs (ordinals, bitmaps) = (ordinals', bitmaps') \<Longrightarrow>
     ordinals' = ordinals @ map (ordinal_of vals) vs \<and> length bitmaps' = length bitmaps \<and>
     (\<forall>ord < length bitmaps. bitmaps' ! ord =
        bitmaps ! ord \<union> (if \<exists>v \<in> set vs. unat (ordinal_of vals v) = ord then {of_nat i} else {}))"
proof (induction vals i vs "(ordinals, bitmaps)" arbitrary: ordinals bitmaps rule: encode_elems.induct)
  case (2 vals i v vs ordinals bitmaps)
  from 2(1) [OF refl] 2(2) have ih: "ordinals' = ordinals @ ordinal_of vals v # map (ordinal_of vals) vs"
      "length bitmaps' = length bitmaps"
      "\<forall>ord < length bitmaps. bitmaps' ! ord =
         bitmaps[unat (ordinal_of vals v) := insert (of_nat i) (bitmaps ! unat (ordinal_of vals v))] ! ord \<union>
         (if \<exists>v \<in> set vs. unat (ordinal_of vals v) = ord then {of_nat i} else {})"
    by (simp_all add: Let_def)
  have "bitmaps' ! ord = bitmaps ! ord \<union> (if \<exists>w \<in> set (v # vs). unat (ordinal_of vals w) = ord then {of_nat i} else {})"
    if "ord < length bitmaps" for ord
    using ih(3) that by (cases "unat (ordinal_of vals v) = ord") auto
  with ih(1,2) show ?case by simp
qed simp

fun offsets_from :: "nat \<Rightarrow> 'a list list \<Rightarrow> nat list" where
  "offsets_from n [] = []"
| "offsets_from n (r # rs) = (n + length r) # offsets_from (n + length r) rs"

lemma encode_multi:
  "encode_multi vals i rs (ordinals, bitmaps, nulls, offsets) = (ordinals', bitmaps', nulls', offsets') \<Longrightarrow>
     ordinals' = ordinals @ map (ordinal_of vals) (concat rs) \<and>
     offsets' = offsets @ map of_nat (offsets_from (length ordinals) rs) \<and>
     length bitmaps' = length bitmaps \<and>
     nulls' = nulls \<union> rows_where (\<lambda>r. r = []) i rs \<and>
     (\<forall>ord < length bitmaps. bitmaps' ! ord = bitmaps ! ord \<union> rows_where (\<lambda>r. \<exists>v \<in> set r. unat (ordinal_of vals v) = ord) i rs)"
proof (induction vals i rs "(ordinals, bitmaps, nulls, offsets)" arbitrary: ordinals bitmaps nulls offsets
    rule: encode_multi.induct)
  case (2 vals i r rs ordinals bitmaps nulls offsets)
  obtain os bs where e: "encode_elems vals i r (ordinals, bitmaps) = (os, bs)" by fastforce
  note elems = encode_elems [OF e]
  have "ordinals' = os @ map (ordinal_of vals) (concat rs) \<and>
     offsets' = (offsets @ [of_nat (length os)]) @ map of_nat (offsets_from (length os) rs) \<and>
     length bitmaps' = length bs \<and>
     nulls' = (if r = [] then insert (of_nat i) nulls else nulls) \<union> rows_where (\<lambda>r. r = []) (Suc i) rs \<and>
     (\<forall>ord < length bs. bitmaps' ! ord = bs ! ord \<union> rows_where (\<lambda>r. \<exists>v \<in> set r. unat (ordinal_of vals v) = ord) (Suc i) rs)"
    using 2(1) [OF refl e [symmetric] refl] 2(2) e by (simp add: Let_def)
  with elems show ?case by auto
qed simp

lemma offsets_from_nth: "i < length rs \<Longrightarrow> (n # offsets_from n rs) ! i = n + length (concat (take i rs))"
  "i < length rs \<Longrightarrow> offsets_from n rs ! i = n + length (concat (take (Suc i) rs))"
  "length (offsets_from n rs) = length rs"
proof -
  show len: "length (offsets_from n rs) = length rs" by (induction n rs rule: offsets_from.induct) auto
  show nth: "i < length rs \<Longrightarrow> offsets_from n rs ! i = n + length (concat (take (Suc i) rs))" for i
    by (induction n rs arbitrary: i rule: offsets_from.induct) (auto simp: nth_Cons split: nat.splits)
  then show "i < length rs \<Longrightarrow> (n # offsets_from n rs) ! i = n + length (concat (take i rs))"
    by (cases i) auto
qed

section \<open>What is encoded is read back\<close>

lemma from_nullable_values_parts:
  fixes vs :: "byte list option list"
  defines "vals \<equiv> distinct_values vs" and "sc \<equiv> from_nullable_values vs"
  shows "sc_dictionary sc = from_sorted vals"
    "sc_encoded sc = map (\<lambda>v. case v of None \<Rightarrow> if None \<in> set vs then ordinal_of vals [] else 0 | Some s \<Rightarrow> ordinal_of vals s) vs"
    "\<forall>ord < length vals. sc_bitmaps sc ! ord = rows_where (\<lambda>v. \<exists>s. v = Some s \<and> unat (ordinal_of vals s) = ord) 0 vs"
    "null_rows sc = (if None \<in> set vs then Some (rows_where (\<lambda>v. v = None) 0 vs) else None)"
proof -
  obtain enc bitmaps nulls where
    e: "encode_rows vals (if None \<in> set vs then ordinal_of vals [] else 0) 0 vs ([], replicate (length vals) {}, {}) = (enc, bitmaps, nulls)"
    by (metis prod.collapse)
  note rows = encode_rows_enc encode_rows_nulls encode_rows_length encode_rows_bitmap
  have parts: "enc = map (\<lambda>v. case v of None \<Rightarrow> if None \<in> set vs then ordinal_of vals [] else 0 | Some s \<Rightarrow> ordinal_of vals s) vs"
    "nulls = rows_where (\<lambda>v. v = None) 0 vs" "length bitmaps = length vals"
    "\<forall>ord < length vals. bitmaps ! ord = rows_where (\<lambda>v. \<exists>s. v = Some s \<and> unat (ordinal_of vals s) = ord) 0 vs"
    using rows(1-3) [of vals "if None \<in> set vs then ordinal_of vals [] else 0" 0 vs "[]" "replicate (length vals) {}" "{}"]
      rows(4) [of _ "replicate (length vals) {}" vals "if None \<in> set vs then ordinal_of vals [] else 0" 0 vs "[]" "{}"] e
    by simp_all
  have sc: "sc = \<lparr>sc_dictionary = from_sorted vals, sc_encoded = enc,
      sc_bitmaps = (if None \<in> set vs then bitmaps @ [nulls] else bitmaps)\<rparr>"
    using e unfolding sc_def from_nullable_values_def vals_def Let_def by simp
  show "sc_dictionary sc = from_sorted vals"
    "sc_encoded sc = map (\<lambda>v. case v of None \<Rightarrow> if None \<in> set vs then ordinal_of vals [] else 0 | Some s \<Rightarrow> ordinal_of vals s) vs"
    "\<forall>ord < length vals. sc_bitmaps sc ! ord = rows_where (\<lambda>v. \<exists>s. v = Some s \<and> unat (ordinal_of vals s) = ord) 0 vs"
    "null_rows sc = (if None \<in> set vs then Some (rows_where (\<lambda>v. v = None) 0 vs) else None)"
    using parts by (auto simp: sc nth_append null_rows_def from_sorted_def)
qed

lemma distinct_values_ok:
  assumes "length vs \<le> 2 ^ 32"
  shows "length (distinct_values vs) \<le> 2 ^ 32" "distinct (distinct_values vs)" "Some s \<in> set vs \<Longrightarrow> s \<in> set (distinct_values vs)"
proof -
  let ?unique = "List.map_filter (\<lambda>v. v) vs"
  have "length ?unique \<le> length vs" by (simp add: map_filter_def)
  moreover have "length ?unique < length vs" if "None \<in> set vs"
    using that length_filter_less [of None vs "\<lambda>v. v \<noteq> None"] by (simp add: map_filter_def)
  ultimately have "length (if None \<in> set vs then [] # ?unique else ?unique) \<le> length vs" by (simp add: Suc_le_eq)
  then show "length (distinct_values vs) \<le> 2 ^ 32"
    unfolding distinct_values_def Let_def using length_unique_sorted assms by (meson order.trans)
  have "set ?unique = {s. Some s \<in> set vs}" by (force simp: map_filter_def)
  then show "distinct (distinct_values vs)" "Some s \<in> set vs \<Longrightarrow> s \<in> set (distinct_values vs)"
    by (auto simp: distinct_values_def Let_def unique_sorted)
qed

lemma nullable_string_cell:
  assumes "length vs \<le> 2 ^ 32" and "i < length vs"
  shows "column_value_at False (StringCol (from_nullable_values vs)) i =
    (case vs ! i of None \<Rightarrow> JNull | Some s \<Rightarrow> JString (text_of s))"
proof -
  note parts = from_nullable_values_parts [of vs] and ok = distinct_values_ok [OF assms(1)]
  have null: "is_null_row (from_nullable_values vs) i \<longleftrightarrow> vs ! i = None"
    using assms nth_mem [OF assms(2)] by (cases "vs ! i") (auto simp: is_null_row_def parts(4) contains_rows_where)
  show ?thesis
  proof (cases "vs ! i")
    case (Some s)
    then have s: "Some s \<in> set vs" using assms(2) nth_mem by metis
    then show ?thesis using Some null assms(2) dict_cell_ordinal [OF ok(3) [OF s] ok(1)]
      by (simp add: column_value_at_def parts(1,2) get_at_def)
  qed (simp add: column_value_at_def null)
qed

lemma nullable_long_cell:
  assumes "length vs \<le> 2 ^ 32" and "i < length vs"
  shows "column_value_at False (case long_nullable_parts vs of (out, nulls) \<Rightarrow> LongNullable out nulls) i =
    (case vs ! i of None \<Rightarrow> JNull | Some x \<Rightarrow> JNumber (number_from_i64 x))"
  using assms contains_rows_where [of i vs "\<lambda>v. v = None"]
  by (auto simp: long_nullable_parts_def long_nullable_loop column_value_at_def is_null_long_row_def get_at_def option_null_def
      split: option.splits)

lemma nullable_string_index:
  assumes "length vs \<le> 2 ^ 32" and "ord < length (distinct_values vs)"
  shows "sc_bitmaps (from_nullable_values vs) ! ord = rows_where (\<lambda>v. v = Some (distinct_values vs ! ord)) 0 vs"
proof -
  note ok = distinct_values_ok [OF assms(1)]
  have "rows_where (\<lambda>v. \<exists>s. v = Some s \<and> unat (ordinal_of (distinct_values vs) s) = ord) 0 vs =
      rows_where (\<lambda>v. v = Some (distinct_values vs ! ord)) 0 vs"
    using ordinal_of_eq_iff [OF ok(3) ok(1,2) assms(2)] by (intro rows_where_cong) auto
  then show ?thesis using from_nullable_values_parts(3) [of vs] assms(2) by simp
qed

lemma from_rows_parts:
  fixes rows :: "byte list list list"
  defines "vals \<equiv> unique_sorted (concat rows)" and "mc \<equiv> from_rows rows"
  shows "mc_dictionary mc = from_sorted vals" "mc_ordinals mc = map (ordinal_of vals) (concat rows)"
    "mc_offsets mc = map of_nat (0 # offsets_from 0 rows)"
    "\<forall>ord < length vals. mc_bitmaps mc ! ord = rows_where (\<lambda>r. \<exists>v \<in> set r. unat (ordinal_of vals v) = ord) 0 rows"
proof -
  obtain ordinals bitmaps nulls offsets where
    e: "encode_multi vals 0 rows ([], replicate (length vals) {}, {}, [0]) = (ordinals, bitmaps, nulls, offsets)"
    by (metis prod.collapse)
  have mc: "mc = \<lparr>mc_dictionary = from_sorted vals, mc_offsets = offsets, mc_ordinals = ordinals,
      mc_bitmaps = (if [] \<in> set rows then bitmaps @ [nulls] else bitmaps)\<rparr>"
    using e unfolding mc_def from_rows_def vals_def Let_def by simp
  from encode_multi [OF e]
  show "mc_dictionary mc = from_sorted vals" "mc_ordinals mc = map (ordinal_of vals) (concat rows)"
    "mc_offsets mc = map of_nat (0 # offsets_from 0 rows)"
    "\<forall>ord < length vals. mc_bitmaps mc ! ord = rows_where (\<lambda>r. \<exists>v \<in> set r. unat (ordinal_of vals v) = ord) 0 rows"
    by (auto simp: mc nth_append)
qed

lemma take_drop_concat:
  "i < length rows \<Longrightarrow>
     take (length (concat (take (Suc i) rows)) - length (concat (take i rows))) (drop (length (concat (take i rows))) (concat rows)) = rows ! i"
proof -
  assume i: "i < length rows"
  then have "concat rows = concat (take i rows) @ rows ! i @ concat (drop (Suc i) rows)"
    by (metis append_take_drop_id concat.simps(2) concat_append Cons_nth_drop_Suc)
  then show ?thesis using i by (simp add: take_Suc_conv_app_nth)
qed

lemma multi_row_ordinals:
  assumes "length (concat rows) < 2 ^ 32" and "i < length rows"
  shows "row_ordinals (from_rows rows) i = Some (map (ordinal_of (unique_sorted (concat rows))) (rows ! i))"
proof -
  note parts = from_rows_parts [of rows]
  let ?a = "length (concat (take i rows))" and ?b = "length (concat (take (Suc i) rows))"
  have all: "concat rows = concat (take (Suc i) rows) @ concat (drop (Suc i) rows)"
    by (metis append_take_drop_id concat_append)
  have le: "?a \<le> ?b" "?b \<le> length (concat rows)"
    using assms(2) arg_cong [OF all, of length] by (simp_all add: take_Suc_conv_app_nth)
  then have small: "?a < 2 ^ 32" "?b < 2 ^ 32" using assms(1) by linarith+
  have "map of_nat (0 # offsets_from 0 rows) ! i = (of_nat ?a :: u32)" "map of_nat (0 # offsets_from 0 rows) ! Suc i = (of_nat ?b :: u32)"
    using assms(2) offsets_from_nth(1) [of i rows 0] offsets_from_nth(2) [of i rows 0] offsets_from_nth(3) [of 0 rows]
    by (subst nth_map; simp)+
  then have "get_at (mc_offsets (from_rows rows)) i = Some (of_nat ?a)"
    "get_at (mc_offsets (from_rows rows)) (i + 1) = Some (of_nat ?b)"
    using assms(2) offsets_from_nth(3) [of 0 rows] unfolding get_at_def parts(3) by simp_all
  moreover have "unat (of_nat ?a :: u32) = ?a" "unat (of_nat ?b :: u32) = ?b"
    using small by (simp_all add: unat_of_nat take_bit_nat_eq_self)
  ultimately have "row_ordinals (from_rows rows) i =
      Some (take (?b - ?a) (drop ?a (map (ordinal_of (unique_sorted (concat rows))) (concat rows))))"
    using le by (simp add: row_ordinals_def parts(2))
  also have "\<dots> = Some (map (ordinal_of (unique_sorted (concat rows))) (rows ! i))"
    unfolding drop_map take_map take_drop_concat [OF assms(2)] ..
  finally show ?thesis .
qed

lemma multi_cell:
  assumes "length (concat rows) < 2 ^ 32" and "i < length rows"
  shows "column_value_at False (StringMulti (from_rows rows)) i =
    (case rows ! i of [] \<Rightarrow> JNull | [v] \<Rightarrow> JString (text_of v) | vs \<Rightarrow> JArray (map (\<lambda>v. JString (text_of v)) vs))"
proof -
  let ?vals = "unique_sorted (concat rows)"
  have "length ?vals \<le> 2 ^ 32" using length_unique_sorted [of "concat rows"] assms(1) by linarith
  then have cell: "dict_cell False (from_sorted ?vals) (ordinal_of ?vals v) = JString (text_of v)" if "v \<in> set (rows ! i)" for v
    using that assms(2) by (intro dict_cell_ordinal) (auto simp: unique_sorted)
  show ?thesis
    using cell multi_row_ordinals [OF assms] from_rows_parts(1) [of rows]
    by (auto simp: column_value_at_def split: list.splits)
qed

definition test_values :: "byte list option list" where
  "test_values = [Some [98], None, Some [97], Some [], Some [98]]"

text \<open>C24: A string column built from values and nulls gives back every row: a null reads as JSON
  null, a value (the empty text too) as itself; and the bitmap of each dictionary entry holds exactly the rows
  with that value.\<close>

theorem nullable_strings_read_back:
  assumes "length vs \<le> 2 ^ 32"
  shows "(\<forall>i < length vs. column_value_at False (StringCol (from_nullable_values vs)) i =
        (case vs ! i of None \<Rightarrow> JNull | Some s \<Rightarrow> JString (text_of s))) \<and>
    (\<forall>ord s. dict_get (sc_dictionary (from_nullable_values vs)) ord = Some s \<longrightarrow>
        (\<forall>i < length vs. contains_row (sc_bitmaps (from_nullable_values vs) ! ord) i \<longleftrightarrow> vs ! i = Some s))"
proof (intro conjI allI impI)
  fix ord s i assume "dict_get (sc_dictionary (from_nullable_values vs)) ord = Some s" and i: "i < length vs"
  then have "ord < length (distinct_values vs)" "s = distinct_values vs ! ord"
    by (auto simp: dict_get_def from_nullable_values_parts(1) from_sorted_def split: if_splits)
  then show "contains_row (sc_bitmaps (from_nullable_values vs) ! ord) i \<longleftrightarrow> vs ! i = Some s"
    using nullable_string_index [OF assms, of ord] contains_rows_where [OF i assms] by simp
qed (rule nullable_string_cell [OF assms])

theorem nullable_strings_read_back_witness:
  "column_value_at False (StringCol (from_nullable_values test_values)) 1 = JNull \<and>
   column_value_at False (StringCol (from_nullable_values test_values)) 3 = JString [] \<and>
   column_value_at False (StringCol (from_nullable_values test_values)) 4 = JString ''b''"
proof -
  have len: "length test_values = 5" and small: "length test_values \<le> 2 ^ 32" by (simp_all add: test_values_def)
  have "test_values ! 1 = None" "test_values ! 3 = Some []" "test_values ! 4 = Some [98]" by code_simp+
  moreover have "text_of [98] = ''b''" "text_of [] = []" by code_simp+
  ultimately show ?thesis using nullable_strings_read_back [OF small] unfolding len by simp
qed

definition test_rows_multi :: "byte list list list" where
  "test_rows_multi = [[[98], [97]], [], [[99]], [[97], [97]]]"

text \<open>A column with several values per row gives back every row in order with its duplicates:
  no value as null, one value as a text, more as an array.\<close>

theorem multi_values_read_back:
  assumes "length (concat rows) < 2 ^ 32" and "i < length rows"
  shows "column_value_at False (StringMulti (from_rows rows)) i =
    (case rows ! i of [] \<Rightarrow> JNull | [v] \<Rightarrow> JString (text_of v) | vs \<Rightarrow> JArray (map (\<lambda>v. JString (text_of v)) vs))"
  using assms by (rule multi_cell)

theorem multi_values_read_back_witness:
  "column_value_at False (StringMulti (from_rows test_rows_multi)) 3 = JArray [JString ''a'', JString ''a'']"
proof -
  have "length (concat test_rows_multi) < 2 ^ 32" "3 < length test_rows_multi" by (simp_all add: test_rows_multi_def)
  moreover have "test_rows_multi ! 3 = [[97], [97]]" "text_of [97] = ''a''" by code_simp+
  ultimately show ?thesis using multi_values_read_back [of test_rows_multi 3] by simp
qed

end
