(* ===== verification/Query_Expr.thy ===== *)
theory Query_Expr
  imports Columns
begin

text \<open>
  The expression filters of the query engine (the evaluator at the end of
  ferrodruid-query/src/filter.rs): a tokenizer, and a recursive descent parser that evaluates while it
  parses. The position in the token vector is the list of the remaining tokens. Rows are hash maps
  from column names to JSON values. Expressions are ASCII: blanks, letters and digits are those of ASCII, where the code also takes
  those of Unicode. How a float and a compound JSON value are printed
  enters as the record \<open>printers\<close>.
\<close>

record printers =
  f64_display :: "f64 \<Rightarrow> string"
  number_display :: "f64 \<Rightarrow> string"
  json_display :: "json \<Rightarrow> string"

section \<open>Tokens\<close>

datatype expr_token =
    Ident string
  | Number f64
  | StringLit string
  | Op string
  | LParen
  | RParen

definition is_alphabetic :: "char \<Rightarrow> bool" where
  "is_alphabetic c = (let n = of_char c :: nat in n \<in> {65..90} \<or> n \<in> {97..122})"

definition is_word :: "char \<Rightarrow> bool" where
  "is_word c \<longleftrightarrow> is_alphabetic c \<or> is_digit c \<or> c = CHR ''_''"

definition is_ascii_ws :: "char \<Rightarrow> bool" where
  "is_ascii_ws c \<longleftrightarrow> c \<in> {CHR '' '', CHR 0x09, CHR 0x0A, CHR 0x0C, CHR 0x0D}"

abbreviation quote :: char where
  "quote \<equiv> CHR 0x27"

definition two_char_ops :: "string list" where
  "two_char_ops = [''=='', ''!='', ''>='', ''<='', ''&&'', ''||'']"

definition starts_number :: "string \<Rightarrow> bool" where
  "starts_number s \<longleftrightarrow> (case s of
     [] \<Rightarrow> False
   | c # cs \<Rightarrow> is_digit c \<or> c = CHR ''-'' \<and> cs \<noteq> [] \<and> is_digit (hd cs))"

definition in_number :: "char \<Rightarrow> bool" where
  "in_number c \<longleftrightarrow> is_digit c \<or> c = CHR ''.''"

function tokenize_expr :: "string \<Rightarrow> expr_token list option" where
  "tokenize_expr [] = Some []"
| "tokenize_expr (c # cs) =
     (if is_ascii_ws c then tokenize_expr cs
      else if c = CHR ''('' then map_option ((#) LParen) (tokenize_expr cs)
      else if c = CHR '')'' then map_option ((#) RParen) (tokenize_expr cs)
      else if c = quote then
        map_option ((#) (StringLit (takeWhile (\<lambda>x. x \<noteq> quote) cs))) (tokenize_expr (tl (dropWhile (\<lambda>x. x \<noteq> quote) cs)))
      else if cs \<noteq> [] \<and> [c, hd cs] \<in> set two_char_ops then
        map_option ((#) (Op [c, hd cs])) (tokenize_expr (tl cs))
      else if c \<in> {CHR ''>'', CHR ''<'', CHR ''!''} then map_option ((#) (Op [c])) (tokenize_expr cs)
      else if starts_number (c # cs) then
        (case parse_f64 (c # takeWhile in_number cs) of
           None \<Rightarrow> None
         | Some n \<Rightarrow> map_option ((#) (Number n)) (tokenize_expr (dropWhile in_number cs)))
      else if is_word c then
        map_option ((#) (Ident (c # takeWhile is_word cs))) (tokenize_expr (dropWhile is_word cs))
      else tokenize_expr cs)"
  by pat_completeness auto

lemma length_tl_dropWhile: "length (dropWhile P xs) - Suc 0 \<le> length xs"
  using length_dropWhile_le [of P xs] by simp

termination tokenize_expr
  by (relation "measure length") (auto simp: less_Suc_eq_le length_dropWhile_le length_tl_dropWhile)

declare tokenize_expr.simps(2) [simp del]

section \<open>Values\<close>

datatype expr_value =
    Num f64
  | Str string
  | Bool bool
  | Null

fun expr_value_to_f64 :: "expr_value \<Rightarrow> f64 option" where
  "expr_value_to_f64 (Num n) = Some n"
| "expr_value_to_f64 (Str s) = parse_f64 s"
| "expr_value_to_f64 (Bool b) = Some (if b then Fin 1 else Fin 0)"
| "expr_value_to_f64 Null = None"

fun expr_value_to_string :: "printers \<Rightarrow> expr_value \<Rightarrow> string" where
  "expr_value_to_string pr (Num n) = f64_display pr n"
| "expr_value_to_string pr (Str s) = s"
| "expr_value_to_string pr (Bool b) = (if b then ''true'' else ''false'')"
| "expr_value_to_string pr Null = ''''"

fun value_is_truthy :: "expr_value \<Rightarrow> bool" where
  "value_is_truthy (Bool b) = b"
| "value_is_truthy (Num n) = (\<not> f64_eq n (Fin 0))"
| "value_is_truthy (Str s) = (s \<noteq> [])"
| "value_is_truthy Null = False"

definition compare_values :: "printers \<Rightarrow> expr_value \<Rightarrow> string \<Rightarrow> expr_value \<Rightarrow> bool" where
  "compare_values pr lhs op rhs =
     (if lhs = Null \<or> rhs = Null then
        (if op = ''=='' then lhs = Null \<and> rhs = Null
         else if op = ''!='' then \<not> (lhs = Null \<and> rhs = Null)
         else False)
      else
        case (expr_value_to_f64 lhs, expr_value_to_f64 rhs) of
          (Some l, Some r) \<Rightarrow>
            (if op = ''=='' then f64_lt (f64_abs (f64_sub l r)) EPSILON
             else if op = ''!='' then f64_le EPSILON (f64_abs (f64_sub l r))
             else if op = ''>'' then f64_lt r l
             else if op = ''<'' then f64_lt l r
             else if op = ''>='' then f64_le r l
             else if op = ''<='' then f64_le l r
             else False)
        | _ \<Rightarrow>
            let l = expr_value_to_string pr lhs; r = expr_value_to_string pr rhs in
            (if op = ''=='' then l = r
             else if op = ''!='' then l \<noteq> r
             else if op = ''>'' then r < l
             else if op = ''<'' then l < r
             else if op = ''>='' then r \<le> l
             else if op = ''<='' then l \<le> r
             else False))"

definition column_value :: "printers \<Rightarrow> row \<Rightarrow> string \<Rightarrow> expr_value" where
  "column_value pr row ident =
     (case hm_get row ident of
        None \<Rightarrow> Null
      | Some JNull \<Rightarrow> Null
      | Some (JNumber n) \<Rightarrow> Num (number_as_f64 n)
      | Some (JString s) \<Rightarrow> Str s
      | Some (JBool b) \<Rightarrow> Bool b
      | Some v \<Rightarrow> Str (json_display pr v))"

fun resolve_value :: "printers \<Rightarrow> row \<Rightarrow> expr_token list \<Rightarrow> (expr_value \<times> expr_token list) option" where
  "resolve_value pr row (Number n # ts) = Some (Num n, ts)"
| "resolve_value pr row (StringLit s # ts) = Some (Str s, ts)"
| "resolve_value pr row (Ident ident # ts) =
     Some (if ident = ''null'' then Null
           else if ident = ''true'' then Bool True
           else if ident = ''false'' then Bool False
           else column_value pr row ident, ts)"
| "resolve_value pr row _ = None"

lemma resolve_value_length: "resolve_value pr row ts = Some (v, ts') \<Longrightarrow> length ts' < length ts"
  by (induction pr row ts rule: resolve_value.induct) auto

section \<open>Parsing with evaluation\<close>

definition comparison_ops :: "string list" where
  "comparison_ops = [''=='', ''!='', ''>'', ''<'', ''>='', ''<='']"

definition comparison :: "printers \<Rightarrow> row \<Rightarrow> expr_token list \<Rightarrow> (bool \<times> expr_token list) option" where
  "comparison pr row ts =
     (case resolve_value pr row ts of
        None \<Rightarrow> None
      | Some (lhs, Op op # ts') \<Rightarrow>
          (if op \<in> set comparison_ops then
             (case resolve_value pr row ts' of
                None \<Rightarrow> None
              | Some (rhs, ts'') \<Rightarrow> Some (compare_values pr lhs op rhs, ts''))
           else Some (value_is_truthy lhs, Op op # ts'))
      | Some (lhs, ts') \<Rightarrow> Some (value_is_truthy lhs, ts'))"

lemma comparison_length: "comparison pr row ts = Some (b, ts') \<Longrightarrow> length ts' < length ts"
  by (auto simp: comparison_def split: option.splits list.splits expr_token.splits if_splits prod.splits
      dest!: resolve_value_length)

definition skip_rparen :: "expr_token list \<Rightarrow> expr_token list" where
  "skip_rparen ts = (case ts of RParen # ts' \<Rightarrow> ts' | _ \<Rightarrow> ts)"

lemma skip_rparen_length: "length (skip_rparen ts) \<le> length ts"
  by (auto simp: skip_rparen_def split: list.splits expr_token.splits)

function (sequential)
      parse_or :: "printers \<Rightarrow> row \<Rightarrow> expr_token list \<Rightarrow> (bool \<times> expr_token list) option"
  and or_loop :: "printers \<Rightarrow> row \<Rightarrow> bool \<Rightarrow> expr_token list \<Rightarrow> (bool \<times> expr_token list) option"
  and parse_and :: "printers \<Rightarrow> row \<Rightarrow> expr_token list \<Rightarrow> (bool \<times> expr_token list) option"
  and and_loop :: "printers \<Rightarrow> row \<Rightarrow> bool \<Rightarrow> expr_token list \<Rightarrow> (bool \<times> expr_token list) option"
  and parse_not :: "printers \<Rightarrow> row \<Rightarrow> expr_token list \<Rightarrow> (bool \<times> expr_token list) option"
  and parse_primary :: "printers \<Rightarrow> row \<Rightarrow> expr_token list \<Rightarrow> (bool \<times> expr_token list) option" where
  "parse_or pr row ts =
     (case parse_and pr row ts of None \<Rightarrow> None | Some (result, ts') \<Rightarrow> or_loop pr row result ts')"
| "or_loop pr row result ts =
     (if ts \<noteq> [] \<and> hd ts = Op ''||'' then
        (case parse_and pr row (tl ts) of
           None \<Rightarrow> None
         | Some (rhs, ts') \<Rightarrow> or_loop pr row (result \<or> rhs) ts')
      else Some (result, ts))"
| "parse_and pr row ts =
     (case parse_not pr row ts of None \<Rightarrow> None | Some (result, ts') \<Rightarrow> and_loop pr row result ts')"
| "and_loop pr row result ts =
     (if ts \<noteq> [] \<and> hd ts = Op ''&&'' then
        (case parse_not pr row (tl ts) of
           None \<Rightarrow> None
         | Some (rhs, ts') \<Rightarrow> and_loop pr row (result \<and> rhs) ts')
      else Some (result, ts))"
| "parse_not pr row ts =
     (if ts \<noteq> [] \<and> hd ts = Op ''!'' then map_option (\<lambda>(v, ts'). (\<not> v, ts')) (parse_primary pr row (tl ts))
      else parse_primary pr row ts)"
| "parse_primary pr row ts =
     (if ts \<noteq> [] \<and> hd ts = LParen then
        map_option (\<lambda>(v, ts'). (v, skip_rparen ts')) (parse_or pr row (tl ts))
      else comparison pr row ts)"
  by pat_completeness auto


text \<open>Every parser that succeeds consumes a token, and the loops never give tokens back.\<close>

abbreviation consumes :: "(bool \<times> expr_token list) option \<Rightarrow> nat \<Rightarrow> bool" where
  "consumes r n \<equiv> (\<forall>b ts'. r = Some (b, ts') \<longrightarrow> length ts' < n)"

lemma parse_lengths:
  "parse_or_or_loop_parse_and_and_loop_parse_not_parse_primary_dom (Inl (Inl (pr, row, ts))) \<Longrightarrow> consumes (parse_or pr row ts) (length ts)"
  "parse_or_or_loop_parse_and_and_loop_parse_not_parse_primary_dom (Inl (Inr (Inl (pr, row, result, ts)))) \<Longrightarrow> consumes (or_loop pr row result ts) (Suc (length ts))"
  "parse_or_or_loop_parse_and_and_loop_parse_not_parse_primary_dom (Inl (Inr (Inr (pr, row, ts)))) \<Longrightarrow> consumes (parse_and pr row ts) (length ts)"
  "parse_or_or_loop_parse_and_and_loop_parse_not_parse_primary_dom (Inr (Inl (pr, row, result, ts))) \<Longrightarrow> consumes (and_loop pr row result ts) (Suc (length ts))"
  "parse_or_or_loop_parse_and_and_loop_parse_not_parse_primary_dom (Inr (Inr (Inl (pr, row, ts)))) \<Longrightarrow> consumes (parse_not pr row ts) (length ts)"
  "parse_or_or_loop_parse_and_and_loop_parse_not_parse_primary_dom (Inr (Inr (Inr (pr, row, ts)))) \<Longrightarrow> consumes (parse_primary pr row ts) (length ts)"
proof (induction pr row ts and pr row result ts and pr row ts and pr row result ts and pr row ts and pr row ts
    rule: parse_or_or_loop_parse_and_and_loop_parse_not_parse_primary.pinduct)
  case (1 pr row ts)
  then show ?case by (fastforce simp: parse_or.psimps split: option.splits)
next
  case (2 pr row result ts)
  then show ?case by (fastforce simp: or_loop.psimps split: option.splits if_splits)
next
  case (3 pr row ts)
  then show ?case by (fastforce simp: parse_and.psimps split: option.splits)
next
  case (4 pr row result ts)
  then show ?case by (fastforce simp: and_loop.psimps split: option.splits if_splits)
next
  case (5 pr row ts)
  then show ?case by (cases ts) (fastforce simp: parse_not.psimps split: if_splits)+
next
  case (6 pr row ts)
  have "length (skip_rparen us) < n" if "length us < n" for us n
    using skip_rparen_length [of us] that by linarith
  with 6 show ?case
    by (cases ts) (fastforce simp: parse_primary.psimps split: if_splits dest: comparison_length)+
qed

termination parse_or
proof (relation "measure (\<lambda>x. case x of
     Inl (Inl (_, _, ts)) \<Rightarrow> 8 * length ts + 5
   | Inl (Inr (Inl (_, _, _, ts))) \<Rightarrow> 8 * length ts + 6
   | Inl (Inr (Inr (_, _, ts))) \<Rightarrow> 8 * length ts + 4
   | Inr (Inl (_, _, _, ts)) \<Rightarrow> 8 * length ts + 5
   | Inr (Inr (Inl (_, _, ts))) \<Rightarrow> 8 * length ts + 3
   | Inr (Inr (Inr (_, _, ts))) \<Rightarrow> 8 * length ts + 2)")
qed (auto simp: neq_Nil_conv dest!: parse_lengths)

declare parse_or.simps [simp del] or_loop.simps [simp del] parse_and.simps [simp del] and_loop.simps [simp del]
  parse_not.simps [simp del] parse_primary.simps [simp del]

section \<open>Evaluation and validation\<close>

definition evaluate_expression :: "printers \<Rightarrow> string \<Rightarrow> row \<Rightarrow> bool" where
  "evaluate_expression pr expr row =
     (if trim expr = [] then True
      else case tokenize_expr expr of
        None \<Rightarrow> False
      | Some tokens \<Rightarrow>
          (case parse_or pr row tokens of
             Some (v, []) \<Rightarrow> v
           | _ \<Rightarrow> False))"

definition validate_expression :: "printers \<Rightarrow> string \<Rightarrow> (unit, druid_error) res" where
  "validate_expression pr expr =
     (if trim expr = [] then Ok ()
      else case tokenize_expr expr of
        None \<Rightarrow> fail (Query (''malformed expression filter: `'' @ expr @ ''`''))
      | Some tokens \<Rightarrow>
          (case parse_or pr [] tokens of
             Some (_, []) \<Rightarrow> Ok ()
           | _ \<Rightarrow> fail (Query (''malformed or unsupported expression filter: `'' @ expr @ ''`''))))"

definition expression_column_refs :: "string \<Rightarrow> string list" where
  "expression_column_refs expr =
     (case tokenize_expr expr of
        None \<Rightarrow> []
      | Some tokens \<Rightarrow> List.map_filter
          (\<lambda>t. case t of Ident i \<Rightarrow> if i \<in> {''null'', ''true'', ''false''} then None else Some i | _ \<Rightarrow> None) tokens)"

end
