(* ===== verification/Query_Expr_Properties.thy ===== *)
theory Query_Expr_Properties
  imports Query_Expr
begin

text \<open>
  Properties of expression filters. The specification is a small logic: formulas over the columns
  of a row with their meaning, and the text a client writes for them. Validation decides once,
  without a row, whether evaluation will ever fall back to the value for malformed text.
\<close>

section \<open>Formulas and their text\<close>

datatype operand =
    Column string
  | Quoted string
  | Natural nat
  | Nothing
  | Truth bool

datatype formula =
    Holds operand
  | Compare operand string operand
  | Neg formula
  | Both formula formula
  | Either formula formula

fun operand_value :: "printers \<Rightarrow> row \<Rightarrow> operand \<Rightarrow> expr_value" where
  "operand_value pr row (Column s) = column_value pr row s"
| "operand_value pr row (Quoted s) = Str s"
| "operand_value pr row (Natural n) = Num (f64_of_int (int n))"
| "operand_value pr row Nothing = Null"
| "operand_value pr row (Truth b) = Bool b"

primrec meaning :: "printers \<Rightarrow> row \<Rightarrow> formula \<Rightarrow> bool" where
  "meaning pr row (Holds a) = value_is_truthy (operand_value pr row a)"
| "meaning pr row (Compare a op b) = compare_values pr (operand_value pr row a) op (operand_value pr row b)"
| "meaning pr row (Neg f) = (\<not> meaning pr row f)"
| "meaning pr row (Both f g) = (meaning pr row f \<and> meaning pr row g)"
| "meaning pr row (Either f g) = (meaning pr row f \<or> meaning pr row g)"

text \<open>Columns have the names of identifiers that are not literals, quoted texts contain no quote.\<close>

definition column_name :: "string \<Rightarrow> bool" where
  "column_name s \<longleftrightarrow> s \<noteq> [] \<and> list_all is_word s \<and> \<not> is_digit (hd s) \<and> s \<notin> {''null'', ''true'', ''false''}"

fun operand_ok :: "operand \<Rightarrow> bool" where
  "operand_ok (Column s) = column_name s"
| "operand_ok (Quoted s) = (quote \<notin> set s)"
| "operand_ok _ = True"

primrec formula_ok :: "formula \<Rightarrow> bool" where
  "formula_ok (Holds a) = operand_ok a"
| "formula_ok (Compare a op b) = (operand_ok a \<and> op \<in> set comparison_ops \<and> operand_ok b)"
| "formula_ok (Neg f) = formula_ok f"
| "formula_ok (Both f g) = (formula_ok f \<and> formula_ok g)"
| "formula_ok (Either f g) = (formula_ok f \<and> formula_ok g)"

fun show_operand :: "operand \<Rightarrow> string" where
  "show_operand (Column s) = s"
| "show_operand (Quoted s) = quote # s @ [quote]"
| "show_operand (Natural n) = show_nat n"
| "show_operand Nothing = ''null''"
| "show_operand (Truth b) = (if b then ''true'' else ''false'')"

primrec show_formula :: "formula \<Rightarrow> string" where
  "show_formula (Holds a) = show_operand a"
| "show_formula (Compare a op b) = show_operand a @ '' '' @ op @ '' '' @ show_operand b"
| "show_formula (Neg f) = ''!('' @ show_formula f @ '')''"
| "show_formula (Both f g) = ''('' @ show_formula f @ '') && ('' @ show_formula g @ '')''"
| "show_formula (Either f g) = ''('' @ show_formula f @ '') || ('' @ show_formula g @ '')''"

fun operand_token :: "operand \<Rightarrow> expr_token" where
  "operand_token (Column s) = Ident s"
| "operand_token (Quoted s) = StringLit s"
| "operand_token (Natural n) = Number (f64_of_int (int n))"
| "operand_token Nothing = Ident ''null''"
| "operand_token (Truth b) = Ident (if b then ''true'' else ''false'')"

primrec formula_tokens :: "formula \<Rightarrow> expr_token list" where
  "formula_tokens (Holds a) = [operand_token a]"
| "formula_tokens (Compare a op b) = [operand_token a, Op op, operand_token b]"
| "formula_tokens (Neg f) = [Op ''!'', LParen] @ formula_tokens f @ [RParen]"
| "formula_tokens (Both f g) = LParen # formula_tokens f @ [RParen, Op ''&&'', LParen] @ formula_tokens g @ [RParen]"
| "formula_tokens (Either f g) = LParen # formula_tokens f @ [RParen, Op ''||'', LParen] @ formula_tokens g @ [RParen]"

section \<open>The text of a formula is tokenized as intended\<close>

definition boundary :: "string \<Rightarrow> bool" where
  "boundary s \<longleftrightarrow> (case s of [] \<Rightarrow> True | c # _ \<Rightarrow> c \<in> {CHR '' '', CHR '')''})"

lemma takeWhile_append_all:
  assumes "list_all P xs" and "case ys of [] \<Rightarrow> True | y # _ \<Rightarrow> \<not> P y"
  shows "takeWhile P (xs @ ys) = xs" "dropWhile P (xs @ ys) = ys"
  using assms by (induction xs) (auto split: list.splits)

lemma boundary_stops:
  assumes "boundary s"
  shows "case s of [] \<Rightarrow> True | c # _ \<Rightarrow> \<not> is_word c" "case s of [] \<Rightarrow> True | c # _ \<Rightarrow> \<not> in_number c"
  using assms by (auto simp: boundary_def is_word_def in_number_def is_alphabetic_def is_digit_def less_eq_char_def
      split: list.splits)

lemma word_not_special:
  assumes "is_word c"
  shows "\<not> is_ascii_ws c" "c \<noteq> CHR ''(''" "c \<noteq> CHR '')''" "c \<noteq> quote" "[c, d] \<notin> set two_char_ops"
    "c \<notin> {CHR ''>'', CHR ''<'', CHR ''!''}" "c \<noteq> CHR ''-''"
  using assms by (auto simp: is_word_def is_ascii_ws_def is_alphabetic_def is_digit_def two_char_ops_def less_eq_char_def)

lemma tokenize_word:
  assumes "w \<noteq> []" and "list_all is_word w" and "\<not> is_digit (hd w)" and "boundary rest"
  shows "tokenize_expr (w @ rest) = map_option ((#) (Ident w)) (tokenize_expr rest)"
proof -
  from assms(1) obtain c cs where w: "w = c # cs" by (cases w) auto
  have c: "is_word c" "list_all is_word cs" "\<not> is_digit c" using assms w by auto
  note split = takeWhile_append_all [OF c(2) boundary_stops(1) [OF assms(4)]]
  have "\<not> starts_number (c # cs @ rest)" using c word_not_special [OF c(1)] by (simp add: starts_number_def)
  then show ?thesis
    using c split word_not_special [OF c(1)] by (simp add: w tokenize_expr.simps(2))
qed

lemma tokenize_nat:
  assumes "boundary rest"
  shows "tokenize_expr (show_nat n @ rest) = map_option ((#) (Number (f64_of_int (int n)))) (tokenize_expr rest)"
proof -
  obtain c cs where w: "show_nat n = c # cs" and c: "is_digit c" using show_nat_hd by blast
  have "list_all in_number cs" using show_nat_digits(1) [of n] w by (auto simp: in_number_def list_all_iff)
  note split = takeWhile_append_all [OF this boundary_stops(2) [OF assms]]
  have "is_word c" using c by (simp add: is_word_def)
  moreover have "starts_number (c # cs @ rest)" using c by (simp add: starts_number_def)
  moreover have "parse_f64 (c # cs) = Some (f64_of_int (int n))" using parse_f64_show_nat [of n] w by simp
  ultimately show ?thesis
    using split word_not_special [of c] by (simp add: w tokenize_expr.simps(2))
qed

lemma tokenize_quoted:
  assumes "quote \<notin> set s"
  shows "tokenize_expr (quote # s @ quote # rest) = map_option ((#) (StringLit s)) (tokenize_expr rest)"
proof -
  have "takeWhile (\<lambda>x. x \<noteq> quote) (s @ quote # rest) = s" "dropWhile (\<lambda>x. x \<noteq> quote) (s @ quote # rest) = quote # rest"
    using assms by (auto simp: takeWhile_tail intro: takeWhile_append_all(1) takeWhile_append_all(2) simp: list_all_iff)
  then show ?thesis by (simp add: tokenize_expr.simps(2) is_ascii_ws_def)
qed

lemma tokenize_operand:
  assumes "operand_ok a" and "boundary rest"
  shows "tokenize_expr (show_operand a @ rest) = map_option ((#) (operand_token a)) (tokenize_expr rest)"
proof (cases a)
  case (Column s)
  with assms show ?thesis by (simp add: column_name_def tokenize_word)
next
  case (Quoted s)
  with assms show ?thesis by (simp add: tokenize_quoted)
next
  case (Natural n)
  with assms show ?thesis by (simp add: tokenize_nat)
next
  case Nothing
  then show ?thesis using tokenize_word [of "''null''" rest] assms(2)
    by (simp add: is_word_def is_alphabetic_def is_digit_def less_eq_char_def)
next
  case (Truth b)
  then show ?thesis using tokenize_word [of "''true''" rest] tokenize_word [of "''false''" rest] assms(2)
    by (simp add: is_word_def is_alphabetic_def is_digit_def less_eq_char_def)
qed

lemma tokenize_punct:
  "tokenize_expr (CHR '' '' # rest) = tokenize_expr rest"
  "tokenize_expr (CHR ''('' # rest) = map_option ((#) LParen) (tokenize_expr rest)"
  "tokenize_expr (CHR '')'' # rest) = map_option ((#) RParen) (tokenize_expr rest)"
  "tokenize_expr (CHR ''&'' # CHR ''&'' # rest) = map_option ((#) (Op ''&&'')) (tokenize_expr rest)"
  "tokenize_expr (CHR ''|'' # CHR ''|'' # rest) = map_option ((#) (Op ''||'')) (tokenize_expr rest)"
  "tokenize_expr (CHR ''!'' # CHR ''('' # rest) = map_option ((#) (Op ''!'')) (tokenize_expr (CHR ''('' # rest))"
  by (simp_all add: tokenize_expr.simps(2) is_ascii_ws_def two_char_ops_def)

lemma tokenize_op:
  assumes "op \<in> set comparison_ops"
  shows "tokenize_expr (op @ CHR '' '' # rest) = map_option ((#) (Op op)) (tokenize_expr (CHR '' '' # rest))"
  using assms by (auto simp: comparison_ops_def tokenize_expr.simps(2) is_ascii_ws_def two_char_ops_def)

lemma boundary_simps [simp]: "boundary []" "boundary (CHR '' '' # s)" "boundary (CHR '')'' # s)"
  by (simp_all add: boundary_def)

lemma tokenize_formula:
  assumes "formula_ok f" and "boundary rest" and "tokenize_expr rest = Some us"
  shows "tokenize_expr (show_formula f @ rest) = Some (formula_tokens f @ us)"
  using assms
proof (induction f arbitrary: rest us)
  case (Compare a op b)
  then show ?case by (simp add: tokenize_operand tokenize_op tokenize_punct)
qed (simp_all add: tokenize_operand tokenize_punct)

section \<open>The tokens of a formula evaluate to its meaning\<close>

definition closed :: "expr_token list \<Rightarrow> bool" where
  "closed ts \<longleftrightarrow> (case ts of [] \<Rightarrow> True | t # _ \<Rightarrow> t = RParen)"

lemma closed_simps [simp]: "closed []" "closed (RParen # ts)"
  by (simp_all add: closed_def)

lemma resolve_operand:
  "operand_ok a \<Longrightarrow> resolve_value pr row (operand_token a # ts) = Some (operand_value pr row a, ts)"
  by (cases a) (auto simp: column_name_def)

lemma operand_token_cases: "\<not> (operand_token a = LParen)" "\<not> (operand_token a = Op s)"
  by (cases a; simp)+

lemma loops_closed:
  assumes "closed ts"
  shows "or_loop pr row b ts = Some (b, ts)" "and_loop pr row b ts = Some (b, ts)" "and_loop pr row b (Op ''||'' # us) = Some (b, Op ''||'' # us)"
  using assms by (auto simp: or_loop.simps and_loop.simps closed_def split: list.splits)

lemma comparison_operand:
  assumes "operand_ok a" and "closed ts"
  shows "comparison pr row (operand_token a # ts) = Some (value_is_truthy (operand_value pr row a), ts)"
  using assms by (auto simp: comparison_def resolve_operand closed_def split: list.splits)

lemma parse_formula:
  assumes "formula_ok f" and "closed ts"
  shows "parse_or pr row (formula_tokens f @ ts) = Some (meaning pr row f, ts)"
  using assms
proof (induction f arbitrary: ts)
  case (Holds a)
  then show ?case
    by (simp add: parse_or.simps parse_and.simps parse_not.simps parse_primary.simps operand_token_cases comparison_operand loops_closed)
next
  case (Compare a op b)
  then have "comparison pr row (operand_token a # Op op # operand_token b # ts) = Some (meaning pr row (Compare a op b), ts)"
    by (simp add: comparison_def resolve_operand)
  with Compare.prems show ?case
    by (simp add: parse_or.simps parse_and.simps parse_not.simps parse_primary.simps operand_token_cases loops_closed)
next
  case (Neg f)
  then have "parse_primary pr row (LParen # formula_tokens f @ RParen # ts) = Some (meaning pr row f, ts)"
    by (simp add: parse_primary.simps skip_rparen_def)
  with Neg.prems show ?case by (simp add: parse_or.simps parse_and.simps parse_not.simps loops_closed)
next
  case (Both f g)
  then have p: "parse_not pr row (LParen # formula_tokens f @ RParen # us) = Some (meaning pr row f, us)"
    "parse_not pr row (LParen # formula_tokens g @ RParen # us) = Some (meaning pr row g, us)" for us
    by (simp_all add: parse_not.simps parse_primary.simps skip_rparen_def)
  have "and_loop pr row b (Op ''&&'' # LParen # formula_tokens g @ RParen # ts) = Some (b \<and> meaning pr row g, ts)" for b
    using p(2) Both.prems loops_closed [of ts] by (simp add: and_loop.simps [of pr row b])
  with p(1) Both.prems show ?case by (simp add: parse_or.simps parse_and.simps loops_closed)
next
  case (Either f g)
  then have p: "parse_not pr row (LParen # formula_tokens f @ RParen # us) = Some (meaning pr row f, us)"
    "parse_not pr row (LParen # formula_tokens g @ RParen # us) = Some (meaning pr row g, us)" for us
    by (simp_all add: parse_not.simps parse_primary.simps skip_rparen_def)
  have "or_loop pr row b (Op ''||'' # LParen # formula_tokens g @ RParen # ts) = Some (b \<or> meaning pr row g, ts)" for b
    using p(2) Either.prems loops_closed [of ts] by (simp add: or_loop.simps [of pr row b] parse_and.simps)
  with p(1) Either.prems show ?case by (simp add: parse_or.simps parse_and.simps loops_closed [of ts])
qed

lemma list_all_dropWhile: "list_all P (dropWhile P s) \<longleftrightarrow> list_all P s"
  by (induction s) auto

lemma trim_Nil_iff: "trim s = [] \<longleftrightarrow> list_all is_ws s"
  using list_all_dropWhile [of is_ws s] by (simp add: trim_def list_all_iff dropWhile_eq_Nil_conv)

lemma show_operand_text: "operand_ok a \<Longrightarrow> \<exists>c \<in> set (show_operand a). \<not> is_ws c"
proof (cases a)
  case (Column s)
  moreover assume "operand_ok a"
  ultimately obtain c cs where "s = c # cs" "is_word c" by (cases s) (auto simp: column_name_def)
  moreover from this have "\<not> is_ws c"
    by (auto simp: is_word_def is_ws_def is_alphabetic_def is_digit_def less_eq_char_def)
  ultimately show ?thesis using Column by simp
next
  case (Natural n)
  then show ?thesis using show_nat_hd [of n] digit_not_ws by force
qed (auto simp: is_ws_def)

lemma show_formula_text: "formula_ok f \<Longrightarrow> trim (show_formula f) \<noteq> []"
  using show_operand_text by (cases f) (auto simp: trim_Nil_iff list_all_iff is_ws_def)


section \<open>What is consumed does not depend on the row\<close>

abbreviation same_rest :: "(bool \<times> expr_token list) option \<Rightarrow> (bool \<times> expr_token list) option \<Rightarrow> bool" where
  "same_rest r r' \<equiv> map_option snd r = map_option snd r'"

lemma resolve_same_rest: "map_option snd (resolve_value pr row ts) = map_option snd (resolve_value pr' row' ts)"
  by (induction pr row ts rule: resolve_value.induct) auto

lemma same_restE:
  assumes "map_option snd (r :: ('a \<times> 'b) option) = map_option snd (r' :: ('a \<times> 'b) option)"
  obtains "r = None" "r' = None" | b b' ts where "r = Some (b, ts)" "r' = Some (b', ts)"
  using assms by (cases r; cases r') auto

lemma comparison_same_rest: "same_rest (comparison pr row ts) (comparison pr' row' ts)"
proof (rule same_restE [OF resolve_same_rest [of pr row ts pr' row']])
  fix b b' us assume u: "resolve_value pr row ts = Some (b, us)" "resolve_value pr' row' ts = Some (b', us)"
  show ?thesis
  proof (rule same_restE [OF resolve_same_rest [of pr row "tl us" pr' row']])
  qed (auto simp: comparison_def u split: list.splits expr_token.splits)
qed (simp add: comparison_def)

lemma parse_same_rest:
  "same_rest (parse_or pr row ts) (parse_or pr' row' ts)"
  "same_rest (or_loop pr row result ts) (or_loop pr' row' result' ts)"
  "same_rest (parse_and pr row ts) (parse_and pr' row' ts)"
  "same_rest (and_loop pr row result ts) (and_loop pr' row' result' ts)"
  "same_rest (parse_not pr row ts) (parse_not pr' row' ts)"
  "same_rest (parse_primary pr row ts) (parse_primary pr' row' ts)"
proof (induction pr row ts and pr row result ts and pr row ts and pr row result ts and pr row ts and pr row ts
    arbitrary: and result' and and result' and and
    rule: parse_or_or_loop_parse_and_and_loop_parse_not_parse_primary.induct)
  case (1 pr row ts)
  show ?case by (rule same_restE [OF 1(1)]) (auto simp: parse_or.simps [of _ _ ts] 1(2))
next
  case (2 pr row result ts)
  show ?case
  proof (cases "ts \<noteq> [] \<and> hd ts = Op ''||''")
    case True
    show ?thesis by (rule same_restE [OF 2(1) [OF True]]) (use True in \<open>auto simp: or_loop.simps [of _ _ _ ts] 2(2)\<close>)
  qed (auto simp: or_loop.simps [of _ _ _ ts])
next
  case (3 pr row ts)
  show ?case by (rule same_restE [OF 3(1)]) (auto simp: parse_and.simps [of _ _ ts] 3(2))
next
  case (4 pr row result ts)
  show ?case
  proof (cases "ts \<noteq> [] \<and> hd ts = Op ''&&''")
    case True
    show ?thesis by (rule same_restE [OF 4(1) [OF True]]) (use True in \<open>auto simp: and_loop.simps [of _ _ _ ts] 4(2)\<close>)
  qed (auto simp: and_loop.simps [of _ _ _ ts])
next
  case (5 pr row ts)
  show ?case
  proof (cases "ts \<noteq> [] \<and> hd ts = Op ''!''")
    case True
    show ?thesis by (rule same_restE [OF 5(1) [OF True]]) (use True in \<open>auto simp: parse_not.simps [of _ _ ts]\<close>)
  next
    case False
    then show ?thesis using 5(2) by (auto simp: parse_not.simps [of _ _ ts])
  qed
next
  case (6 pr row ts)
  show ?case
  proof (cases "ts \<noteq> [] \<and> hd ts = LParen")
    case True
    show ?thesis by (rule same_restE [OF 6(1) [OF True]]) (use True in \<open>auto simp: parse_primary.simps [of _ _ ts]\<close>)
  next
    case False
    then show ?thesis using comparison_same_rest by (auto simp: parse_primary.simps [of _ _ ts])
  qed
qed

section \<open>Properties\<close>

lemma evaluate_shown:
  assumes "formula_ok f"
  shows "evaluate_expression pr (show_formula f) row = meaning pr row f"
proof -
  have "tokenize_expr (show_formula f) = Some (formula_tokens f)"
    using tokenize_formula [of f "[]" "[]"] assms by simp
  moreover have "parse_or pr row (formula_tokens f) = Some (meaning pr row f, [])"
    using parse_formula [of f "[]"] assms by simp
  ultimately show ?thesis using show_formula_text [OF assms] by (simp add: evaluate_expression_def)
qed

definition no_printers :: printers where
  "no_printers = \<lparr>f64_display = (\<lambda>_. []), number_display = (\<lambda>_. []), json_display = (\<lambda>_. [])\<rparr>"

definition order_row :: row where
  "order_row = [(''qty'', JNumber (PosInt 24)), (''mode'', JString ''AIR''), (''rate'', JString ''Inf'')]"

definition order_formula :: formula where
  "order_formula = Both (Compare (Column ''qty'') ''<'' (Natural 25))
     (Either (Compare (Column ''mode'') ''=='' (Quoted ''AIR'')) (Neg (Compare (Column ''note'') ''!='' Nothing)))"

text \<open>C17: The text of a formula of the expression language (columns, quoted texts, numbers, \<open>null\<close>, the
  six comparisons, \<open>!\<close>, \<open>&&\<close>, \<open>||\<close>) evaluates on a row to the formula's meaning there.\<close>

theorem expression_meaning:
  assumes "formula_ok f"
  shows "evaluate_expression pr (show_formula f) row = meaning pr row f"
  using assms by (rule evaluate_shown)

theorem expression_meaning_witness:
  "formula_ok order_formula \<and> evaluate_expression no_printers (show_formula order_formula) order_row"
proof -
  have ok: "formula_ok order_formula"
    by (simp add: order_formula_def comparison_ops_def column_name_def is_word_def is_alphabetic_def is_digit_def
        less_eq_char_def)
  have "meaning no_printers order_row order_formula"
    by (simp add: order_formula_def order_row_def column_value_def hm_get_def compare_values_def f64_of_int_exact f64_lt_def
        f64_le_def is_finite_def parse_f64_def parse_number_def to_lowercase_def is_digit_def less_eq_char_def)
  with ok show ?thesis using expression_meaning [OF ok, of no_printers order_row] by blast
qed

text \<open>C28: Validation is exact and independent of the data: a text is accepted exactly when it is blank
  or its tokens parse to the end on every row, so an accepted filter never takes the branch that
  rejects rows because the text is malformed.\<close>

theorem validated_parses_on_every_row:
  "validate_expression pr e = Ok () \<longleftrightarrow>
     trim e = [] \<or> (\<exists>tokens. tokenize_expr e = Some tokens \<and> (\<forall>pr' row. \<exists>v. parse_or pr' row tokens = Some (v, [])))"
proof -
  have "parse_or pr [] tokens = Some (v, []) \<Longrightarrow> \<exists>v. parse_or pr' row tokens = Some (v, [])" for tokens v pr' row
    using same_restE [OF parse_same_rest(1) [of pr "[]" tokens pr' row]] by fastforce
  then show ?thesis
    by (auto simp: validate_expression_def split: option.splits list.splits)
      (rule exI [of _ pr], rule exI [of _ "[]"], simp)+
qed

text \<open>A text that reads as an infinity or as not-a-number is neither equal nor unequal to itself: the
  filters \<open>col == 'inf'\<close> and \<open>col != 'inf'\<close> both reject the rows whose column holds that very text.\<close>

theorem number_like_text_unequal:
  assumes "column_name c" and "quote \<notin> set s" and "parse_f64 s \<in> {Some NaN, Some PosInf, Some NegInf}"
    and "hm_get row c = Some (JString s)"
  shows "\<not> evaluate_expression pr (show_formula (Compare (Column c) ''=='' (Quoted s))) row \<and>
    \<not> evaluate_expression pr (show_formula (Compare (Column c) ''!='' (Quoted s))) row"
proof -
  obtain x where x: "parse_f64 s = Some x" "x \<in> {NaN, PosInf, NegInf}" using assms(3) by auto
  have "f64_abs (f64_sub x x) = NaN" using x(2) by (auto simp: f64_sub_def f64_add_def float_add_def)
  with x assms(4) have "\<not> meaning pr row (Compare (Column c) ''=='' (Quoted s))"
    "\<not> meaning pr row (Compare (Column c) ''!='' (Quoted s))"
    by (auto simp: column_value_def compare_values_def f64_lt_def f64_le_def)
  with assms(1,2) show ?thesis by (simp add: evaluate_shown comparison_ops_def del: show_formula.simps)
qed

theorem number_like_text_unequal_witness:
  "parse_f64 ''Inf'' = Some PosInf \<and>
   \<not> evaluate_expression no_printers (show_formula (Compare (Column ''rate'') ''=='' (Quoted ''Inf''))) order_row"
proof -
  have "column_name ''rate''" "quote \<notin> set ''Inf''"
    by (simp_all add: column_name_def is_word_def is_alphabetic_def is_digit_def less_eq_char_def)
  moreover have p: "parse_f64 ''Inf'' = Some PosInf" by code_simp
  moreover have "hm_get order_row ''rate'' = Some (JString ''Inf'')" by (simp add: order_row_def hm_get_def)
  ultimately show ?thesis using number_like_text_unequal [of "''rate''" "''Inf''" order_row no_printers] by simp
qed

text \<open>A minus sign in front of a column is skipped as an unknown character: \<open>a > -b\<close> is accepted
  and means \<open>a > b\<close>.\<close>

theorem minus_sign_skipped:
  assumes "column_name a" and "column_name b" and "op \<in> set comparison_ops"
  shows "evaluate_expression pr (a @ '' '' @ op @ '' -'' @ b) row =
     compare_values pr (column_value pr row a) op (column_value pr row b)"
proof -
  from assms(2) obtain c cs where b: "b = c # cs" and c: "\<not> is_digit c" "is_word c" by (cases b) (auto simp: column_name_def)
  have "c \<noteq> CHR ''=''" "c \<noteq> CHR ''&''" using c(2) by (auto simp: is_word_def is_alphabetic_def is_digit_def less_eq_char_def)
  then have "tokenize_expr (CHR ''-'' # b) = tokenize_expr b"
    using c(1) by (simp add: b tokenize_expr.simps(2) [of "CHR ''-''"] is_ascii_ws_def two_char_ops_def starts_number_def is_word_def
        is_alphabetic_def less_eq_char_def)
  then have "tokenize_expr (a @ '' '' @ op @ '' -'' @ b) = tokenize_expr (show_formula (Compare (Column a) op (Column b)))"
    using tokenize_operand [of "Column a"] assms by (simp add: tokenize_op tokenize_punct)
  moreover have "trim (a @ '' '' @ op @ '' -'' @ b) \<noteq> []" by (simp add: trim_Nil_iff is_ws_def)
  ultimately show ?thesis
    using evaluate_shown [of "Compare (Column a) op (Column b)" pr row] show_formula_text [of "Compare (Column a) op (Column b)"] assms
    by (simp add: evaluate_expression_def)
qed

theorem minus_sign_skipped_witness:
  "evaluate_expression no_printers ''qty > -qty'' order_row = False"
proof -
  have "column_name ''qty''" by (simp add: column_name_def is_word_def is_alphabetic_def is_digit_def less_eq_char_def)
  then have "evaluate_expression no_printers (''qty'' @ '' '' @ ''>'' @ '' -'' @ ''qty'') order_row =
      compare_values no_printers (column_value no_printers order_row ''qty'') ''>'' (column_value no_printers order_row ''qty'')"
    by (intro minus_sign_skipped) (simp_all add: comparison_ops_def)
  moreover have "\<not> compare_values no_printers (column_value no_printers order_row ''qty'') ''>'' (column_value no_printers order_row ''qty'')"
    by (simp add: order_row_def column_value_def hm_get_def compare_values_def f64_of_int_exact f64_lt_def f64_le_def is_finite_def)
  ultimately show ?thesis by simp
qed

end
