(* ===== verification/Query_Filter.thy ===== *)
theory Query_Filter
  imports Query_Expr
begin

text \<open>
  Filters of native queries (ferrodruid-query/src/filter.rs): the tree, its evaluation on a row, its
  evaluation on typed columns, and its compilation against a segment. The code outside the
  repository (regular expressions, date parsing, printing of floats) and the bloom filter decoder
  are the record \<open>query_lib\<close>; \<open>legacy\<close> is the process-wide null mode.
\<close>

record query_lib =
  prn :: printers
  regex_new :: "string \<Rightarrow> (string \<Rightarrow> bool) option"
  regex_escape :: "string \<Rightarrow> string"
  decode_bloom_filter :: "string \<Rightarrow> string + (string \<Rightarrow> bool)"
  rfc3339_millis :: "string \<Rightarrow> int option"
  datetime_millis :: "string \<Rightarrow> int option"
  date_millis :: "string \<Rightarrow> int option"

section \<open>The filter tree\<close>

datatype search_query =
    Contains string
  | InsensitiveContains string
  | Fragment "string list" bool
  | SearchRegex string

datatype filter_spec =
    Selector string "json option"
  | In string "json list"
  | Bound string "string option" "string option" "bool option" "bool option" "string option"
  | Range string string "json option" "json option" "bool option" "bool option"
  | Like string string "string option"
  | Regex string string
  | Search string search_query
  | And "filter_spec list"
  | Or "filter_spec list"
  | Not filter_spec
  | Interval string "string list"
  | Expression string
  | ColumnComparison "string list"
  | TrueF
  | FalseF
  | NullF string
  | BloomFilter string string
  | MvFilterOnly string "json list"
  | MvFilterNone string "json list"

section \<open>Values\<close>

definition unwrap_or_false :: "bool option \<Rightarrow> bool" where
  "unwrap_or_false b = (b = Some True)"

definition number_text :: "query_lib \<Rightarrow> json_number \<Rightarrow> string" where
  "number_text L n =
     (case n of
        PosInt k \<Rightarrow> show_nat (unat k)
      | NegInt k \<Rightarrow> CHR ''-'' # show_nat (nat (- k))
      | Float x \<Rightarrow> number_display (prn L) x)"

definition value_to_string :: "query_lib \<Rightarrow> json \<Rightarrow> string" where
  "value_to_string L v =
     (case v of
        JString s \<Rightarrow> s
      | JNumber n \<Rightarrow> number_text L n
      | JBool b \<Rightarrow> (if b then ''true'' else ''false'')
      | JNull \<Rightarrow> []
      | _ \<Rightarrow> json_display (prn L) v)"

definition value_to_f64 :: "json \<Rightarrow> f64 option" where
  "value_to_f64 v =
     (case v of JNumber n \<Rightarrow> Some (number_as_f64 n) | JString s \<Rightarrow> parse_f64 s | _ \<Rightarrow> None)"

text \<open>\<open>fract() == 0.0\<close>, in range, and the same integer.\<close>

definition f64_equals_int :: "int \<Rightarrow> int \<Rightarrow> f64 \<Rightarrow> int \<Rightarrow> bool" where
  "f64_equals_int lo hi f n \<longleftrightarrow> is_finite f \<and> of_int (floor (f64_val f)) = f64_val f \<and> of_int lo \<le> f64_val f \<and> f64_val f < of_int hi \<and> floor (f64_val f) = n"

definition f64_equals_i64 :: "f64 \<Rightarrow> int \<Rightarrow> bool" where
  "f64_equals_i64 = f64_equals_int (- (2 ^ 63)) (2 ^ 63)"

definition f64_equals_u64 :: "f64 \<Rightarrow> u64 \<Rightarrow> bool" where
  "f64_equals_u64 f u = f64_equals_int 0 (2 ^ 64) f (uint u)"

definition number_is_f64 :: "json_number \<Rightarrow> bool" where
  "number_is_f64 n = (case n of Float _ \<Rightarrow> True | _ \<Rightarrow> False)"

definition legacy_numbers_equal :: "json_number \<Rightarrow> json_number \<Rightarrow> bool" where
  "legacy_numbers_equal a b =
     (case (number_as_i64 a, number_as_i64 b) of
        (Some x, Some y) \<Rightarrow> x = y
      | _ \<Rightarrow>
     (case (number_as_u64 a, number_as_u64 b) of
        (Some x, Some y) \<Rightarrow> x = y
      | _ \<Rightarrow>
        if \<not> number_is_f64 a \<and> \<not> number_is_f64 b then False
        else if number_is_f64 a \<and> number_is_f64 b then f64_eq (number_as_f64 a) (number_as_f64 b)
        else
          let (int_side, float_side) = (if number_is_f64 a then (b, a) else (a, b));
              f = number_as_f64 float_side
          in case number_as_i64 int_side of
               Some i \<Rightarrow> f64_equals_i64 f i
             | None \<Rightarrow> (case number_as_u64 int_side of Some u \<Rightarrow> f64_equals_u64 f u | None \<Rightarrow> False)))"

definition legacy_number_equals_literal :: "json_number \<Rightarrow> string \<Rightarrow> bool" where
  "legacy_number_equals_literal n literal =
     (case parse_i64 literal of
        Some i \<Rightarrow> legacy_numbers_equal n (number_from_i64 i)
      | None \<Rightarrow>
     (case parse_unsigned 64 literal of
        Some u \<Rightarrow> legacy_numbers_equal n (PosInt (of_nat u))
      | None \<Rightarrow>
     (case parse_f64 literal of
        Some f \<Rightarrow> (case number_from_f64 f of Some x \<Rightarrow> legacy_numbers_equal n x | None \<Rightarrow> False)
      | None \<Rightarrow> False)))"

definition values_equal :: "query_lib \<Rightarrow> bool \<Rightarrow> json \<Rightarrow> json \<Rightarrow> bool" where
  "values_equal L legacy a b =
     (if json_eq a b then True
      else case (legacy, a, b) of
        (True, JNumber na, JNumber nb) \<Rightarrow> legacy_numbers_equal na nb
      | _ \<Rightarrow> value_to_string L a = value_to_string L b)"

definition row_value_equals :: "query_lib \<Rightarrow> bool \<Rightarrow> json \<Rightarrow> json \<Rightarrow> bool" where
  "row_value_equals L legacy rv fv =
     (case rv of
        JArray elems \<Rightarrow> list_ex (\<lambda>e. if json_is_null e then json_is_null fv else values_equal L legacy e fv) elems
      | _ \<Rightarrow> values_equal L legacy rv fv)"

definition row_value_strings :: "query_lib \<Rightarrow> json option \<Rightarrow> string list" where
  "row_value_strings L rv =
     (case rv of
        None \<Rightarrow> []
      | Some JNull \<Rightarrow> []
      | Some (JArray elems) \<Rightarrow> map (value_to_string L) (filter (\<lambda>e. \<not> json_is_null e) elems)
      | Some v \<Rightarrow> [value_to_string L v])"

section \<open>Text predicates\<close>

fun like_loop :: "query_lib \<Rightarrow> char option \<Rightarrow> string \<Rightarrow> string" where
  "like_loop L esc [] = []"
| "like_loop L esc [c] =
     (if Some c = esc then []
      else if c = CHR ''%'' then ''.*''
      else if c = CHR ''_'' then ''.''
      else regex_escape L [c])"
| "like_loop L esc (c # d # cs) =
     (if Some c = esc then regex_escape L [d] @ like_loop L esc cs
      else if c = CHR ''%'' then ''.*'' @ like_loop L esc (d # cs)
      else if c = CHR ''_'' then ''.'' @ like_loop L esc (d # cs)
      else regex_escape L [c] @ like_loop L esc (d # cs))"

definition like_to_regex :: "query_lib \<Rightarrow> string \<Rightarrow> string option \<Rightarrow> string" where
  "like_to_regex L pattern escape =
     (let esc = (case escape of Some (c # _) \<Rightarrow> Some c | _ \<Rightarrow> None)
      in ''^'' @ like_loop L esc pattern @ ''$'')"

definition str_contains :: "string \<Rightarrow> string \<Rightarrow> bool" where
  "str_contains hay needle \<longleftrightarrow> list_ex (\<lambda>k. take (length needle) (drop k hay) = needle) [0..<Suc (length hay)]"

definition regex_matches :: "query_lib \<Rightarrow> string \<Rightarrow> string list \<Rightarrow> bool" where
  "regex_matches L pattern candidates =
     (case regex_new L pattern of None \<Rightarrow> False | Some re \<Rightarrow> list_ex re candidates)"

definition search_query_matches :: "query_lib \<Rightarrow> search_query \<Rightarrow> string \<Rightarrow> bool" where
  "search_query_matches L query val =
     (case query of
        Contains value \<Rightarrow> str_contains val value
      | InsensitiveContains value \<Rightarrow> str_contains (to_lowercase val) (to_lowercase value)
      | Fragment values case_sensitive \<Rightarrow>
          if case_sensitive then list_all (str_contains val) values
          else list_all (\<lambda>frag. str_contains (to_lowercase val) (to_lowercase frag)) values
      | SearchRegex pattern \<Rightarrow> regex_matches L pattern [val])"

section \<open>Time\<close>

definition or_else :: "'a option \<Rightarrow> 'a option \<Rightarrow> 'a option" where
  "or_else a b = (case a of None \<Rightarrow> b | Some x \<Rightarrow> Some x)"

definition parse_iso_millis :: "query_lib \<Rightarrow> string \<Rightarrow> int option" where
  "parse_iso_millis L s =
     or_else (or_else (or_else (rfc3339_millis L s) (datetime_millis L s))
               (rfc3339_millis L (if s \<noteq> [] \<and> last s = CHR ''Z'' then s else s @ ''Z'')))
             (date_millis L s)"

definition interval_contains :: "query_lib \<Rightarrow> string \<Rightarrow> int \<Rightarrow> bool" where
  "interval_contains L interval_str ts =
     (case split_first CHR ''/'' interval_str of
        None \<Rightarrow> False
      | Some (a, b) \<Rightarrow>
          (case (parse_iso_millis L (trim a), parse_iso_millis L (trim b)) of
             (Some s, Some e) \<Rightarrow> s \<le> ts \<and> ts < e
           | _ \<Rightarrow> False))"

fun parse_intervals :: "query_lib \<Rightarrow> string list \<Rightarrow> ((int \<times> int) list, druid_error) res" where
  "parse_intervals L [] = Ok []"
| "parse_intervals L (s # ss) =
     (case split_first CHR ''/'' s of
        Some (a, b) \<Rightarrow>
          (case (parse_iso_millis L a, parse_iso_millis L b) of
             (Some x, Some y) \<Rightarrow> bind (parse_intervals L ss) (\<lambda>out. Ok ((x, y) # out))
           | _ \<Rightarrow> fail (Query (''invalid interval \"'' @ s @ ''\"; expected an ISO-8601 \"start/end\" pair'')))
      | None \<Rightarrow> fail (Query (''invalid interval \"'' @ s @ ''\"; expected an ISO-8601 \"start/end\" pair'')))"

section \<open>Evaluation on a row\<close>

definition null_in_list :: "bool \<Rightarrow> json list \<Rightarrow> bool" where
  "null_in_list legacy vs = list_ex (\<lambda>v. json_is_null v \<or> legacy \<and> json_as_str v = Some []) vs"

definition selector_matches :: "query_lib \<Rightarrow> bool \<Rightarrow> json option \<Rightarrow> json option \<Rightarrow> bool" where
  "selector_matches L legacy row_val value =
     (let value = (if legacy \<and> Option.bind value json_as_str = Some [] then None else value) in
      case (row_val, value) of
        (None, None) \<Rightarrow> True
      | (Some JNull, None) \<Rightarrow> True
      | (None, Some fv) \<Rightarrow> json_is_null fv
      | (Some JNull, Some fv) \<Rightarrow> json_is_null fv
      | (Some (JArray a), None) \<Rightarrow> a = [] \<or> legacy \<and> list_ex json_is_null a
      | (Some rv, None) \<Rightarrow> json_is_null rv
      | (Some rv, Some fv) \<Rightarrow> row_value_equals L legacy rv fv)"

definition in_matches :: "query_lib \<Rightarrow> bool \<Rightarrow> json option \<Rightarrow> json list \<Rightarrow> bool" where
  "in_matches L legacy row_val values =
     (case row_val of
        None \<Rightarrow> null_in_list legacy values
      | Some JNull \<Rightarrow> null_in_list legacy values
      | Some (JArray []) \<Rightarrow> null_in_list legacy values
      | Some rv \<Rightarrow>
          (legacy \<and> (case rv of JArray a \<Rightarrow> list_ex json_is_null a | _ \<Rightarrow> False) \<and> null_in_list legacy values)
          \<or> list_ex (row_value_equals L legacy rv) values)"

text \<open>A value below a lower bound, above an upper bound; the type of the values has the two orders.\<close>

definition below :: "('a \<Rightarrow> 'a \<Rightarrow> bool) \<Rightarrow> ('a \<Rightarrow> 'a \<Rightarrow> bool) \<Rightarrow> bool \<Rightarrow> 'a \<Rightarrow> 'a \<Rightarrow> bool" where
  "below le lt strict rv lo = (if strict then le rv lo else lt rv lo)"

definition above :: "('a \<Rightarrow> 'a \<Rightarrow> bool) \<Rightarrow> ('a \<Rightarrow> 'a \<Rightarrow> bool) \<Rightarrow> bool \<Rightarrow> 'a \<Rightarrow> 'a \<Rightarrow> bool" where
  "above le lt strict rv hi = (if strict then le hi rv else lt hi rv)"

text \<open>One candidate against two optional bounds; \<open>conv\<close> reads a bound and may fail.\<close>

definition within_bounds :: "('a \<Rightarrow> 'a \<Rightarrow> bool) \<Rightarrow> ('a \<Rightarrow> 'a \<Rightarrow> bool) \<Rightarrow> ('b \<Rightarrow> 'a option) \<Rightarrow> 'b option \<Rightarrow> bool \<Rightarrow> 'b option \<Rightarrow> bool \<Rightarrow> 'a \<Rightarrow> bool" where
  "within_bounds le lt conv lower ls upper us rv =
     ((case lower of None \<Rightarrow> True | Some lo \<Rightarrow> (case conv lo of None \<Rightarrow> False | Some l \<Rightarrow> \<not> below le lt ls rv l)) \<and>
      (case upper of None \<Rightarrow> True | Some hi \<Rightarrow> (case conv hi of None \<Rightarrow> False | Some h \<Rightarrow> \<not> above le lt us rv h)))"

definition bound_matches :: "string option \<Rightarrow> string option \<Rightarrow> bool option \<Rightarrow> bool option \<Rightarrow> string option \<Rightarrow> string \<Rightarrow> bool" where
  "bound_matches lower upper ls us ord s =
     (if ord = Some ''numeric'' then
        (case parse_f64 s of
           None \<Rightarrow> False
         | Some rv \<Rightarrow> within_bounds f64_le f64_lt parse_f64 lower (unwrap_or_false ls) upper (unwrap_or_false us) rv)
      else within_bounds (\<le>) (<) Some lower (unwrap_or_false ls) upper (unwrap_or_false us) s)"

definition range_matches :: "query_lib \<Rightarrow> string \<Rightarrow> json option \<Rightarrow> json option \<Rightarrow> bool option \<Rightarrow> bool option \<Rightarrow> json \<Rightarrow> bool" where
  "range_matches L mtype lower upper lo ho rv =
     (if mtype \<in> {''LONG'', ''DOUBLE'', ''FLOAT''} then
        (case value_to_f64 rv of
           None \<Rightarrow> False
         | Some x \<Rightarrow> within_bounds f64_le f64_lt value_to_f64 lower (unwrap_or_false lo) upper (unwrap_or_false ho) x)
      else within_bounds (\<le>) (<) (\<lambda>v. Some (value_to_string L v)) lower (unwrap_or_false lo) upper (unwrap_or_false ho) (value_to_string L rv))"

definition range_candidates :: "json option \<Rightarrow> json list" where
  "range_candidates row_val =
     (case row_val of
        None \<Rightarrow> []
      | Some JNull \<Rightarrow> []
      | Some (JArray elems) \<Rightarrow> filter (\<lambda>e. \<not> json_is_null e) elems
      | Some v \<Rightarrow> [v])"

definition mv_filter_matches :: "query_lib \<Rightarrow> bool \<Rightarrow> row \<Rightarrow> string \<Rightarrow> json list \<Rightarrow> bool \<Rightarrow> bool" where
  "mv_filter_matches L legacy row dimension values keep_listed =
     (let row_arr = (case hm_get row dimension of None \<Rightarrow> [] | Some JNull \<Rightarrow> [] | Some (JArray a) \<Rightarrow> a | Some v \<Rightarrow> [v]) in
      if row_arr = [] then \<not> keep_listed
      else
        let any_in_list = list_ex (\<lambda>rv. list_ex (values_equal L legacy rv) values) row_arr
        in if keep_listed then any_in_list else \<not> any_in_list)"

definition is_null_cell :: "row \<Rightarrow> string \<Rightarrow> bool" where
  "is_null_cell row col = (case hm_get row col of None \<Rightarrow> True | Some JNull \<Rightarrow> True | _ \<Rightarrow> False)"

definition columns_equal :: "query_lib \<Rightarrow> bool \<Rightarrow> row \<Rightarrow> string list \<Rightarrow> bool" where
  "columns_equal L legacy row dimensions =
     (case dimensions of
        [] \<Rightarrow> True
      | first # rest \<Rightarrow>
          list_all (\<lambda>col.
            if is_null_cell row first \<and> is_null_cell row col then True
            else if is_null_cell row first \<or> is_null_cell row col then False
            else values_equal L legacy (option_null (hm_get row first)) (option_null (hm_get row col))) rest)"

fun matches :: "query_lib \<Rightarrow> bool \<Rightarrow> filter_spec \<Rightarrow> row \<Rightarrow> bool" where
  "matches L legacy (Selector dimension value) row = selector_matches L legacy (hm_get row dimension) value"
| "matches L legacy (In dimension values) row = in_matches L legacy (hm_get row dimension) values"
| "matches L legacy (Bound dimension lower upper ls us ord) row =
     list_ex (bound_matches lower upper ls us ord) (row_value_strings L (hm_get row dimension))"
| "matches L legacy (Range column mtype lower upper lo ho) row =
     list_ex (range_matches L mtype lower upper lo ho) (range_candidates (hm_get row column))"
| "matches L legacy (Like dimension pattern escape) row =
     (let candidates = row_value_strings L (hm_get row dimension) in
      candidates \<noteq> [] \<and> regex_matches L (like_to_regex L pattern escape) candidates)"
| "matches L legacy (Regex dimension pattern) row =
     (let candidates = row_value_strings L (hm_get row dimension) in
      candidates \<noteq> [] \<and> regex_matches L pattern candidates)"
| "matches L legacy (Search dimension query) row =
     list_ex (search_query_matches L query) (row_value_strings L (hm_get row dimension))"
| "matches L legacy (And fs) row = list_all (\<lambda>f. matches L legacy f row) fs"
| "matches L legacy (Or fs) row = list_ex (\<lambda>f. matches L legacy f row) fs"
| "matches L legacy (Not field) row = (\<not> matches L legacy field row)"
| "matches L legacy (Interval dimension intervals) row =
     (case hm_get row dimension of
        Some (JNumber n) \<Rightarrow>
          (case number_as_i64 n of
             None \<Rightarrow> False
           | Some ts \<Rightarrow> list_ex (\<lambda>iv. interval_contains L iv ts) intervals)
      | _ \<Rightarrow> False)"
| "matches L legacy (Expression expression) row = evaluate_expression (prn L) expression row"
| "matches L legacy (ColumnComparison dimensions) row = columns_equal L legacy row dimensions"
| "matches L legacy TrueF row = True"
| "matches L legacy FalseF row = False"
| "matches L legacy (NullF column) row =
     (case hm_get row column of
        None \<Rightarrow> True
      | Some JNull \<Rightarrow> True
      | Some (JArray a) \<Rightarrow> legacy \<and> (a = [] \<or> list_ex json_is_null a)
      | _ \<Rightarrow> False)"
| "matches L legacy (BloomFilter dimension base64) row =
     (case decode_bloom_filter L base64 of
        Inl _ \<Rightarrow> False
      | Inr test \<Rightarrow> list_ex test (row_value_strings L (hm_get row dimension)))"
| "matches L legacy (MvFilterOnly dimension values) row = mv_filter_matches L legacy row dimension values True"
| "matches L legacy (MvFilterNone dimension values) row = mv_filter_matches L legacy row dimension values False"

section \<open>Validation\<close>

lemma mapM_cong [fundef_cong]: "xs = ys \<Longrightarrow> (\<And>x. x \<in> set ys \<Longrightarrow> f x = g x) \<Longrightarrow> mapM f xs = mapM g ys"
  by (induction xs arbitrary: ys) auto

fun validate :: "query_lib \<Rightarrow> filter_spec \<Rightarrow> (unit, druid_error) res" where
  "validate L (Expression expression) = validate_expression (prn L) expression"
| "validate L (And fs) = bind (mapM (validate L) fs) (\<lambda>_. Ok ())"
| "validate L (Or fs) = bind (mapM (validate L) fs) (\<lambda>_. Ok ())"
| "validate L (Not field) = validate L field"
| "validate L (BloomFilter _ base64) =
     (case decode_bloom_filter L base64 of
        Inr _ \<Rightarrow> Ok ()
      | Inl reason \<Rightarrow> fail (Query (''bloomFilter filter rejected: '' @ reason @
          ''; produce the base64 envelope from BLOOM_FILTER(expr, n)'')))"
| "validate L _ = Ok ()"

definition reject_mv_filter :: "string \<Rightarrow> string \<Rightarrow> (string \<Rightarrow> bool) \<Rightarrow> (unit, druid_error) res" where
  "reject_mv_filter filter_type name is_mv =
     (if is_mv name then
        fail (Query (filter_type @ '' filter over a multi-value dimension `'' @ name @
          ''` is not supported yet (element-wise MV support for this filter is a follow-on)''))
      else Ok ())"

fun ensure_mv_inner :: "(string \<Rightarrow> bool) \<Rightarrow> filter_spec \<Rightarrow> (unit, druid_error) res" where
  "ensure_mv_inner is_mv (And fs) = bind (mapM (ensure_mv_inner is_mv) fs) (\<lambda>_. Ok ())"
| "ensure_mv_inner is_mv (Or fs) = bind (mapM (ensure_mv_inner is_mv) fs) (\<lambda>_. Ok ())"
| "ensure_mv_inner is_mv (Not field) = ensure_mv_inner is_mv field"
| "ensure_mv_inner is_mv (Interval dimension _) = reject_mv_filter ''interval'' dimension is_mv"
| "ensure_mv_inner is_mv (ColumnComparison dimensions) =
     bind (mapM (\<lambda>col. reject_mv_filter ''columnComparison'' col is_mv) dimensions) (\<lambda>_. Ok ())"
| "ensure_mv_inner is_mv (Expression expression) =
     bind (mapM (\<lambda>col. reject_mv_filter ''expression'' col is_mv) (expression_column_refs expression)) (\<lambda>_. Ok ())"
| "ensure_mv_inner is_mv _ = Ok ()"

definition ensure_multi_value_supported :: "segment_data \<Rightarrow> string list \<Rightarrow> filter_spec \<Rightarrow> (unit, druid_error) res" where
  "ensure_multi_value_supported seg virtual_names f =
     ensure_mv_inner (\<lambda>name. name \<notin> set virtual_names \<and>
       (case hm_get (sd_columns seg) name of Some (StringMulti _) \<Rightarrow> True | _ \<Rightarrow> False)) f"

section \<open>Evaluation on typed columns\<close>

text \<open>The loops over the children: the first undecided or deciding child ends them.\<close>

fun typed_all :: "bool option list \<Rightarrow> bool option" where
  "typed_all [] = Some True"
| "typed_all (None # _) = None"
| "typed_all (Some ok # rs) = (if \<not> ok then Some False else typed_all rs)"

fun typed_any :: "bool option list \<Rightarrow> bool option" where
  "typed_any [] = Some False"
| "typed_any (None # _) = None"
| "typed_any (Some ok # rs) = (if ok then Some True else typed_any rs)"

definition typed_cell :: "column_data \<Rightarrow> nat \<Rightarrow> f64 option" where
  "typed_cell col i =
     (case col of
        Long v \<Rightarrow> map_option f64_of_int (get_at v i)
      | Double v \<Rightarrow> get_at v i
      | FloatCol v \<Rightarrow> get_at v i
      | _ \<Rightarrow> None)"

definition typed_upper :: "string option \<Rightarrow> bool option \<Rightarrow> f64 \<Rightarrow> bool option" where
  "typed_upper upper us rv =
     (case upper of
        None \<Rightarrow> Some True
      | Some hi \<Rightarrow>
          (case parse_f64 hi of
             None \<Rightarrow> None
           | Some h \<Rightarrow> Some (\<not> above f64_le f64_lt (unwrap_or_false us) rv h)))"

definition typed_bound :: "string option \<Rightarrow> string option \<Rightarrow> bool option \<Rightarrow> bool option \<Rightarrow> f64 \<Rightarrow> bool option" where
  "typed_bound lower upper ls us rv =
     (if is_nan rv then Some False
      else case lower of
        None \<Rightarrow> typed_upper upper us rv
      | Some lo \<Rightarrow>
          (case parse_f64 lo of
             None \<Rightarrow> None
           | Some l \<Rightarrow> if below f64_le f64_lt (unwrap_or_false ls) rv l then Some False else typed_upper upper us rv))"

fun matches_typed :: "bool \<Rightarrow> segment_data \<Rightarrow> nat \<Rightarrow> filter_spec \<Rightarrow> bool option" where
  "matches_typed legacy seg i (And fs) = (if legacy then None else typed_all (map (matches_typed legacy seg i) fs))"
| "matches_typed legacy seg i (Or fs) = (if legacy then None else typed_any (map (matches_typed legacy seg i) fs))"
| "matches_typed legacy seg i (Not field) = (if legacy then None else map_option HOL.Not (matches_typed legacy seg i field))"
| "matches_typed legacy seg i TrueF = (if legacy then None else Some True)"
| "matches_typed legacy seg i FalseF = (if legacy then None else Some False)"
| "matches_typed legacy seg i (Bound dimension lower upper ls us ord) =
     (if legacy \<or> ord \<noteq> Some ''numeric'' then None
      else case hm_get (sd_columns seg) dimension of
        None \<Rightarrow> None
      | Some col \<Rightarrow>
          (case typed_cell col i of
             None \<Rightarrow> None
           | Some rv \<Rightarrow> typed_bound lower upper ls us rv))"
| "matches_typed legacy seg i _ = None"

section \<open>Compilation\<close>

datatype num_col = LongSlice "int list" | DoubleSlice "f64 list" | FloatSlice "f64 list"

fun num_get :: "num_col \<Rightarrow> nat \<Rightarrow> f64 option" where
  "num_get (LongSlice v) i = map_option f64_of_int (get_at v i)"
| "num_get (DoubleSlice v) i = get_at v i"
| "num_get (FloatSlice v) i = get_at v i"

datatype compiled_filter =
    CAnd "compiled_filter list"
  | COr "compiled_filter list"
  | CNot compiled_filter
  | CConst bool
  | CBound num_col "f64 option" bool "f64 option" bool

definition num_slice :: "column_data \<Rightarrow> num_col option" where
  "num_slice col =
     (case col of Long v \<Rightarrow> Some (LongSlice v) | Double v \<Rightarrow> Some (DoubleSlice v) | FloatCol v \<Rightarrow> Some (FloatSlice v) | _ \<Rightarrow> None)"

text \<open>An optional text bound, parsed once: the outer option is the failure.\<close>

definition parse_bound :: "string option \<Rightarrow> f64 option option" where
  "parse_bound b = (case b of None \<Rightarrow> Some None | Some s \<Rightarrow> map_option Some (parse_f64 s))"

fun compile_typed :: "bool \<Rightarrow> segment_data \<Rightarrow> filter_spec \<Rightarrow> compiled_filter option" where
  "compile_typed legacy seg (And fs) =
     (if legacy then None else map_option CAnd (those (map (compile_typed legacy seg) fs)))"
| "compile_typed legacy seg (Or fs) =
     (if legacy then None else map_option COr (those (map (compile_typed legacy seg) fs)))"
| "compile_typed legacy seg (Not field) = (if legacy then None else map_option CNot (compile_typed legacy seg field))"
| "compile_typed legacy seg TrueF = (if legacy then None else Some (CConst True))"
| "compile_typed legacy seg FalseF = (if legacy then None else Some (CConst False))"
| "compile_typed legacy seg (Bound dimension lower upper ls us ord) =
     (if legacy \<or> ord \<noteq> Some ''numeric'' then None
      else case Option.bind (hm_get (sd_columns seg) dimension) num_slice of
        None \<Rightarrow> None
      | Some col \<Rightarrow>
          (case (parse_bound lower, parse_bound upper) of
             (Some lo, Some hi) \<Rightarrow> Some (CBound col lo (unwrap_or_false ls) hi (unwrap_or_false us))
           | _ \<Rightarrow> None))"
| "compile_typed legacy seg _ = None"

fun eval :: "compiled_filter \<Rightarrow> nat \<Rightarrow> bool" where
  "eval (CAnd fs) i = list_all (\<lambda>f. eval f i) fs"
| "eval (COr fs) i = list_ex (\<lambda>f. eval f i) fs"
| "eval (CNot f) i = (\<not> eval f i)"
| "eval (CConst b) i = b"
| "eval (CBound col lo ls hi us) i =
     (case num_get col i of
        None \<Rightarrow> False
      | Some rv \<Rightarrow>
          \<not> is_nan rv \<and>
          (case lo of None \<Rightarrow> True | Some l \<Rightarrow> \<not> below f64_le f64_lt ls rv l) \<and>
          (case hi of None \<Rightarrow> True | Some h \<Rightarrow> \<not> above f64_le f64_lt us rv h))"

definition compile_vectorized_filter :: "bool \<Rightarrow> filter_spec option \<Rightarrow> segment_data \<Rightarrow> compiled_filter option option" where
  "compile_vectorized_filter legacy f seg =
     (case f of None \<Rightarrow> Some None | Some g \<Rightarrow> map_option Some (compile_typed legacy seg g))"

end
