(* ===== verification/Int64.thy ===== *)
theory Int64
  imports Prelude
begin

text \<open>
  Signed 64-bit integers as mathematical integers: the range, wrapping and saturating addition.
\<close>

definition I64_MAX :: int where "I64_MAX = 2 ^ 63 - 1"
definition I64_MIN :: int where "I64_MIN = - (2 ^ 63)"

definition in_i64 :: "int \<Rightarrow> bool" where
  "in_i64 n \<longleftrightarrow> - (2 ^ 63) \<le> n \<and> n < 2 ^ 63"

definition wrap64 :: "int \<Rightarrow> int" where
  "wrap64 n = (n + 2 ^ 63) mod 2 ^ 64 - 2 ^ 63"

definition wrapping_add :: "int \<Rightarrow> int \<Rightarrow> int" where
  "wrapping_add a b = wrap64 (a + b)"

definition saturating_add :: "int \<Rightarrow> int \<Rightarrow> int" where
  "saturating_add a b = max I64_MIN (min I64_MAX (a + b))"

lemma wrap64_in: "in_i64 (wrap64 n)"
  by (simp add: in_i64_def wrap64_def)

lemma wrap64_id: "in_i64 n \<Longrightarrow> wrap64 n = n"
  by (simp add: in_i64_def wrap64_def)

lemma wrapping_add_in: "in_i64 (wrapping_add a b)"
  by (simp add: wrapping_add_def wrap64_in)

lemma wrapping_add_zero: "in_i64 n \<Longrightarrow> wrapping_add 0 n = n"
  by (simp add: wrapping_add_def wrap64_id)

lemma wrapping_add_assoc: "wrapping_add (wrapping_add a b) c = wrapping_add a (wrapping_add b c)"
proof -
  have "wrap64 (wrap64 x + y) = wrap64 (x + y)" for x y
    unfolding wrap64_def by (simp add: algebra_simps mod_simps)
  then show ?thesis unfolding wrapping_add_def by (metis add.assoc add.commute)
qed

lemma wrapping_add_exact: "in_i64 (a + b) \<Longrightarrow> wrapping_add a b = a + b"
  by (simp add: wrapping_add_def wrap64_id)

end
