(* ===== verification/Aggregators.thy ===== *)
theory Aggregators
  imports Columns Int64
begin

text \<open>
  The counting, summing and extremal aggregators (ferrodruid-aggregator/src/count.rs, sum.rs,
  minmax.rs): the state of one aggregator, feeding a value, reading the result, merging a partial
  result. A partial is merged through its JSON result, as the code does. Integers are of 64 bits
  and wrap around.
\<close>

section \<open>States\<close>

datatype aggregator =
    CountAggregator int
  | LongSumAggregator int bool
  | DoubleSumAggregator f64 bool
  | FloatSumAggregator f64 bool
  | LongMinAggregator int bool
  | LongMaxAggregator int bool
  | DoubleMinAggregator f64 bool
  | DoubleMaxAggregator f64 bool
  | FloatMinAggregator f64 bool
  | FloatMaxAggregator f64 bool

datatype aggregator_spec =
    CountSpec string
  | LongSumSpec string string
  | DoubleSumSpec string string
  | FloatSumSpec string string
  | LongMinSpec string string
  | LongMaxSpec string string
  | DoubleMinSpec string string
  | DoubleMaxSpec string string
  | FloatMinSpec string string
  | FloatMaxSpec string string

fun agg_name :: "aggregator_spec \<Rightarrow> string" where
  "agg_name (CountSpec n) = n"
| "agg_name (LongSumSpec n _) = n"
| "agg_name (DoubleSumSpec n _) = n"
| "agg_name (FloatSumSpec n _) = n"
| "agg_name (LongMinSpec n _) = n"
| "agg_name (LongMaxSpec n _) = n"
| "agg_name (DoubleMinSpec n _) = n"
| "agg_name (DoubleMaxSpec n _) = n"
| "agg_name (FloatMinSpec n _) = n"
| "agg_name (FloatMaxSpec n _) = n"

fun agg_field_name :: "aggregator_spec \<Rightarrow> string option" where
  "agg_field_name (CountSpec _) = None"
| "agg_field_name (LongSumSpec _ f) = Some f"
| "agg_field_name (DoubleSumSpec _ f) = Some f"
| "agg_field_name (FloatSumSpec _ f) = Some f"
| "agg_field_name (LongMinSpec _ f) = Some f"
| "agg_field_name (LongMaxSpec _ f) = Some f"
| "agg_field_name (DoubleMinSpec _ f) = Some f"
| "agg_field_name (DoubleMaxSpec _ f) = Some f"
| "agg_field_name (FloatMinSpec _ f) = Some f"
| "agg_field_name (FloatMaxSpec _ f) = Some f"

definition F64_MAX :: f64 where "F64_MAX = Fin (2 ^ 1024 - 2 ^ 971)"
definition F32_MAX :: f64 where "F32_MAX = Fin (2 ^ 128 - 2 ^ 104)"

fun create :: "aggregator_spec \<Rightarrow> aggregator" where
  "create (CountSpec _) = CountAggregator 0"
| "create (LongSumSpec _ _) = LongSumAggregator 0 False"
| "create (DoubleSumSpec _ _) = DoubleSumAggregator (Fin 0) False"
| "create (FloatSumSpec _ _) = FloatSumAggregator (Fin 0) False"
| "create (LongMinSpec _ _) = LongMinAggregator I64_MAX False"
| "create (LongMaxSpec _ _) = LongMaxAggregator I64_MIN False"
| "create (DoubleMinSpec _ _) = DoubleMinAggregator F64_MAX False"
| "create (DoubleMaxSpec _ _) = DoubleMaxAggregator (f64_neg F64_MAX) False"
| "create (FloatMinSpec _ _) = FloatMinAggregator F32_MAX False"
| "create (FloatMaxSpec _ _) = FloatMaxAggregator (f64_neg F32_MAX) False"

section \<open>Arithmetic\<close>

definition json_as_i64_lossy :: "json \<Rightarrow> int option" where
  "json_as_i64_lossy v =
     (case json_as_i64 v of
        Some i \<Rightarrow> Some i
      | None \<Rightarrow>
     (case json_as_u64 v of
        Some u \<Rightarrow> Some (wrap64 (uint u))
      | None \<Rightarrow>
     (case json_as_f64 v of
        None \<Rightarrow> None
      | Some f \<Rightarrow> if \<not> is_finite f then None else Some (trunc_i64 f))))"

definition i64_to_json :: "int \<Rightarrow> json" where
  "i64_to_json v = JNumber (number_from_i64 v)"

section \<open>Operations\<close>

text \<open>The count counts every row and adds the counts of its partials (\<open>count.rs\<close>).\<close>

definition count_aggregate :: "int \<Rightarrow> int" where
  "count_aggregate count = wrapping_add count 1"

definition count_get :: "int \<Rightarrow> json" where
  "count_get count = i64_to_json count"

definition count_merge :: "int \<Rightarrow> json \<Rightarrow> int" where
  "count_merge count v = (case json_as_i64 v of None \<Rightarrow> count | Some n \<Rightarrow> wrapping_add count n)"

lemmas count_defs [simp] = count_aggregate_def count_get_def count_merge_def

text \<open>One step of the minimum and maximum aggregators: the first value is always adopted.\<close>

definition extremum :: "('a \<Rightarrow> 'a \<Rightarrow> bool) \<Rightarrow> 'a \<Rightarrow> bool \<Rightarrow> 'a option \<Rightarrow> 'a \<times> bool" where
  "extremum cmp value seen v =
     (case v of
        None \<Rightarrow> (value, seen)
      | Some typed \<Rightarrow> (if \<not> seen \<or> cmp typed value then typed else value, True))"

text \<open>Feeding a JSON value, shared by \<open>aggregate\<close> and \<open>merge\<close> (a count treats the two differently).\<close>

definition as_f32 :: "json \<Rightarrow> f64 option" where
  "as_f32 v = map_option to_f32 (json_as_f64 v)"

fun feed :: "json option \<Rightarrow> aggregator \<Rightarrow> aggregator" where
  "feed v (CountAggregator count) = CountAggregator (count_aggregate count)"
| "feed v (LongSumAggregator acc seen) =
     (case Option.bind v json_as_i64_lossy of
        None \<Rightarrow> LongSumAggregator acc seen
      | Some x \<Rightarrow> LongSumAggregator (wrapping_add acc x) True)"
| "feed v (DoubleSumAggregator acc seen) =
     (case Option.bind v json_as_f64 of
        None \<Rightarrow> DoubleSumAggregator acc seen
      | Some x \<Rightarrow> DoubleSumAggregator (f64_add acc x) True)"
| "feed v (FloatSumAggregator acc seen) =
     (case Option.bind v as_f32 of
        None \<Rightarrow> FloatSumAggregator acc seen
      | Some x \<Rightarrow> FloatSumAggregator (f32_add acc x) True)"
| "feed v (LongMinAggregator value seen) =
     (let (x, s) = extremum (<) value seen (Option.bind v json_as_i64) in LongMinAggregator x s)"
| "feed v (LongMaxAggregator value seen) =
     (let (x, s) = extremum (>) value seen (Option.bind v json_as_i64) in LongMaxAggregator x s)"
| "feed v (DoubleMinAggregator value seen) =
     (let (x, s) = extremum f64_lt value seen (Option.bind v json_as_f64) in DoubleMinAggregator x s)"
| "feed v (DoubleMaxAggregator value seen) =
     (let (x, s) = extremum (\<lambda>a b. f64_lt b a) value seen (Option.bind v json_as_f64) in DoubleMaxAggregator x s)"
| "feed v (FloatMinAggregator value seen) =
     (let (x, s) = extremum f64_lt value seen (Option.bind v as_f32) in FloatMinAggregator x s)"
| "feed v (FloatMaxAggregator value seen) =
     (let (x, s) = extremum (\<lambda>a b. f64_lt b a) value seen (Option.bind v as_f32) in FloatMaxAggregator x s)"

definition aggregate :: "json option \<Rightarrow> aggregator \<Rightarrow> aggregator" where
  "aggregate v agg = feed v agg"

definition seen_or :: "bool \<Rightarrow> json \<Rightarrow> bool \<Rightarrow> json \<Rightarrow> json" where
  "seen_or legacy legacy_empty seen v = (if \<not> seen then (if legacy then legacy_empty else JNull) else v)"

text \<open>The result of a minimum or maximum (\<open>minmax.rs\<close>): legacy mode shows the sentinel of an empty one.\<close>

definition extremum_get :: "bool \<Rightarrow> json \<Rightarrow> bool \<Rightarrow> json \<Rightarrow> json" where
  [simp]: "extremum_get legacy legacy_empty seen v = seen_or legacy legacy_empty seen v"

text \<open>The methods of the trait \<open>Aggregator\<close>, dispatched on the aggregator.\<close>

fun get :: "bool \<Rightarrow> aggregator \<Rightarrow> json" where
  "get legacy (CountAggregator count) = count_get count"
| "get legacy (LongSumAggregator acc seen) = seen_or legacy (i64_to_json 0) seen (i64_to_json acc)"
| "get legacy (DoubleSumAggregator acc seen) = seen_or legacy (json_from_f64 (Fin 0)) seen (json_from_f64 acc)"
| "get legacy (FloatSumAggregator acc seen) = seen_or legacy (json_from_f64 (Fin 0)) seen (json_from_f64 acc)"
| "get legacy (LongMinAggregator value seen) = extremum_get legacy (i64_to_json I64_MAX) seen (i64_to_json value)"
| "get legacy (LongMaxAggregator value seen) = extremum_get legacy (i64_to_json I64_MIN) seen (i64_to_json value)"
| "get legacy (DoubleMinAggregator value seen) = extremum_get legacy (JString ''Infinity'') seen (json_from_f64 value)"
| "get legacy (DoubleMaxAggregator value seen) = extremum_get legacy (JString ''-Infinity'') seen (json_from_f64 value)"
| "get legacy (FloatMinAggregator value seen) = extremum_get legacy (JString ''Infinity'') seen (json_from_f64 value)"
| "get legacy (FloatMaxAggregator value seen) = extremum_get legacy (JString ''-Infinity'') seen (json_from_f64 value)"

fun merge :: "bool \<Rightarrow> aggregator \<Rightarrow> aggregator \<Rightarrow> aggregator" where
  "merge legacy (CountAggregator count) other = CountAggregator (count_merge count (get legacy other))"
| "merge legacy self other = feed (Some (get legacy other)) self"

fun reset :: "aggregator \<Rightarrow> aggregator" where
  "reset (CountAggregator _) = CountAggregator 0"
| "reset (LongSumAggregator _ _) = LongSumAggregator 0 False"
| "reset (DoubleSumAggregator _ _) = DoubleSumAggregator (Fin 0) False"
| "reset (FloatSumAggregator _ _) = FloatSumAggregator (Fin 0) False"
| "reset (LongMinAggregator _ _) = LongMinAggregator I64_MAX False"
| "reset (LongMaxAggregator _ _) = LongMaxAggregator I64_MIN False"
| "reset (DoubleMinAggregator _ _) = DoubleMinAggregator F64_MAX False"
| "reset (DoubleMaxAggregator _ _) = DoubleMaxAggregator (f64_neg F64_MAX) False"
| "reset (FloatMinAggregator _ _) = FloatMinAggregator F32_MAX False"
| "reset (FloatMaxAggregator _ _) = FloatMaxAggregator (f64_neg F32_MAX) False"

section \<open>Partial results\<close>

text \<open>
  The contract of an aggregator whose partial results can be merged in any grouping: merging an
  empty partial changes nothing, and feeding a value before or after a merge is the same.
\<close>

locale mergeable =
  fixes empty :: "'k \<Rightarrow> 's" and step :: "'k \<Rightarrow> 'v \<Rightarrow> 's \<Rightarrow> 's" and join :: "'s \<Rightarrow> 's \<Rightarrow> 's"
    and valid :: "'k \<Rightarrow> bool" and state_of :: "'k \<Rightarrow> 's \<Rightarrow> bool" and ok :: "'v \<Rightarrow> bool"
  assumes state_empty: "valid k \<Longrightarrow> state_of k (empty k)"
    and state_step: "valid k \<Longrightarrow> state_of k s \<Longrightarrow> ok v \<Longrightarrow> state_of k (step k v s)"
    and join_empty: "valid k \<Longrightarrow> state_of k s \<Longrightarrow> join s (empty k) = s"
    and join_step: "valid k \<Longrightarrow> state_of k s \<Longrightarrow> state_of k t \<Longrightarrow> ok v \<Longrightarrow> join s (step k v t) = step k v (join s t)"
begin

lemma state_fold: "valid k \<Longrightarrow> state_of k s \<Longrightarrow> list_all ok xs \<Longrightarrow> state_of k (fold (step k) xs s)"
  by (induction xs arbitrary: s) (auto intro: state_step)

lemma join_fold:
  assumes "valid k" and "state_of k s" and "state_of k t" and "list_all ok xs"
  shows "join s (fold (step k) xs t) = fold (step k) xs (join s t)"
  using assms
proof (induction xs arbitrary: t)
  case (Cons x xs)
  then have "join s (fold (step k) xs (step k x t)) = fold (step k) xs (join s (step k x t))" by (simp add: state_step)
  then show ?case using Cons.prems by (simp add: join_step)
qed simp

lemma join_partials:
  assumes "valid k" and "list_all (list_all ok) xss"
  shows "foldl join s (map (\<lambda>xs. fold (step k) xs (empty k)) xss) = fold (step k) (concat xss) s \<or> \<not> state_of k s"
  using assms(2)
proof (induction xss arbitrary: s)
  case (Cons xs xss)
  show ?case
  proof (cases "state_of k s")
    case True
    then have "join s (fold (step k) xs (empty k)) = fold (step k) xs s"
      using assms(1) Cons.prems by (simp add: join_fold join_empty state_empty)
    moreover have "state_of k (fold (step k) xs s)" using True assms(1) Cons.prems by (simp add: state_fold)
    ultimately show ?thesis using Cons.IH [of "fold (step k) xs s"] Cons.prems by simp
  qed simp
qed simp

end

text \<open>The aggregators that are exact on numbers: counts, wrapping sums, minima and maxima.\<close>

fun exact_spec :: "aggregator_spec \<Rightarrow> bool" where
  "exact_spec (CountSpec _) = True"
| "exact_spec (LongSumSpec _ _) = True"
| "exact_spec (LongMinSpec _ _) = True"
| "exact_spec (LongMaxSpec _ _) = True"
| "exact_spec (DoubleMinSpec _ _) = True"
| "exact_spec (DoubleMaxSpec _ _) = True"
| "exact_spec _ = False"

fun exact_state :: "aggregator_spec \<Rightarrow> aggregator \<Rightarrow> bool" where
  "exact_state (CountSpec _) (CountAggregator n) = in_i64 n"
| "exact_state (LongSumSpec _ _) (LongSumAggregator n seen) = (in_i64 n \<and> (seen \<or> n = 0))"
| "exact_state (LongMinSpec _ _) (LongMinAggregator n _) = in_i64 n"
| "exact_state (LongMaxSpec _ _) (LongMaxAggregator n _) = in_i64 n"
| "exact_state (DoubleMinSpec _ _) (DoubleMinAggregator x _) = is_finite x"
| "exact_state (DoubleMaxSpec _ _) (DoubleMaxAggregator x _) = is_finite x"
| "exact_state _ _ = False"

text \<open>JSON numbers as the reader makes them: negative integers of 64 bits, finite floats.\<close>

fun number_ok :: "json_number \<Rightarrow> bool" where
  "number_ok (PosInt _) = True"
| "number_ok (NegInt n) = (- (2 ^ 63) \<le> n \<and> n < 0)"
| "number_ok (Float x) = is_finite x"

fun value_ok :: "json option \<Rightarrow> bool" where
  "value_ok (Some (JNumber n)) = number_ok n"
| "value_ok _ = True"

lemma as_i64_to_json: "in_i64 n \<Longrightarrow> json_as_i64 (i64_to_json n) = Some n"
  by (auto simp: i64_to_json_def number_from_i64_def in_i64_def uint_word_of_int)

lemma as_i64_lossy_to_json: "in_i64 n \<Longrightarrow> json_as_i64_lossy (i64_to_json n) = Some n"
  by (simp add: json_as_i64_lossy_def as_i64_to_json)

lemma as_f64_from_f64: "is_finite x \<Longrightarrow> json_as_f64 (json_from_f64 x) = Some x"
  by (simp add: json_from_f64_def number_from_f64_def)

lemma uint_in: "uint (w :: u64) < 2 ^ 63 \<Longrightarrow> in_i64 (uint w)"
  unfolding in_i64_def using uint_ge_0 [of w] by linarith

lemma number_as_i64_in: "number_ok n \<Longrightarrow> number_as_i64 n = Some x \<Longrightarrow> in_i64 x"
  using uint_in by (cases n) (auto simp: in_i64_def split: if_splits)

lemma as_i64_in: "value_ok v \<Longrightarrow> Option.bind v json_as_i64 = Some n \<Longrightarrow> in_i64 n"
  by (induction v rule: value_ok.induct) (auto dest: number_as_i64_in)

lemma trunc_i64_in: "in_i64 (trunc_i64 x)"
  by (cases x) (simp_all add: trunc_i64_def in_i64_def)

lemma as_i64_lossy_in:
  assumes "value_ok v" and "Option.bind v json_as_i64_lossy = Some n"
  shows "in_i64 n"
  using assms(2) as_i64_in [OF assms(1)]
  by (cases v) (auto simp: json_as_i64_lossy_def wrap64_in trunc_i64_in split: option.splits if_splits)

lemma number_as_f64_finite:
  assumes "number_ok n"
  shows "is_finite (number_as_f64 n)"
proof (cases n)
  case (PosInt w)
  have "uint w < 2 ^ 64" using uint_lt2p [of w] by simp
  then have "\<bar>uint w\<bar> \<le> 2 ^ 64" using uint_ge_0 [of w] by linarith
  with PosInt show ?thesis by (simp add: f64_of_int_finite)
qed (use assms in \<open>auto intro: f64_of_int_finite\<close>)

lemma as_f64_finite: "value_ok v \<Longrightarrow> Option.bind v json_as_f64 = Some x \<Longrightarrow> is_finite x"
  by (induction v rule: value_ok.induct) (auto simp: number_as_f64_finite)

text \<open>Adopting a value after a merge or before it is the same, for a comparison that is transitive and
  whose negation is.\<close>

lemma extremum_step:
  assumes "cmp v y \<Longrightarrow> cmp y x \<Longrightarrow> cmp v x" and "\<not> cmp v y \<Longrightarrow> \<not> cmp y x \<Longrightarrow> \<not> cmp v x"
  shows "extremum cmp x s (Some (fst (extremum cmp y t (Some v)))) =
    (case extremum cmp x s (if t then Some y else None) of (m, u) \<Rightarrow> extremum cmp m u (Some v))"
  using assms by (cases s; cases t; cases "cmp v y"; cases "cmp y x") (simp_all add: extremum_def)

lemma f64_lt_trans: "is_finite a \<Longrightarrow> is_finite b \<Longrightarrow> is_finite c \<Longrightarrow> f64_lt a b \<Longrightarrow> f64_lt b c \<Longrightarrow> f64_lt a c"
  by (auto simp: f64_lt_def f64_le_def is_finite_def)

lemma f64_nlt_trans:
  "is_finite a \<Longrightarrow> is_finite b \<Longrightarrow> is_finite c \<Longrightarrow> \<not> f64_lt a b \<Longrightarrow> \<not> f64_lt b c \<Longrightarrow> \<not> f64_lt a c"
  by (auto simp: f64_lt_def f64_le_def is_finite_def)

lemmas agg_simps = extremum_def seen_or_def aggregate_def as_i64_to_json as_i64_lossy_to_json as_f64_from_f64

lemma merge_create: "exact_spec k \<Longrightarrow> exact_state k s \<Longrightarrow> merge False s (create k) = s"
  by (cases k; cases s) (simp_all add: agg_simps wrapping_add_def wrap64_id in_i64_def [of 0] json_as_i64_lossy_def)

lemma exact_state_create: "exact_spec k \<Longrightarrow> exact_state k (create k)"
  by (cases k) (simp_all add: in_i64_def I64_MAX_def I64_MIN_def is_finite_def F64_MAX_def)

lemma exact_state_aggregate: "exact_spec k \<Longrightarrow> exact_state k s \<Longrightarrow> value_ok v \<Longrightarrow> exact_state k (aggregate v s)"
  using as_i64_in [of v] as_i64_lossy_in [of v] as_f64_finite [of v]
  by (cases k; cases s) (auto simp: agg_simps wrapping_add_def wrap64_in split: option.splits)

lemma merge_extremum:
  "in_i64 y \<Longrightarrow> merge False (LongMinAggregator x s) (LongMinAggregator y t) =
     (case extremum (<) x s (if t then Some y else None) of (m, u) \<Rightarrow> LongMinAggregator m u)"
  "in_i64 y \<Longrightarrow> merge False (LongMaxAggregator x s) (LongMaxAggregator y t) =
     (case extremum (>) x s (if t then Some y else None) of (m, u) \<Rightarrow> LongMaxAggregator m u)"
  "is_finite b \<Longrightarrow> merge False (DoubleMinAggregator a s) (DoubleMinAggregator b t) =
     (case extremum f64_lt a s (if t then Some b else None) of (m, u) \<Rightarrow> DoubleMinAggregator m u)"
  "is_finite b \<Longrightarrow> merge False (DoubleMaxAggregator a s) (DoubleMaxAggregator b t) =
     (case extremum (\<lambda>p q. f64_lt q p) a s (if t then Some b else None) of (m, u) \<Rightarrow> DoubleMaxAggregator m u)"
  by (simp_all add: seen_or_def as_i64_to_json as_f64_from_f64)

lemma extremum_merge:
  assumes mrg: "\<And>x s y t. P y \<Longrightarrow> mrg (C x s) (C y t) = (case extremum cmp x s (if t then Some y else None) of (m, u) \<Rightarrow> C m u)"
    and agg: "\<And>y t. agg (C y t) = (case extremum cmp y t w of (m, u) \<Rightarrow> C m u)"
    and w: "\<And>n. w = Some n \<Longrightarrow> P n"
    and trans: "\<And>a b c. P a \<Longrightarrow> P b \<Longrightarrow> P c \<Longrightarrow> cmp a b \<Longrightarrow> cmp b c \<Longrightarrow> cmp a c"
    and ntrans: "\<And>a b c. P a \<Longrightarrow> P b \<Longrightarrow> P c \<Longrightarrow> \<not> cmp a b \<Longrightarrow> \<not> cmp b c \<Longrightarrow> \<not> cmp a c"
    and xy: "P x" "P y"
  shows "mrg (C x s) (agg (C y t)) = agg (mrg (C x s) (C y t))"
proof (cases w)
  case None
  then show ?thesis using xy by (simp add: agg mrg extremum_def split: prod.splits)
next
  case (Some n)
  define e where "e = fst (extremum cmp y t (Some n))"
  have e: "extremum cmp y t (Some n) = (e, True)" by (simp add: e_def extremum_def)
  have P: "P n" "P e" using w [OF Some] xy by (auto simp: e_def extremum_def)
  have step: "extremum cmp x s (Some e) = (case extremum cmp x s (if t then Some y else None) of (m, u) \<Rightarrow> extremum cmp m u (Some n))"
    unfolding e_def using trans [of n y x] ntrans [of n y x] P(1) xy by (intro extremum_step) auto
  have "mrg (C x s) (agg (C y t)) = (case extremum cmp x s (Some e) of (m, u) \<Rightarrow> C m u)"
    using mrg [OF P(2), of x s True] by (simp add: agg Some e)
  also have "\<dots> = agg (mrg (C x s) (C y t))"
    unfolding step using mrg [OF xy(2), of x s t] by (auto simp: agg Some split: prod.splits)
  finally show ?thesis .
qed

lemma merge_aggregate:
  assumes "exact_state k s" and "exact_state k t" and "value_ok v"
  shows "merge False s (aggregate v t) = aggregate v (merge False s t)"
  using assms
proof (cases rule: exact_state.cases [of "(k, s)"])
  case (1 n c)
  with assms obtain d where d: "t = CountAggregator d" "in_i64 d" "in_i64 c" by (cases t) auto
  then show ?thesis using 1 by (simp add: aggregate_def as_i64_to_json wrapping_add_in wrapping_add_assoc)
next
  case (2 n f c b)
  with assms obtain d e where d: "t = LongSumAggregator d e" "in_i64 d" "in_i64 c" "e \<or> d = 0" by (cases t) auto
  show ?thesis
  proof (cases "Option.bind v json_as_i64_lossy")
    case (Some x)
    then have "in_i64 x" using as_i64_lossy_in assms(3) by blast
    with Some d 2 show ?thesis
      by (cases e) (simp_all add: aggregate_def seen_or_def as_i64_lossy_to_json wrapping_add_assoc wrapping_add_in
          wrapping_add_zero json_as_i64_lossy_def [of JNull])
  qed (use d 2 in \<open>cases e; simp add: aggregate_def seen_or_def as_i64_lossy_to_json json_as_i64_lossy_def [of JNull]\<close>)
next
  case (3 n f x b)
  with assms obtain y c where y: "t = LongMinAggregator y c" "in_i64 y" "in_i64 x" "s = LongMinAggregator x b" by (cases t) auto
  show ?thesis unfolding y(1,4)
  proof (rule extremum_merge [where P = in_i64 and mrg = "merge False" and C = LongMinAggregator and cmp = "(<)"
        and agg = "aggregate v" and w = "Option.bind v json_as_i64"])
  qed (erule merge_extremum | erule as_i64_in [OF assms(3)] | rule y | simp add: aggregate_def | linarith)+
next
  case (4 n f x b)
  with assms obtain y c where y: "t = LongMaxAggregator y c" "in_i64 y" "in_i64 x" "s = LongMaxAggregator x b" by (cases t) auto
  show ?thesis unfolding y(1,4)
  proof (rule extremum_merge [where P = in_i64 and mrg = "merge False" and C = LongMaxAggregator and cmp = "(>)"
        and agg = "aggregate v" and w = "Option.bind v json_as_i64"])
  qed (erule merge_extremum | erule as_i64_in [OF assms(3)] | rule y | simp add: aggregate_def | linarith)+
next
  case (5 n f x b)
  with assms obtain y c where y: "t = DoubleMinAggregator y c" "is_finite y" "is_finite x" "s = DoubleMinAggregator x b" by (cases t) auto
  show ?thesis unfolding y(1,4)
  proof (rule extremum_merge [where P = is_finite and mrg = "merge False" and C = DoubleMinAggregator and cmp = f64_lt
        and agg = "aggregate v" and w = "Option.bind v json_as_f64"])
  qed (erule merge_extremum | erule as_f64_finite [OF assms(3)] | rule y | simp add: aggregate_def | erule (4) f64_lt_trans | erule (4) f64_nlt_trans)+
next
  case (6 n f x b)
  with assms obtain y c where y: "t = DoubleMaxAggregator y c" "is_finite y" "is_finite x" "s = DoubleMaxAggregator x b" by (cases t) auto
  show ?thesis unfolding y(1,4)
  proof (rule extremum_merge [where P = is_finite and mrg = "merge False" and C = DoubleMaxAggregator and cmp = "\<lambda>a b. f64_lt b a"
        and agg = "aggregate v" and w = "Option.bind v json_as_f64"])
  qed (erule merge_extremum | erule as_f64_finite [OF assms(3)] | rule y | simp add: aggregate_def | erule (4) f64_lt_trans | erule (4) f64_nlt_trans)+
qed auto

interpretation exact: mergeable create "\<lambda>_. aggregate" "merge False" exact_spec exact_state value_ok
  by unfold_locales (simp_all add: exact_state_create exact_state_aggregate merge_create merge_aggregate)

section \<open>Properties\<close>

definition seven :: "json option" where
  "seven = Some (JNumber (PosInt 7))"

text \<open>C14: For counts, integer sums, minima and maxima, partial results compose: however the input is
  split into consecutive parts, aggregating each part alone and merging the partial results in order gives
  the state of one pass over the whole input; empty parts and parts without a number do not disturb it.\<close>

theorem partials_compose:
  assumes "exact_spec spec" and "list_all (list_all value_ok) parts"
  shows "foldl (merge False) (create spec) (map (\<lambda>part. fold aggregate part (create spec)) parts) =
    fold aggregate (concat parts) (create spec)"
  using exact.join_partials [OF assms, of "create spec"] exact_state_create [OF assms(1)] by blast

theorem partials_compose_witness:
  "foldl (merge False) (create (LongSumSpec ''s'' ''f''))
     (map (\<lambda>part. fold aggregate part (create (LongSumSpec ''s'' ''f''))) [[seven], [], [None, seven]]) =
   LongSumAggregator 14 True"
proof -
  have ok: "exact_spec (LongSumSpec ''s'' ''f'')" "list_all (list_all value_ok) [[seven], [], [None, seven]]"
    by (simp_all add: seven_def)
  have "fold aggregate (concat [[seven], [], [None, seven]]) (create (LongSumSpec ''s'' ''f'')) = LongSumAggregator 14 True"
    by (simp add: seven_def aggregate_def json_as_i64_lossy_def wrapping_add_def wrap64_def)
  then show ?thesis using partials_compose [OF ok] by simp
qed

text \<open>A sum that overflows in one part is dropped by the merge: its result is null, which a merge takes
  for an empty partial, so the merged sum is that of the other part, while one pass over the same values ends in
  the overflow and gives null.\<close>

theorem overflowed_partial_lost:
  assumes "x = Some (JNumber (Float (Fin (2 ^ 1023))))"
  shows "get False (merge False (fold aggregate [x] (create (DoubleSumSpec n f))) (fold aggregate [x, x] (create (DoubleSumSpec n f)))) =
      JNumber (Float (Fin (2 ^ 1023))) \<and>
    get False (fold aggregate [x, x, x] (create (DoubleSumSpec n f))) = JNull"
proof -
  have one: "f64_add (Fin 0) (Fin (2 ^ 1023)) = Fin (2 ^ 1023)"
    using round64_exact [of 1 1023] by (simp add: f64_add_def float_add_def)
  have two: "f64_add (Fin (2 ^ 1023)) (Fin (2 ^ 1023)) = PosInf"
    using round64_overflow [of "2 ^ 1024"] by (simp add: f64_add_def float_add_def)
  have three: "f64_add PosInf (Fin (2 ^ 1023)) = PosInf" by (simp add: f64_add_def float_add_def)
  show ?thesis unfolding assms
    using one two three
    by (simp add: aggregate_def seen_or_def json_from_f64_def number_from_f64_def is_finite_def del: power_numeral)
qed

theorem overflowed_partial_lost_witness:
  "get False (fold aggregate (replicate 3 (Some (JNumber (Float (Fin (2 ^ 1023)))))) (create (DoubleSumSpec ''s'' ''f''))) = JNull"
  using overflowed_partial_lost [OF refl, of "''s''" "''f''"] by (simp add: numeral_3_eq_3 del: power_numeral)

end
