(* ===== verification/Granularity.thy ===== *)
theory Granularity
  imports Query_Filter Aggregators
begin

text \<open>
  Time: granularities and their buckets, and pruning of sorted timestamps
  (ferrodruid-query/src/helpers.rs, the type in ferrodruid-common/src/types.rs). Timestamps are
  64-bit milliseconds since 1970. The calendar (chrono) is the record \<open>calendar\<close>: the year and
  month of a timestamp, and the first instant of a month.
\<close>

section \<open>Data\<close>

datatype granularity =
    NoBuckets
  | Second
  | Minute
  | FiveMinute
  | TenMinute
  | FifteenMinute
  | ThirtyMinute
  | Hour
  | SixHour
  | Day
  | Week
  | Month
  | Quarter
  | Year
  | Duration u64 int

datatype granularity_spec = Simple string | Full granularity

record calendar =
  year_month :: "int \<Rightarrow> (int \<times> int) option"
  month_start :: "int \<Rightarrow> int \<Rightarrow> int option"

text \<open>Division of the source: towards zero, and the Euclidean one for a positive divisor.\<close>

definition trunc_div :: "int \<Rightarrow> int \<Rightarrow> int" where
  "trunc_div a b = sgn a * sgn b * (\<bar>a\<bar> div \<bar>b\<bar>)"

definition trunc_rem :: "int \<Rightarrow> int \<Rightarrow> int" where
  "trunc_rem a b = a - trunc_div a b * b"

section \<open>Operations\<close>

definition validate_granularity :: "granularity_spec \<Rightarrow> (unit, druid_error) res" where
  "validate_granularity g =
     (case g of
        Full (Duration period_ms _) \<Rightarrow>
          if period_ms = 0 then fail (Query ''granularity duration periodMs must be greater than 0'')
          else if of_int I64_MAX < period_ms then fail (Query ''granularity duration periodMs is too large'')
          else Ok ()
      | _ \<Rightarrow> Ok ())"

text \<open>\<open>i64::try_from(bucket).unwrap_or(i64::MIN)\<close> after arithmetic in 128 bits.\<close>

definition floor_bucket :: "int \<Rightarrow> int \<Rightarrow> int \<Rightarrow> int" where
  "floor_bucket period origin ts =
     (let bucket = (ts - origin) div period * period + origin
      in if in_i64 bucket then bucket else I64_MIN)"

definition WEEK_MS :: int where "WEEK_MS = 604800000"
definition MONDAY_ORIGIN_MS :: int where "MONDAY_ORIGIN_MS = - 259200000"

definition bucket_week :: "int \<Rightarrow> int" where
  "bucket_week ts = floor_bucket WEEK_MS MONDAY_ORIGIN_MS ts"

definition unwrap_or_zero :: "int option \<Rightarrow> int" where
  "unwrap_or_zero x = (case x of None \<Rightarrow> 0 | Some n \<Rightarrow> n)"

definition bucket_month :: "calendar \<Rightarrow> int \<Rightarrow> int" where
  "bucket_month cal ts =
     (case year_month cal ts of None \<Rightarrow> 0 | Some (y, m) \<Rightarrow> unwrap_or_zero (month_start cal y m))"

definition bucket_quarter :: "calendar \<Rightarrow> int \<Rightarrow> int" where
  "bucket_quarter cal ts =
     (case year_month cal ts of None \<Rightarrow> 0 | Some (y, m) \<Rightarrow> unwrap_or_zero (month_start cal y ((m - 1) div 3 * 3 + 1)))"

definition bucket_year :: "calendar \<Rightarrow> int \<Rightarrow> int" where
  "bucket_year cal ts =
     (case year_month cal ts of None \<Rightarrow> 0 | Some (y, m) \<Rightarrow> unwrap_or_zero (month_start cal y 1))"

definition fixed_bucket :: "int \<Rightarrow> int \<Rightarrow> int" where
  "fixed_bucket ts period = trunc_div ts period * period"

definition bucket_timestamp :: "calendar \<Rightarrow> int \<Rightarrow> granularity_spec \<Rightarrow> int" where
  "bucket_timestamp cal ts g =
     (case g of
        Simple s \<Rightarrow>
          (let n = to_lowercase s in
           if n = ''all'' then 0
           else if n = ''none'' then ts
           else if n = ''second'' then fixed_bucket ts 1000
           else if n = ''minute'' then fixed_bucket ts 60000
           else if n = ''five_minute'' then fixed_bucket ts 300000
           else if n = ''ten_minute'' then fixed_bucket ts 600000
           else if n = ''fifteen_minute'' then fixed_bucket ts 900000
           else if n = ''thirty_minute'' then fixed_bucket ts 1800000
           else if n = ''hour'' then fixed_bucket ts 3600000
           else if n = ''six_hour'' then fixed_bucket ts 21600000
           else if n = ''day'' then fixed_bucket ts 86400000
           else if n = ''week'' then bucket_week ts
           else if n = ''month'' then bucket_month cal ts
           else if n = ''quarter'' then bucket_quarter cal ts
           else if n = ''year'' then bucket_year cal ts
           else 0)
      | Full NoBuckets \<Rightarrow> ts
      | Full Second \<Rightarrow> fixed_bucket ts 1000
      | Full Minute \<Rightarrow> fixed_bucket ts 60000
      | Full FiveMinute \<Rightarrow> fixed_bucket ts 300000
      | Full TenMinute \<Rightarrow> fixed_bucket ts 600000
      | Full FifteenMinute \<Rightarrow> fixed_bucket ts 900000
      | Full ThirtyMinute \<Rightarrow> fixed_bucket ts 1800000
      | Full Hour \<Rightarrow> fixed_bucket ts 3600000
      | Full SixHour \<Rightarrow> fixed_bucket ts 21600000
      | Full Day \<Rightarrow> fixed_bucket ts 86400000
      | Full Week \<Rightarrow> bucket_week ts
      | Full Month \<Rightarrow> bucket_month cal ts
      | Full Quarter \<Rightarrow> bucket_quarter cal ts
      | Full Year \<Rightarrow> bucket_year cal ts
      | Full (Duration period_ms origin) \<Rightarrow>
          (let period = min (uint period_ms) I64_MAX
           in if period \<le> 0 then ts else floor_bucket period origin ts))"

definition uniform_period_ms :: "granularity_spec \<Rightarrow> int option" where
  "uniform_period_ms g =
     (case g of
        Simple s \<Rightarrow>
          map_of [(''second'', 1000), (''minute'', 60000), (''five_minute'', 300000), (''ten_minute'', 600000),
            (''fifteen_minute'', 900000), (''thirty_minute'', 1800000), (''hour'', 3600000), (''six_hour'', 21600000),
            (''day'', 86400000), (''week'', 604800000)] (to_lowercase s)
      | Full Second \<Rightarrow> Some 1000
      | Full Minute \<Rightarrow> Some 60000
      | Full FiveMinute \<Rightarrow> Some 300000
      | Full TenMinute \<Rightarrow> Some 600000
      | Full FifteenMinute \<Rightarrow> Some 900000
      | Full ThirtyMinute \<Rightarrow> Some 1800000
      | Full Hour \<Rightarrow> Some 3600000
      | Full SixHour \<Rightarrow> Some 21600000
      | Full Day \<Rightarrow> Some 86400000
      | Full Week \<Rightarrow> Some 604800000
      | Full (Duration period_ms _) \<Rightarrow> (if uint period_ms \<le> I64_MAX then Some (uint period_ms) else None)
      | _ \<Rightarrow> None)"

definition is_all_granularity :: "granularity_spec \<Rightarrow> bool" where
  "is_all_granularity g = (case g of Simple s \<Rightarrow> to_lowercase s = ''all'' | Full _ \<Rightarrow> False)"

definition next_coarser_period_ms :: "int \<Rightarrow> int" where
  "next_coarser_period_ms period_ms =
     (if period_ms < 3600000 then 3600000
      else if period_ms < 86400000 then 86400000
      else if period_ms < 604800000 then 604800000
      else period_ms)"

definition floor_div :: "int \<Rightarrow> int \<Rightarrow> int" where
  "floor_div a b =
     (let q = trunc_div a b; r = trunc_rem a b
      in if r \<noteq> 0 \<and> ((r < 0) \<noteq> (b < 0)) then q - 1 else q)"

text \<open>Sorted timestamps and one interval: the rows inside, by binary search. (A debug build also
  checks that the timestamps are sorted.)\<close>

definition pruned_row_range :: "int list \<Rightarrow> (int \<times> int) list \<Rightarrow> bool \<Rightarrow> (nat \<times> nat) option" where
  "pruned_row_range timestamps intervals time_sorted =
     (case intervals of
        [(start, end)] \<Rightarrow>
          if \<not> time_sorted then None
          else Some (partition_point (\<lambda>t. t < start) timestamps, partition_point (\<lambda>t. t < end) timestamps)
      | _ \<Rightarrow> None)"

section \<open>Buckets\<close>

lemma trunc_div_nonneg: "0 \<le> a \<Longrightarrow> 0 < b \<Longrightarrow> trunc_div a b = a div b"
  by (cases "a = 0") (simp_all add: trunc_div_def)

lemma trunc_div_small: "- b < a \<Longrightarrow> a < b \<Longrightarrow> trunc_div a b = 0"
  by (simp add: trunc_div_def)

lemma fixed_bucket:
  assumes "0 < period" and "0 \<le> ts"
  shows "fixed_bucket ts period \<le> ts" "ts < fixed_bucket ts period + period" "fixed_bucket ts period mod period = 0"
proof -
  have b: "fixed_bucket ts period = ts - ts mod period"
    using assms by (simp add: fixed_bucket_def trunc_div_nonneg minus_mod_eq_div_mult [symmetric])
  have "0 \<le> ts mod period" "ts mod period < period" using assms by simp_all
  then show "fixed_bucket ts period \<le> ts" "ts < fixed_bucket ts period + period" unfolding b by linarith+
  show "fixed_bucket ts period mod period = 0" by (simp add: fixed_bucket_def)
qed

text \<open>Weeks start on Mondays, durations at their origin, the others at the epoch.\<close>

definition bucket_origin :: "granularity_spec \<Rightarrow> int option" where
  "bucket_origin g =
     (case g of
        Simple s \<Rightarrow> if to_lowercase s = ''week'' then Some MONDAY_ORIGIN_MS else None
      | Full Week \<Rightarrow> Some MONDAY_ORIGIN_MS
      | Full (Duration _ origin) \<Rightarrow> Some origin
      | _ \<Rightarrow> None)"

lemma uniform_bucket:
  assumes "uniform_period_ms g = Some p"
  shows "bucket_timestamp cal ts g =
    (case bucket_origin g of None \<Rightarrow> fixed_bucket ts p | Some origin \<Rightarrow> if p \<le> 0 then ts else floor_bucket p origin ts)"
proof (cases g)
  case (Simple s)
  with assms show ?thesis
    by (auto simp: uniform_period_ms_def bucket_timestamp_def bucket_origin_def bucket_week_def WEEK_MS_def Let_def split: if_splits)
next
  case (Full h)
  with assms show ?thesis
    by (cases h) (auto simp: uniform_period_ms_def bucket_timestamp_def bucket_origin_def bucket_week_def WEEK_MS_def Let_def
        I64_MAX_def split: if_splits)
qed

lemma uniform_positive:
  assumes "uniform_period_ms g = Some p" and "validate_granularity g = Ok ()"
  shows "0 < p"
proof (cases g)
  case (Full h)
  with assms show ?thesis
    by (cases h) (auto simp: uniform_period_ms_def validate_granularity_def uint_0_iff order_less_le split: if_splits)
qed (use assms in \<open>auto simp: uniform_period_ms_def split: if_splits\<close>)

lemma partition_point_le: "partition_point P xs \<le> length xs"
proof -
  have "lo \<le> hi \<Longrightarrow> partition_loop P xs lo hi \<le> hi" for lo hi
    by (induction P xs lo hi rule: partition_loop.induct) (subst partition_loop.simps, auto simp: Let_def)
  then show ?thesis by (simp add: partition_point_def)
qed

lemma pruned_range:
  assumes "sorted timestamps" and "pruned_row_range timestamps intervals True = Some (lo, hi)"
  shows "\<exists>start stop. intervals = [(start, stop)] \<and> hi \<le> length timestamps \<and>
    (\<forall>i < length timestamps. lo \<le> i \<and> i < hi \<longleftrightarrow> start \<le> timestamps ! i \<and> timestamps ! i < stop)"
proof -
  obtain start stop where i: "intervals = [(start, stop)]" "lo = partition_point (\<lambda>t. t < start) timestamps"
    "hi = partition_point (\<lambda>t. t < stop) timestamps"
    using assms(2) by (auto simp: pruned_row_range_def split: list.splits)
  have "lo \<le> i \<and> i < hi \<longleftrightarrow> start \<le> timestamps ! i \<and> timestamps ! i < stop" if "i < length timestamps" for i
    using partition_point_sorted [OF assms(1) that, of start] partition_point_sorted [OF assms(1) that, of stop] i by auto
  with i partition_point_le show ?thesis by blast
qed

section \<open>Properties\<close>

lemma floor_bucket_contains:
  assumes "0 < p" and "in_i64 ts"
  shows "floor_bucket p origin ts \<le> ts" "ts < floor_bucket p origin ts + p"
    "p dvd floor_bucket p origin ts - origin \<or> floor_bucket p origin ts = I64_MIN"
proof -
  define b where "b = (ts - origin) div p * p + origin"
  have "b = ts - (ts - origin) mod p" unfolding b_def by (simp add: minus_mod_eq_div_mult [symmetric])
  moreover have "0 \<le> (ts - origin) mod p" "(ts - origin) mod p < p" using assms(1) by simp_all
  ultimately have b: "b \<le> ts" "ts < b + p" by linarith+
  have f: "floor_bucket p origin ts = (if in_i64 b then b else I64_MIN)" by (simp add: floor_bucket_def b_def)
  show "floor_bucket p origin ts \<le> ts" "ts < floor_bucket p origin ts + p"
    using b assms(2) unfolding f by (auto simp: in_i64_def I64_MIN_def)
  show "p dvd floor_bucket p origin ts - origin \<or> floor_bucket p origin ts = I64_MIN" unfolding f b_def by simp
qed

lemma fixed_bucket_negative:
  assumes "0 < p" and "ts < 0"
  shows "ts \<le> fixed_bucket ts p" "fixed_bucket ts p < ts + p" "fixed_bucket ts p = ts \<longleftrightarrow> p dvd ts"
proof -
  have b: "fixed_bucket ts p = - ((- ts) div p * p)" using assms by (simp add: fixed_bucket_def trunc_div_def)
  have m: "(- ts) div p * p = - ts - (- ts) mod p" by (simp add: minus_mod_eq_div_mult)
  have "0 \<le> (- ts) mod p" "(- ts) mod p < p" using assms(1) by simp_all
  then show "ts \<le> fixed_bucket ts p" "fixed_bucket ts p < ts + p" unfolding b m by linarith+
  have "fixed_bucket ts p = ts \<longleftrightarrow> (- ts) mod p = 0" unfolding b m by auto
  then show "fixed_bucket ts p = ts \<longleftrightarrow> p dvd ts" by (metis dvd_eq_mod_eq_0 dvd_minus_iff)
qed

text \<open>C32: Which bucket an accepted uniform granularity gives a timestamp, for every timestamp of 64 bits. The bucket is on the grid of
  the granularity (weeks on Mondays, durations on their origin, the others on the epoch), save that a grid point below the least integer
  is replaced by it. It starts at or before the timestamp and ends after it exactly when the granularity is a week or a duration, or
  the timestamp is not negative, or it is on the grid; for the others, which divide towards zero, every timestamp before 1970 that is not on
  the grid falls into the bucket that starts after it.\<close>

theorem bucket_contains_timestamp:
  assumes "validate_granularity g = Ok ()" and "uniform_period_ms g = Some p" and "in_i64 ts" and "b = bucket_timestamp cal ts g"
  shows "(b \<le> ts \<and> ts < b + p \<longleftrightarrow> bucket_origin g \<noteq> None \<or> 0 \<le> ts \<or> p dvd ts) \<and>
    (b \<le> ts \<and> ts < b + p \<or> ts < b \<and> b < ts + p) \<and>
    (case bucket_origin g of None \<Rightarrow> p dvd b | Some origin \<Rightarrow> p dvd b - origin \<or> b = I64_MIN)"
proof -
  have p: "0 < p" by (rule uniform_positive [OF assms(2,1)])
  note b = assms(4) [unfolded uniform_bucket [OF assms(2)]]
  show ?thesis
  proof (cases "bucket_origin g")
    case None
    then have b: "b = fixed_bucket ts p" "p dvd b" using b by (simp_all add: fixed_bucket_def)
    show ?thesis
    proof (cases "0 \<le> ts")
      case True
      then show ?thesis using fixed_bucket [OF p True] None b by simp
    next
      case False
      then have "ts < 0" by simp
      from fixed_bucket_negative [OF p this] have "ts \<le> b" "b < ts + p" "b = ts \<longleftrightarrow> p dvd ts" by (simp_all add: b(1))
      then show ?thesis using None False b(2) p by auto
    qed
  next
    case (Some origin)
    then show ?thesis using b p floor_bucket_contains [OF p assms(3), of origin] by simp
  qed
qed

theorem bucket_contains_timestamp_witness:
  "bucket_timestamp \<lparr>year_month = (\<lambda>_. None), month_start = (\<lambda>_ _. None)\<rparr> (- 5) (Full (Duration 1000 7)) \<le> - 5 \<and>
   - 5 < bucket_timestamp \<lparr>year_month = (\<lambda>_. None), month_start = (\<lambda>_ _. None)\<rparr> (- 5) (Simple ''hour'')"
proof -
  let ?cal = "\<lparr>year_month = (\<lambda>_. None), month_start = (\<lambda>_ _. None)\<rparr>" and ?g = "Full (Duration 1000 7)" and ?h = "Simple ''hour''"
  have v: "validate_granularity ?g = Ok ()" "uniform_period_ms ?g = Some 1000" "in_i64 (- 5)" "validate_granularity ?h = Ok ()"
    "uniform_period_ms ?h = Some 3600000"
    by (simp_all add: validate_granularity_def uniform_period_ms_def I64_MAX_def in_i64_def to_lowercase_def less_eq_char_def)
  have "bucket_origin ?g = Some 7" "bucket_origin ?h = None" by (simp_all add: bucket_origin_def to_lowercase_def less_eq_char_def)
  then show ?thesis
    using bucket_contains_timestamp [OF v(1-3) refl, of ?cal] bucket_contains_timestamp [OF v(4,5,3) refl, of ?cal] by auto
qed

text \<open>Granularities without an origin divide towards zero, so the last period before 1970 falls into the
  bucket that starts at the epoch: the bucket starts after the timestamp, and that bucket is two periods long.\<close>

theorem last_period_before_epoch:
  assumes "uniform_period_ms g = Some p" and "bucket_origin g = None" and "- p < ts" and "ts < 0"
  shows "bucket_timestamp cal ts g = 0 \<and> bucket_timestamp cal (ts + p) g = 0 \<and> ts < bucket_timestamp cal ts g"
  using assms uniform_bucket [OF assms(1)] by (simp add: fixed_bucket_def trunc_div_small)

theorem last_period_before_epoch_witness:
  "bucket_timestamp \<lparr>year_month = (\<lambda>_. None), month_start = (\<lambda>_ _. None)\<rparr> (- 1) (Simple ''hour'') = 0"
proof -
  have "uniform_period_ms (Simple ''hour'') = Some 3600000" "bucket_origin (Simple ''hour'') = None"
    by (simp_all add: uniform_period_ms_def bucket_origin_def to_lowercase_def less_eq_char_def)
  from last_period_before_epoch [OF this, of "- 1"] show ?thesis by simp
qed

end
