(* ===== verification/Timeseries.thy ===== *)
theory Timeseries
  imports Granularity Btree_Map
begin

text \<open>
  Timeseries queries (ferrodruid-query/src/timeseries.rs) without virtual columns and
  post-aggregations: the row loop that fills buckets of aggregators, the filling of empty buckets, the
  result rows, and the vectorized path for one bucket over the whole range. The calendar, the number of
  threads and the parallel reduction (rayon) are the record \<open>ts_env\<close>.
\<close>

section \<open>Data\<close>

record ts_query =
  tq_intervals :: "string list"
  tq_granularity :: granularity_spec
  tq_filter :: "filter_spec option"
  tq_aggregations :: "aggregator_spec list"
  tq_descending :: "bool option"
  tq_skip_empty :: "bool option"

record ts_result =
  tr_timestamp :: string
  tr_result :: "(string, json) hash_map"

datatype agg_plan = PlanCount | PlanLongSum "int list" | PlanDoubleSum "f64 list"

datatype acc = AccCount u64 | AccLong int | AccDouble f64 bool

record ts_env =
  te_lib :: query_lib
  te_calendar :: calendar
  te_format :: "int \<Rightarrow> string option"
  te_threads :: nat
  te_reduce :: "(acc list \<times> u64 \<Rightarrow> acc list \<times> u64 \<Rightarrow> acc list \<times> u64) \<Rightarrow> acc list \<times> u64 \<Rightarrow> (acc list \<times> u64) list \<Rightarrow> acc list \<times> u64"

type_synonym buckets = "(int, aggregator list) hash_map"
type_synonym filled = "(int \<times> aggregator list option) list"

definition format_epoch_millis :: "ts_env \<Rightarrow> int \<Rightarrow> string" where
  "format_epoch_millis env millis =
     (case te_format env millis of
        Some s \<Rightarrow> s
      | None \<Rightarrow> if 0 \<le> millis then show_nat (nat millis) else CHR ''-'' # show_nat (nat (- millis)))"

section \<open>Feeding a row\<close>

definition legacy_default :: "aggregator_spec \<Rightarrow> json" where
  "legacy_default spec =
     (case spec of
        CountSpec _ \<Rightarrow> JNull
      | LongSumSpec _ _ \<Rightarrow> JNumber (PosInt 0)
      | LongMinSpec _ _ \<Rightarrow> JNumber (PosInt 0)
      | LongMaxSpec _ _ \<Rightarrow> JNumber (PosInt 0)
      | _ \<Rightarrow> json_from_f64 (Fin 0))"

definition extract_agg_value :: "bool \<Rightarrow> segment_data \<Rightarrow> nat \<Rightarrow> aggregator_spec \<Rightarrow> json option" where
  "extract_agg_value legacy seg i spec =
     (case agg_field_name spec of
        None \<Rightarrow> Some JNull
      | Some field \<Rightarrow>
          (case hm_get (sd_columns seg) field of
             Some col \<Rightarrow> Some (column_value_at legacy col i)
           | None \<Rightarrow> if legacy then Some (legacy_default spec) else None))"

definition feed_aggregator_row_from_map :: "bool \<Rightarrow> segment_data \<Rightarrow> nat \<Rightarrow> row \<Rightarrow> aggregator_spec \<Rightarrow> aggregator \<Rightarrow> aggregator" where
  "feed_aggregator_row_from_map legacy seg i row spec agg =
     (let val = (case agg_field_name spec of
            None \<Rightarrow> Some JNull
          | Some field \<Rightarrow> or_else (hm_get row field) (extract_agg_value legacy seg i spec))
      in aggregate val agg)"

definition ensure_aggregations_not_multi_value :: "segment_data \<Rightarrow> aggregator_spec list \<Rightarrow> (unit, druid_error) res" where
  "ensure_aggregations_not_multi_value seg specs =
     bind (mapM (\<lambda>spec. case agg_field_name spec of
         None \<Rightarrow> Ok ()
       | Some field \<Rightarrow>
           (case hm_get (sd_columns seg) field of
              Some (StringMulti _) \<Rightarrow> fail (Query (''aggregation over a multi-value dimension `'' @ field @
                ''` is not supported yet (element-wise MV aggregation is a follow-on)''))
            | _ \<Rightarrow> Ok ())) specs) (\<lambda>_. Ok ())"

definition in_intervals :: "(int \<times> int) list \<Rightarrow> int \<Rightarrow> bool" where
  "in_intervals intervals ts \<longleftrightarrow> intervals = [] \<or> list_ex (\<lambda>(start, stop). start \<le> ts \<and> ts < stop) intervals"

section \<open>The row loop\<close>

definition bucket_aggs :: "ts_query \<Rightarrow> buckets \<Rightarrow> int \<Rightarrow> aggregator list" where
  "bucket_aggs q buckets key = (case hm_get buckets key of Some aggs \<Rightarrow> aggs | None \<Rightarrow> map create (tq_aggregations q))"

fun row_loop :: "ts_env \<Rightarrow> bool \<Rightarrow> ts_query \<Rightarrow> segment_data \<Rightarrow> (int \<times> int) list \<Rightarrow> nat \<Rightarrow> int list \<Rightarrow> row \<times> buckets \<Rightarrow> row \<times> buckets" where
  "row_loop env legacy q seg intervals i [] st = st"
| "row_loop env legacy q seg intervals i (ts # tss) (row, buckets) =
     (if \<not> in_intervals intervals ts then row_loop env legacy q seg intervals (Suc i) tss (row, buckets)
      else
        let typed = (case tq_filter q of None \<Rightarrow> None | Some f \<Rightarrow> matches_typed legacy seg i f) in
        if typed = Some False then row_loop env legacy q seg intervals (Suc i) tss (row, buckets)
        else
          let row' = build_row_update_only legacy seg i row in
          if (case tq_filter q of None \<Rightarrow> False | Some f \<Rightarrow> typed \<noteq> Some True \<and> \<not> matches (te_lib env) legacy f row')
          then row_loop env legacy q seg intervals (Suc i) tss (row', buckets)
          else
            let key = bucket_timestamp (te_calendar env) ts (tq_granularity q);
                aggs = map2 (feed_aggregator_row_from_map legacy seg i row') (tq_aggregations q) (bucket_aggs q buckets key)
            in row_loop env legacy q seg intervals (Suc i) tss (row', hm_insert key aggs buckets))"

section \<open>Empty buckets\<close>

definition empty_bucket_value :: "bool \<Rightarrow> aggregator_spec \<Rightarrow> json" where
  "empty_bucket_value legacy spec =
     (if legacy then get legacy (create spec)
      else case spec of CountSpec _ \<Rightarrow> JNumber (PosInt 0) | _ \<Rightarrow> JNull)"

text \<open>The filling loop advances by wrapping addition; it need not end.\<close>

partial_function (option) fill_keys :: "int \<Rightarrow> int \<Rightarrow> int \<Rightarrow> filled \<Rightarrow> filled option" where
  "fill_keys period max_k k out =
     (if k \<le> max_k then fill_keys period max_k (wrapping_add k period) (or_insert k None out) else Some out)"

fun fill_groups :: "int \<Rightarrow> (int \<times> int \<times> int) list \<Rightarrow> filled \<Rightarrow> filled option" where
  "fill_groups period [] out = Some out"
| "fill_groups period ((_, min_k, max_k) # groups) out =
     Option.bind (fill_keys period max_k min_k out) (fill_groups period groups)"

definition macro_key :: "int \<Rightarrow> int \<Rightarrow> int" where
  "macro_key macro_period k = wrap64 (floor_div k macro_period * macro_period)"

definition extend_group :: "int \<Rightarrow> int \<Rightarrow> (int \<times> int \<times> int) list \<Rightarrow> (int \<times> int \<times> int) list" where
  "extend_group macro_period k groups =
     (let g = macro_key macro_period k;
          (lo, hi) = (case map_of groups g of Some e \<Rightarrow> e | None \<Rightarrow> (k, k))
      in bt_insert g (min k lo, max k hi) groups)"

definition interval_buckets :: "ts_env \<Rightarrow> granularity_spec \<Rightarrow> (int \<times> int) list \<Rightarrow> filled \<Rightarrow> filled" where
  "interval_buckets env g intervals out =
     fold (\<lambda>(start, _). or_insert (bucket_timestamp (te_calendar env) start g) None) intervals out"

definition expand_with_empty_buckets :: "ts_env \<Rightarrow> buckets \<Rightarrow> granularity_spec \<Rightarrow> (int \<times> int) list \<Rightarrow> filled option" where
  "expand_with_empty_buckets env buckets g intervals =
     (let out = fold (\<lambda>(k, aggs). bt_insert k (Some aggs)) buckets [] in
      case uniform_period_ms g of
        None \<Rightarrow> Some (if out = [] \<and> is_all_granularity g then interval_buckets env g intervals out else out)
      | Some period \<Rightarrow>
          if out = [] then Some (interval_buckets env g intervals out)
          else fill_groups period (fold (extend_group (next_coarser_period_ms period)) (hm_keys buckets) []) out)"

section \<open>Results\<close>

definition result_row :: "ts_env \<Rightarrow> bool \<Rightarrow> ts_query \<Rightarrow> int \<times> aggregator list option \<Rightarrow> ts_result" where
  "result_row env legacy q e =
     (case e of (key, aggs_opt) \<Rightarrow>
        \<lparr>tr_timestamp = format_epoch_millis env key,
         tr_result = fold (\<lambda>(i, spec) m. hm_insert (agg_name spec)
             (case aggs_opt of Some aggs \<Rightarrow> get legacy (aggs ! i) | None \<Rightarrow> empty_bucket_value legacy spec) m)
           (enumerate 0 (tq_aggregations q)) []\<rparr>)"

text \<open>The row-oriented path; \<open>None\<close> when the filling of empty buckets does not end.\<close>

definition execute_rows :: "ts_env \<Rightarrow> bool \<Rightarrow> ts_query \<Rightarrow> segment_data \<Rightarrow> (int \<times> int) list \<Rightarrow> int list \<Rightarrow> ts_result list option" where
  "execute_rows env legacy q seg intervals timestamps =
     (let (row, buckets) = row_loop env legacy q seg intervals 0 (take (sd_num_rows seg) timestamps) (build_row_prealloc seg, []);
          filled = (if unwrap_or_false (tq_skip_empty q)
             then Some (fold (\<lambda>(k, aggs). bt_insert k (Some aggs)) buckets [])
             else expand_with_empty_buckets env buckets (tq_granularity q) intervals)
      in map_option (\<lambda>entries.
           map (result_row env legacy q) (if unwrap_or_false (tq_descending q) then rev entries else entries)) filled)"

section \<open>The vectorized path\<close>

definition plan_of :: "segment_data \<Rightarrow> aggregator_spec \<Rightarrow> agg_plan option" where
  "plan_of seg spec =
     (case spec of
        CountSpec _ \<Rightarrow> Some PlanCount
      | LongSumSpec _ field \<Rightarrow>
          (case hm_get (sd_columns seg) field of Some (Long v) \<Rightarrow> Some (PlanLongSum v) | _ \<Rightarrow> None)
      | DoubleSumSpec _ field \<Rightarrow>
          (case hm_get (sd_columns seg) field of Some (Double v) \<Rightarrow> Some (PlanDoubleSum v) | _ \<Rightarrow> None)
      | _ \<Rightarrow> None)"

fun init_acc :: "agg_plan \<Rightarrow> acc" where
  "init_acc PlanCount = AccCount 0"
| "init_acc (PlanLongSum _) = AccLong 0"
| "init_acc (PlanDoubleSum _) = AccDouble (Fin 0) False"

fun acc_step :: "nat \<Rightarrow> agg_plan \<Rightarrow> acc \<Rightarrow> acc" where
  "acc_step row PlanCount (AccCount c) = AccCount (c + 1)"
| "acc_step row (PlanLongSum v) (AccLong s) =
     (case get_at v row of Some x \<Rightarrow> AccLong (wrapping_add s x) | None \<Rightarrow> AccLong s)"
| "acc_step row (PlanDoubleSum v) (AccDouble s seen) =
     (case get_at v row of
        Some x \<Rightarrow> if is_nan x then AccDouble s seen else AccDouble (f64_add s x) True
      | None \<Rightarrow> AccDouble s seen)"
| "acc_step row _ acc = acc"

definition accumulate :: "agg_plan list \<Rightarrow> (nat \<Rightarrow> bool) \<Rightarrow> nat list \<Rightarrow> acc list \<times> u64" where
  "accumulate plans keep rows =
     fold (\<lambda>row (acc, matched). if keep row then (map2 (acc_step row) plans acc, matched + 1) else (acc, matched))
       rows (map init_acc plans, 0)"

fun acc_merge :: "acc \<Rightarrow> acc \<Rightarrow> acc" where
  "acc_merge (AccCount x) (AccCount y) = AccCount (x + y)"
| "acc_merge (AccLong x) (AccLong y) = AccLong (wrapping_add x y)"
| "acc_merge (AccDouble x sx) (AccDouble y sy) = AccDouble (f64_add x y) (sx \<or> sy)"
| "acc_merge a b = a"

definition combine :: "acc list \<times> u64 \<Rightarrow> acc list \<times> u64 \<Rightarrow> acc list \<times> u64" where
  "combine a b = (map2 acc_merge (fst a) (fst b), snd a + snd b)"

definition PAR_MIN :: nat where "PAR_MIN = 250000"

definition scan :: "ts_env \<Rightarrow> agg_plan list \<Rightarrow> (nat \<Rightarrow> bool) \<Rightarrow> nat \<Rightarrow> nat \<Rightarrow> acc list \<times> u64" where
  "scan env plans keep lo hi =
     (let len = hi - lo in
      if PAR_MIN \<le> len \<and> 1 < te_threads env then
        let chunk = max (div_ceil len (te_threads env * 4)) (2 ^ 14);
            starts = map (\<lambda>c. lo + c * chunk) [0..<div_ceil len chunk]
        in te_reduce env combine (map init_acc plans, 0)
             (map (\<lambda>start. accumulate plans keep [start..<min (start + chunk) hi]) starts)
      else accumulate plans keep [lo..<hi])"

fun acc_value :: "acc \<Rightarrow> json" where
  "acc_value (AccCount c) = JNumber (PosInt c)"
| "acc_value (AccLong s) = JNumber (number_from_i64 s)"
| "acc_value (AccDouble s seen) = (if seen then json_from_f64 s else JNull)"

definition try_vectorized_all :: "ts_env \<Rightarrow> bool \<Rightarrow> ts_query \<Rightarrow> segment_data \<Rightarrow> (int \<times> int) list \<Rightarrow> (ts_result list option, druid_error) res" where
  "try_vectorized_all env legacy q seg intervals =
     (if \<not> is_all_granularity (tq_granularity q) \<or> legacy then Ok None
      else case those (map (plan_of seg) (tq_aggregations q)) of
        None \<Rightarrow> Ok None
      | Some plans \<Rightarrow>
          bind (timestamp_column seg) (\<lambda>timestamps.
          let num_rows = min (sd_num_rows seg) (length timestamps) in
          case compile_vectorized_filter legacy (tq_filter q) seg of
            None \<Rightarrow> Ok None
          | Some compiled \<Rightarrow>
              (let (lo, hi, check) = (case pruned_row_range timestamps intervals (sd_time_sorted seg) of
                      Some (l, h) \<Rightarrow> (l, min h num_rows, False)
                    | None \<Rightarrow> (0, num_rows, intervals \<noteq> []));
                   keep = (\<lambda>row. (check \<longrightarrow> list_ex (\<lambda>(s, e). s \<le> timestamps ! row \<and> timestamps ! row < e) intervals) \<and>
                      (case compiled of None \<Rightarrow> True | Some cf \<Rightarrow> eval cf row));
                   (acc, matched) = scan env plans keep lo hi
               in if matched = 0 then Ok (Some [])
                  else Ok (Some [\<lparr>tr_timestamp = format_epoch_millis env 0,
                    tr_result = fold (\<lambda>(k, spec). hm_insert (agg_name spec) (acc_value (acc ! k)))
                      (enumerate 0 (tq_aggregations q)) []\<rparr>]))))"

section \<open>Execution\<close>

definition check_filter :: "(filter_spec \<Rightarrow> (unit, druid_error) res) \<Rightarrow> ts_query \<Rightarrow> (unit, druid_error) res" where
  "check_filter c q = (case tq_filter q of None \<Rightarrow> Ok () | Some f \<Rightarrow> c f)"

definition execute :: "ts_env \<Rightarrow> bool \<Rightarrow> ts_query \<Rightarrow> segment_data \<Rightarrow> (ts_result list, druid_error) res option" where
  "execute env legacy q seg =
     (case bind (check_filter (validate (te_lib env)) q) (\<lambda>_.
           bind (validate_granularity (tq_granularity q)) (\<lambda>_.
           bind (ensure_aggregations_not_multi_value seg (tq_aggregations q)) (\<lambda>_.
           bind (check_filter (ensure_multi_value_supported seg []) q) (\<lambda>_.
           bind (parse_intervals (te_lib env) (tq_intervals q)) (\<lambda>intervals.
           bind (timestamp_column seg) (\<lambda>timestamps.
           bind (try_vectorized_all env legacy q seg intervals) (\<lambda>fast. Ok (intervals, timestamps, fast)))))))) of
        Inl e \<Rightarrow> Some (Inl e)
      | Inr (intervals, timestamps, Some rows) \<Rightarrow> Some (Ok rows)
      | Inr (intervals, timestamps, None) \<Rightarrow> map_option Ok (execute_rows env legacy q seg intervals timestamps))"

end
