(* ===== verification/Query_Filter_Properties.thy ===== *)
theory Query_Filter_Properties
  imports Query_Filter
begin

text \<open>
  The three ways to evaluate a filter agree: on a row built from the segment, on the typed columns, and
  compiled against them. The one exception is an infinite value, which a row shows as null.
\<close>

section \<open>Rows built from a segment\<close>

lemma hm_get_Cons: "hm_get ((n, c) # m) name = (if name = n then Some c else hm_get m name)"
  by (simp add: hm_get_def)

lemma fold_insert_get:
  "distinct (map fst cols) \<Longrightarrow>
     hm_get (fold (\<lambda>(name, col) row. hm_insert name (f col) row) cols row) name =
       (case hm_get cols name of Some col \<Rightarrow> Some (f col) | None \<Rightarrow> hm_get row name)"
proof (induction cols arbitrary: row)
  case (Cons p cols)
  obtain n c where p: "p = (n, c)" by fastforce
  have "hm_get cols n = None" using Cons.prems by (auto simp: p hm_get_def map_of_eq_None_iff)
  then show ?case using Cons by (auto simp: p hm_get_Cons split: option.splits)
qed simp

lemma build_row_get:
  assumes "hm_wf (sd_columns seg)"
  shows "hm_get (build_row legacy seg i) name = map_option (\<lambda>col. column_value_at legacy col i) (hm_get (sd_columns seg) name)"
  using assms fold_insert_get [of "sd_columns seg" "\<lambda>col. column_value_at legacy col i" "[]" name]
  by (simp add: build_row_def build_row_into_def hm_wf_def hm_keys_def split: option.splits)

section \<open>Numeric cells\<close>

text \<open>What the printers of floats promise for the values of a segment: a finite value is printed to
  a text that reads back as the value. Integers are of 64 bits.\<close>

fun column_prints :: "query_lib \<Rightarrow> column_data \<Rightarrow> bool" where
  "column_prints L (Long v) = (\<forall>x \<in> set v. - (2 ^ 63) \<le> x \<and> x < 2 ^ 63)"
| "column_prints L (Double v) = (\<forall>x \<in> set v. x = NaN \<or> is_finite x \<and> parse_f64 (number_display (prn L) x) = Some x)"
| "column_prints L (FloatCol v) = (\<forall>x \<in> set v. x = NaN \<or> is_finite x \<and> parse_f64 (number_display (prn L) x) = Some x)"
| "column_prints L _ = True"

definition segment_prints :: "query_lib \<Rightarrow> segment_data \<Rightarrow> bool" where
  "segment_prints L seg \<longleftrightarrow> hm_wf (sd_columns seg) \<and> (\<forall>name col. hm_get (sd_columns seg) name = Some col \<longrightarrow> column_prints L col)"

lemma number_text_i64:
  assumes "- (2 ^ 63) \<le> n" and "n < 2 ^ 63"
  shows "parse_f64 (number_text L (number_from_i64 n)) = Some (f64_of_int n)"
proof (cases "0 \<le> n")
  case True
  have "uint (of_int n :: u64) = n" using True assms by (simp add: uint_word_of_int)
  then have "unat (of_int n :: u64) = nat n" unfolding unat_eq_nat_uint by simp
  with True show ?thesis by (simp add: number_from_i64_def number_text_def parse_f64_show_nat)
next
  case False
  then show ?thesis using parse_f64_negative [of "nat (- n)"] by (simp add: number_from_i64_def number_text_def)
qed

text \<open>A cell as the row shows it to a bound: its text, or nothing for a null.\<close>

definition shows_cell :: "query_lib \<Rightarrow> json \<Rightarrow> f64 option \<Rightarrow> bool" where
  "shows_cell L j c \<longleftrightarrow>
     (if c = None \<or> c = Some NaN then row_value_strings L (Some j) = []
      else \<exists>s. row_value_strings L (Some j) = [s] \<and> parse_f64 s = c)"

lemma float_cell_shown:
  assumes "\<forall>x \<in> set v. x = NaN \<or> is_finite x \<and> parse_f64 (number_display (prn L) x) = Some x"
  shows "shows_cell L (float_cell False v i) (get_at v i)"
proof (cases "i < length v")
  case True
  then have "v ! i = NaN \<or> is_finite (v ! i) \<and> parse_f64 (number_display (prn L) (v ! i)) = Some (v ! i)"
    using assms nth_mem by blast
  then show ?thesis using True
    by (cases "v ! i") (simp_all add: shows_cell_def get_at_def float_cell_def json_from_f64_def number_from_f64_def
        is_finite_def row_value_strings_def value_to_string_def number_text_def)
qed (simp add: shows_cell_def get_at_def float_cell_def row_value_strings_def)

lemma long_cell_shown:
  assumes "\<forall>x \<in> set v. - (2 ^ 63) \<le> x \<and> x < 2 ^ 63"
  shows "shows_cell L (column_value_at False (Long v) i) (map_option f64_of_int (get_at v i))"
proof (cases "i < length v")
  case True
  then have "- (2 ^ 63) \<le> v ! i" "v ! i < 2 ^ 63" using assms nth_mem by blast+
  then have "parse_f64 (number_text L (number_from_i64 (v ! i))) = Some (f64_of_int (v ! i))"
    by (rule number_text_i64)
  moreover have "f64_of_int (v ! i) \<noteq> NaN" by (simp add: f64_of_int_def round64_def round_to_def Let_def)
  ultimately show ?thesis using True
    by (simp add: shows_cell_def get_at_def column_value_at_def option_null_def row_value_strings_def value_to_string_def)
qed (simp add: shows_cell_def get_at_def column_value_at_def option_null_def row_value_strings_def)

lemma typed_cell_shown:
  assumes "column_prints L col" and "num_slice col \<noteq> None"
  shows "shows_cell L (column_value_at False col i) (typed_cell col i)"
  using assms
proof (cases col)
  case (Double v)
  with assms show ?thesis using float_cell_shown [of v L i] by (simp add: column_value_at_def typed_cell_def)
next
  case (FloatCol v)
  with assms show ?thesis using float_cell_shown [of v L i] by (simp add: column_value_at_def typed_cell_def)
qed (use long_cell_shown in \<open>simp_all add: typed_cell_def num_slice_def\<close>)

section \<open>Bounds\<close>

lemma within_bounds_compiled:
  assumes "parse_bound lower = Some lo" and "parse_bound upper = Some hi"
  shows "within_bounds f64_le f64_lt parse_f64 lower ls upper us rv \<longleftrightarrow>
     (case lo of None \<Rightarrow> True | Some l \<Rightarrow> \<not> below f64_le f64_lt ls rv l) \<and>
     (case hi of None \<Rightarrow> True | Some h \<Rightarrow> \<not> above f64_le f64_lt us rv h)"
  using assms by (auto simp: within_bounds_def parse_bound_def split: option.splits)

lemma typed_bound_in_bounds:
  assumes "typed_bound lower upper ls us rv = Some b" and "rv \<noteq> NaN"
  shows "b \<longleftrightarrow> within_bounds f64_le f64_lt parse_f64 lower (unwrap_or_false ls) upper (unwrap_or_false us) rv"
  using assms by (auto simp: typed_bound_def typed_upper_def within_bounds_def is_nan_def split: option.splits if_splits)

lemma row_bound:
  assumes "shows_cell L j c"
  shows "list_ex (bound_matches lower upper ls us (Some ''numeric'')) (row_value_strings L (Some j)) \<longleftrightarrow>
     (\<exists>rv. c = Some rv \<and> rv \<noteq> NaN \<and>
        within_bounds f64_le f64_lt parse_f64 lower (unwrap_or_false ls) upper (unwrap_or_false us) rv)"
  using assms by (cases c) (auto simp: shows_cell_def bound_matches_def split: if_splits)

lemma num_get_slice: "num_slice col = Some nc \<Longrightarrow> num_get nc i = typed_cell col i"
  by (cases col) (auto simp: num_slice_def typed_cell_def)

lemma those_map: "those (map g fs) = Some cs \<longleftrightarrow> list_all2 (\<lambda>h c. g h = Some c) fs cs"
proof (induction fs arbitrary: cs)
  case (Cons h fs)
  then show ?case by (auto simp: list_all2_Cons1 split: option.splits)
qed auto

lemma list_all2_all: "list_all2 R xs ys \<Longrightarrow> (\<And>x y. x \<in> set xs \<Longrightarrow> R x y \<Longrightarrow> P x = Q y) \<Longrightarrow> list_all P xs = list_all Q ys"
  by (induction rule: list_all2_induct) auto

lemma list_all2_ex: "list_all2 R xs ys \<Longrightarrow> (\<And>x y. x \<in> set xs \<Longrightarrow> R x y \<Longrightarrow> P x = Q y) \<Longrightarrow> list_ex P xs = list_ex Q ys"
  by (induction rule: list_all2_induct) auto

lemma compiled_boundE:
  assumes "compile_typed legacy seg (Bound dimension lower upper ls us ord) = Some cf"
  obtains col nc lo hi where "hm_get (sd_columns seg) dimension = Some col" "num_slice col = Some nc"
    "parse_bound lower = Some lo" "parse_bound upper = Some hi" "cf = CBound nc lo (unwrap_or_false ls) hi (unwrap_or_false us)"
    "\<not> legacy" "ord = Some ''numeric''"
  using assms by (auto split: if_splits option.splits simp: bind_eq_Some_conv)

lemma segment_printsD:
  assumes "segment_prints L seg" and "hm_get (sd_columns seg) name = Some col"
  shows "hm_wf (sd_columns seg)" "column_prints L col"
  using assms by (auto simp: segment_prints_def)

lemma eval_matches:
  "compile_typed legacy seg f = Some cf \<Longrightarrow> segment_prints L seg \<Longrightarrow> eval cf i = matches L legacy f (build_row legacy seg i)"
proof (induction legacy seg f arbitrary: cf rule: compile_typed.induct)
  case (1 legacy seg fs)
  then obtain cs where cs: "cf = CAnd cs" "list_all2 (\<lambda>f c. compile_typed legacy seg f = Some c) fs cs" "\<not> legacy"
    by (auto simp: those_map split: if_splits)
  have "list_all (\<lambda>f. matches L legacy f (build_row legacy seg i)) fs = list_all (\<lambda>c. eval c i) cs"
    using 1(1) [OF cs(3) _ _ 1(3)] by (intro list_all2_all [OF cs(2)]) simp
  then show ?case by (simp add: cs(1))
next
  case (2 legacy seg fs)
  then obtain cs where cs: "cf = COr cs" "list_all2 (\<lambda>f c. compile_typed legacy seg f = Some c) fs cs" "\<not> legacy"
    by (auto simp: those_map split: if_splits)
  have "list_ex (\<lambda>f. matches L legacy f (build_row legacy seg i)) fs = list_ex (\<lambda>c. eval c i) cs"
    using 2(1) [OF cs(3) _ _ 2(3)] by (intro list_all2_ex [OF cs(2)]) simp
  then show ?case by (simp add: cs(1))
next
  case (6 legacy seg dimension lower upper ls us ord)
  from 6(1) obtain col nc lo hi where c: "hm_get (sd_columns seg) dimension = Some col" "num_slice col = Some nc"
    "parse_bound lower = Some lo" "parse_bound upper = Some hi" "cf = CBound nc lo (unwrap_or_false ls) hi (unwrap_or_false us)"
    "\<not> legacy" "ord = Some ''numeric''"
    by (rule compiled_boundE)
  note seg = segment_printsD [OF 6(2) c(1)]
  have "shows_cell L (column_value_at False col i) (typed_cell col i)" using seg(2) c(2) by (intro typed_cell_shown) auto
  from row_bound [OF this] show ?case
    using c build_row_get [OF seg(1)] within_bounds_compiled [OF c(3,4)] num_get_slice [OF c(2)]
    by (auto simp: is_nan_def split: option.splits)
qed (auto split: if_splits)

lemma typed_all_map:
  "typed_all (map g fs) = Some b \<Longrightarrow> (\<And>f b. f \<in> set fs \<Longrightarrow> g f = Some b \<Longrightarrow> P f = b) \<Longrightarrow> list_all P fs = b"
proof (induction fs)
  case (Cons f fs)
  then show ?case by (cases "g f") (auto split: if_splits)
qed simp

lemma typed_any_map:
  "typed_any (map g fs) = Some b \<Longrightarrow> (\<And>f b. f \<in> set fs \<Longrightarrow> g f = Some b \<Longrightarrow> P f = b) \<Longrightarrow> list_ex P fs = b"
proof (induction fs)
  case (Cons f fs)
  then show ?case by (cases "g f") (auto split: if_splits)
qed simp

lemma typed_boundE:
  assumes "matches_typed legacy seg i (Bound dimension lower upper ls us ord) = Some b"
  obtains col rv where "hm_get (sd_columns seg) dimension = Some col" "typed_cell col i = Some rv" "num_slice col \<noteq> None"
    "typed_bound lower upper ls us rv = Some b" "\<not> legacy" "ord = Some ''numeric''"
  using assms by (auto simp: typed_cell_def num_slice_def split: if_splits option.splits column_data.splits)

lemma typed_matches:
  "matches_typed legacy seg i f = Some b \<Longrightarrow> segment_prints L seg \<Longrightarrow> matches L legacy f (build_row legacy seg i) = b"
proof (induction legacy seg i f arbitrary: b rule: matches_typed.induct)
  case (1 legacy seg i fs)
  then show ?case using typed_all_map [of "matches_typed legacy seg i" fs b] by (auto split: if_splits)
next
  case (2 legacy seg i fs)
  then show ?case using typed_any_map [of "matches_typed legacy seg i" fs b] by (auto split: if_splits)
next
  case (6 legacy seg i dimension lower upper ls us ord)
  from 6(1) obtain col rv where c: "hm_get (sd_columns seg) dimension = Some col" "typed_cell col i = Some rv"
    "num_slice col \<noteq> None" "typed_bound lower upper ls us rv = Some b" "\<not> legacy" "ord = Some ''numeric''"
    by (rule typed_boundE)
  note seg = segment_printsD [OF 6(2) c(1)]
  from row_bound [OF typed_cell_shown [OF seg(2) c(3), of i]] show ?case
    using c build_row_get [OF seg(1)] typed_bound_in_bounds [OF c(4)]
    by (auto simp: typed_bound_def is_nan_def split: if_splits)
qed (auto split: if_splits)

section \<open>Properties\<close>

definition test_printers :: printers where
  "test_printers = \<lparr>f64_display = (\<lambda>x. if x = Fin 7 then show_nat 7 else show_nat 2),
     number_display = (\<lambda>x. if x = Fin 7 then show_nat 7 else show_nat 2), json_display = (\<lambda>_. [])\<rparr>"

definition test_lib :: query_lib where
  "test_lib = \<lparr>prn = test_printers, regex_new = (\<lambda>_. None), regex_escape = (\<lambda>s. s), decode_bloom_filter = (\<lambda>_. Inl []),
     rfc3339_millis = (\<lambda>_. None), datetime_millis = (\<lambda>_. None), date_millis = (\<lambda>_. None)\<rparr>"

definition test_segment :: segment_data where
  "test_segment = \<lparr>sd_num_rows = 3, sd_dimensions = [], sd_metrics = [''price''],
     sd_columns = [(''__time'', Long [10, 20, 30]), (''price'', Double [Fin 2, NaN, Fin 7])], sd_time_sorted = True\<rparr>"

definition test_filter :: filter_spec where
  "test_filter = And [Bound ''price'' (Some (show_nat 2)) None (Some True) None (Some ''numeric''),
     Not (Bound ''__time'' None (Some (show_nat 15)) None None (Some ''numeric''))]"

lemma test_segment_prints: "segment_prints test_lib test_segment"
  by (auto simp: segment_prints_def test_segment_def hm_get_def hm_wf_def hm_keys_def test_lib_def test_printers_def
      parse_f64_show_nat f64_of_int_exact is_finite_def split: if_splits)

text \<open>C6: The compiled filter is the filter: whenever a filter compiles against a segment whose floats print
  exactly (no infinities), evaluating it on a row number gives what the filter says of the row built from the
  segment. Nulls (NaN) and row numbers out of range are covered, under negation too.\<close>

theorem compiled_filter_agrees:
  assumes "segment_prints L seg" and "compile_typed legacy seg f = Some cf"
  shows "eval cf i = matches L legacy f (build_row legacy seg i)"
  using assms eval_matches by blast

theorem compiled_filter_agrees_witness:
  "\<exists>cf. compile_typed False test_segment test_filter = Some cf \<and> segment_prints test_lib test_segment \<and>
     eval cf 2 = matches test_lib False test_filter (build_row False test_segment 2) \<and>
     eval cf 1 = matches test_lib False test_filter (build_row False test_segment 1)"
proof -
  let ?cf = "CAnd [CBound (DoubleSlice [Fin 2, NaN, Fin 7]) (Some (Fin 2)) True None False,
      CNot (CBound (LongSlice [10, 20, 30]) None False (Some (Fin 15)) False)]"
  have c: "compile_typed False test_segment test_filter = Some ?cf"
    by (simp add: test_filter_def test_segment_def hm_get_def num_slice_def parse_bound_def parse_f64_show_nat
        f64_of_int_exact unwrap_or_false_def)
  show ?thesis
    using c test_segment_prints compiled_filter_agrees [OF test_segment_prints c, of 2]
      compiled_filter_agrees [OF test_segment_prints c, of 1] by blast
qed

text \<open>The typed matcher is sound: whenever it decides a row from the columns, the decision is the one
  the filter makes on the row built from the segment.\<close>

theorem typed_filter_agrees:
  assumes "segment_prints L seg" and "matches_typed legacy seg i f = Some b"
  shows "matches L legacy f (build_row legacy seg i) = b"
  using assms typed_matches by blast

theorem typed_filter_agrees_witness:
  "matches test_lib False test_filter (build_row False test_segment 2)"
proof -
  have "matches_typed False test_segment 2 test_filter = Some True"
    by (simp add: test_filter_def test_segment_def hm_get_def typed_cell_def get_at_def typed_bound_def typed_upper_def
        parse_f64_show_nat f64_of_int_exact unwrap_or_false_def is_nan_def below_def above_def f64_le_def f64_lt_def is_finite_def)
  from typed_filter_agrees [OF test_segment_prints this] show ?thesis by simp
qed

text \<open>An infinite value breaks the agreement: a lower bound accepts it when the filter is compiled, and
  rejects it on the row, where the value is null.\<close>

theorem infinite_cell_diverges:
  assumes "hm_wf (sd_columns seg)" and "hm_get (sd_columns seg) d = Some (Double v)" and "i < length v" and "v ! i = PosInf"
    and "parse_f64 lo = Some l" and "is_finite l"
  shows "\<exists>cf. compile_typed False seg (Bound d (Some lo) None None None (Some ''numeric'')) = Some cf \<and> eval cf i \<and>
     \<not> matches L False (Bound d (Some lo) None None None (Some ''numeric'')) (build_row False seg i)"
proof -
  have "\<not> f64_lt PosInf l" using assms(6) by (simp add: f64_lt_def f64_le_def is_finite_def)
  then have "eval (CBound (DoubleSlice v) (Some l) False None False) i"
    using assms(3,4) by (simp add: get_at_def is_nan_def below_def)
  moreover have "row_value_strings L (Some (column_value_at False (Double v) i)) = []"
    using assms(3,4) by (simp add: column_value_at_def float_cell_def get_at_def json_from_f64_def number_from_f64_def
        is_finite_def row_value_strings_def)
  ultimately show ?thesis
    using assms by (simp add: num_slice_def parse_bound_def unwrap_or_false_def build_row_get)
qed

theorem infinite_cell_diverges_witness:
  "\<exists>cf. eval cf 0 \<and> \<not> matches test_lib False (Bound ''price'' (Some (show_nat 2)) None None None (Some ''numeric''))
     (build_row False (test_segment\<lparr>sd_columns := [(''price'', Double [PosInf])]\<rparr>) 0)"
proof -
  let ?seg = "test_segment\<lparr>sd_columns := [(''price'', Double [PosInf])]\<rparr>"
  have "hm_wf (sd_columns ?seg)" "hm_get (sd_columns ?seg) ''price'' = Some (Double [PosInf])"
    "parse_f64 (show_nat 2) = Some (Fin 2)" "is_finite (Fin 2)"
    by (simp_all add: hm_wf_def hm_keys_def hm_get_def parse_f64_show_nat f64_of_int_exact is_finite_def)
  from infinite_cell_diverges [OF this(1,2) _ _ this(3,4), of 0 test_lib] show ?thesis by auto
qed

end
