(* ===== verification/Timeseries_Properties.thy ===== *)
theory Timeseries_Properties
  imports Timeseries Query_Filter_Properties
begin

text \<open>
  The vectorized path against the row loop, and the filling of empty buckets. Both paths are reduced
  to one fold over the rows that pass the intervals and the filter.
\<close>

section \<open>Rows that pass\<close>

fun kept :: "(nat \<Rightarrow> 'a \<Rightarrow> bool) \<Rightarrow> nat \<Rightarrow> 'a list \<Rightarrow> nat list" where
  "kept P i [] = []"
| "kept P i (x # xs) = (if P i x then i # kept P (Suc i) xs else kept P (Suc i) xs)"

lemma kept_filter: "kept P i xs = filter (\<lambda>j. P j (xs ! (j - i))) [i..<i + length xs]"
proof (induction xs arbitrary: i)
  case (Cons x xs)
  have "filter (\<lambda>j. P j ((x # xs) ! (j - i))) [Suc i..<Suc i + length xs] = filter (\<lambda>j. P j (xs ! (j - Suc i))) [Suc i..<Suc i + length xs]"
    by (rule filter_cong) (auto simp: nth_Cons')
  then show ?case using Cons [of "Suc i"] by (simp add: upt_conv_Cons del: upt_Suc)
qed simp

lemma filter_subrange:
  assumes "hi \<le> n"
  shows "filter P [lo..<hi] = filter (\<lambda>i. lo \<le> i \<and> i < hi \<and> P i) [0..<n]"
proof -
  have "[0..<n] = [0..<hi] @ [hi..<n]" "[0..<hi] = [0..<min lo hi] @ [min lo hi..<hi]"
    using assms upt_add_eq_append [of 0 hi "n - hi"] upt_add_eq_append [of 0 "min lo hi" "hi - min lo hi"] by simp_all
  moreover have "filter (\<lambda>i. lo \<le> i \<and> i < hi \<and> P i) [min lo hi..<hi] = filter P [lo..<hi]"
    by (cases "lo \<le> hi") (auto intro: filter_cong)
  ultimately show ?thesis by (auto simp: filter_empty_conv)
qed

section \<open>Rows and filters\<close>

definition row_inv :: "segment_data \<Rightarrow> row \<Rightarrow> bool" where
  "row_inv seg row \<longleftrightarrow> (\<forall>name. hm_get (sd_columns seg) name = None \<longrightarrow> hm_get row name = None)"

lemma row_inv_prealloc: "row_inv seg (build_row_prealloc seg)"
  by (force simp: row_inv_def build_row_prealloc_def hm_get_def map_of_eq_None_iff)

lemma update_only_get:
  assumes "hm_wf (sd_columns seg)" and "row_inv seg row"
  shows "hm_get (build_row_update_only legacy seg i row) = hm_get (build_row legacy seg i)"
    and "row_inv seg (build_row_update_only legacy seg i row)"
proof -
  have "hm_get (build_row_update_only legacy seg i row) name =
      (case hm_get (sd_columns seg) name of Some col \<Rightarrow> Some (column_value_at legacy col i) | None \<Rightarrow> hm_get row name)" for name
    using fold_insert_get [of "sd_columns seg" "\<lambda>col. column_value_at legacy col i" row name] assms(1)
    by (simp add: build_row_update_only_def hm_wf_def hm_keys_def)
  note g = this
  show "row_inv seg (build_row_update_only legacy seg i row)"
    using assms(2) by (simp add: row_inv_def g)
  show "hm_get (build_row_update_only legacy seg i row) = hm_get (build_row legacy seg i)"
  proof (rule ext)
    fix name
    show "hm_get (build_row_update_only legacy seg i row) name = hm_get (build_row legacy seg i) name"
      using assms(2) by (cases "hm_get (sd_columns seg) name") (simp_all add: g build_row_get [OF assms(1)] row_inv_def)
  qed
qed

lemma list_all2_left: "list_all2 R xs ys \<Longrightarrow> x \<in> set xs \<Longrightarrow> \<exists>y. R x y"
  by (induction rule: list_all2_induct) auto

lemma compiled_matches_cong:
  "compile_typed legacy seg f = Some cf \<Longrightarrow> hm_get r = hm_get r' \<Longrightarrow> matches L legacy f r = matches L legacy f r'"
proof (induction legacy seg f arbitrary: cf rule: compile_typed.induct)
  case (1 legacy seg fs)
  then obtain cs where cs: "list_all2 (\<lambda>f c. compile_typed legacy seg f = Some c) fs cs" "\<not> legacy"
    by (auto simp: those_map split: if_splits)
  have "matches L legacy f r = matches L legacy f r'" if "f \<in> set fs" for f
    using list_all2_left [OF cs(1) that] 1(1) [OF cs(2) that _ 1(3)] by blast
  then show ?case by (simp add: list_all_iff)
next
  case (2 legacy seg fs)
  then obtain cs where cs: "list_all2 (\<lambda>f c. compile_typed legacy seg f = Some c) fs cs" "\<not> legacy"
    by (auto simp: those_map split: if_splits)
  have "matches L legacy f r = matches L legacy f r'" if "f \<in> set fs" for f
    using list_all2_left [OF cs(1) that] 2(1) [OF cs(2) that _ 2(3)] by blast
  then show ?case by (simp add: list_ex_iff)
qed (auto split: if_splits)

text \<open>What the row loop decides about a row, for a filter that compiles.\<close>

definition passes :: "compiled_filter option \<Rightarrow> nat \<Rightarrow> bool" where
  "passes compiled i = (case compiled of None \<Rightarrow> True | Some cf \<Rightarrow> eval cf i)"

lemma row_decision:
  assumes "segment_prints L seg" and "compile_typed False seg f = Some cf" and "row_inv seg row"
  shows "matches_typed False seg i f = Some b \<Longrightarrow> b = eval cf i"
    and "matches L False f (build_row_update_only False seg i row) = eval cf i"
proof -
  have wf: "hm_wf (sd_columns seg)" using assms(1) by (simp add: segment_prints_def)
  have "matches L False f (build_row_update_only False seg i row) = matches L False f (build_row False seg i)"
    by (rule compiled_matches_cong [OF assms(2) update_only_get(1) [OF wf assms(3)]])
  then show "matches L False f (build_row_update_only False seg i row) = eval cf i"
    using eval_matches [OF assms(2,1)] by simp
  show "matches_typed False seg i f = Some b \<Longrightarrow> b = eval cf i"
    using typed_matches [OF _ assms(1)] eval_matches [OF assms(2,1)] by metis
qed

text \<open>The value of a row that an aggregator is fed.\<close>

definition cell :: "segment_data \<Rightarrow> nat \<Rightarrow> aggregator_spec \<Rightarrow> json option" where
  "cell seg i spec =
     (case agg_field_name spec of
        None \<Rightarrow> Some JNull
      | Some field \<Rightarrow> map_option (\<lambda>col. column_value_at False col i) (hm_get (sd_columns seg) field))"

lemma feed_cell:
  assumes "hm_wf (sd_columns seg)" and "row_inv seg row"
  shows "feed_aggregator_row_from_map False seg i (build_row_update_only False seg i row) spec agg = aggregate (cell seg i spec) agg"
proof (cases "agg_field_name spec")
  case (Some field)
  have "hm_get (build_row_update_only False seg i row) field = map_option (\<lambda>col. column_value_at False col i) (hm_get (sd_columns seg) field)"
    unfolding update_only_get(1) [OF assms] by (rule build_row_get [OF assms(1)])
  with Some show ?thesis
    by (cases "hm_get (sd_columns seg) field") (simp_all add: feed_aggregator_row_from_map_def cell_def or_else_def extract_agg_value_def)
qed (simp add: feed_aggregator_row_from_map_def cell_def)

section \<open>The row loop for one bucket\<close>

definition feed_all :: "segment_data \<Rightarrow> ts_query \<Rightarrow> nat \<Rightarrow> aggregator list \<Rightarrow> aggregator list" where
  "feed_all seg q i aggs = map2 (\<lambda>spec. aggregate (cell seg i spec)) (tq_aggregations q) aggs"

definition all_step :: "segment_data \<Rightarrow> ts_query \<Rightarrow> nat \<Rightarrow> buckets \<Rightarrow> buckets" where
  "all_step seg q i b = hm_insert 0 (feed_all seg q i (bucket_aggs q b 0)) b"

lemma row_loop_all:
  assumes "segment_prints (te_lib env) seg" and "is_all_granularity (tq_granularity q)"
    and "compile_vectorized_filter False (tq_filter q) seg = Some compiled" and "row_inv seg row"
  shows "snd (row_loop env False q seg intervals i tss (row, b)) =
    fold (all_step seg q) (kept (\<lambda>i ts. in_intervals intervals ts \<and> passes compiled i) i tss) b"
  using assms(4)
proof (induction tss arbitrary: i row b)
  case (Cons ts tss)
  have wf: "hm_wf (sd_columns seg)" using assms(1) by (simp add: segment_prints_def)
  let ?row = "build_row_update_only False seg i row"
  note IH = Cons.IH [OF Cons.prems] Cons.IH [OF update_only_get(2) [OF wf Cons.prems]]
  have key: "bucket_timestamp (te_calendar env) ts (tq_granularity q) = 0"
    using assms(2) by (auto simp: is_all_granularity_def bucket_timestamp_def split: granularity_spec.splits)
  have feed: "map2 (feed_aggregator_row_from_map False seg i ?row) (tq_aggregations q) aggs = feed_all seg q i aggs" for aggs
    unfolding feed_all_def by (rule map_cong [OF refl]) (auto simp: feed_cell [OF wf Cons.prems])
  show ?case
  proof (cases "tq_filter q")
    case None
    then have "passes compiled i" using assms(3) by (auto simp: compile_vectorized_filter_def passes_def)
    with None show ?thesis using IH by (simp add: Let_def key feed all_step_def)
  next
    case (Some f)
    then obtain cf where cf: "compile_typed False seg f = Some cf" "compiled = Some cf"
      using assms(3) by (auto simp: compile_vectorized_filter_def)
    note d = row_decision [OF assms(1) cf(1) Cons.prems, of i]
    show ?thesis
    proof (cases "eval cf i")
      case True
      then have "matches_typed False seg i f \<noteq> Some False" using d(1) [of False] by auto
      with True show ?thesis using d(2) IH Some by (simp add: Let_def key feed all_step_def passes_def cf(2))
    next
      case False
      then have "matches_typed False seg i f \<noteq> Some True" using d(1) [of True] by auto
      with False show ?thesis using d(2) IH Some by (simp add: Let_def passes_def cf(2))
    qed
  qed
qed simp

lemma fold_all_step:
  "fold (all_step seg q) ks [] = (if ks = [] then [] else [(0, fold (feed_all seg q) ks (map create (tq_aggregations q)))])"
proof (cases ks)
  case (Cons k ks')
  have "fold (all_step seg q) js [(0, aggs)] = [(0, fold (feed_all seg q) js aggs)]" for js aggs
    by (induction js arbitrary: aggs) (simp_all add: all_step_def bucket_aggs_def hm_get_def)
  with Cons show ?thesis by (simp add: all_step_def bucket_aggs_def hm_get_def)
qed simp

section \<open>The scan\<close>

definition scan_step :: "agg_plan list \<times> (nat \<Rightarrow> bool) \<Rightarrow> nat \<Rightarrow> acc list \<times> u64 \<Rightarrow> acc list \<times> u64" where
  "scan_step k row st =
     (if snd k row then (map2 (acc_step row) (fst k) (fst st), snd st + 1) else st)"

definition scan_init :: "agg_plan list \<times> (nat \<Rightarrow> bool) \<Rightarrow> acc list \<times> u64" where
  "scan_init k = (map init_acc (fst k), 0)"

lemma accumulate_fold: "accumulate plans keep rows = fold (scan_step (plans, keep)) rows (scan_init (plans, keep))"
  unfolding accumulate_def scan_init_def
  by (rule fold_cong) (auto simp: scan_step_def fun_eq_iff)

lemma accumulate_filter:
  "accumulate plans keep rows =
     (fold (\<lambda>row. map2 (acc_step row) plans) (filter keep rows) (map init_acc plans), of_nat (length (filter keep rows)))"
proof -
  have "fold (scan_step (plans, keep)) rows (acc, n) =
      (fold (\<lambda>row. map2 (acc_step row) plans) (filter keep rows) acc, n + of_nat (length (filter keep rows)))" for acc n
    by (induction rows arbitrary: acc n) (simp_all add: scan_step_def)
  then show ?thesis by (simp add: accumulate_fold scan_init_def)
qed

text \<open>Integer sums and counts can be split over threads: their scan is mergeable.\<close>

fun int_plan :: "agg_plan \<Rightarrow> bool" where
  "int_plan (PlanDoubleSum _) = False"
| "int_plan _ = True"

fun acc_fits :: "agg_plan \<Rightarrow> acc \<Rightarrow> bool" where
  "acc_fits PlanCount (AccCount _) = True"
| "acc_fits (PlanLongSum _) (AccLong s) = in_i64 s"
| "acc_fits _ _ = False"

lemma acc_laws:
  "int_plan p \<Longrightarrow> acc_fits p (init_acc p)"
  "acc_fits p a \<Longrightarrow> acc_fits p (acc_step row p a)"
  "acc_fits p a \<Longrightarrow> acc_merge a (init_acc p) = a"
  "acc_fits p a \<Longrightarrow> acc_fits p b \<Longrightarrow> acc_merge a (acc_step row p b) = acc_step row p (acc_merge a b)"
proof -
  show "int_plan p \<Longrightarrow> acc_fits p (init_acc p)" by (cases p) (simp_all add: in_i64_def)
  show "acc_fits p a \<Longrightarrow> acc_fits p (acc_step row p a)"
    by (cases "(p, a)" rule: acc_fits.cases) (auto simp: wrapping_add_in split: option.splits)
  show "acc_fits p a \<Longrightarrow> acc_merge a (init_acc p) = a"
    by (cases "(p, a)" rule: acc_fits.cases) (simp_all add: wrapping_add_def wrap64_id)
  show "acc_fits p a \<Longrightarrow> acc_fits p b \<Longrightarrow> acc_merge a (acc_step row p b) = acc_step row p (acc_merge a b)"
    by (cases "(p, a)" rule: acc_fits.cases; cases b) (auto simp: wrapping_add_assoc split: option.splits)
qed

definition scan_fits :: "agg_plan list \<times> (nat \<Rightarrow> bool) \<Rightarrow> acc list \<times> u64 \<Rightarrow> bool" where
  "scan_fits k st \<longleftrightarrow> list_all2 acc_fits (fst k) (fst st)"

lemma map2_merge_init: "list_all2 acc_fits ps as \<Longrightarrow> map2 acc_merge as (map init_acc ps) = as"
  by (induction rule: list_all2_induct) (simp_all add: acc_laws)

lemma map2_merge_step:
  assumes "list_all2 acc_fits ps as" and "list_all2 acc_fits ps bs"
  shows "map2 acc_merge as (map2 (acc_step row) ps bs) = map2 (acc_step row) ps (map2 acc_merge as bs)"
  using assms by (induction ps as arbitrary: bs rule: list_all2_induct) (auto simp: list_all2_Cons1 acc_laws(4))

lemma list_all2_fits_step: "list_all2 acc_fits ps as \<Longrightarrow> list_all2 acc_fits ps (map2 (acc_step row) ps as)"
  by (induction rule: list_all2_induct) (simp_all add: acc_laws)

lemma list_all2_fits_init: "list_all int_plan ps \<Longrightarrow> list_all2 acc_fits ps (map init_acc ps)"
  by (induction ps) (simp_all add: acc_laws)

interpretation par: mergeable scan_init scan_step combine "\<lambda>k. list_all int_plan (fst k)" scan_fits "\<lambda>_. True"
  by unfold_locales
    (auto simp: scan_init_def scan_step_def combine_def scan_fits_def list_all2_fits_init list_all2_fits_step map2_merge_init map2_merge_step)

text \<open>The parallel reduction combines the partial results in order, grouped in any way.\<close>

definition reduce_in_order :: "ts_env \<Rightarrow> agg_plan list \<Rightarrow> bool" where
  "reduce_in_order env plans \<longleftrightarrow>
     (\<forall>parts. list_all (list_all2 acc_fits plans \<circ> fst) parts \<longrightarrow>
        te_reduce env combine (map init_acc plans, 0) parts = foldl combine (map init_acc plans, 0) parts)"

lemma chunks_concat:
  assumes "0 < chunk" and "lo \<le> hi"
  shows "concat (map (\<lambda>start. [start..<min (start + chunk) hi]) (map (\<lambda>c. lo + c * chunk) [0..<n])) = [lo..<min (lo + n * chunk) hi]"
proof (induction n)
  case (Suc n)
  show ?case
  proof (cases "lo + n * chunk \<le> hi")
    case True
    let ?e = "min (lo + n * chunk + chunk) hi"
    have "[lo..<?e] = [lo..<lo + n * chunk] @ [lo + n * chunk..<?e]"
      using True upt_add_eq_append [of lo "lo + n * chunk" "?e - (lo + n * chunk)"] by simp
    with Suc True show ?thesis by (simp add: min_def algebra_simps)
  qed (use Suc in \<open>simp add: min_def\<close>)
qed (use assms in simp)

lemma div_ceil_covers: "0 < b \<Longrightarrow> a \<le> div_ceil a b * b"
proof -
  assume "0 < b"
  have "a = a div b * b + a mod b" "a mod b < b" using \<open>0 < b\<close> by simp_all
  moreover have "(a div b + 1) * b = a div b * b + b" by simp
  ultimately show ?thesis unfolding div_ceil_def by (metis add.right_neutral add_left_mono less_imp_le order_refl)
qed

lemma scan_sequential:
  assumes "te_threads env \<le> 1 \<or> hi - lo < PAR_MIN \<or> list_all int_plan plans \<and> reduce_in_order env plans"
  shows "scan env plans keep lo hi = accumulate plans keep [lo..<hi]"
proof (cases "PAR_MIN \<le> hi - lo \<and> 1 < te_threads env")
  case True
  then have int: "list_all int_plan plans" and red: "reduce_in_order env plans" using assms by auto
  have le: "lo \<le> hi" using True unfolding PAR_MIN_def by linarith
  define chunk where "chunk = max (div_ceil (hi - lo) (te_threads env * 4)) (2 ^ 14)"
  define parts where "parts = map (\<lambda>start. [start..<min (start + chunk) hi]) (map (\<lambda>c. lo + c * chunk) [0..<div_ceil (hi - lo) chunk])"
  have pos: "0 < chunk" by (simp add: chunk_def)
  have "hi \<le> lo + div_ceil (hi - lo) chunk * chunk"
    using div_ceil_covers [OF pos, of "hi - lo"] le by simp
  then have cat: "concat parts = [lo..<hi]"
    unfolding parts_def by (simp only: chunks_concat [OF pos le] min_absorb2)
  have fits: "scan_fits (plans, keep) (accumulate plans keep rows)" for rows
    unfolding accumulate_fold using int by (intro par.state_fold par.state_empty) (simp_all add: list_all_iff)
  have "scan env plans keep lo hi = te_reduce env combine (map init_acc plans, 0) (map (accumulate plans keep) parts)"
    using True by (simp add: scan_def Let_def chunk_def parts_def comp_def)
  also have "\<dots> = foldl combine (map init_acc plans, 0) (map (accumulate plans keep) parts)"
    using red fits by (simp add: reduce_in_order_def scan_fits_def list_all_iff)
  also have "\<dots> = accumulate plans keep (concat parts)"
    using par.join_partials [of "(plans, keep)" parts "scan_init (plans, keep)"] int par.state_empty [of "(plans, keep)"]
    by (auto simp: accumulate_fold [abs_def] scan_init_def list_all_iff)
  finally show ?thesis by (simp only: cat)
qed (auto simp: scan_def Let_def)


section \<open>Accumulators and aggregators\<close>

text \<open>Every column holds a value for each row.\<close>

definition columns_full :: "segment_data \<Rightarrow> bool" where
  "columns_full seg \<longleftrightarrow> (\<forall>name col n. hm_get (sd_columns seg) name = Some col \<longrightarrow> column_num_rows col = Some n \<longrightarrow> sd_num_rows seg \<le> n)"

text \<open>The accumulator and the aggregator of one specification after \<open>k\<close> rows.\<close>

fun simulates :: "nat \<Rightarrow> agg_plan \<Rightarrow> acc \<Rightarrow> aggregator \<Rightarrow> bool" where
  "simulates k PlanCount (AccCount c) (CountAggregator n) = (c = of_nat k \<and> n = int k)"
| "simulates k (PlanLongSum _) (AccLong s) (LongSumAggregator t seen) = (s = t \<and> (seen \<longleftrightarrow> 0 < k))"
| "simulates k (PlanDoubleSum _) (AccDouble s seen) (DoubleSumAggregator t seen') = (s = t \<and> (seen \<longleftrightarrow> seen'))"
| "simulates k _ _ _ = False"

lemma simulates_init: "plan_of seg spec = Some p \<Longrightarrow> simulates 0 p (init_acc p) (create spec)"
  by (cases spec) (auto simp: plan_of_def split: option.splits column_data.splits)

lemma simulates_step:
  assumes "plan_of seg spec = Some p" and "segment_prints L seg" and "columns_full seg"
    and "i < sd_num_rows seg" and "Suc k < 2 ^ 63" and "simulates k p a agg"
  shows "simulates (Suc k) p (acc_step i p a) (aggregate (cell seg i spec) agg)"
proof (cases spec)
  case (CountSpec n)
  with assms(1,5,6) show ?thesis
    by (cases a; cases agg) (auto simp: plan_of_def cell_def aggregate_def wrapping_add_def wrap64_id in_i64_def)
next
  case (LongSumSpec n field)
  then obtain v where v: "hm_get (sd_columns seg) field = Some (Long v)" "p = PlanLongSum v"
    using assms(1) by (auto simp: plan_of_def split: option.splits column_data.splits)
  then have i: "i < length v" using assms(3,4) by (force simp: columns_full_def column_num_rows_def)
  then have "in_i64 (v ! i)" using segment_printsD [OF assms(2) v(1)] by (simp add: in_i64_def)
  then have "json_as_i64_lossy (JNumber (number_from_i64 (v ! i))) = Some (v ! i)"
    using as_i64_lossy_to_json by (simp add: i64_to_json_def)
  with i v LongSumSpec assms(6) show ?thesis
    by (cases a; cases agg) (auto simp: cell_def aggregate_def column_value_at_def get_at_def option_null_def)
next
  case (DoubleSumSpec n field)
  then obtain v where v: "hm_get (sd_columns seg) field = Some (Double v)" "p = PlanDoubleSum v"
    using assms(1) by (auto simp: plan_of_def split: option.splits column_data.splits)
  then have i: "i < length v" using assms(3,4) by (force simp: columns_full_def column_num_rows_def)
  then have "v ! i = NaN \<or> is_finite (v ! i)" using segment_printsD [OF assms(2) v(1)] by auto
  then have "is_nan (v ! i) \<and> json_as_f64 (json_from_f64 (v ! i)) = None \<or> \<not> is_nan (v ! i) \<and> json_as_f64 (json_from_f64 (v ! i)) = Some (v ! i)"
    by (cases "v ! i") (auto simp: as_f64_from_f64 is_finite_def is_nan_def json_from_f64_def number_from_f64_def)
  with i v DoubleSumSpec assms(6) show ?thesis
    by (cases a; cases agg) (auto simp: cell_def aggregate_def column_value_at_def get_at_def float_cell_def)
qed (use assms(1) in \<open>simp_all add: plan_of_def\<close>)

lemma simulates_value: "simulates k p a agg \<Longrightarrow> 0 < k \<Longrightarrow> acc_value a = get False agg"
  by (cases "(k, p, a, agg)" rule: simulates.cases) (auto simp: i64_to_json_def number_from_i64_def seen_or_def)

lemma simulates_fold:
  assumes "list_all2 (\<lambda>spec p. plan_of seg spec = Some p) (tq_aggregations q) plans" and "segment_prints L seg"
    and "columns_full seg" and "list_all (\<lambda>i. i < sd_num_rows seg) rows" and "length rows < 2 ^ 63"
    and "j < length plans"
  shows "length (fold (\<lambda>row. map2 (acc_step row) plans) rows (map init_acc plans)) = length plans \<and>
    length (fold (feed_all seg q) rows (map create (tq_aggregations q))) = length plans \<and>
    simulates (length rows) (plans ! j) (fold (\<lambda>row. map2 (acc_step row) plans) rows (map init_acc plans) ! j)
      (fold (feed_all seg q) rows (map create (tq_aggregations q)) ! j)"
  using assms(4,5)
proof (induction rows rule: rev_induct)
  case Nil
  then show ?case using assms(1,6) simulates_init by (auto simp: list_all2_conv_all_nth)
next
  case (snoc i rows)
  then have IH: "length (fold (\<lambda>row. map2 (acc_step row) plans) rows (map init_acc plans)) = length plans"
    "length (fold (feed_all seg q) rows (map create (tq_aggregations q))) = length plans"
    "simulates (length rows) (plans ! j) (fold (\<lambda>row. map2 (acc_step row) plans) rows (map init_acc plans) ! j)
      (fold (feed_all seg q) rows (map create (tq_aggregations q)) ! j)" by simp_all
  have len: "length (tq_aggregations q) = length plans" using assms(1) by (rule list_all2_lengthD)
  have p: "plan_of seg (tq_aggregations q ! j) = Some (plans ! j)" using list_all2_nthD2 [OF assms(1,6)] .
  have "simulates (Suc (length rows)) (plans ! j)
      (acc_step i (plans ! j) (fold (\<lambda>row. map2 (acc_step row) plans) rows (map init_acc plans) ! j))
      (aggregate (cell seg i (tq_aggregations q ! j)) (fold (feed_all seg q) rows (map create (tq_aggregations q)) ! j))"
    using snoc.prems by (intro simulates_step [OF p assms(2,3) _ _ IH(3)]) simp_all
  then show ?case using IH(1,2) len assms(6) by (simp add: feed_all_def [of seg q i])
qed

section \<open>Kept rows\<close>

lemma kept_rows:
  assumes "sd_time_sorted seg \<Longrightarrow> sorted timestamps"
  defines "n \<equiv> min (sd_num_rows seg) (length timestamps)"
  assumes "(lo, hi, check) = (case pruned_row_range timestamps intervals (sd_time_sorted seg) of
      Some (l, h) \<Rightarrow> (l, min h n, False) | None \<Rightarrow> (0, n, intervals \<noteq> []))"
  shows "filter (\<lambda>row. (check \<longrightarrow> list_ex (\<lambda>(s, e). s \<le> timestamps ! row \<and> timestamps ! row < e) intervals) \<and> P row) [lo..<hi] =
    kept (\<lambda>i ts. in_intervals intervals ts \<and> P i) 0 (take (sd_num_rows seg) timestamps)"
proof -
  have kept: "kept (\<lambda>i ts. in_intervals intervals ts \<and> P i) 0 (take (sd_num_rows seg) timestamps) =
      filter (\<lambda>i. in_intervals intervals (timestamps ! i) \<and> P i) [0..<n]"
    unfolding kept_filter n_def by (rule filter_cong) (auto simp: min.commute)
  show ?thesis
  proof (cases "pruned_row_range timestamps intervals (sd_time_sorted seg)")
    case None
    then show ?thesis using assms(3) unfolding kept by (auto simp: in_intervals_def intro!: filter_cong)
  next
    case (Some r)
    obtain l h where r: "r = (l, h)" by fastforce
    have sorted: "sd_time_sorted seg" using Some by (auto simp: pruned_row_range_def split: list.splits if_splits)
    then obtain s e where se: "intervals = [(s, e)]" "h \<le> length timestamps"
      "\<forall>i < length timestamps. l \<le> i \<and> i < h \<longleftrightarrow> s \<le> timestamps ! i \<and> timestamps ! i < e"
      using pruned_range [OF assms(1)] Some r by fastforce
    have eq: "lo = l" "hi = min h n" "\<not> check" using assms(3) Some r by simp_all
    show ?thesis unfolding kept eq(1,2) filter_subrange [of "min h n" n, OF min.cobounded2]
      using se(3) eq(3) by (intro filter_cong) (auto simp: in_intervals_def se(1) n_def)
  qed
qed


section \<open>Properties\<close>

lemma all_not_uniform: "is_all_granularity g \<Longrightarrow> uniform_period_ms g = None"
  by (auto simp: is_all_granularity_def uniform_period_ms_def split: granularity_spec.splits)

lemma execute_rows_all:
  assumes "is_all_granularity (tq_granularity q)"
    and "snd (row_loop env False q seg intervals 0 (take (sd_num_rows seg) timestamps) (build_row_prealloc seg, [])) = [(0, aggs)]"
  shows "execute_rows env False q seg intervals timestamps = Some [result_row env False q (0, Some aggs)]"
  using assms(2) all_not_uniform [OF assms(1)]
  by (cases "row_loop env False q seg intervals 0 (take (sd_num_rows seg) timestamps) (build_row_prealloc seg, [])")
    (simp add: execute_rows_def expand_with_empty_buckets_def)

lemma fold_enumerate_cong:
  "(\<And>k. n \<le> k \<Longrightarrow> k < length xs + n \<Longrightarrow> f k = g k) \<Longrightarrow>
     fold (\<lambda>(k, x). hm_insert (h x) (f k)) (enumerate n xs) m = fold (\<lambda>(k, x). hm_insert (h x) (g k)) (enumerate n xs) m"
  by (rule fold_cong) (auto simp: in_set_enumerate_eq)

text \<open>Everything the two paths share: the vectorized path ran, and these are its plans, its filter and the rows
  it keeps.\<close>

lemma vectorized_parts:
  assumes "try_vectorized_all env False q seg intervals = Ok (Some rs)" and "timestamp_column seg = Ok timestamps"
    and "sd_time_sorted seg \<Longrightarrow> sorted timestamps" and "te_threads env \<le> 1 \<or> length timestamps < PAR_MIN \<or>
      list_all (int_plan \<circ> the \<circ> plan_of seg) (tq_aggregations q) \<and> reduce_in_order env (map (the \<circ> plan_of seg) (tq_aggregations q))"
  obtains plans compiled rows where "is_all_granularity (tq_granularity q)"
    and "list_all2 (\<lambda>spec p. plan_of seg spec = Some p) (tq_aggregations q) plans"
    and "compile_vectorized_filter False (tq_filter q) seg = Some compiled"
    and "rows = kept (\<lambda>i ts. in_intervals intervals ts \<and> passes compiled i) 0 (take (sd_num_rows seg) timestamps)"
    and "rs = (if (of_nat (length rows) :: u64) = 0 then [] else
      [\<lparr>tr_timestamp = format_epoch_millis env 0,
        tr_result = fold (\<lambda>(k, spec). hm_insert (agg_name spec) (acc_value (fold (\<lambda>row. map2 (acc_step row) plans) rows (map init_acc plans) ! k)))
          (enumerate 0 (tq_aggregations q)) []\<rparr>])"
proof -
  from assms(1,2) obtain plans compiled where a: "is_all_granularity (tq_granularity q)"
    "those (map (plan_of seg) (tq_aggregations q)) = Some plans" "compile_vectorized_filter False (tq_filter q) seg = Some compiled"
    by (cases "is_all_granularity (tq_granularity q)"; cases "those (map (plan_of seg) (tq_aggregations q))";
        cases "compile_vectorized_filter False (tq_filter q) seg") (simp_all add: try_vectorized_all_def)
  define n where "n = min (sd_num_rows seg) (length timestamps)"
  obtain lo hi check where r: "(lo, hi, check) = (case pruned_row_range timestamps intervals (sd_time_sorted seg) of
      Some (l, h) \<Rightarrow> (l, min h n, False) | None \<Rightarrow> (0, n, intervals \<noteq> []))"
    by (metis prod_cases3)
  define keep where "keep = (\<lambda>row. (check \<longrightarrow> list_ex (\<lambda>(s, e). s \<le> timestamps ! row \<and> timestamps ! row < e) intervals) \<and> passes compiled row)"
  define rows where "rows = filter keep [lo..<hi]"
  have plans: "list_all2 (\<lambda>spec p. plan_of seg spec = Some p) (tq_aggregations q) plans" using a(2) by (simp add: those_map)
  then have "plans = map (the \<circ> plan_of seg) (tq_aggregations q)" by (induction rule: list_all2_induct) simp_all
  moreover have "hi \<le> length timestamps" using r by (auto simp: n_def split: option.splits)
  ultimately have "scan env plans keep lo hi = accumulate plans keep [lo..<hi]"
    using assms(4) by (intro scan_sequential) (auto simp: list_all_iff)
  then have scan: "scan env plans keep lo hi = (fold (\<lambda>row. map2 (acc_step row) plans) rows (map init_acc plans), of_nat (length rows))"
    by (simp add: accumulate_filter rows_def)
  have "rows = kept (\<lambda>i ts. in_intervals intervals ts \<and> passes compiled i) 0 (take (sd_num_rows seg) timestamps)"
    unfolding rows_def keep_def by (rule kept_rows [OF assms(3) r [unfolded n_def]])
  moreover have "rs = (if (of_nat (length rows) :: u64) = 0 then [] else
      [\<lparr>tr_timestamp = format_epoch_millis env 0,
        tr_result = fold (\<lambda>(k, spec). hm_insert (agg_name spec) (acc_value (fold (\<lambda>row. map2 (acc_step row) plans) rows (map init_acc plans) ! k)))
          (enumerate 0 (tq_aggregations q)) []\<rparr>])"
    using assms(1) scan
    by (simp add: try_vectorized_all_def a assms(2) Let_def r [symmetric, unfolded n_def] keep_def passes_def [abs_def] split: if_splits)
  ultimately show thesis using that [OF a(1) plans a(3)] by blast
qed


lemma kept_bound: "list_all (\<lambda>i. i < k + length xs) (kept P k xs) \<and> length (kept P k xs) \<le> length xs"
  by (simp add: kept_filter list_all_iff length_filter_le [THEN order_trans])

lemma of_nat_zero_u64:
  assumes "n < 2 ^ 63"
  shows "(of_nat n :: u64) = 0 \<longleftrightarrow> n = 0"
proof -
  have "unat (of_nat n :: u64) = n" using assms by (simp add: unat_of_nat)
  then show ?thesis using unat_eq_0 [of "of_nat n :: u64"] by simp
qed

text \<open>C8: The vectorized path returns what the row loop returns, whenever it finds a row: same bucket, same
  value of every count and sum, for every filter it compiles, with or without pruning of sorted rows. Above the
  parallel threshold this needs a reduction that combines the partial results in order, and sums of integers only
  (floating-point addition is not associative).\<close>

theorem fast_path_agrees:
  assumes "try_vectorized_all env False q seg intervals = Ok (Some rs)" and "rs \<noteq> []"
    and "timestamp_column seg = Ok timestamps" and "sd_time_sorted seg \<Longrightarrow> sorted timestamps"
    and "te_threads env \<le> 1 \<or> length timestamps < PAR_MIN \<or>
      list_all (int_plan \<circ> the \<circ> plan_of seg) (tq_aggregations q) \<and> reduce_in_order env (map (the \<circ> plan_of seg) (tq_aggregations q))"
    and "segment_prints (te_lib env) seg" and "columns_full seg" and "length timestamps < 2 ^ 63"
  shows "execute_rows env False q seg intervals timestamps = Some rs"
proof -
  obtain plans compiled rows where v: "is_all_granularity (tq_granularity q)"
    "list_all2 (\<lambda>spec p. plan_of seg spec = Some p) (tq_aggregations q) plans"
    "compile_vectorized_filter False (tq_filter q) seg = Some compiled"
    "rows = kept (\<lambda>i ts. in_intervals intervals ts \<and> passes compiled i) 0 (take (sd_num_rows seg) timestamps)"
    "rs = (if (of_nat (length rows) :: u64) = 0 then [] else
      [\<lparr>tr_timestamp = format_epoch_millis env 0,
        tr_result = fold (\<lambda>(k, spec). hm_insert (agg_name spec) (acc_value (fold (\<lambda>row. map2 (acc_step row) plans) rows (map init_acc plans) ! k)))
          (enumerate 0 (tq_aggregations q)) []\<rparr>])"
    using vectorized_parts [OF assms(1,3,4,5)] by blast
  have rows: "list_all (\<lambda>i. i < sd_num_rows seg) rows" "length rows < 2 ^ 63"
    using kept_bound [of 0 "take (sd_num_rows seg) timestamps"] assms(8) unfolding v(4) by (auto simp: list_all_iff intro: le_less_trans)
  have some: "rows \<noteq> []" using assms(2) v(5) by auto
  have vals: "acc_value (fold (\<lambda>row. map2 (acc_step row) plans) rows (map init_acc plans) ! k) =
      get False (fold (feed_all seg q) rows (map create (tq_aggregations q)) ! k)" if "k < length (tq_aggregations q)" for k
    using simulates_fold [OF v(2) assms(6,7) rows, of k] list_all2_lengthD [OF v(2)] that some simulates_value by auto
  have "snd (row_loop env False q seg intervals 0 (take (sd_num_rows seg) timestamps) (build_row_prealloc seg, [])) =
      [(0, fold (feed_all seg q) rows (map create (tq_aggregations q)))]"
    unfolding row_loop_all [OF assms(6) v(1,3) row_inv_prealloc] v(4) [symmetric] fold_all_step using some by simp
  note run = execute_rows_all [OF v(1) this]
  have "rs = [\<lparr>tr_timestamp = format_epoch_millis env 0,
      tr_result = fold (\<lambda>(k, spec). hm_insert (agg_name spec) (acc_value (fold (\<lambda>row. map2 (acc_step row) plans) rows (map init_acc plans) ! k)))
        (enumerate 0 (tq_aggregations q)) []\<rparr>]"
    using v(5) assms(2) by (auto split: if_splits)
  also have "\<dots> = [result_row env False q (0, Some (fold (feed_all seg q) rows (map create (tq_aggregations q))))]"
    using fold_enumerate_cong [of 0 "tq_aggregations q", OF vals] by (simp add: result_row_def)
  finally show ?thesis using run by simp
qed

text \<open>When no row matches, the two paths differ: the vectorized path returns no row, the row loop one row
  for the whole range with the empty values (count zero, sums null), unless the query skips empty buckets or has
  no interval.\<close>

theorem fast_path_empty_differs:
  assumes "try_vectorized_all env False q seg intervals = Ok (Some [])" and "timestamp_column seg = Ok timestamps"
    and "sd_time_sorted seg \<Longrightarrow> sorted timestamps" and "te_threads env \<le> 1 \<or> length timestamps < PAR_MIN"
    and "segment_prints (te_lib env) seg" and "length timestamps < 2 ^ 63" and "\<not> unwrap_or_false (tq_skip_empty q)" and "intervals \<noteq> []"
  shows "execute_rows env False q seg intervals timestamps = Some [result_row env False q (0, None)]"
proof -
  obtain plans compiled rows where v: "is_all_granularity (tq_granularity q)"
    "compile_vectorized_filter False (tq_filter q) seg = Some compiled"
    "rows = kept (\<lambda>i ts. in_intervals intervals ts \<and> passes compiled i) 0 (take (sd_num_rows seg) timestamps)"
    "(of_nat (length rows) :: u64) = 0"
    using vectorized_parts [OF assms(1,2,3)] assms(4) by (metis list.distinct(1))
  have "length rows < 2 ^ 63"
    using kept_bound [of 0 "take (sd_num_rows seg) timestamps"] assms(6) unfolding v(3) by (auto intro: le_less_trans)
  then have none: "rows = []" using v(4) of_nat_zero_u64 by simp
  have loop: "snd (row_loop env False q seg intervals 0 (take (sd_num_rows seg) timestamps) (build_row_prealloc seg, [])) = []"
    unfolding row_loop_all [OF assms(5) v(1,2) row_inv_prealloc] v(3) [symmetric] none by simp
  have key: "bucket_timestamp cal ts (tq_granularity q) = 0" for cal ts
    using v(1) by (auto simp: is_all_granularity_def bucket_timestamp_def split: granularity_spec.splits)
  have "fold (\<lambda>(start, _). or_insert 0 None) js [(0, None)] = [(0, None)]" for js :: "(int \<times> int) list"
    by (induction js) (auto simp: or_insert_def)
  then have "interval_buckets env (tq_granularity q) intervals [] = [(0, None)]"
    using assms(8) by (cases intervals) (auto simp: interval_buckets_def key or_insert_def)
  then show ?thesis
    using loop all_not_uniform [OF v(1)] v(1) assms(7)
    by (cases "row_loop env False q seg intervals 0 (take (sd_num_rows seg) timestamps) (build_row_prealloc seg, [])")
      (simp add: execute_rows_def expand_with_empty_buckets_def)
qed


section \<open>Empty buckets\<close>

text \<open>What filling does to the entries: the old ones stay, a selected key that is missing gets an empty bucket.\<close>

definition fills :: "(int \<Rightarrow> bool) \<Rightarrow> filled \<Rightarrow> filled \<Rightarrow> bool" where
  "fills sel out out' \<longleftrightarrow>
     (\<forall>j. map_of out' j = (if map_of out j = None \<and> sel j then Some None else map_of out j)) \<and>
     (sorted_wrt (<) (map fst out) \<longrightarrow> sorted_wrt (<) (map fst out'))"

lemma fills_trans: "fills s a b \<Longrightarrow> fills t b c \<Longrightarrow> (\<And>j. u j \<longleftrightarrow> s j \<or> t j) \<Longrightarrow> fills u a c"
  by (auto simp: fills_def)

lemma fills_or_insert: "fills (\<lambda>j. j = k) out (or_insert k None out)"
  by (simp add: fills_def map_of_or_insert sorted_or_insert)

lemma fill_keys_total:
  assumes "0 < p" and "max_k + p \<le> I64_MAX"
  shows "I64_MIN \<le> k \<Longrightarrow> \<exists>out'. fill_keys p max_k k out = Some out' \<and> fills (\<lambda>j. k \<le> j \<and> j \<le> max_k \<and> p dvd j - k) out out'"
proof (induction "nat (max_k + p - k)" arbitrary: k out rule: less_induct)
  case less
  show ?case
  proof (cases "k \<le> max_k")
    case True
    then have add: "wrapping_add k p = k + p"
      using assms less.prems by (simp add: wrapping_add_def wrap64_id in_i64_def I64_MIN_def I64_MAX_def)
    obtain out' where o: "fill_keys p max_k (k + p) (or_insert k None out) = Some out'"
      "fills (\<lambda>j. k + p \<le> j \<and> j \<le> max_k \<and> p dvd j - (k + p)) (or_insert k None out) out'"
      using less.hyps [of "k + p" "or_insert k None out"] True assms less.prems by auto
    have sel: "k \<le> j \<and> j \<le> max_k \<and> p dvd j - k \<longleftrightarrow> j = k \<or> k + p \<le> j \<and> j \<le> max_k \<and> p dvd j - (k + p)" for j
    proof -
      have "p dvd j - (k + p) \<longleftrightarrow> p dvd j - k" using dvd_add_triv_right_iff [of p "j - (k + p)"] by simp
      moreover have "k \<le> j \<Longrightarrow> p dvd j - k \<Longrightarrow> j \<noteq> k \<Longrightarrow> k + p \<le> j" using zdvd_imp_le [of p "j - k"] by linarith
      ultimately show ?thesis using True assms(1) by auto
    qed
    have "fills (\<lambda>j. k \<le> j \<and> j \<le> max_k \<and> p dvd j - k) out out'"
      by (rule fills_trans [OF fills_or_insert o(2) sel])
    then show ?thesis using o(1) True by (subst fill_keys.simps) (simp add: add)
  next
    case False
    then show ?thesis by (subst fill_keys.simps) (auto simp: fills_def)
  qed
qed

lemma fill_groups_total:
  assumes "0 < p" and "\<And>g lo hi. (g, lo, hi) \<in> set groups \<Longrightarrow> I64_MIN \<le> lo \<and> hi + p \<le> I64_MAX"
  shows "\<exists>out'. fill_groups p groups out = Some out' \<and>
    fills (\<lambda>j. \<exists>(g, lo, hi) \<in> set groups. lo \<le> j \<and> j \<le> hi \<and> p dvd j - lo) out out'"
  using assms(2)
proof (induction groups arbitrary: out)
  case (Cons e groups)
  obtain g lo hi where e: "e = (g, lo, hi)" using prod_cases3 by blast
  have b: "I64_MIN \<le> lo" "hi + p \<le> I64_MAX" using Cons.prems [of g lo hi] e by auto
  obtain out1 where o1: "fill_keys p hi lo out = Some out1" "fills (\<lambda>j. lo \<le> j \<and> j \<le> hi \<and> p dvd j - lo) out out1"
    using fill_keys_total [OF assms(1) b(2,1)] by blast
  obtain out2 where o2: "fill_groups p groups out1 = Some out2"
    "fills (\<lambda>j. \<exists>(g, lo, hi) \<in> set groups. lo \<le> j \<and> j \<le> hi \<and> p dvd j - lo) out1 out2"
    using Cons.IH [of out1] Cons.prems by auto
  show ?case using o1(1) o2(1) fills_trans [OF o1(2) o2(2)] by (auto simp: e)
qed (simp add: fills_def)

text \<open>The groups hold the least and the greatest key of each coarser period.\<close>

definition members :: "int \<Rightarrow> int set \<Rightarrow> int \<Rightarrow> int set" where
  "members mp K g = {k \<in> K. macro_key mp k = g}"

definition groups_inv :: "int \<Rightarrow> int set \<Rightarrow> (int \<times> int \<times> int) list \<Rightarrow> bool" where
  "groups_inv mp K groups \<longleftrightarrow> sorted_wrt (<) (map fst groups) \<and>
     (\<forall>g. map_of groups g = (if members mp K g = {} then None else Some (Min (members mp K g), Max (members mp K g))))"

lemma members_insert: "members mp (Set.insert k K) g = (if macro_key mp k = g then Set.insert k (members mp K g) else members mp K g)"
  by (auto simp: members_def)

lemma extend_group_inv:
  assumes "finite K" and "groups_inv mp K groups"
  shows "groups_inv mp (Set.insert k K) (extend_group mp k groups)"
proof -
  have fin: "finite (members mp K g)" for g using assms(1) by (simp add: members_def)
  have m: "map_of groups g = (if members mp K g = {} then None else Some (Min (members mp K g), Max (members mp K g)))" for g
    using assms(2) by (simp add: groups_inv_def)
  show ?thesis unfolding groups_inv_def
  proof (intro conjI allI)
    show "sorted_wrt (<) (map fst (extend_group mp k groups))"
      using assms(2) by (simp add: groups_inv_def extend_group_def Let_def sorted_bt_insert split: prod.splits)
    show "map_of (extend_group mp k groups) g = (if members mp (Set.insert k K) g = {} then None
        else Some (Min (members mp (Set.insert k K) g), Max (members mp (Set.insert k K) g)))" for g
      using fin [of g] by (auto simp: extend_group_def Let_def map_of_bt_insert members_insert m)
  qed
qed

lemma groups_fold: "finite K \<Longrightarrow> groups_inv mp K groups \<Longrightarrow> groups_inv mp (K \<union> set ks) (fold (extend_group mp) ks groups)"
proof (induction ks arbitrary: K groups)
  case (Cons k ks)
  then have "groups_inv mp (Set.insert k K \<union> set ks) (fold (extend_group mp) ks (extend_group mp k groups))"
    by (intro Cons.IH extend_group_inv) simp_all
  then show ?case by simp
qed simp

lemma bt_collect:
  "map_of (fold (\<lambda>(k, v). bt_insert k (f v)) m out) j = (case hm_get (rev m) j of Some v \<Rightarrow> Some (f v) | None \<Rightarrow> map_of out j) \<and>
   (sorted_wrt (<) (map fst out) \<longrightarrow> sorted_wrt (<) (map fst (fold (\<lambda>(k, v). bt_insert k (f v)) m out)))"
proof (induction m arbitrary: out)
  case (Cons e m)
  obtain k v where "e = (k, v)" by fastforce
  then show ?case
    using Cons [of "bt_insert k (f v) out"] by (auto simp: map_of_bt_insert sorted_bt_insert hm_get_def map_add_def split: option.splits)
qed (simp add: hm_get_def)


lemma hm_get_rev: "hm_wf m \<Longrightarrow> hm_get (rev m) k = hm_get m k"
  using map_of_inject_set [of "rev m" m] by (simp add: hm_get_def hm_wf_def hm_keys_def rev_map [symmetric])

text \<open>A key between two buckets of one coarser period, on their grid.\<close>

definition gap :: "int \<Rightarrow> int set \<Rightarrow> int \<Rightarrow> bool" where
  "gap p K j \<longleftrightarrow>
     (\<exists>a \<in> K. \<exists>b \<in> K. macro_key (next_coarser_period_ms p) a = macro_key (next_coarser_period_ms p) b \<and>
        a \<le> j \<and> j \<le> b \<and> p dvd j - a)"

lemma group_entry:
  assumes "finite K" and "groups_inv mp K groups" and "(g, lo, hi) \<in> set groups"
  shows "lo \<in> members mp K g" "hi \<in> members mp K g" "lo = Min (members mp K g)" "hi = Max (members mp K g)"
proof -
  have "distinct (map fst groups)" using assms(2) strict_sorted_iff by (auto simp: groups_inv_def)
  then have "map_of groups g = Some (lo, hi)" using assms(3) by (simp add: map_of_eq_Some_iff)
  then have "members mp K g \<noteq> {}" "lo = Min (members mp K g)" "hi = Max (members mp K g)"
    using assms(2) by (auto simp: groups_inv_def split: if_splits)
  moreover have "finite (members mp K g)" using assms(1) by (simp add: members_def)
  ultimately show "lo \<in> members mp K g" "hi \<in> members mp K g" "lo = Min (members mp K g)" "hi = Max (members mp K g)"
    by simp_all
qed

lemma group_gaps:
  assumes "finite K" and "groups_inv (next_coarser_period_ms p) K groups" and "\<And>a b. a \<in> K \<Longrightarrow> b \<in> K \<Longrightarrow> p dvd a - b"
  shows "(\<exists>(g, lo, hi) \<in> set groups. lo \<le> j \<and> j \<le> hi \<and> p dvd j - lo) \<longleftrightarrow> gap p K j"
proof
  assume "\<exists>(g, lo, hi) \<in> set groups. lo \<le> j \<and> j \<le> hi \<and> p dvd j - lo"
  then obtain g lo hi where e: "(g, lo, hi) \<in> set groups" "lo \<le> j" "j \<le> hi" "p dvd j - lo" by auto
  show "gap p K j" unfolding gap_def
  proof (intro bexI)
    show "macro_key (next_coarser_period_ms p) lo = macro_key (next_coarser_period_ms p) hi \<and> lo \<le> j \<and> j \<le> hi \<and> p dvd j - lo"
      using group_entry(1,2) [OF assms(1,2) e(1)] e(2-4) by (simp add: members_def)
  qed (use group_entry(1,2) [OF assms(1,2) e(1)] in \<open>simp_all add: members_def\<close>)
next
  assume "gap p K j"
  then obtain a b where ab: "a \<in> K" "b \<in> K" "a \<le> j" "j \<le> b" "p dvd j - a"
    "macro_key (next_coarser_period_ms p) a = macro_key (next_coarser_period_ms p) b" by (auto simp: gap_def)
  define g where "g = macro_key (next_coarser_period_ms p) a"
  have mem: "a \<in> members (next_coarser_period_ms p) K g" "b \<in> members (next_coarser_period_ms p) K g"
    using ab by (auto simp: members_def g_def)
  then have "map_of groups g = Some (Min (members (next_coarser_period_ms p) K g), Max (members (next_coarser_period_ms p) K g))"
    using assms(2) by (auto simp: groups_inv_def)
  then obtain lo hi where e: "(g, lo, hi) \<in> set groups" by (blast dest: map_of_SomeD)
  note ge = group_entry [OF assms(1,2) e]
  have fin: "finite (members (next_coarser_period_ms p) K g)" using assms(1) by (simp add: members_def)
  have "lo \<le> a" "b \<le> hi" using mem fin ge(3,4) by simp_all
  moreover have "p dvd (j - a) + (a - lo)" using ab(5) assms(3) [OF ab(1), of lo] ge(1) by (intro dvd_add) (simp_all add: members_def)
  ultimately show "\<exists>(g, lo, hi) \<in> set groups. lo \<le> j \<and> j \<le> hi \<and> p dvd j - lo"
    using ab(3,4) by (intro bexI [OF _ e]) simp
qed

text \<open>Which keys are in between: hour and longer periods up to a day are grouped by the day, day buckets by the seven days that start at
  multiples of 604800000 ms, shorter periods by the hour; a week or a longer period has no key in between.\<close>

definition fill_gap :: "int \<Rightarrow> int set \<Rightarrow> int \<Rightarrow> bool" where
  "fill_gap p K j \<longleftrightarrow>
     (\<exists>a \<in> K. \<exists>b \<in> K. a < j \<and> j < b \<and> p dvd j - a \<and>
        (p < 3600000 \<and> a div 3600000 = b div 3600000 \<or>
         3600000 \<le> p \<and> p < 86400000 \<and> a div 86400000 = b div 86400000 \<or>
         86400000 \<le> p \<and> p < 604800000 \<and> a div 604800000 = b div 604800000))"

lemma floor_div_eq: "0 < b \<Longrightarrow> floor_div a b = a div b"
proof (cases "0 \<le> a")
  case True
  assume b: "0 < b"
  then have "trunc_rem a b = a mod b" using True by (simp add: trunc_rem_def trunc_div_nonneg minus_div_mult_eq_mod)
  then show ?thesis using True b by (simp add: floor_div_def trunc_div_nonneg not_less)
next
  case False
  assume b: "0 < b"
  define c where "c = - a"
  have c: "a = - c" "0 < c" using False by (simp_all add: c_def)
  have q: "trunc_div a b = - (c div b)" using b c by (simp add: trunc_div_def)
  have r: "trunc_rem a b = - (c mod b)" unfolding trunc_rem_def q unfolding c(1) by (simp add: minus_mod_eq_div_mult [symmetric])
  have "0 < c mod b \<longleftrightarrow> c mod b \<noteq> 0" using b pos_mod_sign [of b c] by linarith
  then show ?thesis using b unfolding floor_div_def q r unfolding c(1) by (auto simp: Let_def zdiv_zminus1_eq_if)
qed

lemma pow64: "(2 :: int) ^ 63 = 9223372036854775808" "(2 :: int) ^ 64 = 18446744073709551616"
  by simp_all

text \<open>The start of a coarser period may be below the least integer and wrap, but never onto another.\<close>

lemma wrap64_eq: "wrap64 x = wrap64 y \<longleftrightarrow> 2 ^ 64 dvd x - y"
  unfolding wrap64_def using mod_eq_dvd_iff [of "x + 2 ^ 63" "2 ^ 64" "y + 2 ^ 63"] by simp

lemma macro_key_same:
  assumes "in_i64 a" and "in_i64 b" and "0 < mp" and "mp < 2 ^ 63" and "\<not> mp dvd 2 ^ 64"
  shows "macro_key mp a = macro_key mp b \<longleftrightarrow> a div mp = b div mp"
proof
  assume "macro_key mp a = macro_key mp b"
  then have d: "2 ^ 64 dvd (a div mp - b div mp) * mp"
    using assms(3) by (simp add: macro_key_def floor_div_eq wrap64_eq left_diff_distrib)
  have "a div mp * mp = a - a mod mp" "b div mp * mp = b - b mod mp" by (simp_all add: minus_mod_eq_div_mult)
  moreover have "0 \<le> a mod mp" "a mod mp < mp" "0 \<le> b mod mp" "b mod mp < mp" using assms(3) by simp_all
  ultimately have near: "\<bar>(a div mp - b div mp) * mp\<bar> < 2 * 2 ^ 64"
    using assms(1,2,4) unfolding left_diff_distrib in_i64_def pow64 by linarith
  obtain k where k: "(a div mp - b div mp) * mp = 2 ^ 64 * k" using d by (auto simp: dvd_def)
  then have "\<bar>k\<bar> < 2" using near by (simp add: abs_mult)
  moreover have "k \<noteq> 1" "k \<noteq> - 1"
    using k assms(5) by (metis dvd_triv_right mult.right_neutral, metis dvd_minus_iff dvd_triv_right mult_minus1_right)
  ultimately have "k = 0" by linarith
  then show "a div mp = b div mp" using k assms(3) by simp
qed (use assms(3) in \<open>simp add: macro_key_def floor_div_eq\<close>)

lemma macro_key_own:
  assumes "in_i64 a" and "in_i64 b" and "0 < p" and "p dvd a - b"
  shows "macro_key p a = macro_key p b \<longleftrightarrow> a = b"
proof
  assume "macro_key p a = macro_key p b"
  then have d: "2 ^ 64 dvd a div p * p - b div p * p" using assms(3) by (simp add: macro_key_def floor_div_eq wrap64_eq)
  have "a mod p = b mod p" using assms(4) by (simp add: mod_eq_dvd_iff)
  then have "a div p * p - b div p * p = a - b" by (simp add: minus_mod_eq_div_mult [symmetric])
  then have "2 ^ 64 dvd a - b" using d by simp
  moreover have "\<bar>a - b\<bar> < 2 ^ 64" using assms(1,2) unfolding in_i64_def pow64 by linarith
  ultimately show "a = b" using dvd_imp_le_int [of "a - b" "2 ^ 64"] by fastforce
qed simp

lemma gap_fill:
  assumes "0 < p" and "\<And>a. a \<in> K \<Longrightarrow> in_i64 a" and "\<And>a b. a \<in> K \<Longrightarrow> b \<in> K \<Longrightarrow> p dvd a - b" and "j \<notin> K"
  shows "gap p K j \<longleftrightarrow> fill_gap p K j"
proof -
  have same: "macro_key (next_coarser_period_ms p) a = macro_key (next_coarser_period_ms p) b \<longleftrightarrow>
      p < 3600000 \<and> a div 3600000 = b div 3600000 \<or> 3600000 \<le> p \<and> p < 86400000 \<and> a div 86400000 = b div 86400000 \<or>
      86400000 \<le> p \<and> p < 604800000 \<and> a div 604800000 = b div 604800000 \<or> 604800000 \<le> p \<and> a = b"
    if "a \<in> K" "b \<in> K" for a b
  proof -
    have i: "in_i64 a" "in_i64 b" "p dvd a - b" using assms that by auto
    have "macro_key mp a = macro_key mp b \<longleftrightarrow> a div mp = b div mp" if "mp \<in> {3600000, 86400000, 604800000}" for mp
      using macro_key_same [OF i(1,2), of mp] that by auto
    then show ?thesis using macro_key_own [OF i(1,2) assms(1) i(3)] by (auto simp: next_coarser_period_ms_def)
  qed
  have strict: "a \<le> j \<and> j \<le> b \<longleftrightarrow> a < j \<and> j < b" "\<not> (a < j \<and> j < a)" if "a \<in> K" "b \<in> K" for a b
    using that assms(4) by (auto simp: order_less_le)
  show ?thesis unfolding gap_def fill_gap_def
    by (intro bex_cong refl) (use same strict in \<open>metis (no_types, lifting) order_less_asym\<close>)
qed

text \<open>C19: Filling empty buckets, for every accepted uniform granularity and every set of buckets on its grid that stays a period away
  from the largest integer (beyond, the loop wraps and does not end). It ends; the result is sorted, keeps every bucket with its aggregators,
  and adds, with no aggregators, exactly the grid keys that lie between two buckets of one coarser period: the hour for periods
  below an hour, the day for periods below a day, and the seven days counted from the epoch for days and other periods below a week. For a week or a longer
  period nothing is added. (The comment on day queries, and that of \<open>next_coarser_period_ms\<close> on weeks, say otherwise; see the findings.)\<close>

theorem empty_buckets_filled:
  assumes "uniform_period_ms g = Some p" and "validate_granularity g = Ok ()" and "hm_wf buckets" and "buckets \<noteq> []"
    and "\<And>a. a \<in> set (hm_keys buckets) \<Longrightarrow> I64_MIN \<le> a \<and> a + p \<le> I64_MAX"
    and "\<And>a b. a \<in> set (hm_keys buckets) \<Longrightarrow> b \<in> set (hm_keys buckets) \<Longrightarrow> p dvd a - b"
  shows "\<exists>out. expand_with_empty_buckets env buckets g intervals = Some out \<and> sorted_wrt (<) (map fst out) \<and>
    (\<forall>j. map_of out j =
      (case hm_get buckets j of Some aggs \<Rightarrow> Some (Some aggs) | None \<Rightarrow> if fill_gap p (set (hm_keys buckets)) j then Some None else None))"
proof -
  define K where "K = set (hm_keys buckets)"
  define groups where "groups = fold (extend_group (next_coarser_period_ms p)) (hm_keys buckets) []"
  define out where "out = fold (\<lambda>(k, aggs). bt_insert k (Some aggs)) buckets []"
  have out: "map_of out j = map_option Some (hm_get buckets j)" "sorted_wrt (<) (map fst out)" for j
    using bt_collect [of Some buckets "[]" j] hm_get_rev [OF assms(3), of j] by (simp_all add: out_def split: option.splits)
  have fin: "finite K" by (simp add: K_def)
  have inv: "groups_inv (next_coarser_period_ms p) K groups"
    using groups_fold [of "{}" "next_coarser_period_ms p" "[]" "hm_keys buckets"] by (simp add: K_def groups_def groups_inv_def members_def)
  have "I64_MIN \<le> lo \<and> hi + p \<le> I64_MAX" if "(g, lo, hi) \<in> set groups" for g lo hi
    using group_entry(1,2) [OF fin inv that] assms(5) by (simp add: members_def K_def)
  then obtain out' where o: "fill_groups p groups out = Some out'"
    "fills (\<lambda>j. \<exists>(g, lo, hi) \<in> set groups. lo \<le> j \<and> j \<le> hi \<and> p dvd j - lo) out out'"
    using fill_groups_total [OF uniform_positive [OF assms(1,2)], of groups out] by blast
  have gaps: "(\<exists>(g, lo, hi) \<in> set groups. lo \<le> j \<and> j \<le> hi \<and> p dvd j - lo) \<longleftrightarrow> gap p K j" for j
    using group_gaps [OF fin inv] assms(6) by (simp add: K_def)
  have "out \<noteq> []" using assms(4) out(1) [of "fst (hd buckets)"] by (cases buckets) (auto simp: hm_get_def)
  then have "expand_with_empty_buckets env buckets g intervals = Some out'"
    using o(1) assms(1) by (simp add: expand_with_empty_buckets_def Let_def out_def groups_def)
  moreover have "sorted_wrt (<) (map fst out')" using o(2) out(2) by (simp add: fills_def)
  moreover have "map_of out' j = (case hm_get buckets j of Some aggs \<Rightarrow> Some (Some aggs) | None \<Rightarrow> if fill_gap p K j then Some None else None)" for j
  proof -
    have "gap p K j = fill_gap p K j" if "hm_get buckets j = None"
    proof (rule gap_fill)
      show "in_i64 a" if "a \<in> K" for a using assms(5) [of a] that uniform_positive [OF assms(1,2)] by (simp add: K_def in_i64_def I64_MIN_def I64_MAX_def)
      show "j \<notin> K" using that by (simp add: K_def hm_keys_get)
    qed (use assms(6) uniform_positive [OF assms(1,2)] in \<open>auto simp: K_def\<close>)
    then show ?thesis using o(2) out(1) by (simp add: fills_def gaps split: option.splits)
  qed
  ultimately show ?thesis unfolding K_def by blast
qed

definition test_env :: ts_env where
  "test_env = \<lparr>te_lib = test_lib, te_calendar = \<lparr>year_month = (\<lambda>_. None), month_start = (\<lambda>_ _. None)\<rparr>,
     te_format = (\<lambda>_. None), te_threads = 1, te_reduce = foldl\<rparr>"

definition test_query :: ts_query where
  "test_query = \<lparr>tq_intervals = [], tq_granularity = Simple ''all'', tq_filter = None,
     tq_aggregations = [CountSpec ''n'', LongSumSpec ''t'' ''__time''], tq_descending = None, tq_skip_empty = None\<rparr>"

lemma test_run: "timestamp_column test_segment = Ok [10, 20, 30]" "sorted [10, 20, 30 :: int]" "te_threads test_env \<le> 1"
  "segment_prints (te_lib test_env) test_segment" "columns_full test_segment"
  using test_segment_prints
  by (simp_all add: test_env_def test_segment_def timestamp_column_def hm_get_def columns_full_def column_num_rows_def)

lemmas test_simps = test_env_def test_query_def test_segment_def is_all_granularity_def to_lowercase_def less_eq_char_def plan_of_def hm_get_def
  timestamp_column_def compile_vectorized_filter_def scan_def PAR_MIN_def Let_def accumulate_def

theorem fast_path_agrees_witness:
  "execute_rows test_env False test_query test_segment [(15, 40)] [10, 20, 30] =
     Some [\<lparr>tr_timestamp = ''0'', tr_result = [(''n'', JNumber (PosInt 2)), (''t'', JNumber (PosInt 50))]\<rparr>]"
proof -
  have "try_vectorized_all test_env False test_query test_segment [(15, 40)] =
      Ok (Some [\<lparr>tr_timestamp = ''0'', tr_result = [(''n'', JNumber (PosInt 2)), (''t'', JNumber (PosInt 50))]\<rparr>])"
  proof -
    have "pruned_row_range [10, 20, 30] [(15, 40)] True = Some (1, 3)" by code_simp
    moreover have "[1..<3] = [1, 2 :: nat]" by (simp add: upt_rec)
    moreover have "char_of (48 :: nat) = CHR ''0''" by code_simp
    ultimately show ?thesis
      by (simp add: try_vectorized_all_def test_simps get_at_def wrapping_add_def wrap64_def format_epoch_millis_def show_nat.simps
          enumerate_Suc_eq number_from_i64_def)
  qed
  from fast_path_agrees [OF this _ test_run(1) test_run(2) _ test_run(4,5)] test_run(3) show ?thesis by simp
qed

theorem fast_path_empty_differs_witness:
  "execute_rows test_env False test_query test_segment [(50, 60)] [10, 20, 30] = Some [result_row test_env False test_query (0, None)]"
proof -
  have "try_vectorized_all test_env False test_query test_segment [(50, 60)] = Ok (Some [])"
  proof -
    have "pruned_row_range [10, 20, 30] [(50, 60)] True = Some (3, 3)" by code_simp
    then show ?thesis by (simp add: try_vectorized_all_def test_simps)
  qed
  moreover have "\<not> unwrap_or_false (tq_skip_empty test_query)" by (simp add: test_query_def unwrap_or_false_def)
  ultimately show ?thesis using fast_path_empty_differs [OF _ test_run(1) test_run(2) _ test_run(4)] test_run(3) by simp
qed

theorem empty_buckets_filled_witness:
  "\<exists>out. expand_with_empty_buckets test_env [(7200000, []), (0, [])] (Simple ''hour'') [] = Some out \<and> map_of out 3600000 = Some None"
proof -
  let ?b = "[(7200000, []), (0, [])] :: buckets"
  have u: "uniform_period_ms (Simple ''hour'') = Some 3600000" "validate_granularity (Simple ''hour'') = Ok ()"
    by (simp_all add: uniform_period_ms_def validate_granularity_def to_lowercase_def less_eq_char_def)
  have keys: "set (hm_keys ?b) = {7200000, 0}" "hm_wf ?b" by (simp_all add: hm_keys_def hm_wf_def)
  have "fill_gap 3600000 {7200000, 0} 3600000" by (simp add: fill_gap_def)
  moreover have "hm_get ?b 3600000 = None" by (simp add: hm_get_def)
  moreover have "I64_MIN \<le> a \<and> a + 3600000 \<le> I64_MAX" if "a \<in> set (hm_keys ?b)" for a
    using that unfolding keys(1) I64_MIN_def I64_MAX_def by auto
  moreover have "3600000 dvd a - b" if "a \<in> set (hm_keys ?b)" "b \<in> set (hm_keys ?b)" for a b
    using that unfolding keys(1) by auto
  ultimately show ?thesis
    using empty_buckets_filled [OF u keys(2), of test_env "[]"] by (fastforce simp: keys(1))
qed

end
