(* ===== verification/Virtual_Expr.thy ===== *)
theory Virtual_Expr
  imports Query_Filter
begin

text \<open>
  The expressions of virtual columns (ferrodruid-query/src/expr.rs): the values, the tokenizer, the
  recursive-descent parser, the check of function names, and the evaluator. The position in the token
  vector is the list of the remaining tokens; printing a float and a compound JSON value is the
  record \<open>printers\<close>. Expressions are ASCII: blanks, letters and digits are those of ASCII, where the code also takes those of
  Unicode.
\<close>

datatype expr_error = ExprError string

section \<open>Values\<close>

datatype vvalue = VNum f64 | VStr string | VBool bool | VNull

definition vvalue_from_json :: "printers \<Rightarrow> json \<Rightarrow> vvalue" where
  "vvalue_from_json pr v =
     (case v of
        JNull \<Rightarrow> VNull
      | JBool b \<Rightarrow> VBool b
      | JNumber n \<Rightarrow> VNum (number_as_f64 n)
      | JString s \<Rightarrow> VStr s
      | _ \<Rightarrow> VStr (json_display pr v))"

definition is_integral :: "f64 \<Rightarrow> bool" where
  "is_integral x \<longleftrightarrow> is_finite x \<and> of_int (floor (f64_val x)) = f64_val x"

fun vvalue_to_json :: "vvalue \<Rightarrow> json" where
  "vvalue_to_json VNull = JNull"
| "vvalue_to_json (VBool b) = JBool b"
| "vvalue_to_json (VStr s) = JString s"
| "vvalue_to_json (VNum n) =
     (if is_integral n \<and> f64_le (Fin (- (2 ^ 63))) n \<and> f64_le n (Fin (2 ^ 63)) then JNumber (number_from_i64 (trunc_i64 n))
      else json_from_f64 n)"

fun vvalue_as_f64 :: "vvalue \<Rightarrow> f64 option" where
  "vvalue_as_f64 (VNum n) = Some n"
| "vvalue_as_f64 (VBool b) = Some (if b then Fin 1 else Fin 0)"
| "vvalue_as_f64 (VStr s) = parse_f64 s"
| "vvalue_as_f64 VNull = None"

text \<open>The text of a number is that of its JSON value; a value that is not finite has the text of JSON null.\<close>

fun vvalue_as_str :: "printers \<Rightarrow> vvalue \<Rightarrow> string" where
  "vvalue_as_str pr (VStr s) = s"
| "vvalue_as_str pr (VNum n) =
     (case vvalue_to_json (VNum n) of
        JNumber (PosInt k) \<Rightarrow> show_nat (unat k)
      | JNumber (NegInt k) \<Rightarrow> CHR ''-'' # show_nat (nat (- k))
      | JNumber (Float x) \<Rightarrow> number_display pr x
      | _ \<Rightarrow> ''null'')"
| "vvalue_as_str pr (VBool b) = (if b then ''true'' else ''false'')"
| "vvalue_as_str pr VNull = ''''"

fun vvalue_is_truthy :: "vvalue \<Rightarrow> bool" where
  "vvalue_is_truthy (VBool b) = b"
| "vvalue_is_truthy (VNum n) = (\<not> f64_eq n (Fin 0))"
| "vvalue_is_truthy (VStr s) = (s \<noteq> [])"
| "vvalue_is_truthy VNull = False"

section \<open>Tokens\<close>

datatype vtoken = TNum f64 | TStr string | TIdent string | TOp string | TLParen | TRParen | TComma

abbreviation backslash :: char where
  "backslash \<equiv> CHR 0x5C"

abbreviation double_quote :: char where
  "double_quote \<equiv> CHR 0x22"

text \<open>The body of a string literal up to its closing quote, with what follows; \<open>None\<close> when it is not closed.\<close>

fun string_literal :: "char \<Rightarrow> string \<Rightarrow> (string \<times> string) option" where
  "string_literal q [] = None"
| "string_literal q [c] = (if c = q then Some ([], []) else None)"
| "string_literal q (c # d # cs) =
     (if c = backslash then map_option (apfst ((#) d)) (string_literal q cs)
      else if c = q then Some ([], d # cs)
      else map_option (apfst ((#) c)) (string_literal q (d # cs)))"

lemma string_literal_length: "string_literal q cs = Some (s, rest) \<Longrightarrow> length rest < length cs"
  by (induction q cs arbitrary: s rest rule: string_literal.induct) (fastforce split: if_splits)+

function vtokenize :: "string \<Rightarrow> (vtoken list, expr_error) res" where
  "vtokenize [] = Ok []"
| "vtokenize (c # cs) =
     (if is_ascii_ws c then vtokenize cs
      else if c = CHR ''('' then bind (vtokenize cs) (\<lambda>ts. Ok (TLParen # ts))
      else if c = CHR '')'' then bind (vtokenize cs) (\<lambda>ts. Ok (TRParen # ts))
      else if c = CHR '','' then bind (vtokenize cs) (\<lambda>ts. Ok (TComma # ts))
      else if c = quote \<or> c = double_quote then
        (case string_literal c cs of
           None \<Rightarrow> fail (ExprError ''unterminated string literal'')
         | Some (s, rest) \<Rightarrow> bind (vtokenize rest) (\<lambda>ts. Ok (TStr s # ts)))
      else if c \<in> {CHR ''+'', CHR ''-'', CHR ''*'', CHR ''/'', CHR ''%''} then bind (vtokenize cs) (\<lambda>ts. Ok (TOp [c] # ts))
      else if c \<in> {CHR ''='', CHR ''!'', CHR ''<'', CHR ''>'', CHR ''&'', CHR ''|''} then
        (if cs \<noteq> [] \<and> [c, hd cs] \<in> set two_char_ops then bind (vtokenize (tl cs)) (\<lambda>ts. Ok (TOp [c, hd cs] # ts))
         else if c \<in> {CHR ''<'', CHR ''>'', CHR ''!''} then bind (vtokenize cs) (\<lambda>ts. Ok (TOp [c] # ts))
         else fail (ExprError ''unexpected operator char''))
      else if is_digit c \<or> c = CHR ''.'' \<and> cs \<noteq> [] \<and> is_digit (hd cs) then
        (case parse_f64 (c # takeWhile in_number cs) of
           None \<Rightarrow> fail (ExprError ''bad numeric literal'')
         | Some n \<Rightarrow> bind (vtokenize (dropWhile in_number cs)) (\<lambda>ts. Ok (TNum n # ts)))
      else if is_alphabetic c \<or> c = CHR ''_'' then
        bind (vtokenize (dropWhile is_word cs)) (\<lambda>ts. Ok (TIdent (c # takeWhile is_word cs) # ts))
      else fail (ExprError ''unexpected character''))"
  by pat_completeness auto

termination vtokenize
  by (relation "measure length") (auto simp: less_Suc_eq_le length_dropWhile_le dest: string_literal_length less_imp_le_nat)

declare vtokenize.simps(2) [simp del]

section \<open>Parsing\<close>

datatype vexpr =
    Literal vvalue
  | ColumnRef string
  | Unary string vexpr
  | Binary string vexpr vexpr
  | Call string "vexpr list"

definition eat_op :: "string list \<Rightarrow> vtoken list \<Rightarrow> (string \<times> vtoken list) option" where
  "eat_op ops ts = (case ts of TOp op # ts' \<Rightarrow> if op \<in> set ops then Some (op, ts') else None | _ \<Rightarrow> None)"

lemma eat_op_length: "eat_op ops ts = Some (op, ts') \<Longrightarrow> length ts' < length ts"
  by (auto simp: eat_op_def split: list.splits vtoken.splits if_splits)

text \<open>The parsers of the four left-associative levels (\<open>parse_or\<close>, \<open>parse_and\<close>, \<open>parse_add\<close>, \<open>parse_mul\<close>) differ in
  their operators and in the parser of their operands.\<close>

datatype level = LevelOr | LevelAnd | LevelAdd | LevelMul

fun level_ops :: "level \<Rightarrow> string list" where
  "level_ops LevelOr = [''||'']"
| "level_ops LevelAnd = [''&&'']"
| "level_ops LevelAdd = [''+'', ''-'']"
| "level_ops LevelMul = [''*'', ''/'', ''%'']"

definition cmp_ops :: "string list" where
  "cmp_ops = [''=='', ''!='', ''>'', ''<'', ''>='', ''<='']"

type_synonym 'a parsed = "('a \<times> vtoken list, expr_error) res"

text \<open>The closing parenthesis that must come next.\<close>

definition close_paren :: "string \<Rightarrow> 'a \<Rightarrow> vtoken list \<Rightarrow> 'a parsed" where
  "close_paren msg x ts = (case ts of TRParen # us \<Rightarrow> Ok (x, us) | _ \<Rightarrow> fail (ExprError msg))"

lemma close_paren_Inr: "close_paren msg x ts = Inr (y, us) \<longleftrightarrow> y = x \<and> ts = TRParen # us"
  by (auto simp: close_paren_def split: list.splits vtoken.splits)

lemma bind_Inr_iff: "bind r f = Inr y \<longleftrightarrow> (\<exists>x. r = Inr x \<and> f x = Inr y)"
  by (cases r) (auto simp: bind_def)

function (sequential)
      vparse_binary :: "level \<Rightarrow> vtoken list \<Rightarrow> vexpr parsed"
  and vbinary_loop :: "level \<Rightarrow> vexpr \<Rightarrow> vtoken list \<Rightarrow> vexpr parsed"
  and vparse_operand :: "level \<Rightarrow> vtoken list \<Rightarrow> vexpr parsed"
  and vparse_cmp :: "vtoken list \<Rightarrow> vexpr parsed"
  and vparse_unary :: "vtoken list \<Rightarrow> vexpr parsed"
  and vparse_primary :: "vtoken list \<Rightarrow> vexpr parsed"
  and vparse_args :: "vexpr list \<Rightarrow> vtoken list \<Rightarrow> vexpr list parsed" where
  "vparse_binary l ts = bind (vparse_operand l ts) (\<lambda>(lhs, ts'). vbinary_loop l lhs ts')"
| "vbinary_loop l lhs ts =
     (case eat_op (level_ops l) ts of
        None \<Rightarrow> Ok (lhs, ts)
      | Some (op, ts') \<Rightarrow> bind (vparse_operand l ts') (\<lambda>(rhs, ts''). vbinary_loop l (Binary op lhs rhs) ts''))"
| "vparse_operand l ts =
     (case l of
        LevelOr \<Rightarrow> vparse_binary LevelAnd ts
      | LevelAnd \<Rightarrow> vparse_cmp ts
      | LevelAdd \<Rightarrow> vparse_binary LevelMul ts
      | LevelMul \<Rightarrow> vparse_unary ts)"
| "vparse_cmp ts =
     bind (vparse_binary LevelAdd ts) (\<lambda>(lhs, ts').
       case eat_op cmp_ops ts' of
         None \<Rightarrow> Ok (lhs, ts')
       | Some (op, ts'') \<Rightarrow> bind (vparse_binary LevelAdd ts'') (\<lambda>(rhs, us). Ok (Binary op lhs rhs, us)))"
| "vparse_unary ts =
     (case eat_op [''-'', ''!''] ts of
        Some (op, ts') \<Rightarrow> bind (vparse_unary ts') (\<lambda>(operand, us). Ok (Unary op operand, us))
      | None \<Rightarrow> vparse_primary ts)"
| "vparse_primary [] = fail (ExprError ''unexpected end of expression'')"
| "vparse_primary (TNum n # ts) = Ok (Literal (VNum n), ts)"
| "vparse_primary (TStr s # ts) = Ok (Literal (VStr s), ts)"
| "vparse_primary (TLParen # ts) =
     bind (vparse_binary LevelOr ts) (\<lambda>(e, ts'). close_paren ''missing closing parenthesis'' e ts')"
| "vparse_primary (TIdent ident # ts) =
     (if ident = ''null'' then Ok (Literal VNull, ts)
      else if ident = ''true'' then Ok (Literal (VBool True), ts)
      else if ident = ''false'' then Ok (Literal (VBool False), ts)
      else if ts \<noteq> [] \<and> hd ts = TLParen then
        (if tl ts \<noteq> [] \<and> hd (tl ts) = TRParen then Ok (Call (to_lowercase ident) [], tl (tl ts))
         else
           bind (vparse_args [] (tl ts)) (\<lambda>(args, us). close_paren ''missing closing parenthesis in function call'' (Call (to_lowercase ident) args) us))
      else Ok (ColumnRef ident, ts))"
| "vparse_primary (t # ts) = fail (ExprError ''unexpected token'')"
| "vparse_args args ts =
     bind (vparse_binary LevelOr ts) (\<lambda>(e, ts').
       if ts' \<noteq> [] \<and> hd ts' = TComma then vparse_args (args @ [e]) (tl ts') else Ok (args @ [e], ts'))"
  by pat_completeness auto


text \<open>Every parser that succeeds consumes a token, and the loops never give tokens back.\<close>

abbreviation shrinks :: "'a parsed \<Rightarrow> nat \<Rightarrow> bool" where
  "shrinks r n \<equiv> (\<forall>e ts'. r = Inr (e, ts') \<longrightarrow> length ts' < n)"

lemma vparse_lengths:
  "vparse_binary_vbinary_loop_vparse_operand_vparse_cmp_vparse_unary_vparse_primary_vparse_args_dom (Inl (Inl (l, ts))) \<Longrightarrow> shrinks (vparse_binary l ts) (length ts)"
  "vparse_binary_vbinary_loop_vparse_operand_vparse_cmp_vparse_unary_vparse_primary_vparse_args_dom (Inl (Inr (Inl (l, lhs, ts)))) \<Longrightarrow> shrinks (vbinary_loop l lhs ts) (Suc (length ts))"
  "vparse_binary_vbinary_loop_vparse_operand_vparse_cmp_vparse_unary_vparse_primary_vparse_args_dom (Inl (Inr (Inr (l, ts)))) \<Longrightarrow> shrinks (vparse_operand l ts) (length ts)"
  "vparse_binary_vbinary_loop_vparse_operand_vparse_cmp_vparse_unary_vparse_primary_vparse_args_dom (Inr (Inl (Inl ts))) \<Longrightarrow> shrinks (vparse_cmp ts) (length ts)"
  "vparse_binary_vbinary_loop_vparse_operand_vparse_cmp_vparse_unary_vparse_primary_vparse_args_dom (Inr (Inl (Inr ts))) \<Longrightarrow> shrinks (vparse_unary ts) (length ts)"
  "vparse_binary_vbinary_loop_vparse_operand_vparse_cmp_vparse_unary_vparse_primary_vparse_args_dom (Inr (Inr (Inl ts))) \<Longrightarrow> shrinks (vparse_primary ts) (length ts)"
  "vparse_binary_vbinary_loop_vparse_operand_vparse_cmp_vparse_unary_vparse_primary_vparse_args_dom (Inr (Inr (Inr (args, ts)))) \<Longrightarrow> shrinks (vparse_args args ts) (length ts)"
proof (induction l ts and l lhs ts and l ts and ts and ts and ts and args ts
    rule: vparse_binary_vbinary_loop_vparse_operand_vparse_cmp_vparse_unary_vparse_primary_vparse_args.pinduct)
  case (1 l ts)
  then show ?case by (fastforce simp: vparse_binary.psimps bind_Inr_iff)
next
  case (2 l lhs ts)
  then show ?case by (fastforce simp: vbinary_loop.psimps bind_Inr_iff split: option.splits dest: eat_op_length)
next
  case (3 l ts)
  then show ?case by (cases l) (simp_all add: vparse_operand.psimps)
next
  case (4 ts)
  then show ?case by (fastforce simp: vparse_cmp.psimps bind_Inr_iff split: option.splits dest: eat_op_length)
next
  case (5 ts)
  then show ?case by (fastforce simp: vparse_unary.psimps bind_Inr_iff split: option.splits dest: eat_op_length)
next
  case (9 ts)
  then show ?case by (fastforce simp: vparse_primary.psimps bind_Inr_iff close_paren_Inr)
next
  case (10 ident ts)
  show ?case
  proof (intro allI impI)
    fix e ts' assume r: "vparse_primary (TIdent ident # ts) = Inr (e, ts')"
    show "length ts' < length (TIdent ident # ts)"
    proof (cases "ident \<in> {''null'', ''true'', ''false''} \<or> \<not> (ts \<noteq> [] \<and> hd ts = TLParen) \<or> tl ts \<noteq> [] \<and> hd (tl ts) = TRParen")
      case True
      then show ?thesis using r by (auto simp: vparse_primary.psimps(5) [OF 10(1)] split: if_splits)
    next
      case False
      then obtain args where "vparse_args [] (tl ts) = Inr (args, TRParen # ts')"
        using r by (auto simp: vparse_primary.psimps(5) [OF 10(1)] bind_Inr_iff close_paren_Inr)
      then show ?thesis using 10(2) False by fastforce
    qed
  qed
next
  case (12 args ts)
  then show ?case by (fastforce simp: vparse_args.psimps bind_Inr_iff split: if_splits)
qed (simp_all add: vparse_primary.psimps)

termination vparse_binary
proof (relation "measure (\<lambda>x. case x of
     Inl (Inl (l, ts)) \<Rightarrow> 16 * length ts + (case l of LevelOr \<Rightarrow> 11 | LevelAnd \<Rightarrow> 9 | LevelAdd \<Rightarrow> 6 | LevelMul \<Rightarrow> 4)
   | Inl (Inr (Inl (_, _, ts))) \<Rightarrow> 16 * length ts + 12
   | Inl (Inr (Inr (l, ts))) \<Rightarrow> 16 * length ts + (case l of LevelOr \<Rightarrow> 10 | LevelAnd \<Rightarrow> 8 | LevelAdd \<Rightarrow> 5 | LevelMul \<Rightarrow> 3)
   | Inr (Inl (Inl ts)) \<Rightarrow> 16 * length ts + 7
   | Inr (Inl (Inr ts)) \<Rightarrow> 16 * length ts + 2
   | Inr (Inr (Inl ts)) \<Rightarrow> 16 * length ts + 1
   | Inr (Inr (Inr (_, ts))) \<Rightarrow> 16 * length ts + 12)")
qed (auto simp: neq_Nil_conv bind_Inr_iff split: level.splits dest!: vparse_lengths eat_op_length)


declare vparse_binary.simps [simp del] vbinary_loop.simps [simp del] vparse_operand.simps [simp del] vparse_cmp.simps [simp del]
  vparse_unary.simps [simp del] vparse_args.simps [simp del]

section \<open>Compilation\<close>

definition function_names :: "string list" where
  "function_names = [''strlen'', ''substring'', ''concat'', ''lower'', ''upper'', ''abs'', ''coalesce'', ''case'']"

fun validate_functions :: "vexpr \<Rightarrow> (unit, expr_error) res" where
  "validate_functions (Literal _) = Ok ()"
| "validate_functions (ColumnRef _) = Ok ()"
| "validate_functions (Unary _ operand) = validate_functions operand"
| "validate_functions (Binary _ lhs rhs) = bind (validate_functions lhs) (\<lambda>_. validate_functions rhs)"
| "validate_functions (Call name args) =
     (if name \<notin> set function_names then fail (ExprError ''unknown function'')
      else bind (mapM validate_functions args) (\<lambda>_. Ok ()))"

definition vcompile :: "string \<Rightarrow> (vexpr, expr_error) res" where
  "vcompile input =
     bind (vtokenize input) (\<lambda>tokens.
       if tokens = [] then fail (ExprError ''empty expression'')
       else
         bind (vparse_binary LevelOr tokens) (\<lambda>(expr, rest).
           if rest \<noteq> [] then fail (ExprError ''trailing tokens after expression'')
           else bind (validate_functions expr) (\<lambda>_. Ok expr)))"

fun collect_referenced_columns :: "vexpr \<Rightarrow> string list" where
  "collect_referenced_columns (Literal _) = []"
| "collect_referenced_columns (ColumnRef name) = [name]"
| "collect_referenced_columns (Unary _ operand) = collect_referenced_columns operand"
| "collect_referenced_columns (Binary _ lhs rhs) = collect_referenced_columns lhs @ collect_referenced_columns rhs"
| "collect_referenced_columns (Call _ args) = concat (map collect_referenced_columns args)"

section \<open>Evaluation\<close>

definition vcompare :: "printers \<Rightarrow> vvalue \<Rightarrow> string \<Rightarrow> vvalue \<Rightarrow> bool" where
  "vcompare pr l op r =
     (if l = VNull \<or> r = VNull then
        (if op = ''=='' then l = VNull \<and> r = VNull
         else if op = ''!='' then \<not> (l = VNull \<and> r = VNull)
         else False)
      else
        case (vvalue_as_f64 l, vvalue_as_f64 r) of
          (Some a, Some b) \<Rightarrow>
            (if op = ''=='' then f64_lt (f64_abs (f64_sub a b)) EPSILON
             else if op = ''!='' then f64_le EPSILON (f64_abs (f64_sub a b))
             else if op = ''>'' then f64_lt b a
             else if op = ''<'' then f64_lt a b
             else if op = ''>='' then f64_le b a
             else if op = ''<='' then f64_le a b
             else False)
        | _ \<Rightarrow>
            let a = vvalue_as_str pr l; b = vvalue_as_str pr r in
            (if op = ''=='' then a = b
             else if op = ''!='' then a \<noteq> b
             else if op = ''>'' then b < a
             else if op = ''<'' then a < b
             else if op = ''>='' then b \<le> a
             else if op = ''<='' then a \<le> b
             else False))"

definition eval_arith :: "string \<Rightarrow> f64 \<Rightarrow> f64 \<Rightarrow> vvalue" where
  "eval_arith op a b =
     (if op = ''-'' then VNum (f64_sub a b)
      else if op = ''*'' then VNum (f64_mul a b)
      else if op = ''/'' then if f64_eq b (Fin 0) then VNull else VNum (f64_div a b)
      else if f64_eq b (Fin 0) then VNull else VNum (f64_rem a b))"

definition eval_binary :: "printers \<Rightarrow> string \<Rightarrow> vvalue \<Rightarrow> vvalue \<Rightarrow> vvalue" where
  "eval_binary pr op l r =
     (if op = ''&&'' then (if \<not> vvalue_is_truthy l then VBool False else VBool (vvalue_is_truthy r))
      else if op = ''||'' then (if vvalue_is_truthy l then VBool True else VBool (vvalue_is_truthy r))
      else if op = ''+'' then
        (if l = VNull \<or> r = VNull then VNull
         else case (vvalue_as_f64 l, vvalue_as_f64 r) of
           (Some a, Some b) \<Rightarrow> VNum (f64_add a b)
         | _ \<Rightarrow> VStr (vvalue_as_str pr l @ vvalue_as_str pr r))
      else if op \<in> {''-'', ''*'', ''/'', ''%''} then
        (case (vvalue_as_f64 l, vvalue_as_f64 r) of (Some a, Some b) \<Rightarrow> eval_arith op a b | _ \<Rightarrow> VNull)
      else if op \<in> set cmp_ops then VBool (vcompare pr l op r)
      else VNull)"

definition eval_unary :: "string \<Rightarrow> vvalue \<Rightarrow> vvalue" where
  "eval_unary op v =
     (if op = ''-'' then (case vvalue_as_f64 v of None \<Rightarrow> VNull | Some n \<Rightarrow> VNum (f64_neg n))
      else if op = ''!'' then VBool (\<not> vvalue_is_truthy v)
      else VNull)"

text \<open>\<open>as usize\<close>, which saturates and takes a NaN and negative numbers to zero.\<close>

definition f64_as_usize :: "f64 \<Rightarrow> nat" where
  "f64_as_usize x = (case x of PosInf \<Rightarrow> 2 ^ 64 - 1 | Fin q \<Rightarrow> min (2 ^ 64 - 1) (nat (floor q)) | _ \<Rightarrow> 0)"

definition eval_substring :: "printers \<Rightarrow> vvalue list \<Rightarrow> vvalue" where
  "eval_substring pr evald =
     (case get_at evald 0 of
        None \<Rightarrow> VNull
      | Some v \<Rightarrow>
          let chars = vvalue_as_str pr v;
              idx = (case Option.bind (get_at evald 1) vvalue_as_f64 of None \<Rightarrow> 0 | Some f \<Rightarrow> trunc_i64 f);
              start = nat (max 0 (min (int (length chars)) idx));
              stop = (case Option.bind (get_at evald 2) vvalue_as_f64 of
                        Some len \<Rightarrow> min (start + f64_as_usize len) (length chars)
                      | None \<Rightarrow> length chars)
          in if stop \<le> start then VStr [] else VStr (take (stop - start) (drop start chars)))"

fun eval_case :: "vvalue list \<Rightarrow> vvalue" where
  "eval_case (c # v # rest) = (if vvalue_is_truthy c then v else eval_case rest)"
| "eval_case [e] = e"
| "eval_case [] = VNull"

definition to_uppercase :: "string \<Rightarrow> string" where
  "to_uppercase s = map (\<lambda>c. if CHR ''a'' \<le> c \<and> c \<le> CHR ''z'' then char_of (of_char c - 32 :: nat) else c) s"

definition eval_call :: "printers \<Rightarrow> string \<Rightarrow> vvalue list \<Rightarrow> vvalue" where
  "eval_call pr name evald =
     (if name = ''strlen'' then (case get_at evald 0 of None \<Rightarrow> VNull | Some v \<Rightarrow> VNum (f64_of_int (int (length (vvalue_as_str pr v)))))
      else if name = ''lower'' then (case get_at evald 0 of None \<Rightarrow> VNull | Some v \<Rightarrow> VStr (to_lowercase (vvalue_as_str pr v)))
      else if name = ''upper'' then (case get_at evald 0 of None \<Rightarrow> VNull | Some v \<Rightarrow> VStr (to_uppercase (vvalue_as_str pr v)))
      else if name = ''abs'' then
        (case Option.bind (get_at evald 0) vvalue_as_f64 of None \<Rightarrow> VNull | Some n \<Rightarrow> VNum (f64_abs n))
      else if name = ''concat'' then VStr (concat (map (vvalue_as_str pr) (filter (\<lambda>v. v \<noteq> VNull) evald)))
      else if name = ''coalesce'' then (case find (\<lambda>v. v \<noteq> VNull) evald of None \<Rightarrow> VNull | Some v \<Rightarrow> v)
      else if name = ''substring'' then eval_substring pr evald
      else if name = ''case'' then eval_case evald
      else VNull)"

fun veval :: "printers \<Rightarrow> row \<Rightarrow> vexpr \<Rightarrow> vvalue" where
  "veval pr row (Literal v) = v"
| "veval pr row (ColumnRef name) = (case hm_get row name of None \<Rightarrow> VNull | Some j \<Rightarrow> vvalue_from_json pr j)"
| "veval pr row (Unary op operand) = eval_unary op (veval pr row operand)"
| "veval pr row (Binary op lhs rhs) = eval_binary pr op (veval pr row lhs) (veval pr row rhs)"
| "veval pr row (Call name args) = eval_call pr name (map (veval pr row) args)"

text \<open>The value depends on the referenced columns only.\<close>

lemma veval_cong:
  "(\<And>c. c \<in> set (collect_referenced_columns e) \<Longrightarrow> hm_get row c = hm_get row' c) \<Longrightarrow> veval pr row e = veval pr row' e"
proof (induction pr row e rule: veval.induct)
  case (5 pr row name args)
  then have "map (veval pr row) args = map (veval pr row') args" by (intro map_cong) auto
  then show ?case by (simp only: veval.simps)
qed auto

section \<open>Virtual columns\<close>

datatype virtual_column_spec = ExpressionSpec string string "string option"

type_synonym virtual_columns = "(string \<times> vexpr) list"

definition compile_virtual_column :: "virtual_column_spec \<Rightarrow> (string \<times> vexpr, druid_error) res" where
  "compile_virtual_column spec =
     (case spec of ExpressionSpec name expression _ \<Rightarrow>
        if name = ''__time'' then fail (Query ''virtual column must not be named __time'')
        else case vcompile expression of
          Inl Panic \<Rightarrow> panic
        | Inl (Err (ExprError e)) \<Rightarrow> fail (Query (''virtual column '' @ name @ '' has an invalid expression: '' @ e))
        | Inr expr \<Rightarrow> Ok (name, expr))"

definition compile_virtual_columns :: "virtual_column_spec list option \<Rightarrow> (virtual_columns, druid_error) res" where
  "compile_virtual_columns specs = (case specs of None \<Rightarrow> Ok [] | Some specs \<Rightarrow> mapM compile_virtual_column specs)"

definition virtual_names :: "virtual_columns \<Rightarrow> string list" where
  "virtual_names vcs = map fst vcs"

definition is_multi_column :: "segment_data \<Rightarrow> string \<Rightarrow> bool" where
  "is_multi_column seg name = (case hm_get (sd_columns seg) name of Some (StringMulti _) \<Rightarrow> True | _ \<Rightarrow> False)"

fun multi_value_refs_loop :: "segment_data \<Rightarrow> string list \<Rightarrow> virtual_columns \<Rightarrow> (unit, druid_error) res" where
  "multi_value_refs_loop seg derived [] = Ok ()"
| "multi_value_refs_loop seg derived ((vc, expr) # vcs) =
     (case find (\<lambda>name. name \<notin> set derived \<and> is_multi_column seg name) (collect_referenced_columns expr) of
        Some name \<Rightarrow> fail (Query (''expression over a multi-value dimension `'' @ name @ ''` is not supported yet''))
      | None \<Rightarrow> multi_value_refs_loop seg (derived @ [vc]) vcs)"

definition ensure_no_multi_value_refs :: "segment_data \<Rightarrow> virtual_columns \<Rightarrow> (unit, druid_error) res" where
  "ensure_no_multi_value_refs seg vcs = multi_value_refs_loop seg [] vcs"

definition augment_row :: "printers \<Rightarrow> virtual_columns \<Rightarrow> row \<Rightarrow> row" where
  "augment_row pr vcs row = fold (\<lambda>(name, expr) row. hm_insert name (vvalue_to_json (veval pr row expr)) row) vcs row"

end
