(* ===== verification/Query_Scan.thy ===== *)
theory Query_Scan
  imports Virtual_Expr Timeseries
begin

text \<open>
  Scan queries (ferrodruid-query/src/scan.rs): the selection of rows with its early end, ordering,
  offset and limit, the events, the alignment of the branches of a union, and the compacted form. The
  row map is allocated once and updated in place, so it is threaded through the loops. Numbers of rows
  are natural numbers.
\<close>

section \<open>Queries and results\<close>

record scan_query =
  sq_intervals :: "string list"
  sq_filter :: "filter_spec option"
  sq_virtual_columns :: "virtual_column_spec list option"
  sq_columns :: "string list option"
  sq_limit :: "nat option"
  sq_offset :: "nat option"
  sq_order :: "string option"
  sq_result_format :: "string option"

record scan_result =
  sr_segment_id :: "string option"
  sr_columns :: "string list"
  sr_events :: "row list"

section \<open>Unions\<close>

text \<open>The loop over the columns of one event: each value is moved out of the row.\<close>

fun remap_loop :: "(string \<times> string) list \<Rightarrow> row \<times> row \<Rightarrow> row \<times> row" where
  "remap_loop [] st = st"
| "remap_loop ((source, target) # cols) (source_row, remapped) =
     (case hm_get source_row source of
        None \<Rightarrow> remap_loop cols (source_row, remapped)
      | Some v \<Rightarrow> remap_loop cols (hm_remove source source_row, hm_insert target v remapped))"

definition align_union_branch :: "string list \<Rightarrow> scan_result \<Rightarrow> (scan_result, druid_error) res" where
  "align_union_branch target_columns branch =
     (if length (sr_columns branch) \<noteq> length target_columns then
        fail (Query ''UNION ALL: every branch must project the same number of columns'')
      else if list_all (\<lambda>(have, want). have = want) (zip (sr_columns branch) target_columns) then Ok branch
      else Ok \<lparr>sr_segment_id = sr_segment_id branch, sr_columns = target_columns,
               sr_events = map (\<lambda>event. snd (remap_loop (zip (sr_columns branch) target_columns) (event, []))) (sr_events branch)\<rparr>)"

definition compacted_value :: "scan_result \<Rightarrow> json" where
  "compacted_value r =
     JObject ((case sr_segment_id r of None \<Rightarrow> [] | Some segment_id \<Rightarrow> [(''segmentId'', JString segment_id)]) @
             [(''columns'', JArray (map JString (sr_columns r))),
              (''events'', JArray (map (\<lambda>event. JArray (map (\<lambda>col. option_null (hm_get event col)) (sr_columns r))) (sr_events r)))])"

section \<open>Selecting rows\<close>

definition all_columns :: "segment_data \<Rightarrow> virtual_columns \<Rightarrow> string list" where
  "all_columns seg vcs =
     fold (\<lambda>name cols. if name \<in> set cols then cols else cols @ [name]) (virtual_names vcs)
       (''__time'' # sd_dimensions seg @ sd_metrics seg)"

definition output_columns :: "scan_query \<Rightarrow> segment_data \<Rightarrow> virtual_columns \<Rightarrow> string list" where
  "output_columns q seg vcs = (case sq_columns q of Some (c # cs) \<Rightarrow> c # cs | _ \<Rightarrow> all_columns seg vcs)"

definition order_is_time_sorted :: "scan_query \<Rightarrow> bool" where
  "order_is_time_sorted q \<longleftrightarrow> sq_order q = Some ''descending'' \<or> sq_order q = None \<or> sq_order q = Some ''ascending''"

definition offset_of :: "scan_query \<Rightarrow> nat" where
  "offset_of q = (case sq_offset q of None \<Rightarrow> 0 | Some n \<Rightarrow> n)"

definition early_cutoff :: "scan_query \<Rightarrow> nat option" where
  "early_cutoff q = (if order_is_time_sorted q then None else map_option (\<lambda>lim. offset_of q + lim) (sq_limit q))"

fun select_rows :: "query_lib \<Rightarrow> bool \<Rightarrow> scan_query \<Rightarrow> segment_data \<Rightarrow> virtual_columns \<Rightarrow> (int \<times> int) list \<Rightarrow> nat \<Rightarrow> int list \<Rightarrow> row \<Rightarrow> nat list \<Rightarrow> nat list" where
  "select_rows L legacy q seg vcs intervals i [] row row_indices = row_indices"
| "select_rows L legacy q seg vcs intervals i (ts # tss) row row_indices =
     (if \<not> in_intervals intervals ts then select_rows L legacy q seg vcs intervals (Suc i) tss row row_indices
      else
        let row' = (case sq_filter q of None \<Rightarrow> row | Some f \<Rightarrow> augment_row (prn L) vcs (build_row_update_only legacy seg i row)) in
        if (case sq_filter q of None \<Rightarrow> False | Some f \<Rightarrow> \<not> matches L legacy f row')
        then select_rows L legacy q seg vcs intervals (Suc i) tss row' row_indices
        else
          let row_indices' = row_indices @ [i] in
          if (case early_cutoff q of None \<Rightarrow> False | Some cap \<Rightarrow> cap \<le> length row_indices') then row_indices'
          else select_rows L legacy q seg vcs intervals (Suc i) tss row' row_indices')"

text \<open>The sorts are stable.\<close>

definition apply_order :: "scan_query \<Rightarrow> int list \<Rightarrow> nat list \<Rightarrow> nat list" where
  "apply_order q timestamps rows =
     (if sq_order q = Some ''descending'' then sort_key (\<lambda>i. - (timestamps ! i)) rows
      else if sq_order q = Some ''ascending'' \<or> sq_order q = None then sort_key (\<lambda>i. timestamps ! i) rows
      else rows)"

definition apply_offset :: "scan_query \<Rightarrow> nat list \<Rightarrow> nat list" where
  "apply_offset q rows =
     (let offset = offset_of q
      in if 0 < offset \<and> offset < length rows then drop offset rows
         else if length rows \<le> offset then []
         else rows)"

definition apply_limit :: "scan_query \<Rightarrow> nat list \<Rightarrow> nat list" where
  "apply_limit q rows = (case sq_limit q of None \<Rightarrow> rows | Some limit \<Rightarrow> take limit rows)"

section \<open>Events\<close>

definition project :: "string list \<Rightarrow> row \<Rightarrow> row" where
  "project cols full_row =
     fold (\<lambda>col event. case hm_get full_row col of None \<Rightarrow> event | Some v \<Rightarrow> hm_insert col v event) cols []"

fun build_events :: "query_lib \<Rightarrow> bool \<Rightarrow> segment_data \<Rightarrow> virtual_columns \<Rightarrow> string list \<Rightarrow> nat list \<Rightarrow> row \<Rightarrow> row list" where
  "build_events L legacy seg vcs cols [] full_row = []"
| "build_events L legacy seg vcs cols (i # rows) full_row =
     (let full_row' = augment_row (prn L) vcs (build_row_update_only legacy seg i full_row)
      in project cols full_row' # build_events L legacy seg vcs cols rows full_row')"

section \<open>Execution\<close>

definition check_member :: "string \<Rightarrow> string list \<Rightarrow> string option \<Rightarrow> (unit, druid_error) res" where
  "check_member msg allowed v = (case v of None \<Rightarrow> Ok () | Some x \<Rightarrow> if x \<in> set allowed then Ok () else fail (Query msg))"

definition check_scan_filter :: "(filter_spec \<Rightarrow> (unit, druid_error) res) \<Rightarrow> scan_query \<Rightarrow> (unit, druid_error) res" where
  "check_scan_filter c q = (case sq_filter q of None \<Rightarrow> Ok () | Some f \<Rightarrow> c f)"

definition scan_rows :: "query_lib \<Rightarrow> bool \<Rightarrow> scan_query \<Rightarrow> segment_data \<Rightarrow> virtual_columns \<Rightarrow> (int \<times> int) list \<Rightarrow> int list \<Rightarrow> scan_result" where
  "scan_rows L legacy q seg vcs intervals timestamps =
     (let cols = output_columns q seg vcs;
          found = select_rows L legacy q seg vcs intervals 0 (take (sd_num_rows seg) timestamps) (build_row_prealloc seg) [];
          rows = apply_limit q (apply_offset q (apply_order q timestamps found))
      in \<lparr>sr_segment_id = None, sr_columns = cols, sr_events = build_events L legacy seg vcs cols rows (build_row_prealloc seg)\<rparr>)"

definition scan_execute :: "query_lib \<Rightarrow> bool \<Rightarrow> scan_query \<Rightarrow> segment_data \<Rightarrow> (scan_result, druid_error) res" where
  "scan_execute L legacy q seg =
     bind (check_member ''Scan: unsupported resultFormat'' [''list'', ''compactedList''] (sq_result_format q)) (\<lambda>_.
     bind (check_member ''Scan: unsupported order'' [''ascending'', ''descending'', ''none''] (sq_order q)) (\<lambda>_.
     bind (check_scan_filter (validate L) q) (\<lambda>_.
     bind (compile_virtual_columns (sq_virtual_columns q)) (\<lambda>vcs.
     bind (ensure_no_multi_value_refs seg vcs) (\<lambda>_.
     bind (check_scan_filter (ensure_multi_value_supported seg (virtual_names vcs)) q) (\<lambda>_.
     bind (parse_intervals L (sq_intervals q)) (\<lambda>intervals.
     bind (timestamp_column seg) (\<lambda>timestamps.
     Ok (scan_rows L legacy q seg vcs intervals timestamps)))))))))"

definition execute_compacted :: "query_lib \<Rightarrow> bool \<Rightarrow> scan_query \<Rightarrow> segment_data \<Rightarrow> (json, druid_error) res" where
  "execute_compacted L legacy q seg = bind (scan_execute L legacy q seg) (\<lambda>r. Ok (compacted_value r))"

end
