(* ===== verification/Virtual_Expr_Properties.thy ===== *)
theory Virtual_Expr_Properties
  imports Virtual_Expr Query_Expr_Properties
begin

text \<open>
  The parser of virtual-column expressions inverts printing: the text of an expression, with the
  parentheses its operators need and no more, compiles to the expression.
\<close>

section \<open>Printing\<close>

text \<open>Binding strength: 0 for disjunctions up to 4 for products, 5 for unary operators, 6 for everything else.\<close>

fun strength :: "level \<Rightarrow> nat" where
  "strength LevelOr = 0"
| "strength LevelAnd = 1"
| "strength LevelAdd = 3"
| "strength LevelMul = 4"

definition op_strength :: "string \<Rightarrow> nat option" where
  "op_strength op =
     (if op \<in> set (level_ops LevelOr) then Some 0
      else if op \<in> set (level_ops LevelAnd) then Some 1
      else if op \<in> set cmp_ops then Some 2
      else if op \<in> set (level_ops LevelAdd) then Some 3
      else if op \<in> set (level_ops LevelMul) then Some 4
      else None)"

fun vexpr_strength :: "vexpr \<Rightarrow> nat" where
  "vexpr_strength (Unary _ _) = 5"
| "vexpr_strength (Binary op _ _) = (case op_strength op of None \<Rightarrow> 0 | Some n \<Rightarrow> n)"
| "vexpr_strength _ = 6"

text \<open>A comparison takes sums on both sides; the other operators associate to the left.\<close>

definition left_strength :: "string \<Rightarrow> nat" where
  "left_strength op = (case op_strength op of None \<Rightarrow> 0 | Some n \<Rightarrow> if n = 2 then 3 else n)"

definition right_strength :: "string \<Rightarrow> nat" where
  "right_strength op = (case op_strength op of None \<Rightarrow> 0 | Some n \<Rightarrow> Suc n)"

fun comma_list :: "vtoken list list \<Rightarrow> vtoken list" where
  "comma_list [] = []"
| "comma_list [ts] = ts"
| "comma_list (ts # tss) = ts @ TComma # comma_list tss"

definition wrap :: "bool \<Rightarrow> vtoken list \<Rightarrow> vtoken list" where
  "wrap b ts = (if b then TLParen # ts @ [TRParen] else ts)"

fun literal_token :: "vvalue \<Rightarrow> vtoken" where
  "literal_token (VNum n) = TNum n"
| "literal_token (VStr s) = TStr s"
| "literal_token (VBool b) = TIdent (if b then ''true'' else ''false'')"
| "literal_token VNull = TIdent ''null''"

fun vtokens :: "nat \<Rightarrow> vexpr \<Rightarrow> vtoken list" where
  "vtokens p (Literal v) = [literal_token v]"
| "vtokens p (ColumnRef s) = [TIdent s]"
| "vtokens p (Unary op e) = wrap (5 < p) (TOp op # vtokens 5 e)"
| "vtokens p (Binary op l r) =
     wrap (vexpr_strength (Binary op l r) < p) (vtokens (left_strength op) l @ TOp op # vtokens (right_strength op) r)"
| "vtokens p (Call name args) = TIdent name # TLParen # comma_list (map (vtokens 0) args) @ [TRParen]"

text \<open>The expressions the language can express: its operators, its functions, columns with the names of identifiers.\<close>

fun vexpr_ok :: "vexpr \<Rightarrow> bool" where
  "vexpr_ok (Literal _) = True"
| "vexpr_ok (ColumnRef s) = (s \<notin> {''null'', ''true'', ''false''})"
| "vexpr_ok (Unary op e) = (op \<in> {''-'', ''!''} \<and> vexpr_ok e)"
| "vexpr_ok (Binary op l r) = (op_strength op \<noteq> None \<and> vexpr_ok l \<and> vexpr_ok r)"
| "vexpr_ok (Call name args) = (name \<in> set function_names \<and> list_all vexpr_ok args)"

section \<open>Parsing what was printed\<close>

text \<open>What follows does not continue an expression of strength \<open>p\<close>.\<close>

definition stops :: "nat \<Rightarrow> vtoken list \<Rightarrow> bool" where
  "stops p ts =
     (case ts of
        TOp op # _ \<Rightarrow> (case op_strength op of None \<Rightarrow> True | Some n \<Rightarrow> n < p)
      | TLParen # _ \<Rightarrow> False
      | _ \<Rightarrow> True)"

fun parse_at :: "nat \<Rightarrow> vtoken list \<Rightarrow> vexpr parsed" where
  "parse_at p ts =
     (if p = 0 then vparse_binary LevelOr ts
      else if p = 1 then vparse_binary LevelAnd ts
      else if p = 2 then vparse_cmp ts
      else if p = 3 then vparse_binary LevelAdd ts
      else if p = 4 then vparse_binary LevelMul ts
      else if p = 5 then vparse_unary ts
      else vparse_primary ts)"

definition parses :: "nat \<Rightarrow> vtoken list \<Rightarrow> vexpr \<Rightarrow> bool" where
  "parses p xs e \<longleftrightarrow> (\<forall>rest. stops p rest \<longrightarrow> parse_at p (xs @ rest) = Ok (e, rest))"

definition enters :: "level \<Rightarrow> vtoken list \<Rightarrow> vexpr \<Rightarrow> bool" where
  "enters l xs e \<longleftrightarrow> (\<forall>rest. stops (Suc (strength l)) rest \<longrightarrow> vparse_binary l (xs @ rest) = vbinary_loop l e rest)"

lemma stops_mono: "stops p rest \<Longrightarrow> p \<le> q \<Longrightarrow> stops q rest"
  by (auto simp: stops_def split: list.splits vtoken.splits option.splits)

lemma op_strength_level: "op \<in> set (level_ops l) \<Longrightarrow> op_strength op = Some (strength l)"
  by (cases l) (auto simp: op_strength_def cmp_ops_def)

lemma op_strength_cmp: "op \<in> set cmp_ops \<Longrightarrow> op_strength op = Some 2"
  by (auto simp: op_strength_def cmp_ops_def)

lemma stops_eat: "stops (strength l) rest \<Longrightarrow> eat_op (level_ops l) rest = None"
  by (auto simp: stops_def eat_op_def op_strength_level split: list.splits vtoken.splits)

lemma stops_eat_cmp: "stops 2 rest \<Longrightarrow> eat_op cmp_ops rest = None"
  by (auto simp: stops_def eat_op_def op_strength_cmp split: list.splits vtoken.splits)

lemma operand_at: "vparse_operand l ts = parse_at (Suc (strength l)) ts"
  by (cases l) (simp_all add: vparse_operand.simps)

lemma binary_at: "parse_at (strength l) ts = vparse_binary l ts"
  by (cases l) simp_all

lemma enters_operand: "parses (Suc (strength l)) xs e \<Longrightarrow> enters l xs e"
  by (simp add: parses_def enters_def vparse_binary.simps [of l] operand_at del: parse_at.simps)

lemma enters_parses: "enters l xs e \<Longrightarrow> parses (strength l) xs e"
  unfolding parses_def binary_at enters_def
  using stops_mono [of "strength l" _ "Suc (strength l)"] by (simp add: vbinary_loop.simps [of l] stops_eat)

lemma enters_step:
  assumes "enters l xs e" and "parses (Suc (strength l)) ys e'" and "op \<in> set (level_ops l)"
  shows "enters l (xs @ TOp op # ys) (Binary op e e')"
  unfolding enters_def
proof (intro allI impI)
  fix rest assume "stops (Suc (strength l)) rest"
  moreover have "stops (Suc (strength l)) (TOp op # ys @ rest)" using op_strength_level [OF assms(3)] by (simp add: stops_def)
  ultimately show "vparse_binary l ((xs @ TOp op # ys) @ rest) = vbinary_loop l (Binary op e e') rest"
    using assms by (simp add: enters_def parses_def vbinary_loop.simps [of l e] eat_op_def operand_at del: parse_at.simps)
qed

lemma parses_cmp_operand: "parses 3 xs e \<Longrightarrow> parses 2 xs e"
  unfolding parses_def using stops_mono [of 2 _ 3] by (simp add: vparse_cmp.simps stops_eat_cmp)

lemma parses_cmp:
  assumes "parses 3 xs e" and "parses 3 ys e'" and "op \<in> set cmp_ops"
  shows "parses 2 (xs @ TOp op # ys) (Binary op e e')"
  unfolding parses_def
proof (intro allI impI)
  fix rest assume "stops 2 rest"
  then have "stops 3 rest" using stops_mono by fastforce
  moreover have "stops 3 (TOp op # ys @ rest)" using op_strength_cmp [OF assms(3)] by (simp add: stops_def)
  ultimately show "parse_at 2 ((xs @ TOp op # ys) @ rest) = Ok (Binary op e e', rest)"
    using assms by (simp add: parses_def vparse_cmp.simps eat_op_def)
qed

text \<open>An expression that does not begin with a unary operator passes through the level of unary operators.\<close>

definition plain_head :: "vtoken list \<Rightarrow> bool" where
  "plain_head xs \<longleftrightarrow> xs \<noteq> [] \<and> (\<forall>op. hd xs \<noteq> TOp op)"

lemma parses_unary_operand:
  assumes "parses 6 xs e" and "plain_head xs"
  shows "parses 5 xs e"
  unfolding parses_def
proof (intro allI impI)
  fix rest assume "stops 5 rest"
  then have rest: "stops 6 rest" using stops_mono by fastforce
  obtain t us where xs: "xs = t # us" "\<And>op. t \<noteq> TOp op" using assms(2) by (cases xs) (auto simp: plain_head_def)
  have "eat_op [''-'', ''!''] (xs @ rest) = None" using xs by (cases t) (simp_all add: eat_op_def)
  then have "parse_at 5 (xs @ rest) = vparse_primary (xs @ rest)" by (simp add: vparse_unary.simps [of "xs @ rest"])
  then show "parse_at 5 (xs @ rest) = Ok (e, rest)" using assms(1) rest by (simp add: parses_def)
qed

lemma parses_down_one:
  assumes "parses (Suc p) xs e" and "p < 6" and "p = 5 \<Longrightarrow> plain_head xs"
  shows "parses p xs e"
proof -
  have level: "parses (strength l) xs e" if "p = strength l" for l
    using enters_parses [OF enters_operand] assms(1) that by blast
  consider "p = 0" | "p = 1" | "p = 2" | "p = 3" | "p = 4" | "p = 5" using assms(2) by linarith
  then show ?thesis
  proof cases
    case 1
    then show ?thesis using level [of LevelOr] by simp
  next
    case 2
    then show ?thesis using level [of LevelAnd] by simp
  next
    case 3
    then show ?thesis using parses_cmp_operand [of xs e] assms(1) by (simp add: numeral_eq_Suc)
  next
    case 4
    then show ?thesis using level [of LevelAdd] by simp
  next
    case 5
    then show ?thesis using level [of LevelMul] by simp
  next
    case 6
    then show ?thesis using parses_unary_operand [of xs e] assms(1,3) by simp
  qed
qed

lemma parses_down:
  assumes "parses q xs e" and "p \<le> q" and "q \<le> 6" and "q = 6 \<Longrightarrow> plain_head xs"
  shows "parses p xs e"
  using assms
proof (induction q)
  case (Suc q)
  show ?case
  proof (cases "p = Suc q")
    case False
    then have "parses q xs e" "p \<le> q" using parses_down_one [of q xs e] Suc.prems by auto
    then show ?thesis using Suc.IH Suc.prems by simp
  qed (use Suc.prems in simp)
qed simp

section \<open>Every expression\<close>

lemma parses_parens:
  assumes "parses 0 xs e"
  shows "parses 6 (wrap True xs) e"
  unfolding parses_def
proof (intro allI impI)
  fix rest
  have "stops 0 (TRParen # rest)" by (simp add: stops_def)
  then show "parse_at 6 (wrap True xs @ rest) = Ok (e, rest)"
    using assms by (simp add: parses_def wrap_def close_paren_def)
qed

lemma parses_wrap:
  assumes "parses q xs e" and "q \<le> 6" and "p \<le> 6" and "q = 6 \<Longrightarrow> plain_head xs"
  shows "parses p (wrap (q < p) xs) e"
proof (cases "q < p")
  case True
  have "parses 0 xs e" using parses_down [OF assms(1)] assms by simp
  then show ?thesis using True parses_down [OF parses_parens, of xs e p] assms(3) by (simp add: plain_head_def wrap_def)
next
  case False
  then show ?thesis using parses_down [OF assms(1), of p] assms by (simp add: wrap_def)
qed

lemma parses_literal: "parses 6 [literal_token v] (Literal v)"
  by (cases v) (auto simp: parses_def)

lemma parses_column: "vexpr_ok (ColumnRef s) \<Longrightarrow> parses 6 [TIdent s] (ColumnRef s)"
  by (auto simp: parses_def stops_def split: list.splits)

lemma parses_unary:
  assumes "parses 5 xs e" and "op \<in> {''-'', ''!''}"
  shows "parses 5 (TOp op # xs) (Unary op e)"
  unfolding parses_def using assms by (auto simp: parses_def vparse_unary.simps [of "TOp _ # _"] eat_op_def)

text \<open>The arguments of a call.\<close>

lemma stops_after_argument: "stops 0 (TComma # ts)" "stops 0 (TRParen # ts)"
  by (simp_all add: stops_def)

lemma parse_arguments:
  assumes "\<And>e. e \<in> set args \<Longrightarrow> parses 0 (vtokens 0 e) e" and "args \<noteq> []"
  shows "vparse_args acc (comma_list (map (vtokens 0) args) @ TRParen # rest) = Ok (acc @ args, TRParen # rest)"
  using assms
proof (induction args arbitrary: acc)
  case (Cons e args)
  have e: "vparse_binary LevelOr (vtokens 0 e @ us) = Ok (e, us)" if "stops 0 us" for us
    using Cons.prems(1) [of e] that by (simp add: parses_def)
  show ?case
  proof (cases args)
    case Nil
    then show ?thesis using e [of "TRParen # rest"] stops_after_argument by (simp add: vparse_args.simps [of acc])
  next
    case (Cons e' args')
    have "comma_list (map (vtokens 0) (e # args)) @ TRParen # rest = vtokens 0 e @ TComma # comma_list (map (vtokens 0) args) @ TRParen # rest"
      using Cons by simp
    then show ?thesis
      using e [of "TComma # comma_list (map (vtokens 0) args) @ TRParen # rest"] stops_after_argument Cons.IH [of "acc @ [e]"] Cons.prems Cons
      by (simp add: vparse_args.simps [of acc])
  qed
qed simp


lemma vtokens_head: "vtokens p e \<noteq> [] \<and> hd (vtokens p e) \<noteq> TRParen"
proof (induction p e rule: vtokens.induct)
  case (1 p v)
  then show ?case by (cases v) simp_all
qed (auto simp: wrap_def)

lemma comma_list_head: "args \<noteq> [] \<Longrightarrow> comma_list (map (vtokens 0) args) \<noteq> [] \<and> hd (comma_list (map (vtokens 0) args)) \<noteq> TRParen"
  using vtokens_head [of 0] by (cases args rule: remdups_adj.cases) auto

lemma function_names_lower: "name \<in> set function_names \<Longrightarrow> to_lowercase name = name \<and> name \<notin> {''null'', ''true'', ''false''}"
  by (auto simp: function_names_def to_lowercase_def less_eq_char_def)

lemma parses_call:
  assumes "\<And>e. e \<in> set args \<Longrightarrow> parses 0 (vtokens 0 e) e" and "name \<in> set function_names"
  shows "parses 6 (vtokens p (Call name args)) (Call name args)"
  unfolding parses_def
proof (intro allI impI)
  fix rest
  let ?xs = "comma_list (map (vtokens 0) args)"
  note lower = function_names_lower [OF assms(2)]
  show "parse_at 6 (vtokens p (Call name args) @ rest) = Ok (Call name args, rest)"
  proof (cases "args = []")
    case True
    then show ?thesis using lower by simp
  next
    case False
    have "?xs @ TRParen # rest \<noteq> [] \<and> hd (?xs @ TRParen # rest) \<noteq> TRParen" using comma_list_head [OF False] by (cases ?xs) auto
    then show ?thesis
      using parse_arguments [OF assms(1) False, of "[]" rest] lower by (simp add: close_paren_def)
  qed
qed

lemma parses_binary:
  assumes ok: "op_strength op = Some n"
    and l: "\<And>p. p \<le> 6 \<Longrightarrow> parses p (vtokens p l) l" "\<And>lv. enters lv (vtokens (strength lv) l) l"
    and r: "\<And>p. p \<le> 6 \<Longrightarrow> parses p (vtokens p r) r"
  shows "parses n (vtokens (left_strength op) l @ TOp op # vtokens (right_strength op) r) (Binary op l r)"
    and "strength lv = n \<Longrightarrow> enters lv (vtokens (left_strength op) l @ TOp op # vtokens (right_strength op) r) (Binary op l r)"
proof -
  have level: "op \<in> set (level_ops lv) \<and> n \<noteq> 2" if "strength lv = n" for lv
    using ok that by (cases lv) (auto simp: op_strength_def split: if_splits)
  have enter: "enters lv (vtokens (left_strength op) l @ TOp op # vtokens (right_strength op) r) (Binary op l r)" if "strength lv = n" for lv
  proof -
    have "left_strength op = strength lv" "right_strength op = Suc (strength lv)" "Suc (strength lv) \<le> 6"
      using level [OF that] ok that by (cases lv; simp add: left_strength_def right_strength_def)+
    then show ?thesis using enters_step [OF l(2) r] level [OF that] by simp
  qed
  then show "strength lv = n \<Longrightarrow> enters lv (vtokens (left_strength op) l @ TOp op # vtokens (right_strength op) r) (Binary op l r)" .
  have "n = 2 \<and> op \<in> set cmp_ops \<or> (\<exists>lv. strength lv = n)"
    using ok by (auto simp: op_strength_def split: if_splits intro: exI [of _ LevelOr] exI [of _ LevelAnd] exI [of _ LevelAdd] exI [of _ LevelMul])
  then show "parses n (vtokens (left_strength op) l @ TOp op # vtokens (right_strength op) r) (Binary op l r)"
  proof (elim disjE conjE exE)
    assume "n = 2" "op \<in> set cmp_ops"
    then show ?thesis using parses_cmp [OF l(1) [of 3] r [of 3]] ok by (simp add: left_strength_def right_strength_def)
  next
    fix lv assume "strength lv = n"
    then show ?thesis using enters_parses [OF enter] by blast
  qed
qed

lemma vtokens_parse:
  assumes "vexpr_ok e"
  shows "p \<le> 6 \<Longrightarrow> parses p (vtokens p e) e" and "enters lv (vtokens (strength lv) e) e"
proof -
  have enter: "enters lv (vtokens (strength lv) e) e" if "\<And>p. p \<le> 6 \<Longrightarrow> parses p (vtokens p e) e" "vtokens (strength lv) e = vtokens (Suc (strength lv)) e" for e lv
    using enters_operand [of lv] that by (cases lv) fastforce+
  have "(\<forall>p \<le> 6. parses p (vtokens p e) e) \<and> (\<forall>lv. enters lv (vtokens (strength lv) e) e)"
    using assms
  proof (induction e)
    case (Literal v)
    have "parses p (vtokens p (Literal v)) (Literal v)" if "p \<le> 6" for p
    proof -
      have "literal_token v \<noteq> TOp op" for op by (cases v) simp_all
      then show ?thesis using parses_down [OF parses_literal, of p v] that by (simp add: plain_head_def)
    qed
    then show ?case using enter [of "Literal v"] by auto
  next
    case (ColumnRef s)
    have "parses p (vtokens p (ColumnRef s)) (ColumnRef s)" if "p \<le> 6" for p
      using parses_down [OF parses_column [OF ColumnRef], of p] that by (simp add: plain_head_def)
    then show ?case using enter [of "ColumnRef s"] by auto
  next
    case (Unary op e)
    have "parses p (vtokens p (Unary op e)) (Unary op e)" if "p \<le> 6" for p
      using parses_wrap [OF parses_unary, of "vtokens 5 e" e op p] Unary that by simp
    moreover have "vtokens (strength lv) (Unary op e) = vtokens (Suc (strength lv)) (Unary op e)" for lv by (cases lv) simp_all
    ultimately show ?case using enter by blast
  next
    case (Binary op l r)
    obtain n where n: "op_strength op = Some n" using Binary.prems by auto
    have "n \<le> 4" using n by (auto simp: op_strength_def split: if_splits)
    note b = parses_binary [OF n, of l r]
    have ps: "parses p (vtokens p (Binary op l r)) (Binary op l r)" if "p \<le> 6" for p
      using parses_wrap [OF b(1), of p] Binary that n \<open>n \<le> 4\<close> by simp
    moreover have "enters lv (vtokens (strength lv) (Binary op l r)) (Binary op l r)" for lv
    proof (cases "n = strength lv")
      case True
      then show ?thesis using b(2) [of lv] Binary n by (simp add: wrap_def)
    next
      case False
      then have "vtokens (strength lv) (Binary op l r) = vtokens (Suc (strength lv)) (Binary op l r)" using n by (auto simp: wrap_def)
      then show ?thesis using enter ps by blast
    qed
    ultimately show ?case by blast
  next
    case (Call name args)
    have "parses 6 (vtokens p (Call name args)) (Call name args)" for p
      using parses_call [of args name p] Call by (auto simp: list_all_iff)
    then have "parses p (vtokens p (Call name args)) (Call name args)" if "p \<le> 6" for p
      using parses_down [of 6 "vtokens p (Call name args)" "Call name args" p] that by (simp add: plain_head_def)
    then show ?case using enter [of "Call name args"] by auto
  qed
  then show "p \<le> 6 \<Longrightarrow> parses p (vtokens p e) e" "enters lv (vtokens (strength lv) e) e" by blast+
qed


section \<open>The text\<close>

text \<open>Tokens are written with a blank after each; a string between single quotes with a backslash before quotes and
  backslashes. How a number is written is an argument: any text of digits and points that reads as the number.\<close>

definition escape_char :: "char \<Rightarrow> string" where
  "escape_char c = (if c = quote \<or> c = backslash then [backslash, c] else [c])"

fun token_text :: "(f64 \<Rightarrow> string) \<Rightarrow> vtoken \<Rightarrow> string" where
  "token_text num (TNum n) = num n"
| "token_text num (TStr s) = quote # concat (map escape_char s) @ [quote]"
| "token_text num (TIdent s) = s"
| "token_text num (TOp op) = op"
| "token_text num TLParen = ''(''"
| "token_text num TRParen = '')''"
| "token_text num TComma = '',''"

definition tokens_text :: "(f64 \<Rightarrow> string) \<Rightarrow> vtoken list \<Rightarrow> string" where
  "tokens_text num ts = concat (map (\<lambda>t. token_text num t @ '' '') ts)"

definition vexpr_text :: "(f64 \<Rightarrow> string) \<Rightarrow> vexpr \<Rightarrow> string" where
  "vexpr_text num e = tokens_text num (vtokens 0 e)"

definition number_text_ok :: "(f64 \<Rightarrow> string) \<Rightarrow> f64 \<Rightarrow> bool" where
  "number_text_ok num n \<longleftrightarrow> num n \<noteq> [] \<and> is_digit (hd (num n)) \<and> list_all in_number (num n) \<and> parse_f64 (num n) = Some n"

definition ident_name :: "string \<Rightarrow> bool" where
  "ident_name s \<longleftrightarrow> s \<noteq> [] \<and> list_all is_word s \<and> \<not> is_digit (hd s)"

fun token_ok :: "(f64 \<Rightarrow> string) \<Rightarrow> vtoken \<Rightarrow> bool" where
  "token_ok num (TNum n) = number_text_ok num n"
| "token_ok num (TIdent s) = ident_name s"
| "token_ok num (TOp op) = (op_strength op \<noteq> None \<or> op = ''!'')"
| "token_ok num _ = True"

lemma string_literal_escaped: "string_literal quote (concat (map escape_char s) @ quote # rest) = Some (s, rest)"
proof (induction s)
  case Nil
  then show ?case by (cases rest) simp_all
next
  case (Cons c s)
  obtain d ds where ds: "concat (map escape_char s) @ quote # rest = d # ds" by (cases "concat (map escape_char s)") auto
  show ?case using Cons ds by (cases "c = quote \<or> c = backslash") (auto simp: escape_char_def [of c])
qed

lemma tokenize_blank: "vtokenize (CHR '' '' # s) = vtokenize s"
  by (simp add: vtokenize.simps(2) is_ascii_ws_def)

lemma blank_stops: "case CHR '' '' # s of [] \<Rightarrow> True | c # _ \<Rightarrow> \<not> is_word c" "case CHR '' '' # s of [] \<Rightarrow> True | c # _ \<Rightarrow> \<not> in_number c"
  using boundary_stops [of "CHR '' '' # s"] by simp_all

lemma word_start:
  assumes "is_word c"
  shows "\<not> is_ascii_ws c" "c \<noteq> CHR ''(''" "c \<noteq> CHR '')''" "c \<noteq> CHR '',''" "c \<noteq> quote" "c \<noteq> double_quote"
    "c \<notin> {CHR ''+'', CHR ''-'', CHR ''*'', CHR ''/'', CHR ''%''}" "c \<notin> {CHR ''='', CHR ''!'', CHR ''<'', CHR ''>'', CHR ''&'', CHR ''|''}" "c \<noteq> CHR ''.''"
  using assms by (auto simp: is_word_def is_ascii_ws_def is_alphabetic_def is_digit_def less_eq_char_def)

lemma tokenize_identifier:
  assumes "ident_name s"
  shows "vtokenize (s @ CHR '' '' # rest) = bind (vtokenize rest) (\<lambda>ts. Ok (TIdent s # ts))"
proof -
  obtain c cs where s: "s = c # cs" "is_word c" "list_all is_word cs" "\<not> is_digit c" using assms by (cases s) (auto simp: ident_name_def)
  then have "is_alphabetic c \<or> c = CHR ''_''" by (auto simp: is_word_def)
  then show ?thesis
    using s(4) word_start [OF s(2)] takeWhile_append_all [OF s(3) blank_stops(1), of rest] tokenize_blank [of rest]
    by (simp add: s(1) vtokenize.simps(2) [of c])
qed

lemma tokenize_number:
  assumes "number_text_ok num n"
  shows "vtokenize (num n @ CHR '' '' # rest) = bind (vtokenize rest) (\<lambda>ts. Ok (TNum n # ts))"
proof -
  obtain c cs where s: "num n = c # cs" "is_digit c" "list_all in_number cs" "parse_f64 (c # cs) = Some n"
    using assms by (cases "num n") (auto simp: number_text_ok_def)
  then have "is_word c" by (simp add: is_word_def)
  then show ?thesis
    using s(2,4) word_start [of c] takeWhile_append_all [OF s(3) blank_stops(2), of rest] tokenize_blank [of rest]
    by (simp add: s(1) vtokenize.simps(2) [of c])
qed

lemma tokenize_operator:
  assumes "op_strength op \<noteq> None \<or> op = ''!''"
  shows "vtokenize (op @ CHR '' '' # rest) = bind (vtokenize rest) (\<lambda>ts. Ok (TOp op # ts))"
proof -
  have "op \<in> {''||'', ''&&'', ''=='', ''!='', ''>'', ''<'', ''>='', ''<='', ''+'', ''-'', ''*'', ''/'', ''%'', ''!''}"
    using assms by (auto simp: op_strength_def cmp_ops_def split: if_splits)
  then show ?thesis
    using tokenize_blank [of rest]
    by (elim insertE emptyE) (simp_all add: vtokenize.simps(2) is_ascii_ws_def two_char_ops_def)
qed

lemma tokenize_token:
  assumes "token_ok num t"
  shows "vtokenize (token_text num t @ CHR '' '' # rest) = bind (vtokenize rest) (\<lambda>ts. Ok (t # ts))"
proof (cases t)
  case (TStr s)
  then show ?thesis
    using string_literal_escaped [of s "CHR '' '' # rest"] tokenize_blank [of rest] by (simp add: vtokenize.simps(2) [of quote] is_ascii_ws_def)
qed (use assms in \<open>simp_all add: tokenize_number tokenize_identifier tokenize_operator, simp_all add: vtokenize.simps(2) is_ascii_ws_def\<close>)

lemma tokenize_tokens: "list_all (token_ok num) ts \<Longrightarrow> vtokenize (tokens_text num ts) = Ok ts"
proof (induction ts)
  case (Cons t ts)
  then have "vtokenize (tokens_text num ts) = Ok ts" by simp
  then show ?case using Cons.prems tokenize_token [of num t "tokens_text num ts"] by (simp add: tokens_text_def)
qed (simp add: tokens_text_def)

text \<open>The texts of an expression's columns, functions and numbers can be written.\<close>

fun writable :: "(f64 \<Rightarrow> string) \<Rightarrow> vexpr \<Rightarrow> bool" where
  "writable num (Literal v) = (case v of VNum n \<Rightarrow> number_text_ok num n | _ \<Rightarrow> True)"
| "writable num (ColumnRef s) = ident_name s"
| "writable num (Unary op e) = writable num e"
| "writable num (Binary op l r) = (writable num l \<and> writable num r)"
| "writable num (Call name args) = list_all (writable num) args"

lemma comma_list_all: "(\<And>ts. ts \<in> set tss \<Longrightarrow> list_all P ts) \<Longrightarrow> P TComma \<Longrightarrow> list_all P (comma_list tss)"
  by (induction tss rule: comma_list.induct) auto

lemma function_names_identifier: "name \<in> set function_names \<Longrightarrow> ident_name name"
  by (auto simp: function_names_def ident_name_def is_word_def is_alphabetic_def is_digit_def less_eq_char_def)

lemma vtokens_ok: "vexpr_ok e \<Longrightarrow> writable num e \<Longrightarrow> list_all (token_ok num) (vtokens p e)"
proof (induction p e rule: vtokens.induct)
  case (1 p v)
  then show ?case by (cases v) (auto simp: ident_name_def is_word_def is_alphabetic_def is_digit_def less_eq_char_def)
next
  case (3 p op e)
  then show ?case by (auto simp: wrap_def op_strength_def cmp_ops_def)
next
  case (4 p op l r)
  then show ?case by (auto simp: wrap_def)
next
  case (5 p name args)
  then have "list_all (token_ok num) (comma_list (map (vtokens 0) args))" by (intro comma_list_all) (auto simp: list_all_iff)
  then show ?case using 5 function_names_identifier by simp
qed simp

lemma functions_ok: "vexpr_ok e \<Longrightarrow> validate_functions e = Ok ()"
proof (induction e rule: validate_functions.induct)
  case (5 name args)
  then have "mapM validate_functions args = Ok (replicate (length args) ())"
  proof (induction args)
    case (Cons a args)
    then show ?case by (auto simp: bind_def)
  qed simp
  then show ?case using 5 by (simp add: bind_def)
qed (auto simp: bind_def)


lemma vcompile_text:
  assumes "vexpr_ok e" and "writable num e"
  shows "vcompile (vexpr_text num e) = Ok e"
proof -
  have "vtokenize (vexpr_text num e) = Ok (vtokens 0 e)" using tokenize_tokens [OF vtokens_ok [OF assms]] by (simp add: vexpr_text_def)
  moreover have "stops 0 []" by (simp add: stops_def)
  then have "parse_at 0 (vtokens 0 e @ []) = Ok (e, [])" using vtokens_parse(1) [OF assms(1), of 0] unfolding parses_def by blast
  ultimately show ?thesis using vtokens_head [of 0 e] functions_ok [OF assms(1)] by (simp add: vcompile_def)
qed

text \<open>C13: Compiling inverts printing. The text of an expression of the language, written with parentheses only where the
  precedence and the left associativity of its operators need them (and around a comparison inside a
  comparison), compiles to exactly that expression: operators of every level, function calls, quoted texts with any
  characters, keywords and numbers.\<close>

theorem virtual_expression_roundtrip:
  assumes "vexpr_ok e" and "writable num e"
  shows "vcompile (vexpr_text num e) = Ok e"
  using assms by (rule vcompile_text)

definition sample_expr :: vexpr where
  "sample_expr = Binary ''-'' (Unary ''-'' (ColumnRef ''a'')) (Binary ''-'' (ColumnRef ''b'') (Call ''strlen'' [Literal (VStr [quote, CHR ''x''])]))"

theorem virtual_expression_roundtrip_witness:
  "vexpr_text (\<lambda>_. ''0'') sample_expr = ''- a - ( b - strlen ( '' @ [quote, backslash, quote, CHR ''x'', quote] @ '' ) ) '' \<and>
   vcompile (vexpr_text (\<lambda>_. ''0'') sample_expr) = Ok sample_expr"
proof
  show "vexpr_text (\<lambda>_. ''0'') sample_expr = ''- a - ( b - strlen ( '' @ [quote, backslash, quote, CHR ''x'', quote] @ '' ) ) ''"
    by (simp add: vexpr_text_def sample_expr_def tokens_text_def wrap_def left_strength_def right_strength_def op_strength_def cmp_ops_def escape_char_def)
  show "vcompile (vexpr_text (\<lambda>_. ''0'') sample_expr) = Ok sample_expr"
    by (rule virtual_expression_roundtrip)
      (simp_all add: sample_expr_def op_strength_def cmp_ops_def function_names_def ident_name_def is_word_def is_alphabetic_def is_digit_def less_eq_char_def)
qed

end
