(* ===== verification/Query_Scan_Properties.thy ===== *)
theory Query_Scan_Properties
  imports Query_Scan Timeseries_Properties Virtual_Expr_Properties
begin

text \<open>
  A scan returns what its specification says: the matching rows, each computed on its own, in
  order, between offset and limit. The reused row map and the early end of the loop make no
  difference, as long as no virtual column refers to itself or to a later one.
\<close>

section \<open>Filters look at the cells only\<close>

lemma resolve_value_cong: "hm_get r = hm_get r' \<Longrightarrow> resolve_value pr r ts = resolve_value pr r' ts"
  by (induction pr r ts rule: resolve_value.induct) (auto simp: column_value_def)

lemma comparison_cong: "hm_get r = hm_get r' \<Longrightarrow> comparison pr r ts = comparison pr r' ts"
proof -
  assume "hm_get r = hm_get r'"
  then have "resolve_value pr r = resolve_value pr r'" using resolve_value_cong by blast
  then show ?thesis by (simp only: comparison_def)
qed

lemma parse_cong:
  assumes "hm_get r' = hm_get row"
  shows "parse_or pr row ts = parse_or pr r' ts" "or_loop pr row b ts = or_loop pr r' b ts" "parse_and pr row ts = parse_and pr r' ts"
    "and_loop pr row b ts = and_loop pr r' b ts" "parse_not pr row ts = parse_not pr r' ts" "parse_primary pr row ts = parse_primary pr r' ts"
  using assms
proof (induction pr row ts and pr row b ts and pr row ts and pr row b ts and pr row ts and pr row ts
    rule: parse_or_or_loop_parse_and_and_loop_parse_not_parse_primary.induct)
  case (1 pr row ts)
  then show ?case by (simp add: parse_or.simps [of _ _ ts] split: option.split)
next
  case (2 pr row b ts)
  then show ?case by (simp add: or_loop.simps [of _ _ _ ts] split: option.split)
next
  case (3 pr row ts)
  then show ?case by (simp add: parse_and.simps [of _ _ ts] split: option.split)
next
  case (4 pr row b ts)
  then show ?case by (simp add: and_loop.simps [of _ _ _ ts] split: option.split)
next
  case (5 pr row ts)
  show ?case unfolding parse_not.simps [of _ _ ts] using 5 by auto
next
  case (6 pr row ts)
  then show ?case using comparison_cong [of row r'] by (simp add: parse_primary.simps [of _ _ ts])
qed

lemma matches_cong:
  assumes "hm_get row = hm_get r'"
  shows "matches L legacy f row = matches L legacy f r'"
  using assms
proof (induction L legacy f row rule: matches.induct)
  case (12 L legacy e row)
  then have "parse_or (prn L) row = parse_or (prn L) r'" using parse_cong(1) [of r' row] by (intro ext) simp
  then show ?case by (simp only: matches.simps evaluate_expression_def)
next
  case (8 L legacy fs row)
  then show ?case by (simp add: list_all_iff)
next
  case (9 L legacy fs row)
  then show ?case by (simp add: list_ex_iff)
qed (simp_all add: columns_equal_def is_null_cell_def mv_filter_matches_def split: list.split sum.split)

section \<open>Rows on their own\<close>

text \<open>A row of the segment with its virtual columns, and the condition under which reusing a row map gives the same.\<close>

definition fresh_row :: "printers \<Rightarrow> bool \<Rightarrow> segment_data \<Rightarrow> virtual_columns \<Rightarrow> nat \<Rightarrow> row" where
  "fresh_row pr legacy seg vcs i = augment_row pr vcs (build_row legacy seg i)"

definition is_column :: "segment_data \<Rightarrow> string \<Rightarrow> bool" where
  "is_column seg name \<longleftrightarrow> hm_get (sd_columns seg) name \<noteq> None"

fun backward_refs :: "segment_data \<Rightarrow> virtual_columns \<Rightarrow> bool" where
  "backward_refs seg [] = True"
| "backward_refs seg ((name, expr) # vcs) =
     ((\<forall>c \<in> set (collect_referenced_columns expr). c \<in> set (name # virtual_names vcs) \<longrightarrow> is_column seg c) \<and> backward_refs seg vcs)"

lemma augment_Cons: "augment_row pr ((name, expr) # vcs) row = augment_row pr vcs (hm_insert name (vvalue_to_json (veval pr row expr)) row)"
  by (simp add: augment_row_def)

lemma augment_agree:
  assumes "\<And>c. c \<notin> set (virtual_names vcs) \<or> is_column seg c \<Longrightarrow> hm_get row c = hm_get row' c" and "backward_refs seg vcs"
  shows "hm_get (augment_row pr vcs row) = hm_get (augment_row pr vcs row')"
  using assms
proof (induction vcs arbitrary: row row')
  case Nil
  then show ?case by (auto simp: augment_row_def virtual_names_def)
next
  case (Cons vc vcs)
  obtain name expr where vc: "vc = (name, expr)" by fastforce
  have "veval pr row expr = veval pr row' expr"
    using Cons.prems by (intro veval_cong) (auto simp: vc virtual_names_def)
  then show ?case
    unfolding vc augment_Cons using Cons.prems by (intro Cons.IH) (auto simp: vc virtual_names_def)
qed

lemma augment_other: "c \<notin> set (virtual_names vcs) \<Longrightarrow> hm_get (augment_row pr vcs row) c = hm_get row c"
proof (induction vcs arbitrary: row)
  case (Cons vc vcs)
  then show ?case by (cases vc) (simp add: augment_Cons virtual_names_def)
qed (simp add: augment_row_def)

definition reused :: "segment_data \<Rightarrow> virtual_columns \<Rightarrow> row \<Rightarrow> bool" where
  "reused seg vcs row \<longleftrightarrow> (\<forall>c. \<not> is_column seg c \<longrightarrow> c \<notin> set (virtual_names vcs) \<longrightarrow> hm_get row c = None)"

lemma reused_prealloc: "reused seg vcs (build_row_prealloc seg)"
  using row_inv_prealloc [of seg] by (auto simp: reused_def row_inv_def is_column_def)

lemma update_get:
  assumes "hm_wf (sd_columns seg)"
  shows "hm_get (build_row_update_only legacy seg i row) name =
    (case hm_get (sd_columns seg) name of Some col \<Rightarrow> Some (column_value_at legacy col i) | None \<Rightarrow> hm_get row name)"
  using fold_insert_get [of "sd_columns seg" "\<lambda>col. column_value_at legacy col i" row name] assms
  by (simp add: build_row_update_only_def hm_wf_def hm_keys_def)

lemma reused_row:
  assumes "hm_wf (sd_columns seg)" and "backward_refs seg vcs" and "reused seg vcs row"
  shows "hm_get (augment_row pr vcs (build_row_update_only legacy seg i row)) = hm_get (fresh_row pr legacy seg vcs i)"
    and "reused seg vcs (augment_row pr vcs (build_row_update_only legacy seg i row))"
proof -
  show "hm_get (augment_row pr vcs (build_row_update_only legacy seg i row)) = hm_get (fresh_row pr legacy seg vcs i)"
    unfolding fresh_row_def
  proof (rule augment_agree [OF _ assms(2)])
    fix c assume "c \<notin> set (virtual_names vcs) \<or> is_column seg c"
    then show "hm_get (build_row_update_only legacy seg i row) c = hm_get (build_row legacy seg i) c"
      using assms(3) by (auto simp: update_get [OF assms(1)] build_row_get [OF assms(1)] reused_def is_column_def split: option.splits)
  qed
  show "reused seg vcs (augment_row pr vcs (build_row_update_only legacy seg i row))"
    using assms(3) by (auto simp: reused_def augment_other update_get [OF assms(1)] is_column_def split: option.splits)
qed

lemma project_cong: "hm_get row = hm_get row' \<Longrightarrow> project cols row = project cols row'"
  by (simp add: project_def)

lemma build_events_fresh:
  assumes "hm_wf (sd_columns seg)" and "backward_refs seg vcs" and "reused seg vcs row"
  shows "build_events L legacy seg vcs cols rows row = map (\<lambda>i. project cols (fresh_row (prn L) legacy seg vcs i)) rows"
  using assms(3)
proof (induction rows arbitrary: row)
  case (Cons i rows)
  note r = reused_row [OF assms(1,2) Cons.prems, of "prn L" legacy i]
  show ?case using Cons.IH [OF r(2)] project_cong [OF r(1), of cols] by (simp add: Let_def)
qed simp


section \<open>Which rows\<close>

definition row_selected :: "query_lib \<Rightarrow> bool \<Rightarrow> scan_query \<Rightarrow> segment_data \<Rightarrow> virtual_columns \<Rightarrow> (int \<times> int) list \<Rightarrow> int list \<Rightarrow> nat \<Rightarrow> bool" where
  "row_selected L legacy q seg vcs intervals timestamps i \<longleftrightarrow>
     in_intervals intervals (timestamps ! i) \<and>
     (case sq_filter q of None \<Rightarrow> True | Some f \<Rightarrow> matches L legacy f (fresh_row (prn L) legacy seg vcs i))"

text \<open>The loop keeps a prefix of the selected rows, long enough for offset and limit.\<close>

definition cut :: "nat option \<Rightarrow> nat \<Rightarrow> nat list \<Rightarrow> nat list" where
  "cut cutoff have xs = (case cutoff of None \<Rightarrow> xs | Some cap \<Rightarrow> take (max 1 (cap - have)) xs)"

lemma select_rows_spec:
  assumes "hm_wf (sd_columns seg)" and "backward_refs seg vcs"
  shows "reused seg vcs row \<Longrightarrow>
    select_rows L legacy q seg vcs intervals i tss row acc =
      acc @ cut (early_cutoff q) (length acc) (map (\<lambda>k. i + k) (filter (\<lambda>k. row_selected L legacy q seg vcs intervals (replicate i 0 @ tss) (i + k)) [0..<length tss]))"
proof (induction tss arbitrary: i row acc)
  case (Cons ts tss)
  let ?sel = "\<lambda>k. row_selected L legacy q seg vcs intervals (replicate i 0 @ ts # tss) (i + k)"
  let ?sel' = "\<lambda>k. row_selected L legacy q seg vcs intervals (replicate (Suc i) 0 @ tss) (Suc i + k)"
  define rest where "rest = map (\<lambda>k. Suc i + k) (filter ?sel' [0..<length tss])"
  have "?sel (Suc k) = ?sel' k" for k by (simp add: row_selected_def nth_append)
  then have "map (\<lambda>k. i + k) (filter ?sel (map Suc [0..<length tss])) = rest" by (simp add: rest_def filter_map comp_def)
  moreover have "[0..<length (ts # tss)] = 0 # map Suc [0..<length tss]" by (simp add: map_Suc_upt upt_conv_Cons del: upt_Suc)
  ultimately have split: "map (\<lambda>k. i + k) (filter ?sel [0..<length (ts # tss)]) = (if ?sel 0 then [i] else []) @ rest" by simp
  define row' where "row' = (case sq_filter q of None \<Rightarrow> row | Some f \<Rightarrow> augment_row (prn L) vcs (build_row_update_only legacy seg i row))"
  note r = reused_row [OF assms Cons.prems, of "prn L" legacy i]
  have reuse: "reused seg vcs row'" using r(2) Cons.prems by (auto simp: row'_def split: option.splits)
  have sel0: "?sel 0 \<longleftrightarrow> in_intervals intervals ts \<and> (case sq_filter q of None \<Rightarrow> True | Some f \<Rightarrow> matches L legacy f row')"
    using matches_cong [OF r(1)] by (auto simp: row_selected_def row'_def nth_append split: option.splits)
  have IH: "select_rows L legacy q seg vcs intervals (Suc i) tss r a = a @ cut (early_cutoff q) (length a) rest" if "reused seg vcs r" for r a
    unfolding rest_def by (rule Cons.IH [OF that])
  show ?case
  proof (cases "?sel 0")
    case False
    then have "select_rows L legacy q seg vcs intervals i (ts # tss) row acc =
        select_rows L legacy q seg vcs intervals (Suc i) tss (if in_intervals intervals ts then row' else row) acc"
      using sel0 by (cases "sq_filter q") (simp_all add: row'_def Let_def)
    moreover have "reused seg vcs (if in_intervals intervals ts then row' else row)" using reuse Cons.prems by simp
    ultimately show ?thesis unfolding split using False IH by simp
  next
    case True
    then have step: "select_rows L legacy q seg vcs intervals i (ts # tss) row acc =
        (if (case early_cutoff q of None \<Rightarrow> False | Some cap \<Rightarrow> cap \<le> length (acc @ [i])) then acc @ [i]
         else select_rows L legacy q seg vcs intervals (Suc i) tss row' (acc @ [i]))"
      using sel0 by (auto simp: row'_def [symmetric] Let_def split: option.splits)
    show ?thesis
    proof (cases "early_cutoff q")
      case None
      then show ?thesis unfolding split step using True IH [OF reuse] by (simp add: cut_def)
    next
      case (Some cap)
      show ?thesis
      proof (cases "cap \<le> Suc (length acc)")
        case True
        then have "max 1 (cap - length acc) = 1" by simp
        then show ?thesis unfolding split step using \<open>?sel 0\<close> Some True by (simp add: cut_def)
      next
        case False
        then have "max 1 (cap - length acc) = Suc (max 1 (cap - Suc (length acc)))" by simp
        then show ?thesis unfolding split step using \<open>?sel 0\<close> Some False IH [OF reuse, of "acc @ [i]"] by (simp add: cut_def del: max_Suc_Suc)
      qed
    qed
  qed
qed (simp add: cut_def split: option.splits)

definition ordered_rows :: "scan_query \<Rightarrow> int list \<Rightarrow> nat list \<Rightarrow> nat list" where
  "ordered_rows q timestamps rows =
     (if sq_order q = Some ''none'' then rows
      else if sq_order q = Some ''descending'' then sort_key (\<lambda>i. - (timestamps ! i)) rows
      else sort_key (\<lambda>i. timestamps ! i) rows)"

definition page :: "scan_query \<Rightarrow> nat list \<Rightarrow> nat list" where
  "page q rows = (case sq_limit q of None \<Rightarrow> drop (offset_of q) rows | Some n \<Rightarrow> take n (drop (offset_of q) rows))"

lemma apply_page: "apply_limit q (apply_offset q rows) = page q rows"
  by (auto simp: apply_limit_def apply_offset_def page_def Let_def split: option.splits)

lemma page_cut:
  assumes "sq_order q \<in> {None, Some ''ascending'', Some ''descending'', Some ''none''}"
  shows "page q (apply_order q timestamps (cut (early_cutoff q) 0 rows)) = page q (ordered_rows q timestamps rows)"
proof (cases "early_cutoff q")
  case None
  then show ?thesis using assms by (auto simp: cut_def apply_order_def ordered_rows_def)
next
  case (Some cap)
  then obtain n where n: "sq_order q = Some ''none''" "sq_limit q = Some n" "cap = offset_of q + n"
    using assms by (auto simp: early_cutoff_def order_is_time_sorted_def split: if_splits)
  have "take n (drop (offset_of q) (take (max 1 (offset_of q + n)) rows)) = take n (drop (offset_of q) rows)"
    by (cases "offset_of q + n = 0") (simp_all add: drop_take max_def)
  then show ?thesis using n Some by (simp add: cut_def apply_order_def ordered_rows_def page_def)
qed


section \<open>The specification of a scan\<close>

text \<open>C7: A scan that succeeds returns exactly the rows its specification names: the rows of the segment within the
  intervals that pass the filter, each computed on its own with its virtual columns, in the order of time (equal times
  in the order of the rows) or in the order of the rows, from the offset on and no more than the limit, with the
  requested columns. So neither the row map that is reused from row to row nor the early end of the loop can be seen in
  the result, provided no virtual column refers to itself or to a later one.\<close>

theorem scan_returns_reference:
  assumes "scan_execute L legacy q seg = Ok r" and "compile_virtual_columns (sq_virtual_columns q) = Ok vcs"
    and "parse_intervals L (sq_intervals q) = Ok intervals" and "timestamp_column seg = Ok timestamps"
    and "hm_wf (sd_columns seg)" and "backward_refs seg vcs"
  shows "sr_events r = map (\<lambda>i. project (sr_columns r) (fresh_row (prn L) legacy seg vcs i))
    (page q (ordered_rows q timestamps
      (filter (row_selected L legacy q seg vcs intervals timestamps) [0..<min (sd_num_rows seg) (length timestamps)])))"
proof -
  let ?n = "min (sd_num_rows seg) (length timestamps)"
  have r: "r = scan_rows L legacy q seg vcs intervals timestamps" and order: "sq_order q \<in> {None, Some ''ascending'', Some ''descending'', Some ''none''}"
    using assms(1-4) by (auto simp: scan_execute_def bind_Inr_iff check_member_def split: option.splits if_splits)
  have "row_selected L legacy q seg vcs intervals (take (sd_num_rows seg) timestamps) k = row_selected L legacy q seg vcs intervals timestamps k" if "k < ?n" for k
    using that by (simp add: row_selected_def)
  then have same: "filter (row_selected L legacy q seg vcs intervals (take (sd_num_rows seg) timestamps)) [0..<?n] =
      filter (row_selected L legacy q seg vcs intervals timestamps) [0..<?n]" by (intro filter_cong) auto
  have found: "select_rows L legacy q seg vcs intervals 0 (take (sd_num_rows seg) timestamps) (build_row_prealloc seg) [] =
      cut (early_cutoff q) 0 (filter (row_selected L legacy q seg vcs intervals timestamps) [0..<?n])"
    using select_rows_spec [OF assms(5,6) reused_prealloc, of L legacy q intervals 0 "take (sd_num_rows seg) timestamps" "[]"] same
    by (simp add: min.commute)
  show ?thesis
    by (simp add: r scan_rows_def Let_def found apply_page page_cut [OF order] build_events_fresh [OF assms(5,6) reused_prealloc])
qed

definition two_rows :: segment_data where
  "two_rows = \<lparr>sd_num_rows = 2, sd_dimensions = [], sd_metrics = [], sd_columns = [(''__time'', Long [10, 20])], sd_time_sorted = True\<rparr>"

definition plain_scan :: scan_query where
  "plain_scan = \<lparr>sq_intervals = [], sq_filter = None, sq_virtual_columns = None, sq_columns = None, sq_limit = Some 1, sq_offset = None,
     sq_order = Some ''descending'', sq_result_format = None\<rparr>"

lemma two_rows_time: "timestamp_column two_rows = Ok [10, 20]" "hm_wf (sd_columns two_rows)" "sd_num_rows two_rows = 2"
  by (simp_all add: two_rows_def timestamp_column_def hm_get_def hm_wf_def hm_keys_def)

theorem scan_returns_reference_witness:
  "\<forall>L. \<exists>r. scan_execute L False plain_scan two_rows = Ok r \<and> map (\<lambda>e. hm_get e ''__time'') (sr_events r) = [Some (JNumber (PosInt 20))]"
proof
  fix L
  have vcs: "compile_virtual_columns (sq_virtual_columns plain_scan) = Ok []" by (simp add: compile_virtual_columns_def plain_scan_def)
  have ivs: "parse_intervals L (sq_intervals plain_scan) = Ok []" by (simp add: plain_scan_def)
  obtain r where r: "scan_execute L False plain_scan two_rows = Ok r" and cols: "sr_columns r = [''__time'']"
    using two_rows_time vcs ivs
    by (simp add: scan_execute_def check_member_def check_scan_filter_def plain_scan_def ensure_no_multi_value_refs_def scan_rows_def Let_def
        output_columns_def all_columns_def virtual_names_def two_rows_def compile_virtual_columns_def)
  have "filter (row_selected L False plain_scan two_rows [] [] [10, 20]) [0..<min (sd_num_rows two_rows) (length [10 :: int, 20])] = [0, 1]"
    by (simp add: two_rows_def row_selected_def in_intervals_def plain_scan_def)
  then have "sr_events r = [project [''__time''] (fresh_row (prn L) False two_rows [] 1)]"
    using scan_returns_reference [OF r vcs ivs two_rows_time(1,2)] cols
    by (simp add: page_def ordered_rows_def plain_scan_def offset_of_def)
  moreover have "hm_get (fresh_row (prn L) False two_rows [] 1) ''__time'' = Some (JNumber (PosInt 20))"
    by (simp add: fresh_row_def augment_row_def build_row_get two_rows_time(2)) (simp add: two_rows_def hm_get_def column_value_at_def get_at_def option_null_def number_from_i64_def)
  ultimately show "\<exists>r. scan_execute L False plain_scan two_rows = Ok r \<and> map (\<lambda>e. hm_get e ''__time'') (sr_events r) = [Some (JNumber (PosInt 20))]"
    using r by (simp add: project_def) (simp add: hm_get_def)
qed


section \<open>Unions\<close>

lemma remap_loop_get:
  assumes "distinct (map fst cols)" and "distinct (map snd cols)"
  shows "hm_get (snd (remap_loop cols (src, out))) c =
    (case map_of (map prod.swap cols) c of None \<Rightarrow> hm_get out c | Some s \<Rightarrow> (case hm_get src s of None \<Rightarrow> hm_get out c | Some v \<Rightarrow> Some v))"
  using assms
proof (induction cols arbitrary: src out)
  case (Cons p cols)
  obtain s t where p: "p = (s, t)" by fastforce
  have absent: "map_of (map prod.swap cols) t = None" using Cons.prems by (force simp: p map_of_eq_None_iff)
  have other: "s' \<noteq> s" if "map_of (map prod.swap cols) c = Some s'" for s'
    using map_of_SomeD [OF that] Cons.prems by (force simp: p)
  show ?case
    using Cons absent by (auto simp: p split: option.splits dest: other)
qed simp

text \<open>The columns of a union branch are matched by position: each value of a row arrives under the name of the first branch, also
  when the names of the two branches are permuted.\<close>

lemma union_aligned_by_position:
  assumes "align_union_branch targets branch = Ok r" and "distinct (sr_columns branch)" and "distinct targets" and "j < length targets"
  shows "sr_columns r = targets \<and> length (sr_events r) = length (sr_events branch) \<and>
    (\<forall>k < length (sr_events branch). hm_get (sr_events r ! k) (targets ! j) = hm_get (sr_events branch ! k) (sr_columns branch ! j))"
proof (cases "list_all (\<lambda>(have, want). have = want) (zip (sr_columns branch) targets)")
  case True
  then have "sr_columns branch = targets"
    using assms(1) by (auto simp: align_union_branch_def list_all_length list_eq_iff_nth_eq split: if_splits)
  then show ?thesis using assms(1) True by (simp add: align_union_branch_def)
next
  case False
  let ?cols = "zip (sr_columns branch) targets"
  have len: "length (sr_columns branch) = length targets" using assms(1) by (auto simp: align_union_branch_def split: if_splits)
  have r: "sr_columns r = targets" "sr_events r = map (\<lambda>event. snd (remap_loop ?cols (event, []))) (sr_events branch)"
    using assms(1) len False by (auto simp: align_union_branch_def)
  have "map_of (map prod.swap ?cols) (targets ! j) = Some (sr_columns branch ! j)"
  proof (rule map_of_is_SomeI)
    show "distinct (map fst (map prod.swap ?cols))" using len assms(3) by (simp add: comp_def)
    show "(targets ! j, sr_columns branch ! j) \<in> set (map prod.swap ?cols)" using len assms(4) by (force simp: in_set_zip)
  qed
  then show ?thesis using r remap_loop_get [of ?cols] len assms(2,3) by (auto split: option.splits)
qed

section \<open>Virtual columns that refer to themselves\<close>

definition counter_expr :: vexpr where
  "counter_expr = Binary ''+'' (Call ''coalesce'' [ColumnRef ''n'', Literal (VNum (Fin 0))]) (Literal (VNum (Fin 1)))"

definition counter_scan :: scan_query where
  "counter_scan = plain_scan\<lparr>sq_limit := None, sq_order := Some ''none'',
     sq_virtual_columns := Some [ExpressionSpec ''n'' ''coalesce ( n , 0 ) + 1 '' None]\<rparr>"

lemma counter_compiles: "vcompile ''coalesce ( n , 0 ) + 1 '' = Ok counter_expr"
proof -
  let ?num = "\<lambda>x. if x = Fin 0 then ''0'' else ''1''"
  have "show_nat 0 = ''0''" "show_nat 1 = ''1''" by code_simp+
  then have "parse_f64 ''0'' = Some (Fin 0)" "parse_f64 ''1'' = Some (Fin 1)"
    using parse_f64_show_nat [of 0] parse_f64_show_nat [of 1] f64_of_int_exact [of 0] f64_of_int_exact [of 1] by simp_all
  then have "vcompile (vexpr_text ?num counter_expr) = Ok counter_expr"
    by (intro vcompile_text)
      (simp_all add: counter_expr_def op_strength_def cmp_ops_def function_names_def ident_name_def number_text_ok_def in_number_def is_word_def is_alphabetic_def is_digit_def less_eq_char_def)
  moreover have "vexpr_text ?num counter_expr = ''coalesce ( n , 0 ) + 1 ''"
    by (simp add: vexpr_text_def counter_expr_def tokens_text_def wrap_def left_strength_def right_strength_def op_strength_def cmp_ops_def)
  ultimately show ?thesis by simp
qed

lemma counter_value:
  "veval pr row counter_expr =
     (case (case hm_get row ''n'' of None \<Rightarrow> VNull | Some j \<Rightarrow> vvalue_from_json pr j) of
        VNull \<Rightarrow> VNum (Fin 1)
      | VNum x \<Rightarrow> VNum (f64_add x (Fin 1))
      | v \<Rightarrow> eval_binary pr ''+'' v (VNum (Fin 1)))"
proof -
  have zero: "f64_add (Fin 0) (Fin 1) = Fin 1" using round64_exact [of 1 0] by (simp add: f64_add_def float_add_def)
  define v where "v = (case hm_get row ''n'' of None \<Rightarrow> VNull | Some j \<Rightarrow> vvalue_from_json pr j)"
  have "veval pr row (ColumnRef ''n'') = v" by (simp add: v_def)
  then have "veval pr row counter_expr = eval_binary pr ''+'' (if v = VNull then VNum (Fin 0) else v) (VNum (Fin 1))"
    by (simp only: counter_expr_def veval.simps list.map) (simp add: eval_call_def)
  then show ?thesis unfolding v_def [symmetric] using zero by (cases v) (simp_all add: eval_binary_def)
qed

text \<open>A virtual column that refers to its own name, or to a later one, reads the value of the row before: the expression below
  counts the rows, although no cell of the segment differs. On its own, the second row has the value 1.\<close>

theorem self_reference_leaks:
  "\<exists>r. scan_execute L False counter_scan two_rows = Ok r \<and>
     map (\<lambda>e. hm_get e ''n'') (sr_events r) = [Some (JNumber (PosInt 1)), Some (JNumber (PosInt 2))] \<and>
     hm_get (fresh_row (prn L) False two_rows [(''n'', counter_expr)] 1) ''n'' = Some (JNumber (PosInt 1))"
proof -
  let ?vcs = "[(''n'', counter_expr)]" and ?pr = "prn L"
  have add: "f64_add (Fin 1) (Fin 1) = Fin 2" using round64_exact [of 2 0] by (simp add: f64_add_def float_add_def)
  have one: "number_as_f64 (PosInt 1) = Fin 1" using f64_of_int_exact [of 1] by simp
  have json: "vvalue_to_json (VNum (Fin 1)) = JNumber (PosInt 1)" "vvalue_to_json (VNum (Fin 2)) = JNumber (PosInt 2)"
    by (simp_all add: is_integral_def is_finite_def f64_le_def trunc_i64_def number_from_i64_def)
  have upd: "hm_get (build_row_update_only False two_rows i row) ''n'' = hm_get row ''n''" for i row
    by (simp add: update_get two_rows_time(2)) (simp add: two_rows_def hm_get_def)
  have aug: "hm_get row ''n'' = None \<Longrightarrow> hm_get (augment_row ?pr ?vcs row) ''n'' = Some (JNumber (PosInt 1))"
    "hm_get row ''n'' = Some (JNumber (PosInt 1)) \<Longrightarrow> hm_get (augment_row ?pr ?vcs row) ''n'' = Some (JNumber (PosInt 2))" for row
    using one add json by (simp_all add: augment_row_def counter_value vvalue_from_json_def del: vvalue_to_json.simps number_as_f64.simps)
  have events: "map (\<lambda>e. hm_get e ''n'') (build_events L False two_rows ?vcs [''__time'', ''n''] [0, 1] (build_row_prealloc two_rows)) =
      [Some (JNumber (PosInt 1)), Some (JNumber (PosInt 2))]"
  proof -
    have "hm_get (project [''__time'', ''n''] row) ''n'' = hm_get row ''n''" for row by (auto simp: project_def hm_get_def split: option.splits)
    moreover have "hm_get (build_row_prealloc two_rows) ''n'' = None" by (simp add: build_row_prealloc_def two_rows_def hm_get_def)
    ultimately show ?thesis using aug upd by (simp add: Let_def)
  qed
  have "scan_execute L False counter_scan two_rows =
      Ok \<lparr>sr_segment_id = None, sr_columns = [''__time'', ''n''],
          sr_events = build_events L False two_rows ?vcs [''__time'', ''n''] [0, 1] (build_row_prealloc two_rows)\<rparr>"
    using two_rows_time counter_compiles
    by (simp add: scan_execute_def check_member_def check_scan_filter_def counter_scan_def plain_scan_def compile_virtual_columns_def compile_virtual_column_def
        ensure_no_multi_value_refs_def counter_expr_def is_multi_column_def hm_get_def two_rows_def scan_rows_def Let_def output_columns_def all_columns_def
        virtual_names_def in_intervals_def early_cutoff_def apply_order_def apply_offset_def apply_limit_def offset_of_def numeral_2_eq_2)
  moreover have "hm_get (fresh_row ?pr False two_rows ?vcs 1) ''n'' = Some (JNumber (PosInt 1))"
    using aug(1) [of "build_row False two_rows 1"] by (simp add: fresh_row_def build_row_get two_rows_time(2)) (simp add: two_rows_def hm_get_def)
  ultimately show ?thesis using events by simp
qed

end
