(* ===== verification/Lookup.thy ===== *)
theory Lookup
  imports Hash_Map
begin

text \<open>
  Lookup tables and their manager (ferrodruid-lookup/src/lib.rs). The concurrent maps are hash maps;
  an operation is one step on its map.
\<close>

record lookup_table =
  lk_name :: string
  lk_map :: "(string, string) hash_map"
  lk_version :: string

definition lookup_new :: "string \<Rightarrow> string \<Rightarrow> lookup_table" where
  "lookup_new name version = \<lparr>lk_name = name, lk_map = [], lk_version = version\<rparr>"

definition lookup_from_map :: "string \<Rightarrow> string \<Rightarrow> (string, string) hash_map \<Rightarrow> lookup_table" where
  "lookup_from_map name version m = \<lparr>lk_name = name, lk_map = fold (\<lambda>(k, v) dm. hm_insert k v dm) m [], lk_version = version\<rparr>"

definition lookup_get :: "lookup_table \<Rightarrow> string \<Rightarrow> string option" where
  "lookup_get t key = hm_get (lk_map t) key"

definition lookup_put :: "string \<Rightarrow> string \<Rightarrow> lookup_table \<Rightarrow> lookup_table" where
  "lookup_put key value' t = t\<lparr>lk_map := hm_insert key value' (lk_map t)\<rparr>"

definition lookup_remove :: "string \<Rightarrow> lookup_table \<Rightarrow> string option \<times> lookup_table" where
  "lookup_remove key t = (hm_get (lk_map t) key, t\<lparr>lk_map := hm_remove key (lk_map t)\<rparr>)"

definition lookup_len :: "lookup_table \<Rightarrow> nat" where
  "lookup_len t = length (lk_map t)"

definition lookup_is_empty :: "lookup_table \<Rightarrow> bool" where
  "lookup_is_empty t \<longleftrightarrow> lk_map t = []"

definition lookup_keys :: "lookup_table \<Rightarrow> string list" where
  "lookup_keys t = hm_keys (lk_map t)"

definition lookup_to_map :: "lookup_table \<Rightarrow> (string, string) hash_map" where
  "lookup_to_map t = fold (\<lambda>(k, v) m. hm_insert k v m) (lk_map t) []"

type_synonym lookup_manager = "(string, lookup_table) hash_map"

definition manager_register :: "lookup_table \<Rightarrow> lookup_manager \<Rightarrow> lookup_table option \<times> lookup_manager" where
  "manager_register t m = (hm_get m (lk_name t), hm_insert (lk_name t) t m)"

definition manager_get :: "lookup_manager \<Rightarrow> string \<Rightarrow> lookup_table option" where
  "manager_get m name = hm_get m name"

definition manager_remove :: "string \<Rightarrow> lookup_manager \<Rightarrow> lookup_table option \<times> lookup_manager" where
  "manager_remove name m = (hm_get m name, hm_remove name m)"

definition manager_list :: "lookup_manager \<Rightarrow> string list" where
  "manager_list m = hm_keys m"

definition manager_get_all :: "lookup_manager \<Rightarrow> lookup_table list" where
  "manager_get_all m = hm_values m"

text \<open>Copying a map entry by entry keeps it.\<close>

lemma fold_insert_copy:
  "hm_wf m \<Longrightarrow> hm_get (fold (\<lambda>(k, v) dm. hm_insert k v dm) m out) key = (case hm_get m key of None \<Rightarrow> hm_get out key | Some v \<Rightarrow> Some v)"
proof (induction m arbitrary: out)
  case (Cons p m)
  obtain k v where p: "p = (k, v)" by fastforce
  have "hm_wf m" "hm_get m k = None" using Cons.prems by (auto simp: p hm_wf_def hm_keys_def hm_get_def map_of_eq_None_iff)
  moreover have "hm_get (p # m) key = (if key = k then Some v else hm_get m key)" by (simp add: p hm_get_def)
  ultimately show ?case using Cons.IH [of "hm_insert k v out"] by (auto simp: p split: option.splits)
qed simp

lemma lookup_copies:
  assumes "hm_wf m"
  shows "lookup_get (lookup_from_map name version m) key = hm_get m key"
    and "hm_wf (lk_map t) \<Longrightarrow> hm_get (lookup_to_map t) key = lookup_get t key"
  using fold_insert_copy [OF assms] fold_insert_copy [of "lk_map t"]
  by (simp_all add: lookup_get_def lookup_from_map_def lookup_to_map_def split: option.splits)

end
