(* ===== verification/Query_Join.thy ===== *)
theory Query_Join
  imports Query_Scan Lookup
begin

text \<open>
  The broadcast hash join (ferrodruid-query/src/join.rs): the right side is materialised and indexed by the
  text of its key, every left row probes the index. Rows and the index are hash maps.
\<close>

section \<open>Joins\<close>

datatype join_type = InnerJoin | LeftJoin

definition join_type_parse :: "string \<Rightarrow> (join_type, druid_error) res" where
  "join_type_parse s =
     (let u = to_uppercase s
      in if u = ''INNER'' then Ok InnerJoin
         else if u = ''LEFT'' then Ok LeftJoin
         else if u = ''RIGHT'' then fail (Query ''RIGHT OUTER join is not supported'')
         else if u = ''FULL'' then fail (Query ''FULL OUTER join is not supported'')
         else fail (Query ''unknown joinType''))"

record join_condition =
  jc_left_key :: string
  jc_right_key :: string

datatype join_right =
    InlineRight "string list" "json list list"
  | LookupRight string string string
  | RowsRight "string list" "row list"

record join_data_source =
  jd_right :: join_right
  jd_right_prefix :: string
  jd_condition :: join_condition
  jd_join_type :: join_type

section \<open>The right side\<close>

record right_relation =
  rr_prefixed_columns :: "string list"
  rr_index :: "(string, row list) hash_map"

text \<open>The text of a key; a null has none, and an array is refused.\<close>

definition join_key :: "query_lib \<Rightarrow> json \<Rightarrow> (string option, druid_error) res" where
  "join_key L v =
     (case v of
        JNull \<Rightarrow> Ok None
      | JString s \<Rightarrow> Ok (Some s)
      | JBool b \<Rightarrow> Ok (Some (if b then ''true'' else ''false''))
      | JNumber n \<Rightarrow> Ok (Some (number_text L n))
      | JArray _ \<Rightarrow> fail (Query ''join on a multi-value dimension is not supported yet'')
      | JObject _ \<Rightarrow> Ok (Some (json_display (prn L) v)))"

definition row_key :: "query_lib \<Rightarrow> string \<Rightarrow> row \<Rightarrow> (string option, druid_error) res" where
  "row_key L column row = (case hm_get row column of None \<Rightarrow> Ok None | Some v \<Rightarrow> join_key L v)"

definition inline_row :: "string list \<Rightarrow> json list \<Rightarrow> (row, druid_error) res" where
  "inline_row column_names raw =
     (if length raw \<noteq> length column_names then fail (Query ''join: inline right row has a wrong number of values'')
      else Ok (fold (\<lambda>(name, val) row. hm_insert name val row) (zip column_names raw) []))"

definition lookup_row :: "string \<Rightarrow> string \<Rightarrow> lookup_table \<Rightarrow> string \<Rightarrow> row" where
  "lookup_row key_column value_column table key =
     hm_insert value_column (JString (case lookup_get table key of None \<Rightarrow> [] | Some v \<Rightarrow> v)) (hm_insert key_column (JString key) [])"

definition materialise_right :: "lookup_manager \<Rightarrow> join_right \<Rightarrow> (string list \<times> row list, druid_error) res" where
  "materialise_right lookups right =
     (case right of
        InlineRight column_names rows \<Rightarrow> bind (mapM (inline_row column_names) rows) (\<lambda>materialised. Ok (column_names, materialised))
      | LookupRight lookup key_column value_column \<Rightarrow>
          (case manager_get lookups lookup of
             None \<Rightarrow> fail (Query ''join: lookup not found'')
           | Some table \<Rightarrow> Ok ([key_column, value_column], map (lookup_row key_column value_column table) (lookup_keys table)))
      | RowsRight column_names rows \<Rightarrow> Ok (column_names, rows))"

definition prefixed_row :: "string \<Rightarrow> row \<Rightarrow> row" where
  "prefixed_row pre row = map (\<lambda>(name, value). (pre @ name, value)) row"

fun index_rows :: "query_lib \<Rightarrow> string \<Rightarrow> string \<Rightarrow> row list \<Rightarrow> (string, row list) hash_map \<Rightarrow> ((string, row list) hash_map, druid_error) res" where
  "index_rows L pre right_key [] index = Ok index"
| "index_rows L pre right_key (row # rows) index =
     bind (row_key L right_key row) (\<lambda>key.
       case key of
         None \<Rightarrow> index_rows L pre right_key rows index
       | Some k \<Rightarrow> index_rows L pre right_key rows (hm_insert k (hm_list index k @ [prefixed_row pre row]) index))"

definition right_relation_build :: "query_lib \<Rightarrow> lookup_manager \<Rightarrow> join_right \<Rightarrow> string \<Rightarrow> string \<Rightarrow> (right_relation, druid_error) res" where
  "right_relation_build L lookups right right_prefix right_key =
     bind (materialise_right lookups right) (\<lambda>(column_names, rows).
       if right_key \<notin> set column_names then fail (Query ''join: right key is not a column of the right relation'')
       else
         bind (index_rows L right_prefix right_key rows []) (\<lambda>index.
           Ok \<lparr>rr_prefixed_columns = map (\<lambda>c. right_prefix @ c) column_names, rr_index = index\<rparr>))"

section \<open>Execution\<close>

text \<open>\<open>entry(..).or_insert(..)\<close>.\<close>

definition hm_or_insert :: "'k \<Rightarrow> 'v \<Rightarrow> ('k, 'v) hash_map \<Rightarrow> ('k, 'v) hash_map" where
  "hm_or_insert k v m = (case hm_get m k of None \<Rightarrow> hm_insert k v m | Some _ \<Rightarrow> m)"

definition joined_row :: "row \<Rightarrow> row \<Rightarrow> row" where
  "joined_row left r = fold (\<lambda>(name, value) joined. hm_or_insert name value joined) r left"

definition probe :: "query_lib \<Rightarrow> join_data_source \<Rightarrow> right_relation \<Rightarrow> row \<Rightarrow> (row list, druid_error) res" where
  "probe L j right left =
     bind (row_key L (jc_left_key (jd_condition j)) left) (\<lambda>key.
       case (case key of None \<Rightarrow> None | Some k \<Rightarrow> hm_get (rr_index right) k) of
         Some (r # rs) \<Rightarrow> Ok (map (joined_row left) (r # rs))
       | _ \<Rightarrow>
           Ok (if jd_join_type j = LeftJoin then [fold (\<lambda>col joined. hm_or_insert col JNull joined) (rr_prefixed_columns right) left] else []))"

fun probe_rows :: "query_lib \<Rightarrow> join_data_source \<Rightarrow> right_relation \<Rightarrow> row list \<Rightarrow> row list \<Rightarrow> (row list, druid_error) res" where
  "probe_rows L j right [] out = Ok out"
| "probe_rows L j right (left # lefts) out = bind (probe L j right left) (\<lambda>rows. probe_rows L j right lefts (out @ rows))"

definition execute_join :: "query_lib \<Rightarrow> lookup_manager \<Rightarrow> join_data_source \<Rightarrow> row list \<Rightarrow> (row list, druid_error) res" where
  "execute_join L lookups j left_rows =
     bind (right_relation_build L lookups (jd_right j) (jd_right_prefix j) (jc_right_key (jd_condition j))) (\<lambda>right.
       probe_rows L j right left_rows [])"

definition right_columns :: "join_right \<Rightarrow> string list" where
  "right_columns right =
     (case right of
        InlineRight column_names _ \<Rightarrow> column_names
      | LookupRight _ key_column value_column \<Rightarrow> [key_column, value_column]
      | RowsRight column_names _ \<Rightarrow> column_names)"

definition join_output_columns :: "join_data_source \<Rightarrow> string list \<Rightarrow> string list" where
  "join_output_columns j left_columns =
     fold (\<lambda>c cols. let prefixed = jd_right_prefix j @ c in if prefixed \<in> set cols then cols else cols @ [prefixed])
       (right_columns (jd_right j)) left_columns"

definition materialise_segment_rows :: "bool \<Rightarrow> segment_data \<Rightarrow> row list" where
  "materialise_segment_rows legacy seg = map (build_row legacy seg) [0..<sd_num_rows seg]"

definition ensure_left_key_not_multi_value :: "join_data_source \<Rightarrow> scan_query \<Rightarrow> segment_data \<Rightarrow> (unit, druid_error) res" where
  "ensure_left_key_not_multi_value j left_scan seg =
     (let key = jc_left_key (jd_condition j);
          shadowed = list_ex (\<lambda>vc. case vc of ExpressionSpec name _ _ \<Rightarrow> name = key)
            (case sq_virtual_columns left_scan of None \<Rightarrow> [] | Some vcs \<Rightarrow> vcs)
      in if \<not> shadowed \<and> is_multi_column seg key then fail (Query ''join on a multi-value dimension is not supported yet'') else Ok ())"

definition execute_join_scan ::
  "query_lib \<Rightarrow> bool \<Rightarrow> lookup_manager \<Rightarrow> join_data_source \<Rightarrow> scan_query \<Rightarrow> segment_data \<Rightarrow> string list option \<Rightarrow> (scan_result, druid_error) res" where
  "execute_join_scan L legacy lookups j left_scan seg columns =
     bind (ensure_left_key_not_multi_value j left_scan seg) (\<lambda>_.
     bind (scan_execute L legacy left_scan seg) (\<lambda>left_result.
     bind (execute_join L lookups j (sr_events left_result)) (\<lambda>joined.
       let cols = (case columns of Some (c # cs) \<Rightarrow> c # cs | _ \<Rightarrow> join_output_columns j (sr_columns left_result))
       in Ok \<lparr>sr_segment_id = None, sr_columns = cols, sr_events = map (project cols) joined\<rparr>)))"

end
