(* ===== verification/Query_Join_Properties.thy ===== *)
theory Query_Join_Properties
  imports Query_Join Query_Scan_Properties
begin

text \<open>
  The hash join computes the join: it returns what comparing every left row with every right row gives, in the
  order of the left rows and, for one left row, of the right rows.
\<close>

section \<open>What a joined row contains\<close>

definition strip_name :: "string \<Rightarrow> string \<Rightarrow> string option" where
  "strip_name pre c = (if take (length pre) c = pre then Some (drop (length pre) c) else None)"

text \<open>The cells of the left row, and under the prefix those of the right row, when the left row has no such column.\<close>

definition join_cells :: "string \<Rightarrow> row \<Rightarrow> row \<Rightarrow> string \<Rightarrow> json option" where
  "join_cells pre left right c =
     (case hm_get left c of Some v \<Rightarrow> Some v | None \<Rightarrow> (case strip_name pre c of None \<Rightarrow> None | Some name \<Rightarrow> hm_get right name))"

definition unmatched_cells :: "string \<Rightarrow> string list \<Rightarrow> row \<Rightarrow> string \<Rightarrow> json option" where
  "unmatched_cells pre columns left c =
     (case hm_get left c of Some v \<Rightarrow> Some v | None \<Rightarrow> (case strip_name pre c of None \<Rightarrow> None | Some name \<Rightarrow> if name \<in> set columns then Some JNull else None))"

lemma strip_name_append: "strip_name pre c = Some name \<longleftrightarrow> c = pre @ name"
  by (auto simp: strip_name_def) (metis append_take_drop_id)

lemma strip_name_self [simp]: "strip_name pre (pre @ name) = Some name"
  by (simp add: strip_name_append)

lemma prefixed_get: "hm_get (prefixed_row pre row) c = (case strip_name pre c of None \<Rightarrow> None | Some name \<Rightarrow> hm_get row name)"
proof (induction row)
  case (Cons p row)
  obtain name v where p: "p = (name, v)" by fastforce
  have "hm_get (prefixed_row pre (p # row)) c = (if c = pre @ name then Some v else hm_get (prefixed_row pre row) c)"
    by (simp add: p prefixed_row_def hm_get_def)
  moreover have "hm_get (p # row) n = (if n = name then Some v else hm_get row n)" for n by (simp add: p hm_get_def)
  ultimately show ?case using Cons strip_name_append [of pre c] by (auto split: option.splits)
qed (simp add: prefixed_row_def split: option.splits)

lemma or_insert_get: "hm_get (hm_or_insert k v m) c = (if c = k \<and> hm_get m k = None then Some v else hm_get m c)"
  by (simp add: hm_or_insert_def split: option.splits)

lemma joined_get: "hm_get (joined_row left r) c = (case hm_get left c of Some v \<Rightarrow> Some v | None \<Rightarrow> hm_get r c)"
proof (induction r arbitrary: left)
  case (Cons p r)
  obtain name v where p: "p = (name, v)" by fastforce
  have "joined_row left (p # r) = joined_row (hm_or_insert name v left) r" by (simp add: p joined_row_def)
  moreover have "hm_get (p # r) c = (if c = name then Some v else hm_get r c)" by (simp add: p hm_get_def)
  ultimately show ?case using Cons [of "hm_or_insert name v left"] by (auto simp: or_insert_get split: option.splits)
qed (simp add: joined_row_def split: option.splits)

lemma joined_cells: "hm_get (joined_row left (prefixed_row pre r)) = join_cells pre left r"
  by (rule ext) (simp add: joined_get prefixed_get join_cells_def split: option.split)

lemma null_fill_get:
  "hm_get (fold (\<lambda>col joined. hm_or_insert col JNull joined) cols left) c =
     (case hm_get left c of Some v \<Rightarrow> Some v | None \<Rightarrow> if c \<in> set cols then Some JNull else None)"
proof (induction cols arbitrary: left)
  case (Cons col cols)
  then show ?case by (auto simp: or_insert_get split: option.splits)
qed (simp split: option.splits)

lemma unmatched_fill: "hm_get (fold (\<lambda>col joined. hm_or_insert col JNull joined) (map (\<lambda>c. pre @ c) columns) left) = unmatched_cells pre columns left"
  using strip_name_append [of pre] by (intro ext) (auto simp: null_fill_get unmatched_cells_def split: option.splits)

section \<open>The index\<close>

definition key_text :: "query_lib \<Rightarrow> string \<Rightarrow> row \<Rightarrow> string option" where
  "key_text L column row = (case row_key L column row of Inr k \<Rightarrow> k | Inl _ \<Rightarrow> None)"

definition scalar_key :: "string \<Rightarrow> row \<Rightarrow> bool" where
  "scalar_key column row \<longleftrightarrow> (\<forall>vs. hm_get row column \<noteq> Some (JArray vs))"

lemma row_key_scalar: "scalar_key column row \<Longrightarrow> row_key L column row = Ok (key_text L column row)"
  by (auto simp: scalar_key_def key_text_def row_key_def join_key_def split: option.splits json.splits)

lemma index_rows_get:
  assumes "\<forall>r \<in> set rows. scalar_key column r"
  shows "\<exists>index'. index_rows L pre column rows index = Ok index' \<and>
    (\<forall>k. hm_list index' k = hm_list index k @ map (prefixed_row pre) (filter (\<lambda>r. key_text L column r = Some k) rows))"
  using assms
proof (induction rows arbitrary: index)
  case (Cons r rows)
  have key: "row_key L column r = Ok (key_text L column r)" using Cons.prems row_key_scalar by simp
  show ?case
  proof (cases "key_text L column r")
    case None
    then show ?thesis using Cons key by simp
  next
    case (Some k)
    then show ?thesis using Cons.IH [of "hm_insert k (hm_list index k @ [prefixed_row pre r]) index"] Cons.prems key by auto
  qed
qed simp

section \<open>The join\<close>

text \<open>C9: The hash join is the join. For right rows and left rows without multi-value keys it succeeds, and its result, row by
  row and cell by cell, is what a nested loop gives: for every left row in order, one row per right row with the same
  key in order; a left row without a partner (a null key never has one) is kept with null right columns in a left join and
  dropped in an inner join. Cells of the left row win over right cells of the same name.\<close>

theorem hash_join_is_nested_loop:
  assumes "materialise_right lookups (jd_right j) = Ok (columns, rights)" and "jc_right_key (jd_condition j) \<in> set columns"
    and "\<forall>r \<in> set rights. scalar_key (jc_right_key (jd_condition j)) r" and "\<forall>l \<in> set lefts. scalar_key (jc_left_key (jd_condition j)) l"
  shows "\<exists>out. execute_join L lookups j lefts = Ok out \<and>
    map hm_get out = concat (map (\<lambda>l.
      let partners = filter (\<lambda>r. key_text L (jc_left_key (jd_condition j)) l \<noteq> None \<and>
            key_text L (jc_right_key (jd_condition j)) r = key_text L (jc_left_key (jd_condition j)) l) rights
      in if partners \<noteq> [] then map (join_cells (jd_right_prefix j) l) partners
         else if jd_join_type j = LeftJoin then [unmatched_cells (jd_right_prefix j) columns l] else []) lefts)"
    (is "\<exists>out. _ \<and> map hm_get out = concat (map ?expected lefts)")
proof -
  let ?rk = "jc_right_key (jd_condition j)" and ?lk = "jc_left_key (jd_condition j)" and ?pre = "jd_right_prefix j"
  define partners where "partners l = filter (\<lambda>r. key_text L ?lk l \<noteq> None \<and> key_text L ?rk r = key_text L ?lk l) rights" for l
  define expected where "expected l = (if partners l \<noteq> [] then map (join_cells ?pre l) (partners l)
    else if jd_join_type j = LeftJoin then [unmatched_cells ?pre columns l] else [])" for l
  obtain index where index: "index_rows L ?pre ?rk rights [] = Ok index"
    and get: "\<And>k. hm_list index k = map (prefixed_row ?pre) (filter (\<lambda>r. key_text L ?rk r = Some k) rights)"
    using index_rows_get [OF assms(3), of L ?pre "[]"] by auto
  let ?right = "\<lparr>rr_prefixed_columns = map (\<lambda>c. ?pre @ c) columns, rr_index = index\<rparr>"
  have build: "right_relation_build L lookups (jd_right j) ?pre ?rk = Ok ?right"
    using assms(1,2) index by (simp add: right_relation_build_def)
  have probe: "\<exists>rows. probe L j ?right l = Ok rows \<and> map hm_get rows = expected l" if "l \<in> set lefts" for l
  proof -
    have key: "row_key L ?lk l = Ok (key_text L ?lk l)" using assms(4) that row_key_scalar by blast
    define found where "found = (case key_text L ?lk l of None \<Rightarrow> None | Some k \<Rightarrow> hm_get index k)"
    have found: "(case found of None \<Rightarrow> [] | Some rs \<Rightarrow> rs) = map (prefixed_row ?pre) (partners l)"
      using get by (cases "key_text L ?lk l") (simp_all add: found_def partners_def hm_list_def)
    have "probe L j ?right l = (case found of Some (r # rs) \<Rightarrow> Ok (map (joined_row l) (r # rs))
        | _ \<Rightarrow> Ok (if jd_join_type j = LeftJoin then [fold (\<lambda>col joined. hm_or_insert col JNull joined) (map (\<lambda>c. ?pre @ c) columns) l] else []))"
      by (cases "key_text L ?lk l") (auto simp: probe_def key found_def split: option.split list.split)
    then have "probe L j ?right l = Ok (if partners l \<noteq> [] then map (joined_row l) (map (prefixed_row ?pre) (partners l))
        else if jd_join_type j = LeftJoin then [fold (\<lambda>col joined. hm_or_insert col JNull joined) (map (\<lambda>c. ?pre @ c) columns) l] else [])"
      using found by (auto split: option.splits list.splits)
    then show ?thesis using unmatched_fill [of ?pre columns l] by (simp add: expected_def joined_cells comp_def)
  qed
  have "\<exists>out. probe_rows L j ?right ls acc = Ok out \<and> map hm_get out = map hm_get acc @ concat (map expected ls)" if "set ls \<subseteq> set lefts" for ls acc
    using that
  proof (induction ls arbitrary: acc)
    case (Cons l ls)
    then obtain rows where "probe L j ?right l = Ok rows" "map hm_get rows = expected l" using probe [of l] by auto
    then show ?case using Cons.IH [of "acc @ rows"] Cons.prems by auto
  qed simp
  from this [of lefts "[]"] obtain out where "probe_rows L j ?right lefts [] = Ok out" "map hm_get out = concat (map expected lefts)" by auto
  moreover have "expected = ?expected" by (rule ext) (simp only: expected_def partners_def Let_def)
  ultimately show ?thesis using build by (simp only: execute_join_def) simp
qed


definition sample_join :: join_data_source where
  "sample_join = \<lparr>jd_right = InlineRight [''k'', ''v''] [[JString ''1'', JString ''one''], [JNull, JString ''none'']], jd_right_prefix = ''r.'',
     jd_condition = \<lparr>jc_left_key = ''x'', jc_right_key = ''k''\<rparr>, jd_join_type = LeftJoin\<rparr>"

theorem hash_join_is_nested_loop_witness:
  "\<forall>L. \<exists>out. execute_join L [] sample_join [[(''x'', JNumber (PosInt 1))], [(''x'', JNull)]] = Ok out \<and>
     map (\<lambda>row. hm_get row ''r.v'') out = [Some (JString ''one''), Some JNull]"
proof
  fix L
  let ?lefts = "[[(''x'', JNumber (PosInt 1))], [(''x'', JNull)]]"
  let ?rights = "[[(''k'', JString ''1''), (''v'', JString ''one'')], [(''k'', JNull), (''v'', JString ''none'')]]"
  have right: "materialise_right [] (jd_right sample_join) = Ok ([''k'', ''v''], ?rights)"
    by (simp add: sample_join_def materialise_right_def inline_row_def)
  have one: "show_nat 1 = ''1''" by code_simp
  have keys: "key_text L ''k'' [(''k'', JString ''1''), (''v'', JString ''one'')] = Some ''1''" "key_text L ''k'' [(''k'', JNull), (''v'', JString ''none'')] = None"
    "key_text L ''x'' [(''x'', JNumber (PosInt 1))] = Some ''1''" "key_text L ''x'' [(''x'', JNull)] = None"
    using one by (simp_all add: key_text_def row_key_def join_key_def hm_get_def number_text_def)
  have fields: "jd_right_prefix sample_join = ''r.''" "jc_left_key (jd_condition sample_join) = ''x''" "jc_right_key (jd_condition sample_join) = ''k''"
    "jd_join_type sample_join = LeftJoin" by (simp_all add: sample_join_def)
  have scalar: "\<forall>r \<in> set ?rights. scalar_key ''k'' r" "\<forall>l \<in> set ?lefts. scalar_key ''x'' l" by (simp_all add: scalar_key_def hm_get_def)
  have "''k'' \<in> set [''k'', ''v'']" by simp
  from hash_join_is_nested_loop [OF right, unfolded fields, OF this scalar, of L]
  obtain out where out: "execute_join L [] sample_join ?lefts = Ok out"
    and rows: "map hm_get out = concat (map (\<lambda>l.
      let partners = filter (\<lambda>r. key_text L ''x'' l \<noteq> None \<and> key_text L ''k'' r = key_text L ''x'' l) ?rights
      in if partners \<noteq> [] then map (join_cells ''r.'' l) partners
         else if LeftJoin = LeftJoin then [unmatched_cells ''r.'' [''k'', ''v''] l] else []) ?lefts)"
    by blast
  have strip: "strip_name ''r.'' ''r.v'' = Some ''v''" using strip_name_self [of "''r.''" "''v''"] by simp
  have "map (\<lambda>row. hm_get row ''r.v'') out = map (\<lambda>f. f ''r.v'') (map hm_get out)" by simp
  also have "\<dots> = [Some (JString ''one''), Some JNull]"
    unfolding rows by (simp add: keys join_cells_def unmatched_cells_def strip) (simp add: hm_get_def strip)
  finally show "\<exists>out. execute_join L [] sample_join ?lefts = Ok out \<and> map (\<lambda>row. hm_get row ''r.v'') out = [Some (JString ''one''), Some JNull]"
    using out by (intro exI conjI)
qed

text \<open>A multi-value key on either side is an error, never a match by the text of its JSON.\<close>

lemma index_rows_array:
  assumes "\<exists>r \<in> set rows. \<not> scalar_key column r"
  shows "\<exists>e. index_rows L pre column rows index = fail (Query e)"
  using assms
proof (induction rows arbitrary: index)
  case (Cons r rows)
  show ?case
  proof (cases "scalar_key column r")
    case True
    then show ?thesis using Cons row_key_scalar [OF True, of L] by (cases "key_text L column r") auto
  next
    case False
    then show ?thesis by (auto simp: scalar_key_def row_key_def join_key_def)
  qed
qed simp

lemma join_refuses_arrays:
  assumes "materialise_right lookups (jd_right j) = Ok (columns, rights)"
    and "\<exists>r \<in> set rights. \<not> scalar_key (jc_right_key (jd_condition j)) r"
  shows "\<exists>e. execute_join L lookups j lefts = fail (Query e)"
  using assms index_rows_array [OF assms(2), of L "jd_right_prefix j" "[]"]
  by (auto simp: execute_join_def right_relation_build_def)

end
