(* ===== verification/Kafka_Task.thy ===== *)
theory Kafka_Task
  imports Json Btree_Map Int64
begin

text \<open>
  Kafka indexing tasks (ferrodruid-ingest-kafka/src/partitions.rs, checkpoint.rs, source.rs,
  supervisor.rs, index_task.rs, eos_writer.rs, the bounds check of consumer.rs): partition
  assignments, checkpoints, the in-memory source, the planner of the supervisor, one run of a task, and
  the writer that publishes segments together with their offsets. The JSON reader and the segment
  builder are arguments.
\<close>

section \<open>Partitions\<close>

datatype topic_partition = TopicPartition (tp_topic: string) (tp_partition: int)

text \<open>The derived order: topic first, then partition.\<close>

instantiation topic_partition :: linorder
begin

definition less_eq_topic_partition :: "topic_partition \<Rightarrow> topic_partition \<Rightarrow> bool" where
  "less_eq_topic_partition a b \<longleftrightarrow> tp_topic a < tp_topic b \<or> tp_topic a = tp_topic b \<and> tp_partition a \<le> tp_partition b"

definition less_topic_partition :: "topic_partition \<Rightarrow> topic_partition \<Rightarrow> bool" where
  "less_topic_partition a b \<longleftrightarrow> tp_topic a < tp_topic b \<or> tp_topic a = tp_topic b \<and> tp_partition a < tp_partition b"

instance
  by standard (auto simp: less_eq_topic_partition_def less_topic_partition_def intro: topic_partition.expand)

end

record offset_range =
  range_start :: int
  range_end :: "int option"

definition open_range :: "int \<Rightarrow> offset_range" where
  "open_range start = \<lparr>range_start = start, range_end = None\<rparr>"

definition range_contains :: "offset_range \<Rightarrow> int \<Rightarrow> bool" where
  "range_contains r offset =
     (if offset < range_start r then False
      else case range_end r of Some e \<Rightarrow> offset < e | None \<Rightarrow> True)"

definition is_complete_at :: "offset_range \<Rightarrow> int \<Rightarrow> bool" where
  "is_complete_at r next_offset = (case range_end r of Some e \<Rightarrow> e \<le> next_offset | None \<Rightarrow> False)"

type_synonym assignment = "(topic_partition, offset_range) btree_map"

definition assign :: "topic_partition \<Rightarrow> offset_range \<Rightarrow> assignment \<Rightarrow> assignment" where
  "assign tp r ranges = bt_insert tp r ranges"

section \<open>Checkpoints\<close>

type_synonym checkpoint = "(topic_partition, int) btree_map"

definition checkpoint_record :: "topic_partition \<Rightarrow> int \<Rightarrow> checkpoint \<Rightarrow> checkpoint" where
  "checkpoint_record tp next_offset cp =
     (let entry = (case map_of cp tp of Some e \<Rightarrow> e | None \<Rightarrow> next_offset)
      in bt_insert tp (if entry < next_offset then next_offset else entry) cp)"

text \<open>The in-memory store: a mutex, poisoned when a thread panicked while it held it.\<close>

record checkpoint_store =
  cs_poisoned :: bool
  cs_inner :: "(string, checkpoint) btree_map"

definition store_save :: "string \<Rightarrow> checkpoint \<Rightarrow> checkpoint_store \<Rightarrow> (checkpoint_store, string) res" where
  "store_save task_id cp s =
     (if cs_poisoned s then fail ''checkpoint store mutex poisoned''
      else Ok (s\<lparr>cs_inner := bt_insert task_id cp (cs_inner s)\<rparr>))"

definition store_load :: "string \<Rightarrow> checkpoint_store \<Rightarrow> (checkpoint option, string) res" where
  "store_load task_id s =
     (if cs_poisoned s then fail ''checkpoint store mutex poisoned'' else Ok (map_of (cs_inner s) task_id))"

section \<open>Sources\<close>

record source_record =
  rec_partition :: topic_partition
  rec_offset :: int
  rec_payload :: "byte list"
  rec_timestamp_ms :: "int option"

datatype source_error = UnknownPartition topic_partition | Transport string

text \<open>The operations of a source that a task calls.\<close>

record source =
  src_high_watermark :: "topic_partition \<Rightarrow> (int, source_error) res"
  src_poll :: "topic_partition \<Rightarrow> int \<Rightarrow> nat \<Rightarrow> (source_record list, source_error) res"

record partition_log =
  log_records :: "(int option \<times> byte list) list"
  log_base_offset :: int

definition log_high :: "partition_log \<Rightarrow> int" where
  "log_high l = log_base_offset l + int (length (log_records l))"

type_synonym mem_source = "(topic_partition, partition_log) btree_map"

definition empty_log :: partition_log where
  "empty_log = \<lparr>log_records = [], log_base_offset = 0\<rparr>"

definition mem_append :: "topic_partition \<Rightarrow> byte list \<Rightarrow> int option \<Rightarrow> mem_source \<Rightarrow> int \<times> mem_source" where
  "mem_append tp payload timestamp_ms src =
     (let l = (case map_of src tp of Some l \<Rightarrow> l | None \<Rightarrow> empty_log)
      in (log_high l, bt_insert tp (l\<lparr>log_records := log_records l @ [(timestamp_ms, payload)]\<rparr>) src))"

definition mem_log :: "mem_source \<Rightarrow> topic_partition \<Rightarrow> (partition_log, source_error) res" where
  "mem_log src tp = (case map_of src tp of Some l \<Rightarrow> Ok l | None \<Rightarrow> fail (UnknownPartition tp))"

definition mem_high_watermark :: "mem_source \<Rightarrow> topic_partition \<Rightarrow> (int, source_error) res" where
  "mem_high_watermark src tp = bind (mem_log src tp) (\<lambda>l. Ok (log_high l))"

function poll_loop :: "topic_partition \<Rightarrow> partition_log \<Rightarrow> nat \<Rightarrow> int \<Rightarrow> source_record list \<Rightarrow> (source_record list, source_error) res" where
  "poll_loop tp l max_records offset out =
     (if offset < log_high l \<and> length out < max_records then
        bind (index_at (log_records l) (nat (offset - log_base_offset l))) (\<lambda>(ts, payload).
          poll_loop tp l max_records (offset + 1)
            (out @ [\<lparr>rec_partition = tp, rec_offset = offset, rec_payload = payload, rec_timestamp_ms = ts\<rparr>]))
      else Ok out)"
  by auto
termination poll_loop
  by (relation "measure (\<lambda>(tp, l, n, offset, out). nat (log_high l - offset))") auto

declare poll_loop.simps [simp del]

definition mem_poll :: "mem_source \<Rightarrow> topic_partition \<Rightarrow> int \<Rightarrow> nat \<Rightarrow> (source_record list, source_error) res" where
  "mem_poll src tp from max_records =
     bind (mem_log src tp) (\<lambda>l.
       if max_records = 0 then Ok [] else poll_loop tp l max_records (max from (log_base_offset l)) [])"

definition mem_source_ops :: "mem_source \<Rightarrow> source" where
  "mem_source_ops src = \<lparr>src_high_watermark = mem_high_watermark src, src_poll = mem_poll src\<rparr>"

definition partitions_for :: "string \<Rightarrow> mem_source \<Rightarrow> topic_partition list" where
  "partitions_for topic src = filter (\<lambda>tp. tp_topic tp = topic) (map fst src)"

section \<open>The planner of the supervisor\<close>

datatype planner_state = Running | Suspended

record supervisor_planner =
  sup_topic :: string
  sup_state :: planner_state

record partition_change =
  pc_added :: "topic_partition list"
  pc_removed :: "topic_partition list"

definition suspend :: "supervisor_planner \<Rightarrow> supervisor_planner" where
  "suspend p = p\<lparr>sup_state := Suspended\<rparr>"

definition resume :: "supervisor_planner \<Rightarrow> supervisor_planner" where
  "resume p = p\<lparr>sup_state := Running\<rparr>"

definition generate_tasks :: "supervisor_planner \<Rightarrow> (topic_partition, int) btree_map \<Rightarrow> nat \<Rightarrow> assignment list" where
  "generate_tasks p partition_offsets task_count =
     (if sup_state p = Suspended \<or> task_count = 0 then []
      else
        let parts = filter (\<lambda>(tp, _). tp_topic tp = sup_topic p) partition_offsets in
        if parts = [] then []
        else
          let effective = min task_count (length parts)
          in fold (\<lambda>(idx, tp, start) tasks. tasks[idx mod effective := assign tp (open_range start) (tasks ! (idx mod effective))])
               (enumerate 0 parts) (replicate effective []))"

definition detect_partition_change :: "supervisor_planner \<Rightarrow> topic_partition list \<Rightarrow> topic_partition list \<Rightarrow> partition_change" where
  "detect_partition_change p known observed =
     \<lparr>pc_added = filter (\<lambda>tp. tp_topic tp = sup_topic p \<and> tp \<notin> set known) observed,
      pc_removed = filter (\<lambda>tp. tp_topic tp = sup_topic p \<and> tp \<notin> set observed) known\<rparr>"

section \<open>Bounds of a record\<close>

definition MAX_RECORD_PAYLOAD_BYTES :: nat where "MAX_RECORD_PAYLOAD_BYTES = 1048576"
definition MAX_RECORD_JSON_DEPTH :: nat where "MAX_RECORD_JSON_DEPTH = 32"

datatype bounds_error = PayloadTooLarge nat nat | PayloadTooDeep nat nat

fun depth_loop :: "nat \<Rightarrow> bool \<Rightarrow> bool \<Rightarrow> nat \<Rightarrow> byte list \<Rightarrow> (unit, bounds_error) res" where
  "depth_loop depth in_string escape_next offset [] = Ok ()"
| "depth_loop depth in_string escape_next offset (byte # bytes) =
     (if in_string then
        if escape_next then depth_loop depth True False (Suc offset) bytes
        else if byte = 92 then depth_loop depth True True (Suc offset) bytes
        else if byte = 34 then depth_loop depth False escape_next (Suc offset) bytes
        else depth_loop depth True escape_next (Suc offset) bytes
      else if byte = 34 then depth_loop depth True escape_next (Suc offset) bytes
      else if byte = 123 \<or> byte = 91 then
        if MAX_RECORD_JSON_DEPTH < depth + 1 then fail (PayloadTooDeep MAX_RECORD_JSON_DEPTH offset)
        else depth_loop (depth + 1) in_string escape_next (Suc offset) bytes
      else if byte = 125 \<or> byte = 93 then depth_loop (depth - 1) in_string escape_next (Suc offset) bytes
      else depth_loop depth in_string escape_next (Suc offset) bytes)"

definition check_record_bounds :: "byte list \<Rightarrow> (unit, bounds_error) res" where
  "check_record_bounds bytes =
     (if MAX_RECORD_PAYLOAD_BYTES < length bytes then fail (PayloadTooLarge (length bytes) MAX_RECORD_PAYLOAD_BYTES)
      else depth_loop 0 False False 0 bytes)"

section \<open>One run of a task\<close>

datatype bad_record_policy = FailTask | SkipRecord

datatype bad_record = BadBounds bounds_error | BadParse string

datatype index_task_error =
    RecordBounds bounds_error
  | Parse topic_partition int string
  | Source source_error
  | SegmentBuild string
  | CheckpointErr string

record task_spec =
  ts_task_id :: string
  ts_max_rows_per_segment :: nat
  ts_checkpoint_every_rows :: nat
  ts_assignment :: assignment

text \<open>What a task is bound to: its source, its policy, the JSON reader and the segment builder.\<close>

record 'seg task_env =
  env_source :: source
  env_policy :: bad_record_policy
  env_from_slice :: "byte list \<Rightarrow> string + json"
  env_ingest :: "json list \<Rightarrow> string + 'seg"

text \<open>The variables of \<open>run\<close>, with the store it writes to.\<close>

record 'seg run_state =
  run_checkpoint :: checkpoint
  run_rows_consumed :: nat
  run_segments :: "'seg list"
  run_buffer :: "json list"
  run_since_checkpoint :: nat
  run_store :: checkpoint_store

definition DEFAULT_POLL_BATCH :: nat where "DEFAULT_POLL_BATCH = 256"

definition resume_offset :: "topic_partition \<Rightarrow> offset_range \<Rightarrow> checkpoint \<Rightarrow> int" where
  "resume_offset tp r cp = (case map_of cp tp of Some checkpointed \<Rightarrow> max checkpointed (range_start r) | None \<Rightarrow> range_start r)"

definition parse_record :: "'seg task_env \<Rightarrow> byte list \<Rightarrow> (json, bad_record) res" where
  "parse_record env payload =
     (case check_record_bounds payload of
        Inl (Err e) \<Rightarrow> fail (BadBounds e)
      | Inl Panic \<Rightarrow> panic
      | Inr _ \<Rightarrow> (case env_from_slice env payload of Inl m \<Rightarrow> fail (BadParse m) | Inr v \<Rightarrow> Ok v))"

fun map_bad :: "topic_partition \<Rightarrow> int \<Rightarrow> bad_record fault \<Rightarrow> index_task_error fault" where
  "map_bad tp offset Panic = Panic"
| "map_bad tp offset (Err (BadBounds m)) = Err (RecordBounds m)"
| "map_bad tp offset (Err (BadParse m)) = Err (Parse tp offset m)"

type_synonym 'seg run_result = "(unit, index_task_error) res \<times> 'seg run_state"

definition task_flush :: "'seg task_env \<Rightarrow> 'seg run_state \<Rightarrow> 'seg run_result" where
  "task_flush env st =
     (if run_buffer st = [] then (Ok (), st)
      else
        case env_ingest env (run_buffer st) of
          Inl m \<Rightarrow> (fail (SegmentBuild m), st\<lparr>run_buffer := []\<rparr>)
        | Inr seg \<Rightarrow> (Ok (), st\<lparr>run_buffer := [], run_segments := run_segments st @ [seg]\<rparr>))"

definition task_persist :: "task_spec \<Rightarrow> 'seg run_state \<Rightarrow> 'seg run_result" where
  "task_persist spec st =
     (case store_save (ts_task_id spec) (run_checkpoint st) (run_store st) of
        Inl (Err m) \<Rightarrow> (fail (CheckpointErr m), st)
      | Inl Panic \<Rightarrow> (panic, st)
      | Inr s \<Rightarrow> (Ok (), st\<lparr>run_store := s\<rparr>))"

text \<open>Sequencing of steps on the state of a run; the state survives an error.\<close>

definition and_then :: "'seg run_result \<Rightarrow> ('seg run_state \<Rightarrow> 'seg run_result) \<Rightarrow> 'seg run_result" where
  "and_then r f = (case r of (Inl e, st) \<Rightarrow> (Inl e, st) | (Inr _, st) \<Rightarrow> f st)"

text \<open>What follows a consumed record: advance the checkpoint, flush a full buffer, checkpoint.\<close>

definition after_record :: "'seg task_env \<Rightarrow> task_spec \<Rightarrow> topic_partition \<Rightarrow> int \<Rightarrow> 'seg run_state \<Rightarrow> 'seg run_result" where
  "after_record env spec tp offset st =
     (let st = st\<lparr>run_checkpoint := checkpoint_record tp offset (run_checkpoint st)\<rparr> in
      and_then (if ts_max_rows_per_segment spec \<le> length (run_buffer st) then task_flush env st else (Ok (), st)) (\<lambda>st.
        if 0 < ts_checkpoint_every_rows spec \<and> ts_checkpoint_every_rows spec \<le> run_since_checkpoint st then
          and_then (task_persist spec st) (\<lambda>st. (Ok (), st\<lparr>run_since_checkpoint := 0\<rparr>))
        else (Ok (), st)))"

definition push_row :: "json \<Rightarrow> 'seg run_state \<Rightarrow> 'seg run_state" where
  "push_row v st =
     st\<lparr>run_buffer := run_buffer st @ [v], run_rows_consumed := run_rows_consumed st + 1,
        run_since_checkpoint := run_since_checkpoint st + 1\<rparr>"

text \<open>A record inside the range of its partition.\<close>

definition record_step :: "'seg task_env \<Rightarrow> task_spec \<Rightarrow> topic_partition \<Rightarrow> int \<Rightarrow> byte list \<Rightarrow> 'seg run_state \<Rightarrow> 'seg run_result" where
  "record_step env spec tp offset payload st =
     (let next = wrapping_add offset 1 in
      case parse_record env payload of
        Inr v \<Rightarrow> after_record env spec tp next (push_row v st)
      | Inl e \<Rightarrow>
          (case env_policy env of
             FailTask \<Rightarrow> (Inl (map_bad tp offset e), st)
           | SkipRecord \<Rightarrow> after_record env spec tp next st))"

text \<open>The records of one batch: go on at an offset, leave the partition, or fail.\<close>

datatype 'st flow = Continue int 'st | Leave 'st | Abort "index_task_error fault" 'st

fun batch_loop :: "'seg task_env \<Rightarrow> task_spec \<Rightarrow> topic_partition \<Rightarrow> offset_range \<Rightarrow> source_record list \<Rightarrow> int \<Rightarrow> 'seg run_state \<Rightarrow> 'seg run_state flow" where
  "batch_loop env spec tp r [] offset st = Continue offset st"
| "batch_loop env spec tp r (rec # batch) offset st =
     (if rec_offset rec < range_start r then batch_loop env spec tp r batch (wrapping_add (rec_offset rec) 1) st
      else if \<not> range_contains r (rec_offset rec) then
        Leave (case range_end r of
            Some e \<Rightarrow> st\<lparr>run_checkpoint := checkpoint_record tp (max offset e) (run_checkpoint st)\<rparr>
          | None \<Rightarrow> st)
      else
        (case record_step env spec tp (rec_offset rec) (rec_payload rec) st of
           (Inl e, st') \<Rightarrow> Abort e st'
         | (Inr _, st') \<Rightarrow> batch_loop env spec tp r batch (wrapping_add (rec_offset rec) 1) st'))"

text \<open>The loop over one partition; a source that goes backwards can keep it running forever.\<close>

partial_function (option) partition_loop ::
  "'seg task_env \<Rightarrow> task_spec \<Rightarrow> topic_partition \<Rightarrow> offset_range \<Rightarrow> int \<Rightarrow> int \<Rightarrow> 'seg run_state \<Rightarrow> 'seg run_result option" where
  "partition_loop env spec tp r high offset st =
     (if is_complete_at r offset \<or> high \<le> offset then Some (Ok (), st)
      else case src_poll (env_source env) tp offset DEFAULT_POLL_BATCH of
          Inl Panic \<Rightarrow> Some (panic, st)
        | Inl (Err e) \<Rightarrow> Some (fail (Source e), st)
        | Inr batch \<Rightarrow>
            if batch = [] then Some (Ok (), st)
            else case batch_loop env spec tp r batch offset st of
                Continue offset' st' \<Rightarrow> partition_loop env spec tp r high offset' st'
              | Leave st' \<Rightarrow> Some (Ok (), st')
              | Abort e st' \<Rightarrow> Some (Inl e, st'))"

fun assignment_loop :: "'seg task_env \<Rightarrow> task_spec \<Rightarrow> assignment \<Rightarrow> 'seg run_state \<Rightarrow> 'seg run_result option" where
  "assignment_loop env spec [] st = Some (Ok (), st)"
| "assignment_loop env spec ((tp, r) # ranges) st =
     (case src_high_watermark (env_source env) tp of
        Inl Panic \<Rightarrow> Some (panic, st)
      | Inl (Err e) \<Rightarrow> Some (fail (Source e), st)
      | Inr high \<Rightarrow>
          (case partition_loop env spec tp r high (resume_offset tp r (run_checkpoint st)) st of
             None \<Rightarrow> None
           | Some (Inl e, st') \<Rightarrow> Some (Inl e, st')
           | Some (Inr _, st') \<Rightarrow> assignment_loop env spec ranges st'))"

record 'seg task_report =
  rep_rows_consumed :: nat
  rep_segments :: "'seg list"
  rep_final_offsets :: checkpoint

text \<open>A run, with the store it leaves behind; \<open>None\<close> when it does not return.\<close>

definition run_task :: "'seg task_env \<Rightarrow> task_spec \<Rightarrow> checkpoint_store \<Rightarrow> (('seg task_report, index_task_error) res \<times> checkpoint_store) option" where
  "run_task env spec store =
     (case store_load (ts_task_id spec) store of
        Inl Panic \<Rightarrow> Some (panic, store)
      | Inl (Err m) \<Rightarrow> Some (fail (CheckpointErr m), store)
      | Inr loaded \<Rightarrow>
          (let st = \<lparr>run_checkpoint = (case loaded of Some cp \<Rightarrow> cp | None \<Rightarrow> []), run_rows_consumed = 0, run_segments = [],
               run_buffer = [], run_since_checkpoint = 0, run_store = store\<rparr>
           in map_option (\<lambda>res.
                case and_then res (\<lambda>st. and_then (task_flush env st) (task_persist spec)) of
                  (Inl e, st) \<Rightarrow> (Inl e, run_store st)
                | (Inr _, st) \<Rightarrow>
                    (Ok \<lparr>rep_rows_consumed = run_rows_consumed st, rep_segments = run_segments st, rep_final_offsets = run_checkpoint st\<rparr>,
                     run_store st))
              (assignment_loop env spec (ts_assignment spec) st)))"

end
