(* ===== verification/Kafka_Task_Properties.thy ===== *)
theory Kafka_Task_Properties
  imports Kafka_Task
begin

text \<open>
  What a run of a Kafka indexing task consumes, across restarts, and what the planner assigns. The
  contract of a source is a locale; a run against any source that meets it is reduced to one pass over the
  records of the assigned ranges.
\<close>

section \<open>Checkpoints\<close>

lemma bt_insert_same: "bt_wf m \<Longrightarrow> map_of m k = Some v \<Longrightarrow> bt_insert k v m = m"
proof (induction k v m rule: bt_insert.induct)
  case (2 k v l w m)
  then have "k \<in> fst ` set m \<Longrightarrow> l < k" by (auto simp: bt_wf_def)
  then show ?case using 2 by (auto simp: bt_wf_def split: if_splits dest!: map_of_SomeD intro: rev_image_eqI)
qed simp

lemma checkpoint_record_wf [simp]: "bt_wf cp \<Longrightarrow> bt_wf (checkpoint_record tp n cp)"
  by (simp add: checkpoint_record_def Let_def)

lemma checkpoint_record_get:
  "map_of (checkpoint_record tp n cp) tp' =
     (if tp' = tp then Some (case map_of cp tp of Some e \<Rightarrow> max e n | None \<Rightarrow> n) else map_of cp tp')"
  by (auto simp: checkpoint_record_def Let_def map_of_bt_insert max_def split: option.splits)

lemma checkpoint_record_same: "bt_wf cp \<Longrightarrow> map_of cp tp = Some n \<Longrightarrow> checkpoint_record tp n cp = cp"
  by (simp add: checkpoint_record_def bt_insert_same)

section \<open>Consuming a list of records\<close>

fun consume :: "'seg task_env \<Rightarrow> task_spec \<Rightarrow> topic_partition \<Rightarrow> (int \<times> byte list) list \<Rightarrow> 'seg run_state \<Rightarrow> 'seg run_result" where
  "consume env spec tp [] st = (Ok (), st)"
| "consume env spec tp ((offset, payload) # recs) st = and_then (record_step env spec tp offset payload st) (consume env spec tp recs)"

lemma and_then_simps [simp]:
  "and_then (Inl e, st) f = (Inl e, st)"
  "and_then (Inr u, st) f = f st"
  by (simp_all add: and_then_def)

lemma and_then_assoc: "and_then (and_then r f) g = and_then r (\<lambda>st. and_then (f st) g)"
  by (auto simp: and_then_def split: prod.splits sum.splits)

lemma consume_append: "consume env spec tp (xs @ ys) st = and_then (consume env spec tp xs st) (consume env spec tp ys)"
  by (induction xs arbitrary: st) (auto simp: and_then_def split: prod.splits sum.splits)

text \<open>The checkpoint after a record: only the record's partition moves.\<close>

lemma flush_checkpoint [simp]: "run_checkpoint (snd (task_flush env st)) = run_checkpoint st"
  by (auto simp: task_flush_def split: sum.splits)

lemma persist_checkpoint [simp]: "run_checkpoint (snd (task_persist spec st)) = run_checkpoint st"
  by (auto simp: task_persist_def split: sum.splits fault.splits)

lemma and_then_checkpoint:
  "(\<And>s. run_checkpoint s = run_checkpoint (snd r) \<Longrightarrow> run_checkpoint (snd (f s)) = run_checkpoint (snd r)) \<Longrightarrow>
     run_checkpoint (snd (and_then r f)) = run_checkpoint (snd r)"
  by (auto simp: and_then_def split: prod.splits sum.splits)

lemma after_record_checkpoint:
  "run_checkpoint (snd (after_record env spec tp n st)) = checkpoint_record tp n (run_checkpoint st)"
  unfolding after_record_def Let_def
  by (auto simp: and_then_def split: prod.splits sum.splits if_splits dest!: arg_cong [where f = "\<lambda>r. run_checkpoint (snd r)"])

lemma record_step_checkpoint:
  "fst (record_step env spec tp offset payload st) = Ok () \<Longrightarrow>
     run_checkpoint (snd (record_step env spec tp offset payload st)) = checkpoint_record tp (wrapping_add offset 1) (run_checkpoint st)"
  by (auto simp: record_step_def Let_def after_record_checkpoint push_row_def split: sum.splits bad_record_policy.splits)


lemma consume_checkpoint:
  assumes "consume env spec tp recs st = (Ok (), st')" and "\<And>x. x \<in> set recs \<Longrightarrow> in_i64 (fst x + 1)"
  shows "run_checkpoint st' = fold (\<lambda>x. checkpoint_record tp (fst x + 1)) recs (run_checkpoint st)"
  using assms
proof (induction recs arbitrary: st)
  case (Cons x recs)
  obtain offset payload where x: "x = (offset, payload)" by fastforce
  obtain st1 where st1: "record_step env spec tp offset payload st = (Ok (), st1)" "consume env spec tp recs st1 = (Ok (), st')"
    using Cons.prems(1) by (auto simp: x and_then_def split: prod.splits sum.splits)
  have "run_checkpoint st1 = checkpoint_record tp (offset + 1) (run_checkpoint st)"
    using record_step_checkpoint [of env spec tp offset payload st] st1(1) Cons.prems(2) [of x] by (simp add: x wrapping_add_exact)
  then show ?case using Cons.IH [OF st1(2)] Cons.prems(2) by (simp add: x)
qed simp

lemma fold_checkpoint_wf: "bt_wf cp \<Longrightarrow> bt_wf (fold (\<lambda>x. checkpoint_record tp (fst x + 1)) recs cp)"
  by (induction recs arbitrary: cp) auto

lemma fold_checkpoint_other: "tp' \<noteq> tp \<Longrightarrow> map_of (fold (\<lambda>x. checkpoint_record tp (fst x + 1)) recs cp) tp' = map_of cp tp'"
  by (induction recs arbitrary: cp) (auto simp: checkpoint_record_get)

definition cp_le :: "topic_partition \<Rightarrow> checkpoint \<Rightarrow> int \<Rightarrow> bool" where
  "cp_le tp cp n = (case map_of cp tp of Some c \<Rightarrow> c \<le> n | None \<Rightarrow> True)"

lemma fold_checkpoint_last:
  assumes "sorted_wrt (<) (map fst recs)" and "recs \<noteq> []" and "cp_le tp cp (fst (hd recs))"
  shows "map_of (fold (\<lambda>x. checkpoint_record tp (fst x + 1)) recs cp) tp = Some (fst (last recs) + (1 :: int))"
  using assms
proof (induction recs arbitrary: cp)
  case (Cons x recs)
  have here: "map_of (checkpoint_record tp (fst x + 1) cp) tp = Some (fst x + 1)"
    using Cons.prems(3) by (auto simp: checkpoint_record_get cp_le_def split: option.splits)
  show ?case
  proof (cases recs)
    case (Cons y ys)
    then have "cp_le tp (checkpoint_record tp (fst x + 1) cp) (fst (hd recs))"
      using Cons.prems(1) here by (simp add: cp_le_def)
    then show ?thesis using Cons.IH Cons Cons.prems(1) by simp
  qed (simp add: here)
qed simp

section \<open>One batch\<close>

definition rec_data :: "source_record \<Rightarrow> int \<times> byte list" where
  "rec_data rec = (rec_offset rec, rec_payload rec)"

text \<open>The state when a partition is left at a record past its range.\<close>

definition leave_at :: "topic_partition \<Rightarrow> offset_range \<Rightarrow> int \<Rightarrow> 'seg run_state \<Rightarrow> 'seg run_state" where
  "leave_at tp r offset st =
     (case range_end r of
        Some e \<Rightarrow> st\<lparr>run_checkpoint := checkpoint_record tp (max offset e) (run_checkpoint st)\<rparr>
      | None \<Rightarrow> st)"

lemma batch_loop_consume:
  assumes "\<And>rec. rec \<in> set batch \<Longrightarrow> range_start r \<le> rec_offset rec \<and> in_i64 (rec_offset rec + 1)"
  shows "batch_loop env spec tp r batch offset st =
    (let w = takeWhile (\<lambda>rec. range_contains r (rec_offset rec)) batch;
         offset' = (if w = [] then offset else rec_offset (last w) + 1)
     in case consume env spec tp (map rec_data w) st of
          (Inl e, st') \<Rightarrow> Abort e st'
        | (Inr _, st') \<Rightarrow> if w = batch then Continue offset' st' else Leave (leave_at tp r offset' st'))"
  using assms
proof (induction batch arbitrary: offset st)
  case (Cons rec batch)
  have rec: "\<not> rec_offset rec < range_start r" "wrapping_add (rec_offset rec) 1 = rec_offset rec + 1"
    using Cons.prems [of rec] by (auto intro: wrapping_add_exact)
  note IH = Cons.IH [of "rec_offset rec + 1"]
  show ?case
  proof (cases "range_contains r (rec_offset rec)")
    case True
    then show ?thesis using rec IH Cons.prems
      by (auto simp: Let_def rec_data_def and_then_def simp del: takeWhile_eq_all_conv split: prod.splits sum.splits)
  next
    case False
    then show ?thesis using rec by (auto simp: Let_def leave_at_def)
  qed
qed (simp add: Let_def)

section \<open>The contract of a source\<close>

definition window :: "offset_range \<Rightarrow> int \<Rightarrow> (int \<times> byte list) list \<Rightarrow> (int \<times> byte list) list" where
  "window r lo recs = filter (\<lambda>(offset, _). lo \<le> offset \<and> range_contains r offset) recs"

text \<open>A partition whose records end past the range is left with the end of the range as its next offset.\<close>

definition settle :: "topic_partition \<Rightarrow> offset_range \<Rightarrow> int \<Rightarrow> (int \<times> byte list) list \<Rightarrow> 'seg run_state \<Rightarrow> 'seg run_state" where
  "settle tp r lo recs st =
     (case range_end r of
        Some e \<Rightarrow> if lo < e \<and> (\<exists>(offset, _) \<in> set recs. e \<le> offset)
          then st\<lparr>run_checkpoint := checkpoint_record tp e (run_checkpoint st)\<rparr> else st
      | None \<Rightarrow> st)"

lemma sorted_after:
  assumes "sorted_wrt (<) (map fst (B @ C))" and "B \<noteq> []" and "\<And>x. x \<in> set (B @ C) \<Longrightarrow> lo \<le> fst x"
  shows "filter (\<lambda>x. fst (last B) + 1 \<le> (fst x :: int)) (B @ C) = C" and "lo \<le> fst (last B)"
proof -
  have B: "fst x \<le> fst (last B)" if "x \<in> set B" for x
  proof -
    have "B = butlast B @ [last B]" using assms(2) by simp
    then have "sorted_wrt (<) (map fst (butlast B @ [last B]))" "x \<in> set (butlast B @ [last B])"
      using assms(1) that by (simp_all add: sorted_wrt_append)
    then show ?thesis by (auto simp: sorted_wrt_append)
  qed
  have C: "fst (last B) < fst x" if "x \<in> set C" for x
    using assms(1,2) that by (auto simp: sorted_wrt_append)
  show "filter (\<lambda>x. fst (last B) + 1 \<le> fst x) (B @ C) = C"
  proof -
    have "filter (\<lambda>x. fst (last B) + 1 \<le> fst x) B = []" using B by (force simp: filter_empty_conv)
    moreover have "filter (\<lambda>x. fst (last B) + 1 \<le> fst x) C = C" by (rule filter_True) (use C in force)
    ultimately show ?thesis by simp
  qed
  show "lo \<le> fst (last B)" using assms(2,3) by simp
qed

locale record_source =
  fixes ops :: source and avail :: "topic_partition \<Rightarrow> (int \<times> byte list) list" and high :: "topic_partition \<Rightarrow> int"
    and known :: "topic_partition \<Rightarrow> bool"
  assumes watermark: "known tp \<Longrightarrow> src_high_watermark ops tp = Ok (high tp)"
    and polled: "known tp \<Longrightarrow> \<exists>recs. src_poll ops tp lo n = Ok recs \<and> map rec_data recs = take n (filter (\<lambda>x. lo \<le> fst x) (avail tp))"
    and ascending: "known tp \<Longrightarrow> sorted_wrt (<) (map fst (avail tp))"
    and bounded: "known tp \<Longrightarrow> x \<in> set (avail tp) \<Longrightarrow> fst x < high tp \<and> in_i64 (fst x) \<and> in_i64 (fst x + 1)"
begin

definition pending :: "topic_partition \<Rightarrow> int \<Rightarrow> (int \<times> byte list) list" where
  "pending tp lo = filter (\<lambda>x. lo \<le> fst x) (avail tp)"

lemma pending_sorted: "known tp \<Longrightarrow> sorted_wrt (<) (map fst (pending tp lo))"
  unfolding pending_def sorted_wrt_map by (rule sorted_wrt_filter) (use ascending in \<open>simp add: sorted_wrt_map\<close>)

lemma window_pending: "window r lo (avail tp) = filter (\<lambda>x. range_contains r (fst x)) (pending tp lo)"
  by (auto simp: window_def pending_def filter_filter intro!: filter_cong)

lemma pending_after:
  assumes "known tp" and "pending tp lo = B @ C" and "B \<noteq> []"
  shows "pending tp (fst (last B) + 1) = C" and "lo \<le> fst (last B)"
proof -
  note s = sorted_after [of B C lo, OF _ assms(3)]
  have ge: "lo \<le> fst x" if "x \<in> set (B @ C)" for x using that unfolding assms(2) [symmetric] pending_def by simp
  have srt: "sorted_wrt (<) (map fst (B @ C))" using pending_sorted [OF assms(1), of lo] unfolding assms(2) .
  show "lo \<le> fst (last B)" by (rule s(2) [OF srt ge])
  then have "pending tp (fst (last B) + 1) = filter (\<lambda>x. fst (last B) + 1 \<le> fst x) (pending tp lo)"
    by (auto simp: pending_def filter_filter intro!: filter_cong)
  then show "pending tp (fst (last B) + 1) = C" using s(1) [OF srt ge] unfolding assms(2) by simp
qed

end


context record_source
begin

lemma partition_loop_step:
  assumes "known tp" and "env_source env = ops" and "range_start r \<le> offset" and "\<not> is_complete_at r offset" and "\<not> high tp \<le> offset"
    and "pending tp offset \<noteq> []"
  obtains recs where "map rec_data recs = take DEFAULT_POLL_BATCH (pending tp offset)" and "recs \<noteq> []"
    and "partition_loop env spec tp r (high tp) offset st =
      (case batch_loop env spec tp r recs offset st of
         Continue offset' st' \<Rightarrow> partition_loop env spec tp r (high tp) offset' st'
       | Leave st' \<Rightarrow> Some (Ok (), st')
       | Abort e st' \<Rightarrow> Some (Inl e, st'))"
    and "\<And>rec. rec \<in> set recs \<Longrightarrow> range_start r \<le> rec_offset rec \<and> in_i64 (rec_offset rec + 1)"
proof -
  obtain recs where p: "src_poll ops tp offset DEFAULT_POLL_BATCH = Ok recs"
    "map rec_data recs = take DEFAULT_POLL_BATCH (pending tp offset)"
    using polled [OF assms(1), of offset DEFAULT_POLL_BATCH] by (auto simp: pending_def)
  have ne: "recs \<noteq> []" using p(2) assms(6) by (auto simp: DEFAULT_POLL_BATCH_def)
  have step: "partition_loop env spec tp r (high tp) offset st =
      (case batch_loop env spec tp r recs offset st of
         Continue offset' st' \<Rightarrow> partition_loop env spec tp r (high tp) offset' st'
       | Leave st' \<Rightarrow> Some (Ok (), st')
       | Abort e st' \<Rightarrow> Some (Inl e, st'))"
    using assms(4,5) ne by (subst partition_loop.simps) (simp add: assms(2) p(1))
  have "range_start r \<le> rec_offset rec \<and> in_i64 (rec_offset rec + 1)" if "rec \<in> set recs" for rec
  proof -
    have "rec_data rec \<in> set (map rec_data recs)" using that by simp
    then have "rec_data rec \<in> set (pending tp offset)" unfolding p(2) by (rule in_set_takeD)
    then show ?thesis using bounded [OF assms(1), of "rec_data rec"] assms(3) by (auto simp: pending_def rec_data_def)
  qed
  with p(2) ne step show thesis using that by blast
qed

lemma takeWhile_rec_data:
  "map rec_data (takeWhile (\<lambda>rec. range_contains r (rec_offset rec)) recs) = takeWhile (\<lambda>x. range_contains r (fst x)) (map rec_data recs)"
  by (simp add: takeWhile_map comp_def rec_data_def)

text \<open>A batch with a record past the range holds all that is left of the range.\<close>

lemma window_prefix:
  assumes "known tp" and "range_start r \<le> offset" and "pending tp offset = B @ C" and "takeWhile (\<lambda>x. range_contains r (fst x)) B \<noteq> B"
  shows "window r offset (avail tp) = takeWhile (\<lambda>x. range_contains r (fst x)) B"
    and "\<exists>e. range_end r = Some e \<and> (\<exists>(offset, _) \<in> set (avail tp). e \<le> offset)"
proof -
  let ?P = "\<lambda>x. range_contains r (fst x)"
  have srt: "sorted_wrt (<) (map fst (B @ C))" using pending_sorted [OF assms(1), of offset] unfolding assms(3) .
  have ge: "range_start r \<le> fst x" if "x \<in> set (B @ C)" for x
    using that assms(2) unfolding assms(3) [symmetric] by (auto simp: pending_def)
  have P: "?P x \<longleftrightarrow> (\<forall>e. range_end r = Some e \<longrightarrow> fst x < e)" if "x \<in> set (B @ C)" for x
    using ge [OF that] by (auto simp: range_contains_def split: option.splits)
  have B: "B = takeWhile ?P B @ dropWhile ?P B" by simp
  define y where "y = hd (dropWhile ?P B)"
  have drop: "dropWhile ?P B \<noteq> []" using assms(4) by (metis B append_Nil2)
  have y: "y \<in> set (dropWhile ?P B)" "\<not> ?P y" unfolding y_def using hd_in_set [OF drop] hd_dropWhile [OF drop] by blast+
  then have "y \<in> set (B @ C)" using set_dropWhileD by fastforce
  then obtain e where e: "range_end r = Some e" "e \<le> fst y" using P [of y] y(2) by (auto simp: not_less)
  have late: "fst y \<le> fst x" if "x \<in> set (dropWhile ?P B @ C)" for x
  proof -
    have "dropWhile ?P B = y # tl (dropWhile ?P B)" using drop by (simp add: y_def)
    moreover have "sorted_wrt (<) (map fst (dropWhile ?P B @ C))"
    proof -
      have "map fst (B @ C) = map fst (takeWhile ?P B) @ map fst (dropWhile ?P B @ C)" by (metis B append_assoc map_append)
      then show ?thesis using srt by (metis sorted_wrt_append)
    qed
    ultimately have "sorted_wrt (<) (map fst ((y # tl (dropWhile ?P B)) @ C))" "x \<in> set ((y # tl (dropWhile ?P B)) @ C)" using that by metis+
    then show ?thesis by (auto intro: less_imp_le)
  qed
  have "\<not> ?P x" if "x \<in> set (dropWhile ?P B @ C)" for x
  proof -
    have "x \<in> set (B @ C)" using that set_dropWhileD by fastforce
    then show ?thesis using P [of x] e late [OF that] by auto
  qed
  then have "filter ?P (dropWhile ?P B @ C) = []" unfolding filter_empty_conv by blast
  moreover have "filter ?P (takeWhile ?P B) = takeWhile ?P B" by (rule filter_True) (auto dest: set_takeWhileD)
  ultimately have "filter ?P (B @ C) = takeWhile ?P B" by (metis B append_Nil2 append_assoc filter_append)
  then show "window r offset (avail tp) = takeWhile ?P B" unfolding window_pending assms(3) .
  have "y \<in> set (avail tp)" using \<open>y \<in> set (B @ C)\<close> unfolding assms(3) [symmetric] by (simp add: pending_def)
  then show "\<exists>e. range_end r = Some e \<and> (\<exists>(offset, _) \<in> set (avail tp). e \<le> offset)"
    using e by (auto simp: case_prod_beta intro!: bexI [of _ y])
qed

end


context record_source
begin

lemma partition_loop_nothing:
  assumes "known tp" and "range_start r \<le> offset" and "is_complete_at r offset \<or> high tp \<le> offset \<or> pending tp offset = []"
    and "env_source env = ops"
  shows "partition_loop env spec tp r (high tp) offset st = Some (Ok (), st)"
    and "window r offset (avail tp) = []" and "settle tp r offset (avail tp) st = st"
proof -
  have none: "pending tp offset = []" if "high tp \<le> offset"
    using bounded [OF assms(1)] that by (force simp: pending_def filter_empty_conv)
  obtain recs where p: "src_poll ops tp offset DEFAULT_POLL_BATCH = Ok recs"
    "map rec_data recs = take DEFAULT_POLL_BATCH (pending tp offset)"
    using polled [OF assms(1), of offset DEFAULT_POLL_BATCH] by (auto simp: pending_def)
  show "partition_loop env spec tp r (high tp) offset st = Some (Ok (), st)"
    using assms(3) p by (subst partition_loop.simps) (auto simp: assms(4))
  have complete: "window r offset (avail tp) = []" "settle tp r offset (avail tp) st = st" if "is_complete_at r offset"
    using that by (auto simp: window_def filter_empty_conv is_complete_at_def range_contains_def settle_def split: option.splits if_splits)
  have "settle tp r offset (avail tp) st = st" if "pending tp offset = []"
    using that by (auto simp: settle_def pending_def filter_empty_conv split: option.splits)
  then show "settle tp r offset (avail tp) st = st" using assms(3) none complete by blast
  show "window r offset (avail tp) = []" using assms(3) none complete(1) by (auto simp: window_pending)
qed

lemma settle_after:
  assumes "bt_wf (run_checkpoint st)" and "map_of (run_checkpoint st) tp = Some lo'" and "lo < lo'" and "\<And>e. range_end r = Some e \<Longrightarrow> lo' \<le> e"
  shows "settle tp r lo' recs st = settle tp r lo recs st"
proof (cases "range_end r")
  case (Some e)
  then show ?thesis
    using assms(1,3) assms(4) [OF Some] assms(2) checkpoint_record_same [OF assms(1), of tp e]
    by (cases "lo' = e") (auto simp: settle_def)
qed (simp add: settle_def)

lemma partition_loop_total:
  assumes "known tp" and "env_source env = ops"
  shows "range_start r \<le> offset \<Longrightarrow> bt_wf (run_checkpoint st) \<Longrightarrow> cp_le tp (run_checkpoint st) offset \<Longrightarrow>
    partition_loop env spec tp r (high tp) offset st =
      Some (case consume env spec tp (window r offset (avail tp)) st of
          (Inl e, st') \<Rightarrow> (Inl e, st')
        | (Inr _, st') \<Rightarrow> (Ok (), settle tp r offset (avail tp) st'))"
proof (induction "length (pending tp offset)" arbitrary: offset st rule: less_induct)
  case less
  let ?P = "\<lambda>x. range_contains r (fst x)"
  show ?case
  proof (cases "is_complete_at r offset \<or> high tp \<le> offset \<or> pending tp offset = []")
    case True
    then show ?thesis using partition_loop_nothing [OF assms(1) less.prems(1) True assms(2)] by simp
  next
    case False
    then obtain recs where recs: "map rec_data recs = take DEFAULT_POLL_BATCH (pending tp offset)" "recs \<noteq> []"
      "partition_loop env spec tp r (high tp) offset st =
        (case batch_loop env spec tp r recs offset st of
           Continue offset' st' \<Rightarrow> partition_loop env spec tp r (high tp) offset' st'
         | Leave st' \<Rightarrow> Some (Ok (), st')
         | Abort e st' \<Rightarrow> Some (Inl e, st'))"
      "\<And>rec. rec \<in> set recs \<Longrightarrow> range_start r \<le> rec_offset rec \<and> in_i64 (rec_offset rec + 1)"
      using partition_loop_step [OF assms less.prems(1)] by metis
    define B where "B = map rec_data recs"
    define w where "w = takeWhile (\<lambda>rec. range_contains r (rec_offset rec)) recs"
    obtain C where C: "pending tp offset = B @ C" unfolding B_def recs(1) using append_take_drop_id by metis
    have w: "map rec_data w = takeWhile ?P B" unfolding w_def B_def by (rule takeWhile_rec_data)
    have Bne: "B \<noteq> []" "sorted_wrt (<) (map fst B)" "offset \<le> fst (hd B)" and lastB: "fst (last B) = rec_offset (last recs)"
    proof -
      show "B \<noteq> []" "fst (last B) = rec_offset (last recs)" using recs(2) by (simp_all add: B_def last_map rec_data_def)
      show "sorted_wrt (<) (map fst B)" using pending_sorted [OF assms(1), of offset] unfolding C by (simp add: sorted_wrt_append)
      have "hd B \<in> set (pending tp offset)" unfolding C using \<open>B \<noteq> []\<close> by simp
      then show "offset \<le> fst (hd B)" by (simp add: pending_def)
    qed
    have B64: "in_i64 (fst x + 1)" if "x \<in> set (B @ C)" for x
      using that bounded [OF assms(1), of x] unfolding C [symmetric] by (auto simp: pending_def)
    show ?thesis
    proof (cases "w = recs")
      case True
      have all: "takeWhile ?P B = B" using w True by (simp add: B_def)
      then have win: "window r offset (avail tp) = B @ window r (fst (last B) + 1) (avail tp)"
        unfolding window_pending C pending_after(1) [OF assms(1) C Bne(1)] by (simp add: takeWhile_eq_all_conv)
      show ?thesis
      proof (cases "consume env spec tp B st")
        case (Pair res st1)
        show ?thesis
        proof (cases res)
          case (Inl e)
          then show ?thesis using recs(3) Pair True
            by (simp add: batch_loop_consume [OF recs(4)] w_def [symmetric] Let_def win consume_append B_def [symmetric])
        next
          case (Inr u)
          have run1: "consume env spec tp B st = (Ok (), st1)" using Pair Inr by simp
          have cp1: "run_checkpoint st1 = fold (\<lambda>x. checkpoint_record tp (fst x + 1)) B (run_checkpoint st)"
            using consume_checkpoint [OF run1] B64 by simp
          have at: "map_of (run_checkpoint st1) tp = Some (fst (last B) + 1)" unfolding cp1
            using less.prems(3) Bne(3) by (intro fold_checkpoint_last [OF Bne(2,1)]) (auto simp: cp_le_def split: option.splits)
          have wf1: "bt_wf (run_checkpoint st1)" unfolding cp1 by (rule fold_checkpoint_wf [OF less.prems(2)])
          have lo: "offset \<le> fst (last B)" by (rule pending_after(2) [OF assms(1) C Bne(1)])
          have IH: "partition_loop env spec tp r (high tp) (fst (last B) + 1) st1 =
              Some (case consume env spec tp (window r (fst (last B) + 1) (avail tp)) st1 of
                (Inl e, st') \<Rightarrow> (Inl e, st')
              | (Inr _, st') \<Rightarrow> (Ok (), settle tp r (fst (last B) + 1) (avail tp) st'))"
            using less.prems(1) lo wf1 at Bne(1)
            by (intro less.hyps) (auto simp: pending_after(1) [OF assms(1) C Bne(1)] C cp_le_def)
          have "?P (last B)" using all Bne(1) by (simp add: takeWhile_eq_all_conv)
          then have le_e: "fst (last B) + 1 \<le> e" if "range_end r = Some e" for e using that by (auto simp: range_contains_def split: if_splits)
          have "settle tp r (fst (last B) + 1) (avail tp) st2 = settle tp r offset (avail tp) st2"
            if "consume env spec tp (window r (fst (last B) + 1) (avail tp)) st1 = (Ok (), st2)" for st2
          proof (cases "window r (fst (last B) + 1) (avail tp) = []")
            case True
            then have "st2 = st1" using that by simp
            then show ?thesis using settle_after [OF wf1 at _ le_e, of offset] lo by simp
          next
            case nonempty: False
            have "range_end r = Some e \<Longrightarrow> fst (last B) + 1 < e" for e
            proof -
              assume e: "range_end r = Some e"
              obtain x where "x \<in> set (window r (fst (last B) + 1) (avail tp))" using hd_in_set [OF nonempty] by blast
              then show "fst (last B) + 1 < e" using e by (auto simp: window_def range_contains_def split: if_splits)
            qed
            then show ?thesis using lo by (auto simp: settle_def split: option.splits)
          qed
          then show ?thesis using recs(3) run1 True IH lastB
            by (auto simp: batch_loop_consume [OF recs(4)] w_def [symmetric] Let_def win consume_append B_def [symmetric] recs(2) split: prod.splits sum.splits)
        qed
      qed
    next
      case False
      then have nall: "takeWhile ?P B \<noteq> B"
        by (auto simp: w_def B_def takeWhile_eq_all_conv rec_data_def)
      note wp = window_prefix [OF assms(1) less.prems(1) C nall]
      then obtain e where e: "range_end r = Some e" "\<exists>(offset, _) \<in> set (avail tp). e \<le> offset" by blast
      have lt: "offset < e" using False e(1) \<open>\<not> (is_complete_at r offset \<or> _ \<or> _)\<close> by (auto simp: is_complete_at_def)
      have "rec_offset (last w) + 1 \<le> e" if "w \<noteq> []"
      proof -
        have "last w \<in> set w" using that by simp
        then have "range_contains r (rec_offset (last w))" unfolding w_def by (rule set_takeWhileD [THEN conjunct2])
        then show ?thesis using e(1) by (auto simp: range_contains_def split: if_splits)
      qed
      then have "leave_at tp r (if w = [] then offset else rec_offset (last w) + 1) st' = settle tp r offset (avail tp) st'" for st'
        using e lt by (auto simp: leave_at_def settle_def max_def)
      then show ?thesis using recs(3) False
        by (auto simp: batch_loop_consume [OF recs(4)] w_def [symmetric] Let_def wp(1) w split: prod.splits sum.splits)
    qed
  qed
qed

end


section \<open>A run without failures\<close>

definition rows_of :: "'seg task_env \<Rightarrow> (int \<times> byte list) list \<Rightarrow> json list" where
  "rows_of env recs = concat (map (\<lambda>x. case parse_record env (snd x) of Inr v \<Rightarrow> [v] | Inl _ \<Rightarrow> []) recs)"

lemma rows_of_append [simp]: "rows_of env (xs @ ys) = rows_of env xs @ rows_of env ys"
  by (simp add: rows_of_def)

text \<open>The segment builder accepts every list of rows; a bad record is skipped or there is none.\<close>

definition builds :: "'seg task_env \<Rightarrow> (json list \<Rightarrow> 'seg) \<Rightarrow> bool" where
  "builds env build \<longleftrightarrow> (\<forall>rows. env_ingest env rows = Inr (build rows))"

definition readable :: "'seg task_env \<Rightarrow> (int \<times> byte list) list \<Rightarrow> bool" where
  "readable env recs \<longleftrightarrow> env_policy env = SkipRecord \<or> (\<forall>x \<in> set recs. \<exists>v. parse_record env (snd x) = Inr v)"

text \<open>How far a run has come: the new rows are in new segments or in the buffer, in order.\<close>

definition advances :: "(json list \<Rightarrow> 'seg) \<Rightarrow> json list \<Rightarrow> 'seg run_state \<Rightarrow> 'seg run_state \<Rightarrow> bool" where
  "advances build rows st st' \<longleftrightarrow>
     (\<exists>chunks. [] \<notin> set chunks \<and> run_segments st' = run_segments st @ map build chunks \<and>
        concat chunks @ run_buffer st' = run_buffer st @ rows) \<and>
     run_rows_consumed st' = run_rows_consumed st + length rows \<and>
     cs_poisoned (run_store st') = cs_poisoned (run_store st)"

lemma advances_trans:
  assumes "advances build xs a b" and "advances build ys b c"
  shows "advances build (xs @ ys) a c"
proof -
  obtain u v where u: "[] \<notin> set u" "run_segments b = run_segments a @ map build u" "concat u @ run_buffer b = run_buffer a @ xs"
    and v: "[] \<notin> set v" "run_segments c = run_segments b @ map build v" "concat v @ run_buffer c = run_buffer b @ ys"
    using assms by (auto simp: advances_def)
  have "concat (u @ v) @ run_buffer c = run_buffer a @ xs @ ys" using u(3) v(3) by (metis append_assoc concat_append)
  then show ?thesis using assms u(1,2) v(1,2) unfolding advances_def by (intro conjI exI [of _ "u @ v"]) auto
qed

lemma advances_same:
  "run_segments st' = run_segments st \<Longrightarrow> run_buffer st' = run_buffer st \<Longrightarrow> run_rows_consumed st' = run_rows_consumed st \<Longrightarrow>
     cs_poisoned (run_store st') = cs_poisoned (run_store st) \<Longrightarrow> advances build [] st st'"
  unfolding advances_def by (intro conjI exI [of _ "[]"]) auto

lemma flush_ok:
  assumes "builds env build"
  shows "\<exists>st'. task_flush env st = (Ok (), st') \<and> advances build [] st st' \<and> run_buffer st' = []"
proof (cases "run_buffer st = []")
  case True
  then show ?thesis by (auto simp: task_flush_def intro: advances_same)
next
  case False
  let ?st = "st\<lparr>run_buffer := [], run_segments := run_segments st @ [build (run_buffer st)]\<rparr>"
  have "advances build [] st ?st" unfolding advances_def using False by (intro conjI exI [of _ "[run_buffer st]"]) auto
  then show ?thesis using assms False by (simp add: task_flush_def builds_def)
qed

lemma persist_ok:
  assumes "\<not> cs_poisoned (run_store st)"
  shows "\<exists>st'. task_persist spec st = (Ok (), st') \<and> advances build [] st st' \<and> run_buffer st' = run_buffer st \<and>
    run_checkpoint st' = run_checkpoint st \<and> map_of (cs_inner (run_store st')) (ts_task_id spec) = Some (run_checkpoint st)"
  using assms by (auto simp: task_persist_def store_save_def map_of_bt_insert intro: advances_same)

lemma after_record_ok:
  assumes "builds env build" and "\<not> cs_poisoned (run_store st)"
  shows "\<exists>st'. after_record env spec tp n st = (Ok (), st') \<and> advances build [] st st'"
proof -
  define st0 where "st0 = st\<lparr>run_checkpoint := checkpoint_record tp n (run_checkpoint st)\<rparr>"
  have a0: "advances build [] st st0" by (auto simp: st0_def intro: advances_same)
  obtain st1 where s1: "(if ts_max_rows_per_segment spec \<le> length (run_buffer st0) then task_flush env st0 else (Ok (), st0)) = (Ok (), st1)"
    "advances build [] st0 st1"
    using flush_ok [OF assms(1), of st0] advances_same [of st0 st0 build]
    by (cases "ts_max_rows_per_segment spec \<le> length (run_buffer st0)") auto
  have np: "\<not> cs_poisoned (run_store st1)" using assms(2) a0 s1(2) by (simp add: advances_def)
  obtain st2 where s2: "task_persist spec st1 = (Ok (), st2)" "advances build [] st1 st2"
    using persist_ok [OF np, of spec build] by auto
  let ?st' = "if 0 < ts_checkpoint_every_rows spec \<and> ts_checkpoint_every_rows spec \<le> run_since_checkpoint st1 then st2\<lparr>run_since_checkpoint := 0\<rparr> else st1"
  have "advances build [] st1 ?st'" using s2(2) advances_same [of "st2\<lparr>run_since_checkpoint := 0\<rparr>" st2 build]
      advances_same [of st1 st1 build] advances_trans [of build "[]" st1 st2 "[]"] by auto
  then have "advances build [] st ?st'" using a0 s1(2) advances_trans [of build "[]" _ _ "[]"] by (metis append_Nil)
  moreover have "after_record env spec tp n st = (Ok (), ?st')"
    using s1(1) s2(1) unfolding after_record_def Let_def st0_def [symmetric] by simp
  ultimately show ?thesis by blast
qed

lemma record_step_ok:
  assumes "builds env build" and "\<not> cs_poisoned (run_store st)" and "readable env [(offset, payload)]"
  shows "\<exists>st'. record_step env spec tp offset payload st = (Ok (), st') \<and> advances build (rows_of env [(offset, payload)]) st st'"
proof (cases "parse_record env payload")
  case (Inl e)
  then have "env_policy env = SkipRecord" using assms(3) by (auto simp: readable_def)
  then show ?thesis using after_record_ok [OF assms(1,2)] Inl by (auto simp: record_step_def Let_def rows_of_def)
next
  case (Inr v)
  have "advances build [v] st (push_row v st)" unfolding advances_def by (intro conjI exI [of _ "[]"]) (auto simp: push_row_def)
  moreover obtain st' where "after_record env spec tp (wrapping_add offset 1) (push_row v st) = (Ok (), st')" "advances build [] (push_row v st) st'"
    using after_record_ok [OF assms(1), of "push_row v st" spec tp "wrapping_add offset 1"] assms(2) by (auto simp: push_row_def)
  ultimately show ?thesis using Inr advances_trans [of build "[v]" st _ "[]" st'] by (auto simp: record_step_def Let_def rows_of_def)
qed

lemma consume_ok:
  assumes "builds env build" and "\<not> cs_poisoned (run_store st)" and "readable env recs"
  shows "\<exists>st'. consume env spec tp recs st = (Ok (), st') \<and> advances build (rows_of env recs) st st'"
  using assms(2,3)
proof (induction recs arbitrary: st)
  case Nil
  then show ?case by (auto simp: rows_of_def intro: advances_same)
next
  case (Cons x recs)
  obtain offset payload where x: "x = (offset, payload)" by fastforce
  have r: "readable env [x]" "readable env recs" using Cons.prems(2) by (auto simp: readable_def)
  obtain st1 where s1: "record_step env spec tp offset payload st = (Ok (), st1)" "advances build (rows_of env [x]) st st1"
    using record_step_ok [OF assms(1) Cons.prems(1)] r(1) x by metis
  then have "\<not> cs_poisoned (run_store st1)" using Cons.prems(1) by (simp add: advances_def)
  then obtain st2 where "consume env spec tp recs st1 = (Ok (), st2)" "advances build (rows_of env recs) st1 st2"
    using Cons.IH r(2) by blast
  then show ?case using s1 advances_trans rows_of_append [of env "[x]" recs] by (fastforce simp: x)
qed


section \<open>A whole run\<close>

lemma resume_offset_cp_le: "cp_le tp cp (resume_offset tp r cp)" "range_start r \<le> resume_offset tp r cp"
  by (auto simp: cp_le_def resume_offset_def split: option.splits)

lemma settle_fields:
  "run_segments (settle tp r lo recs st) = run_segments st" "run_buffer (settle tp r lo recs st) = run_buffer st"
  "run_rows_consumed (settle tp r lo recs st) = run_rows_consumed st" "run_store (settle tp r lo recs st) = run_store st"
  by (auto simp: settle_def split: option.splits)

lemma settle_checkpoint:
  "run_checkpoint (settle tp r lo recs st) =
     (case range_end r of
        Some e \<Rightarrow> if lo < e \<and> (\<exists>(offset, _) \<in> set recs. e \<le> offset) then checkpoint_record tp e (run_checkpoint st) else run_checkpoint st
      | None \<Rightarrow> run_checkpoint st)"
  by (auto simp: settle_def split: option.splits)

lemma checkpoint_le_record: "cp_le tp cp n \<Longrightarrow> map_of (checkpoint_record tp n cp) tp = Some n"
  by (auto simp: checkpoint_record_get cp_le_def split: option.splits)

context record_source
begin

text \<open>Where a partition stands after it was consumed: nothing of its range is left, and the next offset has not
  passed any record that could still come.\<close>

lemma partition_done:
  assumes "known tp" and "bt_wf (run_checkpoint st)"
    and "consume env spec tp (window r (resume_offset tp r (run_checkpoint st)) (avail tp)) st = (Ok (), st1)"
  defines "st' \<equiv> settle tp r (resume_offset tp r (run_checkpoint st)) (avail tp) st1"
  shows "bt_wf (run_checkpoint st')" and "tp' \<noteq> tp \<Longrightarrow> map_of (run_checkpoint st') tp' = map_of (run_checkpoint st) tp'"
    and "window r (resume_offset tp r (run_checkpoint st')) (avail tp) = []"
    and "resume_offset tp r (run_checkpoint st) \<le> resume_offset tp r (run_checkpoint st')"
    and "high tp \<le> offset \<Longrightarrow> range_contains r offset \<Longrightarrow> resume_offset tp r (run_checkpoint st) \<le> offset \<Longrightarrow>
      resume_offset tp r (run_checkpoint st') \<le> offset"
proof -
  define lo where "lo = resume_offset tp r (run_checkpoint st)"
  define W where "W = window r lo (avail tp)"
  have W64: "in_i64 (fst x + 1) \<and> fst x < high tp \<and> lo \<le> fst x \<and> range_contains r (fst x)" if "x \<in> set W" for x
    using that bounded [OF assms(1), of x] by (auto simp: W_def window_def)
  have cp1: "run_checkpoint st1 = fold (\<lambda>x. checkpoint_record tp (fst x + 1)) W (run_checkpoint st)"
    using consume_checkpoint [OF assms(3)] W64 by (simp add: W_def lo_def)
  have srt: "sorted_wrt (<) (map fst W)"
    using ascending [OF assms(1)] by (auto simp: W_def window_def sorted_wrt_map intro: sorted_wrt_filter)
  have le: "cp_le tp (run_checkpoint st) lo" "range_start r \<le> lo" unfolding lo_def by (rule resume_offset_cp_le)+
  have wf1: "bt_wf (run_checkpoint st1)" unfolding cp1 by (rule fold_checkpoint_wf [OF assms(2)])
  show "bt_wf (run_checkpoint st')" using wf1 by (auto simp: st'_def settle_checkpoint split: option.splits)
  show "map_of (run_checkpoint st') tp' = map_of (run_checkpoint st) tp'" if "tp' \<noteq> tp"
    using that by (auto simp: st'_def settle_checkpoint checkpoint_record_get cp1 fold_checkpoint_other split: option.splits)
  define mid where "mid = (if W = [] then lo else fst (last W) + 1)"
  have last: "W \<noteq> [] \<Longrightarrow> fst (last W) < high tp \<and> lo \<le> fst (last W) \<and> range_contains r (fst (last W))" using W64 by simp
  have mid: "resume_offset tp r (run_checkpoint st1) = mid" "cp_le tp (run_checkpoint st1) mid" "lo \<le> mid"
  proof -
    show "lo \<le> mid" using last by (auto simp: mid_def)
    have "cp_le tp (run_checkpoint st) (fst (hd W))" if "W \<noteq> []"
      using le(1) W64 [of "hd W"] that by (auto simp: cp_le_def split: option.splits)
    then have at: "W \<noteq> [] \<Longrightarrow> map_of (run_checkpoint st1) tp = Some (fst (last W) + 1)"
      unfolding cp1 by (intro fold_checkpoint_last [OF srt])
    have none: "W = [] \<Longrightarrow> run_checkpoint st1 = run_checkpoint st" by (simp add: cp1)
    show "resume_offset tp r (run_checkpoint st1) = mid"
      using at none last le(2) by (cases "W = []") (auto simp: mid_def lo_def [symmetric], auto simp: resume_offset_def)
    show "cp_le tp (run_checkpoint st1) mid" using at none le(1) by (cases "W = []") (auto simp: mid_def cp_le_def)
  qed
  have after_mid: "x \<in> set (avail tp) \<Longrightarrow> range_contains r (fst x) \<Longrightarrow> fst x < mid \<or> fst x < lo" for x
  proof (rule ccontr)
    assume x: "x \<in> set (avail tp)" "range_contains r (fst x)" "\<not> (fst x < mid \<or> fst x < lo)"
    then have "x \<in> set W" by (auto simp: W_def window_def)
    then have "W \<noteq> []" "fst x \<le> fst (last W)"
      using srt by (auto simp: in_set_conv_decomp sorted_wrt_append last_append) (metis last_in_set less_imp_le fst_conv image_eqI list.set_map)
    then show False using x(3) by (simp add: mid_def)
  qed
  consider (stay) "resume_offset tp r (run_checkpoint st') = mid"
    | (bump) e where "range_end r = Some e" "\<exists>x \<in> set (avail tp). e \<le> fst x" "resume_offset tp r (run_checkpoint st') = e" "mid \<le> e"
  proof (cases "range_end r")
    case None
    then show ?thesis using stay mid(1) by (simp add: st'_def settle_def)
  next
    case (Some e)
    show ?thesis
    proof (cases "lo < e \<and> (\<exists>(offset, _) \<in> set (avail tp). e \<le> offset)")
      case True
      have me: "mid \<le> e" using True last Some by (auto simp: mid_def range_contains_def split: if_splits)
      then have "cp_le tp (run_checkpoint st1) e" using mid(2) by (auto simp: cp_le_def split: option.splits)
      then have "map_of (run_checkpoint st') tp = Some e"
        using True Some by (simp add: st'_def settle_checkpoint lo_def checkpoint_le_record)
      then have "resume_offset tp r (run_checkpoint st') = e" using True le(2) by (simp add: resume_offset_def)
      moreover have "\<exists>x \<in> set (avail tp). e \<le> fst x" using True by force
      ultimately show ?thesis using bump [OF Some _ _ me] by blast
    next
      case False
      then have "run_checkpoint st' = run_checkpoint st1" using Some by (auto simp: st'_def settle_checkpoint lo_def)
      then show ?thesis using stay mid(1) by simp
    qed
  qed
  note cases = this
  show "window r (resume_offset tp r (run_checkpoint st')) (avail tp) = []"
    using cases
  proof cases
    case stay
    have "x \<notin> set (avail tp) \<or> \<not> range_contains r (fst x)" if "mid \<le> fst x" for x using after_mid [of x] that mid(3) by force
    then show ?thesis unfolding stay by (auto simp: window_def filter_empty_conv)
  next
    case (bump e)
    then show ?thesis by (auto simp: window_def filter_empty_conv range_contains_def split: if_splits option.splits)
  qed
  show "resume_offset tp r (run_checkpoint st) \<le> resume_offset tp r (run_checkpoint st')"
    using cases mid(3) unfolding lo_def by cases auto
  show "resume_offset tp r (run_checkpoint st') \<le> offset"
    if "high tp \<le> offset" "range_contains r offset" "resume_offset tp r (run_checkpoint st) \<le> offset"
    using cases
  proof cases
    case stay
    then show ?thesis using that last by (auto simp: mid_def lo_def split: if_splits)
  next
    case (bump e)
    then show ?thesis using that(1,2) bounded [OF assms(1)] by (auto simp: range_contains_def split: if_splits) (smt (verit) fst_conv)
  qed
qed

end


context record_source
begin

definition assigned_rows :: "'seg task_env \<Rightarrow> checkpoint \<Rightarrow> topic_partition \<times> offset_range \<Rightarrow> (int \<times> byte list) list" where
  "assigned_rows env cp e = window (snd e) (resume_offset (fst e) (snd e) cp) (avail (fst e))"

text \<open>Where a checkpoint stands with respect to an assignment and an earlier checkpoint.\<close>

definition caught_up :: "checkpoint \<Rightarrow> checkpoint \<Rightarrow> topic_partition \<times> offset_range \<Rightarrow> bool" where
  "caught_up cp cp' e \<longleftrightarrow>
     window (snd e) (resume_offset (fst e) (snd e) cp') (avail (fst e)) = [] \<and>
     resume_offset (fst e) (snd e) cp \<le> resume_offset (fst e) (snd e) cp' \<and>
     (\<forall>offset \<ge> high (fst e). range_contains (snd e) offset \<longrightarrow> resume_offset (fst e) (snd e) cp \<le> offset \<longrightarrow>
        resume_offset (fst e) (snd e) cp' \<le> offset)"

lemma resume_offset_cong: "map_of cp tp = map_of cp' tp \<Longrightarrow> resume_offset tp r cp = resume_offset tp r cp'"
  by (simp add: resume_offset_def)

lemma assignment_loop_ok:
  assumes "env_source env = ops" and "builds env build"
  shows "distinct (map fst ranges) \<Longrightarrow> (\<And>e. e \<in> set ranges \<Longrightarrow> known (fst e) \<and> readable env (avail (fst e))) \<Longrightarrow>
    bt_wf (run_checkpoint st) \<Longrightarrow> \<not> cs_poisoned (run_store st) \<Longrightarrow>
    \<exists>st'. assignment_loop env spec ranges st = Some (Ok (), st') \<and>
      advances build (concat (map (\<lambda>e. rows_of env (assigned_rows env (run_checkpoint st) e)) ranges)) st st' \<and>
      bt_wf (run_checkpoint st') \<and> (\<forall>e \<in> set ranges. caught_up (run_checkpoint st) (run_checkpoint st') e) \<and>
      (\<forall>tp. tp \<notin> fst ` set ranges \<longrightarrow> map_of (run_checkpoint st') tp = map_of (run_checkpoint st) tp)"
proof (induction ranges arbitrary: st)
  case Nil
  then show ?case by (auto intro: advances_same)
next
  case (Cons e ranges)
  obtain tp r where e: "e = (tp, r)" by fastforce
  have tp: "known tp" "readable env (avail tp)" using Cons.prems(2) [of e] by (auto simp: e)
  let ?lo = "resume_offset tp r (run_checkpoint st)"
  have "readable env (window r ?lo (avail tp))" using tp(2) by (auto simp: readable_def window_def)
  then obtain st1 where st1: "consume env spec tp (window r ?lo (avail tp)) st = (Ok (), st1)"
    "advances build (rows_of env (window r ?lo (avail tp))) st st1"
    using consume_ok [OF assms(2) Cons.prems(4)] by blast
  define st2 where "st2 = settle tp r ?lo (avail tp) st1"
  note fin = partition_done [OF tp(1) Cons.prems(3) st1(1), folded st2_def]
  have loop: "partition_loop env spec tp r (high tp) ?lo st = Some (Ok (), st2)"
    using partition_loop_total [OF tp(1) assms(1) resume_offset_cp_le(2) Cons.prems(3) resume_offset_cp_le(1)] st1(1) by (simp add: st2_def)
  have adv: "advances build (rows_of env (window r ?lo (avail tp))) st st2"
    using st1(2) by (simp add: advances_def st2_def settle_fields)
  have "\<not> cs_poisoned (run_store st2)" using adv Cons.prems(4) by (simp add: advances_def)
  then obtain st' where st': "assignment_loop env spec ranges st2 = Some (Ok (), st')"
    "advances build (concat (map (\<lambda>e. rows_of env (assigned_rows env (run_checkpoint st2) e)) ranges)) st2 st'"
    "bt_wf (run_checkpoint st')" "\<forall>e \<in> set ranges. caught_up (run_checkpoint st2) (run_checkpoint st') e"
    "\<forall>tp. tp \<notin> fst ` set ranges \<longrightarrow> map_of (run_checkpoint st') tp = map_of (run_checkpoint st2) tp"
    using Cons.IH [of st2] Cons.prems(1,2) fin(1) by auto
  have other: "resume_offset (fst d) (snd d) (run_checkpoint st2) = resume_offset (fst d) (snd d) (run_checkpoint st)" if "d \<in> set ranges" for d
    using that Cons.prems(1) fin(2) [of "fst d"] by (intro resume_offset_cong) (auto simp: e)
  have here: "resume_offset tp r (run_checkpoint st') = resume_offset tp r (run_checkpoint st2)"
    using st'(5) Cons.prems(1) by (intro resume_offset_cong) (auto simp: e)
  have "caught_up (run_checkpoint st) (run_checkpoint st') d" if "d \<in> set (e # ranges)" for d
  proof (cases "d \<in> set ranges")
    case True
    then show ?thesis using bspec [OF st'(4) True] other [OF True] by (simp add: caught_up_def)
  next
    case False
    then have "d = (tp, r)" using that e by simp
    then show ?thesis using fin(3,4,5) by (simp add: caught_up_def here)
  qed
  moreover have "advances build (rows_of env (window r ?lo (avail tp)) @ concat (map (\<lambda>e. rows_of env (assigned_rows env (run_checkpoint st) e)) ranges)) st st'"
  proof -
    have "map (\<lambda>e. rows_of env (assigned_rows env (run_checkpoint st2) e)) ranges = map (\<lambda>e. rows_of env (assigned_rows env (run_checkpoint st) e)) ranges"
      using other by (auto simp: assigned_rows_def)
    then show ?thesis using advances_trans [OF adv st'(2)] by (simp only:)
  qed
  moreover have "assignment_loop env spec (e # ranges) st = Some (Ok (), st')"
    using st'(1) loop watermark [OF tp(1)] by (simp add: e assms(1))
  moreover have "map_of (run_checkpoint st') tp' = map_of (run_checkpoint st) tp'" if "tp' \<notin> fst ` set (e # ranges)" for tp'
    using that st'(5) fin(2) [of tp'] by (simp add: e)
  ultimately show ?case using st'(3) by (simp add: e assigned_rows_def [of env _ "(tp, r)"])
qed

lemma run_ok:
  assumes "env_source env = ops" and "builds env build" and "bt_wf (ts_assignment spec)"
    and "\<And>e. e \<in> set (ts_assignment spec) \<Longrightarrow> known (fst e) \<and> readable env (avail (fst e))"
    and "\<not> cs_poisoned store" and "map_of (cs_inner store) (ts_task_id spec) = cp0" and "cp = (case cp0 of Some c \<Rightarrow> c | None \<Rightarrow> [])" and "bt_wf cp"
  shows "\<exists>rep store' chunks. run_task env spec store = Some (Ok rep, store') \<and> [] \<notin> set chunks \<and> rep_segments rep = map build chunks \<and>
    concat chunks = concat (map (\<lambda>e. rows_of env (assigned_rows env cp e)) (ts_assignment spec)) \<and>
    rep_rows_consumed rep = length (concat chunks) \<and> bt_wf (rep_final_offsets rep) \<and>
    (\<forall>e \<in> set (ts_assignment spec). caught_up cp (rep_final_offsets rep) e) \<and>
    \<not> cs_poisoned store' \<and> map_of (cs_inner store') (ts_task_id spec) = Some (rep_final_offsets rep)"
proof -
  define st where "st = \<lparr>run_checkpoint = cp, run_rows_consumed = 0, run_segments = [] :: 'a list, run_buffer = [], run_since_checkpoint = 0, run_store = store\<rparr>"
  have st: "run_checkpoint st = cp" "run_store st = store" "run_segments st = []" "run_buffer st = []" "run_rows_consumed st = 0"
    by (simp_all add: st_def)
  let ?rows = "concat (map (\<lambda>e. rows_of env (assigned_rows env cp e)) (ts_assignment spec))"
  obtain st1 where s1: "assignment_loop env spec (ts_assignment spec) st = Some (Ok (), st1)" "advances build ?rows st st1"
    "bt_wf (run_checkpoint st1)" "\<forall>e \<in> set (ts_assignment spec). caught_up cp (run_checkpoint st1) e"
    using assignment_loop_ok [OF assms(1,2) bt_wf_distinct [OF assms(3)] assms(4), of st spec] assms(5,8) unfolding st by metis
  obtain st2 where s2: "task_flush env st1 = (Ok (), st2)" "advances build [] st1 st2" "run_buffer st2 = []"
    using flush_ok [OF assms(2)] by blast
  have cp2: "run_checkpoint st2 = run_checkpoint st1" using flush_checkpoint [of env st1] s2(1) by simp
  have "\<not> cs_poisoned (run_store st2)" using s1(2) s2(2) assms(5) by (simp add: advances_def st)
  from persist_ok [OF this, of spec build] obtain st3 where s3: "task_persist spec st2 = (Ok (), st3)" "advances build [] st2 st3"
    "run_buffer st3 = []" "run_checkpoint st3 = run_checkpoint st1"
    "map_of (cs_inner (run_store st3)) (ts_task_id spec) = Some (run_checkpoint st1)"
    using s2(3) cp2 by auto
  have "advances build ?rows st st3"
    using advances_trans [OF advances_trans [OF s1(2) s2(2)] s3(2)] by simp
  then obtain chunks where c: "[] \<notin> set chunks" "run_segments st3 = map build chunks" "concat chunks = ?rows"
    "run_rows_consumed st3 = length (concat chunks)" "\<not> cs_poisoned (run_store st3)"
    using s3(3) assms(5) unfolding advances_def st by auto
  have run: "run_task env spec store = Some (Ok \<lparr>rep_rows_consumed = run_rows_consumed st3, rep_segments = run_segments st3,
      rep_final_offsets = run_checkpoint st3\<rparr>, run_store st3)"
    using assms(5,6,7) s1(1) s2(1) s3(1) unfolding run_task_def store_load_def Let_def st_def by (auto split: option.splits)
  show ?thesis
    by (rule exI, rule exI [of _ "run_store st3"], rule exI [of _ chunks], intro conjI, rule run)
      (use c s1(3,4) s3(4,5) in \<open>simp_all only: task_report.simps not_False_eq_True\<close>)
qed

end


section \<open>The in-memory source\<close>

definition log_avail :: "partition_log \<Rightarrow> (int \<times> byte list) list" where
  "log_avail l = map (\<lambda>i. (log_base_offset l + int i, snd (log_records l ! i))) [0..<length (log_records l)]"

definition mem_avail :: "mem_source \<Rightarrow> topic_partition \<Rightarrow> (int \<times> byte list) list" where
  "mem_avail src tp = (case map_of src tp of Some l \<Rightarrow> log_avail l | None \<Rightarrow> [])"

definition mem_high :: "mem_source \<Rightarrow> topic_partition \<Rightarrow> int" where
  "mem_high src tp = (case map_of src tp of Some l \<Rightarrow> log_high l | None \<Rightarrow> 0)"

definition mem_known :: "mem_source \<Rightarrow> topic_partition \<Rightarrow> bool" where
  "mem_known src tp = (case map_of src tp of Some l \<Rightarrow> in_i64 (log_base_offset l) \<and> in_i64 (log_high l) | None \<Rightarrow> False)"

lemma log_avail_sorted: "sorted_wrt (<) (map fst (log_avail l))"
  by (auto simp: log_avail_def sorted_wrt_map comp_def intro: sorted_wrt_mono_rel [OF _ sorted_wrt_upt])

lemma log_avail_drop: "log_base_offset l \<le> offset \<Longrightarrow> filter (\<lambda>x. offset \<le> fst x) (log_avail l) = drop (nat (offset - log_base_offset l)) (log_avail l)"
proof -
  assume le: "log_base_offset l \<le> offset"
  let ?k = "nat (offset - log_base_offset l)" and ?n = "length (log_records l)"
  have "filter (\<lambda>i. ?k \<le> i) [0..<?n] = [?k..<?n]"
  proof (cases "?k \<le> ?n")
    case True
    then have "[0..<?n] = [0..<?k] @ [?k..<?n]" using upt_add_eq_append [of 0 ?k "?n - ?k"] by simp
    then show ?thesis by (auto simp: filter_empty_conv)
  qed (auto simp: filter_empty_conv)
  moreover have "offset \<le> log_base_offset l + int i \<longleftrightarrow> ?k \<le> i" for i using le by linarith
  ultimately show ?thesis by (simp add: log_avail_def filter_map comp_def drop_map drop_upt)
qed

lemma poll_loop_avail:
  "log_base_offset l \<le> offset \<Longrightarrow>
     \<exists>recs. poll_loop tp l n offset out = Ok (out @ recs) \<and>
       map rec_data recs = take (n - length out) (drop (nat (offset - log_base_offset l)) (log_avail l))"
proof (induction tp l n offset out rule: poll_loop.induct)
  case (1 tp l n offset out)
  let ?k = "nat (offset - log_base_offset l)"
  have len: "length (log_avail l) = length (log_records l)" by (simp add: log_avail_def)
  show ?case
  proof (cases "offset < log_high l \<and> length out < n")
    case True
    then have k: "?k < length (log_records l)" using "1.prems" by (auto simp: log_high_def)
    obtain ts payload where rec: "log_records l ! ?k = (ts, payload)" by fastforce
    let ?r = "\<lparr>rec_partition = tp, rec_offset = offset, rec_payload = payload, rec_timestamp_ms = ts\<rparr>"
    have ix: "index_at (log_records l) ?k = (Ok (ts, payload) :: (int option \<times> byte list, source_error) res)" using k rec by (simp add: index_at_def)
    obtain recs where recs: "poll_loop tp l n (offset + 1) (out @ [?r]) = Ok ((out @ [?r]) @ recs)"
      "map rec_data recs = take (n - length (out @ [?r])) (drop (nat (offset + 1 - log_base_offset l)) (log_avail l))"
      using "1.IH" [OF True ix refl] "1.prems" by auto
    have "log_avail l ! ?k = (offset, payload)" using k rec "1.prems" by (simp add: log_avail_def)
    then have "drop ?k (log_avail l) = (offset, payload) # drop (Suc ?k) (log_avail l)"
      using k by (metis Cons_nth_drop_Suc len)
    moreover have "nat (offset + 1 - log_base_offset l) = Suc ?k" using "1.prems" by linarith
    moreover have "n - length out = Suc (n - length (out @ [?r]))" using True by (simp add: Suc_diff_Suc)
    ultimately have "map rec_data (?r # recs) = take (n - length out) (drop ?k (log_avail l))"
      using recs(2) by (simp add: rec_data_def)
    moreover have "poll_loop tp l n offset out = Ok (out @ ?r # recs)"
      using True ix recs(1) by (subst poll_loop.simps) simp
    ultimately show ?thesis by blast
  next
    case False
    then have "take (n - length out) (drop ?k (log_avail l)) = []" using "1.prems" by (auto simp: log_high_def len)
    moreover have "poll_loop tp l n offset out = Ok out" using False by (subst poll_loop.simps) auto
    ultimately show ?thesis by simp
  qed
qed

lemma mem_poll_avail:
  assumes "mem_known src tp"
  shows "\<exists>recs. mem_poll src tp lo n = Ok recs \<and> map rec_data recs = take n (filter (\<lambda>x. lo \<le> fst x) (mem_avail src tp))"
proof -
  obtain l where l: "map_of src tp = Some l" using assms by (auto simp: mem_known_def split: option.splits)
  let ?lo = "max lo (log_base_offset l)"
  have "filter (\<lambda>x. lo \<le> fst x) (log_avail l) = filter (\<lambda>x. ?lo \<le> fst x) (log_avail l)"
    by (rule filter_cong) (auto simp: log_avail_def)
  then show ?thesis
    using poll_loop_avail [of l ?lo tp n "[]"] log_avail_drop [of l ?lo] by (auto simp: mem_poll_def mem_log_def l mem_avail_def)
qed

interpretation mem: record_source "mem_source_ops src" "mem_avail src" "mem_high src" "mem_known src" for src
proof
  fix tp lo n x
  assume k: "mem_known src tp"
  obtain l where l: "map_of src tp = Some l" "in_i64 (log_base_offset l)" "in_i64 (log_high l)"
    using k by (auto simp: mem_known_def split: option.splits)
  show "src_high_watermark (mem_source_ops src) tp = Ok (mem_high src tp)"
    by (simp add: mem_source_ops_def mem_high_watermark_def mem_log_def mem_high_def l)
  show "\<exists>recs. src_poll (mem_source_ops src) tp lo n = Ok recs \<and> map rec_data recs = take n (filter (\<lambda>x. lo \<le> fst x) (mem_avail src tp))"
    using mem_poll_avail [OF k] by (simp add: mem_source_ops_def)
  show "sorted_wrt (<) (map fst (mem_avail src tp))" by (simp add: mem_avail_def l log_avail_sorted)
  show "fst x < mem_high src tp \<and> in_i64 (fst x) \<and> in_i64 (fst x + 1)" if "x \<in> set (mem_avail src tp)"
    using that l by (auto simp: mem_avail_def log_avail_def mem_high_def log_high_def in_i64_def)
qed


text \<open>A log that has grown.\<close>

definition extends :: "mem_source \<Rightarrow> mem_source \<Rightarrow> topic_partition \<Rightarrow> bool" where
  "extends src src' tp \<longleftrightarrow>
     (\<exists>l more. map_of src tp = Some l \<and> map_of src' tp = Some (l\<lparr>log_records := log_records l @ more\<rparr>))"

lemma extends_avail:
  assumes "extends src src' tp"
  obtains new where "mem_avail src' tp = mem_avail src tp @ new" and "\<And>x. x \<in> set new \<Longrightarrow> mem_high src tp \<le> fst x"
proof -
  obtain l more where l: "map_of src tp = Some l" "map_of src' tp = Some (l\<lparr>log_records := log_records l @ more\<rparr>)"
    using assms by (auto simp: extends_def)
  let ?n = "length (log_records l)"
  let ?f = "\<lambda>i. (log_base_offset l + int i, snd ((log_records l @ more) ! i))"
  have "[0..<?n + length more] = [0..<?n] @ [?n..<?n + length more]" by (rule upt_add_eq_append) simp
  then have "mem_avail src' tp = map ?f [0..<?n] @ map ?f [?n..<?n + length more]" by (simp add: mem_avail_def l log_avail_def)
  moreover have "map ?f [0..<?n] = mem_avail src tp" by (simp add: mem_avail_def l log_avail_def nth_append)
  ultimately have "mem_avail src' tp = mem_avail src tp @ map ?f [?n..<?n + length more]" by simp
  moreover have "mem_high src tp \<le> fst x" if "x \<in> set (map ?f [?n..<?n + length more])" for x
    using that by (auto simp: mem_high_def l log_high_def)
  ultimately show thesis by (rule that)
qed

lemma readable_prefix: "readable env (xs @ ys) \<Longrightarrow> readable env xs"
  by (auto simp: readable_def)

lemma window_split:
  assumes "extends src src' tp" and "mem.caught_up src cp cp' (tp, r)"
  shows "window r (resume_offset tp r cp) (mem_avail src tp) @ window r (resume_offset tp r cp') (mem_avail src' tp) =
    window r (resume_offset tp r cp) (mem_avail src' tp)"
proof -
  obtain new where new: "mem_avail src' tp = mem_avail src tp @ new" "\<And>x. x \<in> set new \<Longrightarrow> mem_high src tp \<le> fst x"
    using extends_avail [OF assms(1)] by blast
  have c: "window r (resume_offset tp r cp') (mem_avail src tp) = []" "resume_offset tp r cp \<le> resume_offset tp r cp'"
    "\<And>offset. mem_high src tp \<le> offset \<Longrightarrow> range_contains r offset \<Longrightarrow> resume_offset tp r cp \<le> offset \<Longrightarrow> resume_offset tp r cp' \<le> offset"
    using assms(2) by (auto simp: mem.caught_up_def)
  have "window r (resume_offset tp r cp') new = window r (resume_offset tp r cp) new"
    unfolding window_def using c(2,3) new(2) by (intro filter_cong) force+
  then show ?thesis unfolding new(1) using c(1) by (simp add: window_def)
qed

lemma parse_record_source [simp]: "parse_record (env\<lparr>env_source := s\<rparr>) payload = parse_record env payload"
  by (simp add: parse_record_def split: sum.splits fault.splits)

lemma rows_of_source [simp]: "rows_of (env\<lparr>env_source := s\<rparr>) recs = rows_of env recs"
  by (simp add: rows_of_def)

lemma readable_source [simp]: "readable (env\<lparr>env_source := s\<rparr>) recs = readable env recs"
  by (simp add: readable_def)

lemma builds_source [simp]: "builds (env\<lparr>env_source := s\<rparr>) build = builds env build"
  by (simp add: builds_def)

section \<open>Properties\<close>

text \<open>C10: Restarting loses and repeats nothing. A run ends; run again after the partitions have grown, it resumes
  where the first one stopped: partition by partition, the rows of the first run followed by the rows of the
  second are the rows of the whole range, each once and in order. (The segment builder accepts the rows, malformed
  records are absent or skipped, the checkpoint store works.)\<close>

theorem restarts_consume_once:
  assumes "builds env build" and "bt_wf (ts_assignment spec)" and "\<not> cs_poisoned store"
    and "map_of (cs_inner store) (ts_task_id spec) = Some cp" and "bt_wf cp"
    and "\<And>e. e \<in> set (ts_assignment spec) \<Longrightarrow>
      mem_known src (fst e) \<and> mem_known src' (fst e) \<and> extends src src' (fst e) \<and> readable env (mem_avail src' (fst e))"
  shows "\<exists>rep1 store1 rep2 store2 chunks1 chunks2 rows1 rows2.
    run_task (env\<lparr>env_source := mem_source_ops src\<rparr>) spec store = Some (Ok rep1, store1) \<and>
    run_task (env\<lparr>env_source := mem_source_ops src'\<rparr>) spec store1 = Some (Ok rep2, store2) \<and>
    rep_segments rep1 = map build chunks1 \<and> concat chunks1 = concat (map rows1 (ts_assignment spec)) \<and>
    rep_segments rep2 = map build chunks2 \<and> concat chunks2 = concat (map rows2 (ts_assignment spec)) \<and>
    (\<forall>(tp, r) \<in> set (ts_assignment spec). rows1 (tp, r) @ rows2 (tp, r) = rows_of env (window r (resume_offset tp r cp) (mem_avail src' tp)))"
proof -
  let ?env1 = "env\<lparr>env_source := mem_source_ops src\<rparr>" and ?env2 = "env\<lparr>env_source := mem_source_ops src'\<rparr>"
  have k1: "mem_known src (fst e) \<and> readable ?env1 (mem_avail src (fst e))" if "e \<in> set (ts_assignment spec)" for e
  proof -
    have "extends src src' (fst e)" using assms(6) [OF that] by simp
    then obtain new where "mem_avail src' (fst e) = mem_avail src (fst e) @ new" using extends_avail by metis
    then show ?thesis using assms(6) [OF that] readable_prefix by auto
  qed
  have k2: "mem_known src' (fst e) \<and> readable ?env2 (mem_avail src' (fst e))" if "e \<in> set (ts_assignment spec)" for e
    using assms(6) [OF that] by simp
  have b: "builds ?env1 build" "builds ?env2 build" using assms(1) by simp_all
  obtain rep1 store1 chunks1 where r1: "run_task ?env1 spec store = Some (Ok rep1, store1)" "rep_segments rep1 = map build chunks1"
    "concat chunks1 = concat (map (\<lambda>e. rows_of env (mem.assigned_rows src ?env1 cp e)) (ts_assignment spec))"
    "bt_wf (rep_final_offsets rep1)" "\<forall>e \<in> set (ts_assignment spec). mem.caught_up src cp (rep_final_offsets rep1) e"
    "\<not> cs_poisoned store1" "map_of (cs_inner store1) (ts_task_id spec) = Some (rep_final_offsets rep1)"
    using mem.run_ok [of ?env1 src build spec store "Some cp" cp, OF _ b(1) assms(2) k1 assms(3,4) _ assms(5)] by auto
  obtain rep2 store2 chunks2 where r2: "run_task ?env2 spec store1 = Some (Ok rep2, store2)" "rep_segments rep2 = map build chunks2"
    "concat chunks2 = concat (map (\<lambda>e. rows_of env (mem.assigned_rows src' ?env2 (rep_final_offsets rep1) e)) (ts_assignment spec))"
    using mem.run_ok [of ?env2 src' build spec store1 "Some (rep_final_offsets rep1)", OF _ b(2) assms(2) k2 r1(6,7) _ r1(4)] by auto
  have "rows_of env (mem.assigned_rows src ?env1 cp (tp, r)) @ rows_of env (mem.assigned_rows src' ?env2 (rep_final_offsets rep1) (tp, r)) =
      rows_of env (window r (resume_offset tp r cp) (mem_avail src' tp))" if "(tp, r) \<in> set (ts_assignment spec)" for tp r
  proof -
    have "extends src src' tp" using assms(6) [OF that] by simp
    from window_split [OF this, of cp "rep_final_offsets rep1" r] show ?thesis
      using bspec [OF r1(5) that] by (metis mem.assigned_rows_def fst_conv snd_conv rows_of_append)
  qed
  with r1(1-3) r2 show ?thesis by blast
qed


definition test_task_env :: "json list task_env" where
  "test_task_env = \<lparr>env_source = mem_source_ops [], env_policy = FailTask,
     env_from_slice = (\<lambda>bytes. if bytes = [] then Inl ''EOF'' else Inr JNull), env_ingest = Inr\<rparr>"

definition test_spec :: task_spec where
  "test_spec = \<lparr>ts_task_id = ''t'', ts_max_rows_per_segment = 1000, ts_checkpoint_every_rows = 1,
     ts_assignment = [(TopicPartition ''w'' 0, open_range 0)]\<rparr>"

definition test_log :: "byte list list \<Rightarrow> mem_source" where
  "test_log payloads = [(TopicPartition ''w'' 0, \<lparr>log_records = map (Pair None) payloads, log_base_offset = 0\<rparr>)]"

lemma test_log_avail:
  "mem_avail (test_log ps) (TopicPartition ''w'' 0) = map (\<lambda>i. (int i, ps ! i)) [0..<length ps]"
  "mem_known (test_log ps) (TopicPartition ''w'' 0) \<longleftrightarrow> length ps < 2 ^ 63"
  by (auto simp: mem_avail_def test_log_def log_avail_def mem_known_def log_high_def in_i64_def)

lemma test_parse: "parse_record test_task_env [48] = Ok JNull"
  by (simp add: parse_record_def test_task_env_def check_record_bounds_def MAX_RECORD_PAYLOAD_BYTES_def)

theorem restarts_consume_once_witness:
  "\<exists>rep1 store1 rep2 store2.
     run_task (test_task_env\<lparr>env_source := mem_source_ops (test_log [[48]])\<rparr>) test_spec \<lparr>cs_poisoned = False, cs_inner = [(''t'', [])]\<rparr> = Some (Ok rep1, store1) \<and>
     run_task (test_task_env\<lparr>env_source := mem_source_ops (test_log [[48], [48]])\<rparr>) test_spec store1 = Some (Ok rep2, store2)"
proof -
  have b: "builds test_task_env id" by (simp add: builds_def test_task_env_def)
  have ext: "extends (test_log [[48]]) (test_log [[48], [48]]) (TopicPartition ''w'' 0)"
    unfolding extends_def test_log_def by (intro exI [of _ "[(None, [48])]"] exI) auto
  have rd: "readable test_task_env (mem_avail (test_log [[48], [48]]) (TopicPartition ''w'' 0))"
    by (auto simp: readable_def test_log_avail test_parse nth_Cons' less_Suc_eq_0_disj)
  show ?thesis
    using restarts_consume_once [OF b, of test_spec "\<lparr>cs_poisoned = False, cs_inner = [(''t'', [])]\<rparr>" "[]" "test_log [[48]]" "test_log [[48], [48]]"]
      ext rd by (auto simp: test_spec_def test_log_avail bt_wf_def)
qed

text \<open>With a checkpoint after every row and a buffer that does not fill, each row moves the checkpoint only.\<close>

lemma consume_unflushed:
  assumes "ts_checkpoint_every_rows spec = 1" and "length (run_buffer st) + length recs < ts_max_rows_per_segment spec"
    and "\<And>x. x \<in> set recs \<Longrightarrow> \<exists>v. parse_record env (snd x) = Inr v" and "\<not> cs_poisoned (run_store st)"
    and "recs = [] \<Longrightarrow> map_of (cs_inner (run_store st)) (ts_task_id spec) = Some (run_checkpoint st)"
  shows "\<exists>st'. consume env spec tp recs st = (Ok (), st') \<and> run_segments st' = run_segments st \<and>
    map_of (cs_inner (run_store st')) (ts_task_id spec) = Some (run_checkpoint st')"
  using assms(2-5)
proof (induction recs arbitrary: st)
  case (Cons x recs)
  obtain offset payload where x: "x = (offset, payload)" by fastforce
  obtain v where v: "parse_record env payload = Inr v" using Cons.prems(2) [of x] x by auto
  let ?cp = "checkpoint_record tp (wrapping_add offset 1) (run_checkpoint st)"
  let ?store = "(run_store st)\<lparr>cs_inner := bt_insert (ts_task_id spec) ?cp (cs_inner (run_store st))\<rparr>"
  define st1 where "st1 = (push_row v st)\<lparr>run_checkpoint := ?cp, run_store := ?store, run_since_checkpoint := 0\<rparr>"
  have step: "record_step env spec tp offset payload st = (Ok (), st1)"
    using v Cons.prems(1,3) assms(1)
    by (simp add: record_step_def after_record_def Let_def push_row_def task_persist_def store_save_def st1_def)
  have "\<exists>st'. consume env spec tp recs st1 = (Ok (), st') \<and> run_segments st' = run_segments st1 \<and>
      map_of (cs_inner (run_store st')) (ts_task_id spec) = Some (run_checkpoint st')"
    using Cons.prems by (intro Cons.IH) (auto simp: st1_def push_row_def map_of_bt_insert)
  moreover have "run_segments st1 = run_segments st" by (simp add: st1_def push_row_def)
  ultimately show ?case using step by (simp add: x)
qed auto

text \<open>C38: A failed run loses the rows before the bad record: they were counted as consumed by the periodic
  checkpoint while they were still in the buffer, the run returns no segment, and the next run resumes at the bad
  record. (One partition, a checkpoint after every row, fewer rows than fill a segment, malformed records fail the task.)\<close>

theorem failed_run_loses_rows:
  assumes "ts_assignment spec = [(tp, open_range 0)]" and "ts_checkpoint_every_rows spec = 1"
    and "length goods < ts_max_rows_per_segment spec" and "goods \<noteq> []" and "length goods < 2 ^ 62"
    and "env_source env = mem_source_ops [(tp, \<lparr>log_records = map (Pair None) (goods @ [bad]), log_base_offset = 0\<rparr>)]"
    and "env_policy env = FailTask" and "\<And>p. p \<in> set goods \<Longrightarrow> \<exists>v. parse_record env p = Inr v" and "parse_record env bad = fail e"
    and "\<not> cs_poisoned store" and "map_of (cs_inner store) (ts_task_id spec) = None"
  shows "\<exists>err store' cp. run_task env spec store = Some (Inl err, store') \<and>
    map_of (cs_inner store') (ts_task_id spec) = Some cp \<and> resume_offset tp (open_range 0) cp = int (length goods)"
proof -
  let ?src = "[(tp, \<lparr>log_records = map (Pair None) (goods @ [bad]), log_base_offset = 0\<rparr>)] :: mem_source"
  let ?n = "length goods"
  define recs where "recs = map (\<lambda>i. (int i, goods ! i)) [0..<?n]"
  have avail: "mem_avail ?src tp = recs @ [(int ?n, bad)]" by (simp add: mem_avail_def log_avail_def recs_def nth_append)
  have known: "mem_known ?src tp" using assms(5) by (simp add: mem_known_def log_high_def in_i64_def)
  have win: "window (open_range 0) 0 (mem_avail ?src tp) = recs @ [(int ?n, bad)]"
    unfolding avail window_def by (rule filter_True) (auto simp: recs_def range_contains_def open_range_def)
  define st where "st = \<lparr>run_checkpoint = [], run_rows_consumed = 0, run_segments = [] :: 'a list, run_buffer = [], run_since_checkpoint = 0, run_store = store\<rparr>"
  obtain st1 where st1: "consume env spec tp recs st = (Ok (), st1)" "map_of (cs_inner (run_store st1)) (ts_task_id spec) = Some (run_checkpoint st1)"
  proof -
    have rd: "\<exists>v. parse_record env (snd x) = Inr v" if "x \<in> set recs" for x using that assms(8) by (auto simp: recs_def)
    have "length (run_buffer st) + length recs < ts_max_rows_per_segment spec" "\<not> cs_poisoned (run_store st)" "recs \<noteq> []"
      using assms(3,4,10) by (simp_all add: st_def recs_def)
    then show thesis using consume_unflushed [OF assms(2) _ rd, of st] that by blast
  qed
  have ne: "recs \<noteq> []" using assms(4) by (simp add: recs_def)
  have lst: "fst (last recs) + 1 = int ?n" using assms(4) by (simp add: recs_def last_map of_nat_diff Suc_leI)
  have srt: "sorted_wrt (<) (map fst recs)" by (auto simp: recs_def sorted_wrt_map comp_def intro: sorted_wrt_mono_rel [OF _ sorted_wrt_upt])
  have "run_checkpoint st1 = fold (\<lambda>x. checkpoint_record tp (fst x + 1)) recs []"
  proof -
    have "in_i64 (fst x + 1)" if "x \<in> set recs" for x using that assms(5) by (auto simp: recs_def in_i64_def)
    then show ?thesis using consume_checkpoint [OF st1(1)] by (simp add: st_def)
  qed
  then have "map_of (run_checkpoint st1) tp = Some (int ?n)"
    using fold_checkpoint_last [OF srt ne, of tp "[]"] lst by (simp add: cp_le_def)
  then have res: "resume_offset tp (open_range 0) (run_checkpoint st1) = int ?n" by (simp add: resume_offset_def open_range_def)
  have "record_step env spec tp (int ?n) bad st1 = (Inl (map_bad tp (int ?n) (Err e)), st1)"
    using assms(7,9) by (simp add: record_step_def)
  then have "consume env spec tp (window (open_range 0) 0 (mem_avail ?src tp)) st = (Inl (map_bad tp (int ?n) (Err e)), st1)"
    unfolding win consume_append using st1(1) by simp
  then have loop: "partition_loop env spec tp (open_range 0) (mem_high ?src tp) 0 st = Some (Inl (map_bad tp (int ?n) (Err e)), st1)"
    using mem.partition_loop_total [OF known assms(6), of "open_range 0" 0 st spec] by (simp add: st_def open_range_def cp_le_def)
  have "resume_offset tp (open_range 0) (run_checkpoint st) = 0" by (simp add: st_def resume_offset_def open_range_def)
  then have "assignment_loop env spec (ts_assignment spec) st = Some (Inl (map_bad tp (int ?n) (Err e)), st1)"
    using loop mem.watermark [OF known] by (simp add: assms(1,6))
  then have "run_task env spec store = Some (Inl (map_bad tp (int ?n) (Err e)), run_store st1)"
    using assms(10,11) unfolding run_task_def store_load_def st_def by simp
  then show ?thesis using st1(2) res by blast
qed

theorem failed_run_loses_rows_witness:
  "\<exists>err store' cp. run_task (test_task_env\<lparr>env_source := mem_source_ops (test_log [[48], []])\<rparr>) test_spec \<lparr>cs_poisoned = False, cs_inner = []\<rparr> =
       Some (Inl err, store') \<and>
     map_of (cs_inner store') ''t'' = Some cp \<and> resume_offset (TopicPartition ''w'' 0) (open_range 0) cp = 1"
proof -
  let ?env = "test_task_env\<lparr>env_source := mem_source_ops (test_log [[48], []])\<rparr>"
  have bad: "parse_record ?env [] = fail (BadParse ''EOF'')"
    by (simp add: parse_record_def check_record_bounds_def MAX_RECORD_PAYLOAD_BYTES_def test_task_env_def)
  have good: "\<exists>v. parse_record ?env p = Inr v" if "p \<in> set [[48]]" for p using that test_parse by simp
  have "env_policy ?env = FailTask" "ts_assignment test_spec = [(TopicPartition ''w'' 0, open_range 0)]" "ts_checkpoint_every_rows test_spec = 1"
    "length [[48 :: byte]] < ts_max_rows_per_segment test_spec" "ts_task_id test_spec = ''t''" by (simp_all add: test_task_env_def test_spec_def)
  from failed_run_loses_rows [OF this(2,3,4) _ _ _ this(1) good bad, of "\<lparr>cs_poisoned = False, cs_inner = []\<rparr>"] this(5)
  show ?thesis by (simp add: test_log_def)
qed


section \<open>The planner\<close>

lemma bt_insert_last: "(\<And>x. x \<in> set m \<Longrightarrow> fst x < k) \<Longrightarrow> bt_insert k v m = m @ [(k, v)]"
proof (induction m)
  case (Cons x m)
  obtain a b where x: "x = (a, b)" by fastforce
  have "a < k" using Cons.prems [of x] by (simp add: x)
  then show ?case using Cons by (auto simp: x)
qed simp

definition turn :: "nat \<Rightarrow> nat \<Rightarrow> nat \<Rightarrow> nat list" where
  "turn m n k = filter (\<lambda>i. i mod m = k) [0..<n]"

lemma turn_Suc: "turn m (Suc n) k = (if n mod m = k then turn m n k @ [n] else turn m n k)"
  by (simp add: turn_def)

lemma turn_length: "0 < m \<Longrightarrow> k < m \<Longrightarrow> length (turn m n k) = n div m + (if k < n mod m then 1 else 0)"
proof (induction n)
  case (Suc n)
  then show ?case by (auto simp: turn_Suc div_Suc mod_Suc)
qed (simp add: turn_def)

definition planned :: "(topic_partition \<times> int) list \<Rightarrow> nat list \<Rightarrow> assignment" where
  "planned parts is = map (\<lambda>i. (fst (parts ! i), open_range (snd (parts ! i)))) is"

lemma generate_fold:
  assumes "bt_wf parts" and "0 < m" and "n \<le> length parts"
  shows "fold (\<lambda>(idx, tp, start) tasks. tasks[idx mod m := assign tp (open_range start) (tasks ! (idx mod m))])
      (take n (enumerate 0 parts)) (replicate m []) = map (\<lambda>k. planned parts (turn m n k)) [0..<m]"
  using assms(3)
proof (induction n)
  case 0
  have "map (\<lambda>k. planned parts (turn m 0 k)) [0..<m] = replicate m []" by (rule nth_equalityI) (simp_all add: planned_def turn_def)
  then show ?case by simp
next
  case (Suc n)
  obtain tp start where p: "parts ! n = (tp, start)" by fastforce
  have lt: "n < length parts" using Suc.prems by simp
  have take: "take (Suc n) (enumerate 0 parts) = take n (enumerate 0 parts) @ [(n, tp, start)]"
    using lt p by (simp add: take_Suc_conv_app_nth nth_enumerate_eq)
  have slot: "n mod m < m" using assms(2) by simp
  have "fst x < tp" if x: "x \<in> set (planned parts (turn m n (n mod m)))" for x
  proof -
    obtain i where i: "i < n" "fst x = fst (parts ! i)" using x by (auto simp: planned_def turn_def)
    have "fst (parts ! i) < fst (parts ! n)" using assms(1) lt i(1) by (simp add: bt_wf_def sorted_wrt_iff_nth_less)
    then show ?thesis using i(2) p by simp
  qed
  then have ins: "assign tp (open_range start) (planned parts (turn m n (n mod m))) = planned parts (turn m (Suc n) (n mod m))"
    unfolding assign_def using p by (subst bt_insert_last) (simp_all add: turn_Suc planned_def)
  have "(map (\<lambda>k. planned parts (turn m n k)) [0..<m])[n mod m := planned parts (turn m (Suc n) (n mod m))] =
      map (\<lambda>k. planned parts (turn m (Suc n) k)) [0..<m]"
    by (rule nth_equalityI) (auto simp: nth_list_update turn_Suc)
  then show ?case using Suc.IH Suc.prems slot ins by (simp add: take)
qed

lemma generate_tasks_planned:
  assumes "bt_wf offsets" and "sup_state p = Running" and "0 < task_count"
  defines "parts \<equiv> filter (\<lambda>(tp, _). tp_topic tp = sup_topic p) offsets"
  assumes "parts \<noteq> []"
  shows "generate_tasks p offsets task_count =
    map (\<lambda>k. planned parts (turn (min task_count (length parts)) (length parts) k)) [0..<min task_count (length parts)]"
proof -
  have "bt_wf parts" using assms(1) by (auto simp: parts_def bt_wf_def sorted_wrt_map intro: sorted_wrt_filter)
  from generate_fold [OF this, of "min task_count (length parts)" "length parts"] show ?thesis
    using assms(2,3,5) by (simp add: generate_tasks_def parts_def [symmetric] Let_def)
qed

text \<open>C20: The supervisor plans fairly: every partition of its topic goes to exactly one task, open-ended from its
  offset; there are as many tasks as asked for but never more than partitions; no task is empty and the numbers of
  partitions of two tasks differ by at most one.\<close>

theorem planner_covers_partitions:
  assumes "bt_wf offsets" and "sup_state p = Running" and "0 < task_count"
    and "filter (\<lambda>(tp, _). tp_topic tp = sup_topic p) offsets \<noteq> []"
  shows "length (generate_tasks p offsets task_count) = min task_count (length (filter (\<lambda>(tp, _). tp_topic tp = sup_topic p) offsets)) \<and>
    (\<forall>tp start. map_of offsets tp = Some start \<and> tp_topic tp = sup_topic p \<longrightarrow>
      (\<exists>!k. k < length (generate_tasks p offsets task_count) \<and> (tp, open_range start) \<in> set (generate_tasks p offsets task_count ! k))) \<and>
    (\<forall>a \<in> set (generate_tasks p offsets task_count). \<forall>b \<in> set (generate_tasks p offsets task_count).
      a \<noteq> [] \<and> length a \<le> length b + 1)"
proof -
  define parts where "parts = filter (\<lambda>(tp, _). tp_topic tp = sup_topic p) offsets"
  define m where "m = min task_count (length parts)"
  have m: "0 < m" "m \<le> length parts" using assms(3,4) by (auto simp: m_def parts_def [symmetric])
  have gen: "generate_tasks p offsets task_count = map (\<lambda>k. planned parts (turn m (length parts) k)) [0..<m]"
    using generate_tasks_planned [OF assms(1-4)] by (simp add: parts_def [symmetric] m_def)
  have dist: "distinct (map fst parts)" using bt_wf_distinct [OF assms(1)] by (auto simp: parts_def intro: distinct_map_filter)
  have cover: "\<exists>!k. k < m \<and> (tp, open_range start) \<in> set (planned parts (turn m (length parts) k))"
    if mem: "map_of offsets tp = Some start" "tp_topic tp = sup_topic p" for tp start
  proof -
    have "(tp, start) \<in> set parts" using mem map_of_SomeD by (fastforce simp: parts_def)
    then obtain i where i: "i < length parts" "parts ! i = (tp, start)" by (auto simp: in_set_conv_nth)
    show ?thesis
    proof (rule ex1I [of _ "i mod m"])
      show "i mod m < m \<and> (tp, open_range start) \<in> set (planned parts (turn m (length parts) (i mod m)))"
        using m(1) i by (force simp: planned_def turn_def)
      fix k assume k: "k < m \<and> (tp, open_range start) \<in> set (planned parts (turn m (length parts) k))"
      then obtain j where j: "j < length parts" "j mod m = k" "fst (parts ! j) = tp" by (auto simp: planned_def turn_def)
      then have "j = i" using dist i by (simp add: distinct_conv_nth) (metis fst_conv)
      then show "k = i mod m" using j(2) by simp
    qed
  qed
  have len: "length (planned parts (turn m (length parts) k)) = length parts div m + (if k < length parts mod m then 1 else 0)" if "k < m" for k
    using turn_length [OF m(1) that] by (simp add: planned_def)
  have "0 < length parts div m" using m by (simp add: div_greater_zero_iff)
  then have "planned parts (turn m (length parts) j) \<noteq> [] \<and>
      length (planned parts (turn m (length parts) j)) \<le> length (planned parts (turn m (length parts) k)) + 1" if "j < m" "k < m" for j k
    using len [OF that(1)] len [OF that(2)] by (auto simp: length_greater_0_conv [symmetric] simp del: length_greater_0_conv)
  note fair = this
  show ?thesis unfolding parts_def [symmetric] m_def [symmetric]
  proof (intro conjI allI impI ballI)
    show "length (generate_tasks p offsets task_count) = m" by (simp add: gen)
    show "\<exists>!k. k < length (generate_tasks p offsets task_count) \<and> (tp, open_range start) \<in> set (generate_tasks p offsets task_count ! k)"
      if "map_of offsets tp = Some start \<and> tp_topic tp = sup_topic p" for tp start
      using cover [of tp start] that by (simp add: gen cong: conj_cong)
  qed (use fair in \<open>auto simp: gen\<close>)
qed

theorem planner_covers_partitions_witness:
  "length (generate_tasks \<lparr>sup_topic = ''w'', sup_state = Running\<rparr> [(TopicPartition ''w'' 0, 5), (TopicPartition ''w'' 1, 7)] 9) = 2"
proof -
  let ?p = "\<lparr>sup_topic = ''w'', sup_state = Running\<rparr>" and ?o = "[(TopicPartition ''w'' 0, 5), (TopicPartition ''w'' 1, 7)] :: (topic_partition \<times> int) list"
  have "bt_wf ?o" by (simp add: bt_wf_def less_topic_partition_def)
  from planner_covers_partitions [OF this, of ?p 9] show ?thesis by simp
qed

end
