(* ===== verification/Kafka_Eos.thy ===== *)
theory Kafka_Eos
  imports Kafka_Task "HOL-Library.Multiset"
begin

text \<open>
  The exactly-once segment writer (ferrodruid-ingest-kafka/src/eos_writer.rs): batches with the offsets they
  cover, publication by rename, the sweep at start-up, and the resume offsets. The disk is the set of pending
  directories and the published segments; where an operation of the file system or the segment builder fails, or
  the process dies, is an argument of \<open>publish\<close>. The content of a segment is the list of the rows of its batch: what the
  ingester makes of them (parsing, dropping rows without a timestamp, rolling up) is left out, so that a record counts as published when
  the batch that holds it is.
\<close>

section \<open>Batches\<close>

record offset_span =
  span_start :: int
  span_next :: int

record pending_batch =
  pb_rows :: "json list"
  pb_spans :: "(topic_partition, offset_span) btree_map"

definition empty_batch :: pending_batch where
  "empty_batch = \<lparr>pb_rows = [], pb_spans = []\<rparr>"

definition batch_record :: "topic_partition \<Rightarrow> int \<Rightarrow> json \<Rightarrow> pending_batch \<Rightarrow> pending_batch" where
  "batch_record tp offset row b =
     (let next = saturating_add offset 1;
          sp = (case map_of (pb_spans b) tp of
              Some entry \<Rightarrow> if offset < span_next entry then \<lparr>span_start = offset, span_next = next\<rparr> else entry\<lparr>span_next := next\<rparr>
            | None \<Rightarrow> \<lparr>span_start = offset, span_next = next\<rparr>)
      in \<lparr>pb_rows = pb_rows b @ [row], pb_spans = bt_insert tp sp (pb_spans b)\<rparr>)"

section \<open>The disk\<close>

text \<open>A published directory: the rows of its segment, and its sidecar when it can be read.\<close>

record published_dir =
  pd_rows :: "json list"
  pd_sidecar :: "(string \<times> (topic_partition, offset_span) btree_map) option"

record eos_disk =
  ed_pending :: "string list"
  ed_published :: "(string, published_dir) hash_map"

record published_segment =
  seg_id :: string
  seg_task_id :: string
  seg_spans :: "(topic_partition, offset_span) btree_map"

datatype eos_error = EosIo string | EosSerde string | EosBuild string | EmptyBuffer

definition eos_new :: "eos_disk \<Rightarrow> eos_disk" where
  "eos_new d = d\<lparr>ed_pending := []\<rparr>"

text \<open>The stages of a publication, in their order.\<close>

datatype publish_stage = CreateDir | BuildSegment | WriteSidecar | RenameDir

definition publish :: "publish_stage option \<Rightarrow> string \<Rightarrow> string \<Rightarrow> pending_batch \<Rightarrow> eos_disk \<Rightarrow> (published_segment, eos_error) res \<times> eos_disk" where
  "publish stop task_id segment_id b d =
     (if pb_rows b = [] then (fail EmptyBuffer, d)
      else
        let d = d\<lparr>ed_pending := removeAll segment_id (ed_pending d)\<rparr> in
        if stop = Some CreateDir then (fail (EosIo segment_id), d)
        else
          let d = d\<lparr>ed_pending := segment_id # ed_pending d\<rparr> in
          if stop = Some BuildSegment then (fail (EosBuild segment_id), d)
          else if stop = Some WriteSidecar then (fail (EosIo segment_id), d)
          else
            let seg = \<lparr>seg_id = segment_id, seg_task_id = task_id, seg_spans = pb_spans b\<rparr> in
            if hm_get (ed_published d) segment_id \<noteq> None then
              (Ok seg, d\<lparr>ed_pending := removeAll segment_id (ed_pending d)\<rparr>)
            else if stop = Some RenameDir then (fail (EosIo segment_id), d)
            else
              (Ok seg,
               d\<lparr>ed_pending := removeAll segment_id (ed_pending d),
                 ed_published := hm_insert segment_id \<lparr>pd_rows = pb_rows b, pd_sidecar = Some (task_id, pb_spans b)\<rparr> (ed_published d)\<rparr>))"

definition list_published :: "eos_disk \<Rightarrow> published_segment list" where
  "list_published d =
     List.map_filter (\<lambda>(segment_id, p). map_option (\<lambda>(task_id, spans). \<lparr>seg_id = segment_id, seg_task_id = task_id, seg_spans = spans\<rparr>) (pd_sidecar p))
       (ed_published d)"

definition raise_offset :: "topic_partition \<times> offset_span \<Rightarrow> checkpoint \<Rightarrow> checkpoint" where
  "raise_offset e out =
     (case e of (tp, sp) \<Rightarrow>
        let cur = (case map_of out tp of Some c \<Rightarrow> c | None \<Rightarrow> span_next sp)
        in bt_insert tp (if cur < span_next sp then span_next sp else cur) out)"

definition resume_offsets :: "string \<Rightarrow> eos_disk \<Rightarrow> checkpoint" where
  "resume_offsets task_id d =
     fold (\<lambda>seg out. if seg_task_id seg \<noteq> task_id then out else fold raise_offset (seg_spans seg) out) (list_published d) []"

definition resume_offsets_all_tasks :: "eos_disk \<Rightarrow> checkpoint" where
  "resume_offsets_all_tasks d = fold (\<lambda>seg. fold raise_offset (seg_spans seg)) (list_published d) []"

section \<open>Use of the writer\<close>

text \<open>
  The protocol the writer documents for its caller: records are delivered in order from the resume offsets,
  a batch is published under an identifier that was not used, and after a failure or a crash the process starts
  again from the disk. The log of a partition is a list of rows; offsets count from zero.
\<close>

record eos_run =
  er_disk :: eos_disk
  er_batch :: pending_batch
  er_position :: "topic_partition \<Rightarrow> int"

definition start_position :: "string \<Rightarrow> eos_disk \<Rightarrow> topic_partition \<Rightarrow> int" where
  "start_position task_id d tp = (case map_of (resume_offsets task_id d) tp of Some n \<Rightarrow> n | None \<Rightarrow> 0)"

inductive eos_step :: "string \<Rightarrow> topic_partition list \<Rightarrow> (topic_partition \<Rightarrow> json list) \<Rightarrow> eos_run \<Rightarrow> eos_run \<Rightarrow> bool"
  for task_id :: string and tps :: "topic_partition list" and plog :: "topic_partition \<Rightarrow> json list" where
  deliver: "tp \<in> set tps \<Longrightarrow> 0 \<le> er_position s tp \<Longrightarrow> er_position s tp < int (length (plog tp)) \<Longrightarrow>
    eos_step task_id tps plog s
      (s\<lparr>er_batch := batch_record tp (er_position s tp) (plog tp ! nat (er_position s tp)) (er_batch s),
         er_position := (er_position s)(tp := er_position s tp + 1)\<rparr>)"
| published: "hm_get (ed_published (er_disk s)) segment_id = None \<Longrightarrow>
    publish None task_id segment_id (er_batch s) (er_disk s) = (Ok seg, d) \<Longrightarrow>
    eos_step task_id tps plog s (s\<lparr>er_disk := d, er_batch := empty_batch\<rparr>)"
| crashed: "publish (Some stage) task_id segment_id (er_batch s) (er_disk s) = (res, d) \<Longrightarrow>
    hm_get (ed_published (er_disk s)) segment_id = None \<Longrightarrow>
    eos_step task_id tps plog s \<lparr>er_disk = eos_new d, er_batch = empty_batch, er_position = start_position task_id (eos_new d)\<rparr>"
| restarted: "eos_step task_id tps plog s
    \<lparr>er_disk = eos_new (er_disk s), er_batch = empty_batch, er_position = start_position task_id (eos_new (er_disk s))\<rparr>"

definition eos_init :: "eos_run" where
  "eos_init = \<lparr>er_disk = \<lparr>ed_pending = [], ed_published = []\<rparr>, er_batch = empty_batch, er_position = (\<lambda>_. 0)\<rparr>"


section \<open>Resume offsets\<close>

lemma raise_offset_get:
  "map_of (raise_offset (tp, sp) out) tp' =
     (if tp' = tp then Some (case map_of out tp of Some c \<Rightarrow> max c (span_next sp) | None \<Rightarrow> span_next sp) else map_of out tp')"
  by (auto simp: raise_offset_def Let_def map_of_bt_insert max_def split: option.splits)

lemma fold_raise_get:
  "distinct (map fst spans) \<Longrightarrow>
     map_of (fold raise_offset spans out) tp =
       (case map_of spans tp of
          Some sp \<Rightarrow> Some (case map_of out tp of Some c \<Rightarrow> max c (span_next sp) | None \<Rightarrow> span_next sp)
        | None \<Rightarrow> map_of out tp)"
proof (induction spans arbitrary: out)
  case (Cons e spans)
  obtain a sp where e: "e = (a, sp)" by fastforce
  have "map_of spans a = None" using Cons.prems by (simp add: e map_of_eq_None_iff)
  then show ?case using Cons by (auto simp: e raise_offset_get split: option.splits)
qed simp

lemma hm_insert_fresh: "hm_get m k = None \<Longrightarrow> hm_insert k v m = m @ [(k, v)]"
  by (induction k v m rule: hm_insert.induct) (auto simp: hm_get_def split: if_splits)

definition seg_offsets :: "string \<Rightarrow> string \<times> published_dir \<Rightarrow> checkpoint \<Rightarrow> checkpoint" where
  "seg_offsets task_id e out =
     (case pd_sidecar (snd e) of
        Some (t, spans) \<Rightarrow> if t \<noteq> task_id then out else fold raise_offset spans out
      | None \<Rightarrow> out)"

lemma resume_offsets_fold: "resume_offsets task_id d = fold (seg_offsets task_id) (ed_published d) []"
proof -
  have "fold (\<lambda>seg out. if seg_task_id seg \<noteq> task_id then out else fold raise_offset (seg_spans seg) out)
      (List.map_filter (\<lambda>(segment_id, p). map_option (\<lambda>(task_id, spans). \<lparr>seg_id = segment_id, seg_task_id = task_id, seg_spans = spans\<rparr>) (pd_sidecar p)) m) out =
    fold (seg_offsets task_id) m out" for m out
    by (induction m arbitrary: out) (auto simp: map_filter_simps seg_offsets_def split: option.splits)
  then show ?thesis by (simp add: resume_offsets_def list_published_def)
qed

text \<open>What one more segment does to the resume offset of a partition.\<close>

lemma start_position_publish:
  assumes "ed_published d' = ed_published d @ [(segment_id, \<lparr>pd_rows = rows, pd_sidecar = Some (task_id, spans)\<rparr>)]"
    and "distinct (map fst spans)" and "0 \<le> start_position task_id d tp"
    and "\<And>sp. map_of spans tp = Some sp \<Longrightarrow> start_position task_id d tp \<le> span_next sp"
  shows "start_position task_id d' tp = (case map_of spans tp of Some sp \<Rightarrow> span_next sp | None \<Rightarrow> start_position task_id d tp)"
  using assms(3,4)
  by (auto simp: start_position_def resume_offsets_fold assms(1) seg_offsets_def fold_raise_get [OF assms(2)] split: option.splits)

section \<open>Every record once\<close>

definition published_rows :: "eos_disk \<Rightarrow> json list" where
  "published_rows d = concat (map (pd_rows \<circ> snd) (ed_published d))"

definition below :: "topic_partition list \<Rightarrow> (topic_partition \<Rightarrow> json list) \<Rightarrow> (topic_partition \<Rightarrow> int) \<Rightarrow> json multiset" where
  "below tps plog pos = (\<Sum>tp\<leftarrow>tps. mset (take (nat (pos tp)) (plog tp)))"

lemma below_cong: "(\<And>tp. tp \<in> set tps \<Longrightarrow> pos tp = pos' tp) \<Longrightarrow> below tps plog pos = below tps plog pos'"
  unfolding below_def by (rule arg_cong [where f = sum_list]) simp

lemma below_deliver:
  assumes "distinct tps" and "tp \<in> set tps" and "0 \<le> pos tp" and "pos tp < int (length (plog tp))"
  shows "below tps plog (pos(tp := pos tp + 1)) = below tps plog pos + {#plog tp ! nat (pos tp)#}"
  using assms(1,2)
proof (induction tps)
  case (Cons a tps)
  show ?case
  proof (cases "a = tp")
    case True
    have "nat (pos tp + 1) = Suc (nat (pos tp))" using assms(3) by linarith
    moreover have "nat (pos tp) < length (plog tp)" using assms(3,4) by linarith
    ultimately have "take (nat (pos tp + 1)) (plog tp) = take (nat (pos tp)) (plog tp) @ [plog tp ! nat (pos tp)]" by (simp add: take_Suc_conv_app_nth)
    moreover have "below tps plog (pos(tp := pos tp + 1)) = below tps plog pos" using Cons.prems(1) True by (intro below_cong) auto
    ultimately show ?thesis using True by (simp add: below_def)
  next
    case False
    then have "below tps plog (pos(tp := pos tp + 1)) = below tps plog pos + {#plog tp ! nat (pos tp)#}" using Cons.IH Cons.prems by (auto simp del: fun_upd_apply)
    moreover have "(pos(tp := pos tp + 1)) a = pos a" using False by simp
    ultimately show ?thesis unfolding below_def by (simp only: list.map sum_list.Cons add.assoc)
  qed
qed simp

definition eos_inv :: "string \<Rightarrow> topic_partition list \<Rightarrow> (topic_partition \<Rightarrow> json list) \<Rightarrow> eos_run \<Rightarrow> bool" where
  "eos_inv task_id tps plog s \<longleftrightarrow>
     mset (published_rows (er_disk s)) = below tps plog (start_position task_id (er_disk s)) \<and>
     mset (published_rows (er_disk s)) + mset (pb_rows (er_batch s)) = below tps plog (er_position s) \<and>
     bt_wf (pb_spans (er_batch s)) \<and>
     (\<forall>tp. 0 \<le> start_position task_id (er_disk s) tp \<and> start_position task_id (er_disk s) tp \<le> er_position s tp \<and>
        (case map_of (pb_spans (er_batch s)) tp of
           None \<Rightarrow> er_position s tp = start_position task_id (er_disk s) tp
         | Some sp \<Rightarrow> er_position s tp = span_next sp))"

lemma eos_new_same [simp]: "published_rows (eos_new d) = published_rows d" "start_position task_id (eos_new d) = start_position task_id d"
  by (auto simp: eos_new_def published_rows_def start_position_def resume_offsets_fold fun_eq_iff)

lemma publish_stopped: "publish (Some stage) task_id segment_id b d = (res, d') \<Longrightarrow> hm_get (ed_published d) segment_id = None \<Longrightarrow>
    ed_published d' = ed_published d"
  by (cases stage) (auto simp: publish_def Let_def split: if_splits)

lemma same_published: "ed_published d' = ed_published d \<Longrightarrow> published_rows d' = published_rows d \<and> start_position task_id d' = start_position task_id d"
  by (auto simp: published_rows_def start_position_def resume_offsets_fold fun_eq_iff)

lemma eos_inv_restart:
  assumes "eos_inv task_id tps plog s" and "ed_published d = ed_published (er_disk s)"
  shows "eos_inv task_id tps plog \<lparr>er_disk = eos_new d, er_batch = empty_batch, er_position = start_position task_id (eos_new d)\<rparr>"
  using assms(1) same_published [OF assms(2)] by (simp add: eos_inv_def empty_batch_def)

lemma eos_inv_deliver:
  assumes "distinct tps" and "length (plog tp) < 2 ^ 63" and "eos_inv task_id tps plog s" and "tp \<in> set tps"
    and "0 \<le> er_position s tp" and "er_position s tp < int (length (plog tp))"
  shows "eos_inv task_id tps plog
    (s\<lparr>er_batch := batch_record tp (er_position s tp) (plog tp ! nat (er_position s tp)) (er_batch s),
       er_position := (er_position s)(tp := er_position s tp + 1)\<rparr>)"
proof -
  have nxt: "saturating_add (er_position s tp) 1 = er_position s tp + 1"
    using assms(2,5,6) by (simp add: saturating_add_def I64_MAX_def I64_MIN_def)
  have inv: "mset (published_rows (er_disk s)) + mset (pb_rows (er_batch s)) = below tps plog (er_position s)" using assms(3) unfolding eos_inv_def by blast
  let ?s = "s\<lparr>er_batch := batch_record tp (er_position s tp) (plog tp ! nat (er_position s tp)) (er_batch s),
       er_position := (er_position s)(tp := er_position s tp + 1)\<rparr>"
  have "mset (published_rows (er_disk s)) + mset (pb_rows (er_batch ?s)) = below tps plog (er_position ?s)"
    using inv below_deliver [of tps tp "er_position s" plog, OF assms(1,4-6)] by (simp add: batch_record_def Let_def del: fun_upd_apply)
  moreover have "0 \<le> start_position task_id (er_disk s) a \<and> start_position task_id (er_disk s) a \<le> er_position ?s a \<and>
      (case map_of (pb_spans (er_batch ?s)) a of None \<Rightarrow> er_position ?s a = start_position task_id (er_disk s) a | Some sp \<Rightarrow> er_position ?s a = span_next sp)" for a
  proof -
    have "0 \<le> start_position task_id (er_disk s) a \<and> start_position task_id (er_disk s) a \<le> er_position s a \<and>
      (case map_of (pb_spans (er_batch s)) a of None \<Rightarrow> er_position s a = start_position task_id (er_disk s) a | Some sp \<Rightarrow> er_position s a = span_next sp)"
      using assms(3) unfolding eos_inv_def by blast
    then show ?thesis using nxt by (cases "a = tp") (simp_all add: batch_record_def Let_def map_of_bt_insert split: option.splits)
  qed
  moreover have "bt_wf (pb_spans (er_batch ?s))" using assms(3) by (simp add: eos_inv_def batch_record_def Let_def)
  moreover have disk: "er_disk ?s = er_disk s" by simp
  moreover have "mset (published_rows (er_disk s)) = below tps plog (start_position task_id (er_disk s))" using assms(3) unfolding eos_inv_def by blast
  ultimately show ?thesis unfolding eos_inv_def disk by blast
qed

lemma eos_inv_publish:
  assumes "eos_inv task_id tps plog s" and "hm_get (ed_published (er_disk s)) segment_id = None"
    and "publish None task_id segment_id (er_batch s) (er_disk s) = (Ok seg, d)"
  shows "eos_inv task_id tps plog (s\<lparr>er_disk := d, er_batch := empty_batch\<rparr>)"
proof -
  let ?d = "er_disk s" and ?b = "er_batch s"
  have inv: "bt_wf (pb_spans ?b)" "0 \<le> start_position task_id ?d tp" "start_position task_id ?d tp \<le> er_position s tp"
    "case map_of (pb_spans ?b) tp of None \<Rightarrow> er_position s tp = start_position task_id ?d tp | Some sp \<Rightarrow> er_position s tp = span_next sp"
    "mset (published_rows ?d) + mset (pb_rows ?b) = below tps plog (er_position s)" for tp
    using assms(1) by (auto simp: eos_inv_def)
  have d: "ed_published d = ed_published ?d @ [(segment_id, \<lparr>pd_rows = pb_rows ?b, pd_sidecar = Some (task_id, pb_spans ?b)\<rparr>)]"
    using assms(2,3) by (auto simp: publish_def Let_def hm_insert_fresh split: if_splits)
  have pos: "start_position task_id d tp = er_position s tp" for tp
    using start_position_publish [OF d bt_wf_distinct [OF inv(1)] inv(2), of tp] inv(3,4) [of tp] by (auto split: option.splits)
  then have "start_position task_id d = er_position s" by (rule ext)
  moreover have "mset (published_rows d) = below tps plog (er_position s)"
    using inv(5) by (simp add: published_rows_def d)
  moreover have "0 \<le> er_position s tp" for tp using inv(2,3) order_trans by blast
  ultimately show ?thesis by (simp add: eos_inv_def empty_batch_def)
qed

lemma eos_init_inv: "eos_inv task_id tps plog eos_init"
  by (simp add: eos_inv_def eos_init_def empty_batch_def published_rows_def start_position_def resume_offsets_fold below_def)

text \<open>C4: Exactly once: in every state reached by delivering records in order, publishing, failing at any stage of a
  publication and restarting, the published segments hold every record below the resume offsets once, and no
  other row; a restart resumes at the first record that is not published.\<close>

theorem eos_exactly_once:
  assumes "distinct tps" and "\<And>tp. length (plog tp) < 2 ^ 63" and "reachable (\<lambda>s. s = eos_init) (eos_step task_id tps plog) s"
  shows "mset (published_rows (er_disk s)) = below tps plog (start_position task_id (er_disk s))"
proof -
  have "eos_inv task_id tps plog s"
    using assms(3)
  proof (induction rule: reachable.induct)
    case (next_step s t)
    from next_step(2,3) show ?case
    proof cases
      case (deliver tp)
      then show ?thesis using eos_inv_deliver [OF assms(1,2) next_step(3)] by simp
    next
      case (published segment_id seg d)
      then show ?thesis using eos_inv_publish [OF next_step(3)] by simp
    next
      case (crashed stage segment_id res d)
      then show ?thesis using eos_inv_restart [OF next_step(3) publish_stopped] by simp
    next
      case restarted
      then show ?thesis using eos_inv_restart [OF next_step(3) refl] by simp
    qed
  qed (simp add: eos_init_inv)
  then show ?thesis by (simp add: eos_inv_def)
qed

theorem eos_exactly_once_witness:
  "\<exists>s. reachable (\<lambda>s. s = eos_init) (eos_step ''t'' [TopicPartition ''w'' 0] (\<lambda>_. [JNull])) s \<and> published_rows (er_disk s) = [JNull] \<and>
     mset (published_rows (er_disk s)) = below [TopicPartition ''w'' 0] (\<lambda>_. [JNull]) (start_position ''t'' (er_disk s))"
proof -
  let ?tp = "TopicPartition ''w'' 0" and ?step = "eos_step ''t'' [TopicPartition ''w'' 0] (\<lambda>_. [JNull])"
  let ?s1 = "eos_init\<lparr>er_batch := batch_record ?tp 0 JNull empty_batch, er_position := (\<lambda>_. 0)(?tp := 1)\<rparr>"
  obtain seg d where p: "publish None ''t'' ''a'' (er_batch ?s1) (er_disk ?s1) = (Ok seg, d)" "published_rows d = [JNull]"
    by (auto simp: publish_def Let_def eos_init_def batch_record_def empty_batch_def published_rows_def)
  have "reachable (\<lambda>s. s = eos_init) ?step eos_init" by (rule reachable.start) simp
  moreover have "?step eos_init ?s1"
    using eos_step.deliver [of ?tp "[?tp]" eos_init "\<lambda>_. [JNull]" "''t''"] by (simp add: eos_init_def fun_upd_def)
  moreover have "?step ?s1 (?s1\<lparr>er_disk := d, er_batch := empty_batch\<rparr>)"
    by (rule eos_step.published [OF _ p(1)]) (simp add: eos_init_def)
  ultimately have r: "reachable (\<lambda>s. s = eos_init) ?step (?s1\<lparr>er_disk := d, er_batch := empty_batch\<rparr>)" by (blast intro: reachable.next_step)
  from eos_exactly_once [OF _ _ r] show ?thesis using r p(2) by (intro exI [of _ "?s1\<lparr>er_disk := d, er_batch := empty_batch\<rparr>"]) simp
qed

text \<open>Offsets that were numbered anew are skipped: after a batch that reset its claim to lower offsets is published,
  the resume offset is still the highest one of an earlier segment, so the records between are never consumed.\<close>

lemma renumbered_offsets_skipped:
  assumes "map_of (resume_offsets task_id d) tp = Some n" and "bt_wf (pb_spans b)" and "map_of (pb_spans b) tp = Some sp" and "span_next sp \<le> offset + 1"
    and "span_start sp \<le> offset" and "offset + 1 < n" and "offset < span_next sp" and "I64_MIN \<le> offset" and "n \<le> I64_MAX"
    and "hm_get (ed_published d) segment_id = None"
    and "publish None task_id segment_id (batch_record tp offset row b) d = (res, d')"
  shows "res = Ok \<lparr>seg_id = segment_id, seg_task_id = task_id, seg_spans = bt_insert tp \<lparr>span_start = offset, span_next = offset + 1\<rparr> (pb_spans b)\<rparr> \<and>
    map_of (resume_offsets task_id d') tp = Some n"
proof -
  have nxt: "saturating_add offset 1 = offset + 1" using assms(6,8,9) by (simp add: saturating_add_def)
  let ?spans = "bt_insert tp \<lparr>span_start = offset, span_next = offset + 1\<rparr> (pb_spans b)"
  have b: "pb_spans (batch_record tp offset row b) = ?spans" "pb_rows (batch_record tp offset row b) \<noteq> []"
    using assms(3,7) by (simp_all add: batch_record_def Let_def nxt)
  then have d: "res = Ok \<lparr>seg_id = segment_id, seg_task_id = task_id, seg_spans = ?spans\<rparr>"
    "ed_published d' = ed_published d @ [(segment_id, \<lparr>pd_rows = pb_rows (batch_record tp offset row b), pd_sidecar = Some (task_id, ?spans)\<rparr>)]"
    using assms(10,11) by (auto simp: publish_def Let_def hm_insert_fresh split: if_splits)
  have "distinct (map fst ?spans)" using assms(2) by (intro bt_wf_distinct) simp
  then show ?thesis using d assms(1,6) by (simp add: resume_offsets_fold seg_offsets_def fold_raise_get map_of_bt_insert)
qed

end
