(* ===== verification/Overlord_Task.thy ===== *)
theory Overlord_Task
  imports Text
begin

text \<open>
  The scheduling rules of the overlord (ferrodruid-overlord/src/task.rs): the states of a task, locks on time
  intervals and the decision on a request, the delays between retries, and the choice of a worker.
\<close>

section \<open>States of a task\<close>

datatype task_state = TsWaiting | TsPending | TsRunning | TsSuccess | TsFailed

fun state_str :: "task_state \<Rightarrow> string" where
  "state_str TsWaiting = ''WAITING''"
| "state_str TsPending = ''PENDING''"
| "state_str TsRunning = ''RUNNING''"
| "state_str TsSuccess = ''SUCCESS''"
| "state_str TsFailed = ''FAILED''"

definition is_terminal :: "task_state \<Rightarrow> bool" where
  "is_terminal s \<longleftrightarrow> s = TsSuccess \<or> s = TsFailed"

definition can_transition_to :: "task_state \<Rightarrow> task_state \<Rightarrow> bool" where
  "can_transition_to s n \<longleftrightarrow>
     (s, n) \<in> {(TsWaiting, TsPending), (TsWaiting, TsFailed), (TsPending, TsRunning), (TsPending, TsWaiting), (TsPending, TsFailed),
       (TsRunning, TsSuccess), (TsRunning, TsFailed), (TsRunning, TsPending)}"

lemma is_terminal_simps [simp]:
  "is_terminal TsSuccess" "is_terminal TsFailed" "\<not> is_terminal TsWaiting" "\<not> is_terminal TsPending" "\<not> is_terminal TsRunning"
  by (simp_all add: is_terminal_def)

section \<open>Intervals and locks\<close>

datatype overlord_error = Ingestion string | Metadata string

record millis_interval =
  iv_start :: int
  iv_end :: int

definition interval_new :: "int \<Rightarrow> int \<Rightarrow> (millis_interval, overlord_error) res" where
  "interval_new start_millis end_millis =
     (if end_millis \<le> start_millis then fail (Ingestion ''invalid interval'') else Ok \<lparr>iv_start = start_millis, iv_end = end_millis\<rparr>)"

definition iv_overlaps :: "millis_interval \<Rightarrow> millis_interval \<Rightarrow> bool" where
  "iv_overlaps a b \<longleftrightarrow> iv_start a < iv_end b \<and> iv_start b < iv_end a"

datatype lock_type = Shared | Exclusive

fun lock_type_str :: "lock_type \<Rightarrow> string" where
  "lock_type_str Shared = ''SHARED''"
| "lock_type_str Exclusive = ''EXCLUSIVE''"

record tasklock =
  tl_id :: string
  tl_task_id :: string
  tl_data_source :: string
  tl_interval :: millis_interval
  tl_lock_type :: lock_type
  tl_priority :: int
  tl_revoked :: bool

definition lock_conflicts :: "tasklock \<Rightarrow> tasklock \<Rightarrow> bool" where
  "lock_conflicts a b =
     (if tl_revoked a \<or> tl_revoked b then False
      else if tl_data_source a \<noteq> tl_data_source b then False
      else if \<not> iv_overlaps (tl_interval a) (tl_interval b) then False
      else tl_lock_type a = Exclusive \<or> tl_lock_type b = Exclusive)"

datatype lock_decision = Granted | Preempt "string list" | Blocked

fun evaluate_loop :: "tasklock \<Rightarrow> tasklock list \<Rightarrow> string list \<Rightarrow> lock_decision" where
  "evaluate_loop request [] to_preempt = (if to_preempt = [] then Granted else Preempt to_preempt)"
| "evaluate_loop request (held # existing) to_preempt =
     (if tl_task_id held = tl_task_id request then evaluate_loop request existing to_preempt
      else if \<not> lock_conflicts request held then evaluate_loop request existing to_preempt
      else if tl_priority request \<le> tl_priority held then Blocked
      else evaluate_loop request existing (to_preempt @ [tl_id held]))"

definition evaluate_lock_request :: "tasklock \<Rightarrow> tasklock list \<Rightarrow> lock_decision" where
  "evaluate_lock_request request existing = evaluate_loop request existing []"

section \<open>Retries\<close>

record retry_policy =
  max_attempts :: u32
  base_delay_millis :: u64
  max_delay_millis :: u64

definition default_retry_policy :: retry_policy where
  "default_retry_policy = \<lparr>max_attempts = 3, base_delay_millis = 1000, max_delay_millis = 60000\<rparr>"

definition can_retry :: "retry_policy \<Rightarrow> u32 \<Rightarrow> bool" where
  "can_retry p attempt \<longleftrightarrow> attempt < max_attempts p"

definition backoff_millis :: "retry_policy \<Rightarrow> u32 \<Rightarrow> u64" where
  "backoff_millis p attempt =
     (if attempt = 0 then 0
      else
        let cap = (ucast (max_delay_millis p) :: 128 word);
            shift = attempt - 1
        in if 64 \<le> shift then max_delay_millis p
           else
             let scaled = push_bit (unat shift) (ucast (base_delay_millis p) :: 128 word);
                 v = min scaled cap
             in if unat v < 2 ^ 64 then ucast v else max_delay_millis p)"

section \<open>Workers\<close>

record worker =
  w_host :: string
  w_port :: u16
  w_capacity :: u32

definition worker_id :: "worker \<Rightarrow> string" where
  "worker_id w = w_host w @ '':'' @ show_nat (unat (w_port w))"

datatype worker_select_strategy = RoundRobin | LeastLoaded

record worker_selector =
  ws_workers :: "worker list"
  ws_strategy :: worker_select_strategy
  ws_cursor :: nat

definition selector_new :: "worker list \<Rightarrow> worker_select_strategy \<Rightarrow> worker_selector" where
  "selector_new workers strategy = \<lparr>ws_workers = workers, ws_strategy = strategy, ws_cursor = 0\<rparr>"

fun replace_first :: "('a \<Rightarrow> bool) \<Rightarrow> 'a \<Rightarrow> 'a list \<Rightarrow> 'a list option" where
  "replace_first P y [] = None"
| "replace_first P y (x # xs) = (if P x then Some (y # xs) else map_option ((#) x) (replace_first P y xs))"

definition register_worker :: "worker \<Rightarrow> worker_selector \<Rightarrow> worker_selector" where
  "register_worker w s =
     (case replace_first (\<lambda>x. worker_id x = worker_id w) w (ws_workers s) of
        Some ws \<Rightarrow> s\<lparr>ws_workers := ws\<rparr>
      | None \<Rightarrow> s\<lparr>ws_workers := ws_workers s @ [w]\<rparr>)"

definition deregister_worker :: "string \<Rightarrow> worker_selector \<Rightarrow> bool \<times> worker_selector" where
  "deregister_worker wid s =
     (let ws = filter (\<lambda>w. worker_id w \<noteq> wid) (ws_workers s)
      in (length ws \<noteq> length (ws_workers s),
          s\<lparr>ws_workers := ws, ws_cursor := (if length ws \<le> ws_cursor s then 0 else ws_cursor s)\<rparr>))"

definition is_registered :: "worker_selector \<Rightarrow> string \<Rightarrow> bool" where
  "is_registered s wid \<longleftrightarrow> list_ex (\<lambda>w. worker_id w = wid) (ws_workers s)"

fun round_robin_loop :: "(string \<Rightarrow> u32) \<Rightarrow> nat list \<Rightarrow> worker_selector \<Rightarrow> worker option \<times> worker_selector" where
  "round_robin_loop load [] s = (None, s)"
| "round_robin_loop load (offset # offsets) s =
     (let n = length (ws_workers s);
          idx = (ws_cursor s + offset) mod n;
          w = ws_workers s ! idx
      in if load (worker_id w) < w_capacity w then (Some w, s\<lparr>ws_cursor := (idx + 1) mod n\<rparr>)
         else round_robin_loop load offsets s)"

definition select_round_robin :: "(string \<Rightarrow> u32) \<Rightarrow> worker_selector \<Rightarrow> worker option \<times> worker_selector" where
  "select_round_robin load s = round_robin_loop load [0..<length (ws_workers s)] s"

text \<open>\<open>min_by\<close> keeps the first of two elements unless the comparison says it is greater.\<close>

definition lighter :: "(string \<Rightarrow> u32) \<Rightarrow> nat \<times> worker \<Rightarrow> nat \<times> worker \<Rightarrow> nat \<times> worker" where
  "lighter load a b =
     (let la = load (worker_id (snd a)); lb = load (worker_id (snd b))
      in if lb < la \<or> (la = lb \<and> fst b < fst a) then b else a)"

definition select_least_loaded :: "(string \<Rightarrow> u32) \<Rightarrow> worker_selector \<Rightarrow> worker option" where
  "select_least_loaded load s =
     (case filter (\<lambda>(_, w). load (worker_id w) < w_capacity w) (enumerate 0 (ws_workers s)) of
        [] \<Rightarrow> None
      | x # xs \<Rightarrow> Some (snd (foldl (lighter load) x xs)))"

definition select_worker :: "(string \<Rightarrow> u32) \<Rightarrow> worker_selector \<Rightarrow> worker option \<times> worker_selector" where
  "select_worker load s =
     (if ws_workers s = [] then (None, s)
      else case ws_strategy s of
          RoundRobin \<Rightarrow> select_round_robin load s
        | LeastLoaded \<Rightarrow> (select_least_loaded load s, s))"


section \<open>The decision on a lock request\<close>

definition rivals :: "tasklock \<Rightarrow> tasklock list \<Rightarrow> tasklock list" where
  "rivals request existing = filter (\<lambda>held. tl_task_id held \<noteq> tl_task_id request \<and> lock_conflicts request held) existing"

lemma evaluate_loop_rivals:
  "evaluate_loop request existing acc =
     (if \<exists>held \<in> set (rivals request existing). tl_priority request \<le> tl_priority held then Blocked
      else if acc @ map tl_id (rivals request existing) = [] then Granted
      else Preempt (acc @ map tl_id (rivals request existing)))"
proof (induction existing arbitrary: acc)
  case (Cons held existing)
  have "rivals request (held # existing) = (if tl_task_id held \<noteq> tl_task_id request \<and> lock_conflicts request held then held # rivals request existing else rivals request existing)"
    by (simp add: rivals_def)
  then show ?case using Cons.IH by auto
qed (simp add: rivals_def)

lemma evaluate_cases:
  "evaluate_lock_request request existing = Granted \<longleftrightarrow> rivals request existing = []"
  "evaluate_lock_request request existing = Blocked \<longleftrightarrow> (\<exists>held \<in> set (rivals request existing). tl_priority request \<le> tl_priority held)"
  "evaluate_lock_request request existing = Preempt ids \<longleftrightarrow>
     ids \<noteq> [] \<and> ids = map tl_id (rivals request existing) \<and> (\<forall>held \<in> set (rivals request existing). tl_priority held < tl_priority request)"
  by (auto simp: evaluate_lock_request_def evaluate_loop_rivals not_less)

lemma lock_conflicts_sym: "lock_conflicts a b = lock_conflicts b a"
  by (auto simp: lock_conflicts_def iv_overlaps_def)

section \<open>Delays\<close>

lemma u128_of_u64: "unat (ucast (b :: u64) :: 128 word) = unat b"
proof -
  have "unat b < 2 ^ 128" by (rule less_trans [OF unsigned_less]) simp
  then show ?thesis by (simp add: unsigned_ucast_eq take_bit_nat_eq_self)
qed

lemma u128_shift:
  fixes b :: u64
  assumes "k < 64"
  shows "unat (push_bit k (ucast b :: 128 word)) = unat b * 2 ^ k"
proof -
  have "unat b < 2 ^ 64" using unsigned_less [of b] by simp
  moreover have "(2 :: nat) ^ k \<le> 2 ^ 64" using assms by (intro power_increasing) auto
  ultimately have "unat b * 2 ^ k < 2 ^ 64 * 2 ^ 64" by (intro mult_less_le_imp_less) auto
  then have "unat b * 2 ^ k < 2 ^ 128" by simp
  then show ?thesis
    by (simp only: unsigned_push_bit_eq u128_of_u64 push_bit_nat_def) (simp add: take_bit_nat_eq_self)
qed

text \<open>C33: The delay before a retry is exact: the base delay doubled for every attempt after the first, in unbounded
  arithmetic, capped at the largest delay; no shift or conversion loses bits. (Not for a base delay of zero after more
  than 64 attempts.)\<close>

theorem backoff_exact:
  assumes "attempt \<noteq> 0" and "base_delay_millis p \<noteq> 0 \<or> unat attempt \<le> 64"
  shows "unat (backoff_millis p attempt) = min (unat (base_delay_millis p) * 2 ^ (unat attempt - 1)) (unat (max_delay_millis p))"
proof -
  let ?k = "unat attempt - 1"
  have shift: "unat (attempt - 1) = ?k" using assms(1) by (simp add: unat_minus_one)
  have cap: "unat (max_delay_millis p) < 2 ^ 64" using unsigned_less [of "max_delay_millis p"] by simp
  show ?thesis
  proof (cases "64 \<le> attempt - 1")
    case True
    then have k: "64 \<le> ?k" using shift by (simp add: word_le_nat_alt)
    then have "0 < unat (base_delay_millis p)" using assms(2) by (auto simp: unat_gt_0)
    then have "2 ^ 64 \<le> unat (base_delay_millis p) * 2 ^ ?k" using k
      by (metis One_nat_def Suc_leI mult_le_mono nat_mult_1 one_le_numeral power_increasing)
    then show ?thesis using True assms(1) cap by (simp add: backoff_millis_def)
  next
    case False
    then have k: "?k < 64" using shift by (simp add: word_le_nat_alt)
    let ?m = "min (push_bit ?k (ucast (base_delay_millis p) :: 128 word)) (ucast (max_delay_millis p))"
    have "unat ?m = min (unat (base_delay_millis p) * 2 ^ ?k) (unat (max_delay_millis p))"
      using u128_shift [OF k, of "base_delay_millis p"] by (simp add: min_def word_le_nat_alt u128_of_u64)
    moreover from this have "unat (ucast ?m :: u64) = unat ?m"
      using cap by (simp add: unsigned_ucast_eq take_bit_nat_eq_self_iff)
    ultimately show ?thesis using False assms(1) shift cap by (simp add: backoff_millis_def Let_def min_less_iff_disj)
  qed
qed

theorem backoff_exact_witness: "unat (backoff_millis default_retry_policy 4) = 8000"
  using backoff_exact [of 4 default_retry_policy] by (simp add: default_retry_policy_def)

section \<open>Choosing a worker\<close>

definition free_worker :: "(string \<Rightarrow> u32) \<Rightarrow> worker \<Rightarrow> bool" where
  "free_worker load w \<longleftrightarrow> load (worker_id w) < w_capacity w"

definition waiting_line :: "(string \<Rightarrow> u32) \<Rightarrow> worker_selector \<Rightarrow> worker list" where
  "waiting_line load s = filter (free_worker load) (rotate (ws_cursor s) (ws_workers s))"

definition selector_ok :: "worker_selector \<Rightarrow> bool" where
  "selector_ok s \<longleftrightarrow> ws_cursor s < length (ws_workers s) \<or> ws_cursor s = 0"

lemma round_robin_find:
  assumes "ws_workers s \<noteq> []" and "j + k = length (ws_workers s)"
  shows "round_robin_loop load [j..<j + k] s =
    (case find (\<lambda>i. free_worker load (rotate (ws_cursor s) (ws_workers s) ! i)) [j..<j + k] of
       None \<Rightarrow> (None, s)
     | Some i \<Rightarrow> (Some (rotate (ws_cursor s) (ws_workers s) ! i), s\<lparr>ws_cursor := (ws_cursor s + i + 1) mod length (ws_workers s)\<rparr>))"
  using assms(2)
proof (induction k arbitrary: j)
  case (Suc k)
  have u: "[j..<j + Suc k] = j # [Suc j..<Suc j + k]" by (simp add: upt_rec)
  have "j < length (ws_workers s)" using Suc.prems by simp
  then have n: "rotate (ws_cursor s) (ws_workers s) ! j = ws_workers s ! ((ws_cursor s + j) mod length (ws_workers s))"
    by (simp add: nth_rotate)
  have "round_robin_loop load [Suc j..<Suc j + k] s = (case find (\<lambda>i. free_worker load (rotate (ws_cursor s) (ws_workers s) ! i)) [Suc j..<Suc j + k] of
       None \<Rightarrow> (None, s)
     | Some i \<Rightarrow> (Some (rotate (ws_cursor s) (ws_workers s) ! i), s\<lparr>ws_cursor := (ws_cursor s + i + 1) mod length (ws_workers s)\<rparr>))"
    using Suc.prems by (intro Suc.IH) simp
  then show ?case unfolding u by (simp add: n free_worker_def Let_def mod_Suc_eq)
qed simp

lemma find_upt_split:
  assumes "find P [0..<n] = Some i"
  shows "i < n" "P i" "\<forall>j < i. \<not> P j"
  using assms by (auto simp: find_Some_iff)

lemma rotate_Suc_drop: "i < length xs \<Longrightarrow> rotate (Suc i) xs = drop (Suc i) xs @ take i xs @ [xs ! i]"
  by (cases "Suc i = length xs") (auto simp: rotate_drop_take take_Suc_conv_app_nth mod_less [OF Suc_lessI] simp flip: take_Suc_conv_app_nth)

text \<open>C23: The round robin is a queue: with a fixed load the free workers form a line that starts at the cursor; a selection
  takes the worker at its head, who then goes to the end of the line. So no free worker is passed over, and none is
  taken twice before every other free worker was. Without a free worker nothing is selected and nothing changes.\<close>

theorem round_robin_queue:
  assumes "selector_ok s" and "ws_strategy s = RoundRobin"
  shows "(case waiting_line load s of
       [] \<Rightarrow> select_worker load s = (None, s)
     | w # line \<Rightarrow> \<exists>s'. select_worker load s = (Some w, s') \<and> waiting_line load s' = line @ [w] \<and> selector_ok s' \<and> ws_workers s' = ws_workers s)"
proof (cases "ws_workers s = []")
  case True
  then show ?thesis by (simp add: waiting_line_def select_worker_def)
next
  case False
  let ?ws = "ws_workers s" and ?r = "rotate (ws_cursor s) (ws_workers s)"
  let ?f = "find (\<lambda>i. free_worker load (?r ! i)) [0..<length ?ws]"
  have sel: "select_worker load s = (case ?f of None \<Rightarrow> (None, s)
     | Some i \<Rightarrow> (Some (?r ! i), s\<lparr>ws_cursor := (ws_cursor s + i + 1) mod length ?ws\<rparr>))"
    using round_robin_find [OF False, of 0 "length ?ws" load] False assms(2) by (simp add: select_worker_def select_round_robin_def)
  show ?thesis
  proof (cases ?f)
    case None
    then have "waiting_line load s = []"
      by (auto simp: waiting_line_def find_None_iff filter_empty_conv in_set_conv_nth simp del: set_rotate)
    then show ?thesis using sel None by simp
  next
    case (Some i)
    note i = find_upt_split [OF Some]
    let ?s = "s\<lparr>ws_cursor := (ws_cursor s + i + 1) mod length ?ws\<rparr>"
    have "rotate (ws_cursor ?s) ?ws = rotate (Suc i) ?r"
      by (simp add: rotate_rotate add.commute flip: rotate_conv_mod)
    also have "\<dots> = drop (Suc i) ?r @ take i ?r @ [?r ! i]" using i(1) by (intro rotate_Suc_drop) simp
    finally have r': "rotate (ws_cursor ?s) ?ws = drop (Suc i) ?r @ take i ?r @ [?r ! i]" .
    have none: "filter (free_worker load) (take i ?r) = []"
      using i(1,3) by (auto simp: filter_empty_conv in_set_conv_nth)
    have "?r = take i ?r @ ?r ! i # drop (Suc i) ?r" using i(1) by (simp add: id_take_nth_drop)
    then have "waiting_line load s = filter (free_worker load) (take i ?r @ ?r ! i # drop (Suc i) ?r)" by (simp add: waiting_line_def)
    then have line: "waiting_line load s = ?r ! i # filter (free_worker load) (drop (Suc i) ?r)" using none i(2) by simp
    have "waiting_line load ?s = filter (free_worker load) (drop (Suc i) ?r) @ [?r ! i]"
      using none i(2) r' by (simp add: waiting_line_def)
    moreover have "selector_ok ?s" using False by (simp add: selector_ok_def)
    ultimately show ?thesis using line sel Some by simp
  qed
qed

theorem round_robin_queue_witness:
  "\<exists>s'. select_worker (\<lambda>_. 0) (selector_new [\<lparr>w_host = ''a'', w_port = 1, w_capacity = 0\<rparr>, \<lparr>w_host = ''b'', w_port = 2, w_capacity = 1\<rparr>] RoundRobin) =
     (Some \<lparr>w_host = ''b'', w_port = 2, w_capacity = 1\<rparr>, s') \<and> waiting_line (\<lambda>_. 0) s' = [\<lparr>w_host = ''b'', w_port = 2, w_capacity = 1\<rparr>]"
  using round_robin_queue [of "selector_new [\<lparr>w_host = ''a'', w_port = 1, w_capacity = 0\<rparr>, \<lparr>w_host = ''b'', w_port = 2, w_capacity = 1\<rparr>] RoundRobin" "\<lambda>_. 0"]
  by (auto simp: selector_new_def selector_ok_def waiting_line_def free_worker_def)

lemma selector_ok_kept:
  "selector_ok (selector_new ws strategy)"
  "selector_ok s \<Longrightarrow> selector_ok (register_worker w s)"
  "selector_ok s \<Longrightarrow> selector_ok (snd (deregister_worker wid s))"
proof -
  have len: "replace_first P y xs = Some ys \<Longrightarrow> length ys = length xs" for P and y :: worker and xs ys
    by (induction P y xs arbitrary: ys rule: replace_first.induct) (auto split: if_splits)
  show "selector_ok (selector_new ws strategy)" by (simp add: selector_ok_def selector_new_def)
  show "selector_ok (register_worker w s)" if "selector_ok s"
    using that by (cases "ws_workers s = []") (auto simp: selector_ok_def register_worker_def dest: len split: option.splits)
  show "selector_ok (snd (deregister_worker wid s))" if "selector_ok s"
    using that by (auto simp: selector_ok_def deregister_worker_def Let_def)
qed

lemma foldl_lighter:
  "foldl (lighter load) x xs \<in> set (x # xs) \<and> (\<forall>y \<in> set (x # xs).
     load (worker_id (snd (foldl (lighter load) x xs))) \<le> load (worker_id (snd y)))"
proof (induction xs arbitrary: x)
  case (Cons a xs)
  from Cons.IH [of "lighter load x a"] show ?case by (auto simp: lighter_def Let_def split: if_splits)
qed simp

text \<open>Least loaded: the chosen worker is free and no free worker has a smaller load.\<close>

lemma least_loaded_minimal:
  assumes "select_least_loaded load s = Some w"
  shows "w \<in> set (ws_workers s) \<and> free_worker load w \<and> (\<forall>v \<in> set (ws_workers s). free_worker load v \<longrightarrow> load (worker_id w) \<le> load (worker_id v))"
proof -
  let ?l = "filter (\<lambda>(_, w). load (worker_id w) < w_capacity w) (enumerate 0 (ws_workers s))"
  obtain x xs where l: "?l = x # xs" and w: "w = snd (foldl (lighter load) x xs)"
    using assms by (auto simp: select_least_loaded_def split: list.splits)
  have "snd ` set (filter (\<lambda>(_, w). P w) (enumerate n xs)) = {w \<in> set xs. P w}" for P n and xs :: "worker list"
    by (induction xs arbitrary: n) auto
  then have "v \<in> snd ` set ?l \<longleftrightarrow> v \<in> set (ws_workers s) \<and> free_worker load v" for v
    by (simp add: free_worker_def)
  then show ?thesis using foldl_lighter [of load x xs] unfolding l w by fastforce
qed

end
