(* ===== verification/Overlord_Locks.thy ===== *)
theory Overlord_Locks
  imports Overlord_Task Int64 Json Hash_Map
begin

text \<open>
  The locks of the overlord on the metadata store (ferrodruid-overlord/src/lib.rs: acquisition, release and the
  reconciliation at start-up; ferrodruid-metadata/src/store.rs: the lock rows). The timestamp functions of chrono
  are a record; which operation of the store fails is an argument.
\<close>

section \<open>Times\<close>

record lock_time =
  lt_format :: "int \<Rightarrow> string option"
  lt_parse_rfc3339 :: "string \<Rightarrow> int option"
  lt_parse_date :: "string \<Rightarrow> int option"

definition show_int :: "int \<Rightarrow> string" where
  "show_int n = (if n < 0 then CHR ''-'' # show_nat (nat (- n)) else show_nat (nat n))"

definition format_epoch_millis_iso :: "lock_time \<Rightarrow> int \<Rightarrow> string" where
  "format_epoch_millis_iso tm millis = (case lt_format tm millis of None \<Rightarrow> show_int millis | Some s \<Rightarrow> s)"

definition parse_interval_bound_millis :: "lock_time \<Rightarrow> string \<Rightarrow> int option" where
  "parse_interval_bound_millis tm s = (case lt_parse_rfc3339 tm s of Some t \<Rightarrow> Some t | None \<Rightarrow> lt_parse_date tm s)"

definition parse_iso_interval :: "lock_time \<Rightarrow> string \<Rightarrow> (int \<times> int, overlord_error) res" where
  "parse_iso_interval tm s =
     (case split_first (CHR ''/'') s of
        None \<Rightarrow> fail (Ingestion ''interval missing /'')
      | Some (start_s, end_s) \<Rightarrow>
          (case parse_interval_bound_millis tm (trim start_s) of
             None \<Rightarrow> fail (Ingestion ''interval start'')
           | Some start \<Rightarrow>
               (case parse_interval_bound_millis tm (trim end_s) of
                  None \<Rightarrow> fail (Ingestion ''interval end'')
                | Some e \<Rightarrow> if e \<le> start then fail (Ingestion ''interval start must be before end'') else Ok (start, e))))"

text \<open>What the code relies on: parsing a printed instant gives the instant back, or fails.\<close>

definition time_ok :: "lock_time \<Rightarrow> bool" where
  "time_ok tm \<longleftrightarrow> (\<forall>m t. lt_parse_rfc3339 tm (format_epoch_millis_iso tm m) = Some t \<longrightarrow> t = m)"

section \<open>The request of a submitted task\<close>

fun json_pointer :: "string list \<Rightarrow> json \<Rightarrow> json option" where
  "json_pointer [] v = Some v"
| "json_pointer (k # ks) v = (case json_get v k of None \<Rightarrow> None | Some w \<Rightarrow> json_pointer ks w)"

definition or_else :: "'a option \<Rightarrow> 'a option \<Rightarrow> 'a option" where
  "or_else a b = (case a of None \<Rightarrow> b | Some x \<Rightarrow> Some x)"

fun interval_hull :: "lock_time \<Rightarrow> json list \<Rightarrow> int \<Rightarrow> int \<Rightarrow> (int \<times> int, overlord_error) res" where
  "interval_hull tm [] min_start max_end = Ok (min_start, max_end)"
| "interval_hull tm (iv # intervals) min_start max_end =
     (case json_as_str iv of
        None \<Rightarrow> fail (Ingestion ''intervals entry is not a string'')
      | Some s \<Rightarrow> bind (parse_iso_interval tm s) (\<lambda>(start, e). interval_hull tm intervals (min min_start start) (max max_end e)))"

definition parse_lock_request :: "lock_time \<Rightarrow> string \<Rightarrow> string \<Rightarrow> json \<Rightarrow> (tasklock option, overlord_error) res" where
  "parse_lock_request tm task_id data_source spec =
     (case or_else (json_pointer [''spec'', ''ioConfig'', ''intervals''] spec) (json_pointer [''ioConfig'', ''intervals''] spec) of
        Some (JArray intervals) \<Rightarrow>
          if intervals = [] then Ok None
          else
            let priority = (case or_else (json_pointer [''spec'', ''tuningConfig'', ''priority''] spec) (json_pointer [''priority''] spec) of
                Some v \<Rightarrow> (case json_as_i64 v of Some n \<Rightarrow> n | None \<Rightarrow> 0)
              | None \<Rightarrow> 0)
            in bind (interval_hull tm intervals I64_MAX I64_MIN) (\<lambda>(min_start, max_end).
                 if min_start = I64_MAX \<or> max_end = I64_MIN then fail (Ingestion ''intervals yielded no valid interval'')
                 else bind (interval_new min_start max_end) (\<lambda>iv.
                   Ok (Some \<lparr>tl_id = [], tl_task_id = task_id, tl_data_source = data_source, tl_interval = iv,
                     tl_lock_type = Exclusive, tl_priority = priority, tl_revoked = False\<rparr>)))
      | _ \<Rightarrow> Ok None)"

section \<open>Rows\<close>

record lock_row =
  lr_id :: string
  lr_task_id :: string
  lr_data_source :: string
  lr_interval_start :: string
  lr_interval_end :: string
  lr_lock_type :: string
  lr_priority :: int
  lr_revoked :: bool

definition lock_to_lock_row :: "lock_time \<Rightarrow> tasklock \<Rightarrow> lock_row" where
  "lock_to_lock_row tm l =
     \<lparr>lr_id = tl_id l, lr_task_id = tl_task_id l, lr_data_source = tl_data_source l,
      lr_interval_start = format_epoch_millis_iso tm (iv_start (tl_interval l)),
      lr_interval_end = format_epoch_millis_iso tm (iv_end (tl_interval l)),
      lr_lock_type = lock_type_str (tl_lock_type l), lr_priority = tl_priority l, lr_revoked = tl_revoked l\<rparr>"

definition lock_row_to_lock :: "lock_time \<Rightarrow> lock_row \<Rightarrow> (tasklock, overlord_error) res" where
  "lock_row_to_lock tm row =
     (case lt_parse_rfc3339 tm (lr_interval_start row) of
        None \<Rightarrow> fail (Metadata ''lock interval_start'')
      | Some start \<Rightarrow>
          (case lt_parse_rfc3339 tm (lr_interval_end row) of
             None \<Rightarrow> fail (Metadata ''lock interval_end'')
           | Some e \<Rightarrow>
               bind (if lr_lock_type row = ''SHARED'' then Ok Shared
                     else if lr_lock_type row = ''EXCLUSIVE'' then Ok Exclusive
                     else fail (Metadata ''unknown lock type'')) (\<lambda>ty.
               bind (interval_new start e) (\<lambda>iv.
               Ok \<lparr>tl_id = lr_id row, tl_task_id = lr_task_id row, tl_data_source = lr_data_source row, tl_interval = iv,
                   tl_lock_type = ty, tl_priority = lr_priority row, tl_revoked = lr_revoked row\<rparr>))))"

section \<open>The lock table\<close>

text \<open>Rows with the identifiers the data base generates (they grow and are never used again), and the registry of data
  sources that ever held a lock.\<close>

record lock_store =
  ls_next :: nat
  ls_rows :: "(nat \<times> lock_row) list"
  ls_lock_ds :: "string list"

datatype store_op = OpReadLocks string | OpTaskLocks string | OpRevoke string | OpInsert | OpDelete string | OpSetConfig string

definition row_out :: "nat \<times> lock_row \<Rightarrow> lock_row" where
  "row_out e = (snd e)\<lparr>lr_id := show_nat (fst e)\<rparr>"

definition get_locks_for_datasource :: "(store_op \<Rightarrow> bool) \<Rightarrow> string \<Rightarrow> bool \<Rightarrow> lock_store \<Rightarrow> (lock_row list, overlord_error) res" where
  "get_locks_for_datasource down ds include_revoked st =
     (if down (OpReadLocks ds) then fail (Metadata ''get locks for datasource'')
      else Ok (map row_out (sort_key (\<lambda>e. - lr_priority (snd e))
        (filter (\<lambda>e. lr_data_source (snd e) = ds \<and> (include_revoked \<or> \<not> lr_revoked (snd e))) (ls_rows st)))))"

definition get_locks_for_task :: "(store_op \<Rightarrow> bool) \<Rightarrow> string \<Rightarrow> lock_store \<Rightarrow> (lock_row list, overlord_error) res" where
  "get_locks_for_task down task_id st =
     (if down (OpTaskLocks task_id) then fail (Metadata ''get locks for task'')
      else Ok (map row_out (filter (\<lambda>e. lr_task_id (snd e) = task_id) (ls_rows st))))"

definition insert_task_lock :: "(store_op \<Rightarrow> bool) \<Rightarrow> lock_row \<Rightarrow> lock_store \<Rightarrow> (string, overlord_error) res \<times> lock_store" where
  "insert_task_lock down row st =
     (if down OpInsert then (fail (Metadata ''insert task lock''), st)
      else (Ok (show_nat (ls_next st)), st\<lparr>ls_rows := ls_rows st @ [(ls_next st, row)], ls_next := ls_next st + 1\<rparr>))"

definition revoke_lock :: "(store_op \<Rightarrow> bool) \<Rightarrow> string \<Rightarrow> lock_store \<Rightarrow> (unit, overlord_error) res \<times> lock_store" where
  "revoke_lock down i st =
     (case parse_i64 i of
        None \<Rightarrow> (fail (Metadata ''invalid lock id''), st)
      | Some rowid \<Rightarrow>
          if down (OpRevoke i) then (fail (Metadata ''revoke lock''), st)
          else (Ok (), st\<lparr>ls_rows := map (\<lambda>e. if int (fst e) = rowid then (fst e, (snd e)\<lparr>lr_revoked := True\<rparr>) else e) (ls_rows st)\<rparr>))"

definition delete_lock :: "(store_op \<Rightarrow> bool) \<Rightarrow> string \<Rightarrow> lock_store \<Rightarrow> (unit, overlord_error) res \<times> lock_store" where
  "delete_lock down i st =
     (case parse_i64 i of
        None \<Rightarrow> (fail (Metadata ''invalid lock id''), st)
      | Some rowid \<Rightarrow>
          if down (OpDelete i) then (fail (Metadata ''delete lock''), st)
          else (Ok (), st\<lparr>ls_rows := filter (\<lambda>e. int (fst e) \<noteq> rowid) (ls_rows st)\<rparr>))"

section \<open>Acquisition and release\<close>

text \<open>The decision of an acquisition, taken while the mutex of the data source is held.\<close>

definition acquire_decision :: "lock_time \<Rightarrow> (store_op \<Rightarrow> bool) \<Rightarrow> tasklock \<Rightarrow> lock_store \<Rightarrow> (lock_decision, overlord_error) res" where
  "acquire_decision tm down req st =
     bind (get_locks_for_datasource down (tl_data_source req) False st) (\<lambda>rows.
     bind (mapM (lock_row_to_lock tm) rows) (\<lambda>existing.
     Ok (evaluate_lock_request req existing)))"

fun revoke_all :: "(store_op \<Rightarrow> bool) \<Rightarrow> string list \<Rightarrow> lock_store \<Rightarrow> (unit, overlord_error) res \<times> lock_store" where
  "revoke_all down [] st = (Ok (), st)"
| "revoke_all down (i # ids) st =
     (case revoke_lock down i st of (Inl e, st') \<Rightarrow> (Inl e, st') | (Inr _, st') \<Rightarrow> revoke_all down ids st')"

definition persist_lock :: "lock_time \<Rightarrow> (store_op \<Rightarrow> bool) \<Rightarrow> tasklock \<Rightarrow> lock_store \<Rightarrow> (unit, overlord_error) res \<times> lock_store" where
  "persist_lock tm down l st =
     (case insert_task_lock down (lock_to_lock_row tm l) st of
        (Inl e, st') \<Rightarrow> (Inl e, st')
      | (Inr _, st') \<Rightarrow>
          (Ok (), if down (OpSetConfig (tl_data_source l)) then st'
                  else st'\<lparr>ls_lock_ds := List.insert (tl_data_source l) (ls_lock_ds st')\<rparr>))"

record lock_manager =
  lm_store :: lock_store
  lm_gate :: bool

definition try_acquire_lock :: "lock_time \<Rightarrow> (store_op \<Rightarrow> bool) \<Rightarrow> tasklock \<Rightarrow> lock_manager \<Rightarrow> (bool, overlord_error) res \<times> lock_manager" where
  "try_acquire_lock tm down req o' =
     (let o' = o'\<lparr>lm_gate := True\<rparr>;
          grant = (\<lambda>st. case persist_lock tm down req st of
              (Inl e, st') \<Rightarrow> (Inl e, o'\<lparr>lm_store := st'\<rparr>)
            | (Inr _, st') \<Rightarrow> (Ok True, o'\<lparr>lm_store := st'\<rparr>))
      in case acquire_decision tm down req (lm_store o') of
           Inl e \<Rightarrow> (Inl e, o')
         | Inr Blocked \<Rightarrow> (Ok False, o')
         | Inr (Preempt ids) \<Rightarrow>
             (case revoke_all down ids (lm_store o') of
                (Inl e, st) \<Rightarrow> (Inl e, o'\<lparr>lm_store := st\<rparr>)
              | (Inr _, st) \<Rightarrow> grant st)
         | Inr Granted \<Rightarrow> grant (lm_store o'))"

fun ok_of :: "('a, 'e) res \<Rightarrow> 'a option" where
  "ok_of (Inl _) = None"
| "ok_of (Inr x) = Some x"

definition acquire_lock ::
  "lock_time \<Rightarrow> (store_op \<Rightarrow> bool) \<Rightarrow> string \<Rightarrow> string \<Rightarrow> millis_interval \<Rightarrow> lock_type \<Rightarrow> int \<Rightarrow> lock_manager \<Rightarrow>
     (tasklock option, overlord_error) res \<times> lock_manager" where
  "acquire_lock tm down task_id data_source iv ty priority o' =
     (let req = \<lparr>tl_id = [], tl_task_id = task_id, tl_data_source = data_source, tl_interval = iv, tl_lock_type = ty,
            tl_priority = priority, tl_revoked = False\<rparr>
      in case try_acquire_lock tm down req o' of
           (Inl e, o'') \<Rightarrow> (Inl e, o'')
         | (Inr False, o'') \<Rightarrow> (Ok None, o'')
         | (Inr True, o'') \<Rightarrow>
             (bind (get_locks_for_task down task_id (lm_store o'')) (\<lambda>rows.
                Ok (find (\<lambda>l. tl_data_source l = data_source \<and> tl_interval l = iv \<and> tl_lock_type l = ty \<and> \<not> tl_revoked l)
                  (List.map_filter (\<lambda>r. ok_of (lock_row_to_lock tm r)) rows))), o''))"

definition locks_for_datasource :: "lock_time \<Rightarrow> (store_op \<Rightarrow> bool) \<Rightarrow> string \<Rightarrow> lock_store \<Rightarrow> (tasklock list, overlord_error) res" where
  "locks_for_datasource tm down ds st = bind (get_locks_for_datasource down ds False st) (mapM (lock_row_to_lock tm))"

text \<open>Failures to list or to delete are logged and skipped.\<close>

definition release_task_locks :: "(store_op \<Rightarrow> bool) \<Rightarrow> string \<Rightarrow> lock_store \<Rightarrow> lock_store" where
  "release_task_locks down task_id st =
     (case get_locks_for_task down task_id st of
        Inl _ \<Rightarrow> st
      | Inr rows \<Rightarrow> fold (\<lambda>r st. snd (delete_lock down (lr_id r) st)) rows st)"

text \<open>The reconciliation at start-up. What else the store lists (the data sources of tasks and of segments) and the live
  tasks are arguments.\<close>

fun reap_rows :: "(store_op \<Rightarrow> bool) \<Rightarrow> (string \<Rightarrow> bool) \<Rightarrow> lock_row list \<Rightarrow> nat \<times> lock_store \<Rightarrow> nat \<times> lock_store" where
  "reap_rows down live [] (released, st) = (released, st)"
| "reap_rows down live (r # rows) (released, st) =
     (if live (lr_task_id r) then reap_rows down live rows (released, st)
      else case delete_lock down (lr_id r) st of
          (Inr _, st') \<Rightarrow> reap_rows down live rows (released + 1, st')
        | (Inl _, st') \<Rightarrow> reap_rows down live rows (released, st'))"

fun reap_sources :: "(store_op \<Rightarrow> bool) \<Rightarrow> (string \<Rightarrow> bool) \<Rightarrow> string list \<Rightarrow> nat \<times> lock_store \<Rightarrow> (nat, overlord_error) res \<times> lock_store" where
  "reap_sources down live [] (released, st) = (Ok released, st)"
| "reap_sources down live (ds # sources) (released, st) =
     (case get_locks_for_datasource down ds True st of
        Inl e \<Rightarrow> (Inl e, st)
      | Inr rows \<Rightarrow> reap_sources down live sources (reap_rows down live rows (released, st)))"

definition reconcile_orphaned_task_locks ::
  "(store_op \<Rightarrow> bool) \<Rightarrow> (string \<Rightarrow> bool) \<Rightarrow> string list \<Rightarrow> lock_manager \<Rightarrow> (nat, overlord_error) res \<times> lock_manager" where
  "reconcile_orphaned_task_locks down live known_sources o' =
     (if lm_gate o' then (Ok 0, o')
      else case reap_sources down live (sort (remdups (known_sources @ ls_lock_ds (lm_store o')))) (0, lm_store o') of
          (r, st) \<Rightarrow> (r, o'\<lparr>lm_store := st\<rparr>))"

end
