(* ===== verification/Overlord_Lock_Properties.thy ===== *)
theory Overlord_Lock_Properties
  imports Overlord_Locks
begin

text \<open>
  The locks of the overlord: the steps of concurrent acquisitions, releases, reconciliations and restarts as a
  transition system, and its invariant; the outcome of one acquisition; what a row that cannot be read back does.
\<close>

section \<open>Rows and locks\<close>

lemma reachable_induct_inv: "reachable init step s \<Longrightarrow> (\<And>s. init s \<Longrightarrow> P s) \<Longrightarrow> (\<And>s t. P s \<Longrightarrow> step s t \<Longrightarrow> P t) \<Longrightarrow> P s"
  by (induction rule: reachable.induct) auto

lemma lock_row_fields:
  assumes "lock_row_to_lock tm row = Ok l"
  shows "tl_id l = lr_id row" "tl_task_id l = lr_task_id row" "tl_data_source l = lr_data_source row"
    "tl_priority l = lr_priority row" "tl_revoked l = lr_revoked row"
  using assms by (auto simp: lock_row_to_lock_def split: option.splits if_splits)

lemma lock_row_roundtrip:
  assumes "time_ok tm" and "lock_row_to_lock tm ((lock_to_lock_row tm req)\<lparr>lr_id := i\<rparr>) = Ok l"
  shows "l = req\<lparr>tl_id := i\<rparr>"
proof -
  have "lt_parse_rfc3339 tm (format_epoch_millis_iso tm m) = Some t \<Longrightarrow> t = m" for m t using assms(1) by (auto simp: time_ok_def)
  moreover have "lock_type_str ty = ''SHARED'' \<Longrightarrow> ty = Shared" "lock_type_str ty = ''EXCLUSIVE'' \<Longrightarrow> ty = Exclusive" for ty
    by (cases ty; simp)+
  ultimately show ?thesis
    using assms(2) by (cases req) (auto simp: lock_row_to_lock_def lock_to_lock_row_def interval_new_def split: option.splits if_splits)
qed

lemma parse_shown_id: "parse_i64 (show_nat n) = Some r \<Longrightarrow> r = int n"
  using show_nat_hd [of n] decimal_show_nat [of n] by (auto simp: parse_i64_def simp del: decimal_show_nat split: if_splits)

definition lock_at :: "lock_time \<Rightarrow> nat \<times> lock_row \<Rightarrow> tasklock \<Rightarrow> bool" where
  "lock_at tm e l \<longleftrightarrow> lock_row_to_lock tm (row_out e) = Ok l"

lemma lock_at_fields:
  "lock_at tm e l \<Longrightarrow> tl_id l = show_nat (fst e) \<and> tl_task_id l = lr_task_id (snd e) \<and> tl_data_source l = lr_data_source (snd e) \<and>
    tl_priority l = lr_priority (snd e) \<and> tl_revoked l = lr_revoked (snd e)"
  using lock_row_fields [of tm "row_out e" l] by (simp add: lock_at_def row_out_def)

lemma lock_at_revoked [simp]: "lock_at tm (i, r\<lparr>lr_revoked := True\<rparr>) l \<Longrightarrow> \<not> lock_conflicts l k \<and> \<not> lock_conflicts k l"
  by (drule lock_at_fields) (simp add: lock_conflicts_def)

section \<open>The transition system\<close>

record lock_sys =
  sy_mgr :: lock_manager
  sy_flight :: "string \<Rightarrow> (tasklock \<times> string list) option"

abbreviation sy_store :: "lock_sys \<Rightarrow> lock_store" where
  "sy_store s \<equiv> lm_store (sy_mgr s)"

definition with_store :: "lock_store \<Rightarrow> lock_sys \<Rightarrow> lock_sys" where
  "with_store st s = s\<lparr>sy_mgr := (sy_mgr s)\<lparr>lm_store := st\<rparr>\<rparr>"

definition in_flight :: "string \<Rightarrow> (tasklock \<times> string list) option \<Rightarrow> lock_sys \<Rightarrow> lock_sys" where
  "in_flight ds fl s = s\<lparr>sy_flight := (sy_flight s)(ds := fl)\<rparr>"

definition close_gate :: "lock_sys \<Rightarrow> lock_sys" where
  "close_gate s = s\<lparr>sy_mgr := (sy_mgr s)\<lparr>lm_gate := True\<rparr>\<rparr>"

text \<open>An acquisition holds the mutex of its data source from the decision to the insertion; between its operations on
  the store others may run. Every operation of the store may fail, and an acquisition may be cancelled at any point.\<close>

inductive lock_step :: "lock_time \<Rightarrow> lock_sys \<Rightarrow> lock_sys \<Rightarrow> bool" for tm :: lock_time where
  refused: "lock_step tm s (close_gate s)"
| granted: "sy_flight s (tl_data_source req) = None \<Longrightarrow> \<not> tl_revoked req \<Longrightarrow> acquire_decision tm down req (sy_store s) = Ok Granted \<Longrightarrow>
    lock_step tm s (in_flight (tl_data_source req) (Some (req, [])) (close_gate s))"
| preempt: "sy_flight s (tl_data_source req) = None \<Longrightarrow> \<not> tl_revoked req \<Longrightarrow> acquire_decision tm down req (sy_store s) = Ok (Preempt ids) \<Longrightarrow>
    lock_step tm s (in_flight (tl_data_source req) (Some (req, ids)) (close_gate s))"
| revoked: "sy_flight s ds = Some (req, i # ids) \<Longrightarrow> revoke_lock down i (sy_store s) = (Ok (), st) \<Longrightarrow>
    lock_step tm s (with_store st (in_flight ds (Some (req, ids)) s))"
| inserted: "sy_flight s ds = Some (req, []) \<Longrightarrow> persist_lock tm down req (sy_store s) = (Ok (), st) \<Longrightarrow>
    lock_step tm s (with_store st (in_flight ds None s))"
| cancelled: "lock_step tm s (in_flight ds None s)"
| deleted: "delete_lock down i (sy_store s) = (r, st) \<Longrightarrow> lock_step tm s (with_store st s)"
| reconciled: "reconcile_orphaned_task_locks down live known (sy_mgr s) = (r, m) \<Longrightarrow> lock_step tm s (s\<lparr>sy_mgr := m\<rparr>)"
| restarted: "lock_step tm s \<lparr>sy_mgr = (sy_mgr s)\<lparr>lm_gate := False\<rparr>, sy_flight = (\<lambda>_. None)\<rparr>"

definition lock_sys_init :: lock_sys where
  "lock_sys_init = \<lparr>sy_mgr = \<lparr>lm_store = \<lparr>ls_next = 0, ls_rows = [], ls_lock_ds = []\<rparr>, lm_gate = False\<rparr>, sy_flight = (\<lambda>_. None)\<rparr>"

section \<open>The invariant\<close>

definition exclusive_rows :: "lock_time \<Rightarrow> (nat \<times> lock_row) list \<Rightarrow> bool" where
  "exclusive_rows tm rows \<longleftrightarrow>
     (\<forall>e \<in> set rows. \<forall>f \<in> set rows. \<forall>a b. lock_at tm e a \<longrightarrow> lock_at tm f b \<longrightarrow> tl_task_id a \<noteq> tl_task_id b \<longrightarrow> \<not> lock_conflicts a b)"

text \<open>Every lock in the way of a request is still to be revoked.\<close>

definition cleared :: "lock_time \<Rightarrow> (nat \<times> lock_row) list \<Rightarrow> tasklock \<Rightarrow> string list \<Rightarrow> bool" where
  "cleared tm rows req ids \<longleftrightarrow>
     (\<forall>e \<in> set rows. \<forall>l. lock_at tm e l \<longrightarrow> tl_task_id l \<noteq> tl_task_id req \<longrightarrow> lock_conflicts req l \<longrightarrow> show_nat (fst e) \<in> set ids)"

definition lock_inv :: "lock_time \<Rightarrow> lock_sys \<Rightarrow> bool" where
  "lock_inv tm s \<longleftrightarrow> exclusive_rows tm (ls_rows (sy_store s)) \<and>
     (\<forall>ds req ids. sy_flight s ds = Some (req, ids) \<longrightarrow> tl_data_source req = ds \<and> cleared tm (ls_rows (sy_store s)) req ids)"

lemma decision_rivals:
  assumes "acquire_decision tm down req st = Ok d" and "e \<in> set (ls_rows st)" and "lock_at tm e l"
    and "tl_task_id l \<noteq> tl_task_id req" and "lock_conflicts req l"
  shows "\<exists>existing. d = evaluate_lock_request req existing \<and> l \<in> set (rivals req existing)"
proof -
  let ?rows = "filter (\<lambda>e. lr_data_source (snd e) = tl_data_source req \<and> \<not> lr_revoked (snd e)) (ls_rows st)"
  obtain existing where ex: "mapM (lock_row_to_lock tm) (map row_out (sort_key (\<lambda>e. - lr_priority (snd e)) ?rows)) = Ok existing"
    and d: "d = evaluate_lock_request req existing"
    using assms(1) by (auto simp: acquire_decision_def get_locks_for_datasource_def split: if_splits)
  have "e \<in> set (sort_key (\<lambda>e. - lr_priority (snd e)) ?rows)"
    using assms(2,5) lock_at_fields [OF assms(3)] by (auto simp: lock_conflicts_def split: if_splits)
  then obtain i where i: "i < length (sort_key (\<lambda>e. - lr_priority (snd e)) ?rows)" "sort_key (\<lambda>e. - lr_priority (snd e)) ?rows ! i = e"
    unfolding in_set_conv_nth by blast
  then have "lock_row_to_lock tm (row_out e) = Ok (existing ! i)" using mapM_nth [OF ex, of i] by simp
  then have "existing ! i = l" using assms(3) by (simp add: lock_at_def)
  moreover have "i < length existing" using mapM_length [OF ex] i(1) by simp
  ultimately have "l \<in> set existing" by (metis nth_mem)
  then show ?thesis using d assms(4,5) by (auto simp: rivals_def)
qed

lemma decision_cleared:
  "acquire_decision tm down req st = Ok Granted \<Longrightarrow> cleared tm (ls_rows st) req []"
  "acquire_decision tm down req st = Ok (Preempt ids) \<Longrightarrow> cleared tm (ls_rows st) req ids"
proof -
  show "cleared tm (ls_rows st) req []" if "acquire_decision tm down req st = Ok Granted"
    unfolding cleared_def
  proof (intro ballI allI impI)
    fix e l assume "e \<in> set (ls_rows st)" "lock_at tm e l" "tl_task_id l \<noteq> tl_task_id req" "lock_conflicts req l"
    from decision_rivals [OF that this] show "show_nat (fst e) \<in> set []" by (metis empty_iff evaluate_cases(1) list.set(1))
  qed
  show "cleared tm (ls_rows st) req ids" if dec: "acquire_decision tm down req st = Ok (Preempt ids)"
    unfolding cleared_def
  proof (intro ballI allI impI)
    fix e l assume a: "e \<in> set (ls_rows st)" "lock_at tm e l" "tl_task_id l \<noteq> tl_task_id req" "lock_conflicts req l"
    from decision_rivals [OF dec this] obtain existing where "evaluate_lock_request req existing = Preempt ids" "l \<in> set (rivals req existing)" by metis
    then have "tl_id l \<in> set ids" by (auto simp: evaluate_cases)
    then show "show_nat (fst e) \<in> set ids" using lock_at_fields [OF a(2)] by simp
  qed
qed

text \<open>Removing rows and revoking locks keeps both parts of the invariant.\<close>

lemma fewer_rows:
  assumes "set rows' \<subseteq> set rows"
  shows "exclusive_rows tm rows \<Longrightarrow> exclusive_rows tm rows'" "cleared tm rows req ids \<Longrightarrow> cleared tm rows' req ids"
  using assms unfolding exclusive_rows_def cleared_def by blast+

lemma delete_rows: "delete_lock down i st = (r, st') \<Longrightarrow> set (ls_rows st') \<subseteq> set (ls_rows st)"
  by (auto simp: delete_lock_def split: option.splits if_splits)

lemma reap_rows_subset: "reap_rows down live rows (n, st) = (n', st') \<Longrightarrow> set (ls_rows st') \<subseteq> set (ls_rows st)"
proof (induction rows arbitrary: n st)
  case (Cons r rows)
  then show ?case by (auto split: if_splits prod.splits sum.splits dest!: Cons.IH delete_rows)
qed simp

lemma reap_sources_subset: "reap_sources down live sources (n, st) = (r, st') \<Longrightarrow> set (ls_rows st') \<subseteq> set (ls_rows st)"
proof (induction sources arbitrary: n st)
  case (Cons ds sources)
  then show ?case by (auto split: sum.splits) (metis Cons.IH reap_rows_subset subsetD surj_pair)
qed simp

lemma reconcile_subset: "reconcile_orphaned_task_locks down live known m = (r, m') \<Longrightarrow> set (ls_rows (lm_store m')) \<subseteq> set (ls_rows (lm_store m))"
  by (auto simp: reconcile_orphaned_task_locks_def split: if_splits prod.splits dest!: reap_sources_subset)

lemma revoke_rows:
  assumes "revoke_lock down i st = (Ok (), st')"
  shows "e' \<in> set (ls_rows st') \<Longrightarrow> \<exists>e \<in> set (ls_rows st). fst e' = fst e \<and> (e' = e \<and> show_nat (fst e) \<noteq> i \<or> snd e' = (snd e)\<lparr>lr_revoked := True\<rparr>)"
proof -
  obtain rowid where p: "parse_i64 i = Some rowid"
    and st': "ls_rows st' = map (\<lambda>e. if int (fst e) = rowid then (fst e, (snd e)\<lparr>lr_revoked := True\<rparr>) else e) (ls_rows st)"
    using assms by (auto simp: revoke_lock_def split: option.splits if_splits)
  assume "e' \<in> set (ls_rows st')"
  then obtain e where e: "e \<in> set (ls_rows st)" "e' = (if int (fst e) = rowid then (fst e, (snd e)\<lparr>lr_revoked := True\<rparr>) else e)"
    unfolding st' set_map by blast
  have "show_nat (fst e) \<noteq> i" if "int (fst e) \<noteq> rowid" using that p parse_shown_id by metis
  then show ?thesis using e by (intro bexI [of _ e]) auto
qed

lemma revoke_exclusive:
  assumes "revoke_lock down i st = (Ok (), st')"
  shows "exclusive_rows tm (ls_rows st) \<Longrightarrow> exclusive_rows tm (ls_rows st')"
    and "cleared tm (ls_rows st) req ids \<Longrightarrow> cleared tm (ls_rows st') req (removeAll i ids)"
proof -
  have old: "e' \<in> set (ls_rows st) \<and> show_nat (fst e') \<noteq> i" if "e' \<in> set (ls_rows st')" "lock_at tm e' l" "lock_conflicts k l \<or> lock_conflicts l k" for e' l k
    using revoke_rows [OF assms that(1)] that(2,3) lock_at_revoked by (metis prod.collapse)
  show "exclusive_rows tm (ls_rows st')" if "exclusive_rows tm (ls_rows st)"
    using that old unfolding exclusive_rows_def by metis
  show "cleared tm (ls_rows st') req (removeAll i ids)" if "cleared tm (ls_rows st) req ids"
    using that old unfolding cleared_def by (metis (no_types) DiffI set_removeAll singletonD)
qed

lemma cleared_mono: "cleared tm rows req ids \<Longrightarrow> set ids \<subseteq> set ids' \<Longrightarrow> cleared tm rows req ids'"
  unfolding cleared_def by blast


lemma insert_rows:
  assumes "persist_lock tm down req st = (Ok (), st')"
  shows "ls_rows st' = ls_rows st @ [(ls_next st, lock_to_lock_row tm req)]"
  using assms by (auto simp: persist_lock_def insert_task_lock_def split: if_splits)

lemma inserted_lock: "time_ok tm \<Longrightarrow> lock_at tm (i, lock_to_lock_row tm req) l \<Longrightarrow> l = req\<lparr>tl_id := show_nat i\<rparr>"
  using lock_row_roundtrip [where i = "show_nat i"] by (simp add: lock_at_def row_out_def)

lemma conflicts_id [simp]:
  "lock_conflicts (a\<lparr>tl_id := i\<rparr>) b = lock_conflicts a b" "lock_conflicts a (b\<lparr>tl_id := i\<rparr>) = lock_conflicts a b"
  by (simp_all add: lock_conflicts_def)

lemma insert_exclusive:
  assumes "time_ok tm" and "exclusive_rows tm (ls_rows st)" and "cleared tm (ls_rows st) req []" and "persist_lock tm down req st = (Ok (), st')"
  shows "exclusive_rows tm (ls_rows st')"
proof -
  let ?n = "(ls_next st, lock_to_lock_row tm req)"
  have new: "\<not> lock_conflicts req l" if "e \<in> set (ls_rows st)" "lock_at tm e l" "tl_task_id l \<noteq> tl_task_id req" for e l
    using assms(3) that unfolding cleared_def by auto
  have "\<not> lock_conflicts a b" if asm: "e \<in> set (ls_rows st')" "f \<in> set (ls_rows st')" "lock_at tm e a" "lock_at tm f b" "tl_task_id a \<noteq> tl_task_id b" for e f a b
  proof -
    consider "e \<in> set (ls_rows st)" "f \<in> set (ls_rows st)" | "e = ?n" "f \<in> set (ls_rows st)" | "e \<in> set (ls_rows st)" "f = ?n" | "e = ?n" "f = ?n"
      using asm(1,2) unfolding insert_rows [OF assms(4)] by auto
    then show ?thesis
    proof cases
      case 1
      then show ?thesis using asm(3-5) assms(2) unfolding exclusive_rows_def by blast
    next
      case 2
      then have "a = req\<lparr>tl_id := show_nat (ls_next st)\<rparr>" using asm(3) inserted_lock [OF assms(1)] by blast
      then show ?thesis using new [OF 2(2) asm(4)] asm(5) by simp
    next
      case 3
      then have "b = req\<lparr>tl_id := show_nat (ls_next st)\<rparr>" using asm(4) inserted_lock [OF assms(1)] by blast
      then show ?thesis using new [OF 3(1) asm(3)] asm(5) lock_conflicts_sym by simp
    next
      case 4
      then show ?thesis using asm(3-5) by (metis inserted_lock [OF assms(1)])
    qed
  qed
  then show ?thesis unfolding exclusive_rows_def by blast
qed

lemma insert_cleared:
  assumes "cleared tm (ls_rows st) other ids" and "persist_lock tm down req st = (Ok (), st')" and "tl_data_source other \<noteq> tl_data_source req"
  shows "cleared tm (ls_rows st') other ids"
proof -
  have "\<not> lock_conflicts other l" if "lock_at tm (i, lock_to_lock_row tm req) l" for i l
    using lock_at_fields [OF that] assms(3) by (simp add: lock_conflicts_def lock_to_lock_row_def)
  then show ?thesis using assms(1) insert_rows [OF assms(2)] unfolding cleared_def by auto
qed

lemma lock_inv_rows:
  assumes "lock_inv tm s" and "set (ls_rows (sy_store s')) \<subseteq> set (ls_rows (sy_store s))"
    and "\<And>ds req ids. sy_flight s' ds = Some (req, ids) \<Longrightarrow> sy_flight s ds = Some (req, ids)"
  shows "lock_inv tm s'"
  using assms fewer_rows [OF assms(2)] unfolding lock_inv_def by blast

lemma lock_inv_begin:
  assumes "lock_inv tm s" and "cleared tm (ls_rows (sy_store s)) req ids"
  shows "lock_inv tm (in_flight (tl_data_source req) (Some (req, ids)) (close_gate s))"
  using assms by (auto simp: lock_inv_def in_flight_def close_gate_def)

lemma lock_inv_revoke:
  assumes "lock_inv tm s" and "sy_flight s ds = Some (req, i # ids)" and "revoke_lock down i (sy_store s) = (Ok (), st)"
  shows "lock_inv tm (with_store st (in_flight ds (Some (req, ids)) s))"
proof -
  note kept = revoke_exclusive [OF assms(3), where tm = tm]
  have fl: "tl_data_source r = d \<and> cleared tm (ls_rows (sy_store s)) r js" if "sy_flight s d = Some (r, js)" for d r js
    using assms(1) that unfolding lock_inv_def by blast
  have "cleared tm (ls_rows st) r js" if "sy_flight s d = Some (r, js)" for d r js
    using kept(2) [OF conjunct2 [OF fl [OF that]]] by (rule cleared_mono) auto
  moreover have "cleared tm (ls_rows st) req ids"
    using kept(2) [OF conjunct2 [OF fl [OF assms(2)]]] by (rule cleared_mono) auto
  ultimately show ?thesis
    using assms(1) fl [OF assms(2)] fl kept(1) unfolding lock_inv_def with_store_def in_flight_def by auto
qed

lemma lock_inv_insert:
  assumes "time_ok tm" and "lock_inv tm s" and "sy_flight s ds = Some (req, [])" and "persist_lock tm down req (sy_store s) = (Ok (), st)"
  shows "lock_inv tm (with_store st (in_flight ds None s))"
proof -
  have fl: "tl_data_source r = d \<and> cleared tm (ls_rows (sy_store s)) r js" if "sy_flight s d = Some (r, js)" for d r js
    using assms(2) that unfolding lock_inv_def by blast
  have "exclusive_rows tm (ls_rows (sy_store s))" using assms(2) unfolding lock_inv_def by blast
  from insert_exclusive [OF assms(1) this conjunct2 [OF fl [OF assms(3)]] assms(4)]
  have "exclusive_rows tm (ls_rows st)" .
  moreover have "cleared tm (ls_rows st) r js" if "sy_flight s d = Some (r, js)" "d \<noteq> ds" for d r js
    using fl [OF that(1)] fl [OF assms(3)] that(2) by (intro insert_cleared [OF _ assms(4)]) auto
  ultimately show ?thesis using fl unfolding lock_inv_def with_store_def in_flight_def by auto
qed

lemma lock_step_inv:
  assumes "time_ok tm" and "lock_inv tm s" and "lock_step tm s t"
  shows "lock_inv tm t"
  using assms(3)
proof cases
  case refused
  then show ?thesis using assms(2) by (intro lock_inv_rows [OF assms(2)]) (auto simp: close_gate_def)
next
  case (granted req down)
  then show ?thesis using lock_inv_begin [OF assms(2) decision_cleared(1)] by simp
next
  case (preempt req down ids)
  then show ?thesis using lock_inv_begin [OF assms(2) decision_cleared(2)] by simp
next
  case (revoked ds req i ids down st)
  then show ?thesis using lock_inv_revoke [OF assms(2)] by simp
next
  case (inserted ds req down st)
  then show ?thesis using lock_inv_insert [OF assms(1,2)] by simp
next
  case (cancelled ds)
  then show ?thesis by (intro lock_inv_rows [OF assms(2)]) (auto simp: in_flight_def split: if_splits)
next
  case (deleted down i r st)
  then show ?thesis using delete_rows [OF deleted(2)] by (intro lock_inv_rows [OF assms(2)]) (auto simp: with_store_def)
next
  case (reconciled down live known r m)
  then show ?thesis using reconcile_subset [OF reconciled(2)] by (intro lock_inv_rows [OF assms(2)]) auto
next
  case restarted
  then show ?thesis by (intro lock_inv_rows [OF assms(2)]) auto
qed

text \<open>C16: Locks of different tasks never conflict. Requests on one data source exclude each other from the decision to the
  insertion, everything else interleaves: in every state, also after failed operations of the store, cancelled requests,
  releases, reconciliations and restarts, two lock rows of different tasks that are not revoked do not overlap on the
  same data source, unless both are shared.\<close>

theorem task_intervals_exclusive:
  assumes "time_ok tm" and "reachable (\<lambda>s. s = lock_sys_init) (lock_step tm) s"
    and "e \<in> set (ls_rows (sy_store s))" and "f \<in> set (ls_rows (sy_store s))"
    and "lock_row_to_lock tm (row_out e) = Ok a" and "lock_row_to_lock tm (row_out f) = Ok b" and "tl_task_id a \<noteq> tl_task_id b"
    and "\<not> tl_revoked a" "\<not> tl_revoked b" "tl_data_source a = tl_data_source b" "tl_lock_type a = Exclusive"
  shows "{iv_start (tl_interval a)..<iv_end (tl_interval a)} \<inter> {iv_start (tl_interval b)..<iv_end (tl_interval b)} = {}"
proof -
  have "lock_inv tm lock_sys_init" by (simp add: lock_inv_def lock_sys_init_def exclusive_rows_def)
  then have "lock_inv tm s"
    using reachable_induct_inv [OF assms(2), of "lock_inv tm"] lock_step_inv [OF assms(1)] by blast
  then have "\<not> lock_conflicts a b" using assms(3-7) unfolding lock_inv_def exclusive_rows_def lock_at_def by blast
  then show ?thesis using assms(8-11) by (auto simp: lock_conflicts_def iv_overlaps_def)
qed


section \<open>One acquisition\<close>

lemma revoke_fails: "revoke_lock down i st = (Inl e, st') \<Longrightarrow> st' = st"
  by (auto simp: revoke_lock_def split: option.splits if_splits)

lemma persist_fails: "persist_lock tm down req st = (Inl e, st') \<Longrightarrow> st' = st"
  by (auto simp: persist_lock_def insert_task_lock_def split: if_splits)

lemma flight_simps [simp]:
  "sy_store (in_flight ds fl s) = sy_store s" "sy_store (with_store st s) = st" "sy_store (close_gate s) = sy_store s"
  "sy_flight (in_flight ds fl s) ds = fl" "sy_flight (with_store st s) = sy_flight s" "sy_flight (close_gate s) = sy_flight s"
  "with_store st (with_store st' s) = with_store st s" "with_store st (in_flight ds fl s) = in_flight ds fl (with_store st s)"
  "in_flight ds fl (in_flight ds fl' s) = in_flight ds fl s" "sy_flight s ds = fl \<Longrightarrow> in_flight ds fl s = s" "with_store (sy_store s) s = s"
  by (auto simp: in_flight_def with_store_def close_gate_def)

lemma revoke_all_steps:
  assumes "revoke_all down ids (sy_store s) = (r, st)" and "sy_flight s ds = Some (req, ids)"
  shows "(lock_step tm)\<^sup>*\<^sup>* s (in_flight ds (case r of Inl _ \<Rightarrow> None | Inr _ \<Rightarrow> Some (req, [])) (with_store st s))"
  using assms
proof (induction ids arbitrary: s)
  case (Cons i ids)
  obtain r1 st1 where one: "revoke_lock down i (sy_store s) = (r1, st1)" by fastforce
  show ?case
  proof (cases r1)
    case (Inl e)
    then have "r = Inl e" "st = sy_store s" using Cons.prems(1) one revoke_fails by auto
    then show ?thesis using lock_step.cancelled [of tm s ds] by simp
  next
    case (Inr u)
    let ?t = "with_store st1 (in_flight ds (Some (req, ids)) s)"
    have "lock_step tm s ?t" using lock_step.revoked [OF Cons.prems(2), of down st1 tm] one Inr by simp
    moreover have "(lock_step tm)\<^sup>*\<^sup>* ?t (in_flight ds (case r of Inl _ \<Rightarrow> None | Inr _ \<Rightarrow> Some (req, [])) (with_store st ?t))"
      using Cons.prems(1) one Inr by (intro Cons.IH) simp_all
    ultimately show ?thesis by (simp add: converse_rtranclp_into_rtranclp)
  qed
qed auto

lemma persist_steps:
  assumes "persist_lock tm down req (sy_store s) = (r, st)" and "sy_flight s ds = Some (req, [])"
  shows "(lock_step tm)\<^sup>*\<^sup>* s (in_flight ds None (with_store st s))"
proof (cases r)
  case (Inl e)
  then show ?thesis using persist_fails assms(1) lock_step.cancelled [of tm s ds] by fastforce
next
  case (Inr u)
  then show ?thesis using lock_step.inserted [OF assms(2), of tm down st] assms(1) by fastforce
qed

text \<open>An undisturbed acquisition is a sequence of steps of the transition system.\<close>

lemma acquisition_is_steps:
  assumes "try_acquire_lock tm down req (sy_mgr s) = (r, m)" and "sy_flight s (tl_data_source req) = None" and "\<not> tl_revoked req"
  shows "(lock_step tm)\<^sup>*\<^sup>* s (s\<lparr>sy_mgr := m\<rparr>)"
proof -
  let ?ds = "tl_data_source req" and ?s = "close_gate s"
  have mgr: "s\<lparr>sy_mgr := (sy_mgr s)\<lparr>lm_gate := True, lm_store := st\<rparr>\<rparr> = in_flight ?ds None (with_store st ?s)" for st
    using assms(2) by (auto simp: in_flight_def with_store_def close_gate_def fun_upd_idem)
  have gate: "(lock_step tm)\<^sup>*\<^sup>* s ?s" using lock_step.refused by blast
  have grant: "(lock_step tm)\<^sup>*\<^sup>* t (s\<lparr>sy_mgr := m\<rparr>)"
    if "sy_flight t ?ds = Some (req, [])" "in_flight ?ds None (with_store st t) = in_flight ?ds None (with_store st ?s)"
      "persist_lock tm down req (sy_store t) = (r', st)" "m = (sy_mgr s)\<lparr>lm_gate := True, lm_store := st\<rparr>" for t r' st
    using persist_steps [OF that(3,1)] that(2,4) mgr by simp
  show ?thesis
  proof (cases "acquire_decision tm down req (sy_store s)")
    case (Inl e)
    then show ?thesis using assms(1) gate by (auto simp: try_acquire_lock_def close_gate_def Let_def)
  next
    case (Inr d)
    show ?thesis
    proof (cases d)
      case Blocked
      then show ?thesis using assms(1) gate Inr by (auto simp: try_acquire_lock_def close_gate_def Let_def)
    next
      case Granted
      obtain r' st where p: "persist_lock tm down req (sy_store s) = (r', st)" by fastforce
      then have "m = (sy_mgr s)\<lparr>lm_gate := True, lm_store := st\<rparr>" using assms(1) Inr Granted by (auto simp: try_acquire_lock_def Let_def split: sum.splits)
      moreover have "lock_step tm s (in_flight ?ds (Some (req, [])) ?s)" using lock_step.granted [OF assms(2,3)] Inr Granted by simp
      ultimately show ?thesis using grant [of "in_flight ?ds (Some (req, [])) ?s" st r'] p by (simp add: converse_rtranclp_into_rtranclp)
    next
      case (Preempt ids)
      obtain r1 st1 where rev: "revoke_all down ids (sy_store s) = (r1, st1)" by fastforce
      have "lock_step tm s (in_flight ?ds (Some (req, ids)) ?s)" using lock_step.preempt [OF assms(2,3)] Inr Preempt by simp
      moreover have "(lock_step tm)\<^sup>*\<^sup>* (in_flight ?ds (Some (req, ids)) ?s)
          (in_flight ?ds (case r1 of Inl _ \<Rightarrow> None | Inr _ \<Rightarrow> Some (req, [])) (with_store st1 ?s))"
        using revoke_all_steps [of down ids "in_flight ?ds (Some (req, ids)) ?s" r1 st1 ?ds req tm] rev by simp
      ultimately have start: "(lock_step tm)\<^sup>*\<^sup>* s (in_flight ?ds (case r1 of Inl _ \<Rightarrow> None | Inr _ \<Rightarrow> Some (req, [])) (with_store st1 ?s))"
        by (simp add: converse_rtranclp_into_rtranclp)
      show ?thesis
      proof (cases r1)
        case (Inl e)
        then have "m = (sy_mgr s)\<lparr>lm_gate := True, lm_store := st1\<rparr>" using assms(1) Inr Preempt rev by (auto simp: try_acquire_lock_def Let_def)
        then show ?thesis using start Inl mgr by simp
      next
        case (Inr u)
        obtain r' st where p: "persist_lock tm down req st1 = (r', st)" by fastforce
        then have "m = (sy_mgr s)\<lparr>lm_gate := True, lm_store := st\<rparr>"
          using assms(1) \<open>acquire_decision _ _ _ _ = _\<close> Preempt rev Inr by (auto simp: try_acquire_lock_def Let_def split: sum.splits)
        then show ?thesis using start Inr grant [of "in_flight ?ds (Some (req, [])) (with_store st1 ?s)" st r'] p
          by (auto intro: rtranclp_trans)
      qed
    qed
  qed
qed


definition rival_row :: "lock_time \<Rightarrow> tasklock \<Rightarrow> nat \<times> lock_row \<Rightarrow> bool" where
  "rival_row tm req e =
     (case lock_row_to_lock tm (row_out e) of Inl _ \<Rightarrow> False | Inr l \<Rightarrow> tl_task_id l \<noteq> tl_task_id req \<and> lock_conflicts req l)"

definition revoke_entry :: "nat \<times> lock_row \<Rightarrow> nat \<times> lock_row" where
  "revoke_entry e = (fst e, (snd e)\<lparr>lr_revoked := True\<rparr>)"

lemma revoke_all_ids:
  assumes "\<forall>n \<in> set ns. n < 2 ^ 63"
  shows "revoke_all (\<lambda>_. False) (map show_nat ns) st = (Ok (), st\<lparr>ls_rows := map (\<lambda>e. if fst e \<in> set ns then revoke_entry e else e) (ls_rows st)\<rparr>)"
  using assms
proof (induction ns arbitrary: st)
  case (Cons n ns)
  let ?st = "st\<lparr>ls_rows := map (\<lambda>e. if fst e = n then revoke_entry e else e) (ls_rows st)\<rparr>"
  have "revoke_lock (\<lambda>_. False) (show_nat n) st = (Ok (), ?st)" using Cons.prems by (simp add: revoke_lock_def revoke_entry_def)
  moreover have "revoke_all (\<lambda>_. False) (map show_nat ns) ?st = (Ok (), ?st\<lparr>ls_rows := map (\<lambda>e. if fst e \<in> set ns then revoke_entry e else e) (ls_rows ?st)\<rparr>)"
    using Cons.prems by (intro Cons.IH) simp
  ultimately show ?case by (auto simp: revoke_entry_def)
qed (simp add: map_idI)

lemma mapM_rows: "mapM (lock_row_to_lock tm) (map row_out es) = mapM (\<lambda>e. lock_row_to_lock tm (row_out e)) es"
  by (induction es) simp_all

text \<open>The locks an acquisition has in its way, as the rows they come from.\<close>

lemma acquire_decision_rows:
  assumes "\<forall>e \<in> set (ls_rows st). lr_data_source (snd e) = tl_data_source req \<longrightarrow> \<not> lr_revoked (snd e) \<longrightarrow> (\<exists>l. lock_row_to_lock tm (row_out e) = Ok l)"
  shows "\<exists>existing ns. acquire_decision tm (\<lambda>_. False) req st = Ok (evaluate_lock_request req existing) \<and>
    map tl_id (rivals req existing) = map show_nat ns \<and> set ns = fst ` {e \<in> set (ls_rows st). rival_row tm req e} \<and>
    tl_priority ` set (rivals req existing) = (\<lambda>e. lr_priority (snd e)) ` {e \<in> set (ls_rows st). rival_row tm req e}"
proof -
  let ?rows = "sort_key (\<lambda>e. - lr_priority (snd e)) (filter (\<lambda>e. lr_data_source (snd e) = tl_data_source req \<and> \<not> lr_revoked (snd e)) (ls_rows st))"
  define view where "view e = (SOME l. lock_row_to_lock tm (row_out e) = Ok l)" for e
  have view: "lock_row_to_lock tm (row_out e) = Ok (view e)" if "e \<in> set ?rows" for e
    using that assms unfolding view_def by (auto intro: someI_ex)
  let ?riv = "filter (rival_row tm req) ?rows"
  have "mapM (lock_row_to_lock tm) (map row_out ?rows) = Ok (map view ?rows)"
    unfolding mapM_rows by (rule mapM_Ok) (rule view)
  then have dec: "acquire_decision tm (\<lambda>_. False) req st = Ok (evaluate_lock_request req (map view ?rows))"
    by (simp add: acquire_decision_def get_locks_for_datasource_def)
  have "filter (\<lambda>e. tl_task_id (view e) \<noteq> tl_task_id req \<and> lock_conflicts req (view e)) ?rows = ?riv"
    by (rule filter_cong [OF refl]) (simp add: rival_row_def view del: set_sort)
  then have riv: "rivals req (map view ?rows) = map view ?riv" by (simp add: rivals_def filter_map comp_def)
  have fields: "tl_id (view e) = show_nat (fst e) \<and> tl_priority (view e) = lr_priority (snd e)" if "e \<in> set ?rows" for e
    using lock_at_fields [of tm e "view e"] view [OF that] by (simp add: lock_at_def)
  have "lr_data_source (snd e) = tl_data_source req \<and> \<not> lr_revoked (snd e)" if "rival_row tm req e" for e
    using that lock_at_fields [of tm e] by (auto simp: rival_row_def lock_at_def lock_conflicts_def split: sum.splits if_splits)
  then have set_riv: "set ?riv = {e \<in> set (ls_rows st). rival_row tm req e}" by auto
  have "map tl_id (map view ?riv) = map show_nat (map fst ?riv)" using fields by simp
  moreover have "set (map fst ?riv) = fst ` {e \<in> set (ls_rows st). rival_row tm req e}" unfolding set_map set_riv ..
  moreover have "tl_priority ` set (map view ?riv) = (\<lambda>e. lr_priority (snd e)) ` {e \<in> set (ls_rows st). rival_row tm req e}"
    unfolding set_map image_image set_riv [symmetric] using fields by (intro image_cong) auto
  ultimately show ?thesis using dec unfolding riv [symmetric] by blast
qed

text \<open>C21: The outcome of a request. On a store that works and whose rows can be read, a request is granted exactly when every
  conflicting lock of another task has a lower priority; then exactly these locks are revoked and the new row is
  added. Otherwise no row changes.\<close>

theorem acquire_outcome:
  assumes "distinct (map fst (ls_rows (lm_store m)))" and "\<forall>e \<in> set (ls_rows (lm_store m)). fst e < 2 ^ 63"
    and "\<forall>e \<in> set (ls_rows (lm_store m)). lr_data_source (snd e) = tl_data_source req \<longrightarrow> \<not> lr_revoked (snd e) \<longrightarrow> (\<exists>l. lock_row_to_lock tm (row_out e) = Ok l)"
  shows "\<exists>m'. try_acquire_lock tm (\<lambda>_. False) req m =
      (Ok (\<forall>e \<in> set (ls_rows (lm_store m)). rival_row tm req e \<longrightarrow> lr_priority (snd e) < tl_priority req), m') \<and>
    ls_rows (lm_store m') =
      (if \<forall>e \<in> set (ls_rows (lm_store m)). rival_row tm req e \<longrightarrow> lr_priority (snd e) < tl_priority req
       then map (\<lambda>e. if rival_row tm req e then revoke_entry e else e) (ls_rows (lm_store m)) @
         [(ls_next (lm_store m), lock_to_lock_row tm req)]
       else ls_rows (lm_store m))"
proof -
  let ?st = "lm_store m" and ?low = "\<forall>e \<in> set (ls_rows (lm_store m)). rival_row tm req e \<longrightarrow> lr_priority (snd e) < tl_priority req"
  obtain existing ns where dec: "acquire_decision tm (\<lambda>_. False) req ?st = Ok (evaluate_lock_request req existing)"
    and ids: "map tl_id (rivals req existing) = map show_nat ns" and ns: "set ns = fst ` {e \<in> set (ls_rows ?st). rival_row tm req e}"
    and pri: "tl_priority ` set (rivals req existing) = (\<lambda>e. lr_priority (snd e)) ` {e \<in> set (ls_rows ?st). rival_row tm req e}"
    using acquire_decision_rows [OF assms(3)] by blast
  have "(\<forall>p \<in> tl_priority ` set (rivals req existing). p < tl_priority req) \<longleftrightarrow> ?low" unfolding pri by blast
  then have low: "(\<forall>h \<in> set (rivals req existing). tl_priority h < tl_priority req) \<longleftrightarrow> ?low" by simp
  have rev: "revoke_all (\<lambda>_. False) (map show_nat ns) ?st = (Ok (), ?st\<lparr>ls_rows := map (\<lambda>e. if rival_row tm req e then revoke_entry e else e) (ls_rows ?st)\<rparr>)"
  proof -
    have "fst e \<in> set ns \<longleftrightarrow> rival_row tm req e" if "e \<in> set (ls_rows ?st)" for e
      using that assms(1) unfolding ns distinct_map by (auto dest!: inj_onD)
    then have "map (\<lambda>e. if fst e \<in> set ns then revoke_entry e else e) (ls_rows ?st) =
        map (\<lambda>e. if rival_row tm req e then revoke_entry e else e) (ls_rows ?st)" by (intro map_cong) auto
    moreover have "\<forall>n \<in> set ns. n < 2 ^ 63" using assms(2) unfolding ns by blast
    ultimately show ?thesis using revoke_all_ids [of ns ?st] by simp
  qed
  have grant: "fst (persist_lock tm (\<lambda>_. False) req st) = Ok () \<and> ls_rows (snd (persist_lock tm (\<lambda>_. False) req st)) = ls_rows st @ [(ls_next st, lock_to_lock_row tm req)]" for st
    by (simp add: persist_lock_def insert_task_lock_def)
  show ?thesis
  proof (cases "evaluate_lock_request req existing")
    case Blocked
    then have "\<not> ?low" using low by (auto simp: evaluate_cases not_less)
    then show ?thesis using dec Blocked by (auto simp: try_acquire_lock_def Let_def)
  next
    case Granted
    then have none: "\<not> rival_row tm req e" if "e \<in> set (ls_rows ?st)" for e using that pri by (cases e) (auto simp: evaluate_cases)
    then have same: "map (\<lambda>e. if rival_row tm req e then revoke_entry e else e) (ls_rows ?st) = ls_rows ?st" by (intro map_idI) auto
    from none show ?thesis using grant [of ?st] dec Granted same by (auto simp: try_acquire_lock_def Let_def split: prod.splits sum.splits)
  next
    case (Preempt ids')
    then have p: "ids' = map show_nat ns" "?low" using ids low by (auto simp: evaluate_cases)
    show ?thesis
      using grant [of "?st\<lparr>ls_rows := map (\<lambda>e. if rival_row tm req e then revoke_entry e else e) (ls_rows ?st)\<rparr>"] dec Preempt p rev
      by (auto simp: try_acquire_lock_def Let_def split: prod.splits sum.splits)
  qed
qed

text \<open>C40: A lock whose interval cannot be read back blocks its data source: once it is granted, every later request on the data
  source fails with an error, whatever its task, interval and priority, until the row is deleted.\<close>

theorem unreadable_lock_blocks:
  assumes "lt_parse_rfc3339 tm (format_epoch_millis_iso tm (iv_end (tl_interval req))) = None" and "\<not> tl_revoked req"
    and "try_acquire_lock tm down req m = (Ok True, m')" and "tl_data_source other = tl_data_source req"
  shows "\<exists>e. try_acquire_lock tm down' other m' = (Inl e, m')"
proof -
  have gate: "lm_gate m' = True" using assms(3) by (auto simp: try_acquire_lock_def Let_def split: sum.splits lock_decision.splits prod.splits)
  obtain st st0 where st0: "lm_store m' = st" "persist_lock tm down req st0 = (Ok (), st)"
    using assms(3) by (auto simp: try_acquire_lock_def Let_def split: sum.splits lock_decision.splits prod.splits)
  then obtain i where st: "lm_store m' = st" "(i, lock_to_lock_row tm req) \<in> set (ls_rows st)"
    using insert_rows [OF st0(2)] by auto
  let ?rows = "sort_key (\<lambda>e. - lr_priority (snd e)) (filter (\<lambda>e. lr_data_source (snd e) = tl_data_source other \<and> \<not> lr_revoked (snd e)) (ls_rows st))"
  have bad: "(i, lock_to_lock_row tm req) \<in> set ?rows" using st(2) assms(2,4) by (simp add: lock_to_lock_row_def)
  have unread: "lock_row_to_lock tm (row_out (i, lock_to_lock_row tm req)) \<noteq> Ok l" for l
    using assms(1) by (auto simp: lock_row_to_lock_def row_out_def lock_to_lock_row_def split: option.splits)
  have unread_all: "mapM (lock_row_to_lock tm) (map row_out ?rows) \<noteq> Ok ls" for ls
  proof
    assume ok: "mapM (lock_row_to_lock tm) (map row_out ?rows) = Ok ls"
    from bad obtain j where "j < length ?rows" "?rows ! j = (i, lock_to_lock_row tm req)" unfolding in_set_conv_nth by blast
    then show False using mapM_nth [OF ok, of j] unread by simp
  qed
  obtain e where "acquire_decision tm down' other st = Inl e"
    using unread_all by (cases "acquire_decision tm down' other st") (auto simp: acquire_decision_def get_locks_for_datasource_def split: if_splits)
  then show ?thesis using st(1) gate by (auto simp: try_acquire_lock_def Let_def)
qed


section \<open>A concrete clock\<close>

text \<open>Milliseconds as decimal numbers of at most three digits; other instants are printed but not parsed.\<close>

definition test_time :: lock_time where
  "test_time = \<lparr>lt_format = (\<lambda>m. if 0 \<le> m \<and> m < 1000 then Some (show_nat (nat m)) else None),
     lt_parse_rfc3339 = (\<lambda>s. if length s \<le> 3 then parse_i64 s else None), lt_parse_date = (\<lambda>_. None)\<rparr>"

definition test_request :: "string \<Rightarrow> int \<Rightarrow> int \<Rightarrow> tasklock" where
  "test_request task start e =
     \<lparr>tl_id = [], tl_task_id = task, tl_data_source = ''w'', tl_interval = \<lparr>iv_start = start, iv_end = e\<rparr>, tl_lock_type = Exclusive,
      tl_priority = 0, tl_revoked = False\<rparr>"

definition test_manager :: "int \<Rightarrow> lock_manager" where
  "test_manager e = snd (try_acquire_lock test_time (\<lambda>_. False) (test_request ''a'' 0 e) (sy_mgr lock_sys_init))"

lemma parse_shown_int: "parse_i64 (show_int m) = Some t \<Longrightarrow> t = m"
proof (cases "m < 0")
  case True
  assume "parse_i64 (show_int m) = Some t"
  then show ?thesis using True by (auto simp: show_int_def parse_i64_def split: if_splits)
next
  case False
  assume "parse_i64 (show_int m) = Some t"
  then show ?thesis using False parse_shown_id [of "nat m" t] by (simp add: show_int_def)
qed

lemma test_time_ok: "time_ok test_time"
  using parse_shown_int parse_shown_id by (fastforce simp: time_ok_def test_time_def format_epoch_millis_iso_def split: if_splits)

lemma test_parse_time [simp]: "0 \<le> m \<Longrightarrow> m < 1000 \<Longrightarrow> lt_parse_rfc3339 test_time (format_epoch_millis_iso test_time m) = Some m"
proof -
  assume m: "0 \<le> m" "m < 1000"
  have "length (show_nat n) \<le> 3" if "n < 1000" for n
    using that by (simp add: show_nat.simps [of n] show_nat.simps [of "n div 10"] show_nat.simps [of "n div 10 div 10"])
  then have "length (show_nat (nat m)) \<le> 3" using m by simp
  moreover have "nat m < 2 ^ 63" using m by simp
  ultimately show ?thesis using m by (simp add: test_time_def format_epoch_millis_iso_def)
qed

lemma test_unreadable: "lt_parse_rfc3339 test_time (format_epoch_millis_iso test_time 5000) = None"
  by (simp add: test_time_def format_epoch_millis_iso_def show_int_def show_nat.simps)

lemma test_row_lock:
  "0 \<le> start \<Longrightarrow> start < e \<Longrightarrow> e < 1000 \<Longrightarrow>
     lock_row_to_lock test_time (row_out (i, lock_to_lock_row test_time (test_request task start e))) = Ok ((test_request task start e)\<lparr>tl_id := show_nat i\<rparr>)"
  by (simp add: lock_row_to_lock_def row_out_def lock_to_lock_row_def test_request_def interval_new_def)

lemma test_first:
  "fst (try_acquire_lock test_time (\<lambda>_. False) (test_request ''a'' 0 e) (sy_mgr lock_sys_init)) = Ok True"
  "ls_rows (lm_store (test_manager e)) = [(0, lock_to_lock_row test_time (test_request ''a'' 0 e))]" "ls_next (lm_store (test_manager e)) = 1"
  by (simp_all add: test_manager_def try_acquire_lock_def acquire_decision_def get_locks_for_datasource_def lock_sys_init_def evaluate_lock_request_def
      persist_lock_def insert_task_lock_def)

lemma test_acquired: "try_acquire_lock test_time (\<lambda>_. False) (test_request ''a'' 0 e) (sy_mgr lock_sys_init) = (Ok True, test_manager e)"
  by (simp add: prod_eq_iff test_first(1)) (simp add: test_manager_def)

lemma test_second:
  "ls_rows (lm_store (snd (try_acquire_lock test_time (\<lambda>_. False) (test_request ''b'' 10 20) (test_manager 10)))) =
     [(0, lock_to_lock_row test_time (test_request ''a'' 0 10)), (1, lock_to_lock_row test_time (test_request ''b'' 10 20))]"
proof -
  have "acquire_decision test_time (\<lambda>_. False) (test_request ''b'' 10 20) (lm_store (test_manager 10)) = Ok Granted"
    by (simp add: acquire_decision_def get_locks_for_datasource_def test_first(2) test_row_lock)
      (simp add: lock_to_lock_row_def test_request_def evaluate_lock_request_def lock_conflicts_def iv_overlaps_def)
  then show ?thesis by (simp add: try_acquire_lock_def persist_lock_def insert_task_lock_def test_first)
qed

theorem task_intervals_exclusive_witness:
  "\<exists>s e f a b. reachable (\<lambda>s. s = lock_sys_init) (lock_step test_time) s \<and> e \<in> set (ls_rows (sy_store s)) \<and> f \<in> set (ls_rows (sy_store s)) \<and>
     lock_row_to_lock test_time (row_out e) = Ok a \<and> lock_row_to_lock test_time (row_out f) = Ok b \<and> tl_task_id a \<noteq> tl_task_id b \<and>
     {iv_start (tl_interval a)..<iv_end (tl_interval a)} \<inter> {iv_start (tl_interval b)..<iv_end (tl_interval b)} = {}"
proof -
  let ?s1 = "lock_sys_init\<lparr>sy_mgr := test_manager 10\<rparr>"
  let ?m2 = "snd (try_acquire_lock test_time (\<lambda>_. False) (test_request ''b'' 10 20) (test_manager 10))"
  have "(lock_step test_time)\<^sup>*\<^sup>* lock_sys_init ?s1"
    by (rule acquisition_is_steps [OF test_acquired]) (simp_all add: lock_sys_init_def test_request_def)
  moreover have "(lock_step test_time)\<^sup>*\<^sup>* ?s1 (?s1\<lparr>sy_mgr := ?m2\<rparr>)"
    by (rule acquisition_is_steps [of _ _ "test_request ''b'' 10 20"]) (simp_all add: lock_sys_init_def test_request_def prod_eq_iff)
  ultimately have "(lock_step test_time)\<^sup>*\<^sup>* lock_sys_init (?s1\<lparr>sy_mgr := ?m2\<rparr>)" by (rule rtranclp_trans)
  then have r: "reachable (\<lambda>s. s = lock_sys_init) (lock_step test_time) (?s1\<lparr>sy_mgr := ?m2\<rparr>)"
    by (induction rule: rtranclp_induct) (auto intro: reachable.intros)
  have a: "lock_row_to_lock test_time (row_out (0, lock_to_lock_row test_time (test_request ''a'' 0 10))) = Ok ((test_request ''a'' 0 10)\<lparr>tl_id := show_nat 0\<rparr>)"
    by (rule test_row_lock) simp_all
  have b: "lock_row_to_lock test_time (row_out (1, lock_to_lock_row test_time (test_request ''b'' 10 20))) = Ok ((test_request ''b'' 10 20)\<lparr>tl_id := show_nat 1\<rparr>)"
    by (rule test_row_lock) simp_all
  let ?a = "(test_request ''a'' 0 10)\<lparr>tl_id := show_nat 0\<rparr>" and ?b = "(test_request ''b'' 10 20)\<lparr>tl_id := show_nat 1\<rparr>"
  have "{iv_start (tl_interval ?a)..<iv_end (tl_interval ?a)} \<inter> {iv_start (tl_interval ?b)..<iv_end (tl_interval ?b)} = {}"
    by (rule task_intervals_exclusive [OF test_time_ok r _ _ a b]) (simp_all add: test_second, simp_all add: test_request_def)
  moreover have "tl_task_id ((test_request ''a'' 0 10)\<lparr>tl_id := show_nat 0\<rparr>) \<noteq> tl_task_id ((test_request ''b'' 10 20)\<lparr>tl_id := show_nat 1\<rparr>)"
    by (simp add: test_request_def)
  moreover have "(0, lock_to_lock_row test_time (test_request ''a'' 0 10)) \<in> set (ls_rows (sy_store (?s1\<lparr>sy_mgr := ?m2\<rparr>)))"
    "(1, lock_to_lock_row test_time (test_request ''b'' 10 20)) \<in> set (ls_rows (sy_store (?s1\<lparr>sy_mgr := ?m2\<rparr>)))"
    by (simp_all add: test_second)
  ultimately show ?thesis using r a b by blast
qed

theorem acquire_outcome_witness:
  "\<exists>m'. try_acquire_lock test_time (\<lambda>_. False) ((test_request ''b'' 5 20)\<lparr>tl_priority := 1\<rparr>) (test_manager 10) = (Ok True, m') \<and>
     map (lr_revoked \<circ> snd) (ls_rows (lm_store m')) = [True, False]"
proof -
  let ?req = "(test_request ''b'' 5 20)\<lparr>tl_priority := 1\<rparr>" and ?e = "(0, lock_to_lock_row test_time (test_request ''a'' 0 10))"
  have riv: "rival_row test_time ?req ?e" by (simp add: rival_row_def test_row_lock) (simp add: test_request_def lock_conflicts_def iv_overlaps_def)
  then show ?thesis
    using acquire_outcome [of "test_manager 10" ?req test_time] test_row_lock [of 0 10 0 "''a''"]
    by (auto simp: test_first revoke_entry_def) (auto simp: lock_to_lock_row_def test_request_def)
qed

theorem unreadable_lock_blocks_witness:
  "\<exists>e. try_acquire_lock test_time (\<lambda>_. False) (test_request ''b'' 7000 8000) (test_manager 5000) = (Inl e, test_manager 5000)"
proof (rule unreadable_lock_blocks [OF _ _ test_acquired])
  show "lt_parse_rfc3339 test_time (format_epoch_millis_iso test_time (iv_end (tl_interval (test_request ''a'' 0 5000)))) = None"
    using test_unreadable by (simp add: test_request_def)
qed (simp_all add: test_request_def)

end
