(* ===== verification/Overlord_Batch.thy ===== *)
theory Overlord_Batch
  imports Overlord_Task
begin

text \<open>
  The life of a batch task in the overlord (ferrodruid-overlord/src/lib.rs): the detached tail that executes it, the
  shielded publication with its fence, and everything that may end it: shutting down, a manual transition, the loss of
  a worker, a tail that dies. The tables of the code are keyed by the task, and each of these paths touches one
  key, so the state here is that of one task.
\<close>

section \<open>A publication\<close>

datatype fence_state = InFlight | DurableAppendCommitted | Resolved bool

text \<open>Where the publication is. A deadline or a panic drops it at an await point; an operation on the store that was under
  way then still runs to its end.\<close>

datatype section_point = AtPersist | AtCommit | AtCleanup | AtRollback | Finished | Dropped | DroppedCommitting | DroppedRollingBack

record publication =
  pub_append :: bool
  pub_durable :: bool
  pub_point :: section_point
  pub_fence :: fence_state
  pub_row :: bool
  pub_swapped :: bool
  pub_suppress :: bool

definition publication_new :: "bool \<Rightarrow> bool \<Rightarrow> publication" where
  "publication_new append_to_existing deep_storage =
     \<lparr>pub_append = append_to_existing, pub_durable = deep_storage, pub_point = AtPersist, pub_fence = InFlight,
      pub_row = False, pub_swapped = False, pub_suppress = False\<rparr>"

definition resolve :: "bool \<Rightarrow> publication \<Rightarrow> publication" where
  "resolve committed p = p\<lparr>pub_point := Finished, pub_fence := Resolved committed\<rparr>"

text \<open>Phase P: the upload, when there is deep storage.\<close>

definition section_persist :: "bool \<Rightarrow> publication \<Rightarrow> publication" where
  "section_persist uploaded p = (if pub_durable p \<and> \<not> uploaded then resolve False p else p\<lparr>pub_point := AtCommit\<rparr>)"

text \<open>Phase M and, without an await in between, the swap.\<close>

definition section_commit :: "bool \<Rightarrow> bool \<Rightarrow> publication \<Rightarrow> publication" where
  "section_commit written swapped p =
     (if \<not> written then p\<lparr>pub_point := AtCleanup\<rparr>
      else
        let p = p\<lparr>pub_row := True\<rparr>;
            p = (if pub_append p \<and> pub_durable p then p\<lparr>pub_fence := DurableAppendCommitted\<rparr> else p)
        in if swapped then resolve True (p\<lparr>pub_swapped := True\<rparr>) else p\<lparr>pub_point := AtRollback\<rparr>)"

text \<open>The orphaned blob is deleted before the section ends.\<close>

definition section_cleanup :: "publication \<Rightarrow> publication" where
  "section_cleanup p = resolve False p"

definition section_rollback :: "bool \<Rightarrow> publication \<Rightarrow> publication" where
  "section_rollback rolled_back p =
     (let p = (if rolled_back then p\<lparr>pub_row := False\<rparr> else p);
          committed = (pub_append p \<and> \<not> rolled_back \<and> pub_durable p)
      in resolve committed (p\<lparr>pub_suppress := committed\<rparr>))"

definition section_drop :: "publication \<Rightarrow> publication" where
  "section_drop p =
     p\<lparr>pub_point := (case pub_point p of AtCommit \<Rightarrow> DroppedCommitting | AtRollback \<Rightarrow> DroppedRollingBack | _ \<Rightarrow> Dropped), pub_suppress := True\<rparr>"

text \<open>A tracked operation ends after its section was dropped.\<close>

definition orphan_op :: "bool \<Rightarrow> publication \<Rightarrow> publication" where
  "orphan_op ok p =
     (case pub_point p of
        DroppedCommitting \<Rightarrow> p\<lparr>pub_point := Dropped, pub_row := ok\<rparr>
      | DroppedRollingBack \<Rightarrow> p\<lparr>pub_point := Dropped, pub_row := \<not> ok\<rparr>
      | _ \<Rightarrow> p)"

definition at_await :: "publication \<Rightarrow> bool" where
  "at_await p \<longleftrightarrow> pub_point p \<in> {AtPersist, AtCommit, AtCleanup, AtRollback}"

definition settled :: "publication \<Rightarrow> bool" where
  "settled p \<longleftrightarrow> pub_point p = Finished \<or> pub_point p = Dropped"

section \<open>Verdicts\<close>

definition fence_last_state_committed :: "publication \<Rightarrow> bool" where
  "fence_last_state_committed p \<longleftrightarrow> pub_fence p = DurableAppendCommitted \<or> pub_fence p = Resolved True"

text \<open>A durable segment row names the task, whichever of its publications wrote it.\<close>

definition durable_batch_commit_for_task :: "publication list \<Rightarrow> bool" where
  "durable_batch_commit_for_task pubs \<longleftrightarrow> list_ex (\<lambda>p. pub_row p \<and> pub_durable p) pubs"

definition resolve_interrupted_publish_verdict :: "bool \<Rightarrow> publication list \<Rightarrow> publication \<Rightarrow> bool" where
  "resolve_interrupted_publish_verdict readable pubs p =
     (case pub_fence p of
        Resolved committed \<Rightarrow> committed
      | _ \<Rightarrow>
          if \<not> pub_append p then False
          else if readable then durable_batch_commit_for_task pubs
          else fence_last_state_committed p)"

section \<open>The task\<close>

text \<open>The tail: waiting for its lock, with the lock and its RUNNING row written, at the top of the retry loop, executing an attempt, awaiting its publication, then with a terminal state to
  persist (the row, the table, the fence, each a step of its own), finished, or gone.\<close>

datatype tail_point =
    NoTail
  | Waiter
  | LockHeld
  | Assigning
  | Executing
  | AwaitPublication nat
  | Ended task_state
  | RowWritten task_state
  | Stored task_state
  | PersistFailed task_state
  | BodyDone
  | TailGone

text \<open>The record of the table, the durable row, the registry, and the record of the tail itself (\<open>rec_worker\<close> and
  \<open>rec_attempt\<close>).\<close>

record batch_task =
  bt_state :: "task_state option"
  bt_worker :: "string option"
  bt_attempt :: u32
  bt_row_state :: "task_state option"
  bt_registered :: bool
  bt_fence :: "nat option"
  rec_worker :: "string option"
  rec_attempt :: u32
  bt_pubs :: "publication list"
  bt_tail :: tail_point
  bt_finalizers :: "nat list"
  bt_recoveries :: nat
  bt_forced :: bool

definition batch_init :: batch_task where
  "batch_init = \<lparr>bt_state = None, bt_worker = None, bt_attempt = 0, bt_row_state = None, bt_registered = False, bt_fence = None, rec_worker = None, rec_attempt = 0,
     bt_pubs = [], bt_tail = NoTail, bt_finalizers = [], bt_recoveries = 0, bt_forced = False\<rparr>"

definition unfinished :: "task_state option \<Rightarrow> bool" where
  "unfinished s = (case s of None \<Rightarrow> False | Some x \<Rightarrow> \<not> is_terminal x)"

text \<open>The registration block of \<open>submit_task\<close> and of \<open>spawn_lock_waiter\<close>.\<close>

definition register_tail :: "task_state \<Rightarrow> tail_point \<Rightarrow> batch_task \<Rightarrow> batch_task" where
  "register_tail st point t = t\<lparr>bt_state := Some st, bt_row_state := Some st, bt_registered := True, bt_tail := point\<rparr>"

text \<open>The persist of the row may or may not land.\<close>

definition persist_existing :: "bool \<Rightarrow> batch_task \<Rightarrow> batch_task" where
  "persist_existing ok t = (if ok \<and> bt_state t \<noteq> None then t\<lparr>bt_row_state := bt_state t\<rparr> else t)"

text \<open>\<open>executed\<close> is the state of the tail's record, which comes without a worker.\<close>

definition finalize_batch_terminal :: "bool \<Rightarrow> bool \<Rightarrow> task_state option \<Rightarrow> batch_task \<Rightarrow> batch_task" where
  "finalize_batch_terminal ok committed executed t =
     (let t = (case executed of
            Some st \<Rightarrow> if unfinished (bt_state t) then t\<lparr>bt_state := Some st, bt_worker := None, bt_attempt := rec_attempt t\<rparr> else t
          | None \<Rightarrow> t);
          t = (if bt_state t = None then t
               else if committed then t\<lparr>bt_state := Some TsSuccess, bt_worker := None\<rparr>
               else if unfinished (bt_state t) then t\<lparr>bt_state := Some TsFailed, bt_worker := None\<rparr>
               else t)
      in persist_existing ok (t\<lparr>bt_fence := None\<rparr>))"

definition abort_tail_and_finalize :: "bool \<Rightarrow> batch_task \<Rightarrow> batch_task" where
  "abort_tail_and_finalize ok t =
     (if bt_state t = None then t
      else if \<not> unfinished (bt_state t) then persist_existing ok t
      else
        let t = t\<lparr>bt_registered := False\<rparr>
        in case bt_fence t of
             None \<Rightarrow> persist_existing ok (t\<lparr>bt_state := Some TsFailed, bt_worker := None\<rparr>)
           | Some i \<Rightarrow> t\<lparr>bt_finalizers := bt_finalizers t @ [i]\<rparr>)"

definition live_batch_tail :: "batch_task \<Rightarrow> bool" where
  "live_batch_tail t \<longleftrightarrow> bt_registered t \<or> bt_fence t \<noteq> None"

definition transition_task :: "bool \<Rightarrow> task_state \<Rightarrow> batch_task \<Rightarrow> (unit, overlord_error) res \<times> batch_task" where
  "transition_task ok target t =
     (case bt_state t of
        None \<Rightarrow> (fail (Metadata ''task not found''), t)
      | Some st \<Rightarrow>
          if st = target then (Ok (), t)
          else if \<not> can_transition_to st target then (fail (Ingestion ''invalid task transition''), t)
          else
            let live = (is_terminal target \<and> live_batch_tail t)
            in if live \<and> target = TsSuccess then (fail (Ingestion ''tail is live''), t)
               else if live then (Ok (), abort_tail_and_finalize ok t)
               else
                 let t = t\<lparr>bt_state := Some target\<rparr>;
                     t = (if target = TsPending \<or> target = TsWaiting then t\<lparr>bt_worker := None\<rparr> else t);
                     t = (if target = TsSuccess then t\<lparr>bt_forced := True\<rparr> else t)
                 in (Ok (), persist_existing ok t))"

definition lose_worker :: "bool \<Rightarrow> retry_policy \<Rightarrow> string \<Rightarrow> batch_task \<Rightarrow> batch_task" where
  "lose_worker ok policy wid t =
     (if bt_worker t = Some wid \<and> bt_state t = Some TsRunning then
        if can_retry policy (bt_attempt t) then persist_existing ok (t\<lparr>bt_worker := None, bt_state := Some TsPending\<rparr>)
        else if live_batch_tail t then abort_tail_and_finalize ok t
        else persist_existing ok (t\<lparr>bt_worker := None, bt_state := Some TsFailed\<rparr>)
      else t)"

text \<open>The registration of a publication: refused when the entry of the tail is gone.\<close>

definition start_publication :: "bool \<Rightarrow> bool \<Rightarrow> batch_task \<Rightarrow> batch_task" where
  "start_publication append_to_existing deep_storage t =
     (if \<not> bt_registered t then t\<lparr>bt_tail := Ended TsFailed\<rparr>
      else t\<lparr>bt_fence := Some (length (bt_pubs t)), bt_tail := AwaitPublication (length (bt_pubs t)),
             bt_pubs := bt_pubs t @ [publication_new append_to_existing deep_storage]\<rparr>)"

text \<open>The loop of \<open>run_with_retry\<close>. An attempt begins with a worker; it ends published, with a specification that cannot be
  run, with a failure that may be retried, or with one that may not.\<close>

definition begin_attempt :: "string option \<Rightarrow> batch_task \<Rightarrow> batch_task" where
  "begin_attempt w t = t\<lparr>rec_worker := w, rec_attempt := (if rec_attempt t = - 1 then - 1 else rec_attempt t + 1), bt_tail := Executing\<rparr>"

datatype attempt_result = Published | Unrunnable | Retryable | Final

definition end_attempt :: "retry_policy \<Rightarrow> attempt_result \<Rightarrow> batch_task \<Rightarrow> batch_task" where
  "end_attempt policy r t =
     (case r of
        Published \<Rightarrow> t\<lparr>bt_tail := Ended TsSuccess\<rparr>
      | Unrunnable \<Rightarrow> t\<lparr>bt_tail := Ended TsFailed, rec_worker := None\<rparr>
      | Retryable \<Rightarrow>
          if can_retry policy (rec_attempt t) then t\<lparr>bt_tail := Assigning, rec_worker := None\<rparr> else t\<lparr>bt_tail := Ended TsFailed\<rparr>
      | Final \<Rightarrow> t\<lparr>bt_tail := Ended TsFailed\<rparr>)"

text \<open>What \<open>execute_index_parallel\<close> makes of its publication, whose verdict is known.\<close>

definition publication_result :: "bool \<Rightarrow> publication list \<Rightarrow> publication \<Rightarrow> attempt_result" where
  "publication_result readable pubs p =
     (if resolve_interrupted_publish_verdict readable pubs p then Published
      else if pub_suppress p then Final
      else Retryable)"

text \<open>The guard of a tail is dropped, whatever ended the tail.\<close>

definition batch_tail_guard_drop :: "batch_task \<Rightarrow> batch_task" where
  "batch_tail_guard_drop t =
     (let t = t\<lparr>bt_registered := False, bt_tail := TailGone\<rparr>
      in case bt_fence t of
           Some i \<Rightarrow> t\<lparr>bt_finalizers := bt_finalizers t @ [i]\<rparr>
         | None \<Rightarrow> t\<lparr>bt_recoveries := bt_recoveries t + 1\<rparr>)"

definition recover_pre_fence :: "bool \<Rightarrow> batch_task \<Rightarrow> batch_task" where
  "recover_pre_fence ok t =
     (let t = t\<lparr>bt_recoveries := bt_recoveries t - 1\<rparr>
      in if unfinished (bt_state t) then finalize_batch_terminal ok False None t else t)"

section \<open>Steps\<close>

text \<open>What is fixed for a task: the retry policy, its mode, whether there is deep storage, whether the store answers when
  the verdict of a dropped publication is looked up, and whether the operations on the store end within the time the code waits
  for them before it looks.\<close>

record batch_env =
  be_policy :: retry_policy
  be_append :: bool
  be_deep_storage :: bool
  be_readable :: bool
  be_waits :: bool

text \<open>A publication whose section has ended is given a verdict. An operation it was dropped in has ended by then, unless it
  outlives the wait.\<close>

definition section_ended :: "batch_env \<Rightarrow> publication \<Rightarrow> bool" where
  "section_ended env p \<longleftrightarrow> settled p \<or> \<not> be_waits env \<and> (pub_point p = DroppedCommitting \<or> pub_point p = DroppedRollingBack)"

text \<open>Every interleaving of the tail, the publication, the finalizers and the administrative calls. A tail that was aborted
  still takes steps until it is dropped; a panic drops it anywhere.\<close>

inductive batch_step :: "batch_env \<Rightarrow> batch_task \<Rightarrow> batch_task \<Rightarrow> bool" for env :: batch_env where
  submitted: "bt_tail t = NoTail \<Longrightarrow> batch_step env t (register_tail TsRunning Assigning t)"
| queued: "bt_tail t = NoTail \<Longrightarrow> batch_step env t (register_tail TsWaiting Waiter t)"
| lock_granted: "bt_tail t = Waiter \<Longrightarrow> batch_step env t (t\<lparr>bt_row_state := Some TsRunning, bt_tail := LockHeld\<rparr>)"
| lock_stored: "bt_tail t = LockHeld \<Longrightarrow>
    batch_step env t (t\<lparr>bt_state := Some TsRunning, bt_worker := rec_worker t, bt_attempt := rec_attempt t, bt_tail := Assigning\<rparr>)"
| lock_refused: "bt_tail t = Waiter \<or> bt_tail t = LockHeld \<Longrightarrow> batch_step env t ((finalize_batch_terminal ok False (Some TsFailed) t)\<lparr>bt_tail := BodyDone\<rparr>)"
| assigned: "bt_tail t = Assigning \<Longrightarrow> batch_step env t (begin_attempt w t)"
| attempt_failed: "bt_tail t = Executing \<Longrightarrow> r \<noteq> Published \<Longrightarrow> batch_step env t (end_attempt (be_policy env) r t)"
| publishing: "bt_tail t = Executing \<Longrightarrow> batch_step env t (start_publication (be_append env) (be_deep_storage env) t)"
| published: "bt_tail t = AwaitPublication i \<Longrightarrow> i < length (bt_pubs t) \<Longrightarrow> section_ended env (bt_pubs t ! i) \<Longrightarrow>
    batch_step env t (end_attempt (be_policy env) (publication_result (be_readable env) (bt_pubs t) (bt_pubs t ! i)) t)"
| persisted: "bt_tail t = Ended st \<Longrightarrow> batch_step env t (t\<lparr>bt_row_state := Some st, bt_tail := RowWritten st\<rparr>)"
| stored: "bt_tail t = RowWritten st \<Longrightarrow> batch_step env t (t\<lparr>bt_state := Some st, bt_worker := rec_worker t, bt_attempt := rec_attempt t, bt_tail := Stored st\<rparr>)"
| retired: "bt_tail t = Stored st \<Longrightarrow> batch_step env t (t\<lparr>bt_fence := None, bt_tail := BodyDone\<rparr>)"
| unpersisted: "bt_tail t = Ended st \<or> bt_tail t = RowWritten st \<Longrightarrow> batch_step env t (t\<lparr>bt_tail := PersistFailed st\<rparr>)"
| finalized: "bt_tail t = PersistFailed st \<Longrightarrow>
    batch_step env t ((finalize_batch_terminal ok (st = TsSuccess) (Some st) t)\<lparr>bt_tail := BodyDone\<rparr>)"
| dropped: "bt_tail t \<noteq> NoTail \<Longrightarrow> bt_tail t \<noteq> TailGone \<Longrightarrow> batch_step env t (batch_tail_guard_drop t)"
| verdict: "i \<in> set (bt_finalizers t) \<Longrightarrow> i < length (bt_pubs t) \<Longrightarrow> section_ended env (bt_pubs t ! i) \<Longrightarrow>
    batch_step env t (finalize_batch_terminal ok (resolve_interrupted_publish_verdict (be_readable env) (bt_pubs t) (bt_pubs t ! i)) None
      (t\<lparr>bt_finalizers := remove1 i (bt_finalizers t)\<rparr>))"
| recovered: "0 < bt_recoveries t \<Longrightarrow> batch_step env t (recover_pre_fence ok t)"
| shut_down: "batch_step env t (abort_tail_and_finalize ok t)"
| transition: "transition_task ok target t = (r, t') \<Longrightarrow> batch_step env t t'"
| worker_lost: "batch_step env t (lose_worker ok (be_policy env) wid t)"
| section_moves: "i < length (bt_pubs t) \<Longrightarrow>
    p' = section_persist b (bt_pubs t ! i) \<and> pub_point (bt_pubs t ! i) = AtPersist \<or>
    p' = section_commit b c (bt_pubs t ! i) \<and> pub_point (bt_pubs t ! i) = AtCommit \<or>
    p' = section_cleanup (bt_pubs t ! i) \<and> pub_point (bt_pubs t ! i) = AtCleanup \<or>
    p' = section_rollback b (bt_pubs t ! i) \<and> pub_point (bt_pubs t ! i) = AtRollback \<or>
    p' = section_drop (bt_pubs t ! i) \<and> at_await (bt_pubs t ! i) \<or>
    p' = orphan_op b (bt_pubs t ! i) \<Longrightarrow>
    batch_step env t (t\<lparr>bt_pubs := (bt_pubs t)[i := p']\<rparr>)"

end
