(* ===== verification/Overlord_Batch_Properties.thy ===== *)
theory Overlord_Batch_Properties
  imports Overlord_Batch
begin

text \<open>
  The verdict on a batch task is true: whatever interleaving of the tail, its publications, the finalizers and the
  administrative calls happens, a task that is reported failed has made nothing visible and, when it appends, left no durable row; one
  that is reported successful has; and no task is left without a verdict. A failed task that replaces may leave a durable row.
\<close>

section \<open>Publications\<close>

text \<open>The data of a publication counts: it is visible, or durable and appended on the next restart.\<close>

definition committed :: "publication \<Rightarrow> bool" where
  "committed p \<longleftrightarrow> pub_swapped p \<or> pub_append p \<and> pub_durable p \<and> pub_row p"

definition failed :: "publication \<Rightarrow> bool" where
  "failed p \<longleftrightarrow> settled p \<and> \<not> committed p"

fun open_fence :: "fence_state \<Rightarrow> bool" where
  "open_fence (Resolved _) = False"
| "open_fence _ = True"

fun point_ok :: "section_point \<Rightarrow> publication \<Rightarrow> bool" where
  "point_ok AtRollback p = (pub_row p \<and> \<not> pub_swapped p \<and> open_fence (pub_fence p))"
| "point_ok DroppedRollingBack p = (pub_row p \<and> \<not> pub_swapped p \<and> open_fence (pub_fence p))"
| "point_ok Finished p = (pub_fence p = Resolved (committed p))"
| "point_ok Dropped p = (\<not> pub_swapped p \<and> open_fence (pub_fence p))"
| "point_ok _ p = (\<not> pub_row p \<and> \<not> pub_swapped p \<and> open_fence (pub_fence p))"

definition pub_ok :: "batch_env \<Rightarrow> publication \<Rightarrow> bool" where
  "pub_ok env p \<longleftrightarrow> point_ok (pub_point p) p \<and> pub_append p = be_append env \<and> pub_durable p = be_deep_storage env"

lemma pub_ok_new: "pub_ok env (publication_new (be_append env) (be_deep_storage env))"
  by (simp add: pub_ok_def publication_new_def)

lemma pub_ok_moves:
  assumes "pub_ok env p"
  shows "pub_point p = AtPersist \<Longrightarrow> pub_ok env (section_persist b p)"
    and "pub_point p = AtCommit \<Longrightarrow> pub_ok env (section_commit b c p)"
    and "pub_point p = AtCleanup \<Longrightarrow> pub_ok env (section_cleanup p)"
    and "pub_point p = AtRollback \<Longrightarrow> pub_ok env (section_rollback b p)"
    and "at_await p \<Longrightarrow> pub_ok env (section_drop p)"
    and "pub_ok env (orphan_op b p)"
  using assms
  by (auto simp: pub_ok_def section_persist_def section_commit_def section_cleanup_def section_rollback_def section_drop_def orphan_op_def resolve_def
      committed_def at_await_def Let_def split: section_point.splits)

lemma settled_stays: "settled p \<Longrightarrow> orphan_op b p = p" "settled p \<Longrightarrow> \<not> at_await p"
  "settled p \<Longrightarrow> pub_point p \<notin> {AtPersist, AtCommit, AtCleanup, AtRollback}"
  by (auto simp: settled_def orphan_op_def at_await_def)

definition all_failed :: "batch_task \<Rightarrow> bool" where
  "all_failed t \<longleftrightarrow> (\<forall>p \<in> set (bt_pubs t). failed p)"

text \<open>The verdict that is looked up is the truth, when the earlier publications of the task failed.\<close>

lemma verdict_truth:
  assumes "be_readable env" and "\<forall>p \<in> set pubs. pub_ok env p" and "settled (last pubs)" and "pubs \<noteq> []" and "\<forall>p \<in> set (butlast pubs). failed p"
  shows "resolve_interrupted_publish_verdict (be_readable env) pubs (last pubs) = committed (last pubs)"
proof -
  have ok: "pub_ok env (last pubs)" using assms(2,4) by simp
  show ?thesis
  proof (cases "pub_point (last pubs) = Finished")
    case True
    then show ?thesis using ok by (simp add: resolve_interrupted_publish_verdict_def pub_ok_def)
  next
    case False
    then have d: "pub_point (last pubs) = Dropped" using assms(3) by (simp add: settled_def)
    then have dropped: "\<not> pub_swapped (last pubs)" "open_fence (pub_fence (last pubs))" using ok by (simp_all add: pub_ok_def)
    have "durable_batch_commit_for_task pubs = (pub_row (last pubs) \<and> pub_durable (last pubs))" if "be_append env"
    proof -
      have "\<not> (pub_row p \<and> pub_durable p)" if "p \<in> set (butlast pubs)" for p
        using that assms(2,5) \<open>be_append env\<close> in_set_butlastD [of p pubs] by (auto simp: failed_def committed_def pub_ok_def)
      then have "list_ex (\<lambda>p. pub_row p \<and> pub_durable p) (butlast pubs @ [last pubs]) = (pub_row (last pubs) \<and> pub_durable (last pubs))"
        by (auto simp: list_ex_iff)
      then show ?thesis using assms(4) by (simp add: durable_batch_commit_for_task_def)
    qed
    then show ?thesis
      using dropped assms(1) ok by (cases "pub_fence (last pubs)") (auto simp: resolve_interrupted_publish_verdict_def committed_def pub_ok_def)
  qed
qed

section \<open>The invariant\<close>

fun active :: "tail_point \<Rightarrow> bool" where
  "active Waiter = True"
| "active LockHeld = True"
| "active Assigning = True"
| "active Executing = True"
| "active (AwaitPublication _) = True"
| "active _ = False"

fun point_state :: "tail_point \<Rightarrow> task_state option" where
  "point_state Assigning = Some TsFailed"
| "point_state Executing = Some TsFailed"
| "point_state (Ended st) = Some st"
| "point_state (RowWritten st) = Some st"
| "point_state (Stored st) = Some st"
| "point_state (PersistFailed st) = Some st"
| "point_state _ = None"

definition lead_committed :: "batch_task \<Rightarrow> bool" where
  "lead_committed t \<longleftrightarrow> bt_pubs t \<noteq> [] \<and> settled (last (bt_pubs t)) \<and> committed (last (bt_pubs t))"

definition inv_pubs :: "batch_env \<Rightarrow> batch_task \<Rightarrow> bool" where
  "inv_pubs env t \<longleftrightarrow> (\<forall>p \<in> set (bt_pubs t). pub_ok env p) \<and> (\<forall>p \<in> set (butlast (bt_pubs t)). failed p)"

definition inv_fence :: "batch_task \<Rightarrow> bool" where
  "inv_fence t \<longleftrightarrow> (\<forall>i. bt_fence t = Some i \<longrightarrow> Suc i = length (bt_pubs t)) \<and> (bt_fence t = None \<longrightarrow> all_failed t \<or> bt_state t = Some TsSuccess)"

definition inv_tail :: "batch_task \<Rightarrow> bool" where
  "inv_tail t \<longleftrightarrow> (\<forall>i. bt_tail t = AwaitPublication i \<longrightarrow> Suc i = length (bt_pubs t)) \<and>
     (\<forall>st. point_state (bt_tail t) = Some st \<longrightarrow> st = TsSuccess \<and> lead_committed t \<or> st = TsFailed \<and> all_failed t) \<and>
     (bt_tail t = NoTail \<or> bt_tail t = Waiter \<or> bt_tail t = LockHeld \<longrightarrow> bt_pubs t = [] \<and> rec_worker t = None)"

definition inv_finalizers :: "batch_task \<Rightarrow> bool" where
  "inv_finalizers t \<longleftrightarrow> (\<forall>i \<in> set (bt_finalizers t). Suc i = length (bt_pubs t)) \<and> (bt_finalizers t \<noteq> [] \<longrightarrow> \<not> bt_registered t)"

definition inv_failed :: "batch_task \<Rightarrow> bool" where
  "inv_failed t \<longleftrightarrow> (bt_state t = Some TsFailed \<or> bt_row_state t = Some TsFailed \<longrightarrow> all_failed t \<and> \<not> (bt_registered t \<and> active (bt_tail t)))"

definition inv_recoveries :: "batch_task \<Rightarrow> bool" where
  "inv_recoveries t \<longleftrightarrow> (0 < bt_recoveries t \<longrightarrow> bt_tail t = TailGone \<and> (all_failed t \<or> bt_state t = Some TsSuccess))"

definition inv_known :: "batch_task \<Rightarrow> bool" where
  "inv_known t \<longleftrightarrow> (bt_registered t \<longrightarrow> bt_tail t \<noteq> NoTail \<and> bt_tail t \<noteq> TailGone) \<and> (bt_tail t = NoTail \<longleftrightarrow> bt_state t = None) \<and>
     (bt_state t = None \<longrightarrow> bt_fence t = None \<and> bt_row_state t = None \<and> bt_worker t = None) \<and> (\<forall>st. bt_tail t = Stored st \<longrightarrow> bt_state t = Some st)"

definition inv_success :: "batch_task \<Rightarrow> bool" where
  "inv_success t \<longleftrightarrow> (bt_state t = Some TsSuccess \<or> bt_row_state t = Some TsSuccess \<longrightarrow> bt_forced t \<or> lead_committed t)"

definition inv_pending :: "batch_task \<Rightarrow> bool" where
  "inv_pending t \<longleftrightarrow> (bt_tail t = TailGone \<longrightarrow>
     (unfinished (bt_state t) \<longrightarrow> bt_finalizers t \<noteq> [] \<or> 0 < bt_recoveries t) \<and> (bt_fence t \<noteq> None \<longrightarrow> bt_finalizers t \<noteq> []))"

definition inv_worker :: "batch_task \<Rightarrow> bool" where
  "inv_worker t \<longleftrightarrow> (unfinished (bt_state t) \<longrightarrow> bt_worker t = None)"

definition binv :: "batch_env \<Rightarrow> batch_task \<Rightarrow> bool" where
  "binv env t \<longleftrightarrow> inv_pubs env t \<and> inv_fence t \<and> inv_tail t \<and> inv_finalizers t \<and> inv_failed t \<and> inv_recoveries t \<and> inv_known t \<and>
     inv_success t \<and> inv_pending t \<and> inv_worker t"

lemmas inv_defs = inv_pubs_def inv_fence_def inv_tail_def inv_finalizers_def inv_failed_def inv_recoveries_def inv_known_def inv_success_def
  inv_pending_def inv_worker_def

lemma binvD:
  assumes "binv env t"
  shows "inv_pubs env t" "inv_fence t" "inv_tail t" "inv_finalizers t" "inv_failed t" "inv_recoveries t" "inv_known t" "inv_success t" "inv_pending t" "inv_worker t"
  using assms by (simp_all add: binv_def)

lemma all_failed_lead: "all_failed t \<Longrightarrow> \<not> lead_committed t"
  by (auto simp: all_failed_def lead_committed_def failed_def)

lemma unfinished_simps [simp]:
  "\<not> unfinished None" "unfinished (Some st) \<longleftrightarrow> \<not> is_terminal st"
  by (simp_all add: unfinished_def)

text \<open>Changes that leave the tail and its publications alone: what a new state, fence or list of finalizers must satisfy.\<close>

lemma binv_admin:
  assumes inv: "binv env t" and same: "bt_pubs t' = bt_pubs t" "bt_tail t' = bt_tail t" "rec_worker t' = rec_worker t"
    and fence: "bt_fence t' = bt_fence t \<or> bt_fence t' = None \<and> (all_failed t \<or> bt_state t' = Some TsSuccess)"
    and reg: "bt_registered t' \<Longrightarrow> bt_registered t"
    and fin: "\<And>i. i \<in> set (bt_finalizers t') \<Longrightarrow> i \<in> set (bt_finalizers t) \<or> bt_fence t = Some i" "bt_finalizers t' \<noteq> [] \<Longrightarrow> \<not> bt_registered t'"
    and known: "bt_state t' = None \<longleftrightarrow> bt_state t = None" "bt_state t = None \<Longrightarrow> bt_fence t' = bt_fence t \<and> bt_row_state t' = None \<and> bt_worker t' = None"
    and over: "\<not> unfinished (bt_state t) \<Longrightarrow> bt_state t' = bt_state t \<or> bt_state t' = Some TsSuccess \<and> lead_committed t"
    and bad: "bt_state t' = Some TsFailed \<Longrightarrow> bt_state t \<noteq> Some TsFailed \<Longrightarrow> all_failed t \<and> \<not> (bt_registered t' \<and> active (bt_tail t))"
      "bt_row_state t' = bt_row_state t \<or> bt_row_state t' = bt_state t'"
    and good: "bt_state t' = Some TsSuccess \<Longrightarrow> bt_state t \<noteq> Some TsSuccess \<Longrightarrow> bt_forced t' \<or> lead_committed t" "bt_forced t \<Longrightarrow> bt_forced t'"
    and rcv: "bt_recoveries t' \<le> bt_recoveries t"
    and pend: "bt_tail t = TailGone \<Longrightarrow> (unfinished (bt_state t') \<longrightarrow> bt_finalizers t' \<noteq> [] \<or> 0 < bt_recoveries t') \<and> (bt_fence t' \<noteq> None \<longrightarrow> bt_finalizers t' \<noteq> [])"
    and wk: "unfinished (bt_state t') \<Longrightarrow> bt_worker t' = None"
    and st: "\<And>st. bt_tail t = Stored st \<Longrightarrow> bt_state t' = Some st"
  shows "binv env t'"
proof -
  have eq: "all_failed t' = all_failed t" "lead_committed t' = lead_committed t" using same by (simp_all add: all_failed_def lead_committed_def)
  have keep: "bt_state t' = Some TsSuccess" if "bt_state t = Some TsSuccess" using over that by auto
  note I = binvD [OF inv]
  have "inv_pubs env t'" using I(1) same by (simp add: inv_pubs_def)
  moreover have "inv_fence t'" using I(2) fence keep eq same unfolding inv_fence_def by auto
  moreover have "inv_tail t'" using I(3) eq same unfolding inv_tail_def by simp
  moreover have "inv_finalizers t'" using I(2,4) fin same unfolding inv_finalizers_def inv_fence_def by metis
  moreover have "inv_failed t'" using I(5) bad reg same unfolding inv_failed_def eq by metis
  moreover have "inv_recoveries t'" using I(6) rcv keep eq same unfolding inv_recoveries_def by auto
  moreover have "inv_known t'" using I(7) reg known st same unfolding inv_known_def by auto
  moreover have "inv_success t'" using I(8) good bad(2) unfolding inv_success_def eq by metis
  moreover have "inv_pending t'" using pend same unfolding inv_pending_def by auto
  moreover have "inv_worker t'" using wk unfolding inv_worker_def by auto
  ultimately show ?thesis unfolding binv_def by blast
qed


section \<open>Finalizers and administrative calls\<close>

lemma persist_fields [simp]:
  "bt_pubs (persist_existing ok t) = bt_pubs t" "bt_tail (persist_existing ok t) = bt_tail t" "rec_worker (persist_existing ok t) = rec_worker t"
  "bt_fence (persist_existing ok t) = bt_fence t" "bt_registered (persist_existing ok t) = bt_registered t" "bt_finalizers (persist_existing ok t) = bt_finalizers t"
  "bt_state (persist_existing ok t) = bt_state t" "bt_forced (persist_existing ok t) = bt_forced t" "bt_recoveries (persist_existing ok t) = bt_recoveries t"
  "bt_worker (persist_existing ok t) = bt_worker t"
  by (simp_all add: persist_existing_def)

lemma persist_row: "bt_row_state (persist_existing ok t) = bt_row_state t \<or> bt_row_state (persist_existing ok t) = bt_state t"
  "bt_state t = None \<Longrightarrow> bt_row_state (persist_existing ok t) = bt_row_state t"
  by (simp_all add: persist_existing_def)

lemma finalize_fields [simp]:
  "bt_pubs (finalize_batch_terminal ok c ex t) = bt_pubs t" "bt_tail (finalize_batch_terminal ok c ex t) = bt_tail t"
  "rec_worker (finalize_batch_terminal ok c ex t) = rec_worker t" "bt_fence (finalize_batch_terminal ok c ex t) = None"
  "bt_registered (finalize_batch_terminal ok c ex t) = bt_registered t" "bt_finalizers (finalize_batch_terminal ok c ex t) = bt_finalizers t"
  "bt_forced (finalize_batch_terminal ok c ex t) = bt_forced t" "bt_recoveries (finalize_batch_terminal ok c ex t) = bt_recoveries t"
  by (simp_all add: finalize_batch_terminal_def Let_def split: option.splits)

lemma finalize_state:
  "bt_state (finalize_batch_terminal ok c ex t) =
     (if bt_state t = None then None else if c then Some TsSuccess
      else if unfinished (bt_state t) then Some (case ex of Some st \<Rightarrow> if is_terminal st then st else TsFailed | None \<Rightarrow> TsFailed)
      else bt_state t)"
  by (auto simp: finalize_batch_terminal_def Let_def unfinished_def split: option.splits)

lemma finalize_row:
  "bt_row_state (finalize_batch_terminal ok c ex t) = bt_row_state t \<or> bt_row_state (finalize_batch_terminal ok c ex t) = bt_state (finalize_batch_terminal ok c ex t)"
  "bt_state t = None \<Longrightarrow> bt_row_state (finalize_batch_terminal ok c ex t) = bt_row_state t \<and> bt_worker (finalize_batch_terminal ok c ex t) = bt_worker t"
  by (auto simp: finalize_batch_terminal_def Let_def persist_existing_def split: option.splits)

lemma finalize_terminal: "\<not> unfinished (bt_state (finalize_batch_terminal ok c ex t))"
  by (auto simp: finalize_state unfinished_def split: option.splits)

lemma last_failed:
  assumes "inv_pubs env t" and "bt_pubs t \<noteq> []" and "failed (last (bt_pubs t))"
  shows "all_failed t"
proof -
  have "set (bt_pubs t) = insert (last (bt_pubs t)) (set (butlast (bt_pubs t)))" using assms(2) by (metis append_butlast_last_id list.set(1,2) set_append sup_commute Un_insert_left sup_bot_left)
  then show ?thesis using assms(1,3) by (auto simp: all_failed_def inv_pubs_def)
qed

lemma known_state: "binv env t \<Longrightarrow> bt_pubs t \<noteq> [] \<Longrightarrow> bt_state t \<noteq> None"
  by (auto simp: binv_def inv_known_def inv_tail_def)

lemma pub_at_last: "Suc i = length xs \<Longrightarrow> xs ! i = last xs \<and> xs \<noteq> []"
  by (metis diff_Suc_1 last_conv_nth length_0_conv nat.distinct(1))

lemma binv_finalize:
  assumes inv: "binv env t" and "set fs \<subseteq> set (bt_finalizers t)" and "r \<le> bt_recoveries t" and known: "bt_state t \<noteq> None"
    and yes: "c \<Longrightarrow> lead_committed t" and no: "\<not> c \<Longrightarrow> all_failed t" and nreg: "\<not> bt_registered t"
  shows "binv env (finalize_batch_terminal ok c None (t\<lparr>bt_finalizers := fs, bt_recoveries := r\<rparr>))" (is "binv env ?T")
proof -
  note I = binvD [OF inv]
  have state: "bt_state ?T = (if c then Some TsSuccess else if unfinished (bt_state t) then Some TsFailed else bt_state t)"
    using known by (auto simp: finalize_state)
  have row: "bt_row_state ?T = bt_row_state t \<or> bt_row_state ?T = bt_state ?T"
    using finalize_row(1) [where t = "t\<lparr>bt_finalizers := fs, bt_recoveries := r\<rparr>" and ok = ok and c = c and ex = None] by simp
  have over: "\<not> unfinished (bt_state ?T)" by (rule finalize_terminal)
  show ?thesis
  proof (rule binv_admin [OF inv])
    show "bt_state ?T = Some st" if "bt_tail t = Stored st" for st
    proof -
      have "bt_state t = Some st" "st = TsSuccess \<and> lead_committed t \<or> st = TsFailed \<and> all_failed t" using I(3,7) that by (auto simp: inv_known_def inv_tail_def)
      then show ?thesis using yes all_failed_lead [of t] by (auto simp: state)
    qed
    show "bt_row_state ?T = bt_row_state t \<or> bt_row_state ?T = bt_state ?T" by (rule row)
  qed (use assms(2,3) yes no nreg known over in \<open>auto simp: state split: if_splits\<close>)
qed

lemma binv_verdict:
  assumes "be_readable env" and inv: "binv env t" and i: "i \<in> set (bt_finalizers t)" and "settled (bt_pubs t ! i)"
  shows "binv env (finalize_batch_terminal ok (resolve_interrupted_publish_verdict (be_readable env) (bt_pubs t) (bt_pubs t ! i)) None
    (t\<lparr>bt_finalizers := remove1 i (bt_finalizers t)\<rparr>))"
proof -
  note I = binvD [OF inv]
  have len: "Suc i = length (bt_pubs t)" using I(4) i by (simp add: inv_finalizers_def)
  note last = pub_at_last [OF len]
  let ?c = "resolve_interrupted_publish_verdict (be_readable env) (bt_pubs t) (bt_pubs t ! i)"
  have c: "?c = committed (last (bt_pubs t))" using verdict_truth [OF assms(1)] I(1) last assms(4) by (simp add: inv_pubs_def)
  have "binv env (finalize_batch_terminal ok ?c None (t\<lparr>bt_finalizers := remove1 i (bt_finalizers t), bt_recoveries := bt_recoveries t\<rparr>))"
  proof (rule binv_finalize [OF inv])
    show "lead_committed t" if ?c using that c last assms(4) by (simp add: lead_committed_def)
    show "all_failed t" if "\<not> ?c" using that c last assms(4) last_failed [OF I(1)] by (simp add: failed_def)
    show "\<not> bt_registered t" using I(4) i by (auto simp: inv_finalizers_def)
    show "bt_state t \<noteq> None" using known_state [OF inv] last by blast
  qed (auto simp: set_remove1_subset)
  then show ?thesis by simp
qed

lemma binv_recovered:
  assumes inv: "binv env t" and "0 < bt_recoveries t"
  shows "binv env (recover_pre_fence ok t)"
proof -
  note I = binvD [OF inv]
  have gone: "bt_tail t = TailGone" "all_failed t \<or> bt_state t = Some TsSuccess" using I(6) assms(2) by (auto simp: inv_recoveries_def)
  have known: "bt_state t \<noteq> None" using I(7) gone by (auto simp: inv_known_def)
  have nreg: "\<not> bt_registered t" using I(7) gone(1) by (auto simp: inv_known_def)
  let ?t = "t\<lparr>bt_recoveries := bt_recoveries t - 1\<rparr>"
  show ?thesis
  proof (cases "unfinished (bt_state t)")
    case True
    then have af: "all_failed t" using gone(2) by (auto simp: is_terminal_def)
    have "binv env (finalize_batch_terminal ok False None (t\<lparr>bt_finalizers := bt_finalizers t, bt_recoveries := bt_recoveries t - 1\<rparr>))"
      using af nreg known by (intro binv_finalize [OF inv]) auto
    then show ?thesis using True by (simp add: recover_pre_fence_def Let_def)
  next
    case False
    have "binv env ?t"
      by (rule binv_admin [OF inv]) (use False I(4,7,9,10) gone in \<open>auto simp: inv_finalizers_def inv_known_def inv_pending_def\<close>)
    then show ?thesis using False by (simp add: recover_pre_fence_def Let_def)
  qed
qed

lemma binv_persist:
  assumes inv: "binv env t"
  shows "binv env (persist_existing ok t)"
  by (rule binv_admin [OF inv])
    (use binvD [OF inv] persist_row [where t = t and ok = ok] in \<open>auto simp: inv_finalizers_def inv_known_def inv_pending_def inv_worker_def\<close>)

lemma binv_abort:
  assumes inv: "binv env t"
  shows "binv env (abort_tail_and_finalize ok t)"
proof (cases "unfinished (bt_state t)")
  case False
  then show ?thesis using binv_persist [OF inv] inv by (simp add: abort_tail_and_finalize_def)
next
  case True
  note I = binvD [OF inv]
  have known: "bt_state t \<noteq> None" using True by (cases "bt_state t") auto
  have open_st: "bt_tail t \<noteq> Stored st" for st using I(3,7) True by (auto simp: inv_known_def inv_tail_def is_terminal_def)
  show ?thesis
  proof (cases "bt_fence t")
    case None
    then have af: "all_failed t" using I(2) True by (auto simp: inv_fence_def is_terminal_def)
    let ?t = "t\<lparr>bt_registered := False, bt_state := Some TsFailed, bt_worker := None\<rparr>"
    have "binv env (persist_existing ok ?t)"
      by (rule binv_admin [OF inv])
        (use af True None known open_st I(4,9) persist_row [where t = ?t and ok = ok] in \<open>auto simp: inv_finalizers_def inv_pending_def\<close>)
    then show ?thesis using True None known by (auto simp: abort_tail_and_finalize_def Let_def)
  next
    case (Some i)
    have "binv env (t\<lparr>bt_registered := False, bt_finalizers := bt_finalizers t @ [i]\<rparr>)"
      by (rule binv_admin [OF inv]) (use True Some known open_st I(4,10) in \<open>auto simp: inv_worker_def\<close>)
    then show ?thesis using True Some known by (auto simp: abort_tail_and_finalize_def Let_def)
  qed
qed


definition moved_to :: "task_state \<Rightarrow> batch_task \<Rightarrow> batch_task" where
  "moved_to target t = t\<lparr>bt_state := Some target, bt_worker := (if target = TsPending \<or> target = TsWaiting then None else bt_worker t),
     bt_forced := (bt_forced t \<or> target = TsSuccess)\<rparr>"

lemma moved_to_fields [simp]:
  "bt_pubs (moved_to s t) = bt_pubs t" "bt_tail (moved_to s t) = bt_tail t" "rec_worker (moved_to s t) = rec_worker t" "bt_fence (moved_to s t) = bt_fence t"
  "bt_registered (moved_to s t) = bt_registered t" "bt_finalizers (moved_to s t) = bt_finalizers t" "bt_recoveries (moved_to s t) = bt_recoveries t"
  "bt_row_state (moved_to s t) = bt_row_state t" "bt_state (moved_to s t) = Some s" "bt_forced (moved_to s t) \<longleftrightarrow> bt_forced t \<or> s = TsSuccess"
  "bt_worker (moved_to s t) = (if s = TsPending \<or> s = TsWaiting then None else bt_worker t)"
  by (simp_all add: moved_to_def)

lemma transition_result:
  assumes "transition_task ok target t = (r, t')"
  shows "t' = t \<or> t' = abort_tail_and_finalize ok t \<or>
    (\<exists>st. bt_state t = Some st \<and> can_transition_to st target \<and> (is_terminal target \<longrightarrow> \<not> live_batch_tail t) \<and> t' = persist_existing ok (moved_to target t))"
proof (cases "bt_state t")
  case None
  then show ?thesis using assms by (simp add: transition_task_def)
next
  case (Some st)
  show ?thesis
  proof (cases "st = target \<or> \<not> can_transition_to st target \<or> is_terminal target \<and> live_batch_tail t")
    case True
    then show ?thesis using assms Some by (cases "st = target"; cases "can_transition_to st target"; cases "target = TsSuccess") (simp_all add: transition_task_def)
  next
    case False
    then have "t' = persist_existing ok (moved_to target t)"
      using assms Some by (cases t; cases target) (auto simp: transition_task_def moved_to_def Let_def)
    then show ?thesis using False Some by blast
  qed
qed

lemma binv_transition:
  assumes inv: "binv env t" and tr: "transition_task ok target t = (r, t')"
  shows "binv env t'"
proof -
  note I = binvD [OF inv]
  consider "t' = t" | "t' = abort_tail_and_finalize ok t"
    | st where "bt_state t = Some st" "can_transition_to st target" "is_terminal target \<Longrightarrow> \<not> live_batch_tail t"
      "t' = persist_existing ok (moved_to target t)"
    using transition_result [OF tr] by blast
  then show ?thesis
  proof cases
    case 1
    then show ?thesis using inv by simp
  next
    case 2
    then show ?thesis using binv_abort [OF inv] by simp
  next
    case (3 st)
    have open_st: "\<not> is_terminal st" using 3(2) by (auto simp: can_transition_to_def)
    have no_store: "bt_tail t \<noteq> Stored x" for x using I(3,7) 3(1) open_st by (auto simp: inv_known_def inv_tail_def is_terminal_def)
    have af: "all_failed t \<and> \<not> bt_registered t" if "is_terminal target"
      using 3(1,3) that I(2) open_st by (auto simp: live_batch_tail_def inv_fence_def is_terminal_def)
    let ?t = "moved_to target t"
    have "binv env (persist_existing ok ?t)"
      by (rule binv_admin [OF inv])
        (use af open_st no_store 3(1) I(4,9,10) persist_row [where t = ?t and ok = ok] in \<open>auto simp: inv_finalizers_def inv_pending_def inv_worker_def\<close>)
    then show ?thesis using 3(4) by simp
  qed
qed

lemma lose_worker_never:
  assumes "binv env t"
  shows "lose_worker ok policy wid t = t"
  using binvD(10) [OF assms] by (cases "bt_state t = Some TsRunning") (auto simp: lose_worker_def inv_worker_def is_terminal_def)

section \<open>Steps of the tail\<close>

lemma binv_move:
  assumes inv: "binv env t" and tails: "bt_tail t \<notin> {NoTail, TailGone}" "bt_tail t' \<notin> {NoTail, TailGone}" "inv_tail t'"
    and same: "bt_pubs t' = bt_pubs t" "bt_registered t' = bt_registered t" "bt_finalizers t' = bt_finalizers t" "bt_recoveries t' = bt_recoveries t" "bt_forced t' = bt_forced t"
    and fence: "bt_fence t' = bt_fence t \<or> bt_fence t' = None \<and> (all_failed t \<or> bt_state t' = Some TsSuccess)"
    and state: "bt_state t' \<noteq> None" "bt_state t = Some TsSuccess \<Longrightarrow> bt_state t' = Some TsSuccess \<or> all_failed t"
    and bad: "bt_state t' = Some TsFailed \<or> bt_row_state t' = Some TsFailed \<Longrightarrow>
      (bt_state t = Some TsFailed \<or> bt_row_state t = Some TsFailed) \<and> (active (bt_tail t') \<longrightarrow> active (bt_tail t)) \<or> all_failed t \<and> \<not> active (bt_tail t')"
    and good: "bt_state t' = Some TsSuccess \<or> bt_row_state t' = Some TsSuccess \<Longrightarrow>
      bt_state t = Some TsSuccess \<or> bt_row_state t = Some TsSuccess \<or> lead_committed t"
    and wk: "unfinished (bt_state t') \<Longrightarrow> bt_worker t' = None"
    and st: "\<And>st. bt_tail t' = Stored st \<Longrightarrow> bt_state t' = Some st"
  shows "binv env t'"
proof -
  note I = binvD [OF inv]
  have eq: "all_failed t' = all_failed t" "lead_committed t' = lead_committed t" using same by (simp_all add: all_failed_def lead_committed_def)
  have "inv_pubs env t'" using I(1) same by (simp add: inv_pubs_def)
  moreover have "inv_fence t'" using I(2) fence state(2) eq same unfolding inv_fence_def by auto
  moreover have "inv_finalizers t'" using I(4) same unfolding inv_finalizers_def by simp
  moreover have "inv_failed t'" using I(5) bad same unfolding inv_failed_def eq by metis
  moreover have "inv_recoveries t'" using I(6) tails same unfolding inv_recoveries_def by auto
  moreover have "inv_known t'" using I(7) tails state(1) st same unfolding inv_known_def by auto
  moreover have "inv_success t'" using I(8) good same unfolding inv_success_def eq by metis
  moreover have "inv_pending t'" using tails unfolding inv_pending_def by auto
  moreover have "inv_worker t'" using wk unfolding inv_worker_def by auto
  ultimately show ?thesis using tails(3) unfolding binv_def by blast
qed

lemma binv_submit:
  assumes "binv env t" and "bt_tail t = NoTail" and "point = Assigning \<and> st = TsRunning \<or> point = Waiter \<and> st = TsWaiting"
  shows "binv env (register_tail st point t)"
proof -
  note I = binvD [OF assms(1)]
  have "bt_pubs t = []" "rec_worker t = None" "bt_state t = None" "bt_fence t = None" "bt_row_state t = None" "bt_worker t = None" "bt_recoveries t = 0" "bt_finalizers t = []"
    using I assms(2) by (auto simp: inv_tail_def inv_known_def inv_recoveries_def inv_finalizers_def)
  then show ?thesis
    using assms(3) by (auto simp: binv_def inv_defs register_tail_def all_failed_def lead_committed_def)
qed

lemma binv_tail_points:
  assumes inv: "binv env t"
  shows "bt_tail t = Waiter \<Longrightarrow> binv env (t\<lparr>bt_row_state := Some TsRunning, bt_tail := LockHeld\<rparr>)"
    and "bt_tail t = LockHeld \<Longrightarrow> binv env (t\<lparr>bt_state := Some TsRunning, bt_worker := rec_worker t, bt_attempt := rec_attempt t, bt_tail := Assigning\<rparr>)"
    and "bt_tail t = Assigning \<Longrightarrow> binv env (begin_attempt w t)"
    and "bt_tail t = Executing \<Longrightarrow> r \<noteq> Published \<Longrightarrow> binv env (end_attempt policy r t)"
    and "bt_tail t = Executing \<Longrightarrow> binv env (t\<lparr>bt_tail := Ended TsFailed\<rparr>)"
    and "bt_tail t = Ended st \<Longrightarrow> binv env (t\<lparr>bt_row_state := Some st, bt_tail := RowWritten st\<rparr>)"
    and "bt_tail t = RowWritten st \<Longrightarrow> binv env (t\<lparr>bt_state := Some st, bt_worker := rec_worker t, bt_attempt := rec_attempt t, bt_tail := Stored st\<rparr>)"
    and "bt_tail t = Stored st \<Longrightarrow> binv env (t\<lparr>bt_fence := None, bt_tail := BodyDone\<rparr>)"
    and "bt_tail t = Ended st \<or> bt_tail t = RowWritten st \<Longrightarrow> binv env (t\<lparr>bt_tail := PersistFailed st\<rparr>)"
proof -
  note I = binvD [OF inv]
  have empty: "all_failed t" if "bt_tail t = Waiter \<or> bt_tail t = LockHeld" using that I(3) by (auto simp: inv_tail_def all_failed_def)
  have pst: "st = TsSuccess \<and> lead_committed t \<or> st = TsFailed \<and> all_failed t" if "point_state (bt_tail t) = Some st" for st
    using that I(3) by (auto simp: inv_tail_def)
  have known: "bt_state t \<noteq> None" if "bt_tail t \<noteq> NoTail" using that I(7) by (auto simp: inv_known_def)
  have failed_row: "all_failed t" if "bt_state t = Some TsFailed \<or> bt_row_state t = Some TsFailed" using that I(5) by (auto simp: inv_failed_def)
  show "binv env (t\<lparr>bt_row_state := Some TsRunning, bt_tail := LockHeld\<rparr>)" if "bt_tail t = Waiter"
    by (rule binv_move [OF inv]) (use that known I(3,10) in \<open>auto simp: inv_tail_def inv_worker_def\<close>)
  show "binv env (t\<lparr>bt_state := Some TsRunning, bt_worker := rec_worker t, bt_attempt := rec_attempt t, bt_tail := Assigning\<rparr>)"
    if "bt_tail t = LockHeld"
    by (rule binv_move [OF inv]) (use that empty I(3) in \<open>auto simp: inv_tail_def all_failed_def\<close>)
  show "binv env (begin_attempt w t)" if "bt_tail t = Assigning"
    by (rule binv_move [OF inv]) (use that pst known I(10) in \<open>auto simp: begin_attempt_def inv_tail_def all_failed_def inv_worker_def\<close>)
  show "binv env (end_attempt policy r t)" if "bt_tail t = Executing" "r \<noteq> Published"
    by (rule binv_move [OF inv])
      (use that pst [of TsFailed] known I(10) in \<open>auto simp: end_attempt_def inv_tail_def all_failed_def inv_worker_def split: attempt_result.splits if_splits\<close>)
  show "binv env (t\<lparr>bt_tail := Ended TsFailed\<rparr>)" if "bt_tail t = Executing"
    by (rule binv_move [OF inv]) (use that pst [of TsFailed] known I(10) in \<open>auto simp: inv_tail_def all_failed_def inv_worker_def\<close>)
  show "binv env (t\<lparr>bt_row_state := Some st, bt_tail := RowWritten st\<rparr>)" if "bt_tail t = Ended st"
    by (rule binv_move [OF inv]) (use that pst [of st] known I(10) in \<open>auto simp: inv_tail_def all_failed_def lead_committed_def inv_worker_def\<close>)
  show "binv env (t\<lparr>bt_state := Some st, bt_worker := rec_worker t, bt_attempt := rec_attempt t, bt_tail := Stored st\<rparr>)" if "bt_tail t = RowWritten st"
    by (rule binv_move [OF inv]) (use that pst [of st] known failed_row in \<open>auto simp: inv_tail_def all_failed_def lead_committed_def\<close>)
  show "binv env (t\<lparr>bt_fence := None, bt_tail := BodyDone\<rparr>)" if "bt_tail t = Stored st"
    by (rule binv_move [OF inv]) (use that pst [of st] known I(7,10) in \<open>auto simp: inv_tail_def inv_known_def inv_worker_def\<close>)
  show "binv env (t\<lparr>bt_tail := PersistFailed st\<rparr>)" if "bt_tail t = Ended st \<or> bt_tail t = RowWritten st"
    by (rule binv_move [OF inv]) (use that pst [of st] known I(10) in \<open>auto simp: inv_tail_def all_failed_def lead_committed_def inv_worker_def\<close>)
qed


lemma binv_body_finalized:
  assumes inv: "binv env t" and tail: "(bt_tail t = Waiter \<or> bt_tail t = LockHeld) \<and> st = TsFailed \<or> bt_tail t = PersistFailed st"
  shows "binv env ((finalize_batch_terminal ok (st = TsSuccess) (Some st) t)\<lparr>bt_tail := BodyDone\<rparr>)" (is "binv env (?T\<lparr>bt_tail := BodyDone\<rparr>)")
proof -
  note I = binvD [OF inv]
  have st: "st = TsSuccess \<and> lead_committed t \<or> st = TsFailed \<and> all_failed t" using I(3) tail by (auto simp: inv_tail_def all_failed_def)
  have known: "bt_state t \<noteq> None" using I(7) tail by (auto simp: inv_known_def)
  have state: "bt_state ?T = (if st = TsSuccess then Some TsSuccess else if unfinished (bt_state t) then Some TsFailed else bt_state t)"
    using known st by (auto simp: finalize_state)
  have row: "bt_row_state ?T = bt_row_state t \<or> bt_row_state ?T = bt_state ?T" by (rule finalize_row)
  have over: "\<not> unfinished (bt_state ?T)" by (rule finalize_terminal)
  show ?thesis
    by (rule binv_move [OF inv]) (use st known row over tail in \<open>auto simp: state inv_tail_def split: if_splits\<close>)
qed

lemma binv_published:
  assumes "be_readable env" and inv: "binv env t" and tail: "bt_tail t = AwaitPublication i" and "settled (bt_pubs t ! i)"
  shows "binv env (end_attempt policy (publication_result (be_readable env) (bt_pubs t) (bt_pubs t ! i)) t)" (is "binv env ?T")
proof -
  note I = binvD [OF inv]
  have len: "Suc i = length (bt_pubs t)" using I(3) tail by (simp add: inv_tail_def)
  note last = pub_at_last [OF len]
  let ?c = "resolve_interrupted_publish_verdict (be_readable env) (bt_pubs t) (bt_pubs t ! i)"
  have c: "?c = committed (last (bt_pubs t))" using verdict_truth [OF assms(1)] I(1) last assms(4) by (simp add: inv_pubs_def)
  have yes: "lead_committed t" if ?c using that c last assms(4) by (simp add: lead_committed_def)
  have no: "all_failed t" if "\<not> ?c" using that c last assms(4) last_failed [OF I(1)] by (simp add: failed_def)
  have known: "bt_state t \<noteq> None" using known_state [OF inv] last by blast
  have T: "?T = (if ?c then t\<lparr>bt_tail := Ended TsSuccess\<rparr>
      else if \<not> pub_suppress (bt_pubs t ! i) \<and> can_retry policy (rec_attempt t) then t\<lparr>bt_tail := Assigning, rec_worker := None\<rparr>
      else t\<lparr>bt_tail := Ended TsFailed\<rparr>)"
    by (simp add: end_attempt_def publication_result_def)
  have "binv env (t\<lparr>bt_tail := Ended TsSuccess\<rparr>)" if ?c
    by (rule binv_move [OF inv]) (use yes [OF that] tail known I(10) in \<open>auto simp: inv_tail_def lead_committed_def inv_worker_def\<close>)
  moreover have "binv env (t\<lparr>bt_tail := Ended TsFailed\<rparr>)" "binv env (t\<lparr>bt_tail := Assigning, rec_worker := None\<rparr>)" if "\<not> ?c"
    by (rule binv_move [OF inv], use no [OF that] tail known I(10) in \<open>auto simp: inv_tail_def all_failed_def inv_worker_def\<close>)+
  ultimately show ?thesis unfolding T by presburger
qed

lemma binv_publishing:
  assumes inv: "binv env t" and tail: "bt_tail t = Executing"
  shows "binv env (start_publication (be_append env) (be_deep_storage env) t)"
proof (cases "bt_registered t")
  case False
  then show ?thesis using binv_tail_points(5) [OF inv tail] by (simp add: start_publication_def)
next
  case True
  note I = binvD [OF inv]
  have af: "all_failed t" using I(3) tail by (auto simp: inv_tail_def)
  have idle: "bt_finalizers t = []" "bt_recoveries t = 0" "bt_state t \<noteq> Some TsFailed" "bt_row_state t \<noteq> Some TsFailed" "bt_state t \<noteq> None"
    using I(4,5,6,7) True tail by (auto simp: inv_finalizers_def inv_failed_def inv_recoveries_def inv_known_def)
  have forced: "bt_forced t" if "bt_state t = Some TsSuccess \<or> bt_row_state t = Some TsSuccess" using that I(8) all_failed_lead [OF af] by (simp add: inv_success_def)
  let ?t = "t\<lparr>bt_fence := Some (length (bt_pubs t)), bt_tail := AwaitPublication (length (bt_pubs t)),
    bt_pubs := bt_pubs t @ [publication_new (be_append env) (be_deep_storage env)]\<rparr>"
  have "inv_pubs env ?t" using I(1) af pub_ok_new by (auto simp: inv_pubs_def all_failed_def)
  moreover have "inv_success ?t" using forced by (simp add: inv_success_def)
  ultimately have "binv env ?t" using idle I(10) by (simp add: binv_def inv_fence_def inv_tail_def inv_finalizers_def inv_failed_def inv_recoveries_def inv_known_def inv_pending_def inv_worker_def)
  then show ?thesis using True by (simp add: start_publication_def)
qed

lemma binv_dropped:
  assumes inv: "binv env t" and tail: "bt_tail t \<noteq> NoTail" "bt_tail t \<noteq> TailGone"
  shows "binv env (batch_tail_guard_drop t)"
proof -
  note I = binvD [OF inv]
  have rcv: "bt_recoveries t = 0" using I(6) tail by (auto simp: inv_recoveries_def)
  have known: "bt_state t \<noteq> None" using I(7) tail by (auto simp: inv_known_def)
  let ?T = "batch_tail_guard_drop t"
  have same: "bt_pubs ?T = bt_pubs t" "bt_tail ?T = TailGone" "bt_fence ?T = bt_fence t" "bt_registered ?T = False" "bt_state ?T = bt_state t"
    "bt_row_state ?T = bt_row_state t" "bt_forced ?T = bt_forced t" "bt_worker ?T = bt_worker t"
    "bt_finalizers ?T = bt_finalizers t @ (case bt_fence t of None \<Rightarrow> [] | Some i \<Rightarrow> [i])" "bt_recoveries ?T = (case bt_fence t of None \<Rightarrow> 1 | Some i \<Rightarrow> 0)"
    using rcv by (simp_all add: batch_tail_guard_drop_def Let_def split: option.splits)
  have eq: "all_failed ?T = all_failed t" "lead_committed ?T = lead_committed t" by (simp_all add: all_failed_def lead_committed_def same)
  have "inv_finalizers ?T" using I(2,4) by (auto simp: inv_finalizers_def inv_fence_def same split: option.splits)
  moreover have "inv_recoveries ?T" using I(2) by (auto simp: inv_recoveries_def inv_fence_def same eq split: option.splits)
  moreover have "inv_pending ?T" by (auto simp: inv_pending_def same split: option.splits)
  moreover have "inv_tail ?T" "inv_known ?T" using known by (auto simp: inv_tail_def inv_known_def same)
  moreover have "inv_pubs env ?T" "inv_fence ?T" "inv_failed ?T" "inv_success ?T" "inv_worker ?T"
    using I(1,2,5,8,10) by (simp_all add: inv_pubs_def inv_fence_def inv_failed_def inv_success_def inv_worker_def same eq)
  ultimately show ?thesis by (simp add: binv_def)
qed

section \<open>Steps of a publication\<close>

lemma binv_section:
  assumes inv: "binv env t" and i: "i < length (bt_pubs t)" and ok: "pub_ok env p'" and still: "settled (bt_pubs t ! i) \<Longrightarrow> p' = bt_pubs t ! i"
  shows "binv env (t\<lparr>bt_pubs := (bt_pubs t)[i := p']\<rparr>)" (is "binv env ?t")
proof (cases "settled (bt_pubs t ! i)")
  case True
  then show ?thesis using still inv by simp
next
  case False
  note I = binvD [OF inv]
  have len: "Suc i = length (bt_pubs t)"
  proof (rule ccontr)
    assume "Suc i \<noteq> length (bt_pubs t)"
    then have "i < length (butlast (bt_pubs t))" using i by simp
    then have "bt_pubs t ! i \<in> set (butlast (bt_pubs t))" using nth_butlast nth_mem by metis
    then show False using I(1) False by (auto simp: inv_pubs_def failed_def)
  qed
  note last = pub_at_last [OF len]
  have live: "\<not> all_failed t" "\<not> lead_committed t" using False last by (auto simp: all_failed_def lead_committed_def failed_def)
  have front: "butlast ((bt_pubs t)[i := p']) = butlast (bt_pubs t)"
    using len by (metis diff_Suc_1 butlast_list_update)
  have "inv_pubs env ?t" using I(1) ok front set_update_subset_insert [of "bt_pubs t" i p'] by (auto simp: inv_pubs_def)
  moreover have "inv_tail ?t" using I(3) live len by (auto simp: inv_tail_def)
  moreover have "inv_fence ?t" using I(2) live(1) by (simp add: inv_fence_def)
  moreover have "inv_finalizers ?t" using I(4) by (simp add: inv_finalizers_def)
  moreover have "inv_failed ?t" using I(5) live(1) by (simp add: inv_failed_def)
  moreover have "inv_recoveries ?t" using I(6) live(1) by (simp add: inv_recoveries_def)
  moreover have "inv_known ?t" using I(7) unfolding inv_known_def by auto
  moreover have "inv_success ?t" using I(8) live(2) by (simp add: inv_success_def)
  moreover have "inv_pending ?t" "inv_worker ?t" using I(9,10) by (simp_all add: inv_pending_def inv_worker_def)
  ultimately show ?thesis by (simp add: binv_def)
qed


lemma binv_section_moves:
  assumes inv: "binv env t" and i: "i < length (bt_pubs t)"
    and p': "p' = section_persist b (bt_pubs t ! i) \<and> pub_point (bt_pubs t ! i) = AtPersist \<or>
      p' = section_commit b c (bt_pubs t ! i) \<and> pub_point (bt_pubs t ! i) = AtCommit \<or>
      p' = section_cleanup (bt_pubs t ! i) \<and> pub_point (bt_pubs t ! i) = AtCleanup \<or>
      p' = section_rollback b (bt_pubs t ! i) \<and> pub_point (bt_pubs t ! i) = AtRollback \<or>
      p' = section_drop (bt_pubs t ! i) \<and> at_await (bt_pubs t ! i) \<or>
      p' = orphan_op b (bt_pubs t ! i)"
  shows "binv env (t\<lparr>bt_pubs := (bt_pubs t)[i := p']\<rparr>)"
proof (rule binv_section [OF inv i])
  have "pub_ok env (bt_pubs t ! i)" using binvD(1) [OF inv] i by (simp add: inv_pubs_def)
  then show "pub_ok env p'" using p' pub_ok_moves by metis
  show "p' = bt_pubs t ! i" if "settled (bt_pubs t ! i)"
    using p' settled_stays [OF that] by auto
qed

lemma binv_step:
  assumes "be_readable env" and waits: "be_waits env" and "batch_step env t t'" and inv: "binv env t"
  shows "binv env t'"
  using assms(3)
proof cases
  case submitted
  then show ?thesis using binv_submit [OF inv] by simp
next
  case queued
  then show ?thesis using binv_submit [OF inv] by simp
next
  case lock_granted
  then show ?thesis using binv_tail_points(1) [OF inv] by simp
next
  case lock_stored
  then show ?thesis using binv_tail_points(2) [OF inv] by simp
next
  case (lock_refused ok)
  then show ?thesis using binv_body_finalized [OF inv, of TsFailed] by simp
next
  case (assigned w)
  then show ?thesis using binv_tail_points(3) [OF inv] by simp
next
  case (attempt_failed r)
  then show ?thesis using binv_tail_points(4) [OF inv] by simp
next
  case publishing
  then show ?thesis using binv_publishing [OF inv] by simp
next
  case (published i)
  then show ?thesis using binv_published [OF assms(1) inv] waits by (simp add: section_ended_def)
next
  case (persisted st)
  then show ?thesis using binv_tail_points(6) [OF inv] by simp
next
  case (stored st)
  then show ?thesis using binv_tail_points(7) [OF inv] by simp
next
  case (retired st)
  then show ?thesis using binv_tail_points(8) [OF inv] by simp
next
  case (unpersisted st)
  then show ?thesis using binv_tail_points(9) [OF inv] by simp
next
  case (finalized st ok)
  then show ?thesis using binv_body_finalized [OF inv, of st] by simp
next
  case dropped
  then show ?thesis using binv_dropped [OF inv] by simp
next
  case (verdict i ok)
  then show ?thesis using binv_verdict [OF assms(1) inv] waits by (simp add: section_ended_def)
next
  case (recovered ok)
  then show ?thesis using binv_recovered [OF inv] by simp
next
  case (shut_down ok)
  then show ?thesis using binv_abort [OF inv] by simp
next
  case (transition ok target r)
  then show ?thesis using binv_transition [OF inv] by simp
next
  case (worker_lost ok wid)
  then show ?thesis using inv lose_worker_never [OF inv] by simp
next
  case (section_moves i p' b c)
  then show ?thesis using binv_section_moves [OF inv] by simp
qed

lemma binv_init: "binv env batch_init"
  by (simp add: binv_def inv_defs batch_init_def all_failed_def)

lemma binv_reachable:
  assumes "be_readable env" and "be_waits env" and "(batch_step env)\<^sup>*\<^sup>* batch_init t"
  shows "binv env t"
  using assms(3) by induction (auto intro: binv_init binv_step [OF assms(1,2)])


section \<open>Verdicts are true\<close>

text \<open>C3: The verdict on a batch task is true, whatever interleaving of the tail, its publications, the finalizers, shutdowns, manual
  transitions and dying tails the task goes through, as long as the store answers the look-ups of an interrupted publication and
  an operation on the store ends within the time the code waits for it. While the task or its durable row says FAILED, every one
  of its publications has ended without becoming visible, and none of an appending task has left a durable row; when the task or its
  row says SUCCESS, one of its publications is visible, or the task appends and a durable row is there for the next restart, or the state was
  forced by a manual transition. A replacing task may leave a durable row under FAILED: the code reports it so on purpose (see
  \<open>replace_failed_keeps_row\<close>).\<close>

theorem verdicts_truthful:
  assumes "be_readable env" and "be_waits env" and "(batch_step env)\<^sup>*\<^sup>* batch_init t"
  shows "(bt_state t = Some TsFailed \<or> bt_row_state t = Some TsFailed \<longrightarrow>
      (\<forall>p \<in> set (bt_pubs t). settled p \<and> \<not> pub_swapped p \<and> \<not> (be_append env \<and> pub_durable p \<and> pub_row p))) \<and>
    (bt_state t = Some TsSuccess \<or> bt_row_state t = Some TsSuccess \<longrightarrow>
      bt_forced t \<or> (\<exists>p \<in> set (bt_pubs t). pub_swapped p \<or> be_append env \<and> pub_durable p \<and> pub_row p))"
proof -
  note I = binvD [OF binv_reachable [OF assms]]
  have mode: "pub_append p = be_append env" if "p \<in> set (bt_pubs t)" for p
    using I(1) that by (auto simp: inv_pubs_def pub_ok_def)
  have "settled p \<and> \<not> pub_swapped p \<and> \<not> (be_append env \<and> pub_durable p \<and> pub_row p)"
    if "bt_state t = Some TsFailed \<or> bt_row_state t = Some TsFailed" "p \<in> set (bt_pubs t)" for p
    using I(5) that mode by (auto simp: inv_failed_def all_failed_def failed_def committed_def)
  moreover have "\<exists>p \<in> set (bt_pubs t). pub_swapped p \<or> be_append env \<and> pub_durable p \<and> pub_row p" if "lead_committed t"
    using that mode by (intro bexI [of _ "last (bt_pubs t)"]) (auto simp: lead_committed_def committed_def)
  ultimately show ?thesis using I(8) unfolding inv_success_def by blast
qed

text \<open>A run: the task is shut down while its publication is under way, the publication is dropped while the commit is written,
  and the commit then lands or not.\<close>

definition interrupted_env :: batch_env where
  "interrupted_env = \<lparr>be_policy = default_retry_policy, be_append = True, be_deep_storage = True, be_readable = True, be_waits = True\<rparr>"

definition interrupted_pub :: "bool \<Rightarrow> publication" where
  "interrupted_pub landed = orphan_op landed (section_drop (section_persist True (publication_new True True)))"

definition interrupted_mid :: batch_task where
  "interrupted_mid = abort_tail_and_finalize True (start_publication True True (begin_attempt (Some ''w'') (register_tail TsRunning Assigning batch_init)))"

definition interrupted_run :: "bool \<Rightarrow> batch_task" where
  "interrupted_run landed = finalize_batch_terminal True landed None (interrupted_mid\<lparr>bt_pubs := [interrupted_pub landed], bt_finalizers := []\<rparr>)"

lemma interrupted_mid:
  "(batch_step interrupted_env)\<^sup>*\<^sup>* batch_init interrupted_mid"
  "bt_pubs interrupted_mid = [publication_new True True]" "bt_finalizers interrupted_mid = [0]" "bt_state interrupted_mid = Some TsRunning"
proof -
  let ?s = "batch_step interrupted_env"
  let ?t1 = "register_tail TsRunning Assigning batch_init"
  let ?t2 = "begin_attempt (Some ''w'') ?t1"
  let ?t3 = "start_publication True True ?t2"
  have 1: "?s batch_init ?t1" by (rule submitted) (simp add: batch_init_def)
  have 2: "?s ?t1 ?t2" by (rule assigned) (simp add: register_tail_def)
  have "?s ?t2 (start_publication (be_append interrupted_env) (be_deep_storage interrupted_env) ?t2)" by (rule publishing) (simp add: begin_attempt_def)
  then have 3: "?s ?t2 ?t3" by (simp add: interrupted_env_def)
  have 4: "?s ?t3 (abort_tail_and_finalize True ?t3)" by (rule shut_down)
  show "?s\<^sup>*\<^sup>* batch_init interrupted_mid" unfolding interrupted_mid_def using 1 2 3 4 by (meson rtranclp.rtrancl_into_rtrancl rtranclp.rtrancl_refl)
  show "bt_pubs interrupted_mid = [publication_new True True]" "bt_finalizers interrupted_mid = [0]" "bt_state interrupted_mid = Some TsRunning"
    by (simp_all add: interrupted_mid_def abort_tail_and_finalize_def start_publication_def begin_attempt_def register_tail_def batch_init_def is_terminal_def)
qed

lemma interrupted_run_reachable: "(batch_step interrupted_env)\<^sup>*\<^sup>* batch_init (interrupted_run landed)"
proof -
  let ?s = "batch_step interrupted_env" and ?t = "\<lambda>p. interrupted_mid\<lparr>bt_pubs := [p]\<rparr>"
  let ?p0 = "publication_new True True"
  have move: "?s (?t p) (?t p')" if "p' = section_persist True p \<and> pub_point p = AtPersist \<or> p' = section_drop p \<and> at_await p \<or> p' = orphan_op landed p" for p p'
    using section_moves [of 0 "?t p" p' "if p' = orphan_op landed p then landed else True" undefined interrupted_env] that by (auto split: if_splits)
  have start: "?t ?p0 = interrupted_mid" using interrupted_mid(2) by simp
  have "?s (?t ?p0) (?t (section_persist True ?p0))" by (rule move) (simp add: publication_new_def)
  moreover have "?s (?t (section_persist True ?p0)) (?t (section_drop (section_persist True ?p0)))"
    by (rule move) (simp add: section_persist_def publication_new_def at_await_def)
  moreover have "?s (?t (section_drop (section_persist True ?p0))) (?t (interrupted_pub landed))" by (rule move) (simp add: interrupted_pub_def)
  ultimately have "?s\<^sup>*\<^sup>* (?t ?p0) (?t (interrupted_pub landed))" by (meson rtranclp.rtrancl_into_rtrancl rtranclp.rtrancl_refl)
  then have 1: "?s\<^sup>*\<^sup>* batch_init (?t (interrupted_pub landed))" using interrupted_mid(1) start by simp
  have pub: "settled (interrupted_pub landed)" "resolve_interrupted_publish_verdict True [interrupted_pub landed] (interrupted_pub landed) = landed"
    by (simp_all add: interrupted_pub_def orphan_op_def section_drop_def section_persist_def publication_new_def settled_def
        resolve_interrupted_publish_verdict_def durable_batch_commit_for_task_def)
  have "?s (?t (interrupted_pub landed)) (interrupted_run landed)"
    using verdict [of 0 "?t (interrupted_pub landed)" interrupted_env True] interrupted_mid(3) pub by (simp add: interrupted_run_def interrupted_env_def section_ended_def)
  then show ?thesis using 1 by (rule rtranclp.rtrancl_into_rtrancl [rotated])
qed

lemma interrupted_run_state: "bt_state (interrupted_run landed) = Some (if landed then TsSuccess else TsFailed)"
  using interrupted_mid(4) by (simp add: interrupted_run_def finalize_state is_terminal_def)

theorem verdicts_truthful_witness:
  "bt_state (interrupted_run False) = Some TsFailed \<and> list_all (\<lambda>p. settled p \<and> \<not> pub_swapped p \<and> \<not> (pub_durable p \<and> pub_row p)) (bt_pubs (interrupted_run False)) \<and>
   bt_state (interrupted_run True) = Some TsSuccess \<and>
   (bt_forced (interrupted_run True) \<or> (\<exists>p \<in> set (bt_pubs (interrupted_run True)). pub_swapped p \<or> pub_durable p \<and> pub_row p))"
proof -
  have "be_readable interrupted_env" "be_waits interrupted_env" "be_append interrupted_env" by (simp_all add: interrupted_env_def)
  then show ?thesis
    using verdicts_truthful [OF _ _ interrupted_run_reachable [of False]] verdicts_truthful [OF _ _ interrupted_run_reachable [of True]]
    by (simp add: interrupted_run_state list_all_iff)
qed

text \<open>A replacing task fails with a durable row: it is shut down while it publishes, the row is written, the swap fails and so does the
  rollback.\<close>

definition replace_pub :: publication where
  "replace_pub = section_rollback False (section_commit True False (section_persist True (publication_new False True)))"

theorem replace_failed_keeps_row:
  assumes "\<not> be_append env" and "be_deep_storage env"
  shows "\<exists>t p. (batch_step env)\<^sup>*\<^sup>* batch_init t \<and> bt_state t = Some TsFailed \<and> bt_row_state t = Some TsFailed \<and>
    bt_pubs t = [p] \<and> pub_row p \<and> pub_durable p \<and> \<not> pub_swapped p"
proof -
  let ?s = "batch_step env"
  let ?t1 = "register_tail TsRunning Assigning batch_init"
  let ?t2 = "begin_attempt None ?t1"
  let ?t3 = "start_publication False True ?t2"
  let ?t4 = "abort_tail_and_finalize True ?t3"
  let ?p0 = "publication_new False True"
  let ?p1 = "section_persist True ?p0"
  let ?p2 = "section_commit True False ?p1"
  let ?t = "\<lambda>p. ?t4\<lparr>bt_pubs := [p]\<rparr>"
  let ?t5 = "finalize_batch_terminal True False None (?t replace_pub\<lparr>bt_finalizers := []\<rparr>)"
  have t4: "bt_pubs ?t4 = [?p0]" "bt_finalizers ?t4 = [0]" "bt_state ?t4 = Some TsRunning"
    by (simp_all add: abort_tail_and_finalize_def start_publication_def begin_attempt_def register_tail_def batch_init_def is_terminal_def)
  have move: "?s (?t p) (?t p')"
    if "p' = section_persist True p \<and> pub_point p = AtPersist \<or> p' = section_commit True False p \<and> pub_point p = AtCommit \<or>
      p' = section_rollback False p \<and> pub_point p = AtRollback" for p p'
    using section_moves [of 0 "?t p" p' "pub_point p \<noteq> AtRollback" False env] that by auto
  have "?s batch_init ?t1" by (rule submitted) (simp add: batch_init_def)
  moreover have "?s ?t1 ?t2" by (rule assigned) (simp add: register_tail_def)
  moreover have "?s ?t2 ?t3" using publishing [of ?t2 env] assms by (simp add: begin_attempt_def)
  moreover have "?s ?t3 (?t ?p0)"
  proof -
    have "?t ?p0 = ?t4" using t4(1) by (metis (no_types, lifting) batch_task.surjective batch_task.update_convs(9) batch_task.select_convs(9))
    then show ?thesis using shut_down [of env ?t3 True] by simp
  qed
  moreover have "?s (?t ?p0) (?t ?p1)" by (rule move) (simp add: publication_new_def)
  moreover have "?s (?t ?p1) (?t ?p2)" by (rule move) (simp add: section_persist_def publication_new_def)
  moreover have "?s (?t ?p2) (?t replace_pub)"
    by (rule move) (simp add: replace_pub_def section_commit_def section_persist_def publication_new_def)
  moreover have "?s (?t replace_pub) ?t5"
  proof -
    have p: "section_ended env replace_pub" "\<not> resolve_interrupted_publish_verdict (be_readable env) [replace_pub] replace_pub"
      by (simp_all add: section_ended_def settled_def resolve_interrupted_publish_verdict_def replace_pub_def section_rollback_def
          section_commit_def section_persist_def publication_new_def resolve_def)
    then show ?thesis using verdict [of 0 "?t replace_pub" env True] t4(2) by simp
  qed
  ultimately have "?s\<^sup>*\<^sup>* batch_init ?t5" by (meson rtranclp.rtrancl_into_rtrancl rtranclp.rtrancl_refl)
  moreover have "bt_state ?t5 = Some TsFailed" "bt_row_state ?t5 = Some TsFailed" "bt_pubs ?t5 = [replace_pub]"
    using t4(3) by (simp_all add: finalize_batch_terminal_def persist_existing_def unfinished_def is_terminal_def)
  moreover have "pub_row replace_pub" "pub_durable replace_pub" "\<not> pub_swapped replace_pub"
    by (simp_all add: replace_pub_def section_rollback_def section_commit_def section_persist_def publication_new_def resolve_def)
  ultimately show ?thesis by blast
qed

section \<open>No task is stranded\<close>

text \<open>What is left behind by a tail that is gone, whatever the store answers and however long it takes.\<close>

definition left_behind :: "batch_task \<Rightarrow> bool" where
  "left_behind t \<longleftrightarrow> (bt_tail t = NoTail \<longleftrightarrow> bt_state t = None) \<and>
     (bt_tail t = TailGone \<longrightarrow> \<not> bt_registered t \<and> (unfinished (bt_state t) \<longrightarrow> bt_finalizers t \<noteq> [] \<or> 0 < bt_recoveries t) \<and>
       (bt_fence t \<noteq> None \<longrightarrow> bt_finalizers t \<noteq> []))"

lemma left_behind_persist: "left_behind (persist_existing ok t) = left_behind t"
  by (simp add: left_behind_def)

lemma left_behind_finalize:
  assumes "left_behind t" and "bt_registered t' = bt_registered t" and "bt_tail t' = bt_tail t" and "bt_state t' = bt_state t"
  shows "left_behind (finalize_batch_terminal ok c None t')"
  using assms finalize_terminal [of ok c None t'] by (auto simp: left_behind_def finalize_state)

lemma left_behind_abort:
  assumes "left_behind t"
  shows "left_behind (abort_tail_and_finalize ok t)"
proof (cases "unfinished (bt_state t)")
  case False
  then show ?thesis using assms by (simp add: abort_tail_and_finalize_def left_behind_persist)
next
  case True
  then have "bt_state t \<noteq> None" by (cases "bt_state t") auto
  then show ?thesis using assms True
    by (cases "bt_fence t") (auto simp: abort_tail_and_finalize_def Let_def left_behind_persist left_behind_def is_terminal_def)
qed

lemma left_behind_transition:
  assumes "left_behind t" and "transition_task ok target t = (r, t')"
  shows "left_behind t'"
proof -
  consider "t' = t" | "t' = abort_tail_and_finalize ok t"
    | st where "bt_state t = Some st" "can_transition_to st target" "t' = persist_existing ok (moved_to target t)"
    using transition_result [OF assms(2)] by blast
  then show ?thesis
  proof cases
    case (3 st)
    have "\<not> is_terminal st" using 3(2) by (auto simp: can_transition_to_def)
    then show ?thesis using assms(1) 3(1,3) by (auto simp: left_behind_persist left_behind_def)
  qed (use assms(1) left_behind_abort in auto)
qed

lemma left_behind_lose:
  assumes "left_behind t"
  shows "left_behind (lose_worker ok policy wid t)"
  using assms left_behind_abort [OF assms]
  by (auto simp: lose_worker_def left_behind_persist left_behind_def is_terminal_def)

lemma left_behind_step:
  assumes "batch_step env t t'" and inv: "left_behind t"
  shows "left_behind t'"
  using assms(1)
proof cases
  case (verdict i ok)
  then show ?thesis using left_behind_finalize [OF inv] by simp
next
  case (recovered ok)
  have "left_behind (t\<lparr>bt_recoveries := bt_recoveries t - 1\<rparr>)" if "\<not> unfinished (bt_state t)"
    using inv that by (simp add: left_behind_def)
  then show ?thesis using recovered left_behind_finalize [OF inv] by (auto simp: recover_pre_fence_def Let_def)
next
  case (shut_down ok)
  then show ?thesis using left_behind_abort [OF inv] by simp
next
  case (transition ok target r)
  then show ?thesis using left_behind_transition [OF inv] by simp
next
  case (worker_lost ok wid)
  then show ?thesis using left_behind_lose [OF inv] by simp
next
  case dropped
  then show ?thesis using inv by (auto simp: left_behind_def batch_tail_guard_drop_def Let_def split: option.splits)
next
  case (attempt_failed r)
  then show ?thesis using inv by (auto simp: left_behind_def end_attempt_def split: attempt_result.splits)
next
  case (published i)
  then show ?thesis using inv by (auto simp: left_behind_def end_attempt_def split: attempt_result.splits)
qed (use inv in \<open>auto simp: left_behind_def register_tail_def begin_attempt_def start_publication_def finalize_state\<close>)

lemma left_behind_reachable: "(batch_step env)\<^sup>*\<^sup>* batch_init t \<Longrightarrow> left_behind t"
proof (induction rule: rtranclp_induct)
  case base
  show ?case by (simp add: left_behind_def batch_init_def)
next
  case (step t t')
  then show ?case using left_behind_step by blast
qed

text \<open>C11: No batch task is stranded: once its tail is gone and neither a finalizer nor a recovery is under way, the task has
  a terminal state and its fence is retired, whatever the store answers and however long its operations take. Shutting it down, losing
  the tail before, during or after the publication, failing to persist the row: each leaves something behind that brings the verdict.\<close>

theorem no_task_stranded:
  assumes "(batch_step env)\<^sup>*\<^sup>* batch_init t" and "bt_tail t = TailGone" and "bt_finalizers t = []" and "bt_recoveries t = 0"
  shows "\<exists>st. bt_state t = Some st \<and> is_terminal st \<and> bt_fence t = None \<and> \<not> bt_registered t"
  using left_behind_reachable [OF assms(1)] assms(2-4) by (cases "bt_state t") (auto simp: left_behind_def)

theorem no_task_stranded_witness:
  "\<exists>t st. (batch_step interrupted_env)\<^sup>*\<^sup>* batch_init t \<and> bt_tail t = TailGone \<and> bt_state t = Some st \<and> is_terminal st \<and> bt_fence t = None \<and> \<not> bt_registered t"
proof -
  let ?s = "batch_step interrupted_env"
  let ?t1 = "register_tail TsRunning Assigning batch_init"
  let ?t2 = "batch_tail_guard_drop ?t1"
  let ?t3 = "recover_pre_fence True ?t2"
  have "?s batch_init ?t1" by (rule submitted) (simp add: batch_init_def)
  moreover have "?s ?t1 ?t2" by (rule dropped) (simp_all add: register_tail_def)
  moreover have "?s ?t2 ?t3" by (rule recovered) (simp add: batch_tail_guard_drop_def register_tail_def batch_init_def)
  ultimately have run: "?s\<^sup>*\<^sup>* batch_init ?t3" by (meson rtranclp.rtrancl_into_rtrancl rtranclp.rtrancl_refl)
  have gone: "bt_tail ?t3 = TailGone" "bt_finalizers ?t3 = []" "bt_recoveries ?t3 = 0"
    by (simp_all add: recover_pre_fence_def batch_tail_guard_drop_def register_tail_def batch_init_def is_terminal_def)
  then show ?thesis using no_task_stranded [OF run gone] run gone by blast
qed

text \<open>Losing a worker changes nothing: the record that carries the worker of an attempt is the tail's own, the record in the
  task table never names one while the task runs, so the requeueing of \<open>lose_worker\<close> is unreachable for batch tasks.\<close>

theorem lost_worker_unnoticed:
  assumes "be_readable env" and "be_waits env" and "(batch_step env)\<^sup>*\<^sup>* batch_init t"
  shows "lose_worker ok policy wid t = t"
  using lose_worker_never [OF binv_reachable [OF assms]] .

theorem lost_worker_unnoticed_witness:
  "rec_worker interrupted_mid = Some ''w'' \<and> bt_state interrupted_mid = Some TsRunning \<and> lose_worker True default_retry_policy ''w'' interrupted_mid = interrupted_mid"
proof -
  have "be_readable interrupted_env" "be_waits interrupted_env" by (simp_all add: interrupted_env_def)
  moreover have "rec_worker interrupted_mid = Some ''w''"
    by (simp add: interrupted_mid_def abort_tail_and_finalize_def start_publication_def begin_attempt_def register_tail_def batch_init_def is_terminal_def)
  ultimately show ?thesis using lost_worker_unnoticed [OF _ _ interrupted_mid(1)] interrupted_mid(4) by blast
qed

end
