(* ===== verification/Spec2Isabelle.thy ===== *)
theory Spec2Isabelle
  imports Dictionary_Properties Cluster_Properties Coordinator_Properties Kinesis_Properties Memory
    Smoosh_Properties Bitmap
    Replication_Properties
    Query_Expr_Properties Timeseries_Properties Query_Scan_Properties Query_Join_Properties
    Kafka_Task_Properties Kafka_Eos
    Overlord_Lock_Properties Overlord_Batch_Properties
begin

text \<open>
  Verification of the core of FerroDruid, a Rust implementation of the Druid analytical data base
  (crates under src/crates/).

  \<^bold>\<open>The program.\<close> Rows arrive through ingestion (Kafka, Kinesis, batch) and become immutable segments.
  A segment stores its string columns through a front-coded dictionary. Its metadata row goes to
  the metadata store and carries, for streaming ingestion, the evidence of which input records are
  durable. The coordinator reads the used segments and the load rules from the metadata store and
  decides which historical server holds which segment. The cluster manager keeps the registry of
  services, the locks ingestion tasks hold on time intervals, and the queues of segment actions for
  each node. Queries filter the rows of a segment, group them into time buckets and aggregate them,
  against a memory budget. The development models the parts that decide whether data is kept,
  found, decoded and aggregated correctly; network and storage are outside.

  \<^bold>\<open>Foundation.\<close>
  \<^item> \<open>Prelude\<close>: bytes and machine words, the results of Rust code (\<open>Done\<close>, an error value, or
    \<open>Panic\<close> for an abort), checked slices, little-endian integers, saturating arithmetic, and the
    transition-system vocabulary (\<open>reachable\<close>, locale \<open>inductive_invariant\<close>). Locale \<open>byte_codec\<close>
    is the contract of a writer and a reader of one value; it gives the round trip of a sequence
    of values. It is interpreted for \<open>u32\<close> and for the variable-length integers.
  \<^item> \<open>Hash_Map\<close>: the hash map of the standard library as an association list with distinct
    keys; the laws are locale \<open>key_store\<close>. \<open>Text\<close>, \<open>Json\<close>, \<open>Utf8\<close>: the string functions, the JSON
    accessors and the UTF-8 validation the modelled code uses. \<open>Int64\<close>: 64-bit signed arithmetic; \<open>Btree_Map\<close>: the
    ordered map as a sorted association list.

  \<^bold>\<open>Front-coded dictionary\<close> (ferrodruid-dict/src/lib.rs).
  \<^item> \<open>Vint\<close>: the variable-length integer codec.
  \<^item> \<open>Dictionary\<close>: \<open>serialize\<close>, \<open>serialize_v2\<close>, \<open>deserialize\<close>, \<open>deserialize_v2\<close>, \<open>get_v2\<close> with
    every check and error of the source. \<open>Dictionary_Roundtrip\<close>, \<open>Dictionary_Access\<close> and
    \<open>Dictionary_Search\<close> hold the lemmas; the last one models \<open>find\<close> and \<open>find_prefix_range\<close>.
  \<^item> \<open>Dictionary_Properties\<close>: decoding inverts encoding in both versions, random access agrees with
    full decoding, no input makes a decoder read out of range, decoded values are well-formed
    strings, and lookups in a sorted dictionary are exact. The round trips need every shared
    prefix to end on a character boundary, since the serializer counts bytes and the decoder
    slices a string; a property shows that the decoder rejects the bytes otherwise.

  \<^bold>\<open>Segment container\<close> (ferrodruid-segment/src/smoosh.rs and the \<open>SmooshWriter\<close> of writer.rs).
  \<^item> \<open>Smoosh\<close>: the text index, the reader with the sweep for sidecar files, the check of entry names,
    and the writer that packs logical files into one chunk.
  \<^item> \<open>Smoosh_Properties\<close>: what is packed is read back, under the names without the white space in front of them (the reader
    trims the lines of the index); no directory makes the reader abort or load more than its caps.

  \<^bold>\<open>Bitmap\<close> (ferrodruid-bitmap/src/lib.rs): theory \<open>Bitmap\<close>. The bounds checks in front of an untrusted
  payload never refuse a bitmap of valid row numbers within the caps, and its values come back.

  \<^bold>\<open>Cluster manager\<close> (ferrodruid-cluster/src/lib.rs).
  \<^item> \<open>Cluster\<close>: \<open>ClusterState\<close> (registry, segment announcements) and \<open>ClusterManager\<close> (commands, task
    locks, action queues, snapshots) as records, one function per method; a poisoned \<open>RwLock\<close> is a
    flag of the lock.
  \<^item> \<open>Cluster_Invariants\<close>: the step relation \<open>cluster_step\<close> over commands, dequeueing and
    snapshots, its invariants, and the refinement of the registry to a finite map.
  \<^item> \<open>Cluster_Properties\<close>: locks of different tasks never overlap, the queues respect their caps,
    the outcome of an enqueue in each case, restoring a snapshot, and \<open>host:port\<close> parsing.

  \<^bold>\<open>Load rules\<close> (ferrodruid-loadrules/src/lib.rs): theory \<open>Load_Rules\<close> with its properties; the
  first matching rule decides, and what a period rule covers.

  \<^bold>\<open>Coordinator\<close> (ferrodruid-coordinator/src/lib.rs, server.rs, rules.rs).
  \<^item> \<open>Coordinator\<close>: the server registry, \<open>desired_placement\<close>, and the helpers of the balancing and
    rebalancing cycles, each a function on the assignments, the registry and the emitted actions.
  \<^item> \<open>Coordinator_Steps\<close>: every helper is a sequence of two elementary steps; the invariants of
    the two steps. \<open>Coordinator_Placement\<close>: what the helpers achieve. \<open>Coordinator_Cycle\<close>: whole
    cycles and the coordinator's reachable states.
  \<^item> \<open>Coordinator_Properties\<close>: a cycle gives every tier its copies or fills it, surplus copies go only
    when all tiers are satisfied, the last copy survives, byte accounting is exact, and the emitted
    actions are exactly the changes.

  \<^bold>\<open>Kinesis resume frontier\<close> (ferrodruid-ingest-kinesis/src/frontier.rs, the shard position of source.rs).
  \<^item> \<open>Kinesis_Frontier\<close>: sequence numbers, spans, the chain walk \<open>resume_walk\<close>, and the fold over the
    payloads of durable segments. \<open>Kinesis_Safety\<close>: lemmas.
  \<^item> \<open>Kinesis_Properties\<close>: resuming loses no record, an unbroken chain is resumed at its end, a shard
    with evidence never falls back to the configured default, payloads round-trip, and the order
    of sequence numbers is the numeric one.

  \<^bold>\<open>Replication\<close> (ferrodruid-cluster/src/replication.rs).
  \<^item> \<open>Replication\<close>: the state of one engine as a record and one function per handler (votes and
    pre-votes, entries, acknowledgements, replay requests, snapshots whole and in chunks), composed by
    the dispatch function. Such a function is the handler when nothing else of its node runs in between; the code
    takes and releases a lock per field and serves every connection in a task of its own, so this is a condition, which the
    statements name. For vote requests the steps between the locks are modelled too (\<open>vote_call_step\<close>).
  \<^item> \<open>Replication_Net\<close>: the transition system of nodes and messages in flight, and
    the invariants of elections. \<open>Replication_Calls\<close>: the same with vote requests served lock by lock, and with a gate that says
    whether they may interleave. \<open>Replication_Log\<close>, \<open>Replication_Chunks\<close>: log and reassembly lemmas.
  \<^item> \<open>Replication_Properties\<close>: one leader per term when every node does one thing at a time and deliveries do not change the term of a leader
    or take a node back; two leaders in one term when vote requests interleave, when a command of a newer term reaches a
    leader, or when a late snapshot does. The entries of a leader arrive
    as a prefix of its log, a follower that replays catches up, chunks reassemble to the bytes sent.

  \<^bold>\<open>Columns and rows\<close> (ferrodruid-segment/src/column.rs, segment.rs, the row helpers of
  ferrodruid-query/src/helpers.rs).
  \<^item> \<open>Float64\<close>: 64-bit floats as rationals with the special values, rounding to nearest even, and the
    parser of decimal texts. A float is printed by the standard library: the printers are a parameter.
  \<^item> \<open>Columns\<close>: the column variants, the encoding of nullable and of multi-value strings, reading a cell,
    building a row. Its properties: what is encoded is read back row by row.

  \<^bold>\<open>Filters\<close> (ferrodruid-query/src/filter.rs).
  \<^item> \<open>Query_Expr\<close>: the expression language, its tokenizer and its recursive-descent evaluator (mutual
    recursion over the remaining tokens). \<open>Query_Expr_Properties\<close>: the text of a formula evaluates to the
    formula's meaning, validation accepts exactly what parses on every row, and where signs get lost.
  \<^item> \<open>Query_Filter\<close>: the filter tree with its three evaluators (on a row, on typed columns, compiled) and its
    validation passes. \<open>Query_Filter_Properties\<close>: the three agree, except on infinite values.

  \<^bold>\<open>Aggregators\<close> (ferrodruid-aggregator/src/count.rs, sum.rs, minmax.rs): theory \<open>Aggregators\<close>. Locale
  \<open>mergeable\<close> is the contract of a state whose partial results compose; it is interpreted for the exact
  aggregators here and for the parallel scan of timeseries queries.

  \<^bold>\<open>Timeseries queries\<close> (ferrodruid-query/src/timeseries.rs, the time helpers of helpers.rs).
  \<^item> \<open>Granularity\<close>: buckets of timestamps and pruning of sorted rows; which bucket a timestamp gets, and that it contains it,
    except before 1970 and off the grid for granularities that divide towards zero.
  \<^item> \<open>Timeseries\<close>: the row loop, the filling of empty buckets, the result rows, the vectorized path, and
    \<open>execute\<close> that composes them with the validation passes.
  \<^item> \<open>Timeseries_Properties\<close>: the vectorized path returns what the row loop returns whenever a row matches,
    also in parallel for integer aggregations; they differ when none does. Filling ends, a period away from the
    largest integer, and adds exactly the missing buckets within the hour, day or seven days the period is grouped by.

  \<^bold>\<open>Virtual columns, scans and joins\<close> (ferrodruid-query/src/expr.rs, virtual_columns.rs, scan.rs, join.rs, ferrodruid-lookup/src/lib.rs).
  \<^item> \<open>Virtual_Expr\<close>: the expressions of virtual columns: values, tokens, the recursive-descent parser (the four
    left-associative levels are one function of the level), evaluation, and the columns built on them.
    \<open>Virtual_Expr_Properties\<close>: parsing inverts printing with minimal parentheses.
  \<^item> \<open>Query_Scan\<close>: a scan with the row map it reuses, the early end of its loop, ordering, offset and limit, and unions.
    \<open>Query_Scan_Properties\<close>: a scan returns what its specification says, and where a virtual column
    reads the row before. \<open>Lookup\<close> and \<open>Query_Join\<close>: lookup tables and the hash join; \<open>Query_Join_Properties\<close>: it
    returns what a nested loop returns.

  \<^bold>\<open>Kafka indexing\<close> (ferrodruid-ingest-kafka/src/partitions.rs, checkpoint.rs, source.rs, supervisor.rs, index_task.rs,
  eos_writer.rs, the record check of consumer.rs).
  \<^item> \<open>Kafka_Task\<close>: partitions and ranges, the checkpoint store, the in-memory source, the planner of tasks and a run
    of a task, whose loop over a partition is a partial function, since a source may go backwards.
  \<^item> \<open>Kafka_Task_Properties\<close>: locale \<open>record_source\<close> is the contract of a source; against it a run is one pass over
    the records of its ranges, and ends. It is interpreted for the in-memory source. Runs after each other consume
    every record once; a run that fails after a periodic checkpoint loses rows; the planner is fair.
  \<^item> \<open>Kafka_Eos\<close>: the segment writer with the offsets beside each segment, its disk and the protocol of its caller as a
    step relation; where a publication stops is an argument. Every published record is there once.

  \<^bold>\<open>Overlord\<close> (ferrodruid-overlord/src/task.rs, the lock and batch-task parts of lib.rs, the lock table of
  ferrodruid-metadata/src/store.rs).
  \<^item> \<open>Overlord_Task\<close>: task states, locks and the decision on a request, the retry policy, the choice of a worker. Round robin
    is a queue of the free workers, and the delay of a retry is exact.
  \<^item> \<open>Overlord_Locks\<close>: parsing a request, the lock table, acquiring with preemption, releasing, and the reconciliation at a
    start; an operation of the store may fail at any point. \<open>Overlord_Lock_Properties\<close>: the transition system of the
    requests; locks of different tasks never conflict, the outcome of a request, and locks that cannot be read back.
  \<^item> \<open>Overlord_Batch\<close>: one batch task as a transition system: the tail that executes it, the shielded publication with its
    fence, the finalizers, shutting down, manual transitions, lost workers and dying tails. Whether the store answers look-ups and
    whether its operations end within the bounded wait are part of the environment.
    \<open>Overlord_Batch_Properties\<close>: its invariant. With a store that answers in time, verdicts are true, but for the durable rows
    a failed replacing task may leave; no task is left without a verdict, whatever the store does.

  \<^bold>\<open>Memory budget\<close> (ferrodruid-common/src/memory.rs): theory \<open>Memory\<close>. The steps of concurrent
  threads are the atomic operations, so every interleaving is covered.

  \<^bold>\<open>Parameters.\<close> Code outside the repository enters as arguments: the timestamp functions of chrono (a
  record of operations, or two parsers for interval bounds), the clock, the generator of
  lock identifiers, the JSON reader, the roaring crate (a record of operations), the file system's
  answers when a segment directory is opened, the metadata store (what it returns), the
  floating-point score of a placement, and for queries the printers of floats, regular expressions, date
  parsers and the bloom filter decoder (record \<open>query_lib\<close>), the calendar, and the thread pool with its
  reduction (record \<open>ts_env\<close>), for indexing tasks the JSON reader and the segment builder (record \<open>task_env\<close>), and for locks the timestamps of chrono (record
  \<open>lock_time\<close>, hypothesis \<open>time_ok\<close>) and which operations of the store fail. The properties hold for all of them; where one relies on
  documented behaviour of chrono or roaring the hypothesis is \<open>chrono_ok\<close> or \<open>roaring_ok\<close>. No definition uses fuel: every
  loop is a total function, structural or with a measure, but for the loop that fills empty buckets, which
  can wrap around, and the loop of an indexing task over a partition: these are partial functions whose value \<open>None\<close> is
  not returning, and that they return is proved. Characters of texts are single bytes; case conversion, and what is a letter or a blank of an expression, is that of ASCII. Lengths of buffers and vectors are natural
  numbers; casts to narrower integers, and sums and products that can wrap or saturate, are written
  out on words.

  \<^bold>\<open>Not modelled.\<close> The sockets, the TLS layer, the journal and the timers of replication; on-disk column encodings, the durable publication of files,
  compression, sketches and the aggregators built on them, virtual columns outside scans, post-aggregations and the other query
  operators (groupBy, topN, windows), the SQL and multi-stage engines, the rest of the overlord (reading input, building segments, the victims of a replacing
  task, segment identifiers, the streaming supervisors), the broker client and the streaming loop of Kafka, the other ingestion crates, the other tables of the metadata store,
  authentication, and the HTTP surface. The score functions of
  balancer.rs are floating-point arithmetic and enter as a parameter. Logging and counters that are
  only logged are left out.
\<close>

end
